(* ===== verification/Prelude.thy ===== *)
theory Prelude
  imports
    Main
    "HOL-Library.Word"
    "HOL-Library.Char_ord"
    "HOL-Library.List_Lexorder"
begin

text \<open>
  Shared vocabulary of the development: machine integers, bytes and C strings, the GLib list
  functions the C code calls (inserting into and sorting a linked list with a comparison
  function), the C string searches (strcmp, strchr, strrchr, strtok_r), the mode tests of
  sys/stat.h, and the generic lemmas about them.  A byte is a \<open>char\<close>; a C string is the list of
  its bytes without the terminating zero, so \<open>strlen\<close> is \<open>length\<close>.
\<close>

unbundle bit_operations_syntax

named_theorems codec "equations that evaluate the on-disk encoders and decoders"
named_theorems frame "parts of a state an operation does not change"

section \<open>Machine integers and bytes\<close>

type_synonym u8 = "8 word"
type_synonym u32 = "32 word"
type_synonym u64 = "64 word"
type_synonym bytes = string

text \<open>The value of a byte and the byte of a value (modulo 256).\<close>

abbreviation byte_val :: "char \<Rightarrow> nat" where
  "byte_val c \<equiv> of_char c"

lemma byte_val_less [simp]: "byte_val c < 256"
  by simp

text \<open>Big-endian digits: \<open>n\<close> bytes of the value \<open>v\<close> (htonl and hton64 on a little-endian host).\<close>

fun be_bytes :: "nat \<Rightarrow> nat \<Rightarrow> bytes" where
  "be_bytes 0 v = []"
| "be_bytes (Suc n) v = be_bytes n (v div 256) @ [char_of (v mod 256)]"

definition be_val :: "bytes \<Rightarrow> nat" where
  "be_val bs = foldl (\<lambda>a b. a * 256 + byte_val b) 0 bs"

lemma length_be_bytes [simp]: "length (be_bytes n v) = n"
  by (induction n arbitrary: v) auto

lemma be_val_snoc: "be_val (bs @ [b]) = be_val bs * 256 + byte_val b"
  by (simp add: be_val_def)

lemma be_val_be_bytes: "be_val (be_bytes n v) = v mod 256 ^ n"
proof (induction n arbitrary: v)
  case 0
  then show ?case by (simp add: be_val_def)
next
  case (Suc n)
  have "v mod 256 ^ Suc n = (v div 256 mod 256 ^ n) * 256 + v mod 256"
    by (simp add: mod_mult2_eq)
  then show ?case by (simp add: be_val_snoc Suc.IH)
qed

lemma be_val_u32 [codec]: "be_val (be_bytes 4 (unat (w :: u32))) = unat w"
proof -
  have "unat w < 2 ^ LENGTH(32)" by (rule unsigned_less)
  then show ?thesis by (simp add: be_val_be_bytes)
qed

lemma be_val_u64 [codec]: "be_val (be_bytes 8 (unat (w :: u64))) = unat w"
proof -
  have "unat w < 2 ^ LENGTH(64)" by (rule unsigned_less)
  then show ?thesis by (simp add: be_val_be_bytes)
qed

section \<open>File modes\<close>

text \<open>\<open>S_ISREG\<close>, \<open>S_ISDIR\<close>: the type bits of a mode, \<open>S_IFMT = 0170000\<close>.\<close>

definition S_IFMT :: u32 where "S_IFMT = 0xF000"
definition S_IFREG :: u32 where "S_IFREG = 0x8000"
definition S_IFDIR :: u32 where "S_IFDIR = 0x4000"

definition S_ISREG :: "u32 \<Rightarrow> bool" where
  "S_ISREG m \<longleftrightarrow> m AND S_IFMT = S_IFREG"

definition S_ISDIR :: "u32 \<Rightarrow> bool" where
  "S_ISDIR m \<longleftrightarrow> m AND S_IFMT = S_IFDIR"

lemma not_reg_and_dir: "S_ISREG m \<Longrightarrow> \<not> S_ISDIR m"
  by (simp add: S_ISREG_def S_ISDIR_def S_IFREG_def S_IFDIR_def)

lemma not_dir_and_reg: "S_ISDIR m \<Longrightarrow> \<not> S_ISREG m"
  using not_reg_and_dir by blast

section \<open>C strings\<close>

definition strcmp :: "string \<Rightarrow> string \<Rightarrow> int" where
  "strcmp a b = (if a = b then 0 else if a < b then -1 else 1)"

lemma strcmp_eq_0 [simp]: "strcmp a b = 0 \<longleftrightarrow> a = b"
  by (simp add: strcmp_def)

lemma strcmp_pos [simp]: "strcmp a b > 0 \<longleftrightarrow> b < a"
  by (auto simp: strcmp_def)

lemma strcmp_neg [simp]: "strcmp a b < 0 \<longleftrightarrow> a < b"
  by (auto simp: strcmp_def)

text \<open>The object id of an empty file or directory: forty zeros.\<close>

definition EMPTY_SHA1 :: string where
  "EMPTY_SHA1 = replicate 40 (CHR ''0'')"

lemma length_EMPTY_SHA1 [simp]: "length EMPTY_SHA1 = 40"
  by (simp add: EMPTY_SHA1_def)

text \<open>
  Splitting at the first (\<open>strchr\<close>) or last (\<open>strrchr\<close>) occurrence of a character: what is before
  it, and what is after it when it occurs.
\<close>

definition strchr_split :: "char \<Rightarrow> string \<Rightarrow> string \<times> string option" where
  "strchr_split c s =
     (takeWhile (\<lambda>x. x \<noteq> c) s,
      (case dropWhile (\<lambda>x. x \<noteq> c) s of [] \<Rightarrow> None | _ # r \<Rightarrow> Some r))"

definition strrchr_split :: "char \<Rightarrow> string \<Rightarrow> string \<times> string option" where
  "strrchr_split c s =
     (case strchr_split c (rev s) of
        (a, None) \<Rightarrow> (s, None)
      | (a, Some b) \<Rightarrow> (rev b, Some (rev a)))"

lemma strchr_split_None: "strchr_split c s = (a, None) \<Longrightarrow> a = s \<and> c \<notin> set s"
proof -
  assume "strchr_split c s = (a, None)"
  then have a: "a = takeWhile (\<lambda>x. x \<noteq> c) s" and d: "dropWhile (\<lambda>x. x \<noteq> c) s = []"
    by (auto simp: strchr_split_def split: list.splits)
  from d have "\<forall>x\<in>set s. x \<noteq> c" by simp
  then show ?thesis using a by (auto simp: takeWhile_eq_all_conv)
qed

lemma strchr_split_Some: "strchr_split c s = (a, Some b) \<Longrightarrow> s = a @ c # b \<and> c \<notin> set a"
proof -
  assume "strchr_split c s = (a, Some b)"
  then obtain x where a: "a = takeWhile (\<lambda>x. x \<noteq> c) s" and d: "dropWhile (\<lambda>x. x \<noteq> c) s = x # b"
    by (auto simp: strchr_split_def split: list.splits)
  from d have "x = c" using hd_dropWhile [of "\<lambda>x. x \<noteq> c" s] by force
  then show ?thesis
    using a d takeWhile_dropWhile_id [of "\<lambda>x. x \<noteq> c" s] by (auto dest: set_takeWhileD)
qed

lemma strchr_split_append [simp]: "c \<notin> set a \<Longrightarrow> strchr_split c (a @ c # b) = (a, Some b)"
proof -
  assume "c \<notin> set a"
  then have "takeWhile (\<lambda>x. x \<noteq> c) (a @ c # b) = a" and "dropWhile (\<lambda>x. x \<noteq> c) (a @ c # b) = c # b"
    by (induction a) auto
  then show ?thesis by (simp add: strchr_split_def)
qed

lemma strchr_split_absent [simp]: "c \<notin> set a \<Longrightarrow> strchr_split c a = (a, None)"
  unfolding strchr_split_def
  by (metis (mono_tags, lifting) dropWhile_eq_Nil_conv list.case(1) takeWhile_eq_all_conv)

text \<open>
  Successive calls of \<open>strtok_r\<close> with a one-character delimiter return the non-empty pieces
  between delimiters.
\<close>

fun split_on :: "char \<Rightarrow> string \<Rightarrow> string list" where
  "split_on c [] = [[]]"
| "split_on c (x # xs) =
     (if x = c then [] # split_on c xs
      else (case split_on c xs of [] \<Rightarrow> [[x]] | y # ys \<Rightarrow> (x # y) # ys))"

definition strtok_all :: "char \<Rightarrow> string \<Rightarrow> string list" where
  "strtok_all c s = filter (\<lambda>t. t \<noteq> []) (split_on c s)"

lemma split_on_nonempty [simp]: "split_on c s \<noteq> []"
  by (induction s) (auto split: list.splits)

lemma split_on_no_delim: "t \<in> set (split_on c s) \<Longrightarrow> c \<notin> set t"
proof (induction s arbitrary: t)
  case Nil
  then show ?case by simp
next
  case (Cons x s)
  show ?case
  proof (cases "split_on c s")
    case Nil
    then show ?thesis by simp
  next
    case (Cons y ys)
    with Cons.prems Cons.IH show ?thesis by (auto split: if_splits)
  qed
qed

lemma strtok_all_token: "t \<in> set (strtok_all c s) \<Longrightarrow> t \<noteq> [] \<and> c \<notin> set t"
  by (auto simp: strtok_all_def dest: split_on_no_delim)

lemma split_on_append:
  "split_on c (s @ c # t) = split_on c s @ split_on c t"
  by (induction s) (auto split: list.splits)

lemma split_on_simple: "c \<notin> set s \<Longrightarrow> split_on c s = [s]"
  by (induction s) auto

lemma strtok_all_append: "strtok_all c (s @ c # t) = strtok_all c s @ strtok_all c t"
  by (simp add: strtok_all_def split_on_append)

lemma strtok_all_Nil [simp]: "strtok_all c [] = []"
  by (simp add: strtok_all_def)

lemma strtok_all_simple: "c \<notin> set s \<Longrightarrow> strtok_all c s = (if s = [] then [] else [s])"
  by (simp add: strtok_all_def split_on_simple)

section \<open>GLib lists\<close>

text \<open>
  \<open>g_list_insert_sorted\<close> puts the new element in front of the first element that does not compare
  before it; \<open>g_list_sort\<close> is a stable sort, which inserting the elements from the last to the
  first is.
\<close>

fun g_list_insert_sorted :: "('a \<Rightarrow> 'a \<Rightarrow> int) \<Rightarrow> 'a \<Rightarrow> 'a list \<Rightarrow> 'a list" where
  "g_list_insert_sorted cmp x [] = [x]"
| "g_list_insert_sorted cmp x (y # ys) =
     (if cmp x y > 0 then y # g_list_insert_sorted cmp x ys else x # y # ys)"

definition g_list_sort :: "('a \<Rightarrow> 'a \<Rightarrow> int) \<Rightarrow> 'a list \<Rightarrow> 'a list" where
  "g_list_sort cmp xs = foldr (g_list_insert_sorted cmp) xs []"

lemma set_insert_sorted [simp]: "set (g_list_insert_sorted cmp x xs) = insert x (set xs)"
  by (induction xs) auto

lemma length_insert_sorted [simp]: "length (g_list_insert_sorted cmp x xs) = Suc (length xs)"
  by (induction xs) auto

lemma g_list_sort_Nil [simp]: "g_list_sort cmp [] = []"
  by (simp add: g_list_sort_def)

lemma g_list_sort_Cons [simp]:
  "g_list_sort cmp (x # xs) = g_list_insert_sorted cmp x (g_list_sort cmp xs)"
  by (simp add: g_list_sort_def)

lemma set_g_list_sort [simp]: "set (g_list_sort cmp xs) = set xs"
  by (induction xs) auto

lemma length_g_list_sort [simp]: "length (g_list_sort cmp xs) = length xs"
  by (induction xs) auto

text \<open>
  The comparison functions of the code order by a key, descending:
  \<open>cmp a b = strcmp (key b) (key a)\<close>.
\<close>

definition desc_cmp :: "('a \<Rightarrow> string) \<Rightarrow> 'a \<Rightarrow> 'a \<Rightarrow> int" where
  "desc_cmp key a b = strcmp (key b) (key a)"

abbreviation desc_by :: "('a \<Rightarrow> string) \<Rightarrow> 'a list \<Rightarrow> bool" where
  "desc_by key xs \<equiv> sorted_wrt (\<lambda>a b. key b < key a) xs"

abbreviation desc_by_le :: "('a \<Rightarrow> string) \<Rightarrow> 'a list \<Rightarrow> bool" where
  "desc_by_le key xs \<equiv> sorted_wrt (\<lambda>a b. key b \<le> key a) xs"

lemma desc_by_imp_le: "desc_by key xs \<Longrightarrow> desc_by_le key xs"
  by (erule sorted_wrt_mono_rel [rotated]) auto

lemma desc_by_le_insert:
  "desc_by_le key xs \<Longrightarrow> desc_by_le key (g_list_insert_sorted (desc_cmp key) x xs)"
  by (induction xs) (auto simp: desc_cmp_def dest: order_trans)

lemma desc_by_le_sort: "desc_by_le key (g_list_sort (desc_cmp key) xs)"
  by (induction xs) (auto intro: desc_by_le_insert)

lemma desc_by_insert:
  "desc_by key xs \<Longrightarrow> key x \<notin> key ` set xs \<Longrightarrow>
     desc_by key (g_list_insert_sorted (desc_cmp key) x xs)"
proof (induction xs)
  case Nil
  then show ?case by simp
next
  case (Cons y ys)
  show ?case
  proof (cases "key x < key y")
    case True
    with Cons show ?thesis by (auto simp: desc_cmp_def)
  next
    case False
    with Cons.prems have "key y < key x" by auto
    with Cons.prems show ?thesis by (auto simp: desc_cmp_def dest: order.strict_trans)
  qed
qed

lemma desc_by_sort:
  "distinct (map key xs) \<Longrightarrow> desc_by key (g_list_sort (desc_cmp key) xs)"
  by (induction xs) (auto intro: desc_by_insert)

lemma insert_sorted_head:
  "(\<And>y. y \<in> set xs \<Longrightarrow> key y \<le> key x) \<Longrightarrow> g_list_insert_sorted (desc_cmp key) x xs = x # xs"
  by (cases xs) (force simp: desc_cmp_def not_less)+

text \<open>A list already in descending order is a fixed point of the sort.\<close>

lemma g_list_sort_id: "desc_by_le key xs \<Longrightarrow> g_list_sort (desc_cmp key) xs = xs"
  by (induction xs) (auto simp: insert_sorted_head)

lemma desc_by_distinct: "desc_by key xs \<Longrightarrow> distinct (map key xs)"
  by (induction xs) auto

lemma desc_by_unique:
  "desc_by key xs \<Longrightarrow> desc_by key ys \<Longrightarrow> set xs = set ys \<Longrightarrow> xs = ys"
proof (induction xs arbitrary: ys)
  case Nil
  then show ?case by simp
next
  case (Cons x xs)
  then obtain y ys' where ys: "ys = y # ys'" by (cases ys) auto
  have xy: "x = y"
  proof (rule ccontr)
    assume ne: "x \<noteq> y"
    have "x \<in> set ys'" using Cons.prems(3) ys ne by auto
    then have "key x < key y" using Cons.prems(2) ys by auto
    moreover have "y \<in> set xs" using Cons.prems(3) ys ne by auto
    then have "key y < key x" using Cons.prems(1) by auto
    ultimately show False by auto
  qed
  have "x \<notin> set xs" "y \<notin> set ys'" using Cons.prems ys by auto
  then have "set xs = set ys'" using Cons.prems(3) ys xy by auto
  then show ?case using Cons ys xy by auto
qed

text \<open>Looking an element up by its key.\<close>

abbreviation find_key :: "('a \<Rightarrow> string) \<Rightarrow> string \<Rightarrow> 'a list \<Rightarrow> 'a option" where
  "find_key key k xs \<equiv> find (\<lambda>x. key x = k) xs"

lemma find_key_None: "find_key key k xs = None \<longleftrightarrow> k \<notin> key ` set xs"
  by (auto simp: find_None_iff)

lemma find_key_SomeD: "find_key key k xs = Some x \<Longrightarrow> x \<in> set xs \<and> key x = k"
  by (auto simp: find_Some_iff in_set_conv_nth)

lemma find_key_in:
  "distinct (map key xs) \<Longrightarrow> x \<in> set xs \<Longrightarrow> find_key key (key x) xs = Some x"
  by (induction xs) (auto simp: image_iff)

section \<open>Decimal numbers\<close>

text \<open>What \<open>printf\<close> writes for \<open>%u\<close> and \<open>%d\<close>.\<close>

fun nat_to_string :: "nat \<Rightarrow> string" where
  "nat_to_string n =
     (if n < 10 then [char_of (48 + n)] else nat_to_string (n div 10) @ [char_of (48 + n mod 10)])"

declare nat_to_string.simps [simp del]

definition int_to_string :: "int \<Rightarrow> string" where
  "int_to_string i = (if i < 0 then CHR ''-'' # nat_to_string (nat (- i)) else nat_to_string (nat i))"

lemma digit_inj: "char_of (48 + a) = (char_of (48 + b) :: char) \<Longrightarrow> a < 10 \<Longrightarrow> b < 10 \<Longrightarrow> a = (b :: nat)"
  by (drule arg_cong [of _ _ "of_char :: char \<Rightarrow> nat"]) simp

lemma nat_to_string_split:
  "nat_to_string n = (if n < 10 then [] else nat_to_string (n div 10)) @ [char_of (48 + n mod 10)]"
  by (subst nat_to_string.simps) simp

lemma nat_to_string_ne: "nat_to_string n \<noteq> []"
  by (subst nat_to_string_split) simp

lemma nat_to_string_inj: "nat_to_string m = nat_to_string n \<Longrightarrow> m = n"
proof (induction m arbitrary: n rule: less_induct)
  case (less m)
  let ?f = "\<lambda>n. if n < 10 then [] else nat_to_string (n div 10)"
  have "?f m @ [char_of (48 + m mod 10)] = ?f n @ [char_of (48 + n mod 10)]"
    using less.prems by (simp only: nat_to_string_split [symmetric])
  then have f: "?f m = ?f n" and "char_of (48 + m mod 10) = (char_of (48 + n mod 10) :: char)"
    by simp_all
  then have r: "m mod 10 = n mod 10" using digit_inj by simp
  have "m div 10 = n div 10"
  proof (cases "m < 10 \<or> n < 10")
    case True
    then show ?thesis using f nat_to_string_ne [of "m div 10"] nat_to_string_ne [of "n div 10"] by (auto split: if_splits)
  next
    case False
    then show ?thesis using f less.IH [of "m div 10" "n div 10"] by simp
  qed
  with r show ?case by (metis div_mult_mod_eq)
qed

end
