(* ===== verification/Utils.thy ===== *)
theory Utils
  imports Prelude
begin

text \<open>
  The helpers of \<open>lib/utils.c\<close> the other components call: raw bytes to hexadecimal text and back,
  the validity test of object ids, lists of strings, directory paths, the permission names, and
  the accessors of JSON values.
\<close>

unbundle bit_operations_syntax

section \<open>Hexadecimal text\<close>

definition hex_digits :: string where
  "hex_digits = ''0123456789abcdef''"

text \<open>\<open>rawdata_to_hex\<close>: two digits for each byte, the high half first.\<close>

fun rawdata_to_hex :: "bytes \<Rightarrow> string" where
  "rawdata_to_hex [] = []"
| "rawdata_to_hex (b # bs) =
     hex_digits ! (byte_val b div 16) # hex_digits ! (byte_val b mod 16) # rawdata_to_hex bs"

text \<open>\<open>hexval\<close>: the value of a digit, all ones (\<open>~0\<close>) for another character.\<close>

definition hexval :: "char \<Rightarrow> u32" where
  "hexval c =
     (if CHR ''0'' \<le> c \<and> c \<le> CHR ''9'' then of_nat (byte_val c - byte_val CHR ''0'')
      else if CHR ''a'' \<le> c \<and> c \<le> CHR ''f'' then of_nat (byte_val c - byte_val CHR ''a'' + 10)
      else if CHR ''A'' \<le> c \<and> c \<le> CHR ''F'' then of_nat (byte_val c - byte_val CHR ''A'' + 10)
      else NOT 0)"

text \<open>The byte at an index of a C string; the terminating zero past its end.\<close>

definition char_at :: "string \<Rightarrow> nat \<Rightarrow> char" where
  "char_at s i = (if i < length s then s ! i else CHR 0x00)"

text \<open>\<open>hex_to_rawdata\<close>: \<open>n\<close> bytes from two digits each; \<open>None\<close> is the return value -1.\<close>

fun hex_to_rawdata :: "nat \<Rightarrow> string \<Rightarrow> bytes option" where
  "hex_to_rawdata 0 s = Some []"
| "hex_to_rawdata (Suc n) s =
     (let val = push_bit 4 (hexval (char_at s 0)) OR hexval (char_at s 1)
      in if val AND NOT 0xFF \<noteq> 0 then None
         else (case hex_to_rawdata n (drop 2 s) of
                 None \<Rightarrow> None
               | Some r \<Rightarrow> Some (char_of (unat val) # r)))"

text \<open>\<open>is_object_id_valid\<close>: forty lower-case hexadecimal digits.\<close>

definition is_object_id_valid :: "string \<Rightarrow> bool" where
  "is_object_id_valid s \<longleftrightarrow>
     length s = 40 \<and>
     list_all (\<lambda>c. (CHR ''0'' \<le> c \<and> c \<le> CHR ''9'') \<or> (CHR ''a'' \<le> c \<and> c \<le> CHR ''f'')) s"

subsection \<open>Digits\<close>

lemma unat_of_nat_small: "n < 256 \<Longrightarrow> unat (of_nat n :: u32) = n"
  by (simp add: unat_of_nat take_bit_nat_eq_self)

lemma length_rawdata_to_hex [simp]: "length (rawdata_to_hex bs) = 2 * length bs"
  by (induction bs) auto

lemma nibbles_table:
  "list_all (\<lambda>h. list_all (\<lambda>l.
     push_bit 4 (hexval (hex_digits ! h)) OR hexval (hex_digits ! l) = of_nat (h * 16 + l) \<and>
     (of_nat (h * 16 + l) :: u32) AND NOT 0xFF = 0) [0..<16]) [0..<16]"
  by code_simp

lemma nibbles:
  assumes "h < 16" and "l < 16"
  shows "push_bit 4 (hexval (hex_digits ! h)) OR hexval (hex_digits ! l) = of_nat (h * 16 + l)"
    and "(of_nat (h * 16 + l) :: u32) AND NOT 0xFF = 0"
  using nibbles_table assms by (auto simp: list_all_iff)

lemma hex_digit_table:
  "list_all (\<lambda>h. let c = hex_digits ! h in
     (CHR ''0'' \<le> c \<and> c \<le> CHR ''9'') \<or> (CHR ''a'' \<le> c \<and> c \<le> CHR ''f'')) [0..<16]"
  by code_simp

lemma hex_digit_valid:
  "h < 16 \<Longrightarrow> (CHR ''0'' \<le> hex_digits ! h \<and> hex_digits ! h \<le> CHR ''9'') \<or>
              (CHR ''a'' \<le> hex_digits ! h \<and> hex_digits ! h \<le> CHR ''f'')"
  using hex_digit_table by (auto simp: list_all_iff Let_def)

lemma byte_div_16: "byte_val b div 16 < 16"
  by (rule less_mult_imp_div_less) simp

text \<open>The text of twenty bytes (an SHA-1 digest) is a valid object id.\<close>

lemma hex_chars_valid:
  "list_all (\<lambda>c. (CHR ''0'' \<le> c \<and> c \<le> CHR ''9'') \<or> (CHR ''a'' \<le> c \<and> c \<le> CHR ''f''))
     (rawdata_to_hex bs)"
proof (induction bs)
  case Nil
  then show ?case by simp
next
  case (Cons b bs)
  have "byte_val b div 16 < 16" by (rule byte_div_16)
  then show ?case using Cons.IH hex_digit_valid by auto
qed

lemma rawdata_to_hex_valid: "length bs = 20 \<Longrightarrow> is_object_id_valid (rawdata_to_hex bs)"
  using hex_chars_valid [of bs] by (simp add: is_object_id_valid_def)

lemma char_at_simps [simp]:
  "char_at (a # s) 0 = a"
  "char_at (a # b # s) (Suc 0) = b"
  by (simp_all add: char_at_def)

text \<open>Digits decode to what they encode; what follows them in the text is left alone.\<close>

lemma hex_to_rawdata_append:
  "hex_to_rawdata (length bs) (rawdata_to_hex bs @ rest) = Some bs"
proof (induction bs)
  case Nil
  then show ?case by simp
next
  case (Cons b bs)
  define h l where hl: "h = byte_val b div 16" "l = byte_val b mod 16"
  have h: "h < 16" unfolding hl by (rule byte_div_16)
  have l: "l < 16" by (simp add: hl)
  have sum: "h * 16 + l = byte_val b" by (simp add: hl)
  have "unat (of_nat (byte_val b) :: u32) = byte_val b"
    by (rule unat_of_nat_small) simp
  then show ?case
    using Cons.IH nibbles [OF h l] by (simp add: hl [symmetric] sum)
qed

text \<open>The other direction: a valid id is what its raw bytes print as.\<close>

lemma lower_hex_table:
  "list_all (\<lambda>n. let v = unat (hexval (char_of n)) in v < 16 \<and> hex_digits ! v = char_of n)
     [48, 49, 50, 51, 52, 53, 54, 55, 56, 57, 97, 98, 99, 100, 101, 102 :: nat]"
  by code_simp

lemma lower_hex:
  assumes "(CHR ''0'' \<le> c \<and> c \<le> CHR ''9'') \<or> (CHR ''a'' \<le> c \<and> c \<le> CHR ''f'')"
  shows "unat (hexval c) < 16" and "hex_digits ! unat (hexval c) = c"
proof -
  have "(48 \<le> byte_val c \<and> byte_val c \<le> 57) \<or> (97 \<le> byte_val c \<and> byte_val c \<le> 102)"
    using assms by (simp add: less_eq_char_def del: less_eq_char_simp)
  then have "byte_val c \<in> set [48, 49, 50, 51, 52, 53, 54, 55, 56, 57, 97, 98, 99, 100, 101, 102]"
    by simp arith
  with lower_hex_table have "let v = unat (hexval (char_of (byte_val c))) in
      v < 16 \<and> hex_digits ! v = char_of (byte_val c)"
    unfolding list_all_iff by blast
  then show "unat (hexval c) < 16" and "hex_digits ! unat (hexval c) = c"
    by (simp_all add: Let_def)
qed

text \<open>One valid byte of text.\<close>

lemma hexval_nibble:
  assumes "(CHR ''0'' \<le> c \<and> c \<le> CHR ''9'') \<or> (CHR ''a'' \<le> c \<and> c \<le> CHR ''f'')"
  obtains h where "h < 16" and "c = hex_digits ! h"
  using lower_hex [OF assms] that by metis

lemma rawdata_to_hex_hex_to_rawdata:
  "length s = 2 * n \<Longrightarrow>
   list_all (\<lambda>c. (CHR ''0'' \<le> c \<and> c \<le> CHR ''9'') \<or> (CHR ''a'' \<le> c \<and> c \<le> CHR ''f'')) s \<Longrightarrow>
   \<exists>r. hex_to_rawdata n s = Some r \<and> length r = n \<and> rawdata_to_hex r = s"
proof (induction n arbitrary: s)
  case 0
  then show ?case by simp
next
  case (Suc n)
  then obtain a b s' where s: "s = a # b # s'" and len: "length s' = 2 * n"
    by (metis (no_types, lifting) Suc_length_conv mult_Suc_right add_2_eq_Suc)
  from Suc.prems(2) s obtain h l where
    h: "h < 16" "a = hex_digits ! h" and l: "l < 16" "b = hex_digits ! l"
    by (auto elim!: hexval_nibble [of a] hexval_nibble [of b])
  have v: "h * 16 + l < 256" using h(1) l(1) by linarith
  have byte: "byte_val (char_of (unat (of_nat (h * 16 + l) :: u32))) = h * 16 + l"
    unfolding unat_of_nat_small [OF v] using v by simp
  from Suc.IH [OF len] Suc.prems(2) s obtain r where
    r: "hex_to_rawdata n s' = Some r" "length r = n" "rawdata_to_hex r = s'" by auto
  have dec: "hex_to_rawdata (Suc n) s = Some (char_of (unat (of_nat (h * 16 + l) :: u32)) # r)"
    using nibbles [OF h(1) l(1)] r(1) h(2) l(2) by (simp add: s)
  moreover have "(h * 16 + l) div 16 = h" and "(h * 16 + l) mod 16 = l"
    using h(1) l(1) by auto
  ultimately show ?case
    using r h l byte by (simp add: s)
qed

lemma valid_id_roundtrip:
  "is_object_id_valid s \<Longrightarrow> \<exists>r. hex_to_rawdata 20 s = Some r \<and> length r = 20 \<and> rawdata_to_hex r = s"
  using rawdata_to_hex_hex_to_rawdata [of s 20] by (simp add: is_object_id_valid_def)

section \<open>Lists of strings\<close>

text \<open>\<open>string_list_is_exists\<close>, \<open>string_list_append\<close>, \<open>string_list_append_sorted\<close>,
  \<open>string_list_remove\<close>, \<open>string_list_join\<close> and \<open>string_list_sorted_is_equal\<close>.\<close>

fun string_list_is_exists :: "string list \<Rightarrow> string \<Rightarrow> bool" where
  "string_list_is_exists [] s = False"
| "string_list_is_exists (x # xs) s = (if strcmp s x = 0 then True else string_list_is_exists xs s)"

definition string_list_append :: "string list \<Rightarrow> string \<Rightarrow> string list" where
  "string_list_append xs s = (if string_list_is_exists xs s then xs else xs @ [s])"

definition string_list_append_sorted :: "string list \<Rightarrow> string \<Rightarrow> string list" where
  "string_list_append_sorted xs s =
     (if string_list_is_exists xs s then xs else g_list_insert_sorted strcmp s xs)"

fun string_list_remove :: "string list \<Rightarrow> string \<Rightarrow> string list" where
  "string_list_remove [] s = []"
| "string_list_remove (x # xs) s = (if strcmp x s = 0 then xs else x # string_list_remove xs s)"

fun string_list_join :: "string list \<Rightarrow> string \<Rightarrow> string" where
  "string_list_join [] sep = []"
| "string_list_join [x] sep = x"
| "string_list_join (x # y # xs) sep = x @ sep @ string_list_join (y # xs) sep"

fun string_list_sorted_is_equal :: "string list \<Rightarrow> string list \<Rightarrow> bool" where
  "string_list_sorted_is_equal (x # xs) (y # ys) =
     (if strcmp x y \<noteq> 0 then False else string_list_sorted_is_equal xs ys)"
| "string_list_sorted_is_equal xs ys = (xs = [] \<and> ys = [])"

lemma string_list_is_exists_iff [simp]: "string_list_is_exists xs s \<longleftrightarrow> s \<in> set xs"
  by (induction xs) auto

lemma string_list_append_inv:
  "distinct xs \<Longrightarrow> distinct (string_list_append xs s) \<and> set (string_list_append xs s) = insert s (set xs)"
  by (auto simp: string_list_append_def)

lemma sorted_insert_strcmp:
  "sorted_wrt (<) xs \<Longrightarrow> s \<notin> set xs \<Longrightarrow> sorted_wrt (<) (g_list_insert_sorted strcmp s xs)"
proof (induction xs)
  case Nil
  then show ?case by simp
next
  case (Cons x xs)
  show ?case
  proof (cases "x < s")
    case True
    with Cons show ?thesis by auto
  next
    case False
    with Cons.prems have "s < x" by auto
    with Cons.prems show ?thesis by (auto dest: order.strict_trans)
  qed
qed

lemma string_list_append_sorted_inv:
  "sorted_wrt (<) xs \<Longrightarrow>
   sorted_wrt (<) (string_list_append_sorted xs s) \<and>
   set (string_list_append_sorted xs s) = insert s (set xs)"
  by (auto simp: string_list_append_sorted_def intro: sorted_insert_strcmp)

lemma string_list_remove_set:
  "distinct xs \<Longrightarrow> distinct (string_list_remove xs s) \<and> set (string_list_remove xs s) = set xs - {s}"
  by (induction xs) auto

lemma string_list_sorted_is_equal_iff [simp]: "string_list_sorted_is_equal xs ys \<longleftrightarrow> xs = ys"
  by (induction xs ys rule: string_list_sorted_is_equal.induct) auto

section \<open>Directory paths and permissions\<close>

text \<open>
  \<open>format_dir_path\<close>: a leading slash is added when it is missing, trailing slashes are cut while
  more than one character is left.
\<close>

fun cut_slashes :: "string \<Rightarrow> string" where
  "cut_slashes (c # d # cs) = (if c = CHR ''/'' then cut_slashes (d # cs) else c # d # cs)"
| "cut_slashes cs = cs"

definition format_dir_path :: "string \<Rightarrow> string" where
  "format_dir_path path =
     (let rpath = (if char_at path 0 \<noteq> CHR ''/'' then CHR ''/'' # path else path)
      in rev (cut_slashes (rev rpath)))"

definition is_empty_string :: "string option \<Rightarrow> bool" where
  "is_empty_string s = (case s of None \<Rightarrow> True | Some t \<Rightarrow> strcmp t [] = 0)"

definition is_permission_valid :: "string option \<Rightarrow> bool" where
  "is_permission_valid perm =
     (if is_empty_string perm then False
      else (case perm of None \<Rightarrow> False
            | Some p \<Rightarrow> strcmp p ''r'' = 0 \<or> strcmp p ''rw'' = 0))"

lemma cut_slashes_idem: "cut_slashes (cut_slashes s) = cut_slashes s"
  by (induction s rule: cut_slashes.induct) auto

lemma cut_slashes_last: "s \<noteq> [] \<Longrightarrow> cut_slashes s \<noteq> [] \<and> last (cut_slashes s) = last s"
  by (induction s rule: cut_slashes.induct) auto

lemma cut_slashes_head:
  "cut_slashes s = c # d # t \<Longrightarrow> c \<noteq> CHR ''/''"
  by (induction s rule: cut_slashes.induct) (auto split: if_splits)

lemma format_dir_path_shape:
  obtains t where "format_dir_path path = CHR ''/'' # t"
    and "t \<noteq> [] \<longrightarrow> last t \<noteq> CHR ''/''"
proof -
  define r where "r = (if char_at path 0 \<noteq> CHR ''/'' then CHR ''/'' # path else path)"
  have r: "r \<noteq> []" "hd r = CHR ''/''"
    by (cases path; auto simp: r_def char_at_def)+
  define c where "c = cut_slashes (rev r)"
  have c: "c \<noteq> []" "last c = CHR ''/''"
    using r cut_slashes_last [of "rev r"] by (auto simp: c_def last_rev)
  then obtain u where u: "c = u @ [CHR ''/'']" by (metis append_butlast_last_id)
  have "format_dir_path path = CHR ''/'' # rev u"
    by (simp add: format_dir_path_def r_def [symmetric] c_def [symmetric] u)
  moreover have "rev u \<noteq> [] \<longrightarrow> last (rev u) \<noteq> CHR ''/''"
  proof
    assume "rev u \<noteq> []"
    then obtain a v where v: "u = a # v" by (cases u) auto
    then obtain d w where "c = a # d # w" using u by (cases v) auto
    then have "a \<noteq> CHR ''/''" using cut_slashes_head [of "rev r" a d w] by (simp add: c_def)
    then show "last (rev u) \<noteq> CHR ''/''" using v by (simp add: last_rev)
  qed
  ultimately show ?thesis using that by blast
qed

section \<open>JSON values\<close>

text \<open>
  A JSON value as the jansson library hands it to the code, and the accessors of \<open>lib/utils.c\<close> on
  top of jansson's documented ones: \<open>json_object_get\<close> finds no member of a value that is not an
  object, \<open>json_string_value\<close> of another value is NULL, \<open>json_integer_value\<close> of another value is
  0, \<open>json_object_set_new\<close> replaces a member of the same key.
\<close>

datatype json =
    JNull
  | JInteger int
  | JString string
  | JArray "json list"
  | JObject "(string \<times> json) list"

definition json_object_get :: "json \<Rightarrow> string \<Rightarrow> json option" where
  "json_object_get j key = (case j of JObject kvs \<Rightarrow> map_of kvs key | _ \<Rightarrow> None)"

definition json_string_value :: "json option \<Rightarrow> string option" where
  "json_string_value j = (case j of Some (JString s) \<Rightarrow> Some s | _ \<Rightarrow> None)"

definition json_integer_value :: "json option \<Rightarrow> int" where
  "json_integer_value j = (case j of Some (JInteger i) \<Rightarrow> i | _ \<Rightarrow> 0)"

fun json_object_set_new :: "(string \<times> json) list \<Rightarrow> string \<Rightarrow> json \<Rightarrow> (string \<times> json) list" where
  "json_object_set_new [] k v = [(k, v)]"
| "json_object_set_new ((k', v') # kvs) k v =
     (if k' = k then (k, v) # kvs else (k', v') # json_object_set_new kvs k v)"

definition json_object_get_string_member :: "json \<Rightarrow> string \<Rightarrow> string option" where
  "json_object_get_string_member obj key =
     (case json_object_get obj key of None \<Rightarrow> None | Some s \<Rightarrow> json_string_value (Some s))"

definition json_object_has_member :: "json \<Rightarrow> string \<Rightarrow> bool" where
  "json_object_has_member obj key = (json_object_get obj key \<noteq> None)"

definition json_object_get_int_member :: "json \<Rightarrow> string \<Rightarrow> int" where
  "json_object_get_int_member obj key = json_integer_value (json_object_get obj key)"

definition json_object_set_string_member ::
    "(string \<times> json) list \<Rightarrow> string \<Rightarrow> string \<Rightarrow> (string \<times> json) list" where
  "json_object_set_string_member kvs key v = json_object_set_new kvs key (JString v)"

definition json_object_set_int_member ::
    "(string \<times> json) list \<Rightarrow> string \<Rightarrow> int \<Rightarrow> (string \<times> json) list" where
  "json_object_set_int_member kvs key v = json_object_set_new kvs key (JInteger v)"

lemma map_of_set_new [simp]: "map_of (json_object_set_new kvs k v) = (map_of kvs)(k \<mapsto> v)"
  by (induction kvs k v rule: json_object_set_new.induct) auto

lemma get_string_member [codec]:
  "json_object_get_string_member (JObject kvs) k =
     (case map_of kvs k of Some (JString s) \<Rightarrow> Some s | _ \<Rightarrow> None)"
  by (simp add: json_object_get_string_member_def json_object_get_def json_string_value_def
      split: option.splits json.splits)

lemma get_int_member [codec]:
  "json_object_get_int_member (JObject kvs) k =
     (case map_of kvs k of Some (JInteger i) \<Rightarrow> i | _ \<Rightarrow> 0)"
  by (simp add: json_object_get_int_member_def json_object_get_def json_integer_value_def)

lemmas json_set_defs [codec] = json_object_set_string_member_def json_object_set_int_member_def

section \<open>Libraries\<close>

text \<open>
  What the code takes from libraries that are not part of the repository: OpenSSL's SHA-1 (twenty
  bytes), jansson's printer (with sorted keys) and parser, zlib through
  \<open>seaf_compress\<close> and \<open>seaf_decompress\<close>, and libuuid's \<open>uuid_parse\<close>.
\<close>

record libs =
  lib_sha1 :: "bytes \<Rightarrow> bytes"
  lib_json_dumps :: "json \<Rightarrow> bytes"
  lib_json_loadb :: "bytes \<Rightarrow> json option"
  lib_compress :: "bytes \<Rightarrow> bytes option"
  lib_decompress :: "bytes \<Rightarrow> bytes option"
  lib_uuid_parse :: "string \<Rightarrow> bool"

definition is_uuid_valid :: "libs \<Rightarrow> string \<Rightarrow> bool" where
  "is_uuid_valid L s = lib_uuid_parse L s"

text \<open>\<open>calculate_sha1\<close> followed by \<open>rawdata_to_hex\<close>: the object id of some data.\<close>

definition sha1_hex :: "libs \<Rightarrow> bytes \<Rightarrow> string" where
  "sha1_hex L d = rawdata_to_hex (lib_sha1 L d)"

lemma sha1_hex_valid: "length (lib_sha1 L d) = 20 \<Longrightarrow> is_object_id_valid (sha1_hex L d)"
  by (simp add: sha1_hex_def rawdata_to_hex_valid)

end
