(* ===== verification/ObjStore.thy ===== *)
theory ObjStore
  imports Utils
begin

text \<open>
  The object store (\<open>common/obj-store.c\<close>) over its file system backend
  (\<open>common/obj-backend-fs.c\<close>): an object of a repository is a file at
  \<open>obj_dir/repo_id/\<close>, two digits of the id, a slash, the other thirty-eight.  The locale
  \<open>object_store\<close> is the interface the fs and commit managers rely on; it is interpreted on the
  store's own operations at the end.
\<close>

section \<open>The backend\<close>

text \<open>
  The state of the backend: its directory, the object files by path, and, as the behaviour of the
  file system, the paths at which a write (create, write, sync, close, rename) succeeds.  A write
  goes to a temporary file that is renamed, so a failed one leaves the object files as they were.
\<close>

record obj_store =
  obj_dir :: string
  files :: "string \<Rightarrow> bytes option"
  disk_ok :: "string \<Rightarrow> bool"

definition id_to_path :: "string \<Rightarrow> string \<Rightarrow> string \<Rightarrow> string" where
  "id_to_path dir obj_id repo_id =
     dir @ ''/'' @ repo_id @ ''/'' @ take 2 obj_id @ ''/'' @ drop 2 obj_id"

definition obj_backend_fs_read :: "obj_store \<Rightarrow> string \<Rightarrow> string \<Rightarrow> bytes option" where
  "obj_backend_fs_read st repo_id obj_id = files st (id_to_path (obj_dir st) obj_id repo_id)"

definition save_obj_contents :: "obj_store \<Rightarrow> string \<Rightarrow> bytes \<Rightarrow> int \<times> obj_store" where
  "save_obj_contents st path data =
     (if disk_ok st path then (0, st\<lparr>files := (files st)(path \<mapsto> data)\<rparr>) else (-1, st))"

definition obj_backend_fs_write ::
    "obj_store \<Rightarrow> string \<Rightarrow> string \<Rightarrow> bytes \<Rightarrow> int \<times> obj_store" where
  "obj_backend_fs_write st repo_id obj_id data =
     (case save_obj_contents st (id_to_path (obj_dir st) obj_id repo_id) data of
        (ret, st') \<Rightarrow> if ret < 0 then (-1, st') else (0, st'))"

definition obj_backend_fs_exists :: "obj_store \<Rightarrow> string \<Rightarrow> string \<Rightarrow> bool" where
  "obj_backend_fs_exists st repo_id obj_id =
     (files st (id_to_path (obj_dir st) obj_id repo_id) \<noteq> None)"

definition obj_backend_fs_delete :: "obj_store \<Rightarrow> string \<Rightarrow> string \<Rightarrow> obj_store" where
  "obj_backend_fs_delete st repo_id obj_id =
     st\<lparr>files := (files st)(id_to_path (obj_dir st) obj_id repo_id := None)\<rparr>"

text \<open>\<open>obj_backend_fs_copy\<close> links the source file to the destination unless that exists.\<close>

definition obj_backend_fs_copy ::
    "obj_store \<Rightarrow> string \<Rightarrow> string \<Rightarrow> string \<Rightarrow> int \<times> obj_store" where
  "obj_backend_fs_copy st src_repo_id dst_repo_id obj_id =
     (let src_path = id_to_path (obj_dir st) obj_id src_repo_id;
          dst_path = id_to_path (obj_dir st) obj_id dst_repo_id
      in if files st dst_path \<noteq> None then (0, st)
         else (case files st src_path of
                 None \<Rightarrow> (-1, st)
               | Some d \<Rightarrow>
                   if disk_ok st dst_path then (0, st\<lparr>files := (files st)(dst_path \<mapsto> d)\<rparr>)
                   else (-1, st)))"

text \<open>\<open>obj_backend_fs_remove_store\<close> unlinks every file two levels below the store's directory.\<close>

definition in_store :: "string \<Rightarrow> string \<Rightarrow> string \<Rightarrow> bool" where
  "in_store dir store_id path =
     (let pre = dir @ ''/'' @ store_id @ ''/'' in
      take (length pre) path = pre \<and>
      (case strchr_split (CHR ''/'') (drop (length pre) path) of
         (_, None) \<Rightarrow> False
       | (_, Some y) \<Rightarrow> CHR ''/'' \<notin> set y))"

definition obj_backend_fs_remove_store :: "obj_store \<Rightarrow> string \<Rightarrow> int \<times> obj_store" where
  "obj_backend_fs_remove_store st store_id =
     (0, st\<lparr>files := (\<lambda>p. if in_store (obj_dir st) store_id p then None else files st p)\<rparr>)"

text \<open>
  \<open>obj_backend_fs_foreach_obj\<close>: the ids in the order the directories list them; the callback's
  FALSE ends the walk, which still returns 0.
\<close>

fun obj_backend_fs_foreach_obj ::
    "string list \<Rightarrow> (string \<Rightarrow> 'u \<Rightarrow> bool \<times> 'u) \<Rightarrow> 'u \<Rightarrow> int \<times> 'u" where
  "obj_backend_fs_foreach_obj [] process u = (0, u)"
| "obj_backend_fs_foreach_obj (obj_id # ids) process u =
     (case process obj_id u of
        (False, u') \<Rightarrow> (0, u')
      | (True, u') \<Rightarrow> obj_backend_fs_foreach_obj ids process u')"

section \<open>The store\<close>

definition store_args_ok :: "libs \<Rightarrow> string \<Rightarrow> string \<Rightarrow> bool" where
  "store_args_ok L repo_id obj_id \<longleftrightarrow> is_uuid_valid L repo_id \<and> is_object_id_valid obj_id"

definition seaf_obj_store_read_obj ::
    "libs \<Rightarrow> obj_store \<Rightarrow> string \<Rightarrow> string \<Rightarrow> bytes option" where
  "seaf_obj_store_read_obj L st repo_id obj_id =
     (if \<not> is_uuid_valid L repo_id \<or> \<not> is_object_id_valid obj_id then None
      else obj_backend_fs_read st repo_id obj_id)"

definition seaf_obj_store_write_obj ::
    "libs \<Rightarrow> obj_store \<Rightarrow> string \<Rightarrow> string \<Rightarrow> bytes \<Rightarrow> int \<times> obj_store" where
  "seaf_obj_store_write_obj L st repo_id obj_id data =
     (if \<not> is_uuid_valid L repo_id \<or> \<not> is_object_id_valid obj_id then (-1, st)
      else obj_backend_fs_write st repo_id obj_id data)"

definition seaf_obj_store_obj_exists :: "libs \<Rightarrow> obj_store \<Rightarrow> string \<Rightarrow> string \<Rightarrow> bool" where
  "seaf_obj_store_obj_exists L st repo_id obj_id =
     (if \<not> is_uuid_valid L repo_id \<or> \<not> is_object_id_valid obj_id then False
      else obj_backend_fs_exists st repo_id obj_id)"

definition seaf_obj_store_delete_obj :: "libs \<Rightarrow> obj_store \<Rightarrow> string \<Rightarrow> string \<Rightarrow> obj_store" where
  "seaf_obj_store_delete_obj L st repo_id obj_id =
     (if \<not> is_uuid_valid L repo_id \<or> \<not> is_object_id_valid obj_id then st
      else obj_backend_fs_delete st repo_id obj_id)"

definition seaf_obj_store_copy_obj ::
    "obj_store \<Rightarrow> string \<Rightarrow> string \<Rightarrow> string \<Rightarrow> int \<times> obj_store" where
  "seaf_obj_store_copy_obj st src_repo_id dst_repo_id obj_id =
     (if strcmp obj_id EMPTY_SHA1 = 0 then (0, st)
      else obj_backend_fs_copy st src_repo_id dst_repo_id obj_id)"

definition seaf_obj_store_remove_store :: "obj_store \<Rightarrow> string \<Rightarrow> int \<times> obj_store" where
  "seaf_obj_store_remove_store st store_id = obj_backend_fs_remove_store st store_id"

lemmas obj_store_defs =
  seaf_obj_store_read_obj_def seaf_obj_store_write_obj_def seaf_obj_store_obj_exists_def
  seaf_obj_store_delete_obj_def obj_backend_fs_read_def obj_backend_fs_write_def
  obj_backend_fs_exists_def obj_backend_fs_delete_def save_obj_contents_def

text \<open>The path of an object determines the repository and the object.\<close>

lemma id_to_path_inj:
  assumes "length i = 40" and "length j = 40"
    and eq: "id_to_path dir i r = id_to_path dir j s"
  shows "i = j \<and> r = s"
proof -
  have 1: "r @ (''/'' @ take 2 i @ ''/'' @ drop 2 i) = s @ (''/'' @ take 2 j @ ''/'' @ drop 2 j)"
    using eq by (simp add: id_to_path_def)
  have len: "length (''/'' @ take 2 i @ ''/'' @ drop 2 i) = length (''/'' @ take 2 j @ ''/'' @ drop 2 j)"
    using assms by simp
  have "r = s \<and> ''/'' @ take 2 i @ ''/'' @ drop 2 i = ''/'' @ take 2 j @ ''/'' @ drop 2 j"
    by (rule append_eq_append_conv [THEN iffD1, OF _ 1]) (rule disjI2, rule len)
  then have rs: "r = s"
    and "take 2 i @ (CHR ''/'' # drop 2 i) = take 2 j @ (CHR ''/'' # drop 2 j)" by simp_all
  moreover have "length (take 2 i) = length (take 2 j)" using assms by simp
  ultimately have "take 2 i = take 2 j \<and> drop 2 i = drop 2 j"
    by (metis append_eq_append_conv list.inject)
  then have "i = j" by (metis append_take_drop_id)
  with rs show ?thesis by simp
qed

section \<open>The interface\<close>

text \<open>
  What the managers on top use: reading, writing and testing an object under a pair of a store and
  an id, for the pairs \<open>ok\<close> accepts.  The laws: a successful write is read back and changes no other
  object, a failed one changes nothing, existence is readability.
\<close>

locale object_store =
  fixes read :: "'s \<Rightarrow> string \<Rightarrow> string \<Rightarrow> bytes option"
    and "write" :: "'s \<Rightarrow> string \<Rightarrow> string \<Rightarrow> bytes \<Rightarrow> int \<times> 's"
    and exists :: "'s \<Rightarrow> string \<Rightarrow> string \<Rightarrow> bool"
    and ok :: "string \<Rightarrow> string \<Rightarrow> bool"
  assumes write_read: "write s r i d = (0, s') \<Longrightarrow> read s' r i = Some d"
    and write_other: "write s r i d = (0, s') \<Longrightarrow> (q, j) \<noteq> (r, i) \<Longrightarrow> read s' q j = read s q j"
    and write_failed: "write s r i d = (e, s') \<Longrightarrow> e \<noteq> 0 \<Longrightarrow> e < 0 \<and> s' = s"
    and write_ok: "write s r i d = (0, s') \<Longrightarrow> ok r i"
    and exists_read: "exists s r i \<longleftrightarrow> read s r i \<noteq> None"
begin

text \<open>
  The managers save an object under its content hash: a store that has it is left alone.  Saving
  therefore never changes an object that can be read, and on success the object can be read.
\<close>

lemma save_keeps:
  assumes "(if exists s r i then (0, s) else write s r i d) = (e, s')"
    and "read s q j = Some x"
  shows "read s' q j = Some x"
proof (cases "exists s r i")
  case True
  with assms show ?thesis by simp
next
  case False
  then have w: "write s r i d = (e, s')" using assms(1) by simp
  show ?thesis
  proof (cases "e = 0")
    case True
    have "(q, j) \<noteq> (r, i)" using False assms(2) by (auto simp: exists_read)
    then show ?thesis using write_other w True assms(2) by metis
  next
    case False
    then show ?thesis using write_failed [OF w] assms(2) by simp
  qed
qed

lemma save_reads:
  assumes "(if exists s r i then (0, s) else write s r i d) = (0, s')"
  shows "read s' r i = (case read s r i of None \<Rightarrow> Some d | Some x \<Rightarrow> Some x)"
proof (cases "exists s r i")
  case True
  with assms show ?thesis by (auto simp: exists_read)
next
  case False
  with assms write_read [of s r i d s'] show ?thesis by (auto simp: exists_read)
qed

lemma save_status:
  "(if exists s r i then (0, s) else write s r i d) = (e, s') \<Longrightarrow> e = 0 \<or> (e < 0 \<and> s' = s)"
  using write_failed by (fastforce split: if_splits)

lemma save_fresh_only:
  assumes "(if exists s r i then (0, s) else write s r i d) = (e, s')"
    and "(q, j) \<noteq> (r, i)"
  shows "read s' q j = read s q j"
proof (cases "exists s r i \<or> e \<noteq> 0")
  case True
  then show ?thesis using assms write_failed by (fastforce split: if_splits)
next
  case False
  then show ?thesis using assms write_other by (fastforce split: if_splits)
qed

end

lemma id_valid_length: "is_object_id_valid i \<Longrightarrow> length i = 40"
  by (simp add: is_object_id_valid_def)

lemma store_write_other:
  assumes w: "seaf_obj_store_write_obj L st r i d = (0, st')" and ne: "(q, j) \<noteq> (r, i)"
  shows "seaf_obj_store_read_obj L st' q j = seaf_obj_store_read_obj L st q j"
proof (cases "is_object_id_valid j")
  case True
  from w have i: "is_object_id_valid i" and
    st': "st' = st\<lparr>files := (files st)(id_to_path (obj_dir st) i r \<mapsto> d)\<rparr>"
    by (auto simp: obj_store_defs split: if_splits prod.splits)
  have "id_to_path (obj_dir st) j q \<noteq> id_to_path (obj_dir st) i r"
    using id_to_path_inj ne id_valid_length [OF True] id_valid_length [OF i] by blast
  then show ?thesis by (simp add: obj_store_defs st')
next
  case False
  then show ?thesis by (simp add: obj_store_defs)
qed

interpretation seaf_store: object_store
  "seaf_obj_store_read_obj L" "seaf_obj_store_write_obj L" "seaf_obj_store_obj_exists L"
  "store_args_ok L" for L
proof (unfold_locales, goal_cases)
  case (1 s r i d s')
  then show ?case by (auto simp: obj_store_defs split: if_splits prod.splits)
next
  case (2 s r i d s' q j)
  then show ?case by (rule store_write_other)
next
  case (3 s r i d e s')
  then show ?case by (auto simp: obj_store_defs split: if_splits prod.splits)
next
  case (4 s r i d s')
  then show ?case by (auto simp: obj_store_defs store_args_ok_def split: if_splits prod.splits)
next
  case (5 s r i)
  then show ?case by (auto simp: obj_store_defs)
qed

end
