(* ===== verification/FsObject.thy ===== *)
theory FsObject
  imports ObjStore
begin

text \<open>
  The file system objects of \<open>common/fs-mgr.c\<close>: files (\<open>Seafile\<close>), directories (\<open>SeafDir\<close>) and
  directory entries (\<open>SeafDirent\<close>), their two on-disk forms (the packed binary form of version 0
  and the compressed JSON document of version 1), object ids, saving and loading through the
  object store, and the integrity checks.
\<close>

unbundle bit_operations_syntax

section \<open>Objects\<close>

definition SEAF_METADATA_TYPE_INVALID :: int where "SEAF_METADATA_TYPE_INVALID = 0"
definition SEAF_METADATA_TYPE_FILE :: int where "SEAF_METADATA_TYPE_FILE = 1"
definition SEAF_METADATA_TYPE_DIR :: int where "SEAF_METADATA_TYPE_DIR = 3"

lemmas metadata_types [codec] =
  SEAF_METADATA_TYPE_INVALID_def SEAF_METADATA_TYPE_FILE_def SEAF_METADATA_TYPE_DIR_def

text \<open>
  \<open>SeafDirent\<close>; its \<open>name_len\<close> is the length of the name throughout.  Times and sizes are
  \<open>gint64\<close>, read by \<open>sint\<close>.
\<close>

record dirent =
  d_version :: int
  d_mode :: u32
  d_id :: string
  d_name :: string
  d_mtime :: u64
  d_modifier :: "string option"
  d_size :: u64

text \<open>\<open>SeafDir\<close>: \<open>ondisk\<close> is the encoded form a directory made by \<open>seaf_dir_new\<close> carries.\<close>

record seafdir =
  dir_version :: int
  dir_id :: string
  entries :: "dirent list"
  ondisk :: "bytes option"

text \<open>\<open>Seafile\<close>; \<open>n_blocks\<close> is the length of the block list.\<close>

record seafile =
  sf_version :: int
  file_id :: string
  file_size :: u64
  blk_sha1s :: "string list"

datatype fs_object = FsFile seafile | FsDir seafdir

definition seaf_dirent_new ::
    "int \<Rightarrow> string \<Rightarrow> u32 \<Rightarrow> string \<Rightarrow> u64 \<Rightarrow> string option \<Rightarrow> u64 \<Rightarrow> dirent" where
  "seaf_dirent_new version sha1 mode name mtime modifier sz =
     \<lparr>d_version = version,
      d_mode = (if S_ISREG mode then mode OR 0x1A4 else mode),
      d_id = take 40 sha1,
      d_name = name,
      d_mtime = (if version > 0 then mtime else 0),
      d_modifier = (if version > 0 \<and> S_ISREG mode then modifier else None),
      d_size = (if version > 0 \<and> S_ISREG mode then sz else 0)\<rparr>"

definition seaf_dirent_dup :: "dirent \<Rightarrow> dirent" where
  "seaf_dirent_dup dent = dent"

definition dir_version_from_repo_version :: "int \<Rightarrow> int" where
  "dir_version_from_repo_version repo_version = (if repo_version = 0 then 0 else 1)"

definition seafile_version_from_repo_version :: "int \<Rightarrow> int" where
  "seafile_version_from_repo_version repo_version = (if repo_version = 0 then 0 else 1)"

section \<open>The binary form (version 0)\<close>

text \<open>A forty-byte id field; what \<open>hex_to_rawdata\<close> leaves in a zeroed twenty-byte buffer.\<close>

definition id_field :: "string \<Rightarrow> bytes" where
  "id_field s = take 40 (s @ replicate 40 (CHR 0x00))"

fun hex_to_rawdata_buf :: "nat \<Rightarrow> string \<Rightarrow> bytes" where
  "hex_to_rawdata_buf 0 s = []"
| "hex_to_rawdata_buf (Suc n) s =
     (let val = push_bit 4 (hexval (char_at s 0)) OR hexval (char_at s 1)
      in if val AND NOT 0xFF \<noteq> 0 then replicate (Suc n) (CHR 0x00)
         else char_of (unat val) # hex_to_rawdata_buf n (drop 2 s))"

lemma hex_to_rawdata_buf_Some: "hex_to_rawdata n s = Some r \<Longrightarrow> hex_to_rawdata_buf n s = r"
  by (induction n arbitrary: s r) (auto simp: Let_def split: if_splits option.splits)

lemma length_hex_to_rawdata_buf [simp]: "length (hex_to_rawdata_buf n s) = n"
  by (induction n arbitrary: s) (auto simp: Let_def)

lemma length_id_field [simp]: "length (id_field s) = 40"
  by (simp add: id_field_def)

lemma id_field_id [simp]: "length s = 40 \<Longrightarrow> id_field s = s"
  by (simp add: id_field_def)

text \<open>Files: type, size, and twenty raw bytes for each block.\<close>

definition seafile_to_v0_data :: "seafile \<Rightarrow> bytes" where
  "seafile_to_v0_data file =
     be_bytes 4 (nat SEAF_METADATA_TYPE_FILE) @ be_bytes 8 (unat (file_size file)) @
     concat (map (hex_to_rawdata_buf 20) (blk_sha1s file))"

fun v0_block_ids :: "nat \<Rightarrow> bytes \<Rightarrow> string list" where
  "v0_block_ids 0 p = []"
| "v0_block_ids (Suc n) p = rawdata_to_hex (take 20 p) # v0_block_ids n (drop 20 p)"

definition seafile_from_v0_data :: "string \<Rightarrow> bytes \<Rightarrow> seafile option" where
  "seafile_from_v0_data i data =
     (if length data < 12 then None
      else if be_val (take 4 data) \<noteq> nat SEAF_METADATA_TYPE_FILE then None
      else if (length data - 12) mod 20 \<noteq> 0 then None
      else Some \<lparr>sf_version = 0, file_id = i,
                 file_size = of_nat (be_val (take 8 (drop 4 data))),
                 blk_sha1s = v0_block_ids ((length data - 12) div 20) (drop 12 data)\<rparr>)"

text \<open>Directories: type, then for each entry its mode, id, name length and name.\<close>

definition dirent_to_v0 :: "dirent \<Rightarrow> bytes" where
  "dirent_to_v0 de =
     be_bytes 4 (unat (d_mode de)) @ id_field (d_id de) @ be_bytes 4 (length (d_name de)) @ d_name de"

definition seaf_dir_to_v0_data :: "seafdir \<Rightarrow> bytes" where
  "seaf_dir_to_v0_data dir =
     be_bytes 4 (nat SEAF_METADATA_TYPE_DIR) @ concat (map dirent_to_v0 (entries dir))"

text \<open>
  The loop of \<open>seaf_dir_from_v0_data\<close>, on the bytes that remain: an entry is read while more than
  the 48 bytes of its fixed part are left; a name longer than what is left is an error, one longer
  than 255 bytes is cut.
\<close>

function v0_dirents :: "bytes \<Rightarrow> dirent list option" where
  "v0_dirents p =
     (if length p > 48 then
        (let name_len = be_val (take 4 (drop 44 p));
             rest = drop 48 p;
             n = min name_len 255
         in if length rest \<ge> name_len then
              (case v0_dirents (drop n rest) of
                 None \<Rightarrow> None
               | Some des \<Rightarrow>
                   Some (\<lparr>d_version = 0, d_mode = of_nat (be_val (take 4 p)),
                          d_id = take 40 (drop 4 p),
                          d_name = takeWhile (\<lambda>c. c \<noteq> CHR 0x00) (take n rest),
                          d_mtime = 0, d_modifier = None, d_size = 0\<rparr> # des))
            else None)
      else Some [])"
  by pat_completeness auto
termination
  by (relation "measure length") auto

declare v0_dirents.simps [simp del]

definition seaf_dir_from_v0_data :: "string \<Rightarrow> bytes \<Rightarrow> seafdir option" where
  "seaf_dir_from_v0_data i data =
     (if length data < 4 \<or> be_val (take 4 data) \<noteq> nat SEAF_METADATA_TYPE_DIR then None
      else (case v0_dirents (drop 4 data) of
              None \<Rightarrow> None
            | Some des \<Rightarrow>
                Some \<lparr>dir_version = 0, dir_id = take 40 i, entries = des, ondisk = None\<rparr>))"

text \<open>\<open>compute_dir_id_v0\<close>: the hash of id, name and little-endian mode of every entry.\<close>

definition dirent_hash_input :: "dirent \<Rightarrow> bytes" where
  "dirent_hash_input dent =
     id_field (d_id dent) @ d_name dent @ rev (be_bytes 4 (unat (d_mode dent)))"

definition compute_dir_id_v0 :: "libs \<Rightarrow> dirent list \<Rightarrow> string" where
  "compute_dir_id_v0 L des =
     (if des = [] then EMPTY_SHA1 else sha1_hex L (concat (map dirent_hash_input des)))"

section \<open>The JSON form (version 1)\<close>

text \<open>A 64-bit member assigned to an \<open>int\<close>.\<close>

definition c_int :: "int \<Rightarrow> int" where
  "c_int i = sint (word_of_int i :: u32)"

lemma c_int_small [simp]: "0 \<le> i \<Longrightarrow> i < 2 ^ 31 \<Longrightarrow> c_int i = i"
  by (simp add: c_int_def sint_word_ariths signed_take_bit_int_eq_self signed_of_int)

definition seafile_to_json :: "seafile \<Rightarrow> json" where
  "seafile_to_json file =
     (let o1 = json_object_set_int_member [] ''type'' SEAF_METADATA_TYPE_FILE;
          o2 = json_object_set_int_member o1 ''version'' (sf_version file);
          o3 = json_object_set_int_member o2 ''size'' (sint (file_size file));
          o4 = json_object_set_new o3 ''block_ids'' (JArray (map JString (blk_sha1s file)))
      in JObject o4)"

text \<open>The loop over the array of block ids: every member a valid id, or no file.\<close>

fun json_block_ids :: "json list \<Rightarrow> string list option" where
  "json_block_ids [] = Some []"
| "json_block_ids (j # js) =
     (case json_string_value (Some j) of
        None \<Rightarrow> None
      | Some s \<Rightarrow>
          if \<not> is_object_id_valid s then None
          else (case json_block_ids js of None \<Rightarrow> None | Some ss \<Rightarrow> Some (s # ss)))"

definition json_array :: "json option \<Rightarrow> json list" where
  "json_array j = (case j of Some (JArray js) \<Rightarrow> js | _ \<Rightarrow> [])"

definition seafile_from_json_object :: "string \<Rightarrow> json \<Rightarrow> seafile option" where
  "seafile_from_json_object i object =
     (if c_int (json_object_get_int_member object ''type'') \<noteq> SEAF_METADATA_TYPE_FILE then None
      else if c_int (json_object_get_int_member object ''version'') < 1 then None
      else if json_object_get object ''block_ids'' = None then None
      else (case json_block_ids (json_array (json_object_get object ''block_ids'')) of
              None \<Rightarrow> None
            | Some ids \<Rightarrow>
                Some \<lparr>sf_version = c_int (json_object_get_int_member object ''version''),
                      file_id = take 40 i,
                      file_size = word_of_int (json_object_get_int_member object ''size''),
                      blk_sha1s = ids\<rparr>))"

text \<open>\<open>add_to_dirent_array\<close>: a NULL modifier adds no member (jansson refuses a NULL value).\<close>

definition dirent_to_json :: "dirent \<Rightarrow> json" where
  "dirent_to_json dent =
     (let o1 = json_object_set_int_member [] ''mode'' (uint (d_mode dent));
          o2 = json_object_set_string_member o1 ''id'' (d_id dent);
          o3 = json_object_set_string_member o2 ''name'' (d_name dent);
          o4 = json_object_set_int_member o3 ''mtime'' (sint (d_mtime dent))
      in if S_ISREG (d_mode dent) then
           (let o5 = (case d_modifier dent of
                        None \<Rightarrow> o4
                      | Some m \<Rightarrow> json_object_set_string_member o4 ''modifier'' m)
            in JObject (json_object_set_int_member o5 ''size'' (sint (d_size dent))))
         else JObject o4)"

definition seaf_dir_to_json :: "seafdir \<Rightarrow> json" where
  "seaf_dir_to_json dir =
     (let o1 = json_object_set_int_member [] ''type'' SEAF_METADATA_TYPE_DIR;
          o2 = json_object_set_int_member o1 ''version'' (dir_version dir);
          o3 = json_object_set_new o2 ''dirents'' (JArray (map dirent_to_json (entries dir)))
      in JObject o3)"

definition parse_dirent :: "int \<Rightarrow> json \<Rightarrow> dirent option" where
  "parse_dirent version object =
     (let mode = word_of_int (json_object_get_int_member object ''mode'') :: u32 in
      case json_object_get_string_member object ''id'' of
        None \<Rightarrow> None
      | Some i \<Rightarrow>
          if \<not> is_object_id_valid i then None
          else (case json_object_get_string_member object ''name'' of
                  None \<Rightarrow> None
                | Some name \<Rightarrow>
                    (let mtime = word_of_int (json_object_get_int_member object ''mtime'') in
                     if S_ISREG mode then
                       (case json_object_get_string_member object ''modifier'' of
                          None \<Rightarrow> None
                        | Some modifier \<Rightarrow>
                            Some \<lparr>d_version = version, d_mode = mode, d_id = take 40 i,
                                  d_name = name, d_mtime = mtime, d_modifier = Some modifier,
                                  d_size = word_of_int (json_object_get_int_member object ''size'')\<rparr>)
                     else
                       Some \<lparr>d_version = version, d_mode = mode, d_id = take 40 i, d_name = name,
                             d_mtime = mtime, d_modifier = None, d_size = 0\<rparr>)))"

fun parse_dirents :: "int \<Rightarrow> json list \<Rightarrow> dirent list option" where
  "parse_dirents version [] = Some []"
| "parse_dirents version (j # js) =
     (case parse_dirent version j of
        None \<Rightarrow> None
      | Some d \<Rightarrow>
          (case parse_dirents version js of None \<Rightarrow> None | Some ds \<Rightarrow> Some (d # ds)))"

definition seaf_dir_from_json_object :: "string \<Rightarrow> json \<Rightarrow> seafdir option" where
  "seaf_dir_from_json_object i object =
     (let version = c_int (json_object_get_int_member object ''version'') in
      if c_int (json_object_get_int_member object ''type'') \<noteq> SEAF_METADATA_TYPE_DIR then None
      else if version < 1 then None
      else if json_object_get object ''dirents'' = None then None
      else (case parse_dirents version (json_array (json_object_get object ''dirents'')) of
              None \<Rightarrow> None
            | Some des \<Rightarrow>
                Some \<lparr>dir_version = version, dir_id = take 40 i, entries = des, ondisk = None\<rparr>))"

section \<open>Encoding and decoding\<close>

text \<open>
  A document as the store holds it: \<open>json_dumps\<close>, then \<open>seaf_compress\<close>; reading it back is
  \<open>seaf_decompress\<close>, then \<open>json_loadb\<close>.
\<close>

definition load_json :: "libs \<Rightarrow> bytes \<Rightarrow> json option" where
  "load_json L data =
     (case lib_decompress L data of None \<Rightarrow> None | Some d \<Rightarrow> lib_json_loadb L d)"

definition seafile_from_json :: "libs \<Rightarrow> string \<Rightarrow> bytes \<Rightarrow> seafile option" where
  "seafile_from_json L i data =
     (case load_json L data of None \<Rightarrow> None | Some object \<Rightarrow> seafile_from_json_object i object)"

definition seafile_from_data :: "libs \<Rightarrow> string \<Rightarrow> bytes \<Rightarrow> bool \<Rightarrow> seafile option" where
  "seafile_from_data L i data is_json =
     (if is_json then seafile_from_json L i data else seafile_from_v0_data i data)"

text \<open>\<open>seafile_to_json\<close> and \<open>seaf_dir_to_json\<close> also store the hash of the text as the object's id.\<close>

definition seafile_to_data :: "libs \<Rightarrow> seafile \<Rightarrow> bytes option \<times> seafile" where
  "seafile_to_data L file =
     (if sf_version file > 0 then
        (let data = lib_json_dumps L (seafile_to_json file)
         in (lib_compress L data, file\<lparr>file_id := sha1_hex L data\<rparr>))
      else (Some (seafile_to_v0_data file), file))"

definition seaf_dir_from_json :: "libs \<Rightarrow> string \<Rightarrow> bytes \<Rightarrow> seafdir option" where
  "seaf_dir_from_json L i data =
     (case load_json L data of None \<Rightarrow> None | Some object \<Rightarrow> seaf_dir_from_json_object i object)"

definition seaf_dir_from_data :: "libs \<Rightarrow> string \<Rightarrow> bytes \<Rightarrow> bool \<Rightarrow> seafdir option" where
  "seaf_dir_from_data L i data is_json =
     (if is_json then seaf_dir_from_json L i data else seaf_dir_from_v0_data i data)"

definition seaf_dir_to_data :: "libs \<Rightarrow> seafdir \<Rightarrow> bytes option \<times> seafdir" where
  "seaf_dir_to_data L dir =
     (if dir_version dir > 0 then
        (let data = lib_json_dumps L (seaf_dir_to_json dir)
         in (lib_compress L data, dir\<lparr>dir_id := sha1_hex L data\<rparr>))
      else (Some (seaf_dir_to_v0_data dir), dir))"

definition seaf_dir_new :: "libs \<Rightarrow> string option \<Rightarrow> dirent list \<Rightarrow> int \<Rightarrow> seafdir" where
  "seaf_dir_new L i des version =
     (let i1 = (case i of
                  Some s \<Rightarrow> take 40 s
                | None \<Rightarrow> if version = 0 then compute_dir_id_v0 L des else []);
          dir = \<lparr>dir_version = version, dir_id = i1, entries = des, ondisk = None\<rparr>
      in if des \<noteq> [] then
           (case seaf_dir_to_data L dir of (data, dir') \<Rightarrow> dir'\<lparr>ondisk := data\<rparr>)
         else dir\<lparr>dir_id := EMPTY_SHA1\<rparr>)"

section \<open>Saving and loading\<close>

definition seafile_save :: "libs \<Rightarrow> obj_store \<Rightarrow> string \<Rightarrow> seafile \<Rightarrow> int \<times> obj_store" where
  "seafile_save L st repo_id file =
     (if seaf_obj_store_obj_exists L st repo_id (file_id file) then (0, st)
      else (case seafile_to_data L file of
              (None, _) \<Rightarrow> (-1, st)
            | (Some data, file') \<Rightarrow>
                (case seaf_obj_store_write_obj L st repo_id (file_id file') data of
                   (r, st') \<Rightarrow> (if r < 0 then -1 else 0, st'))))"

definition seaf_dir_save :: "libs \<Rightarrow> obj_store \<Rightarrow> string \<Rightarrow> seafdir \<Rightarrow> int \<times> obj_store" where
  "seaf_dir_save L st repo_id dir =
     (if take 40 (dir_id dir) = EMPTY_SHA1 then (0, st)
      else if seaf_obj_store_obj_exists L st repo_id (dir_id dir) then (0, st)
      else (case seaf_obj_store_write_obj L st repo_id (dir_id dir)
                   (case ondisk dir of None \<Rightarrow> [] | Some d \<Rightarrow> d) of
              (r, st') \<Rightarrow> (if r < 0 then -1 else 0, st')))"

definition seaf_fs_manager_get_seafile ::
    "libs \<Rightarrow> obj_store \<Rightarrow> string \<Rightarrow> int \<Rightarrow> string \<Rightarrow> seafile option" where
  "seaf_fs_manager_get_seafile L st repo_id version i =
     (if take 40 i = EMPTY_SHA1 then
        Some \<lparr>sf_version = 0, file_id = EMPTY_SHA1, file_size = 0, blk_sha1s = []\<rparr>
      else (case seaf_obj_store_read_obj L st repo_id i of
              None \<Rightarrow> None
            | Some data \<Rightarrow> seafile_from_data L i data (version > 0)))"

definition seaf_fs_manager_get_seafdir ::
    "libs \<Rightarrow> obj_store \<Rightarrow> string \<Rightarrow> int \<Rightarrow> string \<Rightarrow> seafdir option" where
  "seaf_fs_manager_get_seafdir L st repo_id version i =
     (if take 40 i = EMPTY_SHA1 then
        Some \<lparr>dir_version = version, dir_id = EMPTY_SHA1, entries = [], ondisk = None\<rparr>
      else (case seaf_obj_store_read_obj L st repo_id i of
              None \<Rightarrow> None
            | Some data \<Rightarrow> seaf_dir_from_data L i data (version > 0)))"

definition compare_dirents :: "dirent \<Rightarrow> dirent \<Rightarrow> int" where
  "compare_dirents a b = strcmp (d_name b) (d_name a)"

fun is_dirents_sorted :: "dirent list \<Rightarrow> bool" where
  "is_dirents_sorted (a # b # ds) =
     (if strcmp (d_name a) (d_name b) < 0 then False else is_dirents_sorted (b # ds))"
| "is_dirents_sorted _ = True"

definition seaf_fs_manager_get_seafdir_sorted ::
    "libs \<Rightarrow> obj_store \<Rightarrow> string \<Rightarrow> int \<Rightarrow> string \<Rightarrow> seafdir option" where
  "seaf_fs_manager_get_seafdir_sorted L st repo_id version i =
     (case seaf_fs_manager_get_seafdir L st repo_id version i of
        None \<Rightarrow> None
      | Some dir \<Rightarrow>
          if version > 0 then Some dir
          else if \<not> is_dirents_sorted (entries dir)
          then Some (dir\<lparr>entries := g_list_sort compare_dirents (entries dir)\<rparr>)
          else Some dir)"

definition seaf_fs_manager_object_exists :: "libs \<Rightarrow> obj_store \<Rightarrow> string \<Rightarrow> string \<Rightarrow> bool" where
  "seaf_fs_manager_object_exists L st repo_id i =
     (if take 40 i = EMPTY_SHA1 then True else seaf_obj_store_obj_exists L st repo_id i)"

definition seaf_fs_manager_delete_object :: "libs \<Rightarrow> obj_store \<Rightarrow> string \<Rightarrow> string \<Rightarrow> obj_store" where
  "seaf_fs_manager_delete_object L st repo_id i = seaf_obj_store_delete_obj L st repo_id i"

section \<open>The type of an object\<close>

definition parse_metadata_type_v0 :: "bytes \<Rightarrow> int" where
  "parse_metadata_type_v0 data =
     (if length data < 4 then SEAF_METADATA_TYPE_INVALID
      else sint (of_nat (be_val (take 4 data)) :: u32))"

definition parse_metadata_type_json :: "libs \<Rightarrow> bytes \<Rightarrow> int" where
  "parse_metadata_type_json L data =
     (case load_json L data of
        None \<Rightarrow> SEAF_METADATA_TYPE_INVALID
      | Some object \<Rightarrow> c_int (json_object_get_int_member object ''type''))"

definition seaf_metadata_type_from_data :: "libs \<Rightarrow> bytes \<Rightarrow> bool \<Rightarrow> int" where
  "seaf_metadata_type_from_data L data is_json =
     (if is_json then parse_metadata_type_json L data else parse_metadata_type_v0 data)"

definition fs_object_from_v0_data :: "string \<Rightarrow> bytes \<Rightarrow> fs_object option" where
  "fs_object_from_v0_data i data =
     (let type = parse_metadata_type_v0 data in
      if type = SEAF_METADATA_TYPE_FILE then map_option FsFile (seafile_from_v0_data i data)
      else if type = SEAF_METADATA_TYPE_DIR then map_option FsDir (seaf_dir_from_v0_data i data)
      else None)"

definition fs_object_from_json :: "libs \<Rightarrow> string \<Rightarrow> bytes \<Rightarrow> fs_object option" where
  "fs_object_from_json L i data =
     (case load_json L data of
        None \<Rightarrow> None
      | Some object \<Rightarrow>
          (let type = c_int (json_object_get_int_member object ''type'') in
           if type = SEAF_METADATA_TYPE_FILE then map_option FsFile (seafile_from_json_object i object)
           else if type = SEAF_METADATA_TYPE_DIR
           then map_option FsDir (seaf_dir_from_json_object i object)
           else None))"

definition seaf_fs_object_from_data :: "libs \<Rightarrow> string \<Rightarrow> bytes \<Rightarrow> bool \<Rightarrow> fs_object option" where
  "seaf_fs_object_from_data L i data is_json =
     (if is_json then fs_object_from_json L i data else fs_object_from_v0_data i data)"

section \<open>Integrity checks\<close>

text \<open>
  The loop of \<open>verify_seafdir_v0\<close>: the bytes it hashes, or None where the data is malformed.  It
  walks the object the way \<open>seaf_dir_from_v0_data\<close> does.
\<close>

function v0_hash_input :: "bytes \<Rightarrow> bytes option" where
  "v0_hash_input p =
     (if length p > 48 then
        (let name_len = be_val (take 4 (drop 44 p));
             rest = drop 48 p;
             n = min name_len 255
         in if length rest \<ge> name_len then
              (case v0_hash_input (drop n rest) of
                 None \<Rightarrow> None
               | Some h \<Rightarrow> Some (take 40 (drop 4 p) @ take n rest @ rev (take 4 p) @ h))
            else None)
      else Some [])"
  by pat_completeness auto
termination
  by (relation "measure length") auto

declare v0_hash_input.simps [simp del]

definition verify_seafdir_v0 :: "libs \<Rightarrow> string \<Rightarrow> bytes \<Rightarrow> bool \<Rightarrow> bool" where
  "verify_seafdir_v0 L i data verify_id =
     (if length data < 4 then False
      else if be_val (take 4 data) \<noteq> nat SEAF_METADATA_TYPE_DIR then False
      else (case v0_hash_input (drop 4 data) of
              None \<Rightarrow> False
            | Some h \<Rightarrow> if \<not> verify_id then True else strcmp (sha1_hex L h) i = 0))"

definition verify_fs_object_json :: "libs \<Rightarrow> string \<Rightarrow> bytes \<Rightarrow> bool" where
  "verify_fs_object_json L i data =
     (case lib_decompress L data of
        None \<Rightarrow> False
      | Some d \<Rightarrow> strcmp (sha1_hex L d) i = 0)"

definition verify_seafile_v0 :: "libs \<Rightarrow> string \<Rightarrow> bytes \<Rightarrow> bool \<Rightarrow> bool" where
  "verify_seafile_v0 L i data verify_id =
     (if length data < 12 then False
      else if be_val (take 4 data) \<noteq> nat SEAF_METADATA_TYPE_FILE then False
      else if (length data - 12) mod 20 \<noteq> 0 then False
      else if \<not> verify_id then True
      else strcmp (sha1_hex L (drop 12 data)) i = 0)"

text \<open>The checks of an object of the store: the verdict, and whether \<open>*io_error\<close> was set.\<close>

definition verify_stored ::
    "libs \<Rightarrow> obj_store \<Rightarrow> string \<Rightarrow> string \<Rightarrow> (bytes \<Rightarrow> bool) \<Rightarrow> bool \<times> bool" where
  "verify_stored L st repo_id i check =
     (if take 40 i = EMPTY_SHA1 then (True, False)
      else (case seaf_obj_store_read_obj L st repo_id i of
              None \<Rightarrow> (False, True)
            | Some data \<Rightarrow> (check data, False)))"

definition seaf_fs_manager_verify_seafdir ::
    "libs \<Rightarrow> obj_store \<Rightarrow> string \<Rightarrow> int \<Rightarrow> string \<Rightarrow> bool \<Rightarrow> bool \<times> bool" where
  "seaf_fs_manager_verify_seafdir L st repo_id version i verify_id =
     verify_stored L st repo_id i
       (\<lambda>data. if version > 0 then verify_fs_object_json L i data
               else verify_seafdir_v0 L i data verify_id)"

definition seaf_fs_manager_verify_seafile ::
    "libs \<Rightarrow> obj_store \<Rightarrow> string \<Rightarrow> int \<Rightarrow> string \<Rightarrow> bool \<Rightarrow> bool \<times> bool" where
  "seaf_fs_manager_verify_seafile L st repo_id version i verify_id =
     verify_stored L st repo_id i
       (\<lambda>data. if version > 0 then verify_fs_object_json L i data
               else verify_seafile_v0 L i data verify_id)"

definition verify_fs_object_v0 :: "libs \<Rightarrow> string \<Rightarrow> bytes \<Rightarrow> bool \<Rightarrow> bool" where
  "verify_fs_object_v0 L i data verify_id =
     (let type = seaf_metadata_type_from_data L data False in
      if type = SEAF_METADATA_TYPE_FILE then verify_seafile_v0 L i data verify_id
      else if type = SEAF_METADATA_TYPE_DIR then verify_seafdir_v0 L i data verify_id
      else False)"

definition seaf_fs_manager_verify_object ::
    "libs \<Rightarrow> obj_store \<Rightarrow> string \<Rightarrow> int \<Rightarrow> string \<Rightarrow> bool \<Rightarrow> bool \<times> bool" where
  "seaf_fs_manager_verify_object L st repo_id version i verify_id =
     verify_stored L st repo_id i
       (\<lambda>data. if version = 0 then verify_fs_object_v0 L i data verify_id
               else verify_fs_object_json L i data)"

section \<open>Binary form: encoding and decoding agree\<close>

text \<open>
  Names the binary form can hold: one to 255 bytes without a NUL; entries of a version 0 directory
  have no times, sizes or modifiers.
\<close>

definition name_ok :: "string \<Rightarrow> bool" where
  "name_ok n \<longleftrightarrow> n \<noteq> [] \<and> length n \<le> 255 \<and> CHR 0x00 \<notin> set n"

definition dirent_v0_ok :: "dirent \<Rightarrow> bool" where
  "dirent_v0_ok d \<longleftrightarrow> is_object_id_valid (d_id d) \<and> name_ok (d_name d) \<and>
     d_version d = 0 \<and> d_mtime d = 0 \<and> d_modifier d = None \<and> d_size d = 0"

lemma takeWhile_no_nul: "c \<notin> set xs \<Longrightarrow> takeWhile (\<lambda>x. x \<noteq> c) xs = xs"
  by (induction xs) auto

lemma be_val_len [codec]: "n \<le> 255 \<Longrightarrow> be_val (be_bytes 4 n) = n"
  by (simp add: be_val_be_bytes)

lemma dirent_to_v0_parts:
  assumes "length (d_name d) \<le> 255"
  shows "take 4 (dirent_to_v0 d @ rest) = be_bytes 4 (unat (d_mode d))"
    and "take 40 (drop 4 (dirent_to_v0 d @ rest)) = id_field (d_id d)"
    and "be_val (take 4 (drop 44 (dirent_to_v0 d @ rest))) = length (d_name d)"
    and "drop 48 (dirent_to_v0 d @ rest) = d_name d @ rest"
    and "length (dirent_to_v0 d @ rest) = 48 + length (d_name d) + length rest"
  using assms by (simp_all add: dirent_to_v0_def codec)

lemma v0_dirents_Cons:
  assumes "dirent_v0_ok d" shows "v0_dirents (dirent_to_v0 d @ rest) = map_option ((#) d) (v0_dirents rest)"
proof -
  have n: "length (d_name d) \<le> 255" "0 < length (d_name d)" "CHR 0x00 \<notin> set (d_name d)"
    and i: "length (d_id d) = 40"
    using assms by (auto simp: dirent_v0_ok_def name_ok_def is_object_id_valid_def)
  have d: "\<lparr>d_version = 0, d_mode = of_nat (be_val (be_bytes 4 (unat (d_mode d)))), d_id = d_id d,
         d_name = d_name d, d_mtime = 0, d_modifier = None, d_size = 0\<rparr> = d"
    using assms by (simp add: dirent_v0_ok_def codec)
  define p where "p = dirent_to_v0 d @ rest"
  note parts = dirent_to_v0_parts [OF n(1), of rest, folded p_def]
  have "v0_dirents p = map_option ((#) d) (v0_dirents rest)"
    by (subst v0_dirents.simps)
       (use n i d in \<open>simp add: parts Let_def takeWhile_no_nul split: option.splits\<close>)
  then show ?thesis by (simp add: p_def)
qed

lemma v0_dirents_all:
  "list_all dirent_v0_ok ds \<Longrightarrow> v0_dirents (concat (map dirent_to_v0 ds)) = Some ds"
  by (induction ds) (simp_all add: v0_dirents_Cons v0_dirents.simps [of "[]"])

lemma v0_hash_input_Cons:
  assumes "length (d_name d) \<le> 255" "d_name d \<noteq> []"
  shows "v0_hash_input (dirent_to_v0 d @ rest) = map_option ((@) (dirent_hash_input d)) (v0_hash_input rest)"
proof -
  define p where "p = dirent_to_v0 d @ rest"
  note parts = dirent_to_v0_parts [OF assms(1), of rest, folded p_def]
  have "v0_hash_input p = map_option ((@) (dirent_hash_input d)) (v0_hash_input rest)"
    by (subst v0_hash_input.simps)
       (use assms in \<open>simp add: parts Let_def dirent_hash_input_def split: option.splits\<close>)
  then show ?thesis by (simp add: p_def)
qed

lemma v0_hash_input_all:
  "list_all (\<lambda>d. length (d_name d) \<le> 255 \<and> d_name d \<noteq> []) ds \<Longrightarrow>
   v0_hash_input (concat (map dirent_to_v0 ds)) = Some (concat (map dirent_hash_input ds))"
  by (induction ds) (simp_all add: v0_hash_input_Cons v0_hash_input.simps [of "[]"])

text \<open>The decoder and the checker accept the same objects.\<close>

lemma v0_hash_input_None: "v0_hash_input p = None \<longleftrightarrow> v0_dirents p = None"
proof (induction p rule: v0_dirents.induct)
  case (1 p)
  note IH = 1 [OF _ refl refl refl]
  show ?case
    by (subst v0_dirents.simps, subst v0_hash_input.simps)
       (use IH in \<open>auto simp: Let_def split: option.splits\<close>)
qed

lemma hex_raw_ids:
  "list_all is_object_id_valid ids \<Longrightarrow>
   v0_block_ids (length ids) (concat (map (hex_to_rawdata_buf 20) ids)) = ids"
proof (induction ids)
  case (Cons s ids)
  then have "rawdata_to_hex (hex_to_rawdata_buf 20 s) = s"
    using valid_id_roundtrip [of s] hex_to_rawdata_buf_Some by fastforce
  with Cons show ?case by simp
qed simp

section \<open>JSON form: encoding and decoding agree\<close>

text \<open>
  jansson prints objects with their keys sorted (\<open>JSON_SORT_KEYS\<close>): parsing the text gives the
  value with every object's members in key order.
\<close>

fun json_sort_keys :: "json \<Rightarrow> json" where
  "json_sort_keys (JArray js) = JArray (map json_sort_keys js)"
| "json_sort_keys (JObject kvs) = JObject (sort_key fst (map (\<lambda>(k, v). (k, json_sort_keys v)) kvs))"
| "json_sort_keys j = j"

lemma map_of_sort_key_fst:
  assumes "distinct (map fst kvs)" shows "map_of (sort_key fst kvs) = map_of kvs"
proof
  fix k
  have "distinct (map fst (sort_key fst kvs))" using assms by (simp add: distinct_map)
  then have "map_of (sort_key fst kvs) k = Some v \<longleftrightarrow> map_of kvs k = Some v" for v
    using assms by simp
  then show "map_of (sort_key fst kvs) k = map_of kvs k"
    by (metis not_None_eq)
qed

lemma json_object_get_JObject: "json_object_get (JObject kvs) k = map_of kvs k"
  by (simp add: json_object_get_def)

lemma json_object_get_sorted:
  assumes "distinct (map fst kvs)"
  shows "json_object_get (json_sort_keys (JObject kvs)) k
    = map_option json_sort_keys (json_object_get (JObject kvs) k)"
proof -
  have "distinct (map fst (map (\<lambda>(k, v). (k, json_sort_keys v)) kvs))"
    using assms by (simp add: case_prod_beta comp_def)
  then show ?thesis
    by (simp add: json_object_get_def map_of_sort_key_fst map_of_map)
qed

definition dirent_json_ok :: "int \<Rightarrow> dirent \<Rightarrow> bool" where
  "dirent_json_ok v d \<longleftrightarrow> is_object_id_valid (d_id d) \<and> d_version d = v \<and>
     (if S_ISREG (d_mode d) then d_modifier d \<noteq> None else d_modifier d = None \<and> d_size d = 0)"

lemmas json_get_sorted [codec] =
  json_object_get_string_member_def json_object_get_int_member_def json_object_get_sorted
  json_object_get_JObject json_string_value_def json_integer_value_def

lemma parse_dirent_to_json:
  assumes "dirent_json_ok v d"
  shows "parse_dirent v (json_sort_keys (dirent_to_json d)) = Some d"
proof (cases "S_ISREG (d_mode d)")
  case True
  then obtain m where m: "d_modifier d = Some m"
    using assms by (auto simp: dirent_json_ok_def)
  have "length (d_id d) = 40" using assms by (simp add: dirent_json_ok_def is_object_id_valid_def)
  then show ?thesis
    using assms True m
    by (simp add: parse_dirent_def dirent_to_json_def dirent_json_ok_def codec Let_def
        del: json_sort_keys.simps(2))
next
  case False
  have "length (d_id d) = 40" using assms by (simp add: dirent_json_ok_def is_object_id_valid_def)
  then show ?thesis
    using assms False
    by (simp add: parse_dirent_def dirent_to_json_def dirent_json_ok_def codec Let_def
        del: json_sort_keys.simps(2))
qed

lemma parse_dirents_to_json:
  "list_all (dirent_json_ok v) ds \<Longrightarrow>
   parse_dirents v (map (\<lambda>d. json_sort_keys (dirent_to_json d)) ds) = Some ds"
  by (induction ds) (simp_all add: parse_dirent_to_json)

lemma json_block_ids_all:
  "list_all is_object_id_valid ids \<Longrightarrow> json_block_ids (map JString ids) = Some ids"
  by (induction ids) (simp_all add: json_string_value_def)

definition seafdir_json_ok :: "seafdir \<Rightarrow> bool" where
  "seafdir_json_ok dir \<longleftrightarrow> 0 < dir_version dir \<and> dir_version dir < 2 ^ 31 \<and>
     list_all (dirent_json_ok (dir_version dir)) (entries dir)"

lemma seaf_dir_json_roundtrip:
  assumes "seafdir_json_ok dir"
  shows "seaf_dir_from_json_object i (json_sort_keys (seaf_dir_to_json dir))
    = Some (dir\<lparr>dir_id := take 40 i, ondisk := None\<rparr>)"
  using assms
  by (simp add: seaf_dir_from_json_object_def seaf_dir_to_json_def seafdir_json_ok_def codec Let_def
      json_array_def comp_def parse_dirents_to_json del: json_sort_keys.simps(2))

definition seafile_json_ok :: "seafile \<Rightarrow> bool" where
  "seafile_json_ok f \<longleftrightarrow> 0 < sf_version f \<and> sf_version f < 2 ^ 31 \<and>
     list_all is_object_id_valid (blk_sha1s f)"

lemma seafile_json_roundtrip:
  assumes "seafile_json_ok f"
  shows "seafile_from_json_object i (json_sort_keys (seafile_to_json f)) = Some (f\<lparr>file_id := take 40 i\<rparr>)"
  using assms
  by (simp add: seafile_from_json_object_def seafile_to_json_def seafile_json_ok_def codec Let_def
      json_array_def comp_def json_block_ids_all del: json_sort_keys.simps(2))

text \<open>
  Documented behaviour of zlib and jansson on one document: what was compressed decompresses to
  the text, and the printed text parses to the document with sorted keys.
\<close>

definition doc_roundtrips :: "libs \<Rightarrow> json \<Rightarrow> bool" where
  "doc_roundtrips L j =
     (case lib_compress L (lib_json_dumps L j) of
        None \<Rightarrow> False
      | Some c \<Rightarrow> lib_decompress L c = Some (lib_json_dumps L j) \<and>
                  lib_json_loadb L (lib_json_dumps L j) = Some (json_sort_keys j))"

lemma doc_roundtripsE:
  assumes "doc_roundtrips L j"
  obtains c where "lib_compress L (lib_json_dumps L j) = Some c"
    "lib_decompress L c = Some (lib_json_dumps L j)"
    "load_json L c = Some (json_sort_keys j)"
  using assms by (auto simp: doc_roundtrips_def load_json_def split: option.splits)

lemma dir_json_cong:
  "dir_version d = dir_version d' \<Longrightarrow> entries d = entries d' \<Longrightarrow> seaf_dir_to_json d = seaf_dir_to_json d'"
  by (simp add: seaf_dir_to_json_def)

section \<open>Saving and loading agree\<close>

lemma seaf_dir_save_split:
  assumes "seaf_dir_save L st r d = (e, st')" and "take 40 (dir_id d) \<noteq> EMPTY_SHA1"
  shows "\<exists>e'. (if seaf_obj_store_obj_exists L st r (dir_id d) then (0, st)
         else seaf_obj_store_write_obj L st r (dir_id d)
           (case ondisk d of None \<Rightarrow> [] | Some x \<Rightarrow> x)) = (e', st') \<and> (e = 0 \<longleftrightarrow> e' = 0)"
  using assms seaf_store.write_failed
  by (fastforce simp: seaf_dir_save_def split: if_splits prod.splits)

lemma seafile_save_split:
  assumes "seafile_save L st r f = (e, st')" and "seafile_to_data L f = (Some d, f')"
    and "file_id f' = file_id f"
  shows "\<exists>e'. (if seaf_obj_store_obj_exists L st r (file_id f) then (0, st)
         else seaf_obj_store_write_obj L st r (file_id f) d) = (e', st') \<and> (e = 0 \<longleftrightarrow> e' = 0)"
  using assms seaf_store.write_failed
  by (fastforce simp: seafile_save_def split: if_splits prod.splits)

lemma seaf_dir_new_entries [simp]:
  "entries (seaf_dir_new L i des v) = des" "dir_version (seaf_dir_new L i des v) = v"
  by (auto simp: seaf_dir_new_def seaf_dir_to_data_def Let_def)

lemma seaf_dir_new_json:
  fixes L i
  assumes "des \<noteq> []" "v > 0" "doc = seaf_dir_to_json (seaf_dir_new L i des v)"
  shows "dir_id (seaf_dir_new L i des v) = sha1_hex L (lib_json_dumps L doc)"
    and "ondisk (seaf_dir_new L i des v) = lib_compress L (lib_json_dumps L doc)"
proof -
  have doc: "doc = seaf_dir_to_json \<lparr>dir_version = v,
    dir_id = (case i of Some s \<Rightarrow> take 40 s | None \<Rightarrow> if v = 0 then compute_dir_id_v0 L des else []),
    entries = des, ondisk = None\<rparr>"
    unfolding assms(3) by (rule dir_json_cong) simp_all
  show "dir_id (seaf_dir_new L i des v) = sha1_hex L (lib_json_dumps L doc)"
    and "ondisk (seaf_dir_new L i des v) = lib_compress L (lib_json_dumps L doc)"
    using assms(1,2) by (auto simp: doc seaf_dir_new_def seaf_dir_to_data_def Let_def)
qed

text \<open>
  What a read returns after \<open>seaf_dir_save\<close> succeeded: what the store had under that id, or else
  the encoded directory.
\<close>

lemma seaf_dir_save_keeps:
  assumes "seaf_dir_save L st r d = (e, st')" "seaf_obj_store_read_obj L st q j = Some x"
  shows "seaf_obj_store_read_obj L st' q j = Some x"
proof (cases "take 40 (dir_id d) = EMPTY_SHA1")
  case False
  then show ?thesis
    using seaf_dir_save_split [OF assms(1)] seaf_store.save_keeps [OF _ assms(2)] by blast
qed (use assms in \<open>simp add: seaf_dir_save_def\<close>)

lemma seaf_dir_save_from:
  assumes "seaf_dir_save L st r d = (e, st')" "ondisk d = Some x" "seaf_obj_store_read_obj L st' q j = Some y"
  shows "seaf_obj_store_read_obj L st q j = Some y \<or> q = r \<and> j = dir_id d \<and> y = x"
proof (cases "take 40 (dir_id d) = EMPTY_SHA1")
  case False
  obtain e' where w: "(if seaf_obj_store_obj_exists L st r (dir_id d) then (0, st)
         else seaf_obj_store_write_obj L st r (dir_id d) x) = (e', st')"
    using seaf_dir_save_split [OF assms(1) False] unfolding assms(2) option.case by blast
  show ?thesis
  proof (cases "(q, j) = (r, dir_id d)")
    case True
    have "e' = 0 \<or> st' = st" using seaf_store.save_status [OF w] by blast
    then show ?thesis
      using seaf_store.save_reads [of L st r "dir_id d" x st'] w assms(3) True by (auto split: option.splits)
  next
    case other: False
    then show ?thesis using seaf_store.save_fresh_only [OF w] assms(3) by metis
  qed
qed (use assms in \<open>simp add: seaf_dir_save_def\<close>)

lemma seaf_dir_save_reads:
  assumes "seaf_dir_save L st r d = (0, st')" "take 40 (dir_id d) \<noteq> EMPTY_SHA1" "ondisk d = Some x"
    and "seaf_obj_store_read_obj L st r (dir_id d) \<in> {None, Some x}"
  shows "seaf_obj_store_read_obj L st' r (dir_id d) = Some x"
proof -
  from seaf_dir_save_split [OF assms(1,2)]
  have "(if seaf_obj_store_obj_exists L st r (dir_id d) then (0, st)
         else seaf_obj_store_write_obj L st r (dir_id d) x) = (0, st')"
    using assms(3) by auto
  from seaf_store.save_reads [OF this] assms(4) show ?thesis by (auto split: option.splits)
qed

section \<open>Properties\<close>

lemma dir_v0_decode:
  "list_all dirent_v0_ok (entries dir) \<Longrightarrow> seaf_dir_from_v0_data i (seaf_dir_to_v0_data dir)
    = Some \<lparr>dir_version = 0, dir_id = take 40 i, entries = entries dir, ondisk = None\<rparr>"
  using v0_dirents_all [of "entries dir"]
  by (simp add: seaf_dir_from_v0_data_def seaf_dir_to_v0_data_def codec)

lemma file_v0_decode:
  assumes "list_all is_object_id_valid (blk_sha1s f)"
  shows "seafile_from_v0_data i (seafile_to_v0_data f)
    = Some \<lparr>sf_version = 0, file_id = i, file_size = file_size f, blk_sha1s = blk_sha1s f\<rparr>"
proof -
  have len: "length (concat (map (hex_to_rawdata_buf 20) ids)) = 20 * length ids" for ids
    by (induction ids) simp_all
  show ?thesis
    using hex_raw_ids [OF assms]
    by (simp add: seafile_from_v0_data_def seafile_to_v0_data_def codec len)
qed

text \<open>A version 0 directory whose entries have valid ids and names of 1 to 255 bytes without NUL
  is read back from its binary form exactly, entry by entry, in the same order.\<close>

theorem dir_v0_roundtrip:
  assumes "list_all dirent_v0_ok (entries dir)"
  shows "seaf_dir_from_v0_data i (seaf_dir_to_v0_data dir)
    = Some \<lparr>dir_version = 0, dir_id = take 40 i, entries = entries dir, ondisk = None\<rparr>"
  by (rule dir_v0_decode [OF assms])

definition demo_dirent :: "string \<Rightarrow> u32 \<Rightarrow> dirent" where
  "demo_dirent n m = \<lparr>d_version = 0, d_mode = m, d_id = replicate 40 (CHR ''a''), d_name = n,
     d_mtime = 0, d_modifier = None, d_size = 0\<rparr>"

lemma demo_id_valid [simp]:
  "is_object_id_valid (replicate 40 (CHR ''a''))" "is_object_id_valid (replicate 40 (CHR ''b''))"
  by (simp_all add: is_object_id_valid_def list_all_iff less_eq_char_def)

lemma demo_dirent_ok [simp]: "dirent_v0_ok (demo_dirent n m) \<longleftrightarrow> name_ok n"
  by (simp add: demo_dirent_def dirent_v0_ok_def)

text \<open>A library for the witnesses: one document, an identity compressor, a constant hash.\<close>

definition demo_libs :: "json \<Rightarrow> libs" where
  "demo_libs j = \<lparr>lib_sha1 = (\<lambda>_. replicate 20 (CHR ''a'')), lib_json_dumps = (\<lambda>_. ''doc''),
     lib_json_loadb = (\<lambda>_. Some (json_sort_keys j)), lib_compress = Some, lib_decompress = Some,
     lib_uuid_parse = (\<lambda>_. True)\<rparr>"

definition demo_store :: obj_store where
  "demo_store = \<lparr>obj_dir = ''d'', files = (\<lambda>_. None), disk_ok = (\<lambda>_. True)\<rparr>"

definition demo_hash :: string where
  "demo_hash = rawdata_to_hex (replicate 20 (CHR ''a''))"

lemma demo_hash_simps [simp]: "is_object_id_valid demo_hash" "length demo_hash = 40" "demo_hash \<noteq> EMPTY_SHA1"
proof -
  show "is_object_id_valid demo_hash" by (simp add: demo_hash_def rawdata_to_hex_valid)
  show "length demo_hash = 40" by (simp add: demo_hash_def)
  have "replicate 20 (CHR ''a'') = CHR ''a'' # replicate 19 (CHR ''a'')"
    by (simp flip: replicate_Suc)
  then have "hd demo_hash = CHR ''6''" by (simp add: demo_hash_def hex_digits_def)
  moreover have "hd EMPTY_SHA1 = CHR ''0''" by (simp add: EMPTY_SHA1_def)
  ultimately show "demo_hash \<noteq> EMPTY_SHA1" by auto
qed

lemma demo_libs_simps [simp]:
  "lib_json_dumps (demo_libs j) y = ''doc''" "lib_compress (demo_libs j) = Some"
  "sha1_hex (demo_libs j) x = demo_hash" "length (lib_sha1 (demo_libs j) x) = 20"
  "doc_roundtrips (demo_libs j) j" "is_uuid_valid (demo_libs j) r"
  by (simp_all add: demo_libs_def sha1_hex_def doc_roundtrips_def is_uuid_valid_def demo_hash_def)

theorem dir_v0_roundtrip_witness:
  "seaf_dir_from_v0_data EMPTY_SHA1 (seaf_dir_to_v0_data
     \<lparr>dir_version = 0, dir_id = [], entries = [demo_dirent ''b'' 0x81A4, demo_dirent ''a'' 0x4000],
      ondisk = None\<rparr>)
   = Some \<lparr>dir_version = 0, dir_id = EMPTY_SHA1,
       entries = [demo_dirent ''b'' 0x81A4, demo_dirent ''a'' 0x4000], ondisk = None\<rparr>"
  using dir_v0_roundtrip [of "\<lparr>dir_version = 0, dir_id = [],
      entries = [demo_dirent ''b'' 0x81A4, demo_dirent ''a'' 0x4000], ondisk = None\<rparr>" EMPTY_SHA1]
  by (simp add: name_ok_def)

text \<open>A version 0 file with valid block ids is read back from its binary form: size and block list
  are the ones it was written with.\<close>

theorem file_v0_roundtrip:
  assumes "list_all is_object_id_valid (blk_sha1s f)"
  shows "seafile_from_v0_data i (seafile_to_v0_data f)
    = Some \<lparr>sf_version = 0, file_id = i, file_size = file_size f, blk_sha1s = blk_sha1s f\<rparr>"
  by (rule file_v0_decode [OF assms])

theorem file_v0_roundtrip_witness:
  "seafile_from_v0_data EMPTY_SHA1 (seafile_to_v0_data
     \<lparr>sf_version = 0, file_id = [], file_size = 5, blk_sha1s = [replicate 40 (CHR ''a'')]\<rparr>)
   = Some \<lparr>sf_version = 0, file_id = EMPTY_SHA1, file_size = 5,
           blk_sha1s = [replicate 40 (CHR ''a'')]\<rparr>"
  using file_v0_roundtrip [of "\<lparr>sf_version = 0, file_id = [], file_size = 5,
      blk_sha1s = [replicate 40 (CHR ''a'')]\<rparr>" EMPTY_SHA1]
  by simp

text \<open>The integrity check accepts the binary form of every non-empty directory with names of 1 to
  255 bytes under the id \<open>compute_dir_id_v0\<close> gives it.\<close>

theorem dir_v0_verifies:
  assumes "entries dir \<noteq> []"
    and "list_all (\<lambda>d. length (d_name d) \<le> 255 \<and> d_name d \<noteq> []) (entries dir)"
  shows "verify_seafdir_v0 L (compute_dir_id_v0 L (entries dir)) (seaf_dir_to_v0_data dir) True"
  using assms v0_hash_input_all [OF assms(2)]
  by (simp add: verify_seafdir_v0_def seaf_dir_to_v0_data_def compute_dir_id_v0_def codec)

theorem dir_v0_verifies_witness:
  "verify_seafdir_v0 (demo_libs JNull) (compute_dir_id_v0 (demo_libs JNull) [demo_dirent ''a'' 0x81A4])
     (seaf_dir_to_v0_data \<lparr>dir_version = 0, dir_id = [], entries = [demo_dirent ''a'' 0x81A4],
       ondisk = None\<rparr>) True"
  using dir_v0_verifies [of "\<lparr>dir_version = 0, dir_id = [], entries = [demo_dirent ''a'' 0x81A4],
      ondisk = None\<rparr>" "demo_libs JNull"]
  by (simp add: demo_dirent_def)

text \<open>The version 0 decoder and the version 0 integrity check walk the bytes in step: for data of
  at least four bytes, and for shorter data as well, the structural check accepts exactly what the
  decoder can read.\<close>

theorem v0_check_iff_decodes:
  "verify_seafdir_v0 L i data False \<longleftrightarrow> (\<exists>dir. seaf_dir_from_v0_data j data = Some dir)"
  using v0_hash_input_None [of "drop 4 data"]
  by (auto simp: verify_seafdir_v0_def seaf_dir_from_v0_data_def split: option.splits)

text \<open>C21: A directory made by \<open>seaf_dir_new\<close> from valid entries and saved under its content hash is
  read back by \<open>seaf_fs_manager_get_seafdir\<close> entry for entry, and passes the integrity check,
  given that zlib and jansson round-trip its document and that the store held nothing else
  under that id.\<close>

theorem saved_dir_loads:
  assumes des: "des \<noteq> []" "0 < v" "v < 2 ^ 31" "list_all (dirent_json_ok v) des"
    and d: "d = seaf_dir_new L i des v"
    and lib: "doc_roundtrips L (seaf_dir_to_json d)"
    and id: "take 40 (dir_id d) \<noteq> EMPTY_SHA1" "length (lib_sha1 L (lib_json_dumps L (seaf_dir_to_json d))) = 20"
    and fresh: "seaf_obj_store_read_obj L st r (dir_id d) \<in> {None, ondisk d}"
    and save: "seaf_dir_save L st r d = (0, st')"
  shows "seaf_fs_manager_get_seafdir L st' r v (dir_id d) = Some (d\<lparr>ondisk := None\<rparr>) \<and>
    seaf_fs_manager_verify_seafdir L st' r v (dir_id d) True = (True, False)"
proof -
  let ?t = "lib_json_dumps L (seaf_dir_to_json d)"
  have h: "dir_id d = sha1_hex L ?t" "ondisk d = lib_compress L ?t"
    using seaf_dir_new_json [OF des(1,2) refl, of L i] d by simp_all
  obtain c where c: "lib_compress L ?t = Some c" "lib_decompress L c = Some ?t"
    "load_json L c = Some (json_sort_keys (seaf_dir_to_json d))"
    using doc_roundtripsE [OF lib] .
  have "seaf_obj_store_read_obj L st' r (dir_id d) = Some c"
    using seaf_dir_save_reads [OF save id(1)] h(2) c(1) fresh by auto
  moreover have "length (dir_id d) = 40" using h(1) id(2) by (simp add: sha1_hex_def)
  moreover have "seafdir_json_ok d" using des by (simp add: seafdir_json_ok_def d)
  ultimately show ?thesis
    using id(1) c des(2) h(1)
    by (simp add: seaf_fs_manager_get_seafdir_def seaf_dir_from_data_def seaf_dir_from_json_def
        seaf_dir_json_roundtrip seaf_fs_manager_verify_seafdir_def verify_stored_def
        verify_fs_object_json_def)
qed

definition demo_dir :: "json \<Rightarrow> seafdir" where
  "demo_dir j = seaf_dir_new (demo_libs j) None [(demo_dirent ''a'' 0x4000)\<lparr>d_version := 1\<rparr>] 1"

definition demo_doc :: json where
  "demo_doc = seaf_dir_to_json \<lparr>dir_version = 1, dir_id = [],
     entries = [(demo_dirent ''a'' 0x4000)\<lparr>d_version := 1\<rparr>], ondisk = None\<rparr>"

lemma demo_dir_doc: "seaf_dir_to_json (demo_dir j) = demo_doc"
  unfolding demo_doc_def by (rule dir_json_cong) (simp_all add: demo_dir_def)

lemma demo_dir_id: "dir_id (demo_dir j) = demo_hash"
  using seaf_dir_new_json [of "[(demo_dirent ''a'' 0x4000)\<lparr>d_version := 1\<rparr>]" 1 _ "demo_libs j" None]
  by (simp add: demo_dir_def)

theorem saved_dir_loads_witness:
  "seaf_fs_manager_get_seafdir (demo_libs demo_doc)
     (snd (seaf_dir_save (demo_libs demo_doc) demo_store ''r'' (demo_dir demo_doc))) ''r'' 1
     (dir_id (demo_dir demo_doc)) = Some ((demo_dir demo_doc)\<lparr>ondisk := None\<rparr>)"
proof -
  let ?L = "demo_libs demo_doc" and ?d = "demo_dir demo_doc"
  have "seaf_dir_save ?L demo_store ''r'' ?d = (0, snd (seaf_dir_save ?L demo_store ''r'' ?d))"
    by (simp add: seaf_dir_save_def obj_store_defs demo_store_def demo_dir_id)
  moreover have "seaf_obj_store_read_obj ?L demo_store ''r'' (dir_id ?d) = None"
    by (simp add: obj_store_defs demo_store_def)
  ultimately show ?thesis
    using saved_dir_loads [OF _ _ _ _ demo_dir_def, of demo_doc demo_store "''r''"
        "snd (seaf_dir_save ?L demo_store ''r'' ?d)"]
    by (simp add: demo_dir_doc demo_dir_id dirent_json_ok_def demo_dirent_def S_ISREG_def S_IFMT_def
        S_IFREG_def)
qed

text \<open>Objects are immutable under directory saves: after \<open>seaf_dir_save\<close>, successful or not, every
  object of every repository that could be read before is still read with the same bytes.\<close>

theorem dir_save_keeps_objects:
  assumes "seaf_dir_save L st r d = (e, st')" and "seaf_obj_store_read_obj L st q j = Some x"
  shows "seaf_obj_store_read_obj L st' q j = Some x"
proof (cases "take 40 (dir_id d) = EMPTY_SHA1")
  case True
  then show ?thesis using assms by (simp add: seaf_dir_save_def)
next
  case False
  then show ?thesis
    using seaf_dir_save_split [OF assms(1)] seaf_store.save_keeps [OF _ assms(2)] by blast
qed

theorem dir_save_keeps_objects_witness:
  "seaf_obj_store_read_obj (demo_libs demo_doc)
     (snd (seaf_dir_save (demo_libs demo_doc)
        (demo_store\<lparr>files := \<lambda>_. Some ''x''\<rparr>) ''r'' (demo_dir demo_doc)))
     ''q'' (replicate 40 (CHR ''b'')) = Some ''x''"
  by (rule dir_save_keeps_objects [OF surjective_pairing])
     (simp add: obj_store_defs)

text \<open>For version 0 repositories \<open>seaf_fs_manager_get_seafdir_sorted\<close> returns the entries the
  object has, in descending order of their names.\<close>

theorem seafdir_sorted_v0:
  assumes "version \<le> 0" "seaf_fs_manager_get_seafdir L st r version i = Some dir"
  shows "\<exists>ds. seaf_fs_manager_get_seafdir_sorted L st r version i = Some (dir\<lparr>entries := ds\<rparr>) \<and>
    desc_by_le d_name ds \<and> set ds = set (entries dir) \<and> length ds = length (entries dir)"
proof -
  have cmp: "compare_dirents = desc_cmp d_name"
    by (simp add: fun_eq_iff compare_dirents_def desc_cmp_def)
  have sorted: "is_dirents_sorted ds \<Longrightarrow> desc_by_le d_name ds" for ds
    by (induction ds rule: is_dirents_sorted.induct) (fastforce simp: not_less split: if_splits)+
  show ?thesis
  proof (cases "is_dirents_sorted (entries dir)")
    case True
    with assms sorted [OF True] show ?thesis
      by (intro exI [of _ "entries dir"]) (simp add: seaf_fs_manager_get_seafdir_sorted_def)
  next
    case False
    with assms show ?thesis
      by (intro exI [of _ "g_list_sort compare_dirents (entries dir)"])
         (simp add: seaf_fs_manager_get_seafdir_sorted_def cmp desc_by_le_sort)
  qed
qed

theorem seafdir_sorted_v0_witness:
  "\<exists>ds. seaf_fs_manager_get_seafdir_sorted (demo_libs JNull) demo_store [] 0 EMPTY_SHA1 =
     Some \<lparr>dir_version = 0, dir_id = EMPTY_SHA1, entries = ds, ondisk = None\<rparr> \<and> ds = []"
  using seafdir_sorted_v0 [of 0 "demo_libs JNull" demo_store "[]" EMPTY_SHA1]
  by (simp add: seaf_fs_manager_get_seafdir_def)

end
