(* ===== verification/CommitMgr.thy ===== *)
theory CommitMgr
  imports ObjStore FsObject
begin

text \<open>
  Commits (\<open>common/commit-mgr.c\<close>): the commit object and its JSON form, loading and saving through
  the object store, and the traversals of the commit graph from a head commit.  A traversal's fuel
  bounds the number of commits it takes from its queue; \<open>commit_traversal_terminates\<close> says how much
  is enough.
\<close>

section \<open>Commit objects\<close>

text \<open>
  \<open>SeafCommit\<close>; a NULL string is None.  \<open>desc\<close>, \<open>repo_name\<close> and \<open>repo_desc\<close> are never NULL in a
  commit that was loaded.
\<close>

record commit =
  commit_id :: string
  repo_id :: string
  root_id :: string
  desc :: string
  creator_name :: "string option"
  creator_id :: string
  ctime :: u64
  parent_id :: "string option"
  second_parent_id :: "string option"
  repo_name :: "string option"
  repo_desc :: "string option"
  repo_category :: "string option"
  device_name :: "string option"
  client_version :: "string option"
  encrypted :: bool
  enc_version :: int
  magic :: "string option"
  random_key :: "string option"
  salt :: "string option"
  no_local_history :: bool
  co_version :: int
  new_merge :: bool
  co_conflict :: bool
  repaired :: bool

text \<open>
  What the commit manager takes from outside the repository: libsearpc's accessors for members that
  may be JSON null, GLib's check of UTF-8 text, which answers how many bytes are valid, and jansson's
  printer without flags (the fs objects are printed with sorted keys, commits are not).
\<close>

record searpc =
  set_string_or_null :: "(string \<times> json) list \<Rightarrow> string \<Rightarrow> string option \<Rightarrow> (string \<times> json) list"
  get_string_or_null :: "json \<Rightarrow> string \<Rightarrow> string option"
  utf8_valid_prefix :: "string \<Rightarrow> nat"
  json_dumps_plain :: "json \<Rightarrow> bytes"

definition compute_commit_id :: "libs \<Rightarrow> commit \<Rightarrow> commit" where
  "compute_commit_id L c =
     c\<lparr>commit_id := sha1_hex L
         (take 41 (root_id c @ [CHR 0x00]) @ take 41 (creator_id c @ [CHR 0x00]) @
          (case creator_name c of None \<Rightarrow> [] | Some n \<Rightarrow> n @ [CHR 0x00]) @
          desc c @ [CHR 0x00] @ be_bytes 8 (unat (ctime c)))\<rparr>"

text \<open>\<open>now\<close> is the result of \<open>time(NULL)\<close>.\<close>

definition seaf_commit_new ::
    "libs \<Rightarrow> u64 \<Rightarrow> string option \<Rightarrow> string \<Rightarrow> string \<Rightarrow> string option \<Rightarrow> string \<Rightarrow> string \<Rightarrow> u64 \<Rightarrow> commit" where
  "seaf_commit_new L now cid repo root creator creator' description time =
     (let c = \<lparr>commit_id = [], repo_id = take 36 repo, root_id = take 40 root, desc = description,
               creator_name = creator, creator_id = take 40 creator',
               ctime = (if time = 0 then now else time), parent_id = None, second_parent_id = None,
               repo_name = None, repo_desc = None, repo_category = None, device_name = None,
               client_version = None, encrypted = False, enc_version = 0, magic = None,
               random_key = None, salt = None, no_local_history = False, co_version = 0,
               new_merge = False, co_conflict = False, repaired = False\<rparr>
      in case cid of
           None \<Rightarrow> compute_commit_id L c
         | Some i \<Rightarrow> c\<lparr>commit_id := take 40 i\<rparr>)"

section \<open>JSON form\<close>

definition set_opt_string :: "(string \<times> json) list \<Rightarrow> string \<Rightarrow> string option \<Rightarrow> (string \<times> json) list" where
  "set_opt_string kvs k v = (case v of None \<Rightarrow> kvs | Some s \<Rightarrow> json_object_set_string_member kvs k s)"

definition set_flag :: "(string \<times> json) list \<Rightarrow> string \<Rightarrow> bool \<Rightarrow> (string \<times> json) list" where
  "set_flag kvs k b = (if b then json_object_set_int_member kvs k 1 else kvs)"

definition set_nonzero :: "(string \<times> json) list \<Rightarrow> string \<Rightarrow> int \<Rightarrow> (string \<times> json) list" where
  "set_nonzero kvs k i = (if i \<noteq> 0 then json_object_set_int_member kvs k i else kvs)"

definition set_enc_members :: "(string \<times> json) list \<Rightarrow> commit \<Rightarrow> (string \<times> json) list" where
  "set_enc_members o0 c =
     (if encrypted c then
        (let e1 = json_object_set_string_member o0 ''encrypted'' ''true'';
             e2 = json_object_set_int_member e1 ''enc_version'' (enc_version c);
             e3 = (if enc_version c \<ge> 1 then set_opt_string e2 ''magic'' (magic c) else e2);
             e4 = (if enc_version c \<ge> 2 then set_opt_string e3 ''key'' (random_key c) else e3)
         in if enc_version c \<ge> 3 then set_opt_string e4 ''salt'' (salt c) else e4)
      else o0)"

text \<open>A NULL string gives no member: jansson refuses the NULL value.\<close>

definition commit_to_json_object :: "searpc \<Rightarrow> commit \<Rightarrow> json" where
  "commit_to_json_object R c =
     (let o1 = json_object_set_string_member [] ''commit_id'' (commit_id c);
          o2 = json_object_set_string_member o1 ''root_id'' (root_id c);
          o3 = json_object_set_string_member o2 ''repo_id'' (repo_id c);
          o4 = set_opt_string o3 ''creator_name'' (creator_name c);
          o5 = json_object_set_string_member o4 ''creator'' (creator_id c);
          o6 = json_object_set_string_member o5 ''description'' (desc c);
          o7 = json_object_set_int_member o6 ''ctime'' (sint (ctime c));
          o8 = set_string_or_null R o7 ''parent_id'' (parent_id c);
          o9 = set_string_or_null R o8 ''second_parent_id'' (second_parent_id c);
          o10 = set_opt_string o9 ''repo_name'' (repo_name c);
          o11 = set_opt_string o10 ''repo_desc'' (repo_desc c);
          o12 = set_string_or_null R o11 ''repo_category'' (repo_category c);
          o13 = set_opt_string o12 ''device_name'' (device_name c);
          o14 = set_opt_string o13 ''client_version'' (client_version c);
          o15 = set_enc_members o14 c;
          o16 = set_flag o15 ''no_local_history'' (no_local_history c);
          o17 = set_nonzero o16 ''version'' (co_version c);
          o18 = set_flag o17 ''conflict'' (co_conflict c);
          o19 = set_flag o18 ''new_merge'' (new_merge c)
      in JObject (set_flag o19 ''repaired'' (repaired c)))"

definition int_member :: "json \<Rightarrow> string \<Rightarrow> int" where
  "int_member j k = (if json_object_has_member j k then c_int (json_object_get_int_member j k) else 0)"

definition opt_length_is :: "string option \<Rightarrow> nat \<Rightarrow> bool" where
  "opt_length_is s n = (case s of None \<Rightarrow> False | Some x \<Rightarrow> length x = n)"

text \<open>The checks of the encryption parameters, by encryption version.\<close>

definition enc_ok :: "int \<Rightarrow> string option \<Rightarrow> string option \<Rightarrow> string option \<Rightarrow> bool" where
  "enc_ok v m k s =
     (if v = 0 then True
      else if v = 1 then opt_length_is m 32
      else if v = 2 then opt_length_is m 64 \<and> opt_length_is k 96
      else if v = 3 \<or> v = 4 then opt_length_is m 64 \<and> opt_length_is k 96 \<and> opt_length_is s 64
      else False)"

definition ascii_strdown :: "string \<Rightarrow> string" where
  "ascii_strdown s = map (\<lambda>c. if 65 \<le> byte_val c \<and> byte_val c \<le> 90 then char_of (byte_val c + 32) else c) s"

definition dflt :: "string option \<Rightarrow> string" where
  "dflt s = (case s of None \<Rightarrow> [] | Some x \<Rightarrow> x)"

definition valid_opt_id :: "string option \<Rightarrow> bool" where
  "valid_opt_id i = (case i of None \<Rightarrow> True | Some x \<Rightarrow> is_object_id_valid x)"

definition commit_from_json_object :: "libs \<Rightarrow> searpc \<Rightarrow> u64 \<Rightarrow> string \<Rightarrow> json \<Rightarrow> commit option" where
  "commit_from_json_object L R now cid obj =
     (let str = json_object_get_string_member obj;
          null = get_string_or_null R obj;
          has = json_object_has_member obj;
          creator_nm = (if has ''creator_name'' then null ''creator_name'' else None);
          time = (word_of_int (json_object_get_int_member obj ''ctime'') :: u64);
          parent = null ''parent_id'';
          second = null ''second_parent_id'';
          enc = (if has ''encrypted'' then null ''encrypted'' else None);
          is_enc = (enc = Some ''true'');
          read_enc = (is_enc \<and> has ''enc_version'');
          ev = (if read_enc then c_int (json_object_get_int_member obj ''enc_version'') else 0);
          mg = (if read_enc then str ''magic'' else None);
          rk = (if ev \<ge> 2 then str ''key'' else None);
          sl = (if ev \<ge> 3 then str ''salt'' else None)
      in case (str ''repo_id'', str ''root_id'', str ''creator'') of
           (Some repo, Some root, Some creator) \<Rightarrow>
             if \<not> is_uuid_valid L repo \<or> \<not> is_object_id_valid root \<or> length creator \<noteq> 40 \<or>
                \<not> valid_opt_id parent \<or> \<not> valid_opt_id second then None
             else if \<not> enc_ok ev mg rk sl then None
             else Some ((seaf_commit_new L now (Some cid) repo root (map_option ascii_strdown creator_nm)
                           creator (dflt (str ''description'')) time)
                   \<lparr>parent_id := parent, second_parent_id := second,
                    repo_name := Some (dflt (str ''repo_name'')),
                    repo_desc := Some (dflt (str ''repo_desc'')), encrypted := is_enc,
                    repo_category := null ''repo_category'', device_name := null ''device_name'',
                    client_version := null ''client_version'',
                    enc_version := (if is_enc then ev else 0),
                    magic := (if is_enc \<and> ev \<ge> 1 then mg else None),
                    random_key := (if is_enc \<and> ev \<ge> 2 then rk else None),
                    salt := (if is_enc \<and> ev \<ge> 3 then sl else None),
                    no_local_history := (int_member obj ''no_local_history'' \<noteq> 0),
                    co_version := int_member obj ''version'',
                    new_merge := (int_member obj ''new_merge'' \<noteq> 0),
                    co_conflict := (int_member obj ''conflict'' \<noteq> 0),
                    repaired := (int_member obj ''repaired'' \<noteq> 0)\<rparr>)
         | _ \<Rightarrow> None)"

section \<open>Storage\<close>

text \<open>\<open>clean_utf8_data\<close>: every byte that is not valid UTF-8 becomes a question mark.\<close>

function clean_utf8_data :: "searpc \<Rightarrow> string \<Rightarrow> string" where
  "clean_utf8_data R s =
     (let n = utf8_valid_prefix R s in
      if s = [] \<or> n \<ge> length s then s
      else take n s @ CHR ''?'' # clean_utf8_data R (drop (Suc n) s))"
  by pat_completeness auto
termination
  by (relation "measure (\<lambda>(R, s). length s)") auto

declare clean_utf8_data.simps [simp del]

definition parse_commit_json :: "libs \<Rightarrow> searpc \<Rightarrow> bytes \<Rightarrow> json option" where
  "parse_commit_json L R data =
     (case lib_json_loadb L data of
        Some j \<Rightarrow> Some j
      | None \<Rightarrow>
          lib_json_loadb L
            (if data \<noteq> [] \<and> last data = CHR 0x00 then clean_utf8_data R (butlast data) @ [CHR 0x00]
             else clean_utf8_data R data))"

definition seaf_commit_to_data :: "libs \<Rightarrow> searpc \<Rightarrow> commit \<Rightarrow> bytes" where
  "seaf_commit_to_data L R c = json_dumps_plain R (commit_to_json_object R c)"

definition seaf_commit_from_data :: "libs \<Rightarrow> searpc \<Rightarrow> u64 \<Rightarrow> string \<Rightarrow> bytes \<Rightarrow> commit option" where
  "seaf_commit_from_data L R now i data =
     (case parse_commit_json L R data of None \<Rightarrow> None | Some j \<Rightarrow> commit_from_json_object L R now i j)"

text \<open>The commit manager with the repository id its callers pass.\<close>

record commit_view =
  cv_libs :: libs
  cv_searpc :: searpc
  cv_store :: obj_store
  cv_repo :: string
  cv_now :: u64

definition load_commit :: "commit_view \<Rightarrow> string \<Rightarrow> commit option" where
  "load_commit V i =
     (if length i \<noteq> 40 then None
      else (case seaf_obj_store_read_obj (cv_libs V) (cv_store V) (cv_repo V) i of
              None \<Rightarrow> None
            | Some data \<Rightarrow>
                (case parse_commit_json (cv_libs V) (cv_searpc V) data of
                   None \<Rightarrow> None
                 | Some j \<Rightarrow> commit_from_json_object (cv_libs V) (cv_searpc V) (cv_now V) i j)))"

definition save_commit :: "commit_view \<Rightarrow> commit \<Rightarrow> int \<times> commit_view" where
  "save_commit V c =
     (if seaf_obj_store_obj_exists (cv_libs V) (cv_store V) (repo_id c) (commit_id c) then (0, V)
      else (case seaf_obj_store_write_obj (cv_libs V) (cv_store V) (repo_id c) (commit_id c)
                   (json_dumps_plain (cv_searpc V) (commit_to_json_object (cv_searpc V) c)) of
              (r, st') \<Rightarrow> if r < 0 then (-1, V\<lparr>cv_store := st'\<rparr>) else (0, V\<lparr>cv_store := st'\<rparr>)))"

definition delete_commit :: "commit_view \<Rightarrow> string \<Rightarrow> commit_view" where
  "delete_commit V i = V\<lparr>cv_store := seaf_obj_store_delete_obj (cv_libs V) (cv_store V) (cv_repo V) i\<rparr>"

definition seaf_commit_manager_add_commit :: "commit_view \<Rightarrow> commit \<Rightarrow> int \<times> commit_view" where
  "seaf_commit_manager_add_commit V c =
     (case save_commit V c of (r, V') \<Rightarrow> if r < 0 then (-1, V') else (0, V'))"

definition seaf_commit_manager_del_commit :: "commit_view \<Rightarrow> string \<Rightarrow> commit_view" where
  "seaf_commit_manager_del_commit V i = delete_commit V i"

definition seaf_commit_manager_get_commit :: "commit_view \<Rightarrow> string \<Rightarrow> commit option" where
  "seaf_commit_manager_get_commit V i = load_commit V i"

definition seaf_commit_manager_commit_exists :: "commit_view \<Rightarrow> string \<Rightarrow> bool" where
  "seaf_commit_manager_commit_exists V i =
     seaf_obj_store_obj_exists (cv_libs V) (cv_store V) (cv_repo V) i"

section \<open>Traversal\<close>

text \<open>The difference of two 64-bit times, cut to the \<open>gint\<close> the comparison returns.\<close>

definition compare_commit_by_time :: "commit \<Rightarrow> commit \<Rightarrow> int" where
  "compare_commit_by_time a b = sint (ucast (ctime b - ctime a) :: u32)"

text \<open>The queue and the table of ids that were put into it.\<close>

record commit_queue =
  cq_list :: "commit list"
  cq_hash :: "string set"

definition insert_parent_commit ::
    "commit_view \<Rightarrow> string \<Rightarrow> bool \<Rightarrow> commit_queue \<Rightarrow> int \<times> commit_queue" where
  "insert_parent_commit V parent allow_truncate q =
     (if parent \<in> cq_hash q then (0, q)
      else (case seaf_commit_manager_get_commit V parent of
              None \<Rightarrow> if allow_truncate then (0, q) else (-1, q)
            | Some p \<Rightarrow>
                (0, \<lparr>cq_list = g_list_insert_sorted compare_commit_by_time p (cq_list q),
                     cq_hash = insert parent (cq_hash q)\<rparr>)))"

definition insert_opt_parent ::
    "commit_view \<Rightarrow> string option \<Rightarrow> bool \<Rightarrow> commit_queue \<Rightarrow> int \<times> commit_queue" where
  "insert_opt_parent V parent allow_truncate q =
     (case parent of None \<Rightarrow> (0, q) | Some i \<Rightarrow> insert_parent_commit V i allow_truncate q)"

text \<open>Both parents of a commit; None when an error ends the traversal.\<close>

definition insert_parents ::
    "commit_view \<Rightarrow> commit \<Rightarrow> bool \<Rightarrow> bool \<Rightarrow> commit_queue \<Rightarrow> commit_queue option" where
  "insert_parents V c skip_errors allow_truncate q =
     (case insert_opt_parent V (parent_id c) allow_truncate q of
        (r1, q1) \<Rightarrow>
          if r1 < 0 \<and> \<not> skip_errors then None
          else (case insert_opt_parent V (second_parent_id c) allow_truncate q1 of
                  (r2, q2) \<Rightarrow> if r2 < 0 \<and> \<not> skip_errors then None else Some q2))"

text \<open>The callback: its verdict, the value it left in \<open>*stop\<close>, and the user data.\<close>

type_synonym 'u commit_func = "commit \<Rightarrow> 'u \<Rightarrow> bool \<times> bool \<times> 'u"

primrec traverse_loop ::
    "nat \<Rightarrow> commit_view \<Rightarrow> 'u commit_func \<Rightarrow> bool \<Rightarrow> bool \<Rightarrow> commit_queue \<Rightarrow> 'u \<Rightarrow> (bool \<times> 'u) option" where
  "traverse_loop 0 V func skip_errors allow_truncate q u =
     (if cq_list q = [] then Some (True, u) else None)"
| "traverse_loop (Suc n) V func skip_errors allow_truncate q u =
     (case cq_list q of
        [] \<Rightarrow> Some (True, u)
      | c # rest \<Rightarrow>
          (let q = q\<lparr>cq_list := rest\<rparr> in
           case func c u of
             (ok, stop, u') \<Rightarrow>
               if \<not> ok \<and> \<not> skip_errors then Some (False, u')
               else if stop then traverse_loop n V func skip_errors allow_truncate q u'
               else (case insert_parents V c skip_errors allow_truncate q of
                       None \<Rightarrow> Some (False, u')
                     | Some q' \<Rightarrow> traverse_loop n V func skip_errors allow_truncate q' u')))"

definition head_queue :: "commit \<Rightarrow> commit_queue" where
  "head_queue c = \<lparr>cq_list = g_list_insert_sorted compare_commit_by_time c [], cq_hash = {commit_id c}\<rparr>"

definition traverse_commit_tree_common ::
    "nat \<Rightarrow> commit_view \<Rightarrow> string \<Rightarrow> 'u commit_func \<Rightarrow> 'u \<Rightarrow> bool \<Rightarrow> bool \<Rightarrow> (bool \<times> 'u) option" where
  "traverse_commit_tree_common n V head func u skip_errors allow_truncate =
     (case seaf_commit_manager_get_commit V head of
        None \<Rightarrow> Some (False, u)
      | Some c \<Rightarrow> traverse_loop n V func skip_errors allow_truncate (head_queue c) u)"

definition seaf_commit_manager_traverse_commit_tree ::
    "nat \<Rightarrow> commit_view \<Rightarrow> string \<Rightarrow> 'u commit_func \<Rightarrow> 'u \<Rightarrow> bool \<Rightarrow> (bool \<times> 'u) option" where
  "seaf_commit_manager_traverse_commit_tree n V head func u skip_errors =
     traverse_commit_tree_common n V head func u skip_errors False"

definition seaf_commit_manager_traverse_commit_tree_truncated ::
    "nat \<Rightarrow> commit_view \<Rightarrow> string \<Rightarrow> 'u commit_func \<Rightarrow> 'u \<Rightarrow> bool \<Rightarrow> (bool \<times> 'u) option" where
  "seaf_commit_manager_traverse_commit_tree_truncated n V head func u skip_errors =
     traverse_commit_tree_common n V head func u skip_errors True"

text \<open>
  The traversal with a limit stops after that many commits, once at most one is queued; that one
  is where the next scan starts.  A commit whose callback asks to stop does not count.
\<close>

primrec traverse_limit_loop ::
    "nat \<Rightarrow> commit_view \<Rightarrow> 'u commit_func \<Rightarrow> int \<Rightarrow> bool \<Rightarrow> int \<Rightarrow> commit_queue \<Rightarrow> 'u
     \<Rightarrow> (bool \<times> string option \<times> 'u) option" where
  "traverse_limit_loop 0 V func limit skip_errors count q u =
     (if cq_list q = [] then Some (True, None, u) else None)"
| "traverse_limit_loop (Suc n) V func limit skip_errors count q u =
     (case cq_list q of
        [] \<Rightarrow> Some (True, None, u)
      | c # rest \<Rightarrow>
          (let q = q\<lparr>cq_list := rest\<rparr> in
           case func c u of
             (ok, stop, u') \<Rightarrow>
               if \<not> ok \<and> \<not> skip_errors then Some (False, None, u')
               else if stop then traverse_limit_loop n V func limit skip_errors count q u'
               else (case insert_parents V c skip_errors False q of
                       None \<Rightarrow> Some (False, None, u')
                     | Some q' \<Rightarrow>
                         if limit > 0 \<and> count + 1 \<ge> limit \<and> length (cq_list q') \<le> 1 then
                           Some (True, (case cq_list q' of [] \<Rightarrow> None | d # _ \<Rightarrow> Some (commit_id d)), u')
                         else traverse_limit_loop n V func limit skip_errors
                                (if limit > 0 then count + 1 else count) q' u')))"

definition seaf_commit_manager_traverse_commit_tree_with_limit ::
    "nat \<Rightarrow> commit_view \<Rightarrow> string \<Rightarrow> 'u commit_func \<Rightarrow> int \<Rightarrow> 'u \<Rightarrow> bool
     \<Rightarrow> (bool \<times> string option \<times> 'u) option" where
  "seaf_commit_manager_traverse_commit_tree_with_limit n V head func limit u skip_errors =
     (case seaf_commit_manager_get_commit V head of
        None \<Rightarrow> Some (False, None, u)
      | Some c \<Rightarrow> traverse_limit_loop n V func limit skip_errors 0 (head_queue c) u)"

section \<open>Which commits a traversal visits\<close>

abbreviation get_commit :: "commit_view \<Rightarrow> string \<Rightarrow> commit option" where
  "get_commit V i \<equiv> seaf_commit_manager_get_commit V i"

definition parents :: "commit \<Rightarrow> string set" where
  "parents c = set_option (parent_id c) \<union> set_option (second_parent_id c)"

text \<open>
  The commits a traversal gets to from a head when it does not go past those that \<open>S\<close> selects; with
  none selected, the head and all its ancestors.
\<close>

inductive reach_until :: "commit_view \<Rightarrow> (commit \<Rightarrow> bool) \<Rightarrow> string \<Rightarrow> string \<Rightarrow> bool" for V S head where
  head: "reach_until V S head head"
| parent: "reach_until V S head i \<Longrightarrow> get_commit V i = Some c \<Longrightarrow> \<not> S c \<Longrightarrow> p \<in> parents c \<Longrightarrow>
    reach_until V S head p"

abbreviation commit_reach :: "commit_view \<Rightarrow> string \<Rightarrow> string \<Rightarrow> bool" where
  "commit_reach V \<equiv> reach_until V (\<lambda>_. False)"

lemma commit_reach_trans: "commit_reach V b c \<Longrightarrow> commit_reach V a b \<Longrightarrow> commit_reach V a c"
  by (induction rule: reach_until.induct) (auto intro: reach_until.parent)

lemma reach_until_reach: "reach_until V S a b \<Longrightarrow> commit_reach V a b"
  by (induction rule: reach_until.induct) (auto intro: reach_until.intros)

lemma LetE: "(let x = a in f x) = y \<Longrightarrow> (\<And>x. f x = y \<Longrightarrow> P) \<Longrightarrow> P"
  by (simp add: Let_def)

lemma commit_new_id [simp]: "commit_id (seaf_commit_new L now (Some i) r t n k d m) = take 40 i"
  by (simp add: seaf_commit_new_def Let_def)

lemma commit_from_json_id: "commit_from_json_object L R now i j = Some c \<Longrightarrow> commit_id c = take 40 i"
  unfolding commit_from_json_object_def
  by ((erule LetE)+) (auto split: option.split_asm if_split_asm)

lemma get_commit_id: "get_commit V i = Some c \<Longrightarrow> commit_id c = i"
  by (auto simp: seaf_commit_manager_get_commit_def load_commit_def
      split: option.splits if_splits dest: commit_from_json_id)

lemma get_commit_length: "get_commit V i = Some c \<Longrightarrow> length i = 40"
  by (auto simp: seaf_commit_manager_get_commit_def load_commit_def split: if_splits)

text \<open>
  The queue during a traversal: what is queued is in the table, once; \<open>D\<close> are the ids whose
  commits were taken from the queue.
\<close>

definition queue_ok :: "commit_view \<Rightarrow> string set \<Rightarrow> commit_queue \<Rightarrow> bool" where
  "queue_ok V D q \<longleftrightarrow>
     distinct (map commit_id (cq_list q)) \<and> D \<inter> commit_id ` set (cq_list q) = {} \<and>
     cq_hash q = D \<union> commit_id ` set (cq_list q) \<and>
     (\<forall>c\<in>set (cq_list q). get_commit V (commit_id c) = Some c)"

lemma distinct_insert_sorted:
  "distinct (map f (g_list_insert_sorted cmp x xs)) \<longleftrightarrow> f x \<notin> f ` set xs \<and> distinct (map f xs)"
  by (induction xs) auto

lemma insert_opt_parent_ok:
  assumes "queue_ok V D q" "insert_opt_parent V p allow_truncate q = (r, q')"
  shows "queue_ok V D q' \<and> cq_hash q \<subseteq> cq_hash q' \<and> cq_hash q' \<subseteq> cq_hash q \<union> set_option p \<and>
    (\<not> r < 0 \<longrightarrow> \<not> allow_truncate \<longrightarrow> set_option p \<subseteq> cq_hash q')"
proof (cases p)
  case None
  then show ?thesis using assms by (simp add: insert_opt_parent_def)
next
  case (Some i)
  show ?thesis
  proof (cases "i \<in> cq_hash q \<or> get_commit V i = None")
    case True
    then show ?thesis
      using assms Some by (auto simp: insert_opt_parent_def insert_parent_commit_def split: if_splits)
  next
    case False
    then obtain c where c: "get_commit V i = Some c" "commit_id c = i" using get_commit_id by blast
    then have q': "q' = \<lparr>cq_list = g_list_insert_sorted compare_commit_by_time c (cq_list q),
        cq_hash = insert i (cq_hash q)\<rparr>"
      using assms(2) Some False by (simp add: insert_opt_parent_def insert_parent_commit_def)
    show ?thesis
      using assms(1) False c Some by (auto simp: q' queue_ok_def distinct_insert_sorted)
  qed
qed

lemma insert_parents_ok:
  assumes "queue_ok V D q" "insert_parents V c skip_errors allow_truncate q = Some q'"
  shows "queue_ok V D q' \<and> cq_hash q \<subseteq> cq_hash q' \<and> cq_hash q' \<subseteq> cq_hash q \<union> parents c \<and>
    (\<not> skip_errors \<longrightarrow> \<not> allow_truncate \<longrightarrow> parents c \<subseteq> cq_hash q')"
proof -
  obtain r1 q1 where 1: "insert_opt_parent V (parent_id c) allow_truncate q = (r1, q1)" by fastforce
  obtain r2 q2 where 2: "insert_opt_parent V (second_parent_id c) allow_truncate q1 = (r2, q2)" by fastforce
  note ok1 = insert_opt_parent_ok [OF assms(1) 1]
  note ok2 = insert_opt_parent_ok [OF conjunct1 [OF ok1] 2]
  show ?thesis using assms(2) ok1 ok2 by (auto simp: insert_parents_def 1 2 parents_def split: if_splits)
qed

lemma queue_ok_pop:
  "queue_ok V D q \<Longrightarrow> cq_list q = c # rest \<Longrightarrow>
   queue_ok V (insert (commit_id c) D) (q\<lparr>cq_list := rest\<rparr>) \<and> commit_id c \<in> cq_hash q \<and>
   commit_id c \<notin> D \<and> get_commit V (commit_id c) = Some c"
  by (auto simp: queue_ok_def)

text \<open>
  A traversal whose callback always succeeds, updating the data with \<open>upd\<close> and stopping where \<open>S\<close>
  says, is a fold over the commits it visits.
\<close>

definition plain_func :: "'u commit_func \<Rightarrow> (commit \<Rightarrow> bool) \<Rightarrow> (commit \<Rightarrow> 'u \<Rightarrow> 'u) \<Rightarrow> bool" where
  "plain_func func S upd \<longleftrightarrow> (\<forall>c u. func c u = (True, S c, upd c u))"

definition visits :: "commit_view \<Rightarrow> (commit \<Rightarrow> bool) \<Rightarrow> string set \<Rightarrow> string set \<Rightarrow> commit list \<Rightarrow> bool" where
  "visits V S D H l \<longleftrightarrow>
     distinct (map commit_id l) \<and> D \<inter> commit_id ` set l = {} \<and> H \<subseteq> D \<union> commit_id ` set l \<and>
     (\<forall>R. H \<subseteq> R \<longrightarrow> (\<forall>i\<in>R. \<forall>c. get_commit V i = Some c \<longrightarrow> \<not> S c \<longrightarrow> parents c \<subseteq> R) \<longrightarrow>
        commit_id ` set l \<subseteq> R) \<and>
     (\<forall>c\<in>set l. get_commit V (commit_id c) = Some c \<and> (\<not> S c \<longrightarrow> parents c \<subseteq> D \<union> commit_id ` set l))"

lemma visitsD:
  "visits V S D H l \<Longrightarrow> distinct (map commit_id l) \<and> D \<inter> commit_id ` set l = {} \<and> H \<subseteq> D \<union> commit_id ` set l \<and>
     (\<forall>c\<in>set l. get_commit V (commit_id c) = Some c \<and> (\<not> S c \<longrightarrow> parents c \<subseteq> D \<union> commit_id ` set l))"
  unfolding visits_def by (elim conjE, intro conjI)

lemma traverse_loop_visits:
  assumes f: "plain_func func S upd"
    and "traverse_loop n V func False False q u = Some (True, u')" "queue_ok V D q"
  shows "\<exists>l. u' = fold upd l u \<and> visits V S D (cq_hash q) l"
  using assms(2,3)
proof (induction n arbitrary: q u D)
  case 0
  then show ?case
    by (intro exI [of _ "[]"]) (auto simp: visits_def queue_ok_def split: if_splits)
next
  case (Suc n)
  show ?case
  proof (cases "cq_list q")
    case Nil
    then show ?thesis
      using Suc.prems by (intro exI [of _ "[]"]) (auto simp: visits_def queue_ok_def)
  next
    case (Cons c rest)
    let ?q = "q\<lparr>cq_list := rest\<rparr>" and ?D = "insert (commit_id c) D"
    have pop: "queue_ok V ?D ?q" "commit_id c \<in> cq_hash q" "commit_id c \<notin> D" "get_commit V (commit_id c) = Some c"
      using queue_ok_pop [OF Suc.prems(2) Cons] by auto
    have fc: "func c u = (True, S c, upd c u)" using f by (simp add: plain_func_def)
    obtain q' where q': "traverse_loop n V func False False q' (upd c u) = Some (True, u')"
      "if S c then q' = ?q else insert_parents V c False False ?q = Some q'"
      using Suc.prems(1) by (auto simp: Cons Let_def fc split: if_splits option.splits)
    have ok: "queue_ok V ?D q'" "cq_hash q \<subseteq> cq_hash q'" "cq_hash q' \<subseteq> cq_hash q \<union> (if S c then {} else parents c)"
      "\<not> S c \<Longrightarrow> parents c \<subseteq> cq_hash q'"
      using q'(2) pop(1) insert_parents_ok [OF pop(1), of c False False q'] by (auto split: if_splits)
    from Suc.IH [OF q'(1) ok(1)] obtain l where l: "u' = fold upd l (upd c u)" "visits V S ?D (cq_hash q') l"
      by blast
    have "commit_id ` set (c # l) \<subseteq> R" if "cq_hash q \<subseteq> R"
      "\<forall>i\<in>R. \<forall>c. get_commit V i = Some c \<longrightarrow> \<not> S c \<longrightarrow> parents c \<subseteq> R" for R
    proof -
      have "commit_id c \<in> R" using pop(2) that(1) by blast
      then have "\<not> S c \<longrightarrow> parents c \<subseteq> R" using that(2) pop(4) by blast
      then have "cq_hash q' \<subseteq> R" using ok(3) that(1) by (cases "S c") auto
      then show ?thesis using l(2) that(2) \<open>commit_id c \<in> R\<close> unfolding visits_def by auto
    qed
    note within = this
    have vl: "distinct (map commit_id l)" "?D \<inter> commit_id ` set l = {}" "cq_hash q' \<subseteq> ?D \<union> commit_id ` set l"
      "\<forall>c\<in>set l. get_commit V (commit_id c) = Some c \<and> (\<not> S c \<longrightarrow> parents c \<subseteq> ?D \<union> commit_id ` set l)"
      using visitsD [OF l(2)] by blast+
    have D: "D \<union> commit_id ` set (c # l) = ?D \<union> commit_id ` set l" by auto
    have "\<forall>d\<in>set (c # l). get_commit V (commit_id d) = Some d \<and> (\<not> S d \<longrightarrow> parents d \<subseteq> D \<union> commit_id ` set (c # l))"
      unfolding D using vl(3,4) ok(4) pop(4) by auto
    moreover have "distinct (map commit_id (c # l))" "D \<inter> commit_id ` set (c # l) = {}"
      "cq_hash q \<subseteq> D \<union> commit_id ` set (c # l)"
      using vl(1-3) ok(2) pop(3) unfolding D by auto
    ultimately have "visits V S D (cq_hash q) (c # l)"
      using within unfolding visits_def by blast
    then show ?thesis using l(1) by (intro exI [of _ "c # l"]) simp
  qed
qed

lemma head_queue_ok: "get_commit V i = Some c \<Longrightarrow> queue_ok V {} (head_queue c) \<and> cq_hash (head_queue c) = {i}"
  using get_commit_id [of V i c] by (simp add: queue_ok_def head_queue_def)

lemma visits_reach:
  assumes "visits V S {} {head} l"
  shows "commit_id ` set l = {i. reach_until V S head i}"
proof
  show "{i. reach_until V S head i} \<subseteq> commit_id ` set l"
  proof
    fix i assume "i \<in> {i. reach_until V S head i}"
    then have "reach_until V S head i" by simp
    then show "i \<in> commit_id ` set l"
    proof induction
      case head
      then show ?case using assms by (auto simp: visits_def)
    next
      case (parent i c p)
      then obtain d where "d \<in> set l" "commit_id d = i" by auto
      then have "get_commit V i = Some d" "\<not> S d \<longrightarrow> parents d \<subseteq> commit_id ` set l"
        using assms by (auto simp: visits_def)
      then show ?case using parent by auto
    qed
  qed
  have "{head} \<subseteq> {i. reach_until V S head i}" by (auto intro: reach_until.head)
  moreover have "\<forall>i\<in>{i. reach_until V S head i}. \<forall>c. get_commit V i = Some c \<longrightarrow> \<not> S c \<longrightarrow>
      parents c \<subseteq> {i. reach_until V S head i}"
    by (auto intro: reach_until.parent)
  ultimately show "commit_id ` set l \<subseteq> {i. reach_until V S head i}"
    using assms unfolding visits_def by blast
qed

lemma traverse_tree_visits:
  assumes "plain_func func S upd"
    and "seaf_commit_manager_traverse_commit_tree n V head func u False = Some (True, u')"
  shows "\<exists>l. u' = fold upd l u \<and> distinct (map commit_id l) \<and>
    commit_id ` set l = {i. reach_until V S head i} \<and> (\<forall>c\<in>set l. get_commit V (commit_id c) = Some c)"
proof -
  obtain c where c: "get_commit V head = Some c"
    using assms(2) by (auto simp: seaf_commit_manager_traverse_commit_tree_def traverse_commit_tree_common_def
        split: option.splits)
  then have t: "traverse_loop n V func False False (head_queue c) u = Some (True, u')"
    using assms(2) by (simp add: seaf_commit_manager_traverse_commit_tree_def traverse_commit_tree_common_def)
  obtain l where l: "u' = fold upd l u" "visits V S {} {head} l"
    using traverse_loop_visits [OF assms(1) t] head_queue_ok [OF c] by auto
  have "distinct (map commit_id l)" "\<forall>c\<in>set l. get_commit V (commit_id c) = Some c"
    using l(2) unfolding visits_def by blast+
  then show ?thesis using visits_reach [OF l(2)] l(1) by blast
qed

text \<open>
  The contract of a callback that processes commits and may stop: it may rely on an invariant that it
  keeps, marks every commit it is called for, loses no mark, and asks to stop only where \<open>stops\<close>
  allows it, for the very first commit (nothing \<open>started\<close>) or for later ones.  The client is the
  traversal: when it succeeds, the commits it got to are marked, and they include the parents of
  every one where it did not stop.
\<close>

locale commit_visitor =
  fixes V :: commit_view
    and func :: "'u commit_func"
    and inv :: "'u \<Rightarrow> bool"
    and started :: "'u \<Rightarrow> bool"
    and is_done :: "'u \<Rightarrow> commit \<Rightarrow> bool"
    and stops :: "bool \<Rightarrow> commit \<Rightarrow> bool"
  assumes call: "inv u \<Longrightarrow> func c u = (True, stop, u') \<Longrightarrow>
      inv u' \<and> started u' \<and> is_done u' c \<and> (stop \<longrightarrow> stops (started u) c)"
    and keeps_done: "inv u \<Longrightarrow> func c u = (True, stop, u') \<Longrightarrow> is_done u d \<Longrightarrow> is_done u' d"
begin

lemma loop_step:
  assumes "traverse_loop (Suc n) V func False False q u = Some (True, u')" "queue_ok V D q" "cq_list q = c # rest" "inv u"
  obtains q' v where "traverse_loop n V func False False q' v = Some (True, u')" "queue_ok V (insert (commit_id c) D) q'"
    "cq_hash q \<subseteq> cq_hash q'" "\<not> stops (started u) c \<Longrightarrow> parents c \<subseteq> cq_hash q'" "get_commit V (commit_id c) = Some c"
    "inv v" "started v" "is_done v c" "\<And>d. is_done u d \<Longrightarrow> is_done v d" "commit_id c \<in> cq_hash q"
proof -
  let ?q = "q\<lparr>cq_list := rest\<rparr>"
  have pop: "queue_ok V (insert (commit_id c) D) ?q" "get_commit V (commit_id c) = Some c" "commit_id c \<in> cq_hash q"
    using queue_ok_pop [OF assms(2,3)] by auto
  obtain ok stop v where f: "func c u = (ok, stop, v)" using prod_cases3 by blast
  have ok: ok using assms(1,3) f by (auto simp: Let_def split: if_splits)
  note f = f [unfolded eqTrueI [OF ok]]
  note c = call [OF assms(4) f] and k = keeps_done [OF assms(4) f]
  show ?thesis
  proof (cases stop)
    case True
    then show ?thesis using that [of ?q v] assms(1,3) f pop c k by (simp add: Let_def)
  next
    case False
    then obtain q' where q': "insert_parents V c False False ?q = Some q'"
      "traverse_loop n V func False False q' v = Some (True, u')"
      using assms(1,3) f by (auto simp: Let_def split: option.splits)
    then show ?thesis
      using that [of q' v] insert_parents_ok [OF pop(1) q'(1)] pop(2,3) c k by simp
  qed
qed

lemma loop_covers:
  "traverse_loop n V func False False q u = Some (True, u') \<Longrightarrow> queue_ok V D q \<Longrightarrow> inv u \<Longrightarrow> started u \<Longrightarrow>
   inv u' \<and> started u' \<and> (\<forall>d. is_done u d \<longrightarrow> is_done u' d) \<and>
   (\<exists>K. cq_hash q \<subseteq> D \<union> K \<and> (\<forall>i\<in>K. \<exists>c. get_commit V i = Some c \<and> is_done u' c \<and> (\<not> stops True c \<longrightarrow> parents c \<subseteq> D \<union> K)))"
proof (induction n arbitrary: q u D)
  case 0
  then show ?case by (auto simp: queue_ok_def split: if_splits intro!: exI [of _ "{}"])
next
  case (Suc n)
  show ?case
  proof (cases "cq_list q")
    case Nil
    then show ?thesis using Suc.prems by (auto simp: queue_ok_def intro!: exI [of _ "{}"])
  next
    case (Cons c rest)
    obtain q' v where s: "traverse_loop n V func False False q' v = Some (True, u')" "queue_ok V (insert (commit_id c) D) q'"
      "cq_hash q \<subseteq> cq_hash q'" "\<not> stops (started u) c \<Longrightarrow> parents c \<subseteq> cq_hash q'" "get_commit V (commit_id c) = Some c"
      "inv v" "started v" "is_done v c" "\<And>d. is_done u d \<Longrightarrow> is_done v d"
      by (rule loop_step [OF Suc.prems(1,2) Cons Suc.prems(3)]) blast
    obtain K where K: "cq_hash q' \<subseteq> insert (commit_id c) D \<union> K"
      "\<forall>i\<in>K. \<exists>c'. get_commit V i = Some c' \<and> is_done u' c' \<and> (\<not> stops True c' \<longrightarrow> parents c' \<subseteq> insert (commit_id c) D \<union> K)"
      and done': "inv u'" "started u'" "\<forall>d. is_done v d \<longrightarrow> is_done u' d"
      using Suc.IH [OF s(1,2,6,7)] by blast
    have D: "insert (commit_id c) D \<union> K = D \<union> insert (commit_id c) K" by simp
    have "\<forall>i\<in>insert (commit_id c) K. \<exists>c'. get_commit V i = Some c' \<and> is_done u' c' \<and>
        (\<not> stops True c' \<longrightarrow> parents c' \<subseteq> D \<union> insert (commit_id c) K)"
      using K s(4,5,8) done'(3) Suc.prems(4) unfolding D by auto
    moreover have "cq_hash q \<subseteq> D \<union> insert (commit_id c) K" using s(3) K(1) unfolding D by blast
    ultimately show ?thesis using done' s(9) by blast
  qed
qed

lemma tree_covers:
  assumes t: "seaf_commit_manager_traverse_commit_tree n V head func u False = Some (True, u')" and "inv u"
  shows "inv u' \<and> started u' \<and> (\<forall>d. is_done u d \<longrightarrow> is_done u' d) \<and>
   (\<exists>K. head \<in> K \<and> (\<forall>i\<in>K. \<exists>c. get_commit V i = Some c \<and> is_done u' c \<and>
      (\<not> stops (started u \<or> i \<noteq> head) c \<longrightarrow> parents c \<subseteq> K)))"
proof -
  obtain c where c: "get_commit V head = Some c"
    using t by (auto simp: seaf_commit_manager_traverse_commit_tree_def traverse_commit_tree_common_def split: option.splits)
  then have l: "traverse_loop n V func False False (head_queue c) u = Some (True, u')"
    using t by (simp add: seaf_commit_manager_traverse_commit_tree_def traverse_commit_tree_common_def)
  have q: "queue_ok V {} (head_queue c)" "cq_list (head_queue c) = [c]" "commit_id c = head"
    using head_queue_ok [OF c] get_commit_id [OF c] by (simp_all add: head_queue_def)
  obtain k where k: "n = Suc k" using l q(2) by (cases n) auto
  obtain q' v where s: "traverse_loop k V func False False q' v = Some (True, u')" "queue_ok V {head} q'"
      "cq_hash (head_queue c) \<subseteq> cq_hash q'" "\<not> stops (started u) c \<Longrightarrow> parents c \<subseteq> cq_hash q'"
      "inv v" "started v" "is_done v c" "\<And>d. is_done u d \<Longrightarrow> is_done v d"
    by (rule loop_step [OF l [unfolded k] q(1,2) assms(2)]) (use q(3) in auto)
  obtain K where K: "cq_hash q' \<subseteq> {head} \<union> K"
    "\<forall>i\<in>K. \<exists>c'. get_commit V i = Some c' \<and> is_done u' c' \<and> (\<not> stops True c' \<longrightarrow> parents c' \<subseteq> {head} \<union> K)"
    and d: "inv u'" "started u'" "\<forall>d. is_done v d \<longrightarrow> is_done u' d"
    using loop_covers [OF s(1,2,5,6)] by blast
  show ?thesis
  proof (intro conjI exI [of _ "insert head K"] ballI)
    fix i assume i: "i \<in> insert head K"
    show "\<exists>c. get_commit V i = Some c \<and> is_done u' c \<and> (\<not> stops (started u \<or> i \<noteq> head) c \<longrightarrow> parents c \<subseteq> insert head K)"
    proof (cases "i = head")
      case True
      then show ?thesis using c s(4,7) d(3) K(1) by auto
    next
      case False
      then show ?thesis using i K(2) by auto
    qed
  qed (use d s(8) in auto)
qed

end

text \<open>Termination: a queue of commits from a finite set empties within as many steps.\<close>

lemma traverse_loop_terminates:
  assumes "queue_ok V D q" "finite R" "cq_hash q \<subseteq> R"
    and closed: "\<And>i c. i \<in> R \<Longrightarrow> get_commit V i = Some c \<Longrightarrow> parents c \<subseteq> R"
    and "card (R - D) \<le> n"
  shows "\<exists>r. traverse_loop n V func skip_errors allow_truncate q u = Some r"
  using assms(1,3,5)
proof (induction n arbitrary: q u D)
  case 0
  then have "R - D = {}" using assms(2) by auto
  then have "cq_list q = []" using 0(1,2) by (cases "cq_list q") (auto simp: queue_ok_def)
  then show ?case by auto
next
  case (Suc n)
  show ?case
  proof (cases "cq_list q")
    case (Cons c rest)
    let ?q = "q\<lparr>cq_list := rest\<rparr>" and ?D = "insert (commit_id c) D"
    have pop: "queue_ok V ?D ?q" "commit_id c \<in> cq_hash q" "commit_id c \<notin> D" "get_commit V (commit_id c) = Some c"
      using queue_ok_pop [OF Suc.prems(1) Cons] by auto
    have "card (R - ?D) < card (R - D)"
      using assms(2) pop(2,3) Suc.prems(2) by (intro psubset_card_mono) auto
    then have card: "card (R - ?D) \<le> n" using Suc.prems(3) by simp
    have par: "parents c \<subseteq> R" using closed pop(2,4) Suc.prems(2) by blast
    have 1: "\<exists>r. traverse_loop n V func skip_errors allow_truncate ?q v = Some r" for v
      using Suc.IH [OF pop(1) _ card] Suc.prems(2) by simp
    have 2: "\<exists>r. traverse_loop n V func skip_errors allow_truncate q' v = Some r"
      if "insert_parents V c skip_errors allow_truncate ?q = Some q'" for v q'
    proof -
      have "queue_ok V ?D q'" and "cq_hash q' \<subseteq> cq_hash q \<union> parents c"
        using insert_parents_ok [OF pop(1) that] by simp_all
      then show ?thesis using Suc.prems(2) par by (intro Suc.IH [OF _ _ card]) auto
    qed
    obtain ok stop v where f: "func c u = (ok, stop, v)" using prod_cases3 by blast
    show ?thesis
    proof (cases "\<not> ok \<and> \<not> skip_errors")
      case True
      then show ?thesis using f by (auto simp: Cons Let_def)
    next
      case go: False
      show ?thesis
      proof (cases stop)
        case True
        obtain r where "traverse_loop n V func skip_errors allow_truncate ?q v = Some r" using 1 by blast
        then show ?thesis using f go True by (auto simp: Cons Let_def)
      next
        case nostop: False
        show ?thesis
        proof (cases "insert_parents V c skip_errors allow_truncate ?q")
          case None
          then show ?thesis using f go nostop by (auto simp: Cons Let_def)
        next
          case (Some q')
          obtain r where "traverse_loop n V func skip_errors allow_truncate q' v = Some r"
            using 2 [OF Some] by blast
          then show ?thesis using f go nostop Some by (auto simp: Cons Let_def)
        qed
      qed
    qed
  qed auto
qed

text \<open>
  A callback is only handed stored commits that the traversal can reach: every property of the data that
  it keeps for those is kept by the traversal.
\<close>

lemma traverse_loop_inv:
  assumes closed: "\<And>i c. i \<in> R \<Longrightarrow> get_commit V i = Some c \<Longrightarrow> parents c \<subseteq> R"
    and step: "\<And>c u. commit_id c \<in> R \<Longrightarrow> get_commit V (commit_id c) = Some c \<Longrightarrow> I u \<Longrightarrow> I (snd (snd (func c u)))"
  shows "traverse_loop n V func skip_errors allow_truncate q u = Some (b, u') \<Longrightarrow> queue_ok V D q \<Longrightarrow> cq_hash q \<subseteq> R \<Longrightarrow>
    I u \<Longrightarrow> I u'"
proof (induction n arbitrary: q u D)
  case (Suc n)
  show ?case
  proof (cases "cq_list q")
    case (Cons c rest)
    let ?q = "q\<lparr>cq_list := rest\<rparr>" and ?D = "insert (commit_id c) D"
    have pop: "queue_ok V ?D ?q" "commit_id c \<in> R" "get_commit V (commit_id c) = Some c"
      using queue_ok_pop [OF Suc.prems(2) Cons] Suc.prems(3) by auto
    obtain ok stop v where f: "func c u = (ok, stop, v)" using prod_cases3 by blast
    have I: "I v" using step [OF pop(2,3) Suc.prems(4)] f by simp
    show ?thesis
    proof (cases "\<not> ok \<and> \<not> skip_errors \<or> \<not> stop \<and> insert_parents V c skip_errors allow_truncate ?q = None")
      case True
      then show ?thesis using Suc.prems(1) Cons f I by (auto simp: Let_def split: if_splits intro: Suc.IH [OF _ pop(1)])
    next
      case False
      then obtain q' where q': "traverse_loop n V func skip_errors allow_truncate q' v = Some (b, u')"
        "q' = ?q \<or> insert_parents V c skip_errors allow_truncate ?q = Some q'"
        using Suc.prems(1) Cons f by (auto simp: Let_def split: if_splits)
      have "queue_ok V ?D q' \<and> cq_hash q' \<subseteq> R"
      proof (cases "q' = ?q")
        case True
        then show ?thesis using pop(1) Suc.prems(3) by simp
      next
        case False
        then have "queue_ok V ?D q'" "cq_hash q' \<subseteq> cq_hash q \<union> parents c"
          using q'(2) insert_parents_ok [OF pop(1), of c skip_errors allow_truncate q'] by simp_all
        then show ?thesis using closed [OF pop(2,3)] Suc.prems(3) by blast
      qed
      then show ?thesis using Suc.IH [OF q'(1)] I by blast
    qed
  qed (use Suc.prems in simp)
qed (auto split: if_splits)

lemma commit_tree_returns:
  assumes "finite {i. commit_reach V head i}" "card {i. commit_reach V head i} \<le> n"
  shows "\<exists>r. traverse_commit_tree_common n V head func u skip_errors allow_truncate = Some r"
proof (cases "seaf_commit_manager_get_commit V head")
  case None
  then show ?thesis by (auto simp: traverse_commit_tree_common_def)
next
  case (Some c)
  have "\<exists>r. traverse_loop n V func skip_errors allow_truncate (head_queue c) u = Some r"
    by (rule traverse_loop_terminates [where D = "{}" and R = "{i. commit_reach V head i}"])
       (use head_queue_ok [OF Some] assms in \<open>auto intro: reach_until.intros\<close>)
  then show ?thesis by (simp only: traverse_commit_tree_common_def Some option.case)
qed

lemma commit_tree_inv:
  assumes t: "seaf_commit_manager_traverse_commit_tree n V head func u skip_errors = Some (b, u')" and "I u"
    and step: "\<And>c u. commit_reach V head (commit_id c) \<Longrightarrow> get_commit V (commit_id c) = Some c \<Longrightarrow> I u \<Longrightarrow>
      I (snd (snd (func c u)))"
  shows "I u'"
proof (cases "get_commit V head")
  case None
  then show ?thesis
    using t assms(2) by (simp add: seaf_commit_manager_traverse_commit_tree_def traverse_commit_tree_common_def)
next
  case (Some c)
  then have l: "traverse_loop n V func skip_errors False (head_queue c) u = Some (b, u')"
    using t by (simp add: seaf_commit_manager_traverse_commit_tree_def traverse_commit_tree_common_def)
  show ?thesis
    by (rule traverse_loop_inv [where R = "{i. commit_reach V head i}" and I = I and D = "{}", OF _ _ l])
      (use head_queue_ok [OF Some] assms(2) in \<open>auto intro: reach_until.intros step\<close>)
qed

section \<open>Properties\<close>

text \<open>C15: When the traversal from a head, with a callback that neither fails nor stops, succeeds, the callback
  has run exactly once for the head and for each of its ancestors, on the stored commit, in some
  order, and for nothing else.  Commit times, and the 32-bit difference of them that orders the
  queue, only influence that order.\<close>

theorem commit_traversal_visits_once:
  assumes "\<forall>c u. func c u = (True, False, upd c u)"
    and "seaf_commit_manager_traverse_commit_tree n V head func u False = Some (True, u')"
  shows "\<exists>l. u' = fold upd l u \<and> distinct (map commit_id l) \<and>
    commit_id ` set l = {i. commit_reach V head i} \<and>
    (\<forall>c\<in>set l. seaf_commit_manager_get_commit V (commit_id c) = Some c)"
  by (rule traverse_tree_visits [OF _ assms(2)]) (simp add: plain_func_def assms(1))

text \<open>When every ancestor of a head lies in a finite set, every traversal from it, whatever its callback
  does, returns after taking at most as many commits from the queue as the set has members.\<close>

theorem commit_traversal_terminates:
  assumes "finite {i. commit_reach V head i}" "card {i. commit_reach V head i} \<le> n"
  shows "\<exists>r. traverse_commit_tree_common n V head func u skip_errors allow_truncate = Some r"
  by (rule commit_tree_returns [OF assms])

section \<open>JSON round trip\<close>

text \<open>Documented behaviour of libsearpc's two accessors.\<close>

definition searpc_ok :: "searpc \<Rightarrow> bool" where
  "searpc_ok R \<longleftrightarrow>
     (\<forall>kvs k v. map_of (set_string_or_null R kvs k v)
        = (map_of kvs)(k \<mapsto> (case v of None \<Rightarrow> JNull | Some s \<Rightarrow> JString s))) \<and>
     (\<forall>kvs k. get_string_or_null R (JObject kvs) k
        = (case map_of kvs k of Some (JString s) \<Rightarrow> Some s | _ \<Rightarrow> None))"

text \<open>
  Commits that the code itself makes: valid ids, a lower-case creator name, encryption parameters
  as their version demands and none without encryption.
\<close>

definition commit_ok :: "libs \<Rightarrow> commit \<Rightarrow> bool" where
  "commit_ok L c \<longleftrightarrow>
     length (commit_id c) = 40 \<and> length (repo_id c) = 36 \<and> is_uuid_valid L (repo_id c) \<and>
     is_object_id_valid (root_id c) \<and> length (creator_id c) = 40 \<and>
     valid_opt_id (parent_id c) \<and> valid_opt_id (second_parent_id c) \<and>
     map_option ascii_strdown (creator_name c) = creator_name c \<and> ctime c \<noteq> 0 \<and>
     repo_name c \<noteq> None \<and> repo_desc c \<noteq> None \<and> 0 \<le> co_version c \<and> co_version c < 2 ^ 31 \<and>
     (if encrypted c then enc_ok (enc_version c) (magic c) (random_key c) (salt c) \<and>
        (enc_version c < 1 \<longrightarrow> magic c = None) \<and> (enc_version c < 2 \<longrightarrow> random_key c = None) \<and>
        (enc_version c < 3 \<longrightarrow> salt c = None)
      else enc_version c = 0 \<and> magic c = None \<and> random_key c = None \<and> salt c = None)"

definition opt_json :: "string option \<Rightarrow> json option" where
  "opt_json v = map_option JString v"

lemma opt_json_simps [simp]: "(if v = None then None else opt_json v) = opt_json v" "opt_json None = None"
  by (simp_all add: opt_json_def)

lemma map_of_set_string [simp]:
  "map_of (json_object_set_string_member kvs k v) x = (if x = k then Some (JString v) else map_of kvs x)"
  by (simp add: json_set_defs)

lemma map_of_set_int [simp]:
  "map_of (json_object_set_int_member kvs k v) x = (if x = k then Some (JInteger v) else map_of kvs x)"
  by (simp add: json_set_defs)

lemma map_of_set_opt [simp]:
  "map_of (set_opt_string kvs k v) x
   = (if x = k then (if v = None then map_of kvs x else opt_json v) else map_of kvs x)"
  by (auto simp: set_opt_string_def json_set_defs opt_json_def split: option.split)

lemma map_of_set_nonzero [simp]:
  "map_of (set_nonzero kvs k i) x = (if x = k \<and> i \<noteq> 0 then Some (JInteger i) else map_of kvs x)"
  by (simp add: set_nonzero_def json_set_defs)

lemma map_of_set_enc [simp]:
  "map_of (set_enc_members kvs c) x
   = (if encrypted c then
        (if x = ''encrypted'' then Some (JString ''true'')
         else if x = ''enc_version'' then Some (JInteger (enc_version c))
         else if x = ''magic'' \<and> enc_version c \<ge> 1 then (if magic c = None then map_of kvs x else opt_json (magic c))
         else if x = ''key'' \<and> enc_version c \<ge> 2 then (if random_key c = None then map_of kvs x else opt_json (random_key c))
         else if x = ''salt'' \<and> enc_version c \<ge> 3 then (if salt c = None then map_of kvs x else opt_json (salt c))
         else map_of kvs x)
      else map_of kvs x)"
  by (simp add: set_enc_members_def Let_def)

lemma map_of_set_flag [simp]:
  "map_of (set_flag kvs k b) x = (if x = k \<and> b then Some (JInteger 1) else map_of kvs x)"
  by (simp add: set_flag_def json_set_defs)

lemma enc_ok_range: "enc_ok v m k s \<Longrightarrow> 0 \<le> v \<and> v \<le> 4"
  by (auto simp: enc_ok_def split: if_splits)

definition commit_members :: "searpc \<Rightarrow> commit \<Rightarrow> (string \<times> json) list" where
  "commit_members R c = (case commit_to_json_object R c of JObject kvs \<Rightarrow> kvs | _ \<Rightarrow> [])"

lemma map_of_searpc:
  "searpc_ok R \<Longrightarrow> map_of (set_string_or_null R kvs k v) x
      = (if x = k then Some (case v of None \<Rightarrow> JNull | Some s \<Rightarrow> JString s) else map_of kvs x)"
  by (simp add: searpc_ok_def)

lemma commit_member_values:
  fixes c :: commit
  assumes "searpc_ok R" "M = map_of (commit_members R c)"
  shows "M ''root_id'' = Some (JString (root_id c))" "M ''repo_id'' = Some (JString (repo_id c))"
    "M ''creator_name'' = opt_json (creator_name c)" "M ''creator'' = Some (JString (creator_id c))"
    "M ''description'' = Some (JString (desc c))" "M ''ctime'' = Some (JInteger (sint (ctime c)))"
    "M ''parent_id'' = Some (case parent_id c of None \<Rightarrow> JNull | Some s \<Rightarrow> JString s)"
    "M ''second_parent_id'' = Some (case second_parent_id c of None \<Rightarrow> JNull | Some s \<Rightarrow> JString s)"
    "M ''repo_name'' = opt_json (repo_name c)" "M ''repo_desc'' = opt_json (repo_desc c)"
    "M ''repo_category'' = Some (case repo_category c of None \<Rightarrow> JNull | Some s \<Rightarrow> JString s)"
    "M ''device_name'' = opt_json (device_name c)" "M ''client_version'' = opt_json (client_version c)"
    "M ''encrypted'' = (if encrypted c then Some (JString ''true'') else None)"
    "M ''enc_version'' = (if encrypted c then Some (JInteger (enc_version c)) else None)"
    "M ''magic'' = (if encrypted c \<and> enc_version c \<ge> 1 then opt_json (magic c) else None)"
    "M ''key'' = (if encrypted c \<and> enc_version c \<ge> 2 then opt_json (random_key c) else None)"
    "M ''salt'' = (if encrypted c \<and> enc_version c \<ge> 3 then opt_json (salt c) else None)"
    "M ''no_local_history'' = (if no_local_history c then Some (JInteger 1) else None)"
    "M ''version'' = (if co_version c \<noteq> 0 then Some (JInteger (co_version c)) else None)"
    "M ''conflict'' = (if co_conflict c then Some (JInteger 1) else None)"
    "M ''new_merge'' = (if new_merge c then Some (JInteger 1) else None)"
    "M ''repaired'' = (if repaired c then Some (JInteger 1) else None)"
  by (simp_all add: assms(2) map_of_searpc [OF assms(1)] commit_members_def commit_to_json_object_def
      Let_def)

lemma commit_to_json_JObject: "commit_to_json_object R c = JObject (commit_members R c)"
  by (simp add: commit_members_def commit_to_json_object_def Let_def)

lemma commit_json_back:
  assumes R: "searpc_ok R" and c: "commit_ok L c"
  shows "commit_from_json_object L R now (commit_id c) (commit_to_json_object R c) = Some c"
proof -
  let ?obj = "commit_to_json_object R c"
  note val = commit_member_values [OF R refl, of c]
  have null: "get_string_or_null R ?obj k = (case map_of (commit_members R c) k of Some (JString s) \<Rightarrow> Some s | _ \<Rightarrow> None)" for k
    using R by (simp add: searpc_ok_def commit_to_json_JObject)
  have str: "json_object_get_string_member ?obj k = (case map_of (commit_members R c) k of Some (JString s) \<Rightarrow> Some s | _ \<Rightarrow> None)" for k
    by (simp add: commit_to_json_JObject get_string_member)
  have int: "json_object_get_int_member ?obj k = (case map_of (commit_members R c) k of Some (JInteger i) \<Rightarrow> i | _ \<Rightarrow> 0)" for k
    by (simp add: commit_to_json_JObject get_int_member)
  have has: "json_object_has_member ?obj k \<longleftrightarrow> map_of (commit_members R c) k \<noteq> None" for k
    by (simp add: commit_to_json_JObject json_object_has_member_def json_object_get_JObject)
  have opt: "(case opt_json v of Some (JString s) \<Rightarrow> Some s | _ \<Rightarrow> None) = v" "(opt_json v = None) = (v = None)"
    "(case (case v of None \<Rightarrow> JNull | Some s \<Rightarrow> JString s) of JString s \<Rightarrow> Some s | _ \<Rightarrow> None) = v" for v
    by (simp_all add: opt_json_def split: option.split)
  have enc: "encrypted c \<Longrightarrow> c_int (enc_version c) = enc_version c"
    using c enc_ok_range [of "enc_version c" "magic c" "random_key c" "salt c"]
    by (intro c_int_small) (simp_all add: commit_ok_def)
  have names: "\<exists>n. repo_name c = Some n" "\<exists>n. repo_desc c = Some n" using c by (auto simp: commit_ok_def)
  have id: "take 40 (commit_id c) = commit_id c" "take 36 (repo_id c) = repo_id c"
    "take 40 (root_id c) = root_id c" "take 40 (creator_id c) = creator_id c"
    using c by (auto simp: commit_ok_def is_object_id_valid_def)
  note unf = commit_from_json_object_def Let_def null str int has val opt commit_ok_def
    seaf_commit_new_def dflt_def int_member_def c_int_def [of 1] id
  obtain rn rd where rn: "repo_name c = Some rn" "repo_desc c = Some rd" using names by blast
  show ?thesis
  proof (cases "encrypted c")
    case True
    then show ?thesis
      using c enc
      by (cases "enc_version c < 1"; cases "enc_version c < 2"; cases "enc_version c < 3")
        (simp_all add: unf rn)
  next
    case False
    then show ?thesis
      using c by (simp add: unf rn enc_ok_def)
  qed
qed


text \<open>C20: A commit that is saved is loaded back field for field, when its ids, names and encryption
  parameters are as the code makes them, jansson parses what it printed and no object with its id was
  there before.  The hypotheses about the libraries are their documented behaviour.\<close>

theorem saved_commit_loads:
  assumes "searpc_ok (cv_searpc V)" "commit_ok (cv_libs V) c" "cv_repo V = repo_id c"
    and lib: "lib_json_loadb (cv_libs V) (json_dumps_plain (cv_searpc V) (commit_to_json_object (cv_searpc V) c))
      = Some (commit_to_json_object (cv_searpc V) c)"
    and fresh: "\<not> seaf_commit_manager_commit_exists V (commit_id c)"
    and save: "seaf_commit_manager_add_commit V c = (0, V')"
  shows "seaf_commit_manager_get_commit V' (commit_id c) = Some c"
proof -
  let ?w = "seaf_obj_store_write_obj (cv_libs V) (cv_store V) (repo_id c) (commit_id c)
      (json_dumps_plain (cv_searpc V) (commit_to_json_object (cv_searpc V) c))"
  obtain r st where w: "?w = (r, st)" by fastforce
  have "r = 0" and V': "V' = V\<lparr>cv_store := st\<rparr>"
    using save fresh assms(3) w seaf_store.write_failed [OF w]
    by (auto simp: seaf_commit_manager_add_commit_def save_commit_def
        seaf_commit_manager_commit_exists_def split: if_splits)
  with w have "seaf_obj_store_read_obj (cv_libs V) st (repo_id c) (commit_id c)
      = Some (json_dumps_plain (cv_searpc V) (commit_to_json_object (cv_searpc V) c))"
    using seaf_store.write_read by blast
  moreover have "length (commit_id c) = 40" using assms(2) by (simp add: commit_ok_def)
  ultimately show ?thesis
    using commit_json_back [OF assms(1,2)] lib assms(3)
    by (simp add: V' seaf_commit_manager_get_commit_def load_commit_def parse_commit_json_def)
qed

section \<open>A history for the witnesses\<close>

text \<open>A merge commit \<open>c\<close> of \<open>a\<close> and \<open>b\<close>, where \<open>b\<close> was made on top of \<open>a\<close>.\<close>

definition demo_id :: "char \<Rightarrow> string" where
  "demo_id x = replicate 40 x"

definition demo_searpc :: searpc where
  "demo_searpc = \<lparr>set_string_or_null = (\<lambda>kvs k v. (k, case v of None \<Rightarrow> JNull | Some s \<Rightarrow> JString s) # kvs),
     get_string_or_null = (\<lambda>j k. case j of
        JObject kvs \<Rightarrow> (case map_of kvs k of Some (JString s) \<Rightarrow> Some s | _ \<Rightarrow> None) | _ \<Rightarrow> None),
     utf8_valid_prefix = length, json_dumps_plain = (\<lambda>_. ''c'')\<rparr>"

definition demo_commit :: "char \<Rightarrow> string option \<Rightarrow> string option \<Rightarrow> u64 \<Rightarrow> commit" where
  "demo_commit x p q t = \<lparr>commit_id = demo_id x, repo_id = replicate 36 (CHR ''e''), root_id = demo_id (CHR ''f''),
     desc = ''text'', creator_name = Some ''me'', creator_id = demo_id (CHR ''0''), ctime = t,
     parent_id = p, second_parent_id = q, repo_name = Some ''lib'', repo_desc = Some [],
     repo_category = None, device_name = None, client_version = None, encrypted = False,
     enc_version = 0, magic = None, random_key = None, salt = None, no_local_history = False,
     co_version = 1, new_merge = False, co_conflict = False, repaired = False\<rparr>"

definition demo_a :: commit where "demo_a = demo_commit (CHR ''a'') None None 5"
definition demo_b :: commit where "demo_b = demo_commit (CHR ''b'') (Some (demo_id (CHR ''a''))) None 7"
definition demo_c :: commit where
  "demo_c = demo_commit (CHR ''c'') (Some (demo_id (CHR ''a''))) (Some (demo_id (CHR ''b''))) 9"

definition demo_clibs :: libs where
  "demo_clibs = (demo_libs JNull)\<lparr>lib_json_loadb := (\<lambda>s.
       map_option (commit_to_json_object demo_searpc)
         (if s = ''a'' then Some demo_a else if s = ''b'' then Some demo_b else if s = ''c'' then Some demo_c else None))\<rparr>"

definition demo_cstore :: obj_store where
  "demo_cstore = \<lparr>obj_dir = [], files = (\<lambda>p.
        if p = id_to_path [] (demo_id (CHR ''a'')) (replicate 36 (CHR ''e'')) then Some ''a''
        else if p = id_to_path [] (demo_id (CHR ''b'')) (replicate 36 (CHR ''e'')) then Some ''b''
        else if p = id_to_path [] (demo_id (CHR ''c'')) (replicate 36 (CHR ''e'')) then Some ''c''
        else None), disk_ok = (\<lambda>_. True)\<rparr>"

definition demo_history :: commit_view where
  "demo_history = \<lparr>cv_libs = demo_clibs, cv_searpc = demo_searpc, cv_store = demo_cstore,
     cv_repo = replicate 36 (CHR ''e''), cv_now = 11\<rparr>"

lemma demo_searpc_ok [simp]: "searpc_ok demo_searpc"
  by (simp add: searpc_ok_def demo_searpc_def)

lemma demo_id_simps [simp]:
  "length (demo_id x) = 40" "x \<in> set ''abcdef0'' \<Longrightarrow> is_object_id_valid (demo_id x)"
  "demo_id x = demo_id y \<longleftrightarrow> x = y"
  by (auto simp: demo_id_def is_object_id_valid_def replicate_eq_replicate list_all_iff)

lemma demo_path_inj [simp]:
  "id_to_path [] (demo_id x) r = id_to_path [] (demo_id y) r \<longleftrightarrow> x = y"
  using id_to_path_inj [of "demo_id x" "demo_id y" "[]" r r] by auto

lemma demo_commits_ok [simp]:
  "commit_ok demo_clibs demo_a" "commit_ok demo_clibs demo_b" "commit_ok demo_clibs demo_c"
  by (simp_all add: commit_ok_def demo_a_def demo_b_def demo_c_def demo_commit_def demo_clibs_def
      demo_libs_def is_uuid_valid_def valid_opt_id_def ascii_strdown_def)

lemma demo_fields [simp]:
  "commit_id demo_a = demo_id (CHR ''a'')" "commit_id demo_b = demo_id (CHR ''b'')"
  "commit_id demo_c = demo_id (CHR ''c'')"
  "parent_id demo_a = None" "second_parent_id demo_a = None"
  "parent_id demo_b = Some (demo_id (CHR ''a''))" "second_parent_id demo_b = None"
  "parent_id demo_c = Some (demo_id (CHR ''a''))" "second_parent_id demo_c = Some (demo_id (CHR ''b''))"
  "ctime demo_a = 5" "ctime demo_b = 7" "ctime demo_c = 9"
  "repo_id demo_a = replicate 36 (CHR ''e'')" "repo_id demo_b = replicate 36 (CHR ''e'')"
  "repo_id demo_c = replicate 36 (CHR ''e'')"
  by (simp_all add: demo_a_def demo_b_def demo_c_def demo_commit_def)

lemma demo_clibs_simps [simp]:
  "is_uuid_valid demo_clibs r"
  "lib_json_loadb demo_clibs ''a'' = Some (commit_to_json_object demo_searpc demo_a)"
  "lib_json_loadb demo_clibs ''b'' = Some (commit_to_json_object demo_searpc demo_b)"
  "lib_json_loadb demo_clibs ''c'' = Some (commit_to_json_object demo_searpc demo_c)"
  by (simp_all add: demo_clibs_def demo_libs_def is_uuid_valid_def)

lemma demo_history_simps [simp]:
  "cv_libs demo_history = demo_clibs" "cv_searpc demo_history = demo_searpc"
  "cv_repo demo_history = replicate 36 (CHR ''e'')" "cv_store demo_history = demo_cstore"
  by (simp_all add: demo_history_def)

lemma demo_read:
  "x \<in> set ''abc'' \<Longrightarrow> seaf_obj_store_read_obj demo_clibs demo_cstore (replicate 36 (CHR ''e'')) (demo_id x) = Some [x]"
  by (auto simp: obj_store_defs demo_cstore_def)

lemma demo_get:
  "x \<in> set ''abc'' \<Longrightarrow> get_commit demo_history (demo_id x) =
     commit_from_json_object demo_clibs demo_searpc (cv_now demo_history) (demo_id x)
       (the (lib_json_loadb demo_clibs [x]))"
  by (auto simp: seaf_commit_manager_get_commit_def load_commit_def parse_commit_json_def demo_read)

lemma demo_history_get [simp]:
  "get_commit demo_history (demo_id (CHR ''a'')) = Some demo_a"
  "get_commit demo_history (demo_id (CHR ''b'')) = Some demo_b"
  "get_commit demo_history (demo_id (CHR ''c'')) = Some demo_c"
  using commit_json_back [OF demo_searpc_ok demo_commits_ok(1)]
    commit_json_back [OF demo_searpc_ok demo_commits_ok(2)]
    commit_json_back [OF demo_searpc_ok demo_commits_ok(3)]
  by (simp_all add: demo_get)

lemma demo_order [simp]:
  "compare_commit_by_time demo_a demo_b = 2" "compare_commit_by_time demo_b demo_a = -2"
  by (simp_all add: compare_commit_by_time_def)

lemma demo_reach: "{i. commit_reach demo_history (demo_id (CHR ''c'')) i}
    = {demo_id (CHR ''a''), demo_id (CHR ''b''), demo_id (CHR ''c'')}" (is "?R = ?S")
proof
  have "i \<in> ?S" if "commit_reach demo_history (demo_id (CHR ''c'')) i" for i
    using that by (induction rule: reach_until.induct) (auto simp: parents_def)
  then show "?R \<subseteq> ?S" by blast
  have c: "commit_reach demo_history (demo_id (CHR ''c'')) (demo_id (CHR ''c''))" by (rule reach_until.head)
  have "commit_reach demo_history (demo_id (CHR ''c'')) p" if "p \<in> {demo_id (CHR ''a''), demo_id (CHR ''b'')}" for p
    using reach_until.parent [OF c demo_history_get(3)] that by (auto simp: parents_def)
  then show "?S \<subseteq> ?R" using c by auto
qed

theorem commit_traversal_visits_once_witness:
  "\<exists>l :: commit list. fold (\<lambda>c u. u @ [ctime c]) l [] = [9, 7, 5] \<and> distinct (map commit_id l) \<and>
    commit_id ` set l = {demo_id (CHR ''a''), demo_id (CHR ''b''), demo_id (CHR ''c'')}"
proof -
  let ?f = "\<lambda>c u. (True, False, u @ [ctime c])"
  have t: "seaf_commit_manager_traverse_commit_tree 3 demo_history (demo_id (CHR ''c'')) ?f [] False
      = Some (True, [9, 7, 5])"
    by (simp add: seaf_commit_manager_traverse_commit_tree_def traverse_commit_tree_common_def
        head_queue_def insert_parents_def insert_opt_parent_def insert_parent_commit_def eval_nat_numeral
        Let_def)
  show ?thesis
    using commit_traversal_visits_once [OF _ t, where upd = "\<lambda>c u. u @ [ctime c]", unfolded demo_reach]
    by (auto simp: eq_commute)
qed

theorem commit_traversal_terminates_witness:
  "\<exists>r. traverse_commit_tree_common 3 demo_history (demo_id (CHR ''c''))
      (\<lambda>c u. (ctime c > 6, False, u)) () True False = Some r"
  by (rule commit_traversal_terminates) (simp_all add: demo_reach)

theorem saved_commit_loads_witness:
  "seaf_commit_manager_get_commit
     (snd (seaf_commit_manager_add_commit (demo_history\<lparr>cv_store := demo_store\<rparr>) demo_c)) (demo_id (CHR ''c''))
   = Some demo_c"
proof -
  let ?V = "demo_history\<lparr>cv_store := demo_store\<rparr>"
  have ne: "\<not> seaf_obj_store_obj_exists demo_clibs demo_store (replicate 36 (CHR ''e'')) (demo_id (CHR ''c''))"
    by (simp add: obj_store_defs demo_store_def)
  have "seaf_commit_manager_add_commit ?V demo_c = (0, snd (seaf_commit_manager_add_commit ?V demo_c))"
    using ne by (simp add: seaf_commit_manager_add_commit_def save_commit_def obj_store_defs demo_store_def)
  moreover have "json_dumps_plain demo_searpc j = ''c''" for j by (simp add: demo_searpc_def)
  ultimately show ?thesis
    using saved_commit_loads [of ?V demo_c] ne by (simp add: seaf_commit_manager_commit_exists_def)
qed

end
