(* ===== verification/BranchMgr.thy ===== *)
theory BranchMgr
  imports Utils
begin

text \<open>
  Branches (\<open>common/branch-mgr.c\<close>, server variant): the rows of the table Branch and the operations
  on them, of which the compare-and-set \<open>seaf_branch_manager_test_and_update_branch\<close> is how
  concurrent updates of a repository are ordered.  The locale \<open>cas_cell\<close> is its contract, interpreted
  on the branch table at the end.
\<close>

section \<open>The table\<close>

record branch =
  br_name :: string
  br_repo_id :: string
  br_commit_id :: string

definition seaf_branch_new :: "string \<Rightarrow> string \<Rightarrow> string \<Rightarrow> branch" where
  "seaf_branch_new name repo commit =
     \<lparr>br_name = name, br_repo_id = take 36 repo, br_commit_id = take 40 commit\<rparr>"

definition seaf_branch_set_commit :: "branch \<Rightarrow> string \<Rightarrow> branch" where
  "seaf_branch_set_commit b commit = b\<lparr>br_commit_id := take 40 commit\<rparr>"

text \<open>
  The rows \<open>(repo_id, name), commit_id\<close>, unique by repository and name.  The database is outside the
  repository: \<open>bd_fails\<close> says which kinds of statement it refuses in this state (a refused statement
  changes nothing, an aborted transaction is rolled back).  \<open>bd_updated\<close> records the calls of
  \<open>on_branch_updated\<close>.
\<close>

datatype db_stmt = DB_BEGIN | DB_SELECT | DB_REPLACE | DB_UPDATE | DB_DELETE | DB_COMMIT

record branch_db =
  bd_rows :: "((string \<times> string) \<times> string) list"
  bd_fails :: "db_stmt \<Rightarrow> bool"
  bd_updated :: "(string \<times> string) list"

definition key_of :: "branch \<Rightarrow> string \<times> string" where
  "key_of b = (br_repo_id b, br_name b)"

definition delete_row :: "string \<times> string \<Rightarrow> ((string \<times> string) \<times> string) list \<Rightarrow> ((string \<times> string) \<times> string) list" where
  "delete_row k rows = filter (\<lambda>r. fst r \<noteq> k) rows"

definition update_row ::
    "string \<times> string \<Rightarrow> string \<Rightarrow> ((string \<times> string) \<times> string) list \<Rightarrow> ((string \<times> string) \<times> string) list" where
  "update_row k v rows = map (\<lambda>r. if fst r = k then (k, v) else r) rows"

definition seaf_branch_manager_add_branch :: "branch_db \<Rightarrow> branch \<Rightarrow> int \<times> branch_db" where
  "seaf_branch_manager_add_branch db b =
     (if bd_fails db DB_REPLACE then (-1, db)
      else (0, db\<lparr>bd_rows := delete_row (key_of b) (bd_rows db) @ [(key_of b, br_commit_id b)]\<rparr>))"

definition seaf_branch_manager_del_branch :: "branch_db \<Rightarrow> string \<Rightarrow> string \<Rightarrow> int \<times> branch_db" where
  "seaf_branch_manager_del_branch db repo name =
     (if bd_fails db DB_DELETE then (-1, db)
      else (0, db\<lparr>bd_rows := delete_row (repo, name) (bd_rows db)\<rparr>))"

definition seaf_branch_manager_update_branch :: "branch_db \<Rightarrow> branch \<Rightarrow> int \<times> branch_db" where
  "seaf_branch_manager_update_branch db b =
     (if bd_fails db DB_UPDATE then (-1, db)
      else (0, db\<lparr>bd_rows := update_row (key_of b) (br_commit_id b) (bd_rows db)\<rparr>))"

text \<open>The buffer \<open>commit_id\<close> of the transaction is empty when no row is selected.\<close>

definition seaf_branch_manager_test_and_update_branch ::
    "branch_db \<Rightarrow> branch \<Rightarrow> string \<Rightarrow> int \<times> branch_db" where
  "seaf_branch_manager_test_and_update_branch db b old_commit_id =
     (if bd_fails db DB_BEGIN then (-1, db)
      else if bd_fails db DB_SELECT then (-1, db)
      else (let commit = (case map_of (bd_rows db) (key_of b) of None \<Rightarrow> [] | Some c \<Rightarrow> take 40 c) in
            if strcmp old_commit_id commit \<noteq> 0 then (-1, db)
            else if bd_fails db DB_UPDATE then (-1, db)
            else if bd_fails db DB_COMMIT then (-1, db)
            else (0, db\<lparr>bd_rows := update_row (key_of b) (br_commit_id b) (bd_rows db),
                        bd_updated := (br_repo_id b, br_commit_id b) # bd_updated db\<rparr>)))"

definition real_get_branch :: "branch_db \<Rightarrow> string \<Rightarrow> string \<Rightarrow> branch option" where
  "real_get_branch db repo name =
     (if bd_fails db DB_SELECT then None
      else (case map_of (bd_rows db) (repo, name) of
              None \<Rightarrow> None
            | Some c \<Rightarrow> if c = [] then None else Some (seaf_branch_new name repo c)))"

definition seaf_branch_manager_get_branch :: "branch_db \<Rightarrow> string \<Rightarrow> string \<Rightarrow> branch option" where
  "seaf_branch_manager_get_branch db repo name =
     (if strcmp name ''fetch_head'' = 0 then real_get_branch db repo ''master''
      else real_get_branch db repo name)"

definition seaf_branch_manager_branch_exists :: "branch_db \<Rightarrow> string \<Rightarrow> string \<Rightarrow> bool" where
  "seaf_branch_manager_branch_exists db repo name =
     (\<not> bd_fails db DB_SELECT \<and> map_of (bd_rows db) (repo, name) \<noteq> None)"

fun collect_branches :: "string \<Rightarrow> ((string \<times> string) \<times> string) list \<Rightarrow> branch list \<Rightarrow> branch list" where
  "collect_branches repo [] ret = ret"
| "collect_branches repo (((r, name), c) # rows) ret =
     collect_branches repo rows (if r = repo then seaf_branch_new name r c # ret else ret)"

definition seaf_branch_manager_get_branch_list :: "branch_db \<Rightarrow> string \<Rightarrow> branch list" where
  "seaf_branch_manager_get_branch_list db repo =
     (if bd_fails db DB_SELECT then [] else collect_branches repo (bd_rows db) [])"

section \<open>The invariant of the table\<close>

text \<open>The unique index: one row for each repository and name.\<close>

definition branch_db_ok :: "branch_db \<Rightarrow> bool" where
  "branch_db_ok db \<longleftrightarrow> distinct (map fst (bd_rows db))"

lemma fst_update_row [simp]: "map fst (update_row k v rows) = map fst rows"
  by (induction rows) (auto simp: update_row_def)

lemma map_of_update_row:
  "map_of (update_row k v rows) = (if map_of rows k = None then map_of rows else (map_of rows)(k \<mapsto> v))"
  by (induction rows) (auto simp: update_row_def fun_eq_iff)

lemma map_of_delete_row: "map_of (delete_row k rows) = (map_of rows)(k := None)"
  by (induction rows) (auto simp: delete_row_def fun_eq_iff)

lemma distinct_delete_row: "distinct (map fst rows) \<Longrightarrow> distinct (map fst (delete_row k rows)) \<and> k \<notin> fst ` set (delete_row k rows)"
  by (induction rows) (auto simp: delete_row_def)

lemma branch_ops_ok:
  "branch_db_ok db \<Longrightarrow> branch_db_ok (snd (seaf_branch_manager_add_branch db b))"
  "branch_db_ok db \<Longrightarrow> branch_db_ok (snd (seaf_branch_manager_del_branch db r n))"
  "branch_db_ok db \<Longrightarrow> branch_db_ok (snd (seaf_branch_manager_update_branch db b))"
  "branch_db_ok db \<Longrightarrow> branch_db_ok (snd (seaf_branch_manager_test_and_update_branch db b c))"
  using distinct_delete_row
  by (auto simp: branch_db_ok_def seaf_branch_manager_add_branch_def seaf_branch_manager_del_branch_def
      seaf_branch_manager_update_branch_def seaf_branch_manager_test_and_update_branch_def Let_def)

section \<open>Compare and set\<close>

text \<open>
  The contract of a cell with a compare-and-set: a successful one found the expected value and
  leaves the new one, a failed one leaves the cell.
\<close>

locale cas_cell =
  fixes cell :: "'s \<Rightarrow> 'v"
    and cas :: "'s \<Rightarrow> 'v \<Rightarrow> 'v \<Rightarrow> int \<times> 's"
    and ok :: "'v \<Rightarrow> bool"
  assumes cas_success: "cas s old new = (0, s') \<Longrightarrow> ok old \<Longrightarrow> ok new \<Longrightarrow> cell s = old \<and> cell s' = new"
    and cas_failure: "cas s old new = (e, s') \<Longrightarrow> e \<noteq> 0 \<Longrightarrow> e < 0 \<and> cell s' = cell s"
begin

lemma cas_outcome:
  assumes "cas s old new = (e, s')" "ok old" "ok new"
  shows "e = 0 \<and> cell s = old \<and> cell s' = new \<or> e < 0 \<and> cell s' = cell s"
  using cas_success [of s old new s'] cas_failure [of s old new e s'] assms by (cases "e = 0") auto

text \<open>Of two clients that read the same value at most one succeeds.\<close>

lemma cas_one_winner:
  assumes "cas s old a = (0, s')" "cas s' old b = (0, s'')" "ok old" "ok a" "ok b"
  shows "a = old"
  using cas_success [OF assms(1,3,4)] cas_success [OF assms(2,3,5)] by simp

end

definition head_cell :: "branch_db \<Rightarrow> string \<times> string \<Rightarrow> string" where
  "head_cell db k = (case map_of (bd_rows db) k of None \<Rightarrow> [] | Some c \<Rightarrow> take 40 c)"

definition head_cas :: "string \<times> string \<Rightarrow> branch_db \<Rightarrow> string \<Rightarrow> string \<Rightarrow> int \<times> branch_db" where
  "head_cas k db old new =
     seaf_branch_manager_test_and_update_branch db
       \<lparr>br_name = snd k, br_repo_id = fst k, br_commit_id = new\<rparr> old"

lemma head_cas_test_and_update:
  fixes b :: branch
  shows "seaf_branch_manager_test_and_update_branch db b old = head_cas (key_of b) db old (br_commit_id b)"
  by (cases b) (simp add: head_cas_def key_of_def)

interpretation branch_cas: cas_cell "\<lambda>db. head_cell db k" "head_cas k" "\<lambda>c. length c = 40" for k
proof (unfold_locales, goal_cases)
  case (1 db old new db')
  then show ?case
    by (auto simp: head_cas_def seaf_branch_manager_test_and_update_branch_def head_cell_def key_of_def
        map_of_update_row Let_def split: if_splits option.splits)
next
  case (2 db old new e db')
  then show ?case
    by (auto simp: head_cas_def seaf_branch_manager_test_and_update_branch_def Let_def split: if_splits)
qed

section \<open>Properties\<close>

text \<open>C19: Concurrent updates of a branch that start from the same commit: once one of them moved the branch
  to another commit, the compare-and-set of every later one fails and leaves the branch where it is.\<close>

theorem branch_update_single_winner:
  fixes b1 b2 :: branch
  assumes "seaf_branch_manager_test_and_update_branch db b1 old = (0, db1)"
    and "key_of b2 = key_of b1" "br_commit_id b1 \<noteq> old"
    and "length old = 40" "length (br_commit_id b1) = 40" "length (br_commit_id b2) = 40"
    and "seaf_branch_manager_test_and_update_branch db1 b2 old = (e, db2)"
  shows "e < 0 \<and> head_cell db2 (key_of b1) = br_commit_id b1"
proof -
  have 1: "head_cas (key_of b1) db old (br_commit_id b1) = (0, db1)"
    and 2: "head_cas (key_of b1) db1 old (br_commit_id b2) = (e, db2)"
    using assms(1,2,7) by (simp_all add: head_cas_test_and_update)
  have "e \<noteq> 0" using branch_cas.cas_one_winner [OF 1 _ assms(4-6)] 2 assms(3) by auto
  then show ?thesis
    using branch_cas.cas_failure [OF 2] branch_cas.cas_success [OF 1 assms(4,5)] by simp
qed

definition demo_branch_db :: branch_db where
  "demo_branch_db = \<lparr>bd_rows = [((''r'', ''master''), replicate 40 (CHR ''a''))], bd_fails = (\<lambda>_. False),
     bd_updated = []\<rparr>"

definition demo_branch :: "char \<Rightarrow> branch" where
  "demo_branch x = \<lparr>br_name = ''master'', br_repo_id = ''r'', br_commit_id = replicate 40 x\<rparr>"

theorem branch_update_single_winner_witness:
  "fst (seaf_branch_manager_test_and_update_branch demo_branch_db (demo_branch (CHR ''b'')) (replicate 40 (CHR ''a''))) = 0 \<and>
   fst (seaf_branch_manager_test_and_update_branch
     (snd (seaf_branch_manager_test_and_update_branch demo_branch_db (demo_branch (CHR ''b'')) (replicate 40 (CHR ''a''))))
     (demo_branch (CHR ''c'')) (replicate 40 (CHR ''a''))) < 0"
proof -
  let ?s = "seaf_branch_manager_test_and_update_branch demo_branch_db (demo_branch (CHR ''b'')) (replicate 40 (CHR ''a''))"
  have run: "?s = (0, snd ?s)"
    by (simp add: seaf_branch_manager_test_and_update_branch_def demo_branch_db_def demo_branch_def key_of_def)
  have "(replicate 40 (CHR ''b'') :: string) \<noteq> replicate 40 (CHR ''a'')" by (simp add: replicate_eq_replicate)
  then show ?thesis
    using branch_update_single_winner [OF run, of "demo_branch (CHR ''c'')"
        "fst (seaf_branch_manager_test_and_update_branch (snd ?s) (demo_branch (CHR ''c'')) (replicate 40 (CHR ''a'')))"]
      run by (simp add: demo_branch_def key_of_def) (metis fst_conv prod.collapse)
qed

text \<open>The unique index of the branch table is an invariant of every operation, and a branch that was
  added is found again with its commit, under its own name, while other branches keep theirs.\<close>

theorem branch_add_then_get:
  assumes "branch_db_ok db" "seaf_branch_manager_add_branch db b = (0, db')" "\<not> bd_fails db DB_SELECT"
    and "length (br_repo_id b) = 36" "length (br_commit_id b) = 40" "br_name b \<noteq> ''fetch_head''"
  shows "branch_db_ok db' \<and> seaf_branch_manager_get_branch db' (br_repo_id b) (br_name b)
      = Some \<lparr>br_name = br_name b, br_repo_id = br_repo_id b, br_commit_id = br_commit_id b\<rparr> \<and>
    (\<forall>repo name. (repo, name) \<noteq> key_of b \<longrightarrow> real_get_branch db' repo name = real_get_branch db repo name)"
proof -
  have db': "db' = db\<lparr>bd_rows := delete_row (key_of b) (bd_rows db) @ [(key_of b, br_commit_id b)]\<rparr>"
    using assms(2) by (simp add: seaf_branch_manager_add_branch_def split: if_splits)
  have "br_commit_id b \<noteq> []" using assms(5) by auto
  then have "real_get_branch db' (br_repo_id b) (br_name b)
      = Some \<lparr>br_name = br_name b, br_repo_id = br_repo_id b, br_commit_id = br_commit_id b\<rparr>"
    using assms(3-5) by (simp add: db' real_get_branch_def map_add_def map_of_delete_row key_of_def seaf_branch_new_def)
  moreover have "real_get_branch db' repo name = real_get_branch db repo name" if "(repo, name) \<noteq> key_of b" for repo name
    using that by (simp add: db' real_get_branch_def map_add_def map_of_delete_row split: option.split)
  moreover have "branch_db_ok db'" using branch_ops_ok(1) [OF assms(1), of b] assms(2) by simp
  ultimately show ?thesis using assms(6) by (simp add: seaf_branch_manager_get_branch_def)
qed

theorem branch_add_then_get_witness:
  "map_option br_commit_id (seaf_branch_manager_get_branch (snd (seaf_branch_manager_add_branch demo_branch_db
      \<lparr>br_name = ''local'', br_repo_id = replicate 36 (CHR ''r''), br_commit_id = replicate 40 (CHR ''c'')\<rparr>))
      (replicate 36 (CHR ''r'')) ''local'') = Some (replicate 40 (CHR ''c''))"
proof -
  let ?b = "\<lparr>br_name = ''local'', br_repo_id = replicate 36 (CHR ''r''), br_commit_id = replicate 40 (CHR ''c'')\<rparr> :: branch"
  have "seaf_branch_manager_add_branch demo_branch_db ?b = (0, snd (seaf_branch_manager_add_branch demo_branch_db ?b))"
    by (simp add: seaf_branch_manager_add_branch_def demo_branch_db_def)
  moreover have "branch_db_ok demo_branch_db" by (simp add: branch_db_ok_def demo_branch_db_def)
  moreover have "\<not> bd_fails demo_branch_db DB_SELECT" by (simp add: demo_branch_db_def)
  ultimately show ?thesis using branch_add_then_get [of demo_branch_db ?b] by simp
qed

end
