(* ===== verification/FsTree.thy ===== *)
theory FsTree
  imports FsObject
begin

text \<open>
  Trees of fs objects (\<open>common/fs-mgr.c\<close>): traversal with callbacks, block lists, sizes and
  counts, search, and lookup by path.  Every recursive walk takes a fuel that bounds the depth of
  directories and returns None when it runs out; \<open>dir_height\<close> says when it is enough, and
  \<open>tree_entries\<close> is the reference the walks are compared with.
\<close>

section \<open>The tree\<close>

text \<open>The manager together with the repository id and version that every call passes along.\<close>

record fs_view =
  fv_libs :: libs
  fv_store :: obj_store
  fv_repo :: string
  fv_version :: int

abbreviation get_dir :: "fs_view \<Rightarrow> string \<Rightarrow> seafdir option" where
  "get_dir F \<equiv> seaf_fs_manager_get_seafdir (fv_libs F) (fv_store F) (fv_repo F) (fv_version F)"

abbreviation get_file :: "fs_view \<Rightarrow> string \<Rightarrow> seafile option" where
  "get_file F \<equiv> seaf_fs_manager_get_seafile (fv_libs F) (fv_store F) (fv_repo F) (fv_version F)"

lemma get_dir_id: "get_dir F i = Some d \<Longrightarrow> dir_id d = take 40 i"
  by (auto simp: seaf_fs_manager_get_seafdir_def seaf_dir_from_data_def seaf_dir_from_json_def
      seaf_dir_from_json_object_def seaf_dir_from_v0_data_def Let_def split: if_splits option.splits)

text \<open>A fuel is enough for a directory when every chain of sub-directories is shorter.\<close>

primrec dir_height :: "nat \<Rightarrow> fs_view \<Rightarrow> string \<Rightarrow> bool" where
  "dir_height 0 F i = False"
| "dir_height (Suc n) F i =
     (case get_dir F i of
        None \<Rightarrow> True
      | Some dir \<Rightarrow> (\<forall>e\<in>set (entries dir). S_ISDIR (d_mode e) \<longrightarrow> dir_height n F (d_id e)))"

text \<open>All entries below a directory with their paths, in the order of a depth-first walk.\<close>

fun collect_entries ::
    "(string \<Rightarrow> string \<Rightarrow> (string \<times> dirent) list option) \<Rightarrow> string \<Rightarrow> dirent list
     \<Rightarrow> (string \<times> dirent) list option" where
  "collect_entries walk path [] = Some []"
| "collect_entries walk path (e # es) =
     (case (if S_ISDIR (d_mode e) then walk (path @ ''/'' @ d_name e) (d_id e) else Some []) of
        None \<Rightarrow> None
      | Some sub \<Rightarrow>
          (case collect_entries walk path es of
             None \<Rightarrow> None
           | Some rest \<Rightarrow> Some ((path @ ''/'' @ d_name e, e) # sub @ rest)))"

primrec tree_entries :: "nat \<Rightarrow> fs_view \<Rightarrow> string \<Rightarrow> string \<Rightarrow> (string \<times> dirent) list option" where
  "tree_entries 0 F path i = None"
| "tree_entries (Suc n) F path i =
     (case get_dir F i of
        None \<Rightarrow> None
      | Some dir \<Rightarrow> collect_entries (tree_entries n F) path (entries dir))"

text \<open>The directories reachable from one, and the files they list.\<close>

inductive dir_reach :: "fs_view \<Rightarrow> string \<Rightarrow> string \<Rightarrow> bool" for F root where
  root: "dir_reach F root root"
| sub: "dir_reach F root i \<Longrightarrow> get_dir F i = Some dir \<Longrightarrow> e \<in> set (entries dir) \<Longrightarrow>
    S_ISDIR (d_mode e) \<Longrightarrow> dir_reach F root (d_id e)"

definition file_reach :: "fs_view \<Rightarrow> string \<Rightarrow> string \<Rightarrow> bool" where
  "file_reach F root f \<longleftrightarrow> (\<exists>i dir e. dir_reach F root i \<and> get_dir F i = Some dir \<and>
     e \<in> set (entries dir) \<and> S_ISREG (d_mode e) \<and> d_id e = f)"

section \<open>Traversal\<close>

text \<open>
  A callback gets the object id, its type and the user data, and returns its verdict, the value it
  left in \<open>*stop\<close> and the user data after it.
\<close>

type_synonym 'u tree_callback = "string \<Rightarrow> int \<Rightarrow> 'u \<Rightarrow> bool \<times> bool \<times> 'u"

definition traverse_file :: "'u tree_callback \<Rightarrow> bool \<Rightarrow> string \<Rightarrow> 'u \<Rightarrow> int \<times> 'u" where
  "traverse_file callback skip_errors i u =
     (if take 40 i = EMPTY_SHA1 then (0, u)
      else (case callback i SEAF_METADATA_TYPE_FILE u of
              (ok, stop, u') \<Rightarrow> if \<not> ok \<and> \<not> skip_errors then (-1, u') else (0, u')))"

fun traverse_entries ::
    "(string \<Rightarrow> 'u \<Rightarrow> (int \<times> 'u) option) \<Rightarrow> 'u tree_callback \<Rightarrow> bool \<Rightarrow> dirent list \<Rightarrow> 'u
     \<Rightarrow> (int \<times> 'u) option" where
  "traverse_entries walk callback skip_errors [] u = Some (0, u)"
| "traverse_entries walk callback skip_errors (e # es) u =
     (if S_ISREG (d_mode e) then
        (case traverse_file callback skip_errors (d_id e) u of
           (r, u') \<Rightarrow> if r < 0 \<and> \<not> skip_errors then Some (-1, u')
                      else traverse_entries walk callback skip_errors es u')
      else if S_ISDIR (d_mode e) then
        (case walk (d_id e) u of
           None \<Rightarrow> None
         | Some (r, u') \<Rightarrow> if r < 0 \<and> \<not> skip_errors then Some (-1, u')
                          else traverse_entries walk callback skip_errors es u')
      else traverse_entries walk callback skip_errors es u)"

primrec traverse_dir ::
    "nat \<Rightarrow> fs_view \<Rightarrow> 'u tree_callback \<Rightarrow> bool \<Rightarrow> string \<Rightarrow> 'u \<Rightarrow> (int \<times> 'u) option" where
  "traverse_dir 0 F callback skip_errors i u = None"
| "traverse_dir (Suc n) F callback skip_errors i u =
     (case callback i SEAF_METADATA_TYPE_DIR u of
        (ok, stop, u') \<Rightarrow>
          if \<not> ok \<and> \<not> skip_errors then Some (-1, u')
          else if stop then Some (0, u')
          else (case get_dir F i of
                  None \<Rightarrow> Some (if skip_errors then 0 else -1, u')
                | Some dir \<Rightarrow>
                    traverse_entries (traverse_dir n F callback skip_errors) callback skip_errors
                      (entries dir) u'))"

definition seaf_fs_manager_traverse_tree ::
    "nat \<Rightarrow> fs_view \<Rightarrow> string \<Rightarrow> 'u tree_callback \<Rightarrow> 'u \<Rightarrow> bool \<Rightarrow> (int \<times> 'u) option" where
  "seaf_fs_manager_traverse_tree n F root_id callback u skip_errors =
     (if strcmp root_id EMPTY_SHA1 = 0 then Some (0, u)
      else traverse_dir n F callback skip_errors root_id u)"

text \<open>\<open>traverse_dir_path\<close>: the callback gets the path and the entry.\<close>

fun traverse_path_entries ::
    "(string \<Rightarrow> dirent \<Rightarrow> 'u \<Rightarrow> (int \<times> 'u) option) \<Rightarrow> (string \<Rightarrow> dirent \<Rightarrow> 'u \<Rightarrow> bool \<times> bool \<times> 'u)
     \<Rightarrow> string \<Rightarrow> dirent list \<Rightarrow> 'u \<Rightarrow> (int \<times> 'u) option" where
  "traverse_path_entries walk callback dir_path [] u = Some (0, u)"
| "traverse_path_entries walk callback dir_path (e # es) u =
     (let sub_path = dir_path @ ''/'' @ d_name e in
      if S_ISREG (d_mode e) then
        (case callback sub_path e u of
           (ok, stop, u') \<Rightarrow> if \<not> ok then Some (-1, u')
                             else traverse_path_entries walk callback dir_path es u')
      else if S_ISDIR (d_mode e) then
        (case walk sub_path e u of
           None \<Rightarrow> None
         | Some (r, u') \<Rightarrow> if r < 0 then Some (-1, u')
                          else traverse_path_entries walk callback dir_path es u')
      else traverse_path_entries walk callback dir_path es u)"

primrec traverse_dir_path ::
    "nat \<Rightarrow> fs_view \<Rightarrow> (string \<Rightarrow> dirent \<Rightarrow> 'u \<Rightarrow> bool \<times> bool \<times> 'u) \<Rightarrow> string \<Rightarrow> dirent \<Rightarrow> 'u
     \<Rightarrow> (int \<times> 'u) option" where
  "traverse_dir_path 0 F callback dir_path dent u = None"
| "traverse_dir_path (Suc n) F callback dir_path dent u =
     (case callback dir_path dent u of
        (ok, stop, u') \<Rightarrow>
          if \<not> ok then Some (-1, u')
          else if stop then Some (0, u')
          else (case get_dir F (d_id dent) of
                  None \<Rightarrow> Some (-1, u')
                | Some dir \<Rightarrow>
                    traverse_path_entries (traverse_dir_path n F callback) callback dir_path
                      (entries dir) u'))"

section \<open>Block lists\<close>

text \<open>\<open>BlockList\<close>: the hash table's keys, the ids in insertion order; \<open>n_blocks\<close> counts them.\<close>

record block_list =
  block_hash :: "string set"
  block_ids :: "string list"
  n_blocks :: u32

definition block_list_new :: block_list where
  "block_list_new = \<lparr>block_hash = {}, block_ids = [], n_blocks = 0\<rparr>"

definition block_list_insert :: "block_list \<Rightarrow> string \<Rightarrow> block_list" where
  "block_list_insert bl b =
     (if b \<in> block_hash bl then bl
      else bl\<lparr>block_hash := insert b (block_hash bl), block_ids := block_ids bl @ [b],
              n_blocks := n_blocks bl + 1\<rparr>)"

fun block_list_difference_loop :: "string list \<Rightarrow> block_list \<Rightarrow> block_list \<Rightarrow> block_list" where
  "block_list_difference_loop [] bl2 bl = bl"
| "block_list_difference_loop (b # bs) bl2 bl =
     block_list_difference_loop bs bl2
       (if b \<notin> block_hash bl2
        then bl\<lparr>block_hash := insert b (block_hash bl), block_ids := block_ids bl @ [b],
                n_blocks := n_blocks bl + 1\<rparr>
        else bl)"

definition block_list_difference :: "block_list \<Rightarrow> block_list \<Rightarrow> block_list" where
  "block_list_difference bl1 bl2 = block_list_difference_loop (block_ids bl1) bl2 block_list_new"

definition fill_blocklist :: "fs_view \<Rightarrow> block_list tree_callback" where
  "fill_blocklist F i type bl =
     (if type = SEAF_METADATA_TYPE_FILE then
        (case get_file F i of
           None \<Rightarrow> (False, False, bl)
         | Some f \<Rightarrow> (True, False, foldl block_list_insert bl (blk_sha1s f)))
      else (True, False, bl))"

definition seaf_fs_manager_populate_blocklist ::
    "nat \<Rightarrow> fs_view \<Rightarrow> string \<Rightarrow> block_list \<Rightarrow> (int \<times> block_list) option" where
  "seaf_fs_manager_populate_blocklist n F root_id bl =
     seaf_fs_manager_traverse_tree n F root_id (fill_blocklist F) bl False"

section \<open>Sizes and counts\<close>

text \<open>\<open>gint64\<close> and \<open>int\<close> results are words, negative when their signed value is.\<close>

definition seaf_fs_manager_get_file_size :: "fs_view \<Rightarrow> string \<Rightarrow> u64" where
  "seaf_fs_manager_get_file_size F i =
     (case get_file F i of None \<Rightarrow> -1 | Some f \<Rightarrow> file_size f)"

fun dir_size_entries ::
    "(string \<Rightarrow> u64 option) \<Rightarrow> fs_view \<Rightarrow> int \<Rightarrow> dirent list \<Rightarrow> u64 \<Rightarrow> u64 option" where
  "dir_size_entries walk F v [] sz = Some sz"
| "dir_size_entries walk F v (e # es) sz =
     (if S_ISREG (d_mode e) then
        (if v > 0 then dir_size_entries walk F v es (sz + d_size e)
         else (let result = seaf_fs_manager_get_file_size F (d_id e) in
               if sint result < 0 then Some result
               else dir_size_entries walk F v es (sz + result)))
      else if S_ISDIR (d_mode e) then
        (case walk (d_id e) of
           None \<Rightarrow> None
         | Some result \<Rightarrow> if sint result < 0 then Some result
                          else dir_size_entries walk F v es (sz + result))
      else dir_size_entries walk F v es sz)"

primrec get_dir_size :: "nat \<Rightarrow> fs_view \<Rightarrow> string \<Rightarrow> u64 option" where
  "get_dir_size 0 F i = None"
| "get_dir_size (Suc n) F i =
     (case get_dir F i of
        None \<Rightarrow> Some (-1)
      | Some dir \<Rightarrow> dir_size_entries (get_dir_size n F) F (dir_version dir) (entries dir) 0)"

definition seaf_fs_manager_get_fs_size :: "nat \<Rightarrow> fs_view \<Rightarrow> string \<Rightarrow> u64 option" where
  "seaf_fs_manager_get_fs_size n F root_id =
     (if strcmp root_id EMPTY_SHA1 = 0 then Some 0 else get_dir_size n F root_id)"

fun count_dir_entries :: "(string \<Rightarrow> u32 option) \<Rightarrow> dirent list \<Rightarrow> u32 \<Rightarrow> u32 option" where
  "count_dir_entries walk [] count = Some count"
| "count_dir_entries walk (e # es) count =
     (if S_ISREG (d_mode e) then count_dir_entries walk es (count + 1)
      else if S_ISDIR (d_mode e) then
        (case walk (d_id e) of
           None \<Rightarrow> None
         | Some result \<Rightarrow> if sint result < 0 then Some result
                          else count_dir_entries walk es (count + result))
      else count_dir_entries walk es count)"

primrec count_dir_files :: "nat \<Rightarrow> fs_view \<Rightarrow> string \<Rightarrow> u32 option" where
  "count_dir_files 0 F i = None"
| "count_dir_files (Suc n) F i =
     (case get_dir F i of
        None \<Rightarrow> Some (-1)
      | Some dir \<Rightarrow> count_dir_entries (count_dir_files n F) (entries dir) 0)"

definition seaf_fs_manager_count_fs_files :: "nat \<Rightarrow> fs_view \<Rightarrow> string \<Rightarrow> u32 option" where
  "seaf_fs_manager_count_fs_files n F root_id =
     (if strcmp root_id EMPTY_SHA1 = 0 then Some 0 else count_dir_files n F root_id)"

text \<open>
  \<open>get_file_count_info\<close> adds to the three counters its caller passes.  Its result is that of the
  last sub-directory: the loop assigns \<open>ret\<close> anew for each of them.
\<close>

record count_info =
  ci_dirs :: u64
  ci_files :: u64
  ci_size :: u64

fun count_info_entries ::
    "(string \<Rightarrow> count_info \<Rightarrow> (int \<times> count_info) option) \<Rightarrow> int \<Rightarrow> dirent list \<Rightarrow> int \<Rightarrow> count_info
     \<Rightarrow> (int \<times> count_info) option" where
  "count_info_entries walk v [] ret c = Some (ret, c)"
| "count_info_entries walk v (e # es) ret c =
     (if S_ISREG (d_mode e) then
        count_info_entries walk v es ret
          (if v > 0 then c\<lparr>ci_files := ci_files c + 1, ci_size := ci_size c + d_size e\<rparr>
           else c\<lparr>ci_files := ci_files c + 1\<rparr>)
      else if S_ISDIR (d_mode e) then
        (case walk (d_id e) (c\<lparr>ci_dirs := ci_dirs c + 1\<rparr>) of
           None \<Rightarrow> None
         | Some (ret', c') \<Rightarrow> count_info_entries walk v es ret' c')
      else count_info_entries walk v es ret c)"

primrec get_file_count_info ::
    "nat \<Rightarrow> fs_view \<Rightarrow> string \<Rightarrow> count_info \<Rightarrow> (int \<times> count_info) option" where
  "get_file_count_info 0 F i c = None"
| "get_file_count_info (Suc n) F i c =
     (case get_dir F i of
        None \<Rightarrow> Some (-1, c)
      | Some dir \<Rightarrow> count_info_entries (get_file_count_info n F) (fv_version F) (entries dir) 0 c)"

section \<open>Search\<close>

text \<open>\<open>strcasestr\<close> of the C library, in the C locale.\<close>

definition to_lower :: "char \<Rightarrow> char" where
  "to_lower c = (if 65 \<le> byte_val c \<and> byte_val c \<le> 90 then char_of (byte_val c + 32) else c)"

fun strcasestr_found :: "string \<Rightarrow> string \<Rightarrow> bool" where
  "strcasestr_found [] needle = (needle = [])"
| "strcasestr_found (c # cs) needle =
     (map to_lower (take (length needle) (c # cs)) = map to_lower needle \<or> strcasestr_found cs needle)"

record search_result =
  sr_path :: string
  sr_size :: u64
  sr_mtime :: u64
  sr_is_dir :: bool

definition search_result_of :: "string \<Rightarrow> dirent \<Rightarrow> search_result" where
  "search_result_of full_path e =
     \<lparr>sr_path = full_path, sr_size = d_size e, sr_mtime = d_mtime e, sr_is_dir = S_ISDIR (d_mode e)\<rparr>"

fun search_entries ::
    "(string \<Rightarrow> string \<Rightarrow> search_result list \<Rightarrow> (int \<times> search_result list) option) \<Rightarrow> string \<Rightarrow> string
     \<Rightarrow> dirent list \<Rightarrow> search_result list \<Rightarrow> (int \<times> search_result list) option" where
  "search_entries walk path str [] file_list = Some (0, file_list)"
| "search_entries walk path str (e # es) file_list =
     (let full_path = path @ ''/'' @ d_name e;
          file_list = (if strcasestr_found (d_name e) str
                       then search_result_of full_path e # file_list else file_list)
      in if S_ISDIR (d_mode e) then
           (case walk full_path (d_id e) file_list of
              None \<Rightarrow> None
            | Some (r, file_list') \<Rightarrow>
                if r < 0 then Some (-1, file_list')
                else search_entries walk path str es file_list')
         else search_entries walk path str es file_list)"

primrec search_files_recursive ::
    "nat \<Rightarrow> fs_view \<Rightarrow> string \<Rightarrow> string \<Rightarrow> string \<Rightarrow> search_result list
     \<Rightarrow> (int \<times> search_result list) option" where
  "search_files_recursive 0 F str path i file_list = None"
| "search_files_recursive (Suc n) F str path i file_list =
     (case get_dir F i of
        None \<Rightarrow> Some (-1, file_list)
      | Some dir \<Rightarrow> search_entries (search_files_recursive n F str) path str (entries dir) file_list)"

section \<open>Lookup by path\<close>

text \<open>The error codes of the \<open>GError\<close> argument.\<close>

datatype seaf_error =
    SEAF_ERR_GENERAL
  | SEAF_ERR_DIR_MISSING
  | SEAF_ERR_PATH_NO_EXIST
  | SEAF_ERR_BAD_ARGS
  | SEAF_ERR_INTERNAL
  | POST_FILE_ERR_FILENAME
  | POST_FILE_ERR_BLOCK_MISSING
  | POST_FILE_ERR_QUOTA_FULL

fun lookup_dirs :: "fs_view \<Rightarrow> seafdir \<Rightarrow> string list \<Rightarrow> seaf_error + seafdir" where
  "lookup_dirs F dir [] = Inr dir"
| "lookup_dirs F dir (name # names) =
     (case find (\<lambda>e. d_name e = name \<and> S_ISDIR (d_mode e)) (entries dir) of
        None \<Rightarrow> Inl SEAF_ERR_PATH_NO_EXIST
      | Some dent \<Rightarrow>
          (case get_dir F (d_id dent) of
             None \<Rightarrow> Inl SEAF_ERR_DIR_MISSING
           | Some dir' \<Rightarrow> lookup_dirs F dir' names))"

definition seaf_fs_manager_get_seafdir_by_path ::
    "fs_view \<Rightarrow> string \<Rightarrow> string \<Rightarrow> seaf_error + seafdir" where
  "seaf_fs_manager_get_seafdir_by_path F root_id path =
     (case get_dir F root_id of
        None \<Rightarrow> Inl SEAF_ERR_DIR_MISSING
      | Some dir \<Rightarrow> lookup_dirs F dir (strtok_all (CHR ''/'') path))"

definition seaf_fs_manager_get_seafdir_sorted_by_path ::
    "fs_view \<Rightarrow> string \<Rightarrow> string \<Rightarrow> seafdir option" where
  "seaf_fs_manager_get_seafdir_sorted_by_path F root_id path =
     (case seaf_fs_manager_get_seafdir_by_path F root_id path of
        Inl _ \<Rightarrow> None
      | Inr dir \<Rightarrow>
          if fv_version F > 0 then Some dir
          else if \<not> is_dirents_sorted (entries dir)
          then Some (dir\<lparr>entries := g_list_sort compare_dirents (entries dir)\<rparr>)
          else Some dir)"

definition strip_slashes :: "string \<Rightarrow> string" where
  "strip_slashes path = rev (dropWhile (\<lambda>c. c = CHR ''/'') (rev path))"

text \<open>The id and mode found, or None when the parent directory has no such entry.\<close>

definition seaf_fs_manager_path_to_obj_id ::
    "fs_view \<Rightarrow> string \<Rightarrow> string \<Rightarrow> seaf_error + (string \<times> u32) option" where
  "seaf_fs_manager_path_to_obj_id F root_id path =
     (let copy = strip_slashes path in
      if copy = [] then Inr (Some (root_id, S_IFDIR))
      else (case strrchr_split (CHR ''/'') copy of
              (_, None) \<Rightarrow>
                (case get_dir F root_id of
                   None \<Rightarrow> Inl SEAF_ERR_GENERAL
                 | Some base_dir \<Rightarrow>
                     Inr (map_option (\<lambda>e. (d_id e, d_mode e))
                       (find (\<lambda>e. is_object_id_valid (d_id e) \<and> d_name e = copy) (entries base_dir))))
            | (base, Some name) \<Rightarrow>
                (case seaf_fs_manager_get_seafdir_by_path F root_id base of
                   Inl e \<Rightarrow> Inl e
                 | Inr base_dir \<Rightarrow>
                     Inr (map_option (\<lambda>e. (d_id e, d_mode e))
                       (find (\<lambda>e. is_object_id_valid (d_id e) \<and> d_name e = name) (entries base_dir))))))"

definition seaf_fs_manager_get_seafile_id_by_path ::
    "fs_view \<Rightarrow> string \<Rightarrow> string \<Rightarrow> string option" where
  "seaf_fs_manager_get_seafile_id_by_path F root_id path =
     (case seaf_fs_manager_path_to_obj_id F root_id path of
        Inr (Some (i, mode)) \<Rightarrow> if S_ISDIR mode then None else Some i
      | _ \<Rightarrow> None)"

definition seaf_fs_manager_get_seafdir_id_by_path ::
    "fs_view \<Rightarrow> string \<Rightarrow> string \<Rightarrow> string option" where
  "seaf_fs_manager_get_seafdir_id_by_path F root_id path =
     (case seaf_fs_manager_path_to_obj_id F root_id path of
        Inr (Some (i, mode)) \<Rightarrow> if \<not> S_ISDIR mode then None else Some i
      | _ \<Rightarrow> None)"

text \<open>
  GLib's \<open>g_path_get_dirname\<close> and \<open>g_path_get_basename\<close> are the two parameters.
\<close>

definition seaf_fs_manager_get_dirent_by_path ::
    "(string \<Rightarrow> string) \<Rightarrow> (string \<Rightarrow> string) \<Rightarrow> fs_view \<Rightarrow> string \<Rightarrow> string \<Rightarrow> seaf_error + dirent option"
    where
  "seaf_fs_manager_get_dirent_by_path get_dirname get_basename F root_id path =
     (case (if get_dirname path = ''.''
            then (case get_dir F root_id of None \<Rightarrow> Inl SEAF_ERR_DIR_MISSING | Some d \<Rightarrow> Inr d)
            else seaf_fs_manager_get_seafdir_by_path F root_id (get_dirname path)) of
        Inl e \<Rightarrow> Inl e
      | Inr dir \<Rightarrow>
          Inr (map_option seaf_dirent_dup
            (find (\<lambda>d. d_name d = get_basename path) (entries dir))))"

definition seaf_fs_manager_traverse_path ::
    "(string \<Rightarrow> string) \<Rightarrow> (string \<Rightarrow> string) \<Rightarrow> nat \<Rightarrow> fs_view \<Rightarrow> string \<Rightarrow> string
     \<Rightarrow> (string \<Rightarrow> dirent \<Rightarrow> 'u \<Rightarrow> bool \<times> bool \<times> 'u) \<Rightarrow> 'u \<Rightarrow> (int \<times> 'u) option" where
  "seaf_fs_manager_traverse_path get_dirname get_basename n F root_id dir_path callback u =
     (case seaf_fs_manager_get_dirent_by_path get_dirname get_basename F root_id dir_path of
        Inr (Some dent) \<Rightarrow> traverse_dir_path n F callback dir_path dent u
      | _ \<Rightarrow> Some (-1, u))"

definition seaf_fs_manager_get_file_count_info_by_path ::
    "nat \<Rightarrow> fs_view \<Rightarrow> string \<Rightarrow> string \<Rightarrow> (seaf_error option + count_info) option" where
  "seaf_fs_manager_get_file_count_info_by_path n F root_id path =
     (case seaf_fs_manager_get_seafdir_id_by_path F root_id path of
        None \<Rightarrow> Some (Inl (Some SEAF_ERR_BAD_ARGS))
      | Some i \<Rightarrow>
          (case get_file_count_info n F i \<lparr>ci_dirs = 0, ci_files = 0, ci_size = 0\<rparr> of
             None \<Rightarrow> None
           | Some (r, c) \<Rightarrow> Some (if r < 0 then Inl None else Inr c)))"

section \<open>Fuel\<close>

lemma traverse_entries_total:
  assumes "\<And>e u. e \<in> set es \<Longrightarrow> S_ISDIR (d_mode e) \<Longrightarrow> \<exists>r. walk (d_id e) u = Some r"
  shows "\<exists>r. traverse_entries walk callback skip_errors es u = Some r"
  using assms
proof (induction es arbitrary: u)
  case (Cons e es)
  have IH: "\<exists>r. traverse_entries walk callback skip_errors es v = Some r" for v
    using Cons by simp
  show ?case
    using IH Cons.prems [of e u] by (auto simp del: split_paired_Ex split: prod.split)
qed simp

lemma traverse_dir_total:
  "dir_height n F i \<Longrightarrow> \<exists>r. traverse_dir n F callback skip_errors i u = Some r"
proof (induction n arbitrary: i u)
  case (Suc n)
  have "\<exists>r. traverse_entries (traverse_dir n F callback skip_errors) callback skip_errors (entries dir) v = Some r"
    if "get_dir F i = Some dir" for dir v
    by (rule traverse_entries_total, rule Suc.IH) (use Suc.prems that in auto)
  then show ?case by (auto split: prod.splits option.splits)
qed simp

lemma traverse_entries_cong:
  "traverse_entries walk callback sk es u = Some r \<Longrightarrow>
   (\<And>i u r. walk i u = Some r \<Longrightarrow> walk' i u = Some r) \<Longrightarrow>
   traverse_entries walk' callback sk es u = Some r"
  by (induction es arbitrary: u) (auto split: prod.splits option.splits if_splits)

lemma traverse_dir_Suc:
  "traverse_dir n F callback sk i u = Some r \<Longrightarrow> traverse_dir (Suc n) F callback sk i u = Some r"
proof (induction n arbitrary: i u r)
  case (Suc n)
  obtain ok stop v where c: "callback i SEAF_METADATA_TYPE_DIR u = (ok, stop, v)"
    using prod_cases3 by blast
  have mono: "traverse_entries (traverse_dir n F callback sk) callback sk es v = Some r \<Longrightarrow>
      traverse_entries (traverse_dir (Suc n) F callback sk) callback sk es v = Some r" for es
    by (erule traverse_entries_cong, erule Suc.IH)
  show ?case
    using Suc.prems c mono
    by (subst traverse_dir.simps(2), cases sk; cases ok; cases stop; cases "get_dir F i")
       (simp_all del: traverse_dir.simps(2) add: traverse_dir.simps(2) [of n])
qed simp

text \<open>More fuel never changes the outcome.\<close>

lemma traverse_dir_fuel:
  "traverse_dir n F callback sk i u = Some r \<Longrightarrow> n \<le> k \<Longrightarrow> traverse_dir k F callback sk i u = Some r"
  by (induction k) (auto simp: le_Suc_eq traverse_dir_Suc simp del: traverse_dir.simps)

section \<open>What a traversal visits\<close>

text \<open>
  An object is only handed to the callback when it is in the tree: every property of the user data
  that the callback keeps for such objects is kept by the traversal.
\<close>

definition obj_reach :: "fs_view \<Rightarrow> string \<Rightarrow> string \<Rightarrow> int \<Rightarrow> bool" where
  "obj_reach F root i type \<longleftrightarrow>
     (type = SEAF_METADATA_TYPE_DIR \<and> dir_reach F root i) \<or>
     (type = SEAF_METADATA_TYPE_FILE \<and> file_reach F root i)"

lemma traverse_entries_inv:
  assumes "traverse_entries walk callback sk es u = Some (r, u')" and "I u"
    and "\<And>i u. I u \<Longrightarrow> i \<in> d_id ` {e \<in> set es. S_ISREG (d_mode e)} \<Longrightarrow>
          I (snd (snd (callback i SEAF_METADATA_TYPE_FILE u)))"
    and "\<And>i u r u'. I u \<Longrightarrow> i \<in> d_id ` {e \<in> set es. S_ISDIR (d_mode e)} \<Longrightarrow>
          walk i u = Some (r, u') \<Longrightarrow> I u'"
  shows "I u'"
  using assms
proof (induction es arbitrary: u)
  case (Cons e es)
  have step: "I u'" if "traverse_entries walk callback sk es v = Some (r, u') \<or> v = u'" "I v" for v
  proof (cases "v = u'")
    case False
    with that have t: "traverse_entries walk callback sk es v = Some (r, u')" by simp
    show ?thesis
      by (rule Cons.IH [OF t that(2)])
         ((rule Cons.prems(3), assumption, force), (rule Cons.prems(4), assumption, force, assumption))
  qed (use that in simp)
  consider (reg) "S_ISREG (d_mode e)" | (dir) "\<not> S_ISREG (d_mode e)" "S_ISDIR (d_mode e)"
    | (other) "\<not> S_ISREG (d_mode e)" "\<not> S_ISDIR (d_mode e)" by blast
  then show ?case
  proof cases
    case reg
    obtain r1 u1 where t: "traverse_file callback sk (d_id e) u = (r1, u1)" by fastforce
    have "I u1"
      using Cons.prems(3) [OF Cons.prems(2), of "d_id e"] t Cons.prems(2) reg
      by (auto simp: traverse_file_def split: if_splits prod.splits)
    moreover have "traverse_entries walk callback sk es u1 = Some (r, u') \<or> u1 = u'"
      using Cons.prems(1) reg t by (simp split: if_splits)
    ultimately show ?thesis by (rule step [rotated])
  next
    case dir
    then obtain r1 u1 where w: "walk (d_id e) u = Some (r1, u1)"
      using Cons.prems(1) by (auto split: option.splits)
    then have "I u1" using Cons.prems(4) [OF Cons.prems(2) _ w] dir by simp
    moreover have "traverse_entries walk callback sk es u1 = Some (r, u') \<or> u1 = u'"
      using Cons.prems(1) dir w by (simp split: if_splits)
    ultimately show ?thesis by (rule step [rotated])
  next
    case other
    then show ?thesis using Cons.prems(1,2) by (intro step [of u]) simp_all
  qed
qed simp

lemma traverse_dir_inv:
  assumes "traverse_dir n F callback sk i u = Some (r, u')" and "I u" and "dir_reach F root i"
    and "\<And>i type u. I u \<Longrightarrow> obj_reach F root i type \<Longrightarrow> I (snd (snd (callback i type u)))"
  shows "I u'"
  using assms(1-3)
proof (induction n arbitrary: i u r u')
  case (Suc n)
  obtain ok stop u1 where c: "callback i SEAF_METADATA_TYPE_DIR u = (ok, stop, u1)"
    using prod_cases3 by blast
  have I1: "I u1"
    using assms(4) [OF Suc.prems(2), of i SEAF_METADATA_TYPE_DIR] c Suc.prems(3)
    by (simp add: obj_reach_def)
  show ?case
  proof (cases "(\<not> ok \<and> \<not> sk) \<or> stop \<or> get_dir F i = None")
    case True
    then show ?thesis using Suc.prems(1) c I1 by (auto split: if_splits)
  next
    case False
    then obtain dir where dir: "get_dir F i = Some dir" by auto
    with False Suc.prems(1) c
    have t: "traverse_entries (traverse_dir n F callback sk) callback sk (entries dir) u1 = Some (r, u')"
      by (auto split: if_splits)
    show ?thesis
    proof (rule traverse_entries_inv [where I = I, OF t I1])
      fix j v assume "I v" "j \<in> d_id ` {e \<in> set (entries dir). S_ISREG (d_mode e)}"
      then show "I (snd (snd (callback j SEAF_METADATA_TYPE_FILE v)))"
        using Suc.prems(3) dir by (intro assms(4)) (auto simp: obj_reach_def file_reach_def)
    next
      fix j v s v' assume "I v" "j \<in> d_id ` {e \<in> set (entries dir). S_ISDIR (d_mode e)}"
        and "traverse_dir n F callback sk j v = Some (s, v')"
      then show "I v'" using Suc.IH dir_reach.sub [OF Suc.prems(3) dir] by auto
    qed
  qed
qed simp

lemma traverse_entries_status:
  "traverse_entries walk callback sk es u = Some (r, u') \<Longrightarrow> r = 0 \<or> r = -1"
  by (induction es arbitrary: u) (auto split: prod.splits option.splits if_splits)

lemma traverse_dir_status: "traverse_dir n F callback sk i u = Some (r, u') \<Longrightarrow> r = 0 \<or> r = -1"
  by (cases n) (auto split: prod.splits option.splits if_splits dest: traverse_entries_status)

text \<open>
  The contract of a callback that processes every file of a tree: handing it a file marks the file
  \<open>done\<close>, marks are never lost, and it only stops at directories it has \<open>seen\<close>, which it takes
  note of one at a time, or that cannot be read.  It may rely on an invariant of its data, which it
  keeps as long as no unreadable directory is entered.  The client is the traversal: when it ends
  without an error, every file in the tree is done.
\<close>

definition entry_ok ::
    "('u \<Rightarrow> string \<Rightarrow> bool) \<Rightarrow> ('u \<Rightarrow> string \<Rightarrow> bool) \<Rightarrow> 'u \<Rightarrow> dirent \<Rightarrow> bool" where
  "entry_ok is_done covered u e \<longleftrightarrow>
     (S_ISREG (d_mode e) \<longrightarrow> take 40 (d_id e) = EMPTY_SHA1 \<or> is_done u (d_id e)) \<and>
     (\<not> S_ISREG (d_mode e) \<longrightarrow> S_ISDIR (d_mode e) \<longrightarrow> covered u (d_id e))"

locale tree_visitor =
  fixes F :: fs_view
    and callback :: "'u tree_callback"
    and seen :: "'u \<Rightarrow> string \<Rightarrow> bool"
    and is_done :: "'u \<Rightarrow> string \<Rightarrow> bool"
    and inv :: "'u \<Rightarrow> bool"
  assumes dir_stop: "inv u \<Longrightarrow> callback i SEAF_METADATA_TYPE_DIR u = (True, True, u') \<Longrightarrow> seen u i \<or> get_dir F i = None"
    and dir_seen: "inv u \<Longrightarrow> callback i SEAF_METADATA_TYPE_DIR u = (True, stop, u') \<Longrightarrow> seen u' j \<Longrightarrow>
      seen u j \<or> j = i \<and> \<not> stop"
    and dir_keeps_seen: "inv u \<Longrightarrow> callback i SEAF_METADATA_TYPE_DIR u = (True, stop, u') \<Longrightarrow> seen u j \<Longrightarrow> seen u' j"
    and dir_keeps_done: "inv u \<Longrightarrow> callback i SEAF_METADATA_TYPE_DIR u = (True, stop, u') \<Longrightarrow> is_done u f \<Longrightarrow> is_done u' f"
    and dir_inv: "inv u \<Longrightarrow> callback i SEAF_METADATA_TYPE_DIR u = (True, stop, u') \<Longrightarrow> stop \<or> get_dir F i \<noteq> None \<Longrightarrow> inv u'"
    and file_done: "inv u \<Longrightarrow> callback i SEAF_METADATA_TYPE_FILE u = (True, stop, u') \<Longrightarrow> is_done u' i"
    and file_keeps_done: "inv u \<Longrightarrow> callback i SEAF_METADATA_TYPE_FILE u = (True, stop, u') \<Longrightarrow> is_done u f \<Longrightarrow> is_done u' f"
    and file_keeps_seen: "inv u \<Longrightarrow> take 40 i \<noteq> EMPTY_SHA1 \<Longrightarrow>
      callback i SEAF_METADATA_TYPE_FILE u = (True, stop, u') \<Longrightarrow> seen u' j = seen u j"
    and file_inv: "inv u \<Longrightarrow> callback i SEAF_METADATA_TYPE_FILE u = (True, stop, u') \<Longrightarrow> inv u'"
begin

inductive covered :: "'u \<Rightarrow> string \<Rightarrow> bool" where
  seen: "seen u i \<Longrightarrow> covered u i"
| unreadable: "get_dir F i = None \<Longrightarrow> covered u i"
| dir: "get_dir F i = Some d \<Longrightarrow>
    (\<And>e. e \<in> set (entries d) \<Longrightarrow> S_ISREG (d_mode e) \<Longrightarrow>
        take 40 (d_id e) = EMPTY_SHA1 \<or> is_done u (d_id e)) \<Longrightarrow>
    (\<And>e. e \<in> set (entries d) \<Longrightarrow> \<not> S_ISREG (d_mode e) \<Longrightarrow> S_ISDIR (d_mode e) \<Longrightarrow> covered u (d_id e)) \<Longrightarrow>
    covered u i"

definition grows :: "'u \<Rightarrow> 'u \<Rightarrow> bool" where
  "grows u u' \<longleftrightarrow> (\<forall>j. seen u j \<longrightarrow> seen u' j) \<and> (\<forall>f. is_done u f \<longrightarrow> is_done u' f)"

lemma grows_refl [simp]: "grows u u"
  by (simp add: grows_def)

lemma grows_trans [trans]: "grows u v \<Longrightarrow> grows v w \<Longrightarrow> grows u w"
  by (simp add: grows_def)

lemma covered_grows: "covered u i \<Longrightarrow> grows u v \<Longrightarrow> covered v i"
proof (induction rule: covered.induct)
  case (seen u i)
  then show ?case by (auto simp: grows_def intro: covered.seen)
next
  case (unreadable i u)
  then show ?case using covered.unreadable by blast
next
  case (dir i d u)
  then have "is_done u f \<Longrightarrow> is_done v f" for f by (simp add: grows_def)
  with dir show ?case by (intro covered.dir [of i d]) blast+
qed

lemma entry_ok_grows: "entry_ok is_done covered u e \<Longrightarrow> grows u v \<Longrightarrow> entry_ok is_done covered v e"
  by (auto simp: entry_ok_def covered_grows) (auto simp: grows_def)

text \<open>Every directory seen, but for those still being walked, has all its entries taken care of.\<close>

definition settled :: "string set \<Rightarrow> 'u \<Rightarrow> bool" where
  "settled S u \<longleftrightarrow> inv u \<and> (\<forall>i d. seen u i \<longrightarrow> i \<notin> S \<longrightarrow> get_dir F i = Some d \<longrightarrow>
     (\<forall>e\<in>set (entries d). entry_ok is_done covered u e))"

lemma traverse_entries_covers:
  assumes "traverse_entries walk callback False es u = Some (r, u')" "r = 0" "settled S u"
    and walk: "\<And>i u r u'. walk i u = Some (r, u') \<Longrightarrow> \<not> r < 0 \<Longrightarrow> settled S u \<Longrightarrow>
      settled S u' \<and> grows u u' \<and> covered u' i"
  shows "settled S u' \<and> grows u u' \<and> (\<forall>e\<in>set es. entry_ok is_done covered u' e)"
  using assms(1,3)
proof (induction es arbitrary: u)
  case (Cons e es)
  have step: "settled S u' \<and> grows u u' \<and> (\<forall>e\<in>set (e # es). entry_ok is_done covered u' e)"
    if t: "traverse_entries walk callback False es v = Some (r, u')" and "settled S v" "grows u v"
      "entry_ok is_done covered v e" for v
    using Cons.IH [OF t \<open>settled S v\<close>] that grows_trans [of u v u'] entry_ok_grows by auto
  consider (reg) "S_ISREG (d_mode e)" | (dir) "\<not> S_ISREG (d_mode e)" "S_ISDIR (d_mode e)"
    | (other) "\<not> S_ISREG (d_mode e)" "\<not> S_ISDIR (d_mode e)" by blast
  then show ?case
  proof cases
    case reg
    show ?thesis
    proof (cases "take 40 (d_id e) = EMPTY_SHA1")
      case True
      then show ?thesis
        using Cons.prems reg by (intro step [of u]) (simp_all add: traverse_file_def entry_ok_def)
    next
      case False
      obtain ok stop v where c: "callback (d_id e) SEAF_METADATA_TYPE_FILE u = (ok, stop, v)"
        using prod_cases3 by blast
      with Cons.prems(1) reg False have ok: "ok" and t: "traverse_entries walk callback False es v = Some (r, u')"
        using \<open>r = 0\<close> by (auto simp: traverse_file_def split: if_splits)
      note c = c [unfolded eqTrueI [OF ok]]
      have inv: "inv u" using Cons.prems(2) by (simp add: settled_def)
      have g: "grows u v" using file_keeps_done [OF inv c] file_keeps_seen [OF inv False c] by (simp add: grows_def)
      moreover have "settled S v"
        using Cons.prems(2) entry_ok_grows [OF _ g] file_keeps_seen [OF inv False c] file_inv [OF inv c]
        unfolding settled_def by blast
      moreover have "entry_ok is_done covered v e"
        using file_done [OF inv c] reg by (simp add: entry_ok_def)
      ultimately show ?thesis using step [OF t] by blast
    qed
  next
    case dir
    obtain s v where w: "walk (d_id e) u = Some (s, v)"
      using Cons.prems(1) dir by (auto split: option.splits)
    with Cons.prems(1) dir have s: "\<not> s < 0" and t: "traverse_entries walk callback False es v = Some (r, u')"
      using \<open>r = 0\<close> by (auto split: if_splits)
    show ?thesis
      using walk [OF w s Cons.prems(2)] dir by (intro step [OF t]) (auto simp: entry_ok_def)
  next
    case other
    then show ?thesis using Cons.prems by (intro step [of u]) (simp_all add: entry_ok_def)
  qed
qed (simp add: settled_def)

lemma traverse_dir_covers:
  "traverse_dir n F callback False i u = Some (r, u') \<Longrightarrow> r = 0 \<Longrightarrow> settled S u \<Longrightarrow>
   settled S u' \<and> grows u u' \<and> covered u' i"
proof (induction n arbitrary: i u r u' S)
  case (Suc n)
  obtain ok stop v where c: "callback i SEAF_METADATA_TYPE_DIR u = (ok, stop, v)"
    using prod_cases3 by blast
  with Suc.prems have ok: ok by (auto split: if_splits)
  note c = c [unfolded eqTrueI [OF ok]]
  have inv: "inv u" using Suc.prems(3) by (simp add: settled_def)
  have g: "grows u v" using dir_keeps_done [OF inv c] dir_keeps_seen [OF inv c] by (simp add: grows_def)
  have settle: "settled T v" if "inv v" "S \<subseteq> T" "\<not> stop \<Longrightarrow> i \<in> T" for T
    unfolding settled_def
  proof (intro conjI allI impI)
    fix j d assume j: "seen v j" "j \<notin> T" "get_dir F j = Some d"
    then have "seen u j" "j \<notin> S" using dir_seen [OF inv c j(1)] that(2,3) by auto
    then show "\<forall>e\<in>set (entries d). entry_ok is_done covered v e"
      using Suc.prems(3) j(3) entry_ok_grows [OF _ g] unfolding settled_def by blast
  qed (rule that(1))
  show ?case
  proof (cases stop)
    case True
    have s: "seen u i \<or> get_dir F i = None" using dir_stop [OF inv] c True by simp
    have "settled S v" by (rule settle) (use dir_inv [OF inv c] True in auto)
    moreover have "u' = v" using Suc.prems(1) c True by simp
    ultimately show ?thesis
      using g s covered.seen [of v i] covered.unreadable [of i v] by (auto simp: grows_def)
  next
    case False
    then obtain d where d: "get_dir F i = Some d"
      and t: "traverse_entries (traverse_dir n F callback False) callback False (entries d) v = Some (r, u')"
      using Suc.prems(1,2) c by (auto split: option.splits)
    have sv: "settled (insert i S) v" by (rule settle) (use dir_inv [OF inv c] d in auto)
    have all: "settled (insert i S) u' \<and> grows v u' \<and> (\<forall>e\<in>set (entries d). entry_ok is_done covered u' e)"
      by (rule traverse_entries_covers [OF t Suc.prems(2) sv]) (use Suc.IH traverse_dir_status in fastforce)
    then have "settled S u'" using d by (auto simp: settled_def)
    moreover have "covered u' i"
      using all by (intro covered.dir [OF d]) (auto simp: entry_ok_def)
    ultimately show ?thesis using all g grows_trans by blast
  qed
qed simp

lemma covered_closed:
  assumes "settled {} u" "covered u i" "get_dir F i = Some d"
  shows "\<forall>e\<in>set (entries d). entry_ok is_done covered u e"
  using assms(2,1,3) by cases (auto simp: settled_def entry_ok_def)

lemma covered_done:
  assumes s: "settled {} u" "covered u root" and f: "file_reach F root f" "take 40 f \<noteq> EMPTY_SHA1"
  shows "is_done u f"
proof -
  have "covered u i" if "dir_reach F root i" for i
    using that
  proof induction
    case (sub i dir e)
    then show ?case
      using covered_closed [OF s(1), of i] not_dir_and_reg by (auto simp: entry_ok_def)
  qed (rule s(2))
  then show ?thesis
    using f covered_closed [OF s(1)] by (fastforce simp: file_reach_def entry_ok_def)
qed

lemma traverse_done:
  assumes t: "traverse_dir n F callback False root u = Some (0, u')" and start: "inv u" "\<And>j. \<not> seen u j"
    and f: "file_reach F root f" "take 40 f \<noteq> EMPTY_SHA1"
  shows "is_done u' f"
proof -
  have "settled {} u" using start by (simp add: settled_def)
  then have "settled {} u'" "covered u' root" using traverse_dir_covers [OF t] by auto
  then show ?thesis using covered_done f by blast
qed

end

section \<open>Block lists of a tree\<close>

definition block_list_inv :: "block_list \<Rightarrow> bool" where
  "block_list_inv bl \<longleftrightarrow> block_hash bl = set (block_ids bl) \<and> distinct (block_ids bl) \<and>
     n_blocks bl = of_nat (length (block_ids bl))"

definition tree_blocks :: "fs_view \<Rightarrow> string \<Rightarrow> string set" where
  "tree_blocks F root = {b. \<exists>i f. file_reach F root i \<and> get_file F i = Some f \<and> b \<in> set (blk_sha1s f)}"

lemma block_list_insert_inv:
  "block_list_inv bl \<Longrightarrow> block_list_inv (block_list_insert bl b) \<and>
     set (block_ids (block_list_insert bl b)) = insert b (set (block_ids bl))"
  by (auto simp: block_list_inv_def block_list_insert_def)

lemma block_list_inserts_inv:
  "block_list_inv bl \<Longrightarrow> block_list_inv (foldl block_list_insert bl bs) \<and>
     set (block_ids (foldl block_list_insert bl bs)) = set bs \<union> set (block_ids bl)"
  by (induction bs arbitrary: bl) (auto simp: block_list_insert_inv)

lemma block_list_inserts_hash [simp]:
  "block_hash (foldl block_list_insert bl bs) = set bs \<union> block_hash bl"
  by (induction bs arbitrary: bl) (auto simp: block_list_insert_def)

text \<open>A file is done when all its blocks are in the table.\<close>

definition blocks_listed :: "fs_view \<Rightarrow> block_list \<Rightarrow> string \<Rightarrow> bool" where
  "blocks_listed F bl i \<longleftrightarrow>
     (case get_file F i of None \<Rightarrow> False | Some f \<Rightarrow> set (blk_sha1s f) \<subseteq> block_hash bl)"

interpretation filler: tree_visitor F "fill_blocklist F" "\<lambda>_ _. False" "blocks_listed F" "\<lambda>_. True" for F
  by unfold_locales
     (auto simp: fill_blocklist_def codec blocks_listed_def split: option.splits if_splits)

lemma fill_blocklist_bounds:
  assumes "block_list_inv bl \<and> A \<subseteq> set (block_ids bl) \<and> set (block_ids bl) \<subseteq> A \<union> tree_blocks F root"
    and "obj_reach F root i type"
  shows "(let bl' = snd (snd (fill_blocklist F i type bl)) in
    block_list_inv bl' \<and> A \<subseteq> set (block_ids bl') \<and> set (block_ids bl') \<subseteq> A \<union> tree_blocks F root)"
proof (cases "type = SEAF_METADATA_TYPE_FILE")
  case True
  then have "file_reach F root i" using assms(2) by (auto simp: obj_reach_def codec)
  then show ?thesis
    using assms(1) True block_list_inserts_inv [of bl]
    by (auto simp: fill_blocklist_def Let_def tree_blocks_def split: option.splits)
qed (use assms(1) in \<open>simp add: fill_blocklist_def Let_def\<close>)

lemma tree_blocks_empty: "tree_blocks F EMPTY_SHA1 = {}"
proof -
  have e: "get_dir F EMPTY_SHA1 = Some d \<Longrightarrow> entries d = []" for d
    by (auto simp: seaf_fs_manager_get_seafdir_def)
  have "dir_reach F EMPTY_SHA1 i \<Longrightarrow> i = EMPTY_SHA1" for i
    by (induction rule: dir_reach.induct) (auto simp: e)
  then show ?thesis using e by (force simp: tree_blocks_def file_reach_def)
qed

text \<open>C10: When \<open>seaf_fs_manager_populate_blocklist\<close> succeeds, the block list holds, without duplicates and
  with the right count, exactly the blocks it had before and the blocks of every file that can be
  reached from the root.\<close>

theorem populate_blocklist_exact:
  assumes "seaf_fs_manager_populate_blocklist n F root bl = Some (0, bl')" and "block_list_inv bl"
  shows "block_list_inv bl' \<and> set (block_ids bl') = set (block_ids bl) \<union> tree_blocks F root"
proof (cases "root = EMPTY_SHA1")
  case True
  then have "tree_blocks F root = {}" by (simp add: tree_blocks_empty)
  then show ?thesis
    using assms True by (simp add: seaf_fs_manager_populate_blocklist_def seaf_fs_manager_traverse_tree_def)
next
  case False
  then have t: "traverse_dir n F (fill_blocklist F) False root bl = Some (0, bl')"
    using assms by (simp add: seaf_fs_manager_populate_blocklist_def seaf_fs_manager_traverse_tree_def)
  let ?I = "\<lambda>v. block_list_inv v \<and> set (block_ids bl) \<subseteq> set (block_ids v) \<and>
    set (block_ids v) \<subseteq> set (block_ids bl) \<union> tree_blocks F root"
  have I: "?I bl'"
    by (rule traverse_dir_inv [OF t, where I = ?I and root = root, OF _ dir_reach.root
          fill_blocklist_bounds [unfolded Let_def]])
       (use assms(2) in auto)
  have "b \<in> set (block_ids bl')" if "b \<in> tree_blocks F root" for b
  proof -
    from that obtain i f where f: "file_reach F root i" "get_file F i = Some f" "b \<in> set (blk_sha1s f)"
      by (auto simp: tree_blocks_def)
    then have "take 40 i \<noteq> EMPTY_SHA1" by (auto simp: seaf_fs_manager_get_seafile_def)
    from filler.traverse_done [OF t _ _ f(1) this] f(2,3) I show ?thesis
      by (auto simp: blocks_listed_def block_list_inv_def)
  qed
  with I show ?thesis by blast
qed

text \<open>A small tree: one file of two blocks under a root directory, in a version 0 repository.\<close>

definition demo_root_id :: string where "demo_root_id = replicate 40 (CHR ''b'')"
definition demo_file_id :: string where "demo_file_id = replicate 40 (CHR ''a'')"

definition demo_view :: fs_view where
  "demo_view =
     \<lparr>fv_libs = demo_libs JNull,
      fv_store = \<lparr>obj_dir = [], files = (\<lambda>p.
        if p = id_to_path [] demo_root_id [] then
          Some (seaf_dir_to_v0_data \<lparr>dir_version = 0, dir_id = [],
            entries = [demo_dirent ''f'' 0x81A4], ondisk = None\<rparr>)
        else if p = id_to_path [] demo_file_id [] then
          Some (seafile_to_v0_data \<lparr>sf_version = 0, file_id = [], file_size = 5,
            blk_sha1s = [demo_file_id, demo_root_id]\<rparr>)
        else None), disk_ok = (\<lambda>_. True)\<rparr>,
      fv_repo = [], fv_version = 0\<rparr>"

lemma demo_ids [simp]:
  "is_object_id_valid demo_root_id" "is_object_id_valid demo_file_id"
  "demo_root_id \<noteq> EMPTY_SHA1" "demo_file_id \<noteq> EMPTY_SHA1" "demo_root_id \<noteq> demo_file_id"
  "length demo_root_id = 40" "length demo_file_id = 40"
  by (simp_all add: demo_root_id_def demo_file_id_def EMPTY_SHA1_def replicate_eq_replicate)

lemma demo_paths [simp]: "id_to_path [] demo_root_id [] \<noteq> id_to_path [] demo_file_id []"
  "id_to_path [] demo_file_id [] \<noteq> id_to_path [] demo_root_id []"
  using id_to_path_inj [of demo_root_id demo_file_id "[]" "[]" "[]"] by auto

lemma demo_view_get [simp]:
  "get_dir demo_view demo_root_id = Some \<lparr>dir_version = 0, dir_id = demo_root_id,
     entries = [demo_dirent ''f'' 0x81A4], ondisk = None\<rparr>"
  "get_file demo_view demo_file_id = Some \<lparr>sf_version = 0, file_id = demo_file_id, file_size = 5,
     blk_sha1s = [demo_file_id, demo_root_id]\<rparr>"
  by (simp_all add: demo_view_def seaf_fs_manager_get_seafdir_def seaf_fs_manager_get_seafile_def
      obj_store_defs seaf_dir_from_data_def seafile_from_data_def dir_v0_decode file_v0_decode name_ok_def)

theorem populate_blocklist_exact_witness:
  "\<exists>bl'. seaf_fs_manager_populate_blocklist 1 demo_view demo_root_id block_list_new = Some (0, bl') \<and>
     block_list_inv bl' \<and> set (block_ids bl') = tree_blocks demo_view demo_root_id \<and>
     block_ids bl' = [demo_file_id, demo_root_id]"
proof -
  let ?bl = "foldl block_list_insert block_list_new [demo_file_id, demo_root_id]"
  have "take 40 demo_file_id = demo_file_id" by simp
  then have p: "seaf_fs_manager_populate_blocklist 1 demo_view demo_root_id block_list_new = Some (0, ?bl)"
    by (simp add: seaf_fs_manager_populate_blocklist_def seaf_fs_manager_traverse_tree_def
        fill_blocklist_def traverse_file_def codec demo_dirent_def S_ISREG_def S_IFMT_def S_IFREG_def
        flip: demo_file_id_def)
  show ?thesis
    using populate_blocklist_exact [OF p] p
    by (simp add: block_list_inv_def block_list_new_def block_list_insert_def)
qed

text \<open>The traversal behind block lists returns, successfully or not, with any fuel above the depth of
  the tree.\<close>

theorem populate_blocklist_terminates:
  assumes "dir_height n F root" "n \<le> k"
  shows "\<exists>r bl'. seaf_fs_manager_populate_blocklist k F root bl = Some (r, bl') \<and> (r = 0 \<or> r = -1)"
proof -
  obtain r bl' where "traverse_dir k F (fill_blocklist F) False root bl = Some (r, bl')"
    using traverse_dir_total [OF assms(1), of "fill_blocklist F" False bl] traverse_dir_fuel assms(2)
    by fastforce
  then show ?thesis
    using traverse_dir_status [of k F "fill_blocklist F" False root bl r bl']
    by (auto simp: seaf_fs_manager_populate_blocklist_def seaf_fs_manager_traverse_tree_def)
qed

theorem populate_blocklist_terminates_witness:
  "\<exists>r bl'. seaf_fs_manager_populate_blocklist 3 demo_view demo_root_id block_list_new = Some (r, bl') \<and>
     (r = 0 \<or> r = -1)"
  by (rule populate_blocklist_terminates [of 1])
     (simp_all add: demo_dirent_def S_ISDIR_def S_IFMT_def S_IFDIR_def)

text \<open>The difference of two block lists holds, in order and once each, the blocks of the first that
  the second does not have.\<close>

theorem block_list_difference_exact:
  assumes "block_list_inv bl1" "block_list_inv bl2"
  shows "block_ids (block_list_difference bl1 bl2) = filter (\<lambda>b. b \<notin> set (block_ids bl2)) (block_ids bl1) \<and>
    block_list_inv (block_list_difference bl1 bl2)"
proof -
  have loop: "block_list_inv bl \<Longrightarrow> distinct (block_ids bl @ bs) \<Longrightarrow>
      block_list_inv (block_list_difference_loop bs bl2 bl) \<and>
      block_ids (block_list_difference_loop bs bl2 bl) = block_ids bl @ filter (\<lambda>b. b \<notin> set (block_ids bl2)) bs"
    for bs bl
  proof (induction bs arbitrary: bl)
    case (Cons b bs)
    let ?bl = "bl\<lparr>block_hash := insert b (block_hash bl), block_ids := block_ids bl @ [b],
      n_blocks := n_blocks bl + 1\<rparr>"
    have h: "block_hash bl2 = set (block_ids bl2)" using assms(2) by (simp add: block_list_inv_def)
    have "block_list_inv ?bl" "distinct (block_ids ?bl @ bs)"
      using Cons.prems by (auto simp: block_list_inv_def)
    then show ?case
      using Cons.IH [of ?bl] Cons.IH [OF Cons.prems(1)] Cons.prems(2) by (simp add: h)
  qed simp
  show ?thesis
    using loop [of block_list_new "block_ids bl1"] assms(1)
    by (simp add: block_list_difference_def block_list_inv_def block_list_new_def)
qed

theorem block_list_difference_exact_witness:
  "block_ids (block_list_difference \<lparr>block_hash = {''x'', ''y''}, block_ids = [''x'', ''y''], n_blocks = 2\<rparr>
     \<lparr>block_hash = {''x''}, block_ids = [''x''], n_blocks = 1\<rparr>) = [''y'']"
  using block_list_difference_exact [of "\<lparr>block_hash = {''x'', ''y''}, block_ids = [''x'', ''y''], n_blocks = 2\<rparr>"
      "\<lparr>block_hash = {''x''}, block_ids = [''x''], n_blocks = 1\<rparr>"]
  by (simp add: block_list_inv_def)

section \<open>Walks agree with the tree\<close>

definition regular_files :: "(string \<times> dirent) list \<Rightarrow> (string \<times> dirent) list" where
  "regular_files l = filter (\<lambda>(p, e). S_ISREG (d_mode e)) l"

definition sub_dirs :: "(string \<times> dirent) list \<Rightarrow> (string \<times> dirent) list" where
  "sub_dirs l = filter (\<lambda>(p, e). S_ISDIR (d_mode e)) l"

lemmas entry_lists = regular_files_def sub_dirs_def

lemma collect_entries_ConsE:
  assumes "collect_entries walk path (e # es) = Some l"
  obtains sub rest where "collect_entries walk path es = Some rest"
    "l = (path @ ''/'' @ d_name e, e) # sub @ rest"
    "if S_ISDIR (d_mode e) then walk (path @ ''/'' @ d_name e) (d_id e) = Some sub else sub = []"
proof -
  from assms obtain sub where s: "(if S_ISDIR (d_mode e) then walk (path @ ''/'' @ d_name e) (d_id e) else Some []) = Some sub"
    by (simp only: collect_entries.simps split: option.split_asm)
  with assms obtain rest where r: "collect_entries walk path es = Some rest"
    by (simp only: collect_entries.simps option.case split: option.split_asm)
  have l: "l = (path @ ''/'' @ d_name e, e) # sub @ rest"
    using assms by (simp only: collect_entries.simps s r option.case option.inject)
  show ?thesis by (rule that [OF r l]) (use s in \<open>simp split: if_split_asm\<close>)
qed

lemma sint_small: "k < 2 ^ 31 \<Longrightarrow> sint (of_nat k :: u32) = int k"
  using c_int_small [of "int k"] by (simp add: c_int_def)

lemma count_dir_entries_ok:
  assumes "collect_entries (tree_entries n F) path es = Some l"
    and "length (regular_files l) < 2 ^ 31"
    and IH: "\<And>p i l. tree_entries n F p i = Some l \<Longrightarrow> length (regular_files l) < 2 ^ 31 \<Longrightarrow>
      count_dir_files n F i = Some (of_nat (length (regular_files l)))"
  shows "count_dir_entries (count_dir_files n F) es c = Some (c + of_nat (length (regular_files l)))"
  using assms(1,2)
proof (induction es arbitrary: c l)
  case (Cons e es)
  from Cons.prems(1) obtain sub rest where r: "collect_entries (tree_entries n F) path es = Some rest"
    "l = (path @ ''/'' @ d_name e, e) # sub @ rest"
    "if S_ISDIR (d_mode e) then tree_entries n F (path @ ''/'' @ d_name e) (d_id e) = Some sub else sub = []"
    by (rule collect_entries_ConsE)
  have len: "length (regular_files sub) < 2 ^ 31" "length (regular_files rest) < 2 ^ 31"
    using Cons.prems(2) by (auto simp: r(2) entry_lists split: if_splits)
  show ?case
    using Cons.IH [OF r(1) len(2)] IH [of "path @ ''/'' @ d_name e" "d_id e" sub] r(2,3) len(1) not_reg_and_dir
    by (auto simp: entry_lists sint_small split: if_splits)
qed (simp add: entry_lists)

lemma count_dir_files_exact:
  assumes "tree_entries n F path i = Some l" and "length (regular_files l) < 2 ^ 31"
  shows "count_dir_files n F i = Some (of_nat (length (regular_files l)))"
  using assms
proof (induction n arbitrary: path i l)
  case (Suc n)
  then obtain dir where "get_dir F i = Some dir" "collect_entries (tree_entries n F) path (entries dir) = Some l"
    by (auto split: option.splits)
  then show ?case
    using count_dir_entries_ok [where path = path and es = "entries dir" and c = 0, OF _ Suc.prems(2) Suc.IH] by simp
qed simp

text \<open>\<open>count_dir_files\<close> returns the number of regular files of the tree, when every directory of the
  tree can be read, its depth is within the fuel and the number fits an \<open>int\<close>.\<close>

theorem count_dir_files_counts:
  assumes "tree_entries n F path i = Some l" and "length (regular_files l) < 2 ^ 31"
  shows "count_dir_files n F i = Some (of_nat (length (regular_files l)))"
  using assms by (rule count_dir_files_exact)

lemma count_info_entries_ok:
  assumes "collect_entries (tree_entries n F) path es = Some l"
    and IH: "\<And>p i l c. tree_entries n F p i = Some l \<Longrightarrow> get_file_count_info n F i c
      = Some (0, \<lparr>ci_dirs = ci_dirs c + of_nat (length (sub_dirs l)),
                 ci_files = ci_files c + of_nat (length (regular_files l)),
                 ci_size = ci_size c + (if fv_version F > 0 then \<Sum>(p, e)\<leftarrow>regular_files l. d_size e else 0)\<rparr>)"
  shows "count_info_entries (get_file_count_info n F) (fv_version F) es 0 c
      = Some (0, \<lparr>ci_dirs = ci_dirs c + of_nat (length (sub_dirs l)),
                 ci_files = ci_files c + of_nat (length (regular_files l)),
                 ci_size = ci_size c + (if fv_version F > 0 then \<Sum>(p, e)\<leftarrow>regular_files l. d_size e else 0)\<rparr>)"
  using assms(1)
proof (induction es arbitrary: c l)
  case (Cons e es)
  from Cons.prems(1) obtain sub rest where r: "collect_entries (tree_entries n F) path es = Some rest"
    "l = (path @ ''/'' @ d_name e, e) # sub @ rest"
    "if S_ISDIR (d_mode e) then tree_entries n F (path @ ''/'' @ d_name e) (d_id e) = Some sub else sub = []"
    by (rule collect_entries_ConsE)
  show ?case
    using Cons.IH [OF r(1)] IH [of "path @ ''/'' @ d_name e" "d_id e" sub] r(2,3) not_reg_and_dir
    by (auto simp: entry_lists algebra_simps split: if_splits)
qed (simp add: entry_lists)

text \<open>\<open>get_file_count_info\<close> adds the numbers of sub-directories and of regular files of the tree and,
  for version 1 repositories, the sum of the file sizes to its counters, and returns 0, when every
  directory of the tree can be read within the fuel.\<close>

theorem get_file_count_info_counts:
  assumes "tree_entries n F path i = Some l"
  shows "get_file_count_info n F i c
      = Some (0, \<lparr>ci_dirs = ci_dirs c + of_nat (length (sub_dirs l)),
                 ci_files = ci_files c + of_nat (length (regular_files l)),
                 ci_size = ci_size c + (if fv_version F > 0 then \<Sum>(p, e)\<leftarrow>regular_files l. d_size e else 0)\<rparr>)"
  using assms
proof (induction n arbitrary: path i l c)
  case (Suc n)
  then obtain dir where "get_dir F i = Some dir" "collect_entries (tree_entries n F) path (entries dir) = Some l"
    by (auto split: option.splits)
  then show ?case
    using count_info_entries_ok [where path = path and es = "entries dir" and l = l and c = c, OF _ Suc.IH] by simp
qed simp

definition search_hits :: "string \<Rightarrow> (string \<times> dirent) list \<Rightarrow> search_result list" where
  "search_hits str l = map (\<lambda>(p, e). search_result_of p e) (filter (\<lambda>(p, e). strcasestr_found (d_name e) str) l)"

lemma search_entries_ok:
  assumes "collect_entries (tree_entries n F) path es = Some l"
    and IH: "\<And>p i l acc. tree_entries n F p i = Some l \<Longrightarrow>
      search_files_recursive n F str p i acc = Some (0, rev (search_hits str l) @ acc)"
  shows "search_entries (search_files_recursive n F str) path str es acc = Some (0, rev (search_hits str l) @ acc)"
  using assms(1)
proof (induction es arbitrary: acc l)
  case (Cons e es)
  from Cons.prems(1) obtain sub rest where r: "collect_entries (tree_entries n F) path es = Some rest"
    "l = (path @ ''/'' @ d_name e, e) # sub @ rest"
    "if S_ISDIR (d_mode e) then tree_entries n F (path @ ''/'' @ d_name e) (d_id e) = Some sub else sub = []"
    by (rule collect_entries_ConsE)
  show ?case
    using Cons.IH [OF r(1)] IH [of "path @ ''/'' @ d_name e" "d_id e" sub] r(2,3)
    by (auto simp: search_hits_def Let_def split: if_splits)
qed (simp add: search_hits_def)

text \<open>\<open>search_files_recursive\<close> finds exactly the entries of the tree whose name contains the string
  up to case, each with its full path, prepended in the order of the walk.\<close>

theorem search_finds_matches:
  assumes "tree_entries n F path i = Some l"
  shows "search_files_recursive n F str path i acc = Some (0, rev (search_hits str l) @ acc)"
  using assms
proof (induction n arbitrary: path i l acc)
  case (Suc n)
  then obtain dir where "get_dir F i = Some dir" "collect_entries (tree_entries n F) path (entries dir) = Some l"
    by (auto split: option.splits)
  then show ?case
    using search_entries_ok [where path = path and es = "entries dir" and l = l and acc = acc, OF _ Suc.IH] by simp
qed simp

lemma demo_modes [simp]: "S_ISREG 0x81A4" "\<not> S_ISDIR 0x81A4" "S_ISDIR 0x4000" "\<not> S_ISREG 0x4000"
  by (simp_all add: S_ISREG_def S_ISDIR_def S_IFMT_def S_IFREG_def S_IFDIR_def)

lemma demo_dirent_simps [simp]:
  "d_mode (demo_dirent n m) = m" "d_name (demo_dirent n m) = n" "d_id (demo_dirent n m) = demo_file_id"
  "d_size (demo_dirent n m) = 0" "d_mtime (demo_dirent n m) = 0"
  by (simp_all add: demo_dirent_def demo_file_id_def)

lemma demo_tree: "tree_entries 1 demo_view [] demo_root_id = Some [(''/f'', demo_dirent ''f'' 0x81A4)]"
  by simp

theorem count_dir_files_counts_witness: "count_dir_files 1 demo_view demo_root_id = Some 1"
  using count_dir_files_counts [OF demo_tree] by (simp add: regular_files_def)

theorem get_file_count_info_counts_witness:
  "get_file_count_info 1 demo_view demo_root_id \<lparr>ci_dirs = 0, ci_files = 0, ci_size = 0\<rparr>
   = Some (0, \<lparr>ci_dirs = 0, ci_files = 1, ci_size = 0\<rparr>)"
  using get_file_count_info_counts [OF demo_tree, of "\<lparr>ci_dirs = 0, ci_files = 0, ci_size = 0\<rparr>"]
  by (simp add: entry_lists)

lemma demo_lower [simp]: "to_lower (CHR ''F'') = CHR ''f''" "to_lower (CHR ''f'') = CHR ''f''"
  by code_simp+

theorem search_finds_matches_witness:
  "search_files_recursive 1 demo_view ''F'' [] demo_root_id []
   = Some (0, [\<lparr>sr_path = ''/f'', sr_size = 0, sr_mtime = 0, sr_is_dir = False\<rparr>])"
  using search_finds_matches [OF demo_tree, of "''F''" "[]"]
  by (simp add: search_hits_def search_result_of_def)

text \<open>\<open>get_file_count_info\<close> forgets a failed sub-directory: whatever happened before, its result is
  that of the last sub-directory it lists, so it returns 0 when only that one could be read.\<close>

theorem get_file_count_info_last_only:
  assumes "get_dir F i = Some dir" "entries dir = es @ [e]" "S_ISDIR (d_mode e)"
    and "get_file_count_info (Suc n) F i c = Some (r, c')"
  shows "\<exists>d. get_file_count_info n F (d_id e) d = Some (r, c')"
proof -
  have "count_info_entries walk v (es @ [e]) s b = Some (r, c') \<Longrightarrow> \<exists>d. walk (d_id e) d = Some (r, c')"
    for walk v s b
    using assms(3) not_dir_and_reg
    by (induction es arbitrary: s b) (auto split: option.splits if_splits)
  then show ?thesis using assms by simp
qed

definition broken_view :: fs_view where
  "broken_view = demo_view\<lparr>fv_store := \<lparr>obj_dir = [], files = (\<lambda>p.
     if p = id_to_path [] demo_root_id [] then
       Some (seaf_dir_to_v0_data \<lparr>dir_version = 0, dir_id = [],
         entries = [demo_dirent ''x'' 0x4000, (demo_dirent ''y'' 0x4000)\<lparr>d_id := EMPTY_SHA1\<rparr>],
         ondisk = None\<rparr>)
     else None), disk_ok = (\<lambda>_. True)\<rparr>\<rparr>"

lemma empty_id_valid [simp]: "is_object_id_valid EMPTY_SHA1"
  by (simp add: is_object_id_valid_def EMPTY_SHA1_def list_all_iff less_eq_char_def)

lemma broken_view_get [simp]:
  "get_dir broken_view demo_root_id = Some \<lparr>dir_version = 0, dir_id = demo_root_id,
     entries = [demo_dirent ''x'' 0x4000, (demo_dirent ''y'' 0x4000)\<lparr>d_id := EMPTY_SHA1\<rparr>],
     ondisk = None\<rparr>"
  "get_dir broken_view demo_file_id = None"
  "get_dir broken_view EMPTY_SHA1 = Some \<lparr>dir_version = 0, dir_id = EMPTY_SHA1, entries = [], ondisk = None\<rparr>"
  by (simp_all add: broken_view_def demo_view_def seaf_fs_manager_get_seafdir_def obj_store_defs
      seaf_dir_from_data_def dir_v0_decode dirent_v0_ok_def name_ok_def demo_dirent_def)

theorem get_file_count_info_last_only_witness:
  "get_dir broken_view demo_file_id = None \<and>
   (\<exists>c' d. get_file_count_info 2 broken_view demo_root_id \<lparr>ci_dirs = 0, ci_files = 0, ci_size = 0\<rparr>
      = Some (0, c') \<and> get_file_count_info 1 broken_view EMPTY_SHA1 d = Some (0, c'))"
  using get_file_count_info_last_only [of broken_view demo_root_id _ "[demo_dirent ''x'' 0x4000]"
      "(demo_dirent ''y'' 0x4000)\<lparr>d_id := EMPTY_SHA1\<rparr>" 1 "\<lparr>ci_dirs = 0, ci_files = 0, ci_size = 0\<rparr>"]
  by (simp add: eval_nat_numeral)

section \<open>Paths\<close>

lemma lookup_dirs_append:
  "lookup_dirs F dir (p @ q) =
     (case lookup_dirs F dir p of Inl e \<Rightarrow> Inl e | Inr d \<Rightarrow> lookup_dirs F d q)"
  by (induction F dir p rule: lookup_dirs.induct) (auto split: option.splits)

lemma by_path_append:
  assumes "seaf_fs_manager_get_seafdir_by_path F root p = Inr d"
  shows "seaf_fs_manager_get_seafdir_by_path F root (p @ CHR ''/'' # q) = lookup_dirs F d (strtok_all (CHR ''/'') q)"
  using assms
  by (auto simp: seaf_fs_manager_get_seafdir_by_path_def strtok_all_append lookup_dirs_append
      split: option.splits)

lemma strip_slashes_id: "s \<noteq> [] \<Longrightarrow> last s \<noteq> CHR ''/'' \<Longrightarrow> strip_slashes s = s"
  by (cases s rule: rev_cases) (simp_all add: strip_slashes_def)

lemma find_unique:
  "distinct (map f xs) \<Longrightarrow> x \<in> set xs \<Longrightarrow> P x \<Longrightarrow> (\<And>y. P y \<Longrightarrow> f y = f x) \<Longrightarrow> find P xs = Some x"
proof (induction xs)
  case (Cons a xs)
  have 1: "f a = f x" if "P a" using that by (rule Cons.prems(4))
  have "a = x" if "P a" using 1 [OF that] Cons.prems(1,2) by (auto simp: image_iff)
  moreover have "find P xs = Some x" if "\<not> P a"
    using Cons.prems(1-3) that by (intro Cons.IH Cons.prems(4)) auto
  ultimately show ?case by auto
qed simp

text \<open>One step down a path: if a directory is found at a path and its entry names are distinct, an
  entry of it with a valid id is found under the path extended by its name, by
  \<open>seaf_fs_manager_path_to_obj_id\<close> with its id and mode and, when it is a directory, by
  \<open>seaf_fs_manager_get_seafdir_by_path\<close> as the directory with that id.\<close>

theorem path_step:
  assumes base: "seaf_fs_manager_get_seafdir_by_path F root p = Inr dir"
    and e: "distinct (map d_name (entries dir))" "e \<in> set (entries dir)" "is_object_id_valid (d_id e)"
    and name: "d_name e \<noteq> []" "CHR ''/'' \<notin> set (d_name e)"
  shows "seaf_fs_manager_path_to_obj_id F root (p @ CHR ''/'' # d_name e) = Inr (Some (d_id e, d_mode e)) \<and>
    (S_ISDIR (d_mode e) \<longrightarrow> seaf_fs_manager_get_seafdir_by_path F root (p @ CHR ''/'' # d_name e) =
      (case get_dir F (d_id e) of None \<Rightarrow> Inl SEAF_ERR_DIR_MISSING | Some d \<Rightarrow> Inr d))"
proof -
  have "last (d_name e) \<noteq> CHR ''/''" using name last_in_set by metis
  then have s: "strip_slashes (p @ CHR ''/'' # d_name e) = p @ CHR ''/'' # d_name e"
    using name(1) by (intro strip_slashes_id) simp_all
  have split: "strrchr_split (CHR ''/'') (p @ CHR ''/'' # d_name e) = (p, Some (d_name e))"
    using name(2) by (simp add: strrchr_split_def)
  have "find (\<lambda>x. is_object_id_valid (d_id x) \<and> d_name x = d_name e) (entries dir) = Some e"
    by (rule find_unique [where f = d_name]) (use e in auto)
  moreover have "find (\<lambda>x. d_name x = d_name e \<and> S_ISDIR (d_mode x)) (entries dir) = Some e"
    if "S_ISDIR (d_mode e)"
    by (rule find_unique [where f = d_name]) (use e that in auto)
  ultimately show ?thesis
    using base name
    by (simp add: seaf_fs_manager_path_to_obj_id_def s split by_path_append strtok_all_simple
        split: option.split)
qed

theorem path_step_witness:
  "seaf_fs_manager_path_to_obj_id demo_view demo_root_id ''/f'' = Inr (Some (demo_file_id, 0x81A4))"
  using path_step [of demo_view demo_root_id "[]" _ "demo_dirent ''f'' 0x81A4"]
  by (simp add: seaf_fs_manager_get_seafdir_by_path_def)

text \<open>Looking up a path under the directory found at another path is looking up the two paths
  joined by a slash.\<close>

theorem seafdir_by_path_join:
  assumes "seaf_fs_manager_get_seafdir_by_path F root p = Inr d"
    and "get_dir F i = Some d"
  shows "seaf_fs_manager_get_seafdir_by_path F root (p @ ''/'' @ q) = seaf_fs_manager_get_seafdir_by_path F i q"
  using by_path_append [OF assms(1)] assms(2) by (simp add: seaf_fs_manager_get_seafdir_by_path_def)

theorem seafdir_by_path_join_witness:
  "seaf_fs_manager_get_seafdir_by_path demo_view demo_root_id (''/'' @ ''/'' @ ''g'')
   = seaf_fs_manager_get_seafdir_by_path demo_view demo_root_id ''g''"
  by (rule seafdir_by_path_join)
     (simp_all add: seaf_fs_manager_get_seafdir_by_path_def strtok_all_def)

end
