(* ===== verification/BlockMgr.thy ===== *)
theory BlockMgr
  imports ObjStore
begin

text \<open>
  The block manager (\<open>common/block-mgr.c\<close>) over its file system backend
  (\<open>common/block-backend-fs.c\<close>): handles that read a block or write a new one through a temporary
  file, the commit that renames it, and the operations on whole blocks and stores.  Writing a block
  through a handle is a second implementation of the interface \<open>object_store\<close>.
\<close>

section \<open>The backend\<close>

text \<open>
  The state: the directory of the blocks, the block files by path, and as the behaviour of the file
  system: where directories can be made, linked and renamed into (\<open>bk_disk_ok\<close>), the blocks that cannot
  be opened, those whose reading fails, and for those whose writing fails the number of bytes written.
\<close>

record block_store =
  bk_dir :: string
  bk_files :: "string \<Rightarrow> bytes option"
  bk_disk_ok :: "string \<Rightarrow> bool"
  bk_open_ok :: "string \<Rightarrow> bool"
  bk_read_ok :: "string \<Rightarrow> bool"
  bk_write_fails :: "string \<Rightarrow> nat option"

datatype rw_type = BLOCK_READ | BLOCK_WRITE

text \<open>
  A handle, with the contents of its file descriptor and the position in it: for reading the block as it
  was opened, for writing what the temporary file holds so far.
\<close>

record block_handle =
  bh_store_id :: string
  bh_block_id :: string
  bh_rw_type :: rw_type
  bh_data :: bytes
  bh_pos :: nat

definition get_block_path :: "block_store \<Rightarrow> string \<Rightarrow> string \<Rightarrow> string" where
  "get_block_path st block_sha1 store_id =
     bk_dir st @ ''/'' @ store_id @ ''/'' @ take 2 block_sha1 @ ''/'' @ take 39 (drop 2 block_sha1)"

definition block_backend_fs_open_block ::
    "block_store \<Rightarrow> string \<Rightarrow> string \<Rightarrow> rw_type \<Rightarrow> block_handle option" where
  "block_backend_fs_open_block st store_id block_id rw_type =
     (if length block_id \<noteq> 40 then None
      else
        (case rw_type of
           BLOCK_READ \<Rightarrow>
             (case bk_files st (get_block_path st block_id store_id) of
                None \<Rightarrow> None
              | Some d \<Rightarrow>
                  if \<not> bk_open_ok st block_id then None
                  else Some \<lparr>bh_store_id = store_id, bh_block_id = block_id, bh_rw_type = BLOCK_READ,
                         bh_data = d, bh_pos = 0\<rparr>)
         | BLOCK_WRITE \<Rightarrow>
             if \<not> bk_open_ok st block_id then None
             else Some \<lparr>bh_store_id = store_id, bh_block_id = block_id, bh_rw_type = BLOCK_WRITE,
                    bh_data = [], bh_pos = 0\<rparr>))"

text \<open>\<open>readn\<close> returns less than \<open>len\<close> bytes only at the end; None is a negative result.\<close>

definition block_backend_fs_read_block ::
    "block_store \<Rightarrow> block_handle \<Rightarrow> nat \<Rightarrow> bytes option \<times> block_handle" where
  "block_backend_fs_read_block st h len =
     (if \<not> bk_read_ok st (bh_block_id h) then (None, h)
      else (let buf = take len (drop (bh_pos h) (bh_data h))
            in (Some buf, h\<lparr>bh_pos := bh_pos h + length buf\<rparr>)))"

definition block_backend_fs_write_block ::
    "block_store \<Rightarrow> block_handle \<Rightarrow> bytes \<Rightarrow> int \<times> block_handle" where
  "block_backend_fs_write_block st h buf =
     (case bk_write_fails st (bh_block_id h) of
        Some n \<Rightarrow> (-1, h\<lparr>bh_data := bh_data h @ take n buf\<rparr>)
      | None \<Rightarrow> (int (length buf), h\<lparr>bh_data := bh_data h @ buf\<rparr>))"

text \<open>The temporary file is renamed to the block's path; a failure leaves the blocks as they were.\<close>

definition block_backend_fs_commit_block :: "block_store \<Rightarrow> block_handle \<Rightarrow> int \<times> block_store" where
  "block_backend_fs_commit_block st h =
     (if bh_rw_type h \<noteq> BLOCK_WRITE then (-1, st)
      else (let path = get_block_path st (bh_block_id h) (bh_store_id h) in
            if bk_disk_ok st path then (0, st\<lparr>bk_files := (bk_files st)(path \<mapsto> bh_data h)\<rparr>) else (-1, st)))"

definition block_backend_fs_block_exists :: "block_store \<Rightarrow> string \<Rightarrow> string \<Rightarrow> bool" where
  "block_backend_fs_block_exists st store_id block_sha1 =
     (bk_files st (get_block_path st block_sha1 store_id) \<noteq> None)"

definition block_backend_fs_remove_block :: "block_store \<Rightarrow> string \<Rightarrow> string \<Rightarrow> int \<times> block_store" where
  "block_backend_fs_remove_block st store_id block_id =
     (let path = get_block_path st block_id store_id in
      if bk_files st path = None then (-1, st)
      else (0, st\<lparr>bk_files := (bk_files st)(path := None)\<rparr>))"

record block_metadata =
  bmd_id :: string
  bmd_size :: u32

definition block_backend_fs_stat_block :: "block_store \<Rightarrow> string \<Rightarrow> string \<Rightarrow> block_metadata option" where
  "block_backend_fs_stat_block st store_id block_id =
     (case bk_files st (get_block_path st block_id store_id) of
        None \<Rightarrow> None
      | Some d \<Rightarrow> Some \<lparr>bmd_id = take 40 block_id, bmd_size = of_nat (length d)\<rparr>)"

definition block_backend_fs_stat_block_by_handle :: "block_handle \<Rightarrow> block_metadata" where
  "block_backend_fs_stat_block_by_handle h =
     \<lparr>bmd_id = take 40 (bh_block_id h), bmd_size = of_nat (length (bh_data h))\<rparr>"

text \<open>The ids in the order the directories list them; the callback's FALSE ends the walk.\<close>

fun block_backend_fs_foreach_block ::
    "string list \<Rightarrow> (string \<Rightarrow> 'u \<Rightarrow> bool \<times> 'u) \<Rightarrow> 'u \<Rightarrow> int \<times> 'u" where
  "block_backend_fs_foreach_block [] process u = (0, u)"
| "block_backend_fs_foreach_block (block_id # ids) process u =
     (case process block_id u of
        (False, u') \<Rightarrow> (0, u')
      | (True, u') \<Rightarrow> block_backend_fs_foreach_block ids process u')"

definition block_backend_fs_copy :: "block_store \<Rightarrow> string \<Rightarrow> string \<Rightarrow> string \<Rightarrow> int \<times> block_store" where
  "block_backend_fs_copy st src_store_id dst_store_id block_id =
     (let src_path = get_block_path st block_id src_store_id;
          dst_path = get_block_path st block_id dst_store_id
      in if bk_files st dst_path \<noteq> None then (0, st)
         else (case bk_files st src_path of
                 None \<Rightarrow> (-1, st)
               | Some d \<Rightarrow>
                   if bk_disk_ok st dst_path then (0, st\<lparr>bk_files := (bk_files st)(dst_path \<mapsto> d)\<rparr>)
                   else (-1, st)))"

definition block_backend_fs_remove_store :: "block_store \<Rightarrow> string \<Rightarrow> int \<times> block_store" where
  "block_backend_fs_remove_store st store_id =
     (0, st\<lparr>bk_files := (\<lambda>p. if in_store (bk_dir st) store_id p then None else bk_files st p)\<rparr>)"

section \<open>The manager\<close>

definition seaf_block_manager_open_block ::
    "libs \<Rightarrow> block_store \<Rightarrow> string \<Rightarrow> string \<Rightarrow> rw_type \<Rightarrow> block_handle option" where
  "seaf_block_manager_open_block L st store_id block_id rw_type =
     (if \<not> is_uuid_valid L store_id \<or> \<not> is_object_id_valid block_id then None
      else block_backend_fs_open_block st store_id block_id rw_type)"

definition seaf_block_manager_read_block ::
    "block_store \<Rightarrow> block_handle \<Rightarrow> nat \<Rightarrow> bytes option \<times> block_handle" where
  "seaf_block_manager_read_block st h len = block_backend_fs_read_block st h len"

definition seaf_block_manager_write_block :: "block_store \<Rightarrow> block_handle \<Rightarrow> bytes \<Rightarrow> int \<times> block_handle" where
  "seaf_block_manager_write_block st h buf = block_backend_fs_write_block st h buf"

definition seaf_block_manager_commit_block :: "block_store \<Rightarrow> block_handle \<Rightarrow> int \<times> block_store" where
  "seaf_block_manager_commit_block st h = block_backend_fs_commit_block st h"

definition seaf_block_manager_block_exists :: "libs \<Rightarrow> block_store \<Rightarrow> string \<Rightarrow> string \<Rightarrow> bool" where
  "seaf_block_manager_block_exists L st store_id block_id =
     (if \<not> is_uuid_valid L store_id \<or> \<not> is_object_id_valid block_id then False
      else block_backend_fs_block_exists st store_id block_id)"

definition seaf_block_manager_remove_block :: "libs \<Rightarrow> block_store \<Rightarrow> string \<Rightarrow> string \<Rightarrow> int \<times> block_store" where
  "seaf_block_manager_remove_block L st store_id block_id =
     (if \<not> is_uuid_valid L store_id \<or> \<not> is_object_id_valid block_id then (-1, st)
      else block_backend_fs_remove_block st store_id block_id)"

definition seaf_block_manager_stat_block ::
    "libs \<Rightarrow> block_store \<Rightarrow> string \<Rightarrow> string \<Rightarrow> block_metadata option" where
  "seaf_block_manager_stat_block L st store_id block_id =
     (if \<not> is_uuid_valid L store_id \<or> \<not> is_object_id_valid block_id then None
      else block_backend_fs_stat_block st store_id block_id)"

definition seaf_block_manager_foreach_block ::
    "string list \<Rightarrow> (string \<Rightarrow> 'u \<Rightarrow> bool \<times> 'u) \<Rightarrow> 'u \<Rightarrow> int \<times> 'u" where
  "seaf_block_manager_foreach_block ids process u = block_backend_fs_foreach_block ids process u"

definition seaf_block_manager_copy_block ::
    "libs \<Rightarrow> block_store \<Rightarrow> string \<Rightarrow> string \<Rightarrow> string \<Rightarrow> int \<times> block_store" where
  "seaf_block_manager_copy_block L st src_store_id dst_store_id block_id =
     (if strcmp block_id EMPTY_SHA1 = 0 then (0, st)
      else if seaf_block_manager_block_exists L st dst_store_id block_id then (0, st)
      else block_backend_fs_copy st src_store_id dst_store_id block_id)"

definition get_block_number :: "string \<Rightarrow> u64 \<Rightarrow> bool \<times> u64" where
  "get_block_number block_id n_blocks = (True, n_blocks + 1)"

definition seaf_block_manager_get_block_number :: "string list \<Rightarrow> u64" where
  "seaf_block_manager_get_block_number ids = snd (seaf_block_manager_foreach_block ids get_block_number 0)"

text \<open>The loop of \<open>verify_block\<close>, with the bytes given to \<open>SHA1_Update\<close> so far; None is a failed read.\<close>

function verify_read :: "block_store \<Rightarrow> block_handle \<Rightarrow> bytes \<Rightarrow> bytes option" where
  "verify_read st h ctx =
     (case seaf_block_manager_read_block st h 10240 of
        (None, _) \<Rightarrow> None
      | (Some buf, h') \<Rightarrow> if buf = [] then Some ctx else verify_read st h' (ctx @ buf))"
  by auto
termination
  by (relation "measure (\<lambda>(_, h, _). length (bh_data h) - bh_pos h)")
    (auto simp: seaf_block_manager_read_block_def block_backend_fs_read_block_def Let_def split: if_splits)

declare verify_read.simps [simp del]

text \<open>The verdict; None is FALSE with \<open>*io_error\<close> set.\<close>

definition seaf_block_manager_verify_block ::
    "libs \<Rightarrow> block_store \<Rightarrow> string \<Rightarrow> string \<Rightarrow> bool option" where
  "seaf_block_manager_verify_block L st store_id block_id =
     (case seaf_block_manager_open_block L st store_id block_id BLOCK_READ of
        None \<Rightarrow> None
      | Some h \<Rightarrow>
          (case verify_read st h [] of
             None \<Rightarrow> None
           | Some ctx \<Rightarrow> Some (strcmp (sha1_hex L ctx) block_id = 0)))"

definition seaf_block_manager_remove_store :: "block_store \<Rightarrow> string \<Rightarrow> int \<times> block_store" where
  "seaf_block_manager_remove_store st store_id = block_backend_fs_remove_store st store_id"

section \<open>Whole blocks\<close>

text \<open>Reading a block to its end, and writing one: open, write, close, commit.\<close>

definition read_block :: "libs \<Rightarrow> block_store \<Rightarrow> string \<Rightarrow> string \<Rightarrow> bytes option" where
  "read_block L st store_id block_id =
     (if is_uuid_valid L store_id \<and> is_object_id_valid block_id
      then bk_files st (get_block_path st block_id store_id) else None)"

definition write_block :: "libs \<Rightarrow> block_store \<Rightarrow> string \<Rightarrow> string \<Rightarrow> bytes \<Rightarrow> int \<times> block_store" where
  "write_block L st store_id block_id content =
     (case seaf_block_manager_open_block L st store_id block_id BLOCK_WRITE of
        None \<Rightarrow> (-1, st)
      | Some h \<Rightarrow>
          (case seaf_block_manager_write_block st h content of
             (n, h') \<Rightarrow>
               if n < 0 then (-1, st)
               else (case seaf_block_manager_commit_block st h' of
                       (r, st') \<Rightarrow> if r < 0 then (-1, st') else (0, st'))))"

lemmas block_manager_defs =
  seaf_block_manager_open_block_def block_backend_fs_open_block_def seaf_block_manager_write_block_def
  block_backend_fs_write_block_def seaf_block_manager_commit_block_def block_backend_fs_commit_block_def
  seaf_block_manager_block_exists_def block_backend_fs_block_exists_def

text \<open>With an id of forty characters a block's path is that of an object of the same id.\<close>

lemma block_path: "length i = 40 \<Longrightarrow> get_block_path st i r = id_to_path (bk_dir st) i r"
  by (simp add: get_block_path_def id_to_path_def)

lemma block_path_eq:
  "is_object_id_valid i \<Longrightarrow> is_object_id_valid j \<Longrightarrow> get_block_path st i r = get_block_path st j s \<longleftrightarrow> i = j \<and> r = s"
  using id_to_path_inj [of i j "bk_dir st" r s] by (auto simp: block_path id_valid_length)

lemma write_block_cases:
  "write_block L st r i d = (e, st') \<Longrightarrow>
     (e = 0 \<and> is_uuid_valid L r \<and> is_object_id_valid i \<and>
        st' = st\<lparr>bk_files := (bk_files st)(get_block_path st i r \<mapsto> d)\<rparr>) \<or> (e = -1 \<and> st' = st)"
  by (auto simp: write_block_def block_manager_defs Let_def split: if_splits option.splits)

interpretation blocks: object_store
  "read_block L" "write_block L" "seaf_block_manager_block_exists L" "store_args_ok L" for L
proof (unfold_locales, goal_cases)
  case (1 s r i d s')
  then show ?case using write_block_cases by (fastforce simp: read_block_def get_block_path_def)
next
  case (2 s r i d s' q j)
  then show ?case
    using write_block_cases [OF 2(1)] block_path_eq [of i j s r q]
    by (auto simp: read_block_def get_block_path_def)
next
  case (3 s r i d e s')
  then show ?case using write_block_cases by fastforce
next
  case (4 s r i d s')
  then show ?case using write_block_cases by (fastforce simp: store_args_ok_def)
next
  case (5 s r i)
  then show ?case by (auto simp: read_block_def block_manager_defs)
qed

lemma verify_read_all:
  "bk_read_ok st (bh_block_id h) \<Longrightarrow> bh_pos h \<le> length (bh_data h) \<Longrightarrow>
   verify_read st h ctx = Some (ctx @ drop (bh_pos h) (bh_data h))"
proof (induction st h ctx rule: verify_read.induct)
  case (1 st h ctx)
  let ?buf = "take 10240 (drop (bh_pos h) (bh_data h))"
  have read: "seaf_block_manager_read_block st h 10240 = (Some ?buf, h\<lparr>bh_pos := bh_pos h + length ?buf\<rparr>)"
    using 1(2) by (simp add: seaf_block_manager_read_block_def block_backend_fs_read_block_def Let_def)
  show ?case
  proof (cases "?buf = []")
    case True
    then show ?thesis using 1(3) by (simp add: verify_read.simps [of st h] read)
  next
    case False
    have "verify_read st (h\<lparr>bh_pos := bh_pos h + length ?buf\<rparr>) (ctx @ ?buf)
        = Some ((ctx @ ?buf) @ drop (bh_pos h + length ?buf) (bh_data h))"
      using 1(1) [OF read [symmetric] refl] 1(2,3) False by simp
    moreover have "?buf @ drop (bh_pos h + length ?buf) (bh_data h) = drop (bh_pos h) (bh_data h)"
      by (metis append_take_drop_id drop_drop add.commute length_take drop_all length_drop min_def nat_le_linear
          take_all)
    ultimately show ?thesis using False by (simp add: verify_read.simps [of st h] read)
  qed
qed

text \<open>C14: Verifying a block reads it to the end and compares its hash with its id: for a block that can be
  opened and read, the verdict is whether the SHA-1 of the whole content, in hexadecimal, is the id.\<close>

theorem verify_block_checks_content:
  assumes "read_block L st r i = Some d" "bk_open_ok st i" "bk_read_ok st i"
  shows "seaf_block_manager_verify_block L st r i = Some (sha1_hex L d = i)"
proof -
  obtain h where h: "seaf_block_manager_open_block L st r i BLOCK_READ = Some h" "bh_pos h = 0" "bh_data h = d"
      "bh_block_id h = i"
    using assms(1,2) by (auto simp: read_block_def block_manager_defs id_valid_length split: if_splits)
  then show ?thesis
    using verify_read_all [of st h "[]"] assms(3) by (simp add: seaf_block_manager_verify_block_def)
qed

section \<open>A store with one block\<close>

definition demo_blibs :: libs where
  "demo_blibs = \<lparr>lib_sha1 = (\<lambda>d. replicate 20 (if d = ''x'' then CHR 0xAA else CHR 0xBB)), lib_json_dumps = (\<lambda>_. []),
     lib_json_loadb = (\<lambda>_. None), lib_compress = Some, lib_decompress = Some, lib_uuid_parse = (\<lambda>_. True)\<rparr>"

definition demo_brepo :: string where "demo_brepo = replicate 36 (CHR ''r'')"
definition demo_bid :: "char \<Rightarrow> string" where "demo_bid c = replicate 40 c"

definition demo_blocks :: block_store where
  "demo_blocks = \<lparr>bk_dir = ''b'', bk_files = [''b/'' @ demo_brepo @ ''/'' @ replicate 2 (CHR ''a'') @ ''/'' @ replicate 38 (CHR ''a'') \<mapsto> ''x''],
     bk_disk_ok = (\<lambda>_. True), bk_open_ok = (\<lambda>_. True), bk_read_ok = (\<lambda>_. True), bk_write_fails = (\<lambda>_. None)\<rparr>"

lemma demo_blocks_read: "read_block demo_blibs demo_blocks demo_brepo (demo_bid (CHR ''a'')) = Some ''x''"
  by (simp add: read_block_def get_block_path_def demo_blocks_def demo_bid_def demo_brepo_def demo_blibs_def
      is_object_id_valid_def is_uuid_valid_def list_all_length)

theorem verify_block_checks_content_witness:
  "seaf_block_manager_verify_block demo_blibs demo_blocks demo_brepo (demo_bid (CHR ''a'')) = Some True"
proof -
  have "rawdata_to_hex (replicate 20 (CHR 0xAA)) = replicate 40 (CHR ''a'')" by code_simp
  then have "sha1_hex demo_blibs ''x'' = demo_bid (CHR ''a'')"
    by (simp add: sha1_hex_def demo_blibs_def demo_bid_def)
  then show ?thesis
    using verify_block_checks_content [OF demo_blocks_read] by (simp add: demo_blocks_def)
qed

end
