(* ===== verification/RepoMgr.thy ===== *)
theory RepoMgr
  imports CommitMgr BranchMgr FsTree BlockMgr
begin

text \<open>
  Repositories (\<open>server/repo-mgr.c\<close>): the repository object, how it is read from the tables and its
  head commit, and how its settings go into a new commit.  \<open>session\<close> is the state the managers
  share: the tables, the commit store and the fs store.
\<close>

section \<open>Repository objects\<close>

record virt_info =
  vi_origin_repo :: string
  vi_path :: string
  vi_base_commit :: string

text \<open>\<open>SeafRepo\<close>; the fixed buffers are the strings in them.\<close>

record repo =
  rp_id :: string
  rp_name :: "string option"
  rp_desc :: "string option"
  rp_last_modifier :: "string option"
  rp_encrypted :: bool
  rp_enc_version :: int
  rp_magic :: string
  rp_random_key :: string
  rp_salt :: string
  rp_no_local_history :: bool
  rp_last_modify :: u64
  rp_head :: branch
  rp_root_id :: string
  rp_repaired :: bool
  rp_virtual :: "virt_info option"
  rp_version :: int
  rp_store_id :: string

definition seaf_repo_new :: "string \<Rightarrow> string option \<Rightarrow> string option \<Rightarrow> branch \<Rightarrow> repo" where
  "seaf_repo_new i name description head =
     \<lparr>rp_id = take 36 i, rp_name = name, rp_desc = description, rp_last_modifier = None, rp_encrypted = False,
      rp_enc_version = 0, rp_magic = [], rp_random_key = [], rp_salt = [], rp_no_local_history = False,
      rp_last_modify = 0, rp_head = head, rp_root_id = [], rp_repaired = False, rp_virtual = None,
      rp_version = 0, rp_store_id = []\<rparr>"

text \<open>The encryption parameters, copied by version in both directions.\<close>

definition seaf_repo_from_commit :: "repo \<Rightarrow> commit \<Rightarrow> repo" where
  "seaf_repo_from_commit r c =
     (let r = r\<lparr>rp_name := repo_name c, rp_desc := repo_desc c, rp_encrypted := encrypted c,
                rp_repaired := repaired c, rp_last_modify := ctime c, rp_root_id := take 40 (root_id c)\<rparr>;
          r = (if encrypted c then
                 (let r = r\<lparr>rp_enc_version := enc_version c\<rparr> in
                  if enc_version c = 1 then r\<lparr>rp_magic := take 32 (dflt (magic c))\<rparr>
                  else if enc_version c = 2 then
                    r\<lparr>rp_magic := take 64 (dflt (magic c)), rp_random_key := take 96 (dflt (random_key c))\<rparr>
                  else if enc_version c = 3 \<or> enc_version c = 4 then
                    r\<lparr>rp_magic := take 64 (dflt (magic c)), rp_random_key := take 96 (dflt (random_key c)),
                      rp_salt := take 64 (dflt (salt c))\<rparr>
                  else r)
               else r)
      in r\<lparr>rp_no_local_history := no_local_history c, rp_version := co_version c,
           rp_last_modifier := creator_name c\<rparr>)"

definition seaf_repo_to_commit :: "repo \<Rightarrow> commit \<Rightarrow> commit" where
  "seaf_repo_to_commit r c =
     (let c = c\<lparr>repo_name := rp_name r, repo_desc := rp_desc r, encrypted := rp_encrypted r,
                repaired := rp_repaired r\<rparr>;
          c = (if rp_encrypted r then
                 (let c = c\<lparr>enc_version := rp_enc_version r\<rparr> in
                  if rp_enc_version r = 1 then c\<lparr>magic := Some (rp_magic r)\<rparr>
                  else if rp_enc_version r = 2 then
                    c\<lparr>magic := Some (rp_magic r), random_key := Some (rp_random_key r)\<rparr>
                  else if rp_enc_version r = 3 \<or> rp_enc_version r = 4 then
                    c\<lparr>magic := Some (rp_magic r), random_key := Some (rp_random_key r),
                      salt := Some (rp_salt r)\<rparr>
                  else c)
               else c)
      in c\<lparr>no_local_history := rp_no_local_history r, co_version := rp_version r\<rparr>)"

section \<open>The session\<close>

text \<open>
  The tables Repo, VirtualRepo, RepoOwner, RepoSize (size and head) and RepoFileCount, the branch table, the
  commit store, the stores of fs objects and of blocks, and the background work that was asked for.
  \<open>ss_fails\<close> says which kinds of statement the database refuses.
\<close>

datatype table_query =
    Q_VIRT_SELECT | Q_VIRT_ORIGIN | Q_VIRT_PATH | Q_VIRT_INSERT | Q_VIRT_UPDATE | Q_VIRT_DELETE
  | Q_REPO_INSERT | Q_REPO_DELETE | Q_OWNER_SELECT | Q_OWNER_SET | Q_OWNED_REPOS | Q_USAGE
  | Q_SIZE_SELECT | Q_SIZE_SET | Q_COUNT_SELECT | Q_COUNT_SET | Q_BEGIN | Q_COMMIT

datatype session_event = MERGE_VIRTUAL_REPO string | COMPUTE_REPO_SIZE string

record session =
  ss_libs :: libs
  ss_searpc :: searpc
  ss_now :: u64
  ss_repos :: "string set"
  ss_virtual :: "(string \<times> virt_info) list"
  ss_owners :: "(string \<times> string) list"
  ss_sizes :: "string \<Rightarrow> (u64 \<times> string) option"
  ss_counts :: "string \<Rightarrow> u64 option"
  ss_fails :: "table_query \<Rightarrow> bool"
  ss_branches :: branch_db
  ss_commits :: obj_store
  ss_fs :: obj_store
  ss_blocks :: block_store
  ss_events :: "session_event list"

definition commits_of :: "session \<Rightarrow> string \<Rightarrow> commit_view" where
  "commits_of S repo = \<lparr>cv_libs = ss_libs S, cv_searpc = ss_searpc S, cv_store = ss_commits S,
     cv_repo = repo, cv_now = ss_now S\<rparr>"

definition fs_of :: "session \<Rightarrow> repo \<Rightarrow> fs_view" where
  "fs_of S r = \<lparr>fv_libs = ss_libs S, fv_store = ss_fs S, fv_repo = rp_store_id r, fv_version = rp_version r\<rparr>"

text \<open>
  The row of the join of Repo, Branch and VirtualRepo: a repository without a master branch has none,
  so the flag for a missing commit id is never set.
\<close>

definition get_repo_from_db :: "session \<Rightarrow> string \<Rightarrow> repo option" where
  "get_repo_from_db S i =
     (if bd_fails (ss_branches S) DB_SELECT \<or> i \<notin> ss_repos S then None
      else (case map_of (bd_rows (ss_branches S)) (i, ''master'') of
              None \<Rightarrow> None
            | Some commit \<Rightarrow>
                (let r = seaf_repo_new i None None (seaf_branch_new ''master'' i commit) in
                 case map_of (ss_virtual S) i of
                   None \<Rightarrow> Some (r\<lparr>rp_store_id := take 36 i\<rparr>)
                 | Some v \<Rightarrow> Some (r\<lparr>rp_virtual := Some v, rp_store_id := take 36 (vi_origin_repo v)\<rparr>))))"

text \<open>None is a repository whose head commit is missing.\<close>

definition load_repo :: "session \<Rightarrow> repo \<Rightarrow> repo option" where
  "load_repo S r =
     (case seaf_commit_manager_get_commit (commits_of S (rp_id r)) (br_commit_id (rp_head r)) of
        None \<Rightarrow> None
      | Some c \<Rightarrow> Some (seaf_repo_from_commit r c))"

definition seaf_repo_manager_get_repo :: "session \<Rightarrow> string \<Rightarrow> repo option" where
  "seaf_repo_manager_get_repo S i =
     (if length i \<ge> 37 then None
      else (case get_repo_from_db S i of None \<Rightarrow> None | Some r \<Rightarrow> load_repo S r))"

definition seaf_repo_manager_repo_exists :: "session \<Rightarrow> string \<Rightarrow> bool" where
  "seaf_repo_manager_repo_exists S i = (\<not> bd_fails (ss_branches S) DB_SELECT \<and> i \<in> ss_repos S)"

text \<open>The commits of all branches, in the order the traversals take them.\<close>

definition collect_commit :: "commit list commit_func" where
  "collect_commit c l = (True, False, c # l)"

fun collect_branch_commits ::
    "nat \<Rightarrow> commit_view \<Rightarrow> branch list \<Rightarrow> commit list \<Rightarrow> commit list option option" where
  "collect_branch_commits n V [] commits = Some (Some commits)"
| "collect_branch_commits n V (b # bs) commits =
     (case seaf_commit_manager_traverse_commit_tree n V (br_commit_id b) collect_commit commits False of
        None \<Rightarrow> None
      | Some (res, commits') \<Rightarrow> if \<not> res then Some None else collect_branch_commits n V bs commits')"

text \<open>A failure returns the list that was just freed; here the inner None.\<close>

definition seaf_repo_get_commits :: "nat \<Rightarrow> session \<Rightarrow> repo \<Rightarrow> commit list option option" where
  "seaf_repo_get_commits n S r =
     (case seaf_branch_manager_get_branch_list (ss_branches S) (rp_id r) of
        [] \<Rightarrow> Some (Some [])
      | bs \<Rightarrow>
          (case collect_branch_commits n (commits_of S (rp_id r)) bs [] of
             None \<Rightarrow> None
           | Some None \<Rightarrow> Some None
           | Some (Some commits) \<Rightarrow> Some (Some (rev commits))))"

definition SEAF_DIR_NAME_LEN :: nat where "SEAF_DIR_NAME_LEN = 256"

definition should_ignore_file :: "session \<Rightarrow> string \<Rightarrow> bool" where
  "should_ignore_file S filename =
     (if utf8_valid_prefix (ss_searpc S) filename < length filename then True
      else if length filename \<ge> SEAF_DIR_NAME_LEN then True
      else if CHR ''/'' \<in> set filename then True
      else False)"

section \<open>Properties\<close>

text \<open>The encryption buffers hold what their version demands.\<close>

definition repo_enc_ok :: "repo \<Rightarrow> bool" where
  "repo_enc_ok r \<longleftrightarrow>
     (rp_encrypted r \<longrightarrow> enc_ok (rp_enc_version r) (Some (rp_magic r)) (Some (rp_random_key r)) (Some (rp_salt r)))"

text \<open>C22: The settings of a repository survive a commit: written into a commit by \<open>seaf_repo_to_commit\<close> and
  read back from it into any repository object by \<open>seaf_repo_from_commit\<close>, the names, the encryption
  flag and version, the history flag and the repository version are the same, and so are the
  encryption parameters that the version has.\<close>

theorem repo_settings_survive_commit:
  assumes "repo_enc_ok r"
    and "r2 = seaf_repo_from_commit r' (seaf_repo_to_commit r c)"
  shows "rp_name r2 = rp_name r \<and> rp_desc r2 = rp_desc r \<and> rp_encrypted r2 = rp_encrypted r \<and>
    rp_no_local_history r2 = rp_no_local_history r \<and> rp_version r2 = rp_version r \<and>
    rp_repaired r2 = rp_repaired r \<and>
    (rp_encrypted r \<longrightarrow> rp_enc_version r2 = rp_enc_version r \<and>
       (rp_enc_version r \<ge> 1 \<longrightarrow> rp_magic r2 = rp_magic r) \<and>
       (rp_enc_version r \<ge> 2 \<longrightarrow> rp_random_key r2 = rp_random_key r) \<and>
       (rp_enc_version r \<ge> 3 \<longrightarrow> rp_salt r2 = rp_salt r))"
  using assms(1) unfolding assms(2)
  by (cases "rp_encrypted r")
    (auto simp: seaf_repo_from_commit_def seaf_repo_to_commit_def repo_enc_ok_def enc_ok_def opt_length_is_def
      dflt_def Let_def split: if_splits)

definition demo_repo :: repo where
  "demo_repo = (seaf_repo_new ''r'' (Some ''lib'') (Some []) (seaf_branch_new ''master'' ''r'' [])) \<lparr>rp_encrypted := True,
     rp_enc_version := 2, rp_magic := replicate 64 (CHR ''m''), rp_random_key := replicate 96 (CHR ''k''),
     rp_version := 1\<rparr>"

theorem repo_settings_survive_commit_witness:
  "rp_random_key (seaf_repo_from_commit (seaf_repo_new ''q'' None None (seaf_branch_new [] [] []))
     (seaf_repo_to_commit demo_repo demo_a)) = replicate 96 (CHR ''k'')"
proof -
  have "repo_enc_ok demo_repo"
    by (simp add: repo_enc_ok_def demo_repo_def seaf_repo_new_def enc_ok_def opt_length_is_def)
  from repo_settings_survive_commit [OF this refl] show ?thesis
    by (simp add: demo_repo_def seaf_repo_new_def)
qed

end
