(* ===== verification/NWay.thy ===== *)
theory NWay
  imports FsObject
begin

text \<open>
  The loop that \<open>diff-simple.c\<close> and \<open>merge-new.c\<close> share: walking two or three directories at once,
  each step takes the largest name at the head of a list and the entries of that name.  What the
  loop does with a step does not influence the next one, so the steps are a list of their own,
  \<open>nway_steps\<close>; over lists in descending name order there is one step for each name, holding what
  each directory has under it.
\<close>

fun first_name :: "dirent list list \<Rightarrow> string option \<Rightarrow> string option" where
  "first_name [] acc = acc"
| "first_name ([] # ptrs) acc = first_name ptrs acc"
| "first_name ((dent # ds) # ptrs) acc =
     first_name ptrs
       (case acc of
          None \<Rightarrow> Some (d_name dent)
        | Some n \<Rightarrow> if strcmp (d_name dent) n > 0 then Some (d_name dent) else Some n)"

definition take_head :: "string \<Rightarrow> dirent list \<Rightarrow> dirent option \<times> dirent list" where
  "take_head n ptr =
     (case ptr of
        [] \<Rightarrow> (None, [])
      | dent # ds \<Rightarrow> if strcmp n (d_name dent) = 0 then (Some dent, ds) else (None, ptr))"

lemma first_name_None: "first_name ptrs acc = None \<longleftrightarrow> acc = None \<and> (\<forall>p\<in>set ptrs. p = [])"
  by (induction ptrs acc rule: first_name.induct) (auto split: option.splits)

lemma first_name_head:
  "first_name ptrs acc = Some n \<Longrightarrow> acc = Some n \<or> (\<exists>p\<in>set ptrs. \<exists>d ds. p = d # ds \<and> d_name d = n)"
  by (induction ptrs acc rule: first_name.induct) (fastforce split: option.splits if_splits)+

lemma first_name_max:
  assumes "first_name ptrs acc = Some n"
  shows "(\<forall>m. acc = Some m \<longrightarrow> m \<le> n) \<and> (\<forall>p\<in>set ptrs. \<forall>d ds. p = d # ds \<longrightarrow> d_name d \<le> n)"
  using assms
proof (induction ptrs acc rule: first_name.induct)
  case (3 dent ds ptrs acc)
  then show ?case by (cases acc) (fastforce split: if_splits)+
qed auto

lemma take_head_length: "length (snd (take_head n p)) \<le> length p"
  by (auto simp: take_head_def split: list.splits)

lemma take_head_shorter:
  "p = d # ds \<Longrightarrow> d_name d = n \<Longrightarrow> length (snd (take_head n p)) < length p"
  by (simp add: take_head_def)

function nway_steps :: "dirent list list \<Rightarrow> dirent option list list" where
  "nway_steps ptrs =
     (case first_name ptrs None of
        None \<Rightarrow> []
      | Some n \<Rightarrow> map (\<lambda>p. fst (take_head n p)) ptrs # nway_steps (map (\<lambda>p. snd (take_head n p)) ptrs))"
  by pat_completeness auto
termination
proof (relation "measure (\<lambda>ptrs. sum_list (map length ptrs))")
  fix ptrs n assume "first_name ptrs None = Some n"
  then obtain p d ds where p: "p \<in> set ptrs" "p = d # ds" "d_name d = n"
    using first_name_head by blast
  have "sum_list (map (\<lambda>p. length (snd (take_head n p))) ptrs) < sum_list (map length ptrs)"
    using p(1)
  proof (induction ptrs)
    case (Cons q ptrs)
    have le: "sum_list (map (\<lambda>p. length (snd (take_head n p))) ptrs) \<le> sum_list (map length ptrs)"
      by (rule sum_list_mono) (rule take_head_length)
    show ?case
    proof (cases "p = q")
      case True
      then show ?thesis using le take_head_shorter [OF p(2,3)] by simp
    next
      case False
      then show ?thesis using Cons take_head_length [of n q] by (simp add: add_le_less_mono)
    qed
  qed simp
  then show "(map (\<lambda>p. snd (take_head n p)) ptrs, ptrs) \<in> measure (\<lambda>ptrs. sum_list (map length ptrs))"
    by (simp add: comp_def)
qed simp

declare nway_steps.simps [simp del]

lemma nway_steps_length: "g \<in> set (nway_steps ptrs) \<Longrightarrow> length g = length ptrs"
proof (induction ptrs rule: nway_steps.induct)
  case (1 ptrs)
  show ?case
    using 1 by (cases "first_name ptrs None") (auto simp: nway_steps.simps [of ptrs])
qed

section \<open>Steps over sorted lists\<close>

lemma take_head_sorted:
  assumes "desc_by d_name p" "\<forall>d ds. p = d # ds \<longrightarrow> d_name d \<le> n"
  shows "fst (take_head n p) = find_key d_name n p"
    and "desc_by d_name (snd (take_head n p))"
    and "d_name ` set (snd (take_head n p)) = d_name ` set p - {n}"
    and "m \<noteq> n \<Longrightarrow> find_key d_name m (snd (take_head n p)) = find_key d_name m p"
    and "x \<in> set (snd (take_head n p)) \<Longrightarrow> d_name x < n"
proof -
  show "fst (take_head n p) = find_key d_name n p"
  proof (cases p)
    case (Cons d ds)
    show ?thesis
    proof (cases "d_name d = n")
      case False
      then have "d_name d < n" using assms(2) Cons by (simp add: order.not_eq_order_implies_strict)
      then have "\<forall>x\<in>set p. d_name x \<noteq> n" using assms(1) Cons by auto
      then have "find_key d_name n p = None" by (auto simp: find_key_None)
      then show ?thesis using False Cons by (simp add: take_head_def)
    qed (simp add: take_head_def Cons)
  qed (simp add: take_head_def)
  show "desc_by d_name (snd (take_head n p))"
    using assms(1) by (auto simp: take_head_def split: list.splits)
  show lt: "x \<in> set (snd (take_head n p)) \<Longrightarrow> d_name x < n" for x
    using assms by (cases p) (fastforce simp: take_head_def order.not_eq_order_implies_strict split: if_splits)+
  show "d_name ` set (snd (take_head n p)) = d_name ` set p - {n}"
    using lt by (cases p) (fastforce simp: take_head_def split: if_splits)+
  show "m \<noteq> n \<Longrightarrow> find_key d_name m (snd (take_head n p)) = find_key d_name m p"
    by (auto simp: take_head_def split: list.splits)
qed

text \<open>
  One step for each name, in descending order of the names, with the entry every list has of it.
\<close>

definition step_of :: "dirent list list \<Rightarrow> string \<Rightarrow> dirent option list" where
  "step_of ptrs n = map (find_key d_name n) ptrs"

definition all_names :: "dirent list list \<Rightarrow> string set" where
  "all_names ptrs = (\<Union>p\<in>set ptrs. d_name ` set p)"

theorem nway_steps_sorted:
  assumes "list_all (desc_by d_name) ptrs"
  shows "\<exists>ns. nway_steps ptrs = map (step_of ptrs) ns \<and> set ns = all_names ptrs \<and>
    sorted_wrt (\<lambda>a b. b < a) ns"
  using assms
proof (induction ptrs rule: nway_steps.induct)
  case (1 ptrs)
  show ?case
  proof (cases "first_name ptrs None")
    case None
    then have "all_names ptrs = {}" by (auto simp: first_name_None all_names_def)
    then show ?thesis
      using None by (intro exI [of _ "[]"]) (simp add: nway_steps.simps)
  next
    case (Some n)
    let ?rest = "map (\<lambda>p. snd (take_head n p)) ptrs"
    have mx: "\<forall>p\<in>set ptrs. \<forall>d ds. p = d # ds \<longrightarrow> d_name d \<le> n"
      using first_name_max [OF Some] by blast
    have srt: "\<forall>p\<in>set ptrs. desc_by d_name p" using 1(2) by (simp add: list_all_iff)
    have mx': "\<forall>d ds. p = d # ds \<longrightarrow> d_name d \<le> n" if "p \<in> set ptrs" for p using mx that by blast
    note th = take_head_sorted [OF srt [rule_format] mx']
    have "list_all (desc_by d_name) ?rest" using th(2) by (auto simp: list_all_iff)
    from 1(1) [OF Some this] obtain ns where ns: "nway_steps ?rest = map (step_of ?rest) ns"
      "set ns = all_names ?rest" "sorted_wrt (\<lambda>a b. b < a) ns" by blast
    have an: "all_names ?rest = all_names ptrs - {n}" using th(3) by (auto simp: all_names_def)
    have same: "step_of ?rest m = step_of ptrs m" if "m \<in> set ns" for m
      using that ns(2) an th(4) by (simp add: step_of_def)
    have hd: "map (\<lambda>p. fst (take_head n p)) ptrs = step_of ptrs n" using th(1) by (simp add: step_of_def)
    obtain p d ds where p: "p \<in> set ptrs" "p = d # ds" "d_name d = n"
      using first_name_head [OF Some] by blast
    then have n: "n \<in> all_names ptrs" by (force simp: all_names_def)
    have lt: "m < n" if "m \<in> set ns" for m
      using that ns(2) th(5) by (auto simp: all_names_def)
    have "nway_steps ptrs = step_of ptrs n # map (step_of ptrs) ns"
      by (subst nway_steps.simps) (simp add: Some hd ns(1) same)
    then show ?thesis
      using ns n an lt by (intro exI [of _ "n # ns"]) auto
  qed
qed

lemma nway_steps_set:
  "list_all (desc_by d_name) ptrs \<Longrightarrow> set (nway_steps ptrs) = step_of ptrs ` all_names ptrs"
  using nway_steps_sorted [of ptrs] by auto

text \<open>Equal lists advance together: every step holds one entry everywhere.\<close>

lemma nway_steps_same:
  assumes "g \<in> set (nway_steps (replicate n l))" shows "\<exists>d\<in>set l. g = replicate n (Some d)"
proof (cases "n = 0")
  case True
  then show ?thesis using assms by (simp add: nway_steps.simps)
next
  case False
  then show ?thesis
    using assms
  proof (induction l)
    case Nil
    have "first_name (replicate n []) None = None" by (simp add: first_name_None)
    then show ?case using Nil by (simp add: nway_steps.simps)
  next
    case (Cons d l)
    have "first_name (replicate n (d # l)) None = Some (d_name d)"
    proof (cases "first_name (replicate n (d # l)) None")
      case None
      then show ?thesis using Cons.prems(1) by (simp add: first_name_None)
    next
      case (Some k)
      then show ?thesis using first_name_head [OF Some] by auto
    qed
    then have "nway_steps (replicate n (d # l)) = replicate n (Some d) # nway_steps (replicate n l)"
      by (subst nway_steps.simps) (simp add: take_head_def map_replicate_const)
    then show ?case using Cons by auto
  qed
qed

end
