(* ===== verification/DiffSimple.thy ===== *)
theory DiffSimple
  imports NWay FsTree
begin

text \<open>
  Comparing two or three trees (\<open>common/diff-simple.c\<close>): the generic walk with its file and
  directory callbacks, the two-way and three-way callbacks, the resolution of renames and of empty
  directories, and the textual results.  The walk's fuel bounds the depth, as in \<open>FsTree\<close>.
\<close>

section \<open>Diff entries\<close>

definition DIFF_TYPE_COMMITS :: char where "DIFF_TYPE_COMMITS = CHR ''C''"
definition DIFF_STATUS_ADDED :: char where "DIFF_STATUS_ADDED = CHR ''A''"
definition DIFF_STATUS_DELETED :: char where "DIFF_STATUS_DELETED = CHR ''D''"
definition DIFF_STATUS_MODIFIED :: char where "DIFF_STATUS_MODIFIED = CHR ''M''"
definition DIFF_STATUS_RENAMED :: char where "DIFF_STATUS_RENAMED = CHR ''R''"
definition DIFF_STATUS_DIR_ADDED :: char where "DIFF_STATUS_DIR_ADDED = CHR ''B''"
definition DIFF_STATUS_DIR_DELETED :: char where "DIFF_STATUS_DIR_DELETED = CHR ''C''"
definition DIFF_STATUS_DIR_RENAMED :: char where "DIFF_STATUS_DIR_RENAMED = CHR ''E''"

lemmas diff_status =
  DIFF_STATUS_ADDED_def DIFF_STATUS_DELETED_def DIFF_STATUS_MODIFIED_def DIFF_STATUS_RENAMED_def
  DIFF_STATUS_DIR_ADDED_def DIFF_STATUS_DIR_DELETED_def DIFF_STATUS_DIR_RENAMED_def

record diff_entry =
  de_type :: char
  de_status :: char
  de_unmerge_state :: int
  de_sha1 :: bytes
  de_name :: string
  de_new_name :: "string option"
  de_size :: u64
  de_origin_size :: u64

definition diff_entry_new :: "char \<Rightarrow> char \<Rightarrow> bytes \<Rightarrow> string \<Rightarrow> diff_entry" where
  "diff_entry_new type status sha1 name =
     \<lparr>de_type = type, de_status = status, de_unmerge_state = 0, de_sha1 = take 20 sha1,
      de_name = name, de_new_name = None, de_size = 0, de_origin_size = 0\<rparr>"

text \<open>The id of an entry is a valid object id, which \<open>hex_to_rawdata\<close> converts.\<close>

definition diff_entry_new_from_dirent :: "char \<Rightarrow> char \<Rightarrow> dirent \<Rightarrow> string \<Rightarrow> diff_entry" where
  "diff_entry_new_from_dirent type status dent basedir =
     \<lparr>de_type = type, de_status = status, de_unmerge_state = 0,
      de_sha1 = hex_to_rawdata_buf 20 (d_id dent), de_name = basedir @ d_name dent,
      de_new_name = None, de_size = d_size dent, de_origin_size = 0\<rparr>"

definition dirent_same :: "dirent \<Rightarrow> dirent \<Rightarrow> bool" where
  "dirent_same denta dentb \<longleftrightarrow>
     strcmp (d_id dentb) (d_id denta) = 0 \<and> d_mode denta = d_mode dentb \<and> d_mtime denta = d_mtime dentb"

section \<open>The walk\<close>

text \<open>
  \<open>DiffOptions\<close>: the callbacks with the user data they pass on.  The directory callback also says
  whether to recurse.
\<close>

record 'u diff_options =
  file_cb :: "string \<Rightarrow> dirent option list \<Rightarrow> 'u \<Rightarrow> int \<times> 'u"
  dir_cb :: "string \<Rightarrow> dirent option list \<Rightarrow> 'u \<Rightarrow> int \<times> bool \<times> 'u"

definition only_files :: "dirent option list \<Rightarrow> dirent option list" where
  "only_files dents = map (\<lambda>d. case d of Some e \<Rightarrow> if S_ISREG (d_mode e) then Some e else None | None \<Rightarrow> None) dents"

definition only_dirs :: "dirent option list \<Rightarrow> dirent option list" where
  "only_dirs dents = map (\<lambda>d. case d of Some e \<Rightarrow> if S_ISDIR (d_mode e) then Some e else None | None \<Rightarrow> None) dents"

definition diff_files :: "dirent option list \<Rightarrow> string \<Rightarrow> 'u diff_options \<Rightarrow> 'u \<Rightarrow> int \<times> 'u" where
  "diff_files dents basedir opt u =
     (let files = only_files dents in
      if list_all (\<lambda>d. d = None) files then (0, u) else file_cb opt basedir files u)"

text \<open>Loading the directories of a step, and the name of the last one.\<close>

fun load_sub_dirs :: "fs_view \<Rightarrow> dirent option list \<Rightarrow> seafdir option list option" where
  "load_sub_dirs F [] = Some []"
| "load_sub_dirs F (None # ds) =
     (case load_sub_dirs F ds of None \<Rightarrow> None | Some ts \<Rightarrow> Some (None # ts))"
| "load_sub_dirs F (Some e # ds) =
     (case get_dir F (d_id e) of
        None \<Rightarrow> None
      | Some dir \<Rightarrow> (case load_sub_dirs F ds of None \<Rightarrow> None | Some ts \<Rightarrow> Some (Some dir # ts)))"

fun last_dirname :: "dirent option list \<Rightarrow> string \<Rightarrow> string" where
  "last_dirname [] acc = acc"
| "last_dirname (None # ds) acc = last_dirname ds acc"
| "last_dirname (Some e # ds) acc = last_dirname ds (d_name e)"

definition diff_directories ::
    "(seafdir option list \<Rightarrow> string \<Rightarrow> 'u \<Rightarrow> (int \<times> 'u) option) \<Rightarrow> fs_view \<Rightarrow> dirent option list \<Rightarrow> string
     \<Rightarrow> 'u diff_options \<Rightarrow> 'u \<Rightarrow> (int \<times> 'u) option" where
  "diff_directories walk F dents basedir opt u =
     (let dirs = only_dirs dents in
      if list_all (\<lambda>d. d = None) dirs then Some (0, u)
      else (case dir_cb opt basedir dirs u of
              (ret, recurse, u') \<Rightarrow>
                if ret < 0 then Some (ret, u')
                else if \<not> recurse then Some (0, u')
                else (case load_sub_dirs F dirs of
                        None \<Rightarrow> Some (-1, u')
                      | Some subs \<Rightarrow> walk subs (basedir @ last_dirname dirs [] @ ''/'') u')))"

text \<open>A step all trees agree on is skipped.\<close>

definition step_same :: "dirent option list \<Rightarrow> bool" where
  "step_same dents =
     (case dents of
        [Some a, Some b] \<Rightarrow> dirent_same a b
      | [Some a, Some b, Some c] \<Rightarrow> dirent_same a b \<and> dirent_same a c
      | _ \<Rightarrow> False)"

fun diff_loop ::
    "(seafdir option list \<Rightarrow> string \<Rightarrow> 'u \<Rightarrow> (int \<times> 'u) option) \<Rightarrow> fs_view \<Rightarrow> string \<Rightarrow> 'u diff_options
     \<Rightarrow> dirent option list list \<Rightarrow> int \<Rightarrow> 'u \<Rightarrow> (int \<times> 'u) option" where
  "diff_loop walk F basedir opt [] ret u = Some (ret, u)"
| "diff_loop walk F basedir opt (dents # steps) ret u =
     (if step_same dents then diff_loop walk F basedir opt steps ret u
      else (case diff_files dents basedir opt u of
              (ret1, u1) \<Rightarrow>
                if ret1 < 0 then Some (ret1, u1)
                else (case diff_directories walk F dents basedir opt u1 of
                        None \<Rightarrow> None
                      | Some (ret2, u2) \<Rightarrow>
                          if ret2 < 0 then Some (ret2, u2)
                          else diff_loop walk F basedir opt steps ret2 u2)))"

definition tree_ptrs :: "seafdir option list \<Rightarrow> dirent list list" where
  "tree_ptrs trees = map (\<lambda>t. case t of None \<Rightarrow> [] | Some dir \<Rightarrow> entries dir) trees"

primrec diff_trees_recursive ::
    "nat \<Rightarrow> fs_view \<Rightarrow> 'u diff_options \<Rightarrow> seafdir option list \<Rightarrow> string \<Rightarrow> 'u \<Rightarrow> (int \<times> 'u) option" where
  "diff_trees_recursive 0 F opt trees basedir u = None"
| "diff_trees_recursive (Suc n) F opt trees basedir u =
     diff_loop (diff_trees_recursive n F opt) F basedir opt (nway_steps (tree_ptrs trees)) 0 u"

fun load_roots :: "fs_view \<Rightarrow> string list \<Rightarrow> seafdir option list option" where
  "load_roots F [] = Some []"
| "load_roots F (r # rs) =
     (case get_dir F r of
        None \<Rightarrow> None
      | Some dir \<Rightarrow> (case load_roots F rs of None \<Rightarrow> None | Some ts \<Rightarrow> Some (Some dir # ts)))"

definition diff_trees ::
    "nat \<Rightarrow> fs_view \<Rightarrow> string list \<Rightarrow> 'u diff_options \<Rightarrow> 'u \<Rightarrow> (int \<times> 'u) option" where
  "diff_trees n F roots opt u =
     (if length roots \<noteq> 2 \<and> length roots \<noteq> 3 then Some (-1, u)
      else (case load_roots F roots of
              None \<Rightarrow> Some (-1, u)
            | Some trees \<Rightarrow> diff_trees_recursive n F opt trees [] u))"

section \<open>Two-way and three-way callbacks\<close>

definition twoway_diff_files ::
    "string \<Rightarrow> dirent option list \<Rightarrow> diff_entry list \<Rightarrow> int \<times> diff_entry list" where
  "twoway_diff_files basedir fs results =
     (case (fs ! 0, fs ! 1) of
        (None, None) \<Rightarrow> (0, results)
      | (None, Some tree2) \<Rightarrow>
          (0, diff_entry_new_from_dirent DIFF_TYPE_COMMITS DIFF_STATUS_ADDED tree2 basedir # results)
      | (Some tree1, None) \<Rightarrow>
          (0, diff_entry_new_from_dirent DIFF_TYPE_COMMITS DIFF_STATUS_DELETED tree1 basedir # results)
      | (Some tree1, Some tree2) \<Rightarrow>
          if \<not> dirent_same tree1 tree2 then
            (0, (diff_entry_new_from_dirent DIFF_TYPE_COMMITS DIFF_STATUS_MODIFIED tree2 basedir)
                  \<lparr>de_origin_size := d_size tree1\<rparr> # results)
          else (0, results))"

definition twoway_diff_dirs ::
    "bool \<Rightarrow> string \<Rightarrow> dirent option list \<Rightarrow> diff_entry list \<Rightarrow> int \<times> bool \<times> diff_entry list" where
  "twoway_diff_dirs fold_dir_diff basedir dirs results =
     (case (dirs ! 0, dirs ! 1) of
        (None, None) \<Rightarrow> (0, True, results)
      | (None, Some tree2) \<Rightarrow>
          if strcmp (d_id tree2) EMPTY_SHA1 = 0 \<or> fold_dir_diff then
            (0, False, diff_entry_new_from_dirent DIFF_TYPE_COMMITS DIFF_STATUS_DIR_ADDED tree2 basedir # results)
          else (0, True, results)
      | (Some tree1, None) \<Rightarrow>
          (0, \<not> fold_dir_diff,
           diff_entry_new_from_dirent DIFF_TYPE_COMMITS DIFF_STATUS_DIR_DELETED tree1 basedir # results)
      | (Some _, Some _) \<Rightarrow> (0, True, results))"

definition threeway_diff_files ::
    "string \<Rightarrow> dirent option list \<Rightarrow> diff_entry list \<Rightarrow> int \<times> diff_entry list" where
  "threeway_diff_files basedir fs results =
     (let new = (\<lambda>status e. diff_entry_new_from_dirent DIFF_TYPE_COMMITS status e basedir) in
      case (fs ! 0, fs ! 1, fs ! 2) of
        (Some m, Some p1, Some p2) \<Rightarrow>
          if \<not> dirent_same m p1 \<and> \<not> dirent_same m p2 then (0, new DIFF_STATUS_MODIFIED m # results)
          else (0, results)
      | (None, Some p1, Some p2) \<Rightarrow> (0, new DIFF_STATUS_DELETED p1 # results)
      | (Some m, None, Some p2) \<Rightarrow>
          if \<not> dirent_same m p2 then (0, new DIFF_STATUS_MODIFIED m # results) else (0, results)
      | (Some m, Some p1, None) \<Rightarrow>
          if \<not> dirent_same m p1 then (0, new DIFF_STATUS_MODIFIED m # results) else (0, results)
      | (Some m, None, None) \<Rightarrow> (0, new DIFF_STATUS_ADDED m # results)
      | _ \<Rightarrow> (0, results))"

definition threeway_diff_dirs ::
    "string \<Rightarrow> dirent option list \<Rightarrow> diff_entry list \<Rightarrow> int \<times> bool \<times> diff_entry list" where
  "threeway_diff_dirs basedir dirs results = (0, True, results)"

definition twoway_options :: "bool \<Rightarrow> diff_entry list diff_options" where
  "twoway_options fold_dir_diff =
     \<lparr>file_cb = twoway_diff_files, dir_cb = twoway_diff_dirs fold_dir_diff\<rparr>"

definition threeway_options :: "diff_entry list diff_options" where
  "threeway_options = \<lparr>file_cb = threeway_diff_files, dir_cb = threeway_diff_dirs\<rparr>"

section \<open>Renames\<close>

text \<open>
  \<open>diff_resolve_renames\<close> keeps pointers to list links; here a link is its position in the list the
  function was given, and links it adds itself have none.
\<close>

type_synonym links = "(nat option \<times> diff_entry) list"

definition empty_sha1 :: bytes where
  "empty_sha1 = replicate 20 (CHR 0x00)"

definition count_empty :: "char \<Rightarrow> diff_entry list \<Rightarrow> nat" where
  "count_empty status des = length (filter (\<lambda>de. de_sha1 de = empty_sha1 \<and> de_status de = status) des)"

fun collect_deleted ::
    "char \<Rightarrow> bool \<Rightarrow> (nat \<times> diff_entry) list \<Rightarrow> (bytes \<rightharpoonup> nat) \<Rightarrow> (bytes \<rightharpoonup> nat)" where
  "collect_deleted status check_empty [] h = h"
| "collect_deleted status check_empty ((k, de) # ps) h =
     collect_deleted status check_empty ps
       (if de_status de = status \<and> \<not> (de_sha1 de = empty_sha1 \<and> \<not> check_empty)
        then h(de_sha1 de \<mapsto> k) else h)"

fun collect_added :: "bool \<Rightarrow> bool \<Rightarrow> (nat \<times> diff_entry) list \<Rightarrow> nat list \<Rightarrow> nat list" where
  "collect_added check_empty_file check_empty_dir [] added = added"
| "collect_added check_empty_file check_empty_dir ((k, de) # ps) added =
     collect_added check_empty_file check_empty_dir ps
       (if (de_status de = DIFF_STATUS_ADDED \<and> \<not> (de_sha1 de = empty_sha1 \<and> \<not> check_empty_file)) \<or>
           (de_status de = DIFF_STATUS_DIR_ADDED \<and> \<not> (de_sha1 de = empty_sha1 \<and> \<not> check_empty_dir))
        then k # added else added)"

definition delete_link :: "nat \<Rightarrow> links \<Rightarrow> links" where
  "delete_link k l = filter (\<lambda>x. fst x \<noteq> Some k) l"

fun resolve_loop ::
    "diff_entry list \<Rightarrow> nat list \<Rightarrow> (bytes \<rightharpoonup> nat) \<Rightarrow> (bytes \<rightharpoonup> nat) \<Rightarrow> links \<Rightarrow> links" where
  "resolve_loop orig [] deleted_files deleted_dirs l = l"
| "resolve_loop orig (k # added) deleted_files deleted_dirs l =
     (let de_add = orig ! k in
      case (if de_status de_add = DIFF_STATUS_ADDED then deleted_files (de_sha1 de_add)
            else deleted_dirs (de_sha1 de_add)) of
        None \<Rightarrow> resolve_loop orig added deleted_files deleted_dirs l
      | Some d \<Rightarrow>
          (let de_del = orig ! d;
               rename_status = (if de_status de_add = DIFF_STATUS_DIR_ADDED
                                then DIFF_STATUS_DIR_RENAMED else DIFF_STATUS_RENAMED);
               de_rename = (diff_entry_new (de_type de_del) rename_status (de_sha1 de_del)
                              (de_name de_del))\<lparr>de_new_name := Some (de_name de_add)\<rparr>;
               l' = (None, de_rename) # delete_link d (delete_link k l)
           in if de_status de_del = DIFF_STATUS_DIR_DELETED
              then resolve_loop orig added deleted_files (deleted_dirs(de_sha1 de_add := None)) l'
              else resolve_loop orig added (deleted_files(de_sha1 de_add := None)) deleted_dirs l'))"

definition diff_resolve_renames :: "diff_entry list \<Rightarrow> diff_entry list" where
  "diff_resolve_renames des =
     (let ps = enumerate 0 des;
          check_empty_dir = (count_empty DIFF_STATUS_DIR_DELETED des = 1 \<and>
                             count_empty DIFF_STATUS_DIR_ADDED des = 1);
          check_empty_file = (count_empty DIFF_STATUS_DELETED des = 1 \<and>
                              count_empty DIFF_STATUS_ADDED des = 1)
      in map snd (resolve_loop des
           (collect_added check_empty_file check_empty_dir ps [])
           (collect_deleted DIFF_STATUS_DELETED check_empty_file ps (\<lambda>_. None))
           (collect_deleted DIFF_STATUS_DIR_DELETED check_empty_dir ps (\<lambda>_. None))
           (map (\<lambda>(k, de). (Some k, de)) ps)))"

text \<open>\<open>diff_commit_roots\<close> and \<open>diff_merge_roots\<close>: the result of \<open>diff_trees\<close> is not looked at.\<close>

definition diff_commit_roots ::
    "nat \<Rightarrow> fs_view \<Rightarrow> string \<Rightarrow> string \<Rightarrow> diff_entry list \<Rightarrow> bool \<Rightarrow> (int \<times> diff_entry list) option" where
  "diff_commit_roots n F root1 root2 results fold_dir_diff =
     (case diff_trees n F [root1, root2] (twoway_options fold_dir_diff) results of
        None \<Rightarrow> None
      | Some (_, results') \<Rightarrow> Some (0, diff_resolve_renames results'))"

definition diff_merge_roots ::
    "nat \<Rightarrow> fs_view \<Rightarrow> string \<Rightarrow> string \<Rightarrow> string \<Rightarrow> diff_entry list \<Rightarrow> (int \<times> diff_entry list) option" where
  "diff_merge_roots n F merged_root p1_root p2_root results =
     (if results \<noteq> [] then Some (-1, results)
      else (case diff_trees n F [merged_root, p1_root, p2_root] threeway_options results of
              None \<Rightarrow> None
            | Some (_, results') \<Rightarrow> Some (0, diff_resolve_renames results')))"

section \<open>Empty directories\<close>

definition is_redundant_empty_dir :: "diff_entry \<Rightarrow> diff_entry \<Rightarrow> bool" where
  "is_redundant_empty_dir de_dir de_file =
     (if de_status de_dir = DIFF_STATUS_DIR_ADDED \<and> de_status de_file = DIFF_STATUS_DELETED \<and>
         length (de_name de_file) > length (de_name de_dir) \<and>
         take (length (de_name de_dir)) (de_name de_file) = de_name de_dir then True
      else if de_status de_dir = DIFF_STATUS_DIR_DELETED \<and> de_status de_file = DIFF_STATUS_ADDED \<and>
         length (de_name de_file) > length (de_name de_dir) \<and>
         take (length (de_name de_dir)) (de_name de_file) = de_name de_dir then True
      else False)"

fun empty_dirs_loop :: "(nat \<times> diff_entry) list \<Rightarrow> (nat \<times> diff_entry) list \<Rightarrow> (nat \<times> diff_entry) list" where
  "empty_dirs_loop [] l = l"
| "empty_dirs_loop ((k, de_dir) # dirs) l =
     empty_dirs_loop dirs
       (if list_ex (\<lambda>(_, de_file). is_redundant_empty_dir de_dir de_file) l
        then filter (\<lambda>x. fst x \<noteq> k) l else l)"

definition diff_resolve_empty_dirs :: "diff_entry list \<Rightarrow> diff_entry list" where
  "diff_resolve_empty_dirs des =
     (let ps = enumerate 0 des;
          dirs = rev (filter (\<lambda>(k, de). de_status de = DIFF_STATUS_DIR_ADDED \<or>
                                        de_status de = DIFF_STATUS_DIR_DELETED) ps)
      in map snd (empty_dirs_loop dirs ps))"

section \<open>States and texts\<close>

datatype unmerged_state =
    STATUS_UNMERGED_NONE
  | STATUS_UNMERGED_BOTH_CHANGED
  | STATUS_UNMERGED_BOTH_ADDED
  | STATUS_UNMERGED_I_REMOVED
  | STATUS_UNMERGED_OTHERS_REMOVED
  | STATUS_UNMERGED_DFC_I_ADDED_FILE
  | STATUS_UNMERGED_DFC_OTHERS_ADDED_FILE

definition diff_unmerged_state :: "int \<Rightarrow> unmerged_state" where
  "diff_unmerged_state m =
     (let k = m div 2 in
      if k = 7 then STATUS_UNMERGED_BOTH_CHANGED
      else if k = 3 then STATUS_UNMERGED_OTHERS_REMOVED
      else if k = 5 then STATUS_UNMERGED_I_REMOVED
      else if k = 6 then STATUS_UNMERGED_BOTH_ADDED
      else if k = 2 then STATUS_UNMERGED_DFC_I_ADDED_FILE
      else if k = 4 then STATUS_UNMERGED_DFC_OTHERS_ADDED_FILE
      else STATUS_UNMERGED_NONE)"

definition format_diff_entry :: "diff_entry \<Rightarrow> string" where
  "format_diff_entry de =
     [de_type de] @ '' '' @ [de_status de] @ '' '' @ int_to_string (de_unmerge_state de) @ '' '' @
     nat_to_string (length (de_name de)) @ '' '' @ de_name de @
     (if de_status de \<noteq> DIFF_STATUS_RENAMED then []
      else (case de_new_name de of
              None \<Rightarrow> []
            | Some n \<Rightarrow> '' '' @ nat_to_string (length n) @ '' '' @ n)) @ [CHR 0x0A]"

definition format_diff_results :: "diff_entry list \<Rightarrow> string" where
  "format_diff_results results = concat (map format_diff_entry results)"

definition get_basename :: "string \<Rightarrow> string" where
  "get_basename path =
     (case strrchr_split (CHR ''/'') path of (s, None) \<Rightarrow> s | (_, Some b) \<Rightarrow> b)"

text \<open>For a group of statuses: the base name of the first entry, and how many there are.\<close>

definition first_and_count :: "char set \<Rightarrow> diff_entry list \<Rightarrow> string \<times> nat" where
  "first_and_count statuses results =
     (let xs = filter (\<lambda>de. de_status de \<in> statuses) results in
      (case xs of [] \<Rightarrow> [] | de # _ \<Rightarrow> get_basename (de_name de), length xs))"

definition describe_group :: "string \<Rightarrow> string \<Rightarrow> string \<Rightarrow> string \<times> nat \<Rightarrow> string" where
  "describe_group one many what g =
     (case g of (n, k) \<Rightarrow>
        if k = 1 then one @ [CHR 0x22] @ n @ [CHR 0x22] @ ''.'' @ [CHR 0x0A]
        else if k > 1 then many @ [CHR 0x22] @ n @ [CHR 0x22] @ '' and '' @ nat_to_string (k - 1) @
               '' more '' @ what @ ''.'' @ [CHR 0x0A]
        else [])"

definition diff_results_to_description :: "diff_entry list \<Rightarrow> string option" where
  "diff_results_to_description results =
     (if results = [] then None
      else Some
        (describe_group ''Added or modified '' ''Added or modified '' ''files''
           (first_and_count {DIFF_STATUS_ADDED, DIFF_STATUS_MODIFIED} results) @
         describe_group ''Deleted '' ''Deleted '' ''files'' (first_and_count {DIFF_STATUS_DELETED} results) @
         describe_group ''Renamed '' ''Renamed '' ''files'' (first_and_count {DIFF_STATUS_RENAMED} results) @
         describe_group ''Added directory '' ''Added '' ''directories''
           (first_and_count {DIFF_STATUS_DIR_ADDED} results) @
         describe_group ''Removed directory '' ''Removed '' ''directories''
           (first_and_count {DIFF_STATUS_DIR_DELETED} results)))"

section \<open>What the two-way diff finds\<close>

text \<open>The regular file at a relative path below a directory.\<close>

definition reg_entry :: "dirent option \<Rightarrow> dirent option" where
  "reg_entry d = (case d of Some e \<Rightarrow> if S_ISREG (d_mode e) then Some e else None | None \<Rightarrow> None)"

definition sub_tree :: "fs_view \<Rightarrow> dirent option \<Rightarrow> seafdir option" where
  "sub_tree F d = (case d of Some e \<Rightarrow> if S_ISDIR (d_mode e) then get_dir F (d_id e) else None | None \<Rightarrow> None)"

definition tree_entry :: "seafdir option \<Rightarrow> string \<Rightarrow> dirent option" where
  "tree_entry t k = (case t of None \<Rightarrow> None | Some dir \<Rightarrow> find_key d_name k (entries dir))"

primrec file_at :: "nat \<Rightarrow> fs_view \<Rightarrow> seafdir option \<Rightarrow> string \<Rightarrow> dirent option" where
  "file_at 0 F t p = None"
| "file_at (Suc n) F t p =
     (case strchr_split (CHR ''/'') p of
        (k, None) \<Rightarrow> reg_entry (tree_entry t k)
      | (k, Some rest) \<Rightarrow> file_at n F (sub_tree F (tree_entry t k)) rest)"

text \<open>What happened to a path, given the file before and the file after.\<close>

definition file_change :: "dirent option \<Rightarrow> dirent option \<Rightarrow> (char \<times> dirent \<times> u64) option" where
  "file_change a b =
     (case (a, b) of
        (None, None) \<Rightarrow> None
      | (None, Some e) \<Rightarrow> Some (DIFF_STATUS_ADDED, e, 0)
      | (Some e, None) \<Rightarrow> Some (DIFF_STATUS_DELETED, e, 0)
      | (Some e1, Some e2) \<Rightarrow>
          if dirent_same e1 e2 then None else Some (DIFF_STATUS_MODIFIED, e2, d_size e1))"

definition change_entry :: "string \<Rightarrow> char \<times> dirent \<times> u64 \<Rightarrow> diff_entry" where
  "change_entry path c =
     (case c of (s, e, origin) \<Rightarrow>
        (diff_entry_new_from_dirent DIFF_TYPE_COMMITS s e [])\<lparr>de_name := path, de_origin_size := origin\<rparr>)"

definition file_diffs :: "nat \<Rightarrow> fs_view \<Rightarrow> seafdir option \<Rightarrow> seafdir option \<Rightarrow> string \<Rightarrow> diff_entry set" where
  "file_diffs n F t1 t2 base =
     {change_entry (base @ p) c | p c. file_change (file_at n F t1 p) (file_at n F t2 p) = Some c}"

definition is_file_entry :: "diff_entry \<Rightarrow> bool" where
  "is_file_entry de \<longleftrightarrow> de_status de \<in> {DIFF_STATUS_ADDED, DIFF_STATUS_DELETED, DIFF_STATUS_MODIFIED}"

text \<open>A well-formed tree: every directory can be read and lists slash-free names in strictly descending order.\<close>

primrec dir_wf :: "nat \<Rightarrow> fs_view \<Rightarrow> seafdir \<Rightarrow> bool" where
  "dir_wf 0 F dir = False"
| "dir_wf (Suc n) F dir =
     (desc_by d_name (entries dir) \<and>
      (\<forall>e\<in>set (entries dir). CHR ''/'' \<notin> set (d_name e) \<and>
         (S_ISDIR (d_mode e) \<longrightarrow>
            (case get_dir F (d_id e) of None \<Rightarrow> False | Some d \<Rightarrow> dir_wf n F d))))"

definition tree_wf :: "nat \<Rightarrow> fs_view \<Rightarrow> seafdir option \<Rightarrow> bool" where
  "tree_wf n F t = (case t of None \<Rightarrow> True | Some dir \<Rightarrow> dir_wf n F dir)"

lemma dirent_same_refl [simp]: "dirent_same e e"
  by (simp add: dirent_same_def)

lemma file_change_refl [simp]: "file_change a a = None"
  by (cases a) (simp_all add: file_change_def)

lemma reg_entry_None [simp]: "reg_entry None = None"
  by (simp add: reg_entry_def)

lemma sub_tree_None [simp]: "sub_tree F None = None"
  by (simp add: sub_tree_def)

lemma file_at_None [simp]: "file_at n F None p = None"
  by (induction n arbitrary: p) (auto simp: tree_entry_def reg_entry_def sub_tree_def split: prod.splits option.splits)

lemma tree_wf_entry:
  assumes "tree_wf (Suc n) F t" "tree_entry t k = Some e"
  shows "d_name e = k" "CHR ''/'' \<notin> set k" "S_ISDIR (d_mode e) \<Longrightarrow> \<exists>d. get_dir F (d_id e) = Some d \<and> dir_wf n F d"
  using assms
  by (auto simp: tree_wf_def tree_entry_def split: option.splits dest!: find_key_SomeD)

lemma tree_wf_sub: "tree_wf (Suc n) F t \<Longrightarrow> tree_wf n F (sub_tree F (tree_entry t k))"
  using tree_wf_entry(3) [of n F t k]
  by (fastforce simp: sub_tree_def tree_wf_def split: option.splits)

lemma same_reg_sub:
  assumes "dirent_same a b"
  shows "file_change (reg_entry (Some a)) (reg_entry (Some b)) = None"
    and "sub_tree F (Some a) = sub_tree F (Some b)"
  using assms by (auto simp: dirent_same_def reg_entry_def file_change_def sub_tree_def)

text \<open>
  What the regular files of a tree come to, each counted by \<open>g\<close> of its size, and what a difference changes
  it by: the sum of the sizes for the identity, the number of files for the constant 1, as 64-bit numbers.
  \<open>tree_sized sz\<close> is that \<open>sz\<close> gives the size of every file by its raw id.
\<close>

primrec tree_total :: "(u64 \<Rightarrow> u64) \<Rightarrow> nat \<Rightarrow> fs_view \<Rightarrow> seafdir option \<Rightarrow> u64" where
  "tree_total g 0 F t = 0"
| "tree_total g (Suc n) F t =
     (case t of
        None \<Rightarrow> 0
      | Some dir \<Rightarrow>
          sum_list (map (\<lambda>e. if S_ISREG (d_mode e) then g (d_size e)
                             else if S_ISDIR (d_mode e) then tree_total g n F (get_dir F (d_id e)) else 0) (entries dir)))"

primrec tree_sized :: "(bytes \<Rightarrow> u64) \<Rightarrow> nat \<Rightarrow> fs_view \<Rightarrow> seafdir option \<Rightarrow> bool" where
  "tree_sized sz 0 F t \<longleftrightarrow> True"
| "tree_sized sz (Suc n) F t \<longleftrightarrow>
     (case t of
        None \<Rightarrow> True
      | Some dir \<Rightarrow>
          \<forall>e\<in>set (entries dir). (S_ISREG (d_mode e) \<longrightarrow> d_size e = sz (hex_to_rawdata_buf 20 (d_id e))) \<and>
            (S_ISDIR (d_mode e) \<longrightarrow> tree_sized sz n F (get_dir F (d_id e))))"

definition change_weight :: "(u64 \<Rightarrow> u64) \<Rightarrow> diff_entry \<Rightarrow> u64" where
  "change_weight g de =
     (if de_status de = DIFF_STATUS_ADDED then g (de_size de)
      else if de_status de = DIFF_STATUS_DELETED then - g (de_size de)
      else if de_status de = DIFF_STATUS_MODIFIED then g (de_size de) - g (de_origin_size de)
      else 0)"

definition changes_total :: "(u64 \<Rightarrow> u64) \<Rightarrow> diff_entry list \<Rightarrow> u64" where
  "changes_total g des = sum_list (map (change_weight g) des)"

lemma changes_total_simps [simp]:
  "changes_total g [] = 0" "changes_total g (de # des) = change_weight g de + changes_total g des"
  "changes_total g (xs @ ys) = changes_total g xs + changes_total g ys"
  by (simp_all add: changes_total_def)

text \<open>The part of an entry: its size when it is a file, its tree when it is a directory.\<close>

definition file_weight :: "(u64 \<Rightarrow> u64) \<Rightarrow> dirent option \<Rightarrow> u64" where
  "file_weight g d = (case reg_entry d of None \<Rightarrow> 0 | Some e \<Rightarrow> g (d_size e))"

definition file_sized :: "(bytes \<Rightarrow> u64) \<Rightarrow> dirent option \<Rightarrow> bool" where
  "file_sized sz d \<longleftrightarrow> (\<forall>e. reg_entry d = Some e \<longrightarrow> d_size e = sz (hex_to_rawdata_buf 20 (d_id e)))"

definition entry_total :: "(u64 \<Rightarrow> u64) \<Rightarrow> nat \<Rightarrow> fs_view \<Rightarrow> dirent option \<Rightarrow> u64" where
  "entry_total g n F d = file_weight g d + tree_total g n F (sub_tree F d)"

definition entry_sized :: "(bytes \<Rightarrow> u64) \<Rightarrow> nat \<Rightarrow> fs_view \<Rightarrow> dirent option \<Rightarrow> bool" where
  "entry_sized sz n F d \<longleftrightarrow> file_sized sz d \<and> tree_sized sz n F (sub_tree F d)"

lemma tree_total_None [simp]: "tree_total g n F None = 0" "tree_sized sz n F None"
  by (cases n; simp)+

lemma tree_total_empty: "entries d = [] \<Longrightarrow> tree_total g n F (Some d) = 0"
  by (cases n) auto

lemma entry_total_None [simp]: "entry_total g n F None = 0"
  by (simp add: entry_total_def file_weight_def)

lemma tree_total_names:
  assumes "tree_wf (Suc n) F t" "finite ns" "\<And>k. k \<notin> ns \<Longrightarrow> tree_entry t k = None"
  shows "tree_total g (Suc n) F t = (\<Sum>k\<in>ns. entry_total g n F (tree_entry t k))"
proof (cases t)
  case None
  then show ?thesis by (simp add: tree_entry_def)
next
  case (Some d)
  let ?w = "\<lambda>e. if S_ISREG (d_mode e) then g (d_size e)
      else if S_ISDIR (d_mode e) then tree_total g n F (get_dir F (d_id e)) else 0"
  have srt: "desc_by d_name (entries d)" using assms(1) Some by (simp add: tree_wf_def)
  then have dist: "distinct (map d_name (entries d))" by (rule desc_by_distinct)
  have w: "?w e = entry_total g n F (Some e)" for e
    by (auto simp: entry_total_def file_weight_def reg_entry_def sub_tree_def dest: not_reg_and_dir)
  have at: "tree_entry t (d_name e) = Some e" if "e \<in> set (entries d)" for e
    using Some that dist find_key_in by (simp add: tree_entry_def)
  have "tree_total g (Suc n) F t = (\<Sum>e\<leftarrow>entries d. entry_total g n F (Some e))" using Some by (simp only: w tree_total.simps option.case)
  also have "\<dots> = (\<Sum>e\<in>set (entries d). entry_total g n F (tree_entry t (d_name e)))"
    using dist by (simp add: distinct_map sum_list_distinct_conv_sum_set at cong: sum.cong)
  also have "\<dots> = (\<Sum>k\<in>d_name ` set (entries d). entry_total g n F (tree_entry t k))"
    using dist by (simp add: distinct_map sum.reindex)
  also have "\<dots> = (\<Sum>k\<in>ns. entry_total g n F (tree_entry t k))"
  proof (rule sum.mono_neutral_left [OF assms(2)])
    show "d_name ` set (entries d) \<subseteq> ns" using assms(3) at by (metis image_subsetI option.distinct(1))
    show "\<forall>k\<in>ns - d_name ` set (entries d). entry_total g n F (tree_entry t k) = 0"
    proof
      fix k assume "k \<in> ns - d_name ` set (entries d)"
      then have "tree_entry t k = None" using Some by (simp add: tree_entry_def find_key_None)
      then show "entry_total g n F (tree_entry t k) = 0" by simp
    qed
  qed
  finally show ?thesis .
qed

lemma tree_sized_entry:
  assumes "tree_sized sz (Suc n) F t"
  shows "entry_sized sz n F (tree_entry t k)"
  using assms
  by (auto simp: entry_sized_def file_sized_def tree_entry_def reg_entry_def sub_tree_def split: option.splits if_splits
      dest!: find_key_SomeD)

text \<open>The part of the difference that lies under one name.\<close>

definition step_diffs :: "nat \<Rightarrow> fs_view \<Rightarrow> string \<Rightarrow> string \<Rightarrow> dirent option \<Rightarrow> dirent option \<Rightarrow> diff_entry set" where
  "step_diffs n F base k a b =
     {change_entry (base @ k) c | c. file_change (reg_entry a) (reg_entry b) = Some c} \<union>
     file_diffs n F (sub_tree F a) (sub_tree F b) (base @ k @ ''/'')"

lemma file_diffsI:
  "file_change (file_at n F t1 p) (file_at n F t2 p) = Some c \<Longrightarrow> x = change_entry (base @ p) c \<Longrightarrow>
   x \<in> file_diffs n F t1 t2 base"
  unfolding file_diffs_def by blast

lemma file_diffs_steps:
  assumes "tree_wf (Suc n) F t1" "tree_wf (Suc n) F t2"
    and names: "\<And>k. k \<notin> ns \<Longrightarrow> tree_entry t1 k = None \<and> tree_entry t2 k = None"
    and in_ns: "\<And>k. k \<in> ns \<Longrightarrow> CHR ''/'' \<notin> set k"
  shows "file_diffs (Suc n) F t1 t2 base = (\<Union>k\<in>ns. step_diffs n F base k (tree_entry t1 k) (tree_entry t2 k))"
    (is "?L = ?R")
proof (intro equalityI subsetI)
  fix x assume "x \<in> ?L"
  then obtain p c where x: "x = change_entry (base @ p) c"
    and c: "file_change (file_at (Suc n) F t1 p) (file_at (Suc n) F t2 p) = Some c"
    by (auto simp: file_diffs_def)
  obtain k r where s: "strchr_split (CHR ''/'') p = (k, r)" by fastforce
  have k: "k \<in> ns"
  proof (rule ccontr)
    assume "k \<notin> ns"
    from names [OF this] c show False by (cases r) (simp_all add: s)
  qed
  show "x \<in> ?R"
  proof (cases r)
    case None
    then have "p = k" using strchr_split_None s by blast
    then have "x \<in> step_diffs n F base k (tree_entry t1 k) (tree_entry t2 k)"
      using x c s None unfolding step_diffs_def by (intro UnI1) fastforce
    with k show ?thesis by blast
  next
    case (Some rest)
    then have "p = k @ CHR ''/'' # rest" using strchr_split_Some s by blast
    then have "x \<in> step_diffs n F base k (tree_entry t1 k) (tree_entry t2 k)"
      using x c s Some unfolding step_diffs_def file_diffs_def by (intro UnI2) fastforce
    with k show ?thesis by blast
  qed
next
  fix x assume "x \<in> ?R"
  then obtain k where k: "k \<in> ns" and x: "x \<in> step_diffs n F base k (tree_entry t1 k) (tree_entry t2 k)" by blast
  from x show "x \<in> ?L"
    unfolding step_diffs_def
  proof
    assume "x \<in> {change_entry (base @ k) c | c.
      file_change (reg_entry (tree_entry t1 k)) (reg_entry (tree_entry t2 k)) = Some c}"
    then obtain c where "x = change_entry (base @ k) c"
      "file_change (reg_entry (tree_entry t1 k)) (reg_entry (tree_entry t2 k)) = Some c" by blast
    then show ?thesis using in_ns [OF k]
      by (intro file_diffsI [where p = k and c = c]) simp_all
  next
    assume "x \<in> file_diffs n F (sub_tree F (tree_entry t1 k)) (sub_tree F (tree_entry t2 k)) (base @ k @ ''/'')"
    then obtain p c where "x = change_entry (base @ k @ CHR ''/'' # p) c"
      "file_change (file_at n F (sub_tree F (tree_entry t1 k)) p)
         (file_at n F (sub_tree F (tree_entry t2 k)) p) = Some c"
      by (auto simp: file_diffs_def)
    then show ?thesis using in_ns [OF k]
      by (intro file_diffsI [where p = "k @ CHR ''/'' # p" and c = c]) simp_all
  qed
qed

definition file_entries :: "diff_entry list \<Rightarrow> diff_entry set" where
  "file_entries des = {de \<in> set des. is_file_entry de}"

lemma file_entries_append [simp]: "file_entries (xs @ ys) = file_entries xs \<union> file_entries ys"
  by (auto simp: file_entries_def)

lemma file_entries_simps [simp]:
  "file_entries [] = {}"
  "file_entries (de # des) = (if is_file_entry de then {de} else {}) \<union> file_entries des"
  by (auto simp: file_entries_def)

lemma file_diffs_None [simp]: "file_diffs n F None None base = {}"
  by (auto simp: file_diffs_def)

lemma file_diffs_same [simp]: "file_diffs n F t t base = {}"
  by (auto simp: file_diffs_def)

lemma file_at_empty: "entries d = [] \<Longrightarrow> file_at n F (Some d) p = None"
  by (cases n) (auto simp: tree_entry_def split: prod.splits option.splits)

lemma is_file_status [simp]:
  "is_file_entry (diff_entry_new_from_dirent t s e b) \<longleftrightarrow> s \<in> {DIFF_STATUS_ADDED, DIFF_STATUS_DELETED, DIFF_STATUS_MODIFIED}"
  "is_file_entry (de\<lparr>de_origin_size := sz\<rparr>) \<longleftrightarrow> is_file_entry de"
  by (simp_all add: is_file_entry_def diff_entry_new_from_dirent_def)

text \<open>
  What the new entries are: the differences, and their weights make up the change of the totals.  The
  entries of files tell the size their raw id stands for.
\<close>

definition weighs :: "(bytes \<Rightarrow> u64) \<Rightarrow> diff_entry list \<Rightarrow> ((u64 \<Rightarrow> u64) \<Rightarrow> u64) \<Rightarrow> ((u64 \<Rightarrow> u64) \<Rightarrow> u64) \<Rightarrow> bool" where
  "weighs sz new before after \<longleftrightarrow>
     (\<forall>g. changes_total g new = after g - before g) \<and>
     (\<forall>de\<in>set new. is_file_entry de \<longrightarrow> de_size de = sz (de_sha1 de))"

lemma weighs_append:
  "weighs sz xs a b \<Longrightarrow> weighs sz ys a' b' \<Longrightarrow> weighs sz (xs @ ys) (\<lambda>g. a g + a' g) (\<lambda>g. b g + b' g)"
  by (auto simp: weighs_def)

lemma weighs_dir:
  "weighs sz xs a b \<Longrightarrow> s = DIFF_STATUS_DIR_ADDED \<or> s = DIFF_STATUS_DIR_DELETED \<Longrightarrow>
   weighs sz (xs @ [diff_entry_new_from_dirent t s e base]) a b"
  by (auto simp: weighs_def change_weight_def diff_entry_new_from_dirent_def diff_status is_file_entry_def)

definition tree_diff_ok :: "nat \<Rightarrow> fs_view \<Rightarrow> seafdir option \<Rightarrow> seafdir option \<Rightarrow> string \<Rightarrow> diff_entry list \<Rightarrow> bool" where
  "tree_diff_ok n F t1 t2 base new \<longleftrightarrow>
     file_entries new = file_diffs n F t1 t2 base \<and>
     (\<forall>sz. tree_sized sz n F t1 \<longrightarrow> tree_sized sz n F t2 \<longrightarrow>
        weighs sz new (\<lambda>g. tree_total g n F t1) (\<lambda>g. tree_total g n F t2))"

definition step_diff_ok :: "nat \<Rightarrow> fs_view \<Rightarrow> string \<Rightarrow> string \<Rightarrow> dirent option \<Rightarrow> dirent option \<Rightarrow> diff_entry list \<Rightarrow> bool" where
  "step_diff_ok n F base k a b new \<longleftrightarrow>
     file_entries new = step_diffs n F base k a b \<and>
     (\<forall>sz. entry_sized sz n F a \<longrightarrow> entry_sized sz n F b \<longrightarrow>
        weighs sz new (\<lambda>g. entry_total g n F a) (\<lambda>g. entry_total g n F b))"

definition file_diff_ok :: "string \<Rightarrow> dirent option \<Rightarrow> dirent option \<Rightarrow> diff_entry list \<Rightarrow> bool" where
  "file_diff_ok path a b new \<longleftrightarrow>
     file_entries new = {change_entry path c | c. file_change (reg_entry a) (reg_entry b) = Some c} \<and>
     (\<forall>sz. file_sized sz a \<longrightarrow> file_sized sz b \<longrightarrow> weighs sz new (\<lambda>g. file_weight g a) (\<lambda>g. file_weight g b))"

lemma file_diff_none:
  assumes "file_change (reg_entry a) (reg_entry b) = None"
  shows "file_diff_ok path a b []"
proof -
  have "weighs sz [] (\<lambda>g. file_weight g a) (\<lambda>g. file_weight g b)" if "file_sized sz a" "file_sized sz b" for sz
    using assms that
    by (auto simp: weighs_def file_weight_def file_change_def file_sized_def dirent_same_def split: option.splits if_splits)
  with assms show ?thesis by (simp add: file_diff_ok_def)
qed

lemma file_diff_some:
  assumes "file_change (reg_entry a) (reg_entry b) = Some c"
  shows "file_diff_ok path a b [change_entry path c]"
proof -
  have "is_file_entry (change_entry path c)"
    using assms by (auto simp: file_change_def change_entry_def is_file_entry_def
        diff_entry_new_from_dirent_def split: option.splits if_splits)
  moreover have "{change_entry path x | x. file_change (reg_entry a) (reg_entry b) = Some x} = {change_entry path c}"
    using assms by (simp del: split_paired_Ex)
  moreover have "weighs sz [change_entry path c] (\<lambda>g. file_weight g a) (\<lambda>g. file_weight g b)"
    if "file_sized sz a" "file_sized sz b" for sz
    using assms that
    by (auto simp: weighs_def file_weight_def file_change_def file_sized_def change_entry_def change_weight_def
        diff_entry_new_from_dirent_def diff_status split: option.splits if_splits)
  ultimately show ?thesis by (simp add: file_diff_ok_def)
qed

lemma twoway_files:
  assumes "\<And>e. a = Some e \<Longrightarrow> d_name e = k" "\<And>e. b = Some e \<Longrightarrow> d_name e = k"
  shows "\<exists>new. (\<forall>u. diff_files [a, b] base (twoway_options fd) u = (0, new @ u)) \<and> file_diff_ok (base @ k) a b new"
proof -
  have only: "only_files [a, b] = [reg_entry a, reg_entry b]"
    by (simp add: only_files_def reg_entry_def)
  have nm: "reg_entry a = Some e \<Longrightarrow> d_name e = k" "reg_entry b = Some e \<Longrightarrow> d_name e = k" for e
    using assms by (auto simp: reg_entry_def split: option.splits if_splits)
  show ?thesis
  proof (cases "file_change (reg_entry a) (reg_entry b)")
    case None
    then have "diff_files [a, b] base (twoway_options fd) u = (0, [] @ u)" for u
      by (auto simp: diff_files_def only twoway_options_def twoway_diff_files_def file_change_def
          split: option.splits if_splits)
    with None show ?thesis by (intro exI [of _ "[]"]) (simp add: file_diff_none)
  next
    case (Some c)
    have "diff_files [a, b] base (twoway_options fd) u = (0, [change_entry (base @ k) c] @ u)" for u
      using Some nm
      by (auto simp: diff_files_def only twoway_options_def twoway_diff_files_def file_change_def
          change_entry_def diff_entry_new_from_dirent_def split: option.splits if_splits)
    with Some show ?thesis by (intro exI [of _ "[change_entry (base @ k) c]"]) (simp add: file_diff_some)
  qed
qed

text \<open>What a walk owes its caller: it succeeds, and adds exactly the differences.\<close>

definition twoway_walk_ok ::
    "(seafdir option list \<Rightarrow> string \<Rightarrow> diff_entry list \<Rightarrow> (int \<times> diff_entry list) option) \<Rightarrow> nat \<Rightarrow> fs_view \<Rightarrow> bool"
    where
  "twoway_walk_ok walk n F \<longleftrightarrow>
     (\<forall>t1 t2 base. t1 \<noteq> None \<or> t2 \<noteq> None \<longrightarrow> tree_wf n F t1 \<longrightarrow> tree_wf n F t2 \<longrightarrow>
        (\<exists>new. (\<forall>u. walk [t1, t2] base u = Some (0, new @ u)) \<and> tree_diff_ok n F t1 t2 base new))"

lemma sorted_desc_distinct: "sorted_wrt (\<lambda>a b. b < a) (ns :: string list) \<Longrightarrow> distinct ns"
  by (induction ns) auto

lemma twoway_dirs:
  assumes walk: "twoway_walk_ok walk n F"
    and a: "\<And>e. a = Some e \<Longrightarrow> d_name e = k" "tree_wf n F (sub_tree F a)"
      "\<And>e. a = Some e \<Longrightarrow> S_ISDIR (d_mode e) \<Longrightarrow> get_dir F (d_id e) \<noteq> None"
    and b: "\<And>e. b = Some e \<Longrightarrow> d_name e = k" "tree_wf n F (sub_tree F b)"
      "\<And>e. b = Some e \<Longrightarrow> S_ISDIR (d_mode e) \<Longrightarrow> get_dir F (d_id e) \<noteq> None"
  shows "\<exists>new. (\<forall>u. diff_directories walk F [a, b] base (twoway_options False) u = Some (0, new @ u)) \<and>
    tree_diff_ok n F (sub_tree F a) (sub_tree F b) (base @ k @ ''/'') new"
proof -
  define dent :: "dirent option \<Rightarrow> dirent option" where
    "dent d = (case d of Some e \<Rightarrow> if S_ISDIR (d_mode e) then Some e else None | None \<Rightarrow> None)" for d
  have only: "only_dirs [a, b] = [dent a, dent b]" by (simp add: only_dirs_def dent_def)
  have load: "load_sub_dirs F [dent a, dent b] = Some [sub_tree F a, sub_tree F b]"
    using a(3) b(3) by (auto simp: dent_def sub_tree_def split: option.splits)
  have nm: "dent a = Some e \<Longrightarrow> d_name e = k" "dent b = Some e \<Longrightarrow> d_name e = k" for e
    using a(1) b(1) by (auto simp: dent_def split: option.splits if_splits)
  have sub: "dent d = None \<Longrightarrow> sub_tree F d = None" for d
    by (auto simp: dent_def sub_tree_def split: option.splits if_splits)
  have name: "last_dirname [dent a, dent b] [] = k" if "dent a \<noteq> None \<or> dent b \<noteq> None"
    using that nm by (cases "dent a"; cases "dent b") auto
  have ex: "\<exists>w. (\<forall>u. walk [sub_tree F a, sub_tree F b] (base @ k @ ''/'') u = Some (0, w @ u)) \<and>
    tree_diff_ok n F (sub_tree F a) (sub_tree F b) (base @ k @ ''/'') w"
    if "dent a \<noteq> None \<or> dent b \<noteq> None"
  proof -
    have "sub_tree F a \<noteq> None \<or> sub_tree F b \<noteq> None"
      using that a(3) b(3) by (auto simp: dent_def sub_tree_def split: option.splits if_splits)
    then show ?thesis using walk a(2) b(2) unfolding twoway_walk_ok_def by blast
  qed
  consider (none) "dent a = None" "dent b = None"
    | (added) "dent a = None" "dent b \<noteq> None"
    | (deleted) "dent a \<noteq> None" "dent b = None"
    | (both) "dent a \<noteq> None" "dent b \<noteq> None" by blast
  then show ?thesis
  proof cases
    case none
    then show ?thesis by (intro exI [of _ "[]"]) (simp add: diff_directories_def only sub tree_diff_ok_def weighs_def)
  next
    case added
    then obtain e where e: "dent b = Some e" by blast
    from ex added obtain w where w: "\<And>u. walk [sub_tree F a, sub_tree F b] (base @ k @ ''/'') u = Some (0, w @ u)"
      "tree_diff_ok n F (sub_tree F a) (sub_tree F b) (base @ k @ ''/'') w" by blast
    show ?thesis
    proof (cases "d_id e = EMPTY_SHA1")
      case True
      have "sub_tree F b = get_dir F EMPTY_SHA1"
        using e True by (auto simp: dent_def sub_tree_def split: option.splits if_splits)
      then have "file_at n F (sub_tree F b) p = None" for p
        by (simp add: seaf_fs_manager_get_seafdir_def file_at_empty)
      then have "file_diffs n F (sub_tree F a) (sub_tree F b) (base @ k @ ''/'') = {}"
        using added sub by (simp add: file_diffs_def file_change_def)
      moreover have "tree_total g n F (sub_tree F a) = 0" "tree_total g n F (sub_tree F b) = 0" for g
        using added sub \<open>sub_tree F b = get_dir F EMPTY_SHA1\<close> by (auto simp: tree_total_empty seaf_fs_manager_get_seafdir_def)
      ultimately show ?thesis
        using e added True
        by (intro exI [of _ "[diff_entry_new_from_dirent DIFF_TYPE_COMMITS DIFF_STATUS_DIR_ADDED e base]"])
           (simp add: diff_directories_def only twoway_options_def twoway_diff_dirs_def diff_status tree_diff_ok_def
              weighs_dir [of _ "[]", simplified] weighs_def change_weight_def diff_entry_new_from_dirent_def is_file_entry_def)
    next
      case False
      then show ?thesis
        using e added name w load
        by (intro exI [of _ w])
           (simp add: diff_directories_def only twoway_options_def twoway_diff_dirs_def)
    qed
  next
    case deleted
    then obtain e where e: "dent a = Some e" by blast
    from ex deleted obtain w where w: "\<And>u. walk [sub_tree F a, sub_tree F b] (base @ k @ ''/'') u = Some (0, w @ u)"
      "tree_diff_ok n F (sub_tree F a) (sub_tree F b) (base @ k @ ''/'') w" by blast
    show ?thesis
      using e deleted name w load
      by (intro exI [of _ "w @ [diff_entry_new_from_dirent DIFF_TYPE_COMMITS DIFF_STATUS_DIR_DELETED e base]"])
         (auto simp: diff_directories_def only twoway_options_def twoway_diff_dirs_def diff_status tree_diff_ok_def
            intro!: weighs_dir)
  next
    case both
    from ex both obtain w where w: "\<And>u. walk [sub_tree F a, sub_tree F b] (base @ k @ ''/'') u = Some (0, w @ u)"
      "tree_diff_ok n F (sub_tree F a) (sub_tree F b) (base @ k @ ''/'') w" by blast
    show ?thesis
      using both name w load
      by (intro exI [of _ w])
         (auto simp: diff_directories_def only twoway_options_def twoway_diff_dirs_def)
  qed
qed

lemma twoway_step:
  assumes walk: "twoway_walk_ok walk n F"
    and wf: "tree_wf (Suc n) F t1" "tree_wf (Suc n) F t2"
  defines "a \<equiv> \<lambda>k. tree_entry t1 k" and "b \<equiv> \<lambda>k. tree_entry t2 k"
  shows "\<exists>new. (\<forall>steps u. diff_loop walk F base (twoway_options False) ([a k, b k] # steps) 0 u
        = diff_loop walk F base (twoway_options False) steps 0 (new @ u)) \<and>
      step_diff_ok n F base k (a k) (b k) new"
proof (cases "step_same [a k, b k]")
  case True
  then obtain x y where xy: "a k = Some x" "b k = Some y" "dirent_same x y"
    by (auto simp: step_same_def split: option.splits)
  then have "step_diffs n F base k (a k) (b k) = {}"
    using same_reg_sub [OF xy(3)] by (simp add: step_diffs_def)
  moreover have "weighs sz [] (\<lambda>g. entry_total g n F (a k)) (\<lambda>g. entry_total g n F (b k))"
    if "entry_sized sz n F (a k)" "entry_sized sz n F (b k)" for sz
  proof -
    have "weighs sz [] (\<lambda>g. file_weight g (a k)) (\<lambda>g. file_weight g (b k))"
      using file_diff_none [OF same_reg_sub(1) [OF xy(3)]] that xy(1,2) unfolding file_diff_ok_def entry_sized_def by auto
    then show ?thesis using same_reg_sub(2) [OF xy(3), of F] xy(1,2) by (simp add: weighs_def entry_total_def)
  qed
  ultimately show ?thesis using True by (intro exI [of _ "[]"]) (simp add: step_diff_ok_def)
next
  case False
  have nm: "a k = Some e \<Longrightarrow> d_name e = k" "b k = Some e \<Longrightarrow> d_name e = k" for e
    using tree_wf_entry(1) wf by (auto simp: a_def b_def)
  obtain nf where nf: "\<And>u. diff_files [a k, b k] base (twoway_options False) u = (0, nf @ u)"
    "file_diff_ok (base @ k) (a k) (b k) nf"
    using twoway_files [of "a k" k "b k" base False] nm by blast
  have "\<exists>nd. (\<forall>u. diff_directories walk F [a k, b k] base (twoway_options False) u = Some (0, nd @ u)) \<and>
    tree_diff_ok n F (sub_tree F (a k)) (sub_tree F (b k)) (base @ k @ ''/'') nd"
    by (rule twoway_dirs [OF walk])
       (use nm wf tree_wf_sub tree_wf_entry(3) in \<open>fastforce simp: a_def b_def\<close>)+
  then obtain nd where nd: "\<And>u. diff_directories walk F [a k, b k] base (twoway_options False) u = Some (0, nd @ u)"
    "tree_diff_ok n F (sub_tree F (a k)) (sub_tree F (b k)) (base @ k @ ''/'') nd" by blast
  have "step_diff_ok n F base k (a k) (b k) (nd @ nf)"
    using nf(2) nd(2)
    by (auto simp: step_diff_ok_def file_diff_ok_def tree_diff_ok_def step_diffs_def entry_sized_def entry_total_def
        add.commute [of "file_weight _ _"] intro!: weighs_append)
  then show ?thesis using False nf(1) nd(1) by (intro exI [of _ "nd @ nf"]) auto
qed

lemma twoway_steps:
  assumes walk: "twoway_walk_ok walk n F"
    and wf: "tree_wf (Suc n) F t1" "tree_wf (Suc n) F t2"
  shows "distinct ns \<Longrightarrow> \<exists>new. (\<forall>u. diff_loop walk F base (twoway_options False)
          (map (\<lambda>k. [tree_entry t1 k, tree_entry t2 k]) ns) 0 u = Some (0, new @ u)) \<and>
      file_entries new = (\<Union>k\<in>set ns. step_diffs n F base k (tree_entry t1 k) (tree_entry t2 k)) \<and>
      (\<forall>sz. tree_sized sz (Suc n) F t1 \<longrightarrow> tree_sized sz (Suc n) F t2 \<longrightarrow>
         weighs sz new (\<lambda>g. \<Sum>k\<in>set ns. entry_total g n F (tree_entry t1 k))
           (\<lambda>g. \<Sum>k\<in>set ns. entry_total g n F (tree_entry t2 k)))"
proof (induction ns)
  case Nil
  then show ?case by (intro exI [of _ "[]"]) (simp add: weighs_def)
next
  case (Cons k ns)
  then obtain new where new: "\<And>u. diff_loop walk F base (twoway_options False)
        (map (\<lambda>k. [tree_entry t1 k, tree_entry t2 k]) ns) 0 u = Some (0, new @ u)"
    "file_entries new = (\<Union>k\<in>set ns. step_diffs n F base k (tree_entry t1 k) (tree_entry t2 k))"
    "\<And>sz. tree_sized sz (Suc n) F t1 \<Longrightarrow> tree_sized sz (Suc n) F t2 \<Longrightarrow>
      weighs sz new (\<lambda>g. \<Sum>k\<in>set ns. entry_total g n F (tree_entry t1 k))
        (\<lambda>g. \<Sum>k\<in>set ns. entry_total g n F (tree_entry t2 k))" by auto
  obtain nk where nk: "\<And>steps u. diff_loop walk F base (twoway_options False)
        ([tree_entry t1 k, tree_entry t2 k] # steps) 0 u
        = diff_loop walk F base (twoway_options False) steps 0 (nk @ u)"
    "step_diff_ok n F base k (tree_entry t1 k) (tree_entry t2 k) nk"
    using twoway_step [OF walk wf, of base k] by blast
  have k: "k \<notin> set ns" using Cons.prems by simp
  have w: "weighs sz (new @ nk) (\<lambda>g. \<Sum>k\<in>set (k # ns). entry_total g n F (tree_entry t1 k))
      (\<lambda>g. \<Sum>k\<in>set (k # ns). entry_total g n F (tree_entry t2 k))"
    if "tree_sized sz (Suc n) F t1" "tree_sized sz (Suc n) F t2" for sz
    using weighs_append [OF new(3) [OF that]] nk(2) tree_sized_entry that k
    by (simp add: step_diff_ok_def add.commute [of "entry_total _ _ _ _"])
  then show ?case using new nk by (intro exI [of _ "new @ nk"]) (auto simp: step_diff_ok_def)
qed

lemma step_of_trees: "step_of (tree_ptrs [t1, t2]) = (\<lambda>k. [tree_entry t1 k, tree_entry t2 k])"
  by (auto simp: fun_eq_iff step_of_def tree_ptrs_def tree_entry_def split: option.splits)

lemma twoway_trees_ok: "twoway_walk_ok (diff_trees_recursive n F (twoway_options False)) n F"
proof (induction n)
  case 0
  have "t = None" if "tree_wf 0 F t" for t using that by (auto simp: tree_wf_def split: option.splits)
  then show ?case by (auto simp: twoway_walk_ok_def)
next
  case (Suc n)
  show ?case
    unfolding twoway_walk_ok_def
  proof (intro allI impI)
    fix t1 t2 base assume wf: "tree_wf (Suc n) F t1" "tree_wf (Suc n) F t2"
    have srt: "list_all (desc_by d_name) (tree_ptrs [t1, t2])"
      using wf by (auto simp: tree_ptrs_def tree_wf_def split: option.splits)
    obtain ns where ns: "nway_steps (tree_ptrs [t1, t2]) = map (step_of (tree_ptrs [t1, t2])) ns"
      "set ns = all_names (tree_ptrs [t1, t2])" "distinct ns"
      using nway_steps_sorted [OF srt] sorted_desc_distinct by blast
    have names: "k \<notin> set ns \<Longrightarrow> tree_entry t1 k = None \<and> tree_entry t2 k = None" for k
      by (auto simp: ns(2) all_names_def tree_ptrs_def tree_entry_def find_None_iff split: option.splits)
    have slash: "CHR ''/'' \<notin> set k" if "k \<in> set ns" for k
      using that wf by (auto simp: ns(2) all_names_def tree_ptrs_def tree_wf_def split: option.splits)
    show "\<exists>new. (\<forall>u. diff_trees_recursive (Suc n) F (twoway_options False) [t1, t2] base u = Some (0, new @ u)) \<and>
        tree_diff_ok (Suc n) F t1 t2 base new"
      using twoway_steps [OF Suc wf ns(3), of base] names
        tree_total_names [OF wf(1), of "set ns"] tree_total_names [OF wf(2), of "set ns"]
      by (simp add: ns(1) step_of_trees file_diffs_steps [OF wf names slash, of "set ns"] tree_diff_ok_def)
  qed
qed

section \<open>What the resolution of renames does\<close>

definition is_rename_of :: "diff_entry list \<Rightarrow> diff_entry \<Rightarrow> bool" where
  "is_rename_of des de \<longleftrightarrow>
     (\<exists>a\<in>set des. \<exists>d\<in>set des. de_sha1 a = de_sha1 d \<and> de_name de = de_name d \<and>
        de_new_name de = Some (de_name a) \<and>
        (de_status a = DIFF_STATUS_ADDED \<and> de_status d = DIFF_STATUS_DELETED \<and>
           de_status de = DIFF_STATUS_RENAMED \<or>
         de_status a = DIFF_STATUS_DIR_ADDED \<and> de_status d = DIFF_STATUS_DIR_DELETED \<and>
           de_status de = DIFF_STATUS_DIR_RENAMED))"

definition link_ids :: "links \<Rightarrow> nat list" where
  "link_ids l = List.map_filter fst l"

lemma link_ids_simps [simp]:
  "link_ids [] = []" "link_ids ((None, de) # l) = link_ids l" "link_ids ((Some k, de) # l) = k # link_ids l"
  by (simp_all add: link_ids_def map_filter_simps)

lemma link_ids_delete: "link_ids (delete_link k l) = filter (\<lambda>x. x \<noteq> k) (link_ids l)"
  by (induction l rule: list.induct) (auto simp: delete_link_def link_ids_def map_filter_simps split: option.splits)

lemma length_delete_link:
  "distinct (link_ids l) \<Longrightarrow> k \<in> set (link_ids l) \<Longrightarrow> Suc (length (delete_link k l)) = length l"
proof (induction l)
  case (Cons x l)
  have keep: "delete_link k l = l" if "k \<notin> set (link_ids l)" for k l
    using that by (induction l) (auto simp: delete_link_def link_ids_def map_filter_simps split: option.splits)
  obtain a b where x: "x = (a, b)" by fastforce
  show ?case
    using Cons keep by (cases a) (auto simp: x delete_link_def)
qed simp

definition table_ok :: "diff_entry list \<Rightarrow> char \<Rightarrow> nat set \<Rightarrow> (bytes \<rightharpoonup> nat) \<Rightarrow> bool" where
  "table_ok orig status ids h \<longleftrightarrow>
     (\<forall>s d. h s = Some d \<longrightarrow> d < length orig \<and> de_sha1 (orig ! d) = s \<and> de_status (orig ! d) = status \<and> d \<in> ids)"

definition renames_in :: "links \<Rightarrow> nat" where
  "renames_in l = length (filter (\<lambda>x. fst x = None) l)"

lemma renames_in_delete [simp]: "renames_in (delete_link k l) = renames_in l"
  by (induction l) (auto simp: renames_in_def delete_link_def)

definition rename_pair :: "diff_entry list \<Rightarrow> nat \<Rightarrow> nat \<Rightarrow> bool" where
  "rename_pair orig k d \<longleftrightarrow>
     k < length orig \<and> d < length orig \<and> k \<noteq> d \<and> de_sha1 (orig ! d) = de_sha1 (orig ! k) \<and>
     (de_status (orig ! k) = DIFF_STATUS_ADDED \<and> de_status (orig ! d) = DIFF_STATUS_DELETED \<or>
      de_status (orig ! k) = DIFF_STATUS_DIR_ADDED \<and> de_status (orig ! d) = DIFF_STATUS_DIR_DELETED)"

definition rename_entry :: "diff_entry list \<Rightarrow> nat \<Rightarrow> nat \<Rightarrow> diff_entry" where
  "rename_entry orig k d =
     (diff_entry_new (de_type (orig ! d))
        (if de_status (orig ! k) = DIFF_STATUS_DIR_ADDED then DIFF_STATUS_DIR_RENAMED else DIFF_STATUS_RENAMED)
        (de_sha1 (orig ! d)) (de_name (orig ! d)))\<lparr>de_new_name := Some (de_name (orig ! k))\<rparr>"

text \<open>What every step of the loop keeps holds at its end.\<close>

lemma resolve_loop_inv:
  assumes "distinct added" "distinct (link_ids l)" "set added \<subseteq> set (link_ids l)"
    and "\<forall>k\<in>set added. k < length orig \<and> de_status (orig ! k) \<in> {DIFF_STATUS_ADDED, DIFF_STATUS_DIR_ADDED}"
    and "table_ok orig DIFF_STATUS_DELETED (set (link_ids l)) df"
    and "table_ok orig DIFF_STATUS_DIR_DELETED (set (link_ids l)) dd" and "P l"
    and step: "\<And>l k d. P l \<Longrightarrow> distinct (link_ids l) \<Longrightarrow> k \<in> set (link_ids l) \<Longrightarrow> d \<in> set (link_ids l) \<Longrightarrow>
      rename_pair orig k d \<Longrightarrow> P ((None, rename_entry orig k d) # delete_link d (delete_link k l))"
  shows "P (resolve_loop orig added df dd l)"
  using assms(1-7) step
proof (induction orig added df dd l rule: resolve_loop.induct)
  case (2 orig k added df dd l)
  let ?p = "if de_status (orig ! k) = DIFF_STATUS_ADDED then df (de_sha1 (orig ! k)) else dd (de_sha1 (orig ! k))"
  show ?case
  proof (cases ?p)
    case None
    then show ?thesis using 2(1) [OF refl None] 2(4-) by simp
  next
    case (Some d)
    define rename where "rename = rename_entry orig k d"
    define l' where "l' = (None, rename) # delete_link d (delete_link k l)"
    note rename = rename_def [unfolded rename_entry_def]
    have k: "k < length orig" "de_status (orig ! k) \<in> {DIFF_STATUS_ADDED, DIFF_STATUS_DIR_ADDED}"
      "k \<in> set (link_ids l)" "k \<notin> set added" using 2(4-7) by auto
    have d: "d < length orig" "de_sha1 (orig ! d) = de_sha1 (orig ! k)" "d \<in> set (link_ids l)"
      "de_status (orig ! d) = (if de_status (orig ! k) = DIFF_STATUS_ADDED
         then DIFF_STATUS_DELETED else DIFF_STATUS_DIR_DELETED)"
      using Some 2(8,9) by (auto simp: table_ok_def split: if_splits)
    have dk: "d \<noteq> k" "d \<notin> set added" using d k 2(7) by (auto simp: diff_status split: if_splits)
    have ids: "link_ids l' = filter (\<lambda>x. x \<noteq> d \<and> x \<noteq> k) (link_ids l)"
      by (simp add: l'_def link_ids_delete conj_commute)
    have "rename_pair orig k d"
      using k(1,2) d dk by (auto simp: rename_pair_def)
    then have P: "P l'" using 2(11) [OF 2(10,5) k(3) d(3)] by (simp add: l'_def rename_def)
    have c: "distinct added" "distinct (link_ids l')" "set added \<subseteq> set (link_ids l')"
      "\<forall>k\<in>set added. k < length orig \<and> de_status (orig ! k) \<in> {DIFF_STATUS_ADDED, DIFF_STATUS_DIR_ADDED}"
      using 2(4-7) k(4) dk by (auto simp: ids)
    let ?s = "de_sha1 (orig ! k)"
    have other: "df x = Some d' \<Longrightarrow> (de_status (orig ! k) = DIFF_STATUS_ADDED \<and> x = ?s) \<or> d' \<noteq> d \<and> d' \<noteq> k"
      "dd x = Some d' \<Longrightarrow> (de_status (orig ! k) \<noteq> DIFF_STATUS_ADDED \<and> x = ?s) \<or> d' \<noteq> d \<and> d' \<noteq> k" for x d'
      using 2(8,9) d k(2) by (auto simp: table_ok_def diff_status split: if_splits)
    show ?thesis
    proof (cases "de_status (orig ! k) = DIFF_STATUS_ADDED")
      case True
      then have nd: "de_status (orig ! d) \<noteq> DIFF_STATUS_DIR_DELETED" using d(4) by (simp add: diff_status)
      have t: "table_ok orig DIFF_STATUS_DELETED (set (link_ids l')) (df(?s := None))"
        "table_ok orig DIFF_STATUS_DIR_DELETED (set (link_ids l')) dd"
        using 2(8,9) True unfolding table_ok_def ids by (auto split: if_splits dest: other)
      have un: "resolve_loop orig (k # added) df dd l = resolve_loop orig added (df(?s := None)) dd l'"
        by (simp only: resolve_loop.simps Let_def Some option.case rename l'_def nd if_False refl)
      show ?thesis
        using 2(3) [OF refl Some refl refl rename l'_def nd c t P 2(11)] unfolding un .
    next
      case False
      then have nd: "de_status (orig ! d) = DIFF_STATUS_DIR_DELETED" using d(4) by simp
      have t: "table_ok orig DIFF_STATUS_DELETED (set (link_ids l')) df"
        "table_ok orig DIFF_STATUS_DIR_DELETED (set (link_ids l')) (dd(?s := None))"
        using 2(8,9) False unfolding table_ok_def ids by (auto split: if_splits dest: other)
      have un: "resolve_loop orig (k # added) df dd l = resolve_loop orig added df (dd(?s := None)) l'"
        by (simp only: resolve_loop.simps Let_def Some option.case rename l'_def nd if_True refl)
      show ?thesis
        using 2(2) [OF refl Some refl refl rename l'_def nd c t P 2(11)] unfolding un .
    qed
  qed
qed simp

lemma rename_entry_is_rename: "rename_pair orig k d \<Longrightarrow> is_rename_of orig (rename_entry orig k d)"
  unfolding is_rename_of_def
  by (rule bexI [of _ "orig ! k"], rule bexI [of _ "orig ! d"])
     (auto simp: rename_pair_def rename_entry_def diff_entry_new_def diff_status)

lemma collect_deleted_ok:
  assumes "\<forall>(k, de)\<in>set ps. k < length orig \<and> de = orig ! k \<and> k \<in> ids" and "table_ok orig status ids h"
  shows "table_ok orig status ids (collect_deleted status ce ps h)"
  using assms
proof (induction status ce ps h rule: collect_deleted.induct)
  case (2 status ce k de ps h)
  let ?h = "if de_status de = status \<and> \<not> (de_sha1 de = empty_sha1 \<and> \<not> ce) then h(de_sha1 de \<mapsto> k) else h"
  have "\<forall>(k, de)\<in>set ps. k < length orig \<and> de = orig ! k \<and> k \<in> ids" "table_ok orig status ids ?h"
    using 2(2,3) by (auto simp: table_ok_def)
  from 2(1) [OF this] show ?case unfolding collect_deleted.simps .
qed simp

lemma collect_added_ok:
  assumes "\<forall>(k, de)\<in>set ps. k < length orig \<and> de = orig ! k" and "distinct (map fst ps @ added)"
    and "\<forall>k\<in>set added. k < length orig \<and> de_status (orig ! k) \<in> {DIFF_STATUS_ADDED, DIFF_STATUS_DIR_ADDED}"
  shows "distinct (collect_added cf cd ps added) \<and> (\<forall>k\<in>set (collect_added cf cd ps added).
      k < length orig \<and> de_status (orig ! k) \<in> {DIFF_STATUS_ADDED, DIFF_STATUS_DIR_ADDED})"
  using assms
proof (induction cf cd ps added rule: collect_added.induct)
  case (2 cf cd k de ps added)
  let ?a = "if (de_status de = DIFF_STATUS_ADDED \<and> \<not> (de_sha1 de = empty_sha1 \<and> \<not> cf)) \<or>
           (de_status de = DIFF_STATUS_DIR_ADDED \<and> \<not> (de_sha1 de = empty_sha1 \<and> \<not> cd))
        then k # added else added"
  have "\<forall>(k, de)\<in>set ps. k < length orig \<and> de = orig ! k" "distinct (map fst ps @ ?a)"
    "\<forall>k\<in>set ?a. k < length orig \<and> de_status (orig ! k) \<in> {DIFF_STATUS_ADDED, DIFF_STATUS_DIR_ADDED}"
    using 2(2-4) by auto
  from 2(1) [OF this] show ?case unfolding collect_added.simps .
qed simp

lemma renames_ids: "length l = length (link_ids l) + renames_in l"
  by (induction l) (auto simp: renames_in_def link_ids_def map_filter_simps split: option.splits)

definition enum_links :: "diff_entry list \<Rightarrow> links" where
  "enum_links des = map (\<lambda>(k, de). (Some k, de)) (enumerate 0 des)"

lemma link_ids_enum [simp]: "link_ids (enum_links des) = [0..<length des]"
proof -
  have "link_ids (map (\<lambda>(k, de). (Some k, de)) ps) = map fst ps" for ps
    by (induction ps) auto
  then show ?thesis by (simp add: enum_links_def)
qed

lemma length_enum_links [simp]: "length (enum_links des) = length des"
  by (simp add: enum_links_def)

text \<open>The same for the whole resolution.\<close>

lemma diff_resolve_renames_inv:
  assumes "P (enum_links des)"
    and "\<And>l k d. P l \<Longrightarrow> distinct (link_ids l) \<Longrightarrow> k \<in> set (link_ids l) \<Longrightarrow> d \<in> set (link_ids l) \<Longrightarrow>
      rename_pair des k d \<Longrightarrow> P ((None, rename_entry des k d) # delete_link d (delete_link k l))"
  obtains l where "diff_resolve_renames des = map snd l" "P l"
proof -
  define cf where "cf = (count_empty DIFF_STATUS_DELETED des = 1 \<and> count_empty DIFF_STATUS_ADDED des = 1)"
  define cd where "cd = (count_empty DIFF_STATUS_DIR_DELETED des = 1 \<and> count_empty DIFF_STATUS_DIR_ADDED des = 1)"
  let ?ps = "enumerate 0 des"
  have ps: "\<forall>(k, de)\<in>set ?ps. k < length des \<and> de = des ! k \<and> k \<in> set (link_ids (enum_links des))"
    by (auto simp: in_set_enumerate_eq)
  then have ps': "\<forall>(k, de)\<in>set ?ps. k < length des \<and> de = des ! k" by auto
  have added: "distinct (collect_added cf cd ?ps [])"
    "\<forall>k\<in>set (collect_added cf cd ?ps []). k < length des \<and>
       de_status (des ! k) \<in> {DIFF_STATUS_ADDED, DIFF_STATUS_DIR_ADDED}"
    using collect_added_ok [OF ps', of "[]" cf cd] by simp_all
  have ids: "distinct (link_ids (enum_links des))"
    "set (collect_added cf cd ?ps []) \<subseteq> set (link_ids (enum_links des))"
    using added(2) by auto
  have none: "table_ok des s (set (link_ids (enum_links des))) (\<lambda>_. None)" for s
    by (simp add: table_ok_def)
  show ?thesis
  proof (rule that)
    show "diff_resolve_renames des = map snd (resolve_loop des (collect_added cf cd ?ps [])
      (collect_deleted DIFF_STATUS_DELETED cf ?ps (\<lambda>_. None))
      (collect_deleted DIFF_STATUS_DIR_DELETED cd ?ps (\<lambda>_. None)) (enum_links des))"
      by (simp only: diff_resolve_renames_def Let_def cf_def cd_def enum_links_def)
    show "P (resolve_loop des (collect_added cf cd ?ps [])
      (collect_deleted DIFF_STATUS_DELETED cf ?ps (\<lambda>_. None))
      (collect_deleted DIFF_STATUS_DIR_DELETED cd ?ps (\<lambda>_. None)) (enum_links des))"
      by (rule resolve_loop_inv [OF added(1) ids added(2)
        collect_deleted_ok [OF ps none, of DIFF_STATUS_DELETED cf]
        collect_deleted_ok [OF ps none, of DIFF_STATUS_DIR_DELETED cd]]) (use assms in blast)+
  qed
qed

lemma diff_resolve_renames_ok:
  obtains l where "diff_resolve_renames des = map snd l"
    "\<forall>x\<in>set l. (fst x = None \<longrightarrow> is_rename_of des (snd x)) \<and> (fst x \<noteq> None \<longrightarrow> snd x \<in> set des)"
    "length l + renames_in l = length des"
proof -
  let ?P = "\<lambda>l. (\<forall>x\<in>set l. (fst x = None \<longrightarrow> is_rename_of des (snd x)) \<and> (fst x \<noteq> None \<longrightarrow> snd x \<in> set des)) \<and>
    length l + renames_in l = length des"
  have "renames_in (enum_links des) = 0" using renames_ids [of "enum_links des"] by simp
  then have "?P (enum_links des)" by simp (auto simp: enum_links_def in_set_enumerate_eq)
  moreover have "?P ((None, rename_entry des k d) # delete_link d (delete_link k l))"
    if P: "?P l" and l: "distinct (link_ids l)" "k \<in> set (link_ids l)" "d \<in> set (link_ids l)" and r: "rename_pair des k d" for l k d
  proof
    show "\<forall>x\<in>set ((None, rename_entry des k d) # delete_link d (delete_link k l)).
        (fst x = None \<longrightarrow> is_rename_of des (snd x)) \<and> (fst x \<noteq> None \<longrightarrow> snd x \<in> set des)"
      using P rename_entry_is_rename [OF r] by (auto simp: delete_link_def)
    have cons: "renames_in ((None, x) # m) = Suc (renames_in m)" for x m by (simp add: renames_in_def)
    have "d \<noteq> k" using r by (simp add: rename_pair_def)
    then have "Suc (Suc (length (delete_link d (delete_link k l)))) = length l"
      using length_delete_link [of "delete_link k l" d] length_delete_link [of l k] l by (simp add: link_ids_delete)
    then show "length ((None, rename_entry des k d) # delete_link d (delete_link k l)) +
        renames_in ((None, rename_entry des k d) # delete_link d (delete_link k l)) = length des"
      using P cons by simp
  qed
  ultimately obtain l where "diff_resolve_renames des = map snd l" "?P l"
    by (rule diff_resolve_renames_inv [of ?P des])
  then show ?thesis using that [of l] by simp
qed

lemma delete_link_weight:
  "distinct (link_ids l) \<Longrightarrow> k \<in> set (link_ids l) \<Longrightarrow> \<forall>(j, de)\<in>set l. \<forall>m. j = Some m \<longrightarrow> de = des ! m \<Longrightarrow>
   changes_total g (map snd (delete_link k l)) = changes_total g (map snd l) - change_weight g (des ! k)"
proof (induction l)
  case (Cons x l)
  obtain j de where x: "x = (j, de)" by fastforce
  show ?case
  proof (cases "j = Some k")
    case True
    have "delete_link k l = l" if "k \<notin> set (link_ids l)" for l :: links
      using that by (induction l) (auto simp: delete_link_def link_ids_def map_filter_simps split: option.splits)
    then have "delete_link k (x # l) = l" using True Cons.prems(1) x by (simp add: delete_link_def)
    then show ?thesis using True Cons.prems(3) x by simp
  next
    case False
    then have "delete_link k (x # l) = x # delete_link k l" by (simp add: delete_link_def x)
    moreover have "distinct (link_ids l)" "k \<in> set (link_ids l)"
      using Cons.prems False x by (cases j; simp)+
    ultimately show ?thesis using Cons.IH Cons.prems(3) x by simp
  qed
qed simp

lemma rename_pair_weight:
  assumes "rename_pair des k d" "\<And>de. de \<in> set des \<Longrightarrow> is_file_entry de \<Longrightarrow> de_size de = sz (de_sha1 de)"
  shows "change_weight g (des ! k) + change_weight g (des ! d) = 0" "change_weight g (rename_entry des k d) = 0"
proof -
  have "des ! k \<in> set des" "des ! d \<in> set des" using assms(1) by (auto simp: rename_pair_def)
  then show "change_weight g (des ! k) + change_weight g (des ! d) = 0"
    using assms by (auto simp: rename_pair_def change_weight_def diff_status is_file_entry_def)
  show "change_weight g (rename_entry des k d) = 0"
    by (simp add: rename_entry_def change_weight_def diff_entry_new_def diff_status)
qed

text \<open>A deleted and an added file that become one renamed file have the same content, so the weight stays.\<close>

lemma resolve_renames_weight:
  assumes "\<And>de. de \<in> set des \<Longrightarrow> is_file_entry de \<Longrightarrow> de_size de = sz (de_sha1 de)"
  shows "changes_total g (diff_resolve_renames des) = changes_total g des"
proof -
  let ?P = "\<lambda>l. (\<forall>(j, de)\<in>set l. \<forall>m. j = Some m \<longrightarrow> de = des ! m) \<and> changes_total g (map snd l) = changes_total g des"
  have "map snd (enum_links des) = des"
    by (rule nth_equalityI) (auto simp: enum_links_def nth_enumerate_eq)
  then have "?P (enum_links des)" by (auto simp: enum_links_def in_set_enumerate_eq)
  moreover have "?P ((None, rename_entry des k d) # delete_link d (delete_link k l))"
    if P: "?P l" and l: "distinct (link_ids l)" "k \<in> set (link_ids l)" "d \<in> set (link_ids l)" and r: "rename_pair des k d" for l k d
  proof
    have dk: "d \<noteq> k" using r by (simp add: rename_pair_def)
    have tag: "\<forall>(j, de)\<in>set (delete_link x l). \<forall>m. j = Some m \<longrightarrow> de = des ! m" for x
      using P by (auto simp: delete_link_def)
    show "\<forall>(j, de)\<in>set ((None, rename_entry des k d) # delete_link d (delete_link k l)). \<forall>m. j = Some m \<longrightarrow> de = des ! m"
      using P by (auto simp: delete_link_def)
    have "changes_total g (map snd (delete_link d (delete_link k l)))
        = changes_total g (map snd l) - change_weight g (des ! k) - change_weight g (des ! d)"
      using delete_link_weight [OF l(1,2), of des g] delete_link_weight [of "delete_link k l" d des g] P tag dk l
      by (simp add: link_ids_delete)
    then show "changes_total g (map snd ((None, rename_entry des k d) # delete_link d (delete_link k l))) = changes_total g des"
      using rename_pair_weight(1) [OF r assms, of g] P
      by (simp add: rename_pair_weight(2) [OF r assms, of g] add_eq_0_iff)
  qed
  ultimately obtain l where "diff_resolve_renames des = map snd l" "?P l"
    by (rule diff_resolve_renames_inv [of ?P des])
  then show ?thesis by simp
qed

section \<open>Properties\<close>

lemma twoway_diff_ok:
  assumes "get_dir F root1 = Some d1" "get_dir F root2 = Some d2" "tree_wf n F (Some d1)" "tree_wf n F (Some d2)"
  shows "\<exists>new. diff_trees n F [root1, root2] (twoway_options False) acc = Some (0, new @ acc) \<and>
    tree_diff_ok n F (Some d1) (Some d2) [] new"
proof -
  obtain new where "\<And>u. diff_trees_recursive n F (twoway_options False) [Some d1, Some d2] [] u = Some (0, new @ u)"
    "tree_diff_ok n F (Some d1) (Some d2) [] new"
    using twoway_trees_ok [of n F] assms(3,4) unfolding twoway_walk_ok_def by blast
  then show ?thesis
    using assms(1,2) by (intro exI [of _ new]) (simp add: diff_trees_def)
qed


lemma get_dir_empty: "get_dir F EMPTY_SHA1
    = Some \<lparr>dir_version = fv_version F, dir_id = EMPTY_SHA1, entries = [], ondisk = None\<rparr>"
  by (simp add: seaf_fs_manager_get_seafdir_def)

lemma demo_view_empty [simp]: "get_dir demo_view EMPTY_SHA1
    = Some \<lparr>dir_version = 0, dir_id = EMPTY_SHA1, entries = [], ondisk = None\<rparr>"
  by (simp add: get_dir_empty) (simp add: demo_view_def)

lemma demo_wf [simp]: "dir_wf (Suc n) demo_view
    \<lparr>dir_version = 0, dir_id = demo_root_id, entries = [demo_dirent ''f'' 0x81A4], ondisk = None\<rparr>"
  by simp


text \<open>Diffing a readable tree with itself reports nothing, whatever order its entries have.\<close>

theorem diff_same_root:
  assumes "get_dir F root = Some d"
  shows "diff_commit_roots (Suc n) F root root [] fold_dir = Some (0, [])"
proof -
  have "diff_loop walk F base opt gs 0 u = Some (0, u)"
    if "\<And>g. g \<in> set gs \<Longrightarrow> \<exists>e. g = [Some e, Some e]" for walk base gs and opt :: "diff_entry list diff_options" and u
    using that by (induction gs) (fastforce simp: step_same_def)+
  moreover have "\<exists>e. g = [Some e, Some e]" if "g \<in> set (nway_steps (tree_ptrs [Some d, Some d]))" for g
    using that nway_steps_same [of g 2 "entries d"] by (auto simp: tree_ptrs_def numeral_2_eq_2)
  ultimately have "diff_trees (Suc n) F [root, root] (twoway_options fold_dir) [] = Some (0, [])"
    using assms by (simp add: diff_trees_def)
  then show ?thesis
    by (simp add: diff_commit_roots_def diff_resolve_renames_def enumerate_eq_zip)
qed

theorem diff_same_root_witness:
  "diff_commit_roots 1 demo_view demo_root_id demo_root_id [] False = Some (0, [])"
  using diff_same_root [of demo_view demo_root_id _ 0 False] by simp

text \<open>\<open>diff_commit_roots\<close> answers 0 and "no differences" when a root directory cannot be read: the
  failure of \<open>diff_trees\<close> is lost.\<close>

theorem diff_commit_roots_hides_failure:
  assumes "get_dir F root1 = None \<or> get_dir F root2 = None"
  shows "diff_commit_roots n F root1 root2 [] fold_dir = Some (0, [])"
proof -
  have "diff_trees n F [root1, root2] (twoway_options fold_dir) [] = Some (-1, [])"
    using assms by (auto simp: diff_trees_def split: option.splits)
  then show ?thesis
    by (simp add: diff_commit_roots_def diff_resolve_renames_def enumerate_eq_zip)
qed

theorem diff_commit_roots_hides_failure_witness:
  "diff_commit_roots 1 broken_view demo_root_id demo_file_id [] False = Some (0, [])"
  by (rule diff_commit_roots_hides_failure) simp


definition demo_diff :: "char \<Rightarrow> string \<Rightarrow> diff_entry" where
  "demo_diff status name = diff_entry_new DIFF_TYPE_COMMITS status ''01234567890123456789'' name"


end
