(* ===== verification/VcCommon.thy ===== *)
theory VcCommon
  imports CommitMgr FsTree
begin

text \<open>
  The history questions of \<open>common/vc-common.c\<close>: the merge base of two commits, whether one commit
  is a fast-forward of another, who last changed a file, and the name of a conflict copy.

  Fuels: \<open>m\<close> bounds each traversal of the commit graph, \<open>n\<close> the nesting of \<open>merge_bases_many\<close> and
  \<open>get_independent_commits\<close>, \<open>k\<close> the iterations of the loop of \<open>get_merge_base\<close>.  None stands for a
  computation that does not return: the fuel ran out, or a dropped (NULL) commit was dereferenced.
  \<open>vc_compare_commits_exact\<close> shows that fuels above the number of ancestors give a result.
\<close>

section \<open>Merge bases\<close>

definition vc_compare_commit_by_time :: "commit \<Rightarrow> commit \<Rightarrow> int" where
  "vc_compare_commit_by_time a b = sint (ucast (ctime b - ctime a) :: u32)"

definition compare_commit :: "commit \<Rightarrow> commit \<Rightarrow> int" where
  "compare_commit a b = strcmp (commit_id a) (commit_id b)"

definition add_to_commit_hash :: "string set commit_func" where
  "add_to_commit_hash c h = (True, False, insert (commit_id c) h)"

text \<open>The traversal of a commit's history runs in the repository the commit names.\<close>

definition in_repo_of :: "commit_view \<Rightarrow> commit \<Rightarrow> commit_view" where
  "in_repo_of V c = V\<lparr>cv_repo := repo_id c\<rparr>"

text \<open>The inner None is the NULL table of a traversal that failed.\<close>

definition commit_tree_to_hash :: "nat \<Rightarrow> commit_view \<Rightarrow> commit \<Rightarrow> string set option option" where
  "commit_tree_to_hash m V head =
     (case seaf_commit_manager_traverse_commit_tree m (in_repo_of V head) (commit_id head)
             add_to_commit_hash {} False of
        None \<Rightarrow> None
      | Some (res, h) \<Rightarrow> if \<not> res then Some None else Some (Some h))"

record merge_traverse_data =
  mt_result :: "commit list"
  mt_hash :: "string set"

definition get_merge_bases :: "merge_traverse_data commit_func" where
  "get_merge_bases c d =
     (if commit_id c \<in> mt_hash d then
        (True, True,
         if \<not> list_ex (\<lambda>x. compare_commit x c = 0) (mt_result d)
         then d\<lparr>mt_result := g_list_insert_sorted vc_compare_commit_by_time c (mt_result d)\<rparr>
         else d)
      else (True, False, d))"

text \<open>
  \<open>get_independent_commits\<close>, with the function that finds the merge bases of two of its commits.
  The slots of the array hold NULL once their commit was dropped.
\<close>

fun drop_bases :: "nat \<Rightarrow> nat \<Rightarrow> commit list \<Rightarrow> commit option list \<Rightarrow> commit option list option" where
  "drop_bases i j [] rs = Some rs"
| "drop_bases i j (c # cs) rs =
     (case rs ! i of
        None \<Rightarrow> None
      | Some a \<Rightarrow>
          (let rs = (if strcmp (commit_id a) (commit_id c) = 0 then rs[i := None] else rs) in
           case rs ! j of
             None \<Rightarrow> None
           | Some b \<Rightarrow>
               drop_bases i j cs (if strcmp (commit_id b) (commit_id c) = 0 then rs[j := None] else rs)))"

fun independent_loop ::
    "(commit \<Rightarrow> commit list \<Rightarrow> commit list option) \<Rightarrow> (nat \<times> nat) list \<Rightarrow> commit option list
     \<Rightarrow> commit option list option" where
  "independent_loop bases [] rs = Some rs"
| "independent_loop bases ((i, j) # ps) rs =
     (case (rs ! i, rs ! j) of
        (Some a, Some b) \<Rightarrow>
          (case bases a [b] of
             None \<Rightarrow> None
           | Some res \<Rightarrow>
               (case drop_bases i j res rs of
                  None \<Rightarrow> None
                | Some rs' \<Rightarrow> independent_loop bases ps rs'))
      | _ \<Rightarrow> independent_loop bases ps rs)"

definition index_pairs :: "nat \<Rightarrow> (nat \<times> nat) list" where
  "index_pairs cnt = concat (map (\<lambda>i. map (Pair i) [i + 1..<cnt]) [0..<cnt - 1])"

fun survivors :: "commit option list \<Rightarrow> commit list \<Rightarrow> commit list" where
  "survivors [] result = result"
| "survivors (None # rs) result = survivors rs result"
| "survivors (Some c # rs) result =
     survivors rs (g_list_insert_sorted vc_compare_commit_by_time c result)"

definition get_independent_commits ::
    "(commit \<Rightarrow> commit list \<Rightarrow> commit list option) \<Rightarrow> commit list \<Rightarrow> commit list option" where
  "get_independent_commits bases commits =
     (case independent_loop bases (index_pairs (length commits)) (map Some commits) of
        None \<Rightarrow> None
      | Some rs \<Rightarrow> Some (survivors rs []))"

primrec traverse_twos ::
    "nat \<Rightarrow> commit_view \<Rightarrow> commit list \<Rightarrow> merge_traverse_data \<Rightarrow> (bool \<times> merge_traverse_data) option"
    where
  "traverse_twos m V [] d = Some (True, d)"
| "traverse_twos m V (t # ts) d =
     (case seaf_commit_manager_traverse_commit_tree m (in_repo_of V t) (commit_id t)
             get_merge_bases d False of
        None \<Rightarrow> None
      | Some (res, d') \<Rightarrow> if \<not> res then Some (False, d') else traverse_twos m V ts d')"

text \<open>
  The NULL list is the empty one.  The test for \<open>one\<close> being the same object as one of \<open>twos\<close> is not
  modelled: every commit here comes from a load of its own, so it never holds.
\<close>

primrec merge_bases_many ::
    "nat \<Rightarrow> nat \<Rightarrow> commit_view \<Rightarrow> commit \<Rightarrow> commit list \<Rightarrow> commit list option" where
  "merge_bases_many 0 m V one twos = None"
| "merge_bases_many (Suc n) m V one twos =
     (case commit_tree_to_hash m V one of
        None \<Rightarrow> None
      | Some None \<Rightarrow> Some []
      | Some (Some h) \<Rightarrow>
          (case traverse_twos m V twos \<lparr>mt_result = [], mt_hash = h\<rparr> of
             None \<Rightarrow> None
           | Some (res, d) \<Rightarrow>
               if \<not> res then Some []
               else if length (mt_result d) \<le> 1 then Some (mt_result d)
               else get_independent_commits (merge_bases_many n m V) (mt_result d)))"

primrec merge_base_loop ::
    "nat \<Rightarrow> (commit \<Rightarrow> commit list \<Rightarrow> commit list option) \<Rightarrow> commit list \<Rightarrow> commit list option" where
  "merge_base_loop 0 bases result = (if length result \<le> 1 then Some result else None)"
| "merge_base_loop (Suc k) bases result =
     (if length result \<le> 1 then Some result
      else (case bases (hd result) (tl result) of
              None \<Rightarrow> None
            | Some result' \<Rightarrow> merge_base_loop k bases result'))"

definition get_merge_base ::
    "nat \<Rightarrow> nat \<Rightarrow> nat \<Rightarrow> commit_view \<Rightarrow> commit \<Rightarrow> commit \<Rightarrow> commit option option" where
  "get_merge_base k n m V head remote =
     (case merge_bases_many n m V head [remote] of
        None \<Rightarrow> None
      | Some result \<Rightarrow>
          (case merge_base_loop k (merge_bases_many n m V) result of
             None \<Rightarrow> None
           | Some [] \<Rightarrow> Some None
           | Some (c # cs) \<Rightarrow> Some (Some c)))"

datatype vc_compare_result = VC_UP_TO_DATE | VC_FAST_FORWARD | VC_INDEPENDENT

definition vc_compare_commits ::
    "nat \<Rightarrow> nat \<Rightarrow> nat \<Rightarrow> commit_view \<Rightarrow> string \<Rightarrow> string \<Rightarrow> vc_compare_result option" where
  "vc_compare_commits k n m V c1 c2 =
     (if strcmp c1 c2 = 0 then Some VC_UP_TO_DATE
      else (case seaf_commit_manager_get_commit V c1 of
              None \<Rightarrow> Some VC_INDEPENDENT
            | Some commit1 \<Rightarrow>
                (case seaf_commit_manager_get_commit V c2 of
                   None \<Rightarrow> Some VC_INDEPENDENT
                 | Some commit2 \<Rightarrow>
                     (case get_merge_base k n m V commit1 commit2 of
                        None \<Rightarrow> None
                      | Some None \<Rightarrow> Some VC_INDEPENDENT
                      | Some (Some ca) \<Rightarrow>
                          Some (if strcmp (commit_id ca) (commit_id commit1) = 0 then VC_UP_TO_DATE
                                else if strcmp (commit_id ca) (commit_id commit2) = 0 then VC_FAST_FORWARD
                                else VC_INDEPENDENT)))))"

definition is_fast_forward :: "nat \<Rightarrow> nat \<Rightarrow> nat \<Rightarrow> commit_view \<Rightarrow> string \<Rightarrow> string \<Rightarrow> bool option" where
  "is_fast_forward k n m V src_head dst_head =
     (case vc_compare_commits k n m V src_head dst_head of
        None \<Rightarrow> None
      | Some res \<Rightarrow> Some (res = VC_FAST_FORWARD))"

section \<open>Who changed a file\<close>

text \<open>
  \<open>diff_parents_with_path\<close> answers an error, that the file differs from both parents (Inr None),
  or the parent to go on with.  A commit without a first parent has the NULL id, which no commit
  has.
\<close>

definition path_id :: "fs_view \<Rightarrow> string \<Rightarrow> string \<Rightarrow> seaf_error + string option" where
  "path_id F root path =
     (case seaf_fs_manager_path_to_obj_id F root path of
        Inl e \<Rightarrow> Inl e
      | Inr None \<Rightarrow> Inr None
      | Inr (Some (i, mode)) \<Rightarrow> Inr (Some i))"

definition opt_commit :: "commit_view \<Rightarrow> string option \<Rightarrow> commit option" where
  "opt_commit V i = (case i of None \<Rightarrow> None | Some x \<Rightarrow> seaf_commit_manager_get_commit V x)"

definition compare_with_parents ::
    "string \<Rightarrow> commit \<Rightarrow> commit option \<Rightarrow> string option \<Rightarrow> string option \<Rightarrow> string option" where
  "compare_with_parents fid p1 p2 f1 f2 =
     (case p2 of
        None \<Rightarrow> if f1 = None \<or> f1 \<noteq> Some fid then None else Some (commit_id p1)
      | Some q \<Rightarrow>
          (case (f1, f2) of
             (Some a, Some b) \<Rightarrow>
               if fid \<noteq> a \<and> fid \<noteq> b then None
               else if fid = a then Some (commit_id p1) else Some (commit_id q)
           | (Some a, None) \<Rightarrow> if fid \<noteq> a then None else Some (commit_id p1)
           | (None, Some b) \<Rightarrow> if fid \<noteq> b then None else Some (commit_id q)
           | (None, None) \<Rightarrow> None))"

definition diff_parents_with_path ::
    "commit_view \<Rightarrow> fs_view \<Rightarrow> commit \<Rightarrow> string \<Rightarrow> string \<Rightarrow> seaf_error + string option" where
  "diff_parents_with_path V F c path fid =
     (case opt_commit (in_repo_of V c) (parent_id c) of
        None \<Rightarrow> Inl SEAF_ERR_GENERAL
      | Some p1 \<Rightarrow>
          if strcmp (root_id p1) EMPTY_SHA1 = 0 then Inr None
          else if second_parent_id c \<noteq> None \<and> opt_commit (in_repo_of V c) (second_parent_id c) = None
          then Inl SEAF_ERR_GENERAL
          else (let p2 = opt_commit (in_repo_of V c) (second_parent_id c) in
                case path_id F (root_id p1) path of
                  Inl e \<Rightarrow> Inl e
                | Inr f1 \<Rightarrow>
                    (case (case p2 of None \<Rightarrow> Inr None | Some q \<Rightarrow> path_id F (root_id q) path) of
                       Inl e \<Rightarrow> Inl e
                     | Inr f2 \<Rightarrow> Inr (compare_with_parents fid p1 p2 f1 f2))))"

text \<open>The status, \<open>*modifier\<close> and \<open>*mtime\<close>.\<close>

type_synonym modifier_mtime = "int \<times> string option \<times> u64"

primrec modifier_mtime_v0_loop ::
    "nat \<Rightarrow> commit_view \<Rightarrow> fs_view \<Rightarrow> string \<Rightarrow> string \<Rightarrow> modifier_mtime option" where
  "modifier_mtime_v0_loop 0 V F i path = None"
| "modifier_mtime_v0_loop (Suc n) V F i path =
     (case seaf_commit_manager_get_commit V i of
        None \<Rightarrow> Some (-1, None, 0)
      | Some c \<Rightarrow>
          if parent_id c = None then Some (0, None, 0)
          else (case path_id F (root_id c) path of
                  Inl _ \<Rightarrow> Some (-1, None, 0)
                | Inr None \<Rightarrow> Some (-1, None, 0)
                | Inr (Some fid) \<Rightarrow>
                    (case diff_parents_with_path V F c path fid of
                       Inl _ \<Rightarrow> Some (-1, None, 0)
                     | Inr None \<Rightarrow> Some (0, creator_name c, ctime c)
                     | Inr (Some p) \<Rightarrow> modifier_mtime_v0_loop n V F p path)))"

definition get_file_modifier_mtime_v0 ::
    "nat \<Rightarrow> commit_view \<Rightarrow> fs_view \<Rightarrow> string \<Rightarrow> string \<Rightarrow> modifier_mtime option" where
  "get_file_modifier_mtime_v0 n V F head path = modifier_mtime_v0_loop n V F (take 40 head) path"

text \<open>
  \<open>get_dirname\<close> and \<open>get_basename\<close> are GLib's.  When the directory has no entry of that name the
  function returns 0 and leaves \<open>*modifier\<close> and \<open>*mtime\<close>, here \<open>out\<close>, as they were.
\<close>

definition get_file_modifier_mtime_v1 ::
    "(string \<Rightarrow> string) \<Rightarrow> (string \<Rightarrow> string) \<Rightarrow> commit_view \<Rightarrow> fs_view \<Rightarrow> string \<Rightarrow> string
     \<Rightarrow> string option \<times> u64 \<Rightarrow> modifier_mtime" where
  "get_file_modifier_mtime_v1 get_dirname get_basename V F head path out =
     (case seaf_commit_manager_get_commit V head of
        None \<Rightarrow> (-1, out)
      | Some c \<Rightarrow>
          (let parent = (if strcmp (get_dirname path) ''.'' = 0 then [] else get_dirname path) in
           case seaf_fs_manager_get_seafdir_by_path F (root_id c) parent of
             Inl _ \<Rightarrow> (-1, out)
           | Inr dir \<Rightarrow>
               (case find (\<lambda>d. strcmp (d_name d) (get_basename path) = 0) (entries dir) of
                  None \<Rightarrow> (0, out)
                | Some d \<Rightarrow> (0, d_modifier d, d_mtime d))))"

definition get_file_modifier_mtime ::
    "(string \<Rightarrow> string) \<Rightarrow> (string \<Rightarrow> string) \<Rightarrow> nat \<Rightarrow> commit_view \<Rightarrow> fs_view \<Rightarrow> string \<Rightarrow> string
     \<Rightarrow> string option \<times> u64 \<Rightarrow> modifier_mtime option" where
  "get_file_modifier_mtime get_dirname get_basename n V F head path out =
     (if fv_version F > 0 then Some (get_file_modifier_mtime_v1 get_dirname get_basename V F head path out)
      else get_file_modifier_mtime_v0 n V F head path)"

text \<open>\<open>strftime_local\<close> prints a time as year, month, day, hour, minute and second of the local zone.\<close>

definition gen_conflict_path :: "(u64 \<Rightarrow> string) \<Rightarrow> string \<Rightarrow> string option \<Rightarrow> u64 \<Rightarrow> string" where
  "gen_conflict_path strftime_local origin_path modifier mtime =
     (let time_buf = strftime_local mtime in
      case strrchr_split (CHR ''.'') origin_path of
        (copy, Some ext) \<Rightarrow>
          (case modifier of
             Some md \<Rightarrow> copy @ '' (SFConflict '' @ md @ '' '' @ time_buf @ '').'' @ ext
           | None \<Rightarrow> copy @ '' (SFConflict '' @ time_buf @ '').'' @ ext)
      | (copy, None) \<Rightarrow>
          (case modifier of
             Some md \<Rightarrow> copy @ '' (SFConflict '' @ md @ '' '' @ time_buf @ '')''
           | None \<Rightarrow> copy @ '' (SFConflict '' @ time_buf @ '')''))"

definition gen_conflict_path_wrapper ::
    "(string \<Rightarrow> string) \<Rightarrow> (string \<Rightarrow> string) \<Rightarrow> (u64 \<Rightarrow> string) \<Rightarrow> nat \<Rightarrow> commit_view \<Rightarrow> fs_view
     \<Rightarrow> string \<Rightarrow> string \<Rightarrow> string \<Rightarrow> string option \<times> u64 \<Rightarrow> string option option" where
  "gen_conflict_path_wrapper get_dirname get_basename strftime_local n V F head in_repo_path
       original_path out =
     (case get_file_modifier_mtime get_dirname get_basename n V F head in_repo_path out of
        None \<Rightarrow> None
      | Some (r, modifier, mtime) \<Rightarrow>
          Some (if r < 0 then None
                else Some (gen_conflict_path strftime_local original_path modifier mtime)))"

section \<open>Histories\<close>

text \<open>
  A set of commit ids that a question about the history can be answered in: finite, closed under
  parents, every commit readable and of the same repository, no cycle.
\<close>

definition history_ok :: "commit_view \<Rightarrow> string set \<Rightarrow> bool" where
  "history_ok V A \<longleftrightarrow> finite A \<and>
     (\<forall>i\<in>A. \<exists>c. get_commit V i = Some c \<and> repo_id c = cv_repo V \<and> parents c \<subseteq> A) \<and>
     (\<forall>i\<in>A. \<forall>j\<in>A. commit_reach V i j \<longrightarrow> commit_reach V j i \<longrightarrow> i = j)"

definition anc :: "commit_view \<Rightarrow> string \<Rightarrow> string set" where
  "anc V i = {j. commit_reach V i j}"

text \<open>A commit as a load of one of the ids gives it.\<close>

definition genuine :: "commit_view \<Rightarrow> string set \<Rightarrow> commit \<Rightarrow> bool" where
  "genuine V A c \<longleftrightarrow> commit_id c \<in> A \<and> get_commit V (commit_id c) = Some c"

lemma anc_refl [simp]: "i \<in> anc V i"
  by (simp add: anc_def reach_until.head)

lemma anc_trans: "k \<in> anc V j \<Longrightarrow> j \<in> anc V i \<Longrightarrow> k \<in> anc V i"
  using commit_reach_trans by (simp add: anc_def)

lemma anc_closed: "history_ok V A \<Longrightarrow> i \<in> A \<Longrightarrow> anc V i \<subseteq> A"
proof
  fix j
  assume A: "history_ok V A" "i \<in> A" and "j \<in> anc V i"
  then have "commit_reach V i j" by (simp add: anc_def)
  then show "j \<in> A"
  proof (induction rule: reach_until.induct)
    case (parent j c p)
    then show ?case using A(1) by (fastforce simp: history_ok_def)
  qed (rule A(2))
qed

lemma anc_antisym: "history_ok V A \<Longrightarrow> i \<in> A \<Longrightarrow> j \<in> anc V i \<Longrightarrow> i \<in> anc V j \<Longrightarrow> i = j"
  using anc_closed [of V A i] unfolding history_ok_def anc_def by blast

lemma history_get: "history_ok V A \<Longrightarrow> i \<in> A \<Longrightarrow> \<exists>c. get_commit V i = Some c \<and> genuine V A c \<and> commit_id c = i"
  using get_commit_id by (fastforce simp: history_ok_def genuine_def)

lemma genuine_eq: "genuine V A c \<Longrightarrow> genuine V A d \<Longrightarrow> commit_id c = commit_id d \<Longrightarrow> c = d"
  by (simp add: genuine_def)

lemma in_repo_of_genuine: "history_ok V A \<Longrightarrow> genuine V A c \<Longrightarrow> in_repo_of V c = V"
  by (fastforce simp: history_ok_def genuine_def in_repo_of_def)

text \<open>A traversal of such a history succeeds when its callback does.\<close>

lemma traverse_loop_succeeds:
  assumes "plain_func func S upd" "history_ok V A"
    and "queue_ok V D q" "cq_hash q \<subseteq> A"
    and "traverse_loop n V func False False q u = Some (b, u')"
  shows b
  using assms(3-5)
proof (induction n arbitrary: q u D)
  case 0
  then show ?case by (simp split: if_splits)
next
  case (Suc n)
  show ?case
  proof (cases "cq_list q")
    case Nil
    then show ?thesis using Suc.prems by simp
  next
    case (Cons c rest)
    let ?q = "q\<lparr>cq_list := rest\<rparr>" and ?D = "insert (commit_id c) D"
    have pop: "queue_ok V ?D ?q" "commit_id c \<in> cq_hash q" "get_commit V (commit_id c) = Some c"
      using queue_ok_pop [OF Suc.prems(1) Cons] by auto
    have f: "func c u = (True, S c, upd c u)" using assms(1) by (simp add: plain_func_def)
    show ?thesis
    proof (cases "S c")
      case True
      then have "traverse_loop n V func False False ?q (upd c u) = Some (b, u')"
        using Suc.prems(3) f by (simp add: Cons)
      then show ?thesis using Suc.IH [OF pop(1)] Suc.prems(2) by simp
    next
      case False
      have par: "parents c \<subseteq> A"
        using assms(2) pop(2,3) Suc.prems(2) by (fastforce simp: history_ok_def)
      have ins: "\<exists>q'. insert_opt_parent V p False r = (0, q') \<and> cq_hash q' \<subseteq> A"
        if pr: "set_option p \<subseteq> A" "cq_hash r \<subseteq> A" for p r
      proof (cases p)
        case (Some i)
        then obtain d where "get_commit V i = Some d" using pr(1) history_get [OF assms(2), of i] by auto
        then show ?thesis
          using pr Some by (auto simp: insert_opt_parent_def insert_parent_commit_def)
      qed (use pr in \<open>simp add: insert_opt_parent_def\<close>)
      have "cq_hash ?q \<subseteq> A" using Suc.prems(2) by simp
      then obtain q1 where q1: "insert_opt_parent V (parent_id c) False ?q = (0, q1)" "cq_hash q1 \<subseteq> A"
        using ins [of "parent_id c" ?q] par by (auto simp: parents_def)
      obtain q2 where q2: "insert_opt_parent V (second_parent_id c) False q1 = (0, q2)" "cq_hash q2 \<subseteq> A"
        using ins [of "second_parent_id c" q1] par q1(2) by (auto simp: parents_def)
      have ip: "insert_parents V c False False ?q = Some q2"
        by (simp add: insert_parents_def q1(1) q2(1))
      then have "traverse_loop n V func False False q2 (upd c u) = Some (b, u')"
        using Suc.prems(3) f False by (simp add: Cons)
      then show ?thesis
        using Suc.IH insert_parents_ok [OF pop(1) ip] q2(2) by blast
    qed
  qed
qed

lemma traverse_history:
  assumes "plain_func func S upd" "history_ok V A" "i \<in> A" "card A \<le> m"
  shows "\<exists>l. seaf_commit_manager_traverse_commit_tree m V i func u False = Some (True, fold upd l u) \<and>
    distinct (map commit_id l) \<and> commit_id ` set l = {j. reach_until V S i j} \<and>
    (\<forall>c\<in>set l. get_commit V (commit_id c) = Some c)"
proof -
  obtain c where c: "get_commit V i = Some c" using history_get assms(2,3) by blast
  have "commit_id c = i" using get_commit_id [OF c] .
  then have q: "queue_ok V {} (head_queue c)" "cq_hash (head_queue c) \<subseteq> A"
    using head_queue_ok [OF c] assms(3) by (simp_all add: head_queue_def)
  have closed: "\<And>j d. j \<in> A \<Longrightarrow> get_commit V j = Some d \<Longrightarrow> parents d \<subseteq> A"
    using assms(2) by (fastforce simp: history_ok_def)
  have fin: "finite A" using assms(2) by (simp add: history_ok_def)
  have card: "card (A - {}) \<le> m" using assms(4) by simp
  have "\<exists>r. traverse_loop m V func False False (head_queue c) u = Some r"
    by (rule traverse_loop_terminates [OF q(1) fin q(2) closed card])
  then obtain r where r: "traverse_loop m V func False False (head_queue c) u = Some r" ..
  obtain b u' where bu: "r = (b, u')" by fastforce
  have b using traverse_loop_succeeds [OF assms(1,2) q] r bu by blast
  then have t: "seaf_commit_manager_traverse_commit_tree m V i func u False = Some (True, u')"
    using r bu c by (simp add: seaf_commit_manager_traverse_commit_tree_def traverse_commit_tree_common_def)
  then show ?thesis using traverse_tree_visits [OF assms(1) t] by metis
qed

section \<open>The merge bases of a history\<close>

lemma frontier:
  assumes "commit_reach V t j" "j \<in> H"
  shows "\<exists>f\<in>H. reach_until V (\<lambda>c. commit_id c \<in> H) t f \<and> commit_reach V f j"
proof -
  have "(\<exists>f\<in>H. reach_until V (\<lambda>c. commit_id c \<in> H) t f \<and> commit_reach V f j) \<or>
      reach_until V (\<lambda>c. commit_id c \<in> H) t j"
    using assms(1)
  proof (induction rule: reach_until.induct)
    case head
    then show ?case by (simp add: reach_until.head)
  next
    case (parent i c p)
    have "commit_id c = i" using get_commit_id parent.hyps(2) by blast
    then show ?case
      using parent reach_until.parent [OF _ parent.hyps(2)] reach_until.head by metis
  qed
  then show ?thesis using assms(2) reach_until.head by blast
qed

lemma fold_add_hash: "fold (\<lambda>c. insert (commit_id c)) l h = h \<union> commit_id ` set l"
  by (induction l arbitrary: h) auto

lemma commit_tree_to_hash_history:
  assumes "history_ok V A" "genuine V A c" "card A \<le> m"
  shows "commit_tree_to_hash m V c = Some (Some (anc V (commit_id c)))"
proof -
  have plain: "plain_func add_to_commit_hash (\<lambda>_. False) (\<lambda>c. insert (commit_id c))"
    by (simp add: plain_func_def add_to_commit_hash_def)
  have "commit_id c \<in> A" using assms(2) by (simp add: genuine_def)
  then obtain l :: "commit list" where
      "seaf_commit_manager_traverse_commit_tree m V (commit_id c) add_to_commit_hash {} False
      = Some (True, fold (\<lambda>c. insert (commit_id c)) l {})" "commit_id ` set l = anc V (commit_id c)"
    using traverse_history [OF plain assms(1) _ assms(3)] unfolding anc_def by blast
  then show ?thesis
    by (simp add: commit_tree_to_hash_def in_repo_of_genuine [OF assms(1,2)] fold_add_hash)
qed

text \<open>A traversal does not tell callbacks apart that agree on the data they produce.\<close>

lemma traverse_loop_cong:
  assumes "\<And>c u. I u \<Longrightarrow> func c u = func' c u" "\<And>c u. I u \<Longrightarrow> I (snd (snd (func' c u)))" "I u"
  shows "traverse_loop n V func s a q u = traverse_loop n V func' s a q u"
  using assms(3)
proof (induction n arbitrary: q u)
  case (Suc n)
  show ?case
  proof (cases "cq_list q")
    case (Cons c rest)
    obtain ok stop v where f: "func' c u = (ok, stop, v)" using prod_cases3 by blast
    then have "func c u = (ok, stop, v)" "I v" using assms(1,2) [OF Suc.prems, of c] by simp_all
    then show ?thesis using f Suc.IH [of v] by (cases s) (simp_all add: Cons Let_def split: option.split)
  qed simp
qed simp

definition base_upd :: "string set \<Rightarrow> commit \<Rightarrow> merge_traverse_data \<Rightarrow> merge_traverse_data" where
  "base_upd H c d =
     (if commit_id c \<in> H \<and> \<not> list_ex (\<lambda>x. compare_commit x c = 0) (mt_result d)
      then d\<lparr>mt_result := g_list_insert_sorted vc_compare_commit_by_time c (mt_result d)\<rparr> else d)"

lemma base_upd_hash [simp]: "mt_hash (base_upd H c d) = mt_hash d"
  by (simp add: base_upd_def)

lemma list_ex_compare [simp]: "list_ex (\<lambda>x. compare_commit x c = 0) l \<longleftrightarrow> commit_id c \<in> commit_id ` set l"
  by (simp add: list_ex_iff compare_commit_def image_iff) metis

lemma fold_base_upd:
  assumes "\<forall>c\<in>set l \<union> set (mt_result d). genuine V A c" "distinct (map commit_id (mt_result d))"
  shows "mt_hash (fold (base_upd H) l d) = mt_hash d \<and>
    set (mt_result (fold (base_upd H) l d)) = set (mt_result d) \<union> {c\<in>set l. commit_id c \<in> H} \<and>
    distinct (map commit_id (mt_result (fold (base_upd H) l d)))"
  using assms
proof (induction l arbitrary: d)
  case (Cons c l)
  have dup: "c \<in> set (mt_result d)" if "commit_id c \<in> commit_id ` set (mt_result d)"
  proof -
    obtain x where "x \<in> set (mt_result d)" "commit_id x = commit_id c" using \<open>_ \<in> commit_id ` _\<close> by auto
    then show ?thesis using genuine_eq [of V A x c] Cons.prems(1) by auto
  qed
  have d': "distinct (map commit_id (mt_result (base_upd H c d)))"
    "set (mt_result (base_upd H c d)) = set (mt_result d) \<union> (if commit_id c \<in> H then {c} else {})"
    using Cons.prems(2) dup by (auto simp: base_upd_def distinct_insert_sorted)
  then have "\<forall>x\<in>set l \<union> set (mt_result (base_upd H c d)). genuine V A x"
    using Cons.prems(1) by (auto split: if_splits)
  from Cons.IH [OF this d'(1)] show ?case using d'(2) by auto
qed simp

definition bases_from :: "commit_view \<Rightarrow> string set \<Rightarrow> string set \<Rightarrow> commit \<Rightarrow> commit set" where
  "bases_from V A H t =
     {c. genuine V A c \<and> commit_id c \<in> H \<and> reach_until V (\<lambda>c. commit_id c \<in> H) (commit_id t) (commit_id c)}"

lemma traverse_two:
  assumes ok: "history_ok V A" "genuine V A t" "card A \<le> m" "mt_hash d = H"
    and d: "\<forall>c\<in>set (mt_result d). genuine V A c" "distinct (map commit_id (mt_result d))"
  shows "\<exists>d'. seaf_commit_manager_traverse_commit_tree m V (commit_id t) get_merge_bases d False
      = Some (True, d') \<and> mt_hash d' = H \<and> set (mt_result d') = set (mt_result d) \<union> bases_from V A H t \<and>
    distinct (map commit_id (mt_result d'))"
proof -
  let ?S = "\<lambda>c. commit_id c \<in> H"
  let ?f = "\<lambda>c d. (True, ?S c, base_upd H c d)"
  have plain: "plain_func ?f ?S (base_upd H)" by (simp add: plain_func_def)
  have t: "commit_id t \<in> A" "get_commit V (commit_id t) = Some t" using ok(2) by (simp_all add: genuine_def)
  obtain l where l: "seaf_commit_manager_traverse_commit_tree m V (commit_id t) ?f d False
      = Some (True, fold (base_upd H) l d)" "commit_id ` set l = {j. reach_until V ?S (commit_id t) j}"
      "\<forall>c\<in>set l. get_commit V (commit_id c) = Some c"
    using traverse_history [OF plain ok(1) t(1) ok(3)] by blast
  have same: "seaf_commit_manager_traverse_commit_tree m V (commit_id t) get_merge_bases d False
      = seaf_commit_manager_traverse_commit_tree m V (commit_id t) ?f d False"
    unfolding seaf_commit_manager_traverse_commit_tree_def traverse_commit_tree_common_def t(2) option.case
    by (rule traverse_loop_cong [where I = "\<lambda>d. mt_hash d = H"])
      (simp_all add: get_merge_bases_def base_upd_def ok(4))
  have "{j. reach_until V ?S (commit_id t) j} \<subseteq> A"
    using reach_until_reach anc_closed [OF ok(1) t(1)] unfolding anc_def by blast
  then have "\<forall>c\<in>set l. commit_id c \<in> A" using l(2) by blast
  then have gen: "\<forall>c\<in>set l. genuine V A c" using l(3) by (simp add: genuine_def)
  have "{c \<in> set l. commit_id c \<in> H} = bases_from V A H t"
  proof
    show "{c \<in> set l. commit_id c \<in> H} \<subseteq> bases_from V A H t"
      using gen l(2) by (auto simp: bases_from_def)
    have "c \<in> set l" if "c \<in> bases_from V A H t" for c
    proof -
      have "commit_id c \<in> commit_id ` set l" using that l(2) by (simp add: bases_from_def)
      then obtain x where x: "x \<in> set l" "commit_id x = commit_id c" by auto
      then have "x = c" using gen that genuine_eq by (auto simp: bases_from_def)
      then show ?thesis using x(1) by simp
    qed
    then show "bases_from V A H t \<subseteq> {c \<in> set l. commit_id c \<in> H}" by (auto simp: bases_from_def)
  qed
  moreover have all: "\<forall>c\<in>set l \<union> set (mt_result d). genuine V A c" using gen d(1) by blast
  ultimately show ?thesis using fold_base_upd [OF all d(2), of H] same l(1) ok(4) by simp
qed

lemma traverse_twos_history:
  assumes "history_ok V A" "card A \<le> m" "\<forall>t\<in>set ts. genuine V A t"
    and "mt_hash d = H" "\<forall>c\<in>set (mt_result d). genuine V A c" "distinct (map commit_id (mt_result d))"
  shows "\<exists>d'. traverse_twos m V ts d = Some (True, d') \<and>
    set (mt_result d') = set (mt_result d) \<union> (\<Union>t\<in>set ts. bases_from V A H t) \<and>
    distinct (map commit_id (mt_result d'))"
  using assms(3-6)
proof (induction ts arbitrary: d)
  case (Cons t ts)
  have g: "genuine V A t" using Cons.prems(1) by simp
  obtain d' where d': "seaf_commit_manager_traverse_commit_tree m V (commit_id t) get_merge_bases d False
      = Some (True, d')" "mt_hash d' = H" "set (mt_result d') = set (mt_result d) \<union> bases_from V A H t"
      "distinct (map commit_id (mt_result d'))"
    using traverse_two [OF assms(1) g assms(2) Cons.prems(2-4)] by blast
  have "\<forall>c\<in>set (mt_result d'). genuine V A c" using Cons.prems(3) d'(3) by (auto simp: bases_from_def)
  then obtain d2 where d2: "traverse_twos m V ts d' = Some (True, d2)"
      "set (mt_result d2) = set (mt_result d') \<union> (\<Union>t\<in>set ts. bases_from V A H t)"
      "distinct (map commit_id (mt_result d2))"
    using Cons.IH [OF _ d'(2) _ d'(4)] Cons.prems(1) by auto
  show ?case
    using d2 d'(1,3) by (auto simp: in_repo_of_genuine [OF assms(1) g])
qed simp

text \<open>
  What a list of merge bases is: genuine commits among the common ancestors \<open>X\<close>, none an ancestor of
  another, so that every common ancestor is an ancestor of one of them.
\<close>

definition covers :: "commit_view \<Rightarrow> string set \<Rightarrow> string set \<Rightarrow> commit list \<Rightarrow> bool" where
  "covers V A X rs \<longleftrightarrow>
     (\<forall>c\<in>set rs. genuine V A c \<and> commit_id c \<in> X) \<and> distinct (map commit_id rs) \<and>
     (\<forall>j\<in>X. \<exists>c\<in>set rs. j \<in> anc V (commit_id c))"

definition independent :: "commit_view \<Rightarrow> commit list \<Rightarrow> bool" where
  "independent V rs \<longleftrightarrow>
     (\<forall>a\<in>set rs. \<forall>b\<in>set rs. commit_id b \<in> anc V (commit_id a) \<longrightarrow> a = b)"

definition common_anc :: "commit_view \<Rightarrow> commit \<Rightarrow> commit list \<Rightarrow> string set" where
  "common_anc V one twos = anc V (commit_id one) \<inter> (\<Union>t\<in>set twos. anc V (commit_id t))"

definition finds_bases ::
    "commit_view \<Rightarrow> string set \<Rightarrow> (commit \<Rightarrow> commit list \<Rightarrow> commit list option) \<Rightarrow> commit \<Rightarrow> commit list \<Rightarrow> bool"
    where
  "finds_bases V A bases one twos \<longleftrightarrow>
     (\<exists>res. bases one twos = Some res \<and> covers V A (common_anc V one twos) res \<and> independent V res)"

lemma bases_singleton:
  assumes ok: "history_ok V A" "covers V A X res" "independent V res" and "a \<in> set res"
    and "X \<subseteq> anc V (commit_id a)"
  shows "res = [a]"
proof -
  have "c = a" if "c \<in> set res" for c
    using that assms unfolding covers_def independent_def by blast
  then have "set res = {a}" using assms(4) by blast
  moreover have "distinct res" using ok(2) by (simp add: covers_def distinct_map)
  ultimately show ?thesis by (cases res) (auto simp: subset_singleton_iff)
qed

lemma ancestor_is_base:
  assumes ok: "history_ok V A" "covers V A (common_anc V x [y]) res" "independent V res"
    and "genuine V A x" "commit_id x \<in> anc V (commit_id y)"
  shows "res = [x]"
proof -
  have "commit_id x \<in> common_anc V x [y]" using assms(5) by (simp add: common_anc_def)
  then obtain c where c: "c \<in> set res" "commit_id x \<in> anc V (commit_id c)" "genuine V A c"
      "commit_id c \<in> anc V (commit_id x)"
    using ok(2) unfolding covers_def common_anc_def by blast
  have "commit_id x = commit_id c"
    using anc_antisym [OF ok(1) _ c(4,2)] assms(4) by (simp add: genuine_def)
  then have "c = x" using genuine_eq c(3) assms(4) by metis
  then show ?thesis using bases_singleton [OF ok] c(1) by (simp add: common_anc_def)
qed

lemma common_anc_commute: "common_anc V x [y] = common_anc V y [x]"
  by (auto simp: common_anc_def)

lemma drop_none:
  "rs ! i = Some a \<Longrightarrow> rs ! j = Some b \<Longrightarrow> \<forall>c\<in>set res. commit_id c \<noteq> commit_id a \<and> commit_id c \<noteq> commit_id b \<Longrightarrow>
   drop_bases i j res rs = Some rs"
  by (induction res) auto

lemma drop_bases_step:
  assumes ok: "history_ok V A" "covers V A (common_anc V a [b]) res" "independent V res"
    and g: "genuine V A a" "genuine V A b" "a \<noteq> b"
    and ij: "rs ! i = Some a" "rs ! j = Some b" "i \<noteq> j" "i < length rs" "j < length rs"
  shows "drop_bases i j res rs = Some (if commit_id a \<in> anc V (commit_id b) then rs[i := None]
    else if commit_id b \<in> anc V (commit_id a) then rs[j := None] else rs)"
proof -
  have ne: "commit_id a \<noteq> commit_id b" using genuine_eq g by blast
  consider "commit_id a \<in> anc V (commit_id b)"
    | "commit_id a \<notin> anc V (commit_id b)" "commit_id b \<in> anc V (commit_id a)"
    | "commit_id a \<notin> anc V (commit_id b)" "commit_id b \<notin> anc V (commit_id a)" by blast
  then show ?thesis
  proof cases
    case 1
    then have "res = [a]" using ancestor_is_base [OF ok g(1)] by simp
    then show ?thesis using 1 ij ne by simp
  next
    case 2
    then have "res = [b]"
      using ancestor_is_base [OF ok(1) _ ok(3) g(2)] ok(2) common_anc_commute by metis
    then show ?thesis using 2 ij ne by simp
  next
    case 3
    then have "\<forall>c\<in>set res. commit_id c \<noteq> commit_id a \<and> commit_id c \<noteq> commit_id b"
      using ok(2) by (auto simp: covers_def common_anc_def)
    then show ?thesis using 3 drop_none [OF ij(1,2)] by simp
  qed
qed

text \<open>The array during the loop: \<open>P\<close> are the pairs already compared.\<close>

definition slots_ok :: "commit_view \<Rightarrow> commit list \<Rightarrow> (nat \<times> nat) set \<Rightarrow> commit option list \<Rightarrow> bool" where
  "slots_ok V raw P rs \<longleftrightarrow>
     list_all2 (\<lambda>x c. x = None \<or> x = Some c) rs raw \<and>
     (\<forall>c\<in>set raw. \<exists>s. Some s \<in> set rs \<and> commit_id c \<in> anc V (commit_id s)) \<and>
     (\<forall>(i, j)\<in>P. rs ! i \<noteq> None \<longrightarrow> rs ! j \<noteq> None \<longrightarrow>
        commit_id (raw ! i) \<notin> anc V (commit_id (raw ! j)) \<and> commit_id (raw ! j) \<notin> anc V (commit_id (raw ! i)))"

lemma slots_len: "slots_ok V raw P rs \<Longrightarrow> length rs = length raw"
  unfolding slots_ok_def by (elim conjE) (rule list_all2_lengthD)

lemma slots_slot: "slots_ok V raw P rs \<Longrightarrow> k < length rs \<Longrightarrow> rs ! k = None \<or> rs ! k = Some (raw ! k)"
  unfolding slots_ok_def by (elim conjE) (drule (1) list_all2_nthD)

lemma slots_drop:
  assumes s: "slots_ok V raw P rs" and i: "i < length rs" "j < length rs" "i \<noteq> j" "rs ! j \<noteq> None"
    and anc: "commit_id (raw ! i) \<in> anc V (commit_id (raw ! j))"
  shows "slots_ok V raw P (rs[i := None])"
proof -
  note len = slots_len [OF s] and slot = slots_slot [OF s]
  have j: "Some (raw ! j) \<in> set (rs[i := None])"
    using slot [OF i(2)] i by (metis length_list_update nth_list_update_neq nth_mem)
  have "\<exists>s. Some s \<in> set (rs[i := None]) \<and> commit_id c \<in> anc V (commit_id s)" if c: "c \<in> set raw" for c
  proof -
    obtain s where s: "Some s \<in> set rs" "commit_id c \<in> anc V (commit_id s)"
      using assms(1) c by (auto simp: slots_ok_def)
    then obtain k where k: "k < length rs" "rs ! k = Some s" by (auto simp: in_set_conv_nth)
    show ?thesis
    proof (cases "k = i")
      case True
      then have "s = raw ! i" using slot [OF k(1)] k(2) by simp
      then show ?thesis using j anc_trans [OF s(2)] anc by blast
    next
      case False
      then have "Some s \<in> set (rs[i := None])"
        using k by (metis length_list_update nth_list_update_neq nth_mem)
      then show ?thesis using s(2) by blast
    qed
  qed
  moreover have "list_all2 (\<lambda>x c. x = None \<or> x = Some c) (rs[i := None]) raw"
    using len slot unfolding list_all2_conv_all_nth length_list_update
    by (metis nth_list_update_eq nth_list_update_neq)
  moreover have "commit_id (raw ! k) \<notin> anc V (commit_id (raw ! l)) \<and> commit_id (raw ! l) \<notin> anc V (commit_id (raw ! k))"
    if kl: "(k, l) \<in> P" "rs[i := None] ! k \<noteq> None" "rs[i := None] ! l \<noteq> None" for k l
  proof -
    have "rs ! k \<noteq> None" "rs ! l \<noteq> None" using kl(2,3) i(1) by (metis nth_list_update_eq nth_list_update_neq)+
    then show ?thesis using s kl(1) unfolding slots_ok_def by blast
  qed
  ultimately show ?thesis unfolding slots_ok_def by blast
qed

lemma slots_insert:
  "slots_ok V raw (insert (i, j) P) rs \<longleftrightarrow> slots_ok V raw P rs \<and>
     (rs ! i \<noteq> None \<longrightarrow> rs ! j \<noteq> None \<longrightarrow>
        commit_id (raw ! i) \<notin> anc V (commit_id (raw ! j)) \<and> commit_id (raw ! j) \<notin> anc V (commit_id (raw ! i)))"
  by (auto simp: slots_ok_def)

lemma independent_loop_ok:
  assumes ok: "history_ok V A" "\<forall>c\<in>set raw. genuine V A c" "distinct (map commit_id raw)"
    and bases: "\<And>a b. a \<in> set raw \<Longrightarrow> b \<in> set raw \<Longrightarrow> a \<noteq> b \<Longrightarrow> finds_bases V A bases a [b]"
    and "slots_ok V raw P rs" "\<forall>(i, j)\<in>P \<union> set ps. i < j \<and> j < length raw"
  shows "\<exists>rs'. independent_loop bases ps rs = Some rs' \<and> slots_ok V raw (P \<union> set ps) rs'"
  using assms(5,6)
proof (induction ps arbitrary: P rs)
  case (Cons p ps)
  obtain i j where p: "p = (i, j)" by fastforce
  have ij: "i < j" "j < length raw" using Cons.prems(2) p by auto
  note len = slots_len [OF Cons.prems(1)] and slot = slots_slot [OF Cons.prems(1)]
  have P: "\<forall>(i, j)\<in>insert (i, j) P \<union> set ps. i < j \<and> j < length raw" using Cons.prems(2) p by auto
  show ?case
  proof (cases "rs ! i = None \<or> rs ! j = None")
    case True
    then have "slots_ok V raw (insert (i, j) P) rs" using Cons.prems(1) by (auto simp: slots_insert)
    from Cons.IH [OF this P] show ?thesis using True by (auto simp: p split: option.split)
  next
    case False
    let ?a = "raw ! i" and ?b = "raw ! j"
    have r: "rs ! i = Some ?a" "rs ! j = Some ?b" using False slot [of i] slot [of j] ij len by auto
    have ab: "?a \<in> set raw" "?b \<in> set raw" using ij by simp_all
    have "commit_id ?a \<noteq> commit_id ?b" using ok(3) ij by (simp add: distinct_conv_nth)
    then have ne: "?a \<noteq> ?b" by auto
    obtain res where res: "bases ?a [?b] = Some res" "covers V A (common_anc V ?a [?b]) res" "independent V res"
      using bases [OF ab ne] by (auto simp: finds_bases_def)
    let ?rs = "if commit_id ?a \<in> anc V (commit_id ?b) then rs[i := None]
      else if commit_id ?b \<in> anc V (commit_id ?a) then rs[j := None] else rs"
    have d: "drop_bases i j res rs = Some ?rs"
      using drop_bases_step [OF ok(1) res(2,3) _ _ ne r] ok(2) ab ij len by simp
    have "slots_ok V raw P ?rs"
      using slots_drop [OF Cons.prems(1), of i j] slots_drop [OF Cons.prems(1), of j i]
        Cons.prems(1) r ij len by auto
    then have "slots_ok V raw (insert (i, j) P) ?rs" using ij len by (auto simp: slots_insert)
    from Cons.IH [OF this P] show ?thesis using r res(1) d by (auto simp: p)
  qed
qed simp

lemma set_index_pairs: "set (index_pairs n) = {(i, j). i < j \<and> j < n}"
proof -
  have "(i, j) \<in> set (index_pairs n)" if "i < j" "j < n" for i j
    unfolding index_pairs_def set_concat set_map using that by (intro UN_I [of "map (Pair i) [i + 1..<n]"]) auto
  then show ?thesis by (auto simp: index_pairs_def)
qed

lemma set_survivors: "set (survivors rs acc) = {c. Some c \<in> set rs} \<union> set acc"
  by (induction rs acc rule: survivors.induct) auto

lemma survivors_distinct:
  "list_all2 (\<lambda>x c. x = None \<or> x = Some c) rs raw \<Longrightarrow> distinct (map f raw) \<Longrightarrow> distinct (map f acc) \<Longrightarrow>
   f ` set raw \<inter> f ` set acc = {} \<Longrightarrow> distinct (map f (survivors rs acc))"
proof (induction rs arbitrary: raw acc)
  case (Cons x rs)
  obtain c raw' where raw: "raw = c # raw'" "x = None \<or> x = Some c"
      "list_all2 (\<lambda>x c. x = None \<or> x = Some c) rs raw'"
    using Cons.prems(1) by (cases raw) auto
  show ?case
    using raw(2)
  proof
    assume "x = None"
    then show ?thesis using Cons.IH [OF raw(3), of acc] Cons.prems(2-4) raw(1) by auto
  next
    assume "x = Some c"
    moreover have "distinct (map f (g_list_insert_sorted vc_compare_commit_by_time c acc))"
      using Cons.prems(2-4) raw(1) by (auto simp: distinct_insert_sorted)
    moreover have "f ` set raw' \<inter> f ` set (g_list_insert_sorted vc_compare_commit_by_time c acc) = {}"
      using Cons.prems(2,4) raw(1) by auto
    ultimately show ?thesis using Cons.IH [OF raw(3)] Cons.prems(2) raw(1) by simp
  qed
qed simp

lemma get_independent_ok:
  assumes ok: "history_ok V A" "covers V A X raw"
    and bases: "\<And>a b. a \<in> set raw \<Longrightarrow> b \<in> set raw \<Longrightarrow> a \<noteq> b \<Longrightarrow> finds_bases V A bases a [b]"
  shows "\<exists>rs. get_independent_commits bases raw = Some rs \<and> covers V A X rs \<and> independent V rs"
proof -
  have raw: "\<forall>c\<in>set raw. genuine V A c" "distinct (map commit_id raw)" using ok(2) by (simp_all add: covers_def)
  have "slots_ok V raw {} (map Some raw)"
    using anc_refl by (auto simp: slots_ok_def list_all2_map1 intro: list.rel_refl)
  moreover have "\<forall>(i, j)\<in>{} \<union> set (index_pairs (length raw)). i < j \<and> j < length raw"
    by (simp add: set_index_pairs)
  ultimately obtain rs where rs: "independent_loop bases (index_pairs (length raw)) (map Some raw) = Some rs"
      "slots_ok V raw ({} \<union> set (index_pairs (length raw))) rs"
    using independent_loop_ok [OF ok(1) raw bases] by blast
  let ?res = "survivors rs []"
  note len = slots_len [OF rs(2)] and slot = slots_slot [OF rs(2)]
  have slots: "list_all2 (\<lambda>x c. x = None \<or> x = Some c) rs raw" using rs(2) by (simp add: slots_ok_def)
  have idx: "\<exists>k<length raw. rs ! k = Some c \<and> c = raw ! k" if "c \<in> set ?res" for c
  proof -
    have "Some c \<in> set rs" using that by (simp add: set_survivors)
    then obtain k where k: "k < length rs" "rs ! k = Some c" by (auto simp: in_set_conv_nth)
    then show ?thesis using slot [OF k(1)] len by auto
  qed
  have "covers V A X ?res"
    unfolding covers_def
  proof (intro conjI ballI)
    show "distinct (map commit_id ?res)" by (rule survivors_distinct [OF slots raw(2)]) simp_all
    fix c assume "c \<in> set ?res"
    then have "c \<in> set raw" using idx by fastforce
    then show "genuine V A c" "commit_id c \<in> X" using ok(2) by (simp_all add: covers_def)
  next
    fix j assume "j \<in> X"
    then obtain c where c: "c \<in> set raw" "j \<in> anc V (commit_id c)" using ok(2) unfolding covers_def by blast
    then obtain s where "Some s \<in> set rs" "commit_id c \<in> anc V (commit_id s)"
      using rs(2) unfolding slots_ok_def by blast
    then show "\<exists>c\<in>set ?res. j \<in> anc V (commit_id c)" using anc_trans [OF c(2)] by (auto simp: set_survivors)
  qed
  moreover have "independent V ?res"
    unfolding independent_def
  proof (intro ballI impI)
    fix a b assume "a \<in> set ?res" "b \<in> set ?res" and ba: "commit_id b \<in> anc V (commit_id a)"
    then obtain k l where k: "k < length raw" "rs ! k = Some a" "a = raw ! k"
      and l: "l < length raw" "rs ! l = Some b" "b = raw ! l" using idx by meson
    have pairs: "commit_id (raw ! p) \<notin> anc V (commit_id (raw ! q)) \<and> commit_id (raw ! q) \<notin> anc V (commit_id (raw ! p))"
      if "p < q" "q < length raw" "rs ! p \<noteq> None" "rs ! q \<noteq> None" for p q
    proof -
      have "(p, q) \<in> {} \<union> set (index_pairs (length raw))" using that by (simp add: set_index_pairs)
      then show ?thesis using rs(2) that(3,4) unfolding slots_ok_def by blast
    qed
    show "a = b"
    proof (rule ccontr)
      assume "a \<noteq> b"
      then have "k < l \<or> l < k" using k(3) l(3) by (cases "k = l") auto
      then show False using pairs [of k l] pairs [of l k] k l ba by auto
    qed
  qed
  ultimately show ?thesis using rs(1) by (auto simp: get_independent_commits_def)
qed

lemma raw_covers:
  assumes ok: "history_ok V A" "genuine V A one" "\<forall>t\<in>set twos. genuine V A t"
    and raw: "set raw = (\<Union>t\<in>set twos. bases_from V A (anc V (commit_id one)) t)" "distinct (map commit_id raw)"
  shows "covers V A (common_anc V one twos) raw"
  unfolding covers_def
proof (intro conjI ballI raw(2))
  fix c assume "c \<in> set raw"
  then obtain t where t: "t \<in> set twos" "c \<in> bases_from V A (anc V (commit_id one)) t" using raw(1) by blast
  then have c: "genuine V A c" "commit_id c \<in> anc V (commit_id one)"
      "reach_until V (\<lambda>c. commit_id c \<in> anc V (commit_id one)) (commit_id t) (commit_id c)"
    by (simp_all add: bases_from_def)
  then show "genuine V A c" by simp
  have "commit_id c \<in> anc V (commit_id t)" using reach_until_reach [OF c(3)] by (simp add: anc_def)
  then show "commit_id c \<in> common_anc V one twos" using c(2) t(1) by (auto simp: common_anc_def)
next
  fix j assume "j \<in> common_anc V one twos"
  then obtain t where t: "t \<in> set twos" "j \<in> anc V (commit_id one)" "commit_reach V (commit_id t) j"
    by (auto simp: common_anc_def anc_def)
  obtain f where f: "f \<in> anc V (commit_id one)" "commit_reach V f j"
      "reach_until V (\<lambda>c. commit_id c \<in> anc V (commit_id one)) (commit_id t) f"
    using frontier [OF t(3,2)] by blast
  have "commit_id one \<in> A" using ok(2) by (simp add: genuine_def)
  then have "f \<in> A" using f(1) anc_closed [OF ok(1)] by blast
  then obtain c where c: "genuine V A c" "commit_id c = f" using history_get [OF ok(1)] by blast
  then have "c \<in> set raw" using f(1,3) raw(1) t(1) by (auto simp: bases_from_def)
  moreover have "j \<in> anc V (commit_id c)" using c(2) f(2) by (simp add: anc_def)
  ultimately show "\<exists>c\<in>set raw. j \<in> anc V (commit_id c)" by blast
qed

lemma common_anc_finite:
  assumes "history_ok V A" "genuine V A one"
  shows "finite (common_anc V one twos)" "common_anc V one twos \<subseteq> A"
proof -
  have "commit_id one \<in> A" using assms(2) by (simp add: genuine_def)
  then show "common_anc V one twos \<subseteq> A" using anc_closed [OF assms(1)] by (auto simp: common_anc_def)
  then show "finite (common_anc V one twos)" using assms(1) finite_subset by (auto simp: history_ok_def)
qed

lemma common_anc_sub:
  assumes "commit_id a \<in> common_anc V one twos"
  shows "common_anc V a [b] \<subseteq> common_anc V one twos"
proof
  fix j assume "j \<in> common_anc V a [b]"
  then have j: "j \<in> anc V (commit_id a)" by (simp add: common_anc_def)
  obtain t where "t \<in> set twos" "commit_id a \<in> anc V (commit_id t)" "commit_id a \<in> anc V (commit_id one)"
    using assms by (auto simp: common_anc_def)
  then show "j \<in> common_anc V one twos" using anc_trans [OF j] by (auto simp: common_anc_def)
qed

lemma merge_bases_many_ok:
  assumes "history_ok V A" "card A \<le> m"
  shows "genuine V A one \<Longrightarrow> \<forall>t\<in>set twos. genuine V A t \<Longrightarrow> card (common_anc V one twos) < n \<Longrightarrow>
    finds_bases V A (merge_bases_many n m V) one twos"
proof (induction n arbitrary: one twos)
  case (Suc n)
  let ?H = "anc V (commit_id one)" and ?X = "common_anc V one twos"
  obtain d where d: "traverse_twos m V twos \<lparr>mt_result = [], mt_hash = ?H\<rparr> = Some (True, d)"
      "set (mt_result d) = (\<Union>t\<in>set twos. bases_from V A ?H t)" "distinct (map commit_id (mt_result d))"
    using traverse_twos_history [OF assms Suc.prems(2), of "\<lparr>mt_result = [], mt_hash = ?H\<rparr>" ?H] by auto
  note raw = raw_covers [OF assms(1) Suc.prems(1,2) d(2,3)]
  note step = merge_bases_many.simps(2) commit_tree_to_hash_history [OF assms(1) Suc.prems(1) assms(2)]
    option.case d(1) prod.case
  show ?case
  proof (cases "length (mt_result d) \<le> 1")
    case True
    then have "a = b" if "a \<in> set (mt_result d)" "b \<in> set (mt_result d)" for a b
      using that by (cases "mt_result d") auto
    then have "independent V (mt_result d)" by (simp add: independent_def)
    then show ?thesis using raw True unfolding finds_bases_def step by simp
  next
    case False
    have "finds_bases V A (merge_bases_many n m V) a [b]"
      if ab: "a \<in> set (mt_result d)" "b \<in> set (mt_result d)" "a \<noteq> b" for a b
    proof (rule Suc.IH)
      have g: "genuine V A a" "genuine V A b" "commit_id a \<in> ?X" "commit_id b \<in> ?X"
        using raw ab unfolding covers_def by blast+
      then show "genuine V A a" "\<forall>t\<in>set [b]. genuine V A t" by simp_all
      have sub: "common_anc V a [b] \<subseteq> ?X" by (rule common_anc_sub [OF g(3)])
      have "commit_id a \<notin> common_anc V a [b] \<or> commit_id b \<notin> common_anc V a [b]"
      proof (rule ccontr)
        assume "\<not> ?thesis"
        then have "commit_id a = commit_id b"
          using anc_antisym [OF assms(1), of "commit_id a" "commit_id b"] g(1)
          by (simp add: common_anc_def genuine_def)
        then show False using genuine_eq g(1,2) ab(3) by blast
      qed
      then have "common_anc V a [b] \<subset> ?X" using sub g(3,4) by blast
      then have "card (common_anc V a [b]) < card ?X"
        by (rule psubset_card_mono [OF common_anc_finite(1) [OF assms(1) Suc.prems(1)]])
      then show "card (common_anc V a [b]) < n" using Suc.prems(3) by simp
    qed
    then show ?thesis
      using get_independent_ok [OF assms(1) raw] False unfolding finds_bases_def step by simp
  qed
qed simp

text \<open>
  The loop of \<open>get_merge_base\<close>: each round only keeps proper ancestors of the first commit of the
  last round.
\<close>

definition all_anc :: "commit_view \<Rightarrow> commit list \<Rightarrow> string set" where
  "all_anc V rs = (\<Union>c\<in>set rs. anc V (commit_id c))"

lemma all_anc_self: "c \<in> set rs \<Longrightarrow> commit_id c \<in> all_anc V rs"
  unfolding all_anc_def by (erule UN_I) (rule anc_refl)

lemma all_anc_finite: "history_ok V A \<Longrightarrow> \<forall>c\<in>set rs. genuine V A c \<Longrightarrow> finite (all_anc V rs)"
  by (rule finite_subset [of _ A])
    (auto simp: all_anc_def genuine_def history_ok_def dest: subsetD [OF anc_closed, rotated 2])

lemma merge_base_loop_ok:
  assumes "history_ok V A" "card A \<le> m" "card A < n"
  shows "\<forall>c\<in>set rs. genuine V A c \<Longrightarrow> independent V rs \<Longrightarrow> distinct (map commit_id rs) \<Longrightarrow>
    card (all_anc V rs) \<le> k \<Longrightarrow>
    \<exists>rs'. merge_base_loop k (merge_bases_many n m V) rs = Some rs' \<and>
      (\<forall>c\<in>set rs'. genuine V A c \<and> commit_id c \<in> all_anc V rs) \<and> (length rs \<le> 1 \<longrightarrow> rs' = rs)"
proof (induction k arbitrary: rs)
  case 0
  then have "all_anc V rs = {}" using all_anc_finite [OF assms(1), of rs] by simp
  then have "rs = []" using all_anc_self [of _ rs V] by (cases rs) auto
  then show ?case by simp
next
  case (Suc k)
  show ?case
  proof (cases "length rs \<le> 1")
    case True
    then show ?thesis using Suc.prems(1) all_anc_self by auto
  next
    case False
    then obtain one two twos where rs: "rs = one # two # twos" by (metis One_nat_def le_SucI length_Cons length_0_conv
        list.exhaust order_refl)
    let ?X = "common_anc V one (two # twos)"
    have one: "genuine V A one" "one \<notin> set (two # twos)" using Suc.prems(1,3) rs by auto
    have twos: "\<forall>t\<in>set (two # twos). genuine V A t" using Suc.prems(1) rs by simp
    note X = common_anc_finite [OF assms(1) one(1), of "two # twos"]
    have "card ?X \<le> card A" using X(2) assms(1) by (intro card_mono) (simp_all add: history_ok_def)
    then have "card ?X < n" using assms(3) by simp
    then obtain res where res: "merge_bases_many n m V one (two # twos) = Some res" "covers V A ?X res"
        "independent V res"
      using merge_bases_many_ok [OF assms(1,2) one(1) twos] unfolding finds_bases_def by blast
    have res_one: "commit_id c \<in> anc V (commit_id one)" "genuine V A c" if "c \<in> set res" for c
      using res(2) that by (simp_all add: covers_def common_anc_def)
    have notin: "commit_id one \<notin> anc V (commit_id c)" if c: "c \<in> set res" for c
    proof
      assume "commit_id one \<in> anc V (commit_id c)"
      moreover obtain t where t: "t \<in> set (two # twos)" "commit_id c \<in> anc V (commit_id t)"
        using res(2) c unfolding covers_def common_anc_def by blast
      ultimately have "commit_id one \<in> anc V (commit_id t)" using anc_trans by blast
      then have "t = one" using Suc.prems(2) t(1) rs unfolding independent_def by auto
      then show False using one(2) t(1) by blast
    qed
    have sub: "all_anc V res \<subseteq> anc V (commit_id one)" using res_one(1) anc_trans by (fastforce simp: all_anc_def)
    note fin = all_anc_finite [OF assms(1) Suc.prems(1)]
    have "all_anc V res \<subset> all_anc V rs"
    proof
      show "all_anc V res \<subseteq> all_anc V rs" using sub by (auto simp: all_anc_def rs)
      have "commit_id one \<notin> all_anc V res" using notin by (auto simp: all_anc_def)
      moreover have "commit_id one \<in> all_anc V rs" by (simp add: all_anc_def rs)
      ultimately show "all_anc V res \<noteq> all_anc V rs" by blast
    qed
    then have "card (all_anc V res) < card (all_anc V rs)" by (rule psubset_card_mono [OF fin])
    then have "card (all_anc V res) \<le> k" using Suc.prems(4) by simp
    then obtain rs' where rs': "merge_base_loop k (merge_bases_many n m V) res = Some rs'"
        "\<forall>c\<in>set rs'. genuine V A c \<and> commit_id c \<in> all_anc V res"
      using Suc.IH [of res] res(2,3) res_one(2) unfolding covers_def by blast
    moreover have "all_anc V res \<subseteq> all_anc V rs" using sub by (auto simp: all_anc_def rs)
    ultimately show ?thesis using res(1) by (auto simp: rs)
  qed
qed

lemma get_merge_base_ok:
  assumes "history_ok V A" "card A \<le> m" "card A < n" "card A \<le> k"
    and g: "genuine V A head" "genuine V A remote"
  shows "\<exists>r. get_merge_base k n m V head remote = Some r \<and>
    (\<forall>c. r = Some c \<longrightarrow> commit_id c \<in> anc V (commit_id head) \<inter> anc V (commit_id remote)) \<and>
    (commit_id remote \<in> anc V (commit_id head) \<longrightarrow> r = Some remote) \<and>
    (commit_id head \<in> anc V (commit_id remote) \<longrightarrow> r = Some head)"
proof -
  let ?X = "common_anc V head [remote]"
  have fin: "finite A" using assms(1) by (simp add: history_ok_def)
  have "card ?X \<le> card A" using common_anc_finite(2) [OF assms(1) g(1)] by (intro card_mono fin)
  then have "card ?X < n" using assms(3) by simp
  then obtain res where res: "merge_bases_many n m V head [remote] = Some res" "covers V A ?X res" "independent V res"
    using merge_bases_many_ok [OF assms(1,2) g(1), of "[remote]"] g(2) unfolding finds_bases_def by auto
  have gen: "\<forall>c\<in>set res. genuine V A c" "\<forall>c\<in>set res. commit_id c \<in> ?X" "distinct (map commit_id res)"
    using res(2) by (simp_all add: covers_def)
  have subX: "all_anc V res \<subseteq> ?X"
    using gen(2) anc_trans unfolding all_anc_def common_anc_def by simp blast
  then have "card (all_anc V res) \<le> card A"
    using common_anc_finite(2) [OF assms(1) g(1)] by (intro card_mono fin) blast
  then have "card (all_anc V res) \<le> k" using assms(4) by simp
  then obtain rs' where rs': "merge_base_loop k (merge_bases_many n m V) res = Some rs'"
      "\<forall>c\<in>set rs'. genuine V A c \<and> commit_id c \<in> all_anc V res" "length res \<le> 1 \<longrightarrow> rs' = res"
    using merge_base_loop_ok [OF assms(1-3) gen(1) res(3) gen(3)] by blast
  have r: "get_merge_base k n m V head remote = Some (case rs' of [] \<Rightarrow> None | c # cs \<Rightarrow> Some c)"
    by (simp add: get_merge_base_def res(1) rs'(1) split: list.split)
  have 1: "commit_id c \<in> anc V (commit_id head) \<inter> anc V (commit_id remote)"
    if "(case rs' of [] \<Rightarrow> None | c # cs \<Rightarrow> Some c) = Some c" for c
  proof -
    have "c \<in> set rs'" using that by (cases rs') simp_all
    then have "commit_id c \<in> ?X" using rs'(2) subX by blast
    then show ?thesis by (simp add: common_anc_def)
  qed
  have 2: "rs' = [remote]" if "commit_id remote \<in> anc V (commit_id head)"
    using ancestor_is_base [OF assms(1) res(2) [unfolded common_anc_commute [of V head remote]] res(3) g(2) that]
      rs'(3) by simp
  have 3: "rs' = [head]" if "commit_id head \<in> anc V (commit_id remote)"
    using ancestor_is_base [OF assms(1) res(2,3) g(1) that] rs'(3) by simp
  show ?thesis
  proof (intro exI conjI allI impI)
    show "get_merge_base k n m V head remote = Some (case rs' of [] \<Rightarrow> None | c # cs \<Rightarrow> Some c)" by (rule r)
  qed (use 1 in blast, use 2 in simp, use 3 in simp)
qed

section \<open>Properties\<close>

text \<open>C8: Comparing two commits whose ancestors all lie in a finite, readable, acyclic history gives, with fuels
  above the size of that history, exactly their place in it: up to date when the first is an
  ancestor of (or is) the second, fast-forward when the second is a proper ancestor of the first,
  independent otherwise.  So the search for merge bases behind it, with its nested searches and its
  loop, always ends.\<close>

theorem vc_compare_commits_exact:
  assumes "history_ok V A" "c1 \<in> A" "c2 \<in> A" "card A < n" "card A \<le> m" "card A \<le> k"
  shows "vc_compare_commits k n m V c1 c2 = Some
    (if commit_reach V c2 c1 then VC_UP_TO_DATE
     else if commit_reach V c1 c2 then VC_FAST_FORWARD else VC_INDEPENDENT)"
proof (cases "c1 = c2")
  case True
  then show ?thesis by (simp add: vc_compare_commits_def reach_until.head)
next
  case False
  obtain a b where a: "get_commit V c1 = Some a" "genuine V A a" "commit_id a = c1"
    and b: "get_commit V c2 = Some b" "genuine V A b" "commit_id b = c2"
    using history_get [OF assms(1)] assms(2,3) by meson
  obtain r where r: "get_merge_base k n m V a b = Some r"
      "\<And>c. r = Some c \<Longrightarrow> commit_id c \<in> anc V c1 \<inter> anc V c2"
      "c2 \<in> anc V c1 \<Longrightarrow> r = Some b" "c1 \<in> anc V c2 \<Longrightarrow> r = Some a"
    using get_merge_base_ok [OF assms(1,5,4,6) a(2) b(2)] a(3) b(3) by blast
  have eq: "vc_compare_commits k n m V c1 c2 = Some (case r of None \<Rightarrow> VC_INDEPENDENT | Some ca \<Rightarrow>
      if commit_id ca = c1 then VC_UP_TO_DATE else if commit_id ca = c2 then VC_FAST_FORWARD else VC_INDEPENDENT)"
    using False a b r(1) by (simp add: vc_compare_commits_def split: option.split)
  consider "c1 \<in> anc V c2" | "c1 \<notin> anc V c2" "c2 \<in> anc V c1" | "c1 \<notin> anc V c2" "c2 \<notin> anc V c1" by blast
  then show ?thesis
  proof cases
    case 1
    then show ?thesis using r(4) a(3) by (simp add: eq anc_def)
  next
    case 2
    then show ?thesis using r(3) b(3) False by (simp add: eq anc_def)
  next
    case 3
    have "commit_id ca \<noteq> c1 \<and> commit_id ca \<noteq> c2" if "r = Some ca" for ca using r(2) [OF that] 3 by auto
    then show ?thesis using 3 by (simp add: eq anc_def split: option.split)
  qed
qed

text \<open>The history of the witnesses.\<close>

definition demo_ids_abc :: "string set" where
  "demo_ids_abc = {demo_id (CHR ''a''), demo_id (CHR ''b''), demo_id (CHR ''c'')}"

lemma demo_reach_sub:
  "commit_reach demo_history i j \<Longrightarrow> i \<in> demo_ids_abc \<Longrightarrow>
   (i = demo_id (CHR ''a'') \<longrightarrow> j = demo_id (CHR ''a'')) \<and>
   (i = demo_id (CHR ''b'') \<longrightarrow> j \<noteq> demo_id (CHR ''c'')) \<and> j \<in> demo_ids_abc"
  by (induction rule: reach_until.induct) (auto simp: demo_ids_abc_def parents_def)

lemma demo_ids_cases:
  assumes "i \<in> demo_ids_abc"
  obtains "i = demo_id (CHR ''a'')" | "i = demo_id (CHR ''b'')" | "i = demo_id (CHR ''c'')"
  using assms unfolding demo_ids_abc_def by blast

lemma demo_history_ok: "history_ok demo_history demo_ids_abc"
  unfolding history_ok_def
proof (intro conjI ballI impI)
  fix i j
  assume i: "i \<in> demo_ids_abc" and j: "j \<in> demo_ids_abc"
    and ij: "commit_reach demo_history i j" and ji: "commit_reach demo_history j i"
  from demo_reach_sub [OF ij i] demo_reach_sub [OF ji j] i j show "i = j"
    by (elim demo_ids_cases) simp_all
next
  fix i assume "i \<in> demo_ids_abc"
  then show "\<exists>c. get_commit demo_history i = Some c \<and> repo_id c = cv_repo demo_history \<and> parents c \<subseteq> demo_ids_abc"
    by (elim demo_ids_cases) (simp_all add: demo_ids_abc_def parents_def)
qed (simp add: demo_ids_abc_def)

lemma demo_card: "card demo_ids_abc = 3"
  by (simp add: demo_ids_abc_def)

lemma demo_reach_ca: "commit_reach demo_history (demo_id (CHR ''c'')) (demo_id (CHR ''a''))"
  using demo_reach by blast

lemma demo_not_reach: "\<not> commit_reach demo_history (demo_id (CHR ''a'')) (demo_id (CHR ''c''))"
proof
  assume "commit_reach demo_history (demo_id (CHR ''a'')) (demo_id (CHR ''c''))"
  from demo_reach_sub [OF this] show False by (simp add: demo_ids_abc_def)
qed

theorem vc_compare_commits_exact_witness:
  "vc_compare_commits 3 4 3 demo_history (demo_id (CHR ''c'')) (demo_id (CHR ''a'')) = Some VC_FAST_FORWARD \<and>
   vc_compare_commits 3 4 3 demo_history (demo_id (CHR ''a'')) (demo_id (CHR ''c'')) = Some VC_UP_TO_DATE"
proof -
  have "demo_id (CHR ''a'') \<in> demo_ids_abc" "demo_id (CHR ''c'') \<in> demo_ids_abc"
    by (simp_all add: demo_ids_abc_def)
  then show ?thesis
    using vc_compare_commits_exact [OF demo_history_ok, of _ _ 4 3 3] demo_reach_ca demo_not_reach
    by (simp add: demo_card)
qed

text \<open>C9: \<open>merge_bases_many\<close> finds exactly a set of merge bases: in a finite, readable, acyclic history,
  with fuels above its size, the commits it returns are pairwise distinct stored commits, each an ancestor of
  \<open>one\<close> and of some commit of \<open>twos\<close>, none is an ancestor of another, and every common ancestor of
  \<open>one\<close> and a commit of \<open>twos\<close> is an ancestor of one of them.\<close>

theorem merge_bases_are_maximal_common_ancestors:
  assumes "history_ok V A" "card A \<le> m" "card A < n"
    and "genuine V A one" "\<forall>t\<in>set twos. genuine V A t"
  shows "\<exists>res. merge_bases_many n m V one twos = Some res \<and> distinct (map commit_id res) \<and>
    (\<forall>c\<in>set res. get_commit V (commit_id c) = Some c \<and> commit_reach V (commit_id one) (commit_id c) \<and>
       (\<exists>t\<in>set twos. commit_reach V (commit_id t) (commit_id c))) \<and>
    (\<forall>a\<in>set res. \<forall>b\<in>set res. commit_reach V (commit_id a) (commit_id b) \<longrightarrow> a = b) \<and>
    (\<forall>t\<in>set twos. \<forall>j. commit_reach V (commit_id one) j \<longrightarrow> commit_reach V (commit_id t) j \<longrightarrow>
       (\<exists>c\<in>set res. commit_reach V (commit_id c) j))"
proof -
  have "card (common_anc V one twos) \<le> card A"
    using common_anc_finite(2) [OF assms(1,4)] assms(1) by (intro card_mono) (simp_all add: history_ok_def)
  then have "card (common_anc V one twos) < n" using assms(3) by simp
  then obtain res where res: "merge_bases_many n m V one twos = Some res"
      "covers V A (common_anc V one twos) res" "independent V res"
    using merge_bases_many_ok [OF assms(1,2,4,5)] unfolding finds_bases_def by blast
  show ?thesis
    using res(2,3) unfolding covers_def independent_def common_anc_def anc_def genuine_def
    by (intro exI [of _ res] conjI res(1)) blast+
qed

theorem merge_bases_are_maximal_common_ancestors_witness:
  "\<exists>res. merge_bases_many 4 3 demo_history demo_b [demo_c] = Some res \<and> distinct (map commit_id res) \<and>
    (\<exists>c\<in>set res. commit_reach demo_history (commit_id c) (demo_id (CHR ''a'')))"
proof -
  have g: "genuine demo_history demo_ids_abc demo_b" "\<forall>t\<in>set [demo_c]. genuine demo_history demo_ids_abc t"
    by (simp_all add: genuine_def demo_ids_abc_def)
  have a: "commit_reach demo_history (commit_id demo_b) (demo_id (CHR ''a''))"
    using reach_until.parent [OF reach_until.head demo_history_get(2)] by (simp add: parents_def)
  have "card demo_ids_abc \<le> 3" "card demo_ids_abc < 4" by (simp_all add: demo_card)
  from merge_bases_are_maximal_common_ancestors [OF demo_history_ok this g] obtain res where
    res: "merge_bases_many 4 3 demo_history demo_b [demo_c] = Some res" "distinct (map commit_id res)"
      "\<forall>t\<in>set [demo_c]. \<forall>j. commit_reach demo_history (commit_id demo_b) j \<longrightarrow>
        commit_reach demo_history (commit_id t) j \<longrightarrow> (\<exists>c\<in>set res. commit_reach demo_history (commit_id c) j)"
    by metis
  then show ?thesis using a demo_reach_ca by simp
qed

text \<open>
  The commit that introduced the version of a file its descendants have: it has a parent, and
  either the first parent is the empty tree or no parent has the file with that id.
\<close>

definition introduces :: "commit_view \<Rightarrow> fs_view \<Rightarrow> commit \<Rightarrow> string \<Rightarrow> string \<Rightarrow> bool" where
  "introduces V F c path fid \<longleftrightarrow>
     path_id F (root_id c) path = Inr (Some fid) \<and>
     (\<exists>p1. opt_commit V (parent_id c) = Some p1 \<and>
        (root_id p1 = EMPTY_SHA1 \<or>
         (path_id F (root_id p1) path \<noteq> Inr (Some fid) \<and>
          (\<forall>q p2. second_parent_id c = Some q \<longrightarrow> get_commit V q = Some p2 \<longrightarrow>
             path_id F (root_id p2) path \<noteq> Inr (Some fid)))))"

lemma diff_parents_changed:
  assumes "diff_parents_with_path V F c path fid = Inr None" "in_repo_of V c = V"
    and "path_id F (root_id c) path = Inr (Some fid)"
  shows "introduces V F c path fid"
  using assms
  by (auto simp: diff_parents_with_path_def introduces_def compare_with_parents_def opt_commit_def Let_def
      split: option.splits sum.splits if_splits)

lemma diff_parents_same:
  assumes "diff_parents_with_path V F c path fid = Inr (Some p)" "in_repo_of V c = V"
  shows "p \<in> parents c \<and> (\<exists>d. get_commit V p = Some d \<and> path_id F (root_id d) path = Inr (Some fid))"
  using assms get_commit_id
  by (auto simp: diff_parents_with_path_def compare_with_parents_def opt_commit_def Let_def parents_def
      split: option.splits sum.splits if_splits)

lemma parent_reach: "get_commit V i = Some c \<Longrightarrow> p \<in> parents c \<Longrightarrow> commit_reach V i p"
  by (rule reach_until.parent [OF reach_until.head]) simp_all

lemma modifier_loop_introduced:
  assumes "history_ok V A"
  shows "i \<in> A \<Longrightarrow> modifier_mtime_v0_loop n V F i path = Some (0, md, t) \<Longrightarrow>
    \<exists>c. commit_reach V i (commit_id c) \<and> get_commit V (commit_id c) = Some c \<and>
      (parent_id c = None \<and> md = None \<and> t = 0 \<or>
       (\<exists>h fid. get_commit V i = Some h \<and> path_id F (root_id h) path = Inr (Some fid) \<and>
          introduces V F c path fid \<and> md = creator_name c \<and> t = ctime c))"
proof (induction n arbitrary: i)
  case (Suc n)
  obtain c where c: "get_commit V i = Some c" "genuine V A c" "commit_id c = i"
    using history_get [OF assms Suc.prems(1)] by blast
  have V: "in_repo_of V c = V" by (rule in_repo_of_genuine [OF assms c(2)])
  show ?case
  proof (cases "parent_id c")
    case None
    then show ?thesis using Suc.prems(2) c reach_until.head by (intro exI [of _ c]) auto
  next
    case par: (Some pid)
    obtain fid where fid: "path_id F (root_id c) path = Inr (Some fid)"
      using Suc.prems(2) c(1) par by (auto split: sum.splits option.splits)
    obtain r where r: "diff_parents_with_path V F c path fid = Inr r"
      using Suc.prems(2) c(1) par fid by (auto split: sum.splits)
    show ?thesis
    proof (cases r)
      case None
      then have d: "diff_parents_with_path V F c path fid = Inr None" using r by simp
      show ?thesis
        using Suc.prems(2) c par fid d diff_parents_changed [OF d V fid] reach_until.head
        by (intro exI [of _ c]) auto
    next
      case (Some p)
      then have d: "diff_parents_with_path V F c path fid = Inr (Some p)" using r by simp
      obtain e where p: "p \<in> parents c" "get_commit V p = Some e" "path_id F (root_id e) path = Inr (Some fid)"
        using diff_parents_same [OF d V] by blast
      have ip: "commit_reach V i p" by (rule parent_reach [OF c(1) p(1)])
      then have "p \<in> A" using anc_closed [OF assms Suc.prems(1)] by (auto simp: anc_def)
      moreover have "modifier_mtime_v0_loop n V F p path = Some (0, md, t)"
        using Suc.prems(2) c(1) par fid d by simp
      ultimately obtain x where x: "commit_reach V p (commit_id x)" "get_commit V (commit_id x) = Some x"
        "parent_id x = None \<and> md = None \<and> t = 0 \<or> (\<exists>h f. get_commit V p = Some h \<and>
           path_id F (root_id h) path = Inr (Some f) \<and> introduces V F x path f \<and> md = creator_name x \<and> t = ctime x)"
        using Suc.IH by blast
      have "commit_reach V i (commit_id x)" using commit_reach_trans [OF x(1) ip] .
      moreover have "\<exists>h f. get_commit V i = Some h \<and> path_id F (root_id h) path = Inr (Some f) \<and>
          introduces V F x path f \<and> md = creator_name x \<and> t = ctime x"
        if "\<not> (parent_id x = None \<and> md = None \<and> t = 0)"
        using x(3) that p(2,3) c(1) fid by force
      ultimately show ?thesis using x(2) by blast
    qed
  qed
qed simp

text \<open>Whom \<open>get_file_modifier_mtime_v0\<close> names: a successful search from a head ends at a commit of its
  history that either has no parent, with no modifier, or introduced the version of the file the
  head has, and whose creator and time are the answer.\<close>

theorem modifier_introduced_version:
  assumes "history_ok V A" "head \<in> A" "length head = 40"
    and "get_file_modifier_mtime_v0 n V F head path = Some (0, md, t)"
  shows "\<exists>c. commit_reach V head (commit_id c) \<and> get_commit V (commit_id c) = Some c \<and>
    (parent_id c = None \<and> md = None \<and> t = 0 \<or>
     (\<exists>h fid. get_commit V head = Some h \<and> path_id F (root_id h) path = Inr (Some fid) \<and>
        introduces V F c path fid \<and> md = creator_name c \<and> t = ctime c))"
  using modifier_loop_introduced [OF assms(1,2)] assms(3,4) by (simp add: get_file_modifier_mtime_v0_def)

lemma demo_root_f: "root_id demo_a = demo_id (CHR ''f'')" "root_id demo_b = demo_id (CHR ''f'')"
    "root_id demo_c = demo_id (CHR ''f'')"
  by (simp_all add: demo_a_def demo_b_def demo_c_def demo_commit_def)

lemma demo_in_repo: "in_repo_of demo_history demo_c = demo_history"
  by (simp add: in_repo_of_def demo_history_def demo_c_def demo_commit_def)

theorem modifier_introduced_version_witness:
  "get_file_modifier_mtime_v0 2 demo_history demo_view (demo_id (CHR ''c'')) ''/'' = Some (0, None, 0) \<and>
   (\<exists>c. commit_reach demo_history (demo_id (CHR ''c'')) (commit_id c) \<and>
      get_commit demo_history (commit_id c) = Some c)"
proof
  have "demo_id (CHR ''f'') \<noteq> EMPTY_SHA1" by (simp add: demo_id_def EMPTY_SHA1_def replicate_eq_replicate)
  moreover have "path_id demo_view r ''/'' = Inr (Some r)" for r
    by (simp add: path_id_def seaf_fs_manager_path_to_obj_id_def strip_slashes_def)
  moreover have "take 40 (demo_id x) = demo_id x" for x by simp
  ultimately show run: "get_file_modifier_mtime_v0 2 demo_history demo_view (demo_id (CHR ''c'')) ''/''
      = Some (0, None, 0)"
    by (simp add: get_file_modifier_mtime_v0_def eval_nat_numeral demo_root_f diff_parents_with_path_def
        opt_commit_def demo_in_repo compare_with_parents_def Let_def)
  have "demo_id (CHR ''c'') \<in> demo_ids_abc" by (simp add: demo_ids_abc_def)
  from modifier_introduced_version [OF demo_history_ok this _ run]
  show "\<exists>c. commit_reach demo_history (demo_id (CHR ''c'')) (commit_id c) \<and>
      get_commit demo_history (commit_id c) = Some c" by fastforce
qed

end
