(* ===== verification/MergeNew.thy ===== *)
theory MergeNew
  imports DiffSimple VcCommon
begin

text \<open>
  Three-way merge of directory trees (\<open>common/merge-new.c\<close>).  The walk is that of \<open>NWay\<close>; the state
  threads the object store, into which merged directories are saved, and the fields of
  \<open>MergeOptions\<close> the merge writes.  The fuel of \<open>merge_trees_recursive\<close> bounds the depth; None means
  that it ran out.
\<close>

section \<open>Options and state\<close>

text \<open>
  The fields of \<open>MergeOptions\<close> that are only read, with what the search for a file's modifier needs:
  the commits of \<open>remote_repo_id\<close>, GLib's path functions, the printed local time, its fuel, and the
  value of the uninitialised variable \<open>mtime\<close>.
\<close>

record 'u merge_options =
  mo_do_merge :: bool
  mo_callback :: "string \<Rightarrow> dirent option list \<Rightarrow> 'u \<Rightarrow> int \<times> 'u"
  mo_commits :: commit_view
  mo_remote_head :: string
  mo_dirname :: "string \<Rightarrow> string"
  mo_basename :: "string \<Rightarrow> string"
  mo_strftime :: "u64 \<Rightarrow> string"
  mo_fuel :: nat
  mo_mtime :: u64

record 'u merge_state =
  ms_view :: fs_view
  ms_root :: string
  ms_visit_dirs :: nat
  ms_conflict :: bool
  ms_data :: 'u

section \<open>Conflict names\<close>

text \<open>The inner None is the NULL result.\<close>

definition merge_conflict_filename ::
    "'u merge_options \<Rightarrow> fs_view \<Rightarrow> string \<Rightarrow> string \<Rightarrow> string option option" where
  "merge_conflict_filename opt F basedir filename =
     (case get_file_modifier_mtime (mo_dirname opt) (mo_basename opt) (mo_fuel opt) (mo_commits opt) F
             (mo_remote_head opt) (basedir @ filename) (None, mo_mtime opt) of
        None \<Rightarrow> None
      | Some (rc, modifier, mtime) \<Rightarrow>
          if rc < 0 then
            (case seaf_commit_manager_get_commit (mo_commits opt) (mo_remote_head opt) of
               None \<Rightarrow> Some None
             | Some c \<Rightarrow>
                 Some (Some (gen_conflict_path (mo_strftime opt) filename (creator_name c)
                   (cv_now (mo_commits opt)))))
          else Some (Some (gen_conflict_path (mo_strftime opt) filename modifier mtime)))"

definition merge_conflict_dirname :: "'u merge_options \<Rightarrow> string \<Rightarrow> string option" where
  "merge_conflict_dirname opt dirname =
     (case seaf_commit_manager_get_commit (mo_commits opt) (mo_remote_head opt) of
        None \<Rightarrow> None
      | Some c \<Rightarrow>
          Some (gen_conflict_path (mo_strftime opt) dirname (creator_name c) (cv_now (mo_commits opt))))"

section \<open>One name\<close>

type_synonym 'u merge_result = "(int \<times> dirent option list \<times> dirent list \<times> 'u merge_state) option"

definition rename_entry :: "nat \<Rightarrow> string \<Rightarrow> dirent option list \<Rightarrow> dirent option list" where
  "rename_entry i name dents = dents[i := map_option (\<lambda>d. d\<lparr>d_name := name\<rparr>) (dents ! i)]"

text \<open>Entry \<open>i\<close> gets a conflict name in place; then the entries of \<open>added\<close> go to the result.\<close>

definition add_conflict ::
    "string option option \<Rightarrow> nat \<Rightarrow> (string \<Rightarrow> dirent list) \<Rightarrow> dirent option list \<Rightarrow> dirent list
     \<Rightarrow> 'u merge_state \<Rightarrow> 'u merge_result" where
  "add_conflict conflict_name i added dents out st =
     (case conflict_name of
        None \<Rightarrow> None
      | Some None \<Rightarrow> Some (-1, dents, out, st)
      | Some (Some name) \<Rightarrow>
          Some (0, rename_entry i name dents, added name @ out, st\<lparr>ms_conflict := True\<rparr>))"

definition reg_file :: "dirent option \<Rightarrow> dirent option" where
  "reg_file d = (case d of None \<Rightarrow> None | Some x \<Rightarrow> if S_ISREG (d_mode x) then Some x else None)"

text \<open>The three-way merge of the files of one name; \<open>out\<close> is \<open>*dents_out\<close>.\<close>

definition merge_files_threeway ::
    "'u merge_options \<Rightarrow> dirent option list \<Rightarrow> string \<Rightarrow> dirent list \<Rightarrow> 'u merge_state \<Rightarrow> 'u merge_result"
    where
  "merge_files_threeway opt dents basedir out st =
     (let F = ms_view st;
          add = (\<lambda>d. Some (0, dents, seaf_dirent_dup d # out, st));
          none = Some (0, dents, out, st);
          conflict_file = (\<lambda>name. merge_conflict_filename opt F basedir name);
          conflict_dir = (\<lambda>name. Some (merge_conflict_dirname opt name))
      in case (reg_file (dents ! 0), reg_file (dents ! 1), reg_file (dents ! 2)) of
           (base, Some head, Some remote) \<Rightarrow>
             if strcmp (d_id head) (d_id remote) = 0 then add head
             else if base \<noteq> None \<and> strcmp (d_id (the base)) (d_id head) = 0 then add remote
             else if base \<noteq> None \<and> strcmp (d_id (the base)) (d_id remote) = 0 then add head
             else add_conflict (conflict_file (d_name head)) 2
                    (\<lambda>n. [seaf_dirent_dup (remote\<lparr>d_name := n\<rparr>), seaf_dirent_dup head]) dents out st
         | (Some base, None, Some remote) \<Rightarrow>
             if strcmp (d_id base) (d_id remote) \<noteq> 0 then
               (if dents ! 1 \<noteq> None then
                  add_conflict (conflict_file (d_name remote)) 2
                    (\<lambda>n. [seaf_dirent_dup (remote\<lparr>d_name := n\<rparr>)]) dents out st
                else add remote)
             else none
         | (Some base, Some head, None) \<Rightarrow>
             if strcmp (d_id base) (d_id head) \<noteq> 0 then
               (if dents ! 2 \<noteq> None then
                  add_conflict (conflict_dir (d_name (the (dents ! 2)))) 2
                    (\<lambda>n. [seaf_dirent_dup head]) dents out st
                else add head)
             else none
         | (None, None, Some remote) \<Rightarrow>
             (case dents ! 1 of
                None \<Rightarrow> add remote
              | Some head_dir \<Rightarrow>
                  if dents ! 0 \<noteq> None \<and> strcmp (d_id (the (dents ! 0))) (d_id head_dir) = 0 then add remote
                  else add_conflict (conflict_file (d_name remote)) 2
                         (\<lambda>n. [seaf_dirent_dup (remote\<lparr>d_name := n\<rparr>)]) dents out st)
         | (None, Some head, None) \<Rightarrow>
             (case dents ! 2 of
                None \<Rightarrow> add head
              | Some remote_dir \<Rightarrow>
                  if dents ! 0 \<noteq> None \<and> strcmp (d_id (the (dents ! 0))) (d_id remote_dir) = 0 then add head
                  else add_conflict (conflict_dir (d_name remote_dir)) 2
                         (\<lambda>n. [seaf_dirent_dup head]) dents out st)
         | (_, None, None) \<Rightarrow> none)"

definition merge_entries ::
    "'u merge_options \<Rightarrow> dirent option list \<Rightarrow> string \<Rightarrow> dirent list \<Rightarrow> 'u merge_state \<Rightarrow> 'u merge_result"
    where
  "merge_entries opt dents basedir out st =
     (if length dents = 2 \<or> \<not> mo_do_merge opt then
        (case mo_callback opt basedir (map reg_file dents) (ms_data st) of
           (ret, u) \<Rightarrow> Some (ret, dents, out, st\<lparr>ms_data := u\<rparr>))
      else merge_files_threeway opt dents basedir out st)"

section \<open>Directories\<close>

definition is_dir :: "dirent option \<Rightarrow> bool" where
  "is_dir d = (case d of None \<Rightarrow> False | Some x \<Rightarrow> S_ISDIR (d_mode x))"

fun dir_mask :: "dirent option list \<Rightarrow> nat" where
  "dir_mask [] = 0"
| "dir_mask (d # ds) = (if is_dir d then 1 else 0) + 2 * dir_mask ds"

text \<open>
  The switch on the mask of directories: a result without descending, or None to descend.
\<close>

definition merge_dirs_switch :: "dirent option list \<Rightarrow> dirent list \<Rightarrow> (int \<times> dirent list) option" where
  "merge_dirs_switch dents out =
     (let m = dir_mask dents;
          base = the (dents ! 0); head = the (dents ! 1); remote = the (dents ! 2)
      in if m = 1 then Some (0, out)
         else if m = 2 then Some (0, seaf_dirent_dup head # out)
         else if m = 3 then (if strcmp (d_id base) (d_id head) = 0 then Some (0, out) else None)
         else if m = 4 then Some (0, seaf_dirent_dup remote # out)
         else if m = 5 then (if strcmp (d_id base) (d_id remote) = 0 then Some (0, out) else None)
         else if m = 6 \<or> m = 7 then
           (if strcmp (d_id head) (d_id remote) = 0 then Some (0, seaf_dirent_dup head # out)
            else if dents ! 0 \<noteq> None \<and> strcmp (d_id base) (d_id head) = 0
            then Some (0, seaf_dirent_dup remote # out)
            else if dents ! 0 \<noteq> None \<and> strcmp (d_id base) (d_id remote) = 0
            then Some (0, seaf_dirent_dup head # out)
            else None)
         else Some (-1, out))"

text \<open>The directories of one name, None when one cannot be read, and how many were read.\<close>

fun load_merge_dirs :: "fs_view \<Rightarrow> dirent option list \<Rightarrow> seafdir option list option \<times> nat" where
  "load_merge_dirs F [] = (Some [], 0)"
| "load_merge_dirs F (dent # dents) =
     (if is_dir dent then
        (case get_dir F (d_id (the dent)) of
           None \<Rightarrow> (None, 0)
         | Some dir \<Rightarrow>
             (case load_merge_dirs F dents of
                (ds, k) \<Rightarrow> (map_option (Cons (Some dir)) ds, Suc k)))
      else (case load_merge_dirs F dents of (ds, k) \<Rightarrow> (map_option (Cons None) ds, k)))"

definition merged_entry :: "'u merge_state \<Rightarrow> dirent \<Rightarrow> dirent" where
  "merged_entry st d = (seaf_dirent_dup d)\<lparr>d_id := take 40 (ms_root st)\<rparr>"

text \<open>\<open>walk\<close> is the recursive call.\<close>

definition merge_directories ::
    "(seafdir option list \<Rightarrow> string \<Rightarrow> 'u merge_state \<Rightarrow> (int \<times> 'u merge_state) option)
     \<Rightarrow> 'u merge_options \<Rightarrow> dirent option list \<Rightarrow> string \<Rightarrow> dirent list \<Rightarrow> 'u merge_state
     \<Rightarrow> (int \<times> dirent list \<times> 'u merge_state) option" where
  "merge_directories walk opt dents basedir out st =
     (let threeway = (length dents = 3 \<and> mo_do_merge opt) in
      case (if threeway then merge_dirs_switch dents out else None) of
        Some (ret, out') \<Rightarrow> Some (ret, out', st)
      | None \<Rightarrow>
          (case load_merge_dirs (ms_view st) dents of
             (subs, k) \<Rightarrow>
               (let st = st\<lparr>ms_visit_dirs := ms_visit_dirs st + k\<rparr> in
                case subs of
                  None \<Rightarrow> Some (-1, out, st)
                | Some trees \<Rightarrow>
                    (case walk trees (basedir @ last_dirname (only_dirs dents) [] @ ''/'') st of
                       None \<Rightarrow> None
                     | Some (ret, st) \<Rightarrow>
                         Some (ret,
                           (if threeway then
                              (if dir_mask dents = 3 \<or> dir_mask dents = 6 \<or> dir_mask dents = 7
                               then merged_entry st (the (dents ! 1)) # out
                               else if dir_mask dents = 5 then merged_entry st (the (dents ! 2)) # out
                               else out)
                            else out), st)))))"

section \<open>The merge\<close>

text \<open>The loop over the names; a negative result ended it early.\<close>

fun merge_loop ::
    "(seafdir option list \<Rightarrow> string \<Rightarrow> 'u merge_state \<Rightarrow> (int \<times> 'u merge_state) option)
     \<Rightarrow> 'u merge_options \<Rightarrow> string \<Rightarrow> dirent option list list \<Rightarrow> int \<Rightarrow> dirent list \<Rightarrow> 'u merge_state
     \<Rightarrow> (int \<times> dirent list \<times> 'u merge_state) option" where
  "merge_loop walk opt basedir [] ret out st = Some (ret, out, st)"
| "merge_loop walk opt basedir (dents # steps) ret out st =
     (case (if list_ex (\<lambda>d. reg_file d \<noteq> None) dents then merge_entries opt dents basedir out st
            else Some (ret, dents, out, st)) of
        None \<Rightarrow> None
      | Some (ret1, dents1, out1, st1) \<Rightarrow>
          if ret1 < 0 then Some (ret1, out1, st1)
          else (case (if list_ex is_dir dents then merge_directories walk opt dents1 basedir out1 st1
                      else Some (ret1, out1, st1)) of
                  None \<Rightarrow> None
                | Some (ret2, out2, st2) \<Rightarrow>
                    if ret2 < 0 then Some (ret2, out2, st2)
                    else merge_loop walk opt basedir steps ret2 out2 st2))"

definition has_dir_id :: "seafdir option \<Rightarrow> string \<Rightarrow> bool" where
  "has_dir_id t i = (case t of None \<Rightarrow> False | Some dir \<Rightarrow> strcmp (dir_id dir) i = 0)"

text \<open>The merged directory of a three-way merge: its id is recorded, and it is saved unless head or remote is the same.\<close>

definition finish_merge ::
    "seafdir option list \<Rightarrow> int \<Rightarrow> dirent list \<Rightarrow> 'u merge_state \<Rightarrow> int \<times> 'u merge_state" where
  "finish_merge trees ret out st =
     (let F = ms_view st;
          merged_tree = seaf_dir_new (fv_libs F) None (g_list_sort compare_dirents out)
            (dir_version_from_repo_version (fv_version F));
          st = st\<lparr>ms_root := take 40 (dir_id merged_tree)\<rparr>
      in if has_dir_id (trees ! 1) (dir_id merged_tree) \<or> has_dir_id (trees ! 2) (dir_id merged_tree)
         then (ret, st)
         else (case seaf_dir_save (fv_libs F) (fv_store F) (fv_repo F) merged_tree of
                 (ret, store') \<Rightarrow> (ret, st\<lparr>ms_view := F\<lparr>fv_store := store'\<rparr>\<rparr>)))"

primrec merge_trees_recursive ::
    "nat \<Rightarrow> 'u merge_options \<Rightarrow> seafdir option list \<Rightarrow> string \<Rightarrow> 'u merge_state
     \<Rightarrow> (int \<times> 'u merge_state) option" where
  "merge_trees_recursive 0 opt trees basedir st = None"
| "merge_trees_recursive (Suc n) opt trees basedir st =
     (case merge_loop (merge_trees_recursive n opt) opt basedir (nway_steps (tree_ptrs trees)) 0 [] st of
        None \<Rightarrow> None
      | Some (ret, out, st') \<Rightarrow>
          if ret < 0 then Some (ret, st')
          else if length trees = 3 \<and> mo_do_merge opt then Some (finish_merge trees ret out st')
          else Some (ret, st'))"

definition seaf_merge_trees ::
    "nat \<Rightarrow> 'u merge_options \<Rightarrow> string list \<Rightarrow> 'u merge_state \<Rightarrow> (int \<times> 'u merge_state) option" where
  "seaf_merge_trees n opt roots st =
     (if length roots \<noteq> 2 \<and> length roots \<noteq> 3 then Some (-1, st)
      else (case load_roots (ms_view st) roots of
              None \<Rightarrow> Some (-1, st)
            | Some trees \<Rightarrow> merge_trees_recursive n opt trees [] st))"

section \<open>The three-way rule\<close>

text \<open>
  The rule a three-way merge follows for a name: what head and remote agree on; what the other has
  when one of them did not change the base.  Two entries agree when both are absent, or both are
  files or both directories with the same id.
\<close>

definition agree :: "dirent option \<Rightarrow> dirent option \<Rightarrow> bool" where
  "agree a b =
     (case (a, b) of
        (None, None) \<Rightarrow> True
      | (Some x, Some y) \<Rightarrow> d_id x = d_id y \<and> S_ISDIR (d_mode x) = S_ISDIR (d_mode y)
      | _ \<Rightarrow> False)"

definition three_way_rule :: "dirent option \<Rightarrow> dirent option \<Rightarrow> dirent option \<Rightarrow> dirent option option" where
  "three_way_rule b h r =
     (if agree h r then Some h else if agree b h then Some r else if agree b r then Some h else None)"

definition plain_entry :: "dirent option \<Rightarrow> bool" where
  "plain_entry d = (case d of None \<Rightarrow> True | Some x \<Rightarrow> S_ISREG (d_mode x) \<or> S_ISDIR (d_mode x))"

definition opt_list :: "'a option \<Rightarrow> 'a list" where
  "opt_list x = (case x of None \<Rightarrow> [] | Some y \<Rightarrow> [y])"

lemma plain_cases:
  assumes "plain_entry d"
  obtains "d = None" | x where "d = Some x" "S_ISREG (d_mode x)" "\<not> S_ISDIR (d_mode x)"
    | x where "d = Some x" "\<not> S_ISREG (d_mode x)" "S_ISDIR (d_mode x)"
  using assms not_reg_and_dir not_dir_and_reg
  by (cases d) (auto simp: plain_entry_def)

lemmas merge_step_defs = merge_entries_def merge_files_threeway_def merge_directories_def
  merge_dirs_switch_def reg_file_def is_dir_def agree_def seaf_dirent_dup_def Let_def opt_list_def

text \<open>A step where the rule decides: the loop adds what the rule says and goes on.\<close>

lemma merge_step_clean:
  assumes plain: "plain_entry b" "plain_entry h" "plain_entry r" and merge: "mo_do_merge opt"
    and rule: "three_way_rule b h r = Some e"
  shows "merge_loop walk opt basedir ([b, h, r] # steps) 0 out st
    = merge_loop walk opt basedir steps 0 (opt_list e @ out) st"
  using rule unfolding three_way_rule_def
  by (cases rule: plain_cases [OF plain(1)]; cases rule: plain_cases [OF plain(2)];
      cases rule: plain_cases [OF plain(3)])
     (auto simp: merge merge_step_defs split: if_splits)

lemma set_opt_list [simp]: "set (opt_list x) = set_option x"
  by (cases x) (simp_all add: opt_list_def)

definition level_ok :: "seafdir option \<Rightarrow> bool" where
  "level_ok t = (case t of None \<Rightarrow> True
     | Some dir \<Rightarrow> desc_by d_name (entries dir) \<and> (\<forall>e\<in>set (entries dir). plain_entry (Some e)))"

definition ruled :: "seafdir option \<Rightarrow> seafdir option \<Rightarrow> seafdir option \<Rightarrow> string \<Rightarrow> dirent option option" where
  "ruled b h r k = three_way_rule (tree_entry b k) (tree_entry h k) (tree_entry r k)"

lemma level_plain: "level_ok t \<Longrightarrow> plain_entry (tree_entry t k)"
  by (auto simp: level_ok_def tree_entry_def plain_entry_def split: option.splits dest!: find_key_SomeD)

lemma tree_entry_name: "tree_entry t k = Some e \<Longrightarrow> d_name e = k"
  by (auto simp: tree_entry_def split: option.splits dest!: find_key_SomeD)

lemma rule_choice: "three_way_rule b h r = Some e \<Longrightarrow> e = h \<or> e = r"
  by (auto simp: three_way_rule_def split: if_splits)

lemma step_of_three: "step_of (tree_ptrs [b, h, r]) = (\<lambda>k. [tree_entry b k, tree_entry h k, tree_entry r k])"
  by (auto simp: fun_eq_iff step_of_def tree_ptrs_def tree_entry_def split: option.splits)

lemma three_steps:
  assumes "level_ok b" "level_ok h" "level_ok r"
  shows "\<exists>ns. nway_steps (tree_ptrs [b, h, r]) = map (\<lambda>k. [tree_entry b k, tree_entry h k, tree_entry r k]) ns \<and>
    distinct ns \<and> (\<forall>k. k \<notin> set ns \<longrightarrow> tree_entry b k = None \<and> tree_entry h k = None \<and> tree_entry r k = None)"
proof -
  have "list_all (desc_by d_name) (tree_ptrs [b, h, r])"
    using assms by (auto simp: tree_ptrs_def level_ok_def split: option.splits)
  then obtain ns where ns: "nway_steps (tree_ptrs [b, h, r]) = map (step_of (tree_ptrs [b, h, r])) ns"
      "set ns = all_names (tree_ptrs [b, h, r])" "sorted_wrt (\<lambda>a b. b < a) ns"
    using nway_steps_sorted by blast
  have "distinct ns" using ns(3) by (induction ns) auto
  moreover have "tree_entry b k = None \<and> tree_entry h k = None \<and> tree_entry r k = None" if "k \<notin> set ns" for k
    using that by (auto simp: ns(2) all_names_def tree_ptrs_def tree_entry_def find_None_iff split: option.splits)
  ultimately show ?thesis using ns(1) unfolding step_of_three by blast
qed

lemma merge_loop_clean:
  assumes ok: "level_ok b" "level_ok h" "level_ok r" "mo_do_merge opt"
    and rule: "\<forall>k\<in>set ns. ruled b h r k \<noteq> None"
  shows "merge_loop walk opt basedir (map (\<lambda>k. [tree_entry b k, tree_entry h k, tree_entry r k]) ns) 0 out st
    = Some (0, concat (rev (map (\<lambda>k. opt_list (the (ruled b h r k))) ns)) @ out, st)"
  using rule
proof (induction ns arbitrary: out)
  case (Cons k ns)
  then obtain e where e: "three_way_rule (tree_entry b k) (tree_entry h k) (tree_entry r k) = Some e"
    by (auto simp: ruled_def)
  show ?case
    unfolding list.map merge_step_clean [OF level_plain [OF ok(1)] level_plain [OF ok(2)] level_plain [OF ok(3)] ok(4) e]
    using Cons e by (simp add: ruled_def)
qed simp

lemma compare_dirents_desc: "compare_dirents = desc_cmp d_name"
  by (simp add: fun_eq_iff compare_dirents_def desc_cmp_def)

lemma ruled_name: "ruled b h r k = Some (Some e) \<Longrightarrow> d_name e = k"
  using rule_choice tree_entry_name unfolding ruled_def by metis

text \<open>The entries the rule gives, collected over distinct names and sorted.\<close>

lemma collected_sorted:
  fixes f :: "string \<Rightarrow> dirent option"
  assumes "distinct ns" "\<And>k e. f k = Some e \<Longrightarrow> d_name e = k" "\<And>k. k \<notin> set ns \<Longrightarrow> f k = None"
    and es: "es = g_list_sort compare_dirents (concat (rev (map (\<lambda>k. opt_list (f k)) ns)))"
  shows "desc_by d_name es \<and> (\<forall>k. find_key d_name k es = f k)"
proof -
  let ?out = "concat (rev (map (\<lambda>k. opt_list (f k)) ns))"
  have set: "e \<in> set ?out \<longleftrightarrow> f (d_name e) = Some e" for e
  proof
    assume "e \<in> set ?out"
    then obtain k where "f k = Some e" by auto
    then show "f (d_name e) = Some e" using assms(2) by simp
  next
    assume e: "f (d_name e) = Some e"
    then have "d_name e \<in> set ns" using assms(3) [of "d_name e"] by auto
    then show "e \<in> set ?out" using e by (auto intro!: bexI [of _ "d_name e"])
  qed
  have "distinct (map d_name ?out)"
    using assms(1)
  proof (induction ns)
    case (Cons k ns)
    have "d_name ` set (concat (rev (map (\<lambda>k. opt_list (f k)) ns))) \<subseteq> set ns"
      using assms(2) by auto
    then show ?case using Cons assms(2) by (cases "f k") (auto simp: opt_list_def)
  qed simp
  then have desc: "desc_by d_name es" unfolding es compare_dirents_desc by (rule desc_by_sort)
  have "find_key d_name k es = f k" for k
  proof (cases "f k")
    case None
    have "f (d_name e) = Some e" if "e \<in> set es" for e using that set [of e] by (simp add: es)
    then have "k \<notin> d_name ` set es" using None by force
    then show ?thesis using None find_key_None by metis
  next
    case (Some e)
    then have "e \<in> set es" "d_name e = k" using set [of e] assms(2) by (auto simp: es)
    then show ?thesis using find_key_in [OF desc_by_distinct [OF desc], of e] Some by simp
  qed
  then show ?thesis using desc by blast
qed

lemma merge_run:
  assumes ok: "level_ok b" "level_ok h" "level_ok r" "mo_do_merge opt" and rule: "\<forall>k. ruled b h r k \<noteq> None"
  shows "\<exists>out. merge_trees_recursive (Suc n) opt [b, h, r] basedir st = Some (finish_merge [b, h, r] 0 out st) \<and>
    desc_by d_name (g_list_sort compare_dirents out) \<and>
    (\<forall>k. find_key d_name k (g_list_sort compare_dirents out) = the (ruled b h r k))"
proof -
  obtain ns where ns: "nway_steps (tree_ptrs [b, h, r]) = map (\<lambda>k. [tree_entry b k, tree_entry h k, tree_entry r k]) ns"
    "distinct ns" "\<And>k. k \<notin> set ns \<Longrightarrow> tree_entry b k = None \<and> tree_entry h k = None \<and> tree_entry r k = None"
    using three_steps [OF ok(1-3)] by blast
  let ?f = "\<lambda>k. the (ruled b h r k)"
  let ?out = "concat (rev (map (\<lambda>k. opt_list (?f k)) ns))"
  have loop: "merge_loop (merge_trees_recursive n opt) opt basedir (nway_steps (tree_ptrs [b, h, r])) 0 [] st
      = Some (0, ?out, st)"
    using merge_loop_clean [OF ok, of ns "merge_trees_recursive n opt" basedir "[]" st] rule
    by (simp add: ns(1))
  have 1: "d_name e = k" if "?f k = Some e" for k e using ruled_name rule that by (metis option.collapse)
  have 2: "?f k = None" if "k \<notin> set ns" for k
    using ns(3) [OF that] by (simp add: ruled_def three_way_rule_def agree_def)
  have es: "desc_by d_name (g_list_sort compare_dirents ?out) \<and>
      (\<forall>k. find_key d_name k (g_list_sort compare_dirents ?out) = ?f k)"
    by (rule collected_sorted [OF ns(2) 1 2 refl])
  have run: "merge_trees_recursive (Suc n) opt [b, h, r] basedir st = Some (finish_merge [b, h, r] 0 ?out st)"
    unfolding merge_trees_recursive.simps loop by (simp add: ok(4))
  show ?thesis using es run by blast
qed

lemma merge_clean:
  assumes "level_ok b" "level_ok h" "level_ok r" "mo_do_merge opt" and "\<forall>k. ruled b h r k \<noteq> None"
  shows "\<exists>es. desc_by d_name es \<and> (\<forall>k. find_key d_name k es = the (ruled b h r k)) \<and>
    (\<exists>ret st'. merge_trees_recursive (Suc n) opt [b, h, r] basedir st = Some (ret, st') \<and>
      ms_root st' = take 40 (dir_id (seaf_dir_new (fv_libs (ms_view st)) None es
        (dir_version_from_repo_version (fv_version (ms_view st))))) \<and>
      ms_conflict st' = ms_conflict st \<and> ms_visit_dirs st' = ms_visit_dirs st)"
proof -
  obtain out where out: "merge_trees_recursive (Suc n) opt [b, h, r] basedir st = Some (finish_merge [b, h, r] 0 out st)"
    "desc_by d_name (g_list_sort compare_dirents out)"
    "\<forall>k. find_key d_name k (g_list_sort compare_dirents out) = the (ruled b h r k)"
    using merge_run [OF assms] by blast
  obtain ret st' where fin: "finish_merge [b, h, r] 0 out st = (ret, st')" by fastforce
  then have "ms_root st' = take 40 (dir_id (seaf_dir_new (fv_libs (ms_view st)) None (g_list_sort compare_dirents out)
        (dir_version_from_repo_version (fv_version (ms_view st))))) \<and>
      ms_conflict st' = ms_conflict st \<and> ms_visit_dirs st' = ms_visit_dirs st"
    by (auto simp: finish_merge_def Let_def split: if_splits prod.splits)
  then show ?thesis using out fin by (intro exI [of _ "g_list_sort compare_dirents out"]) auto
qed

section \<open>No change is lost\<close>

text \<open>The entries of a step that changed a file: it is not in the base with that content.\<close>

definition changed_file :: "dirent option list \<Rightarrow> nat \<Rightarrow> dirent \<Rightarrow> bool" where
  "changed_file dents i x \<longleftrightarrow> (i = 1 \<or> i = 2) \<and> reg_file (dents ! i) = Some x \<and>
     \<not> (\<exists>y. reg_file (dents ! 0) = Some y \<and> d_id y = d_id x)"

definition has_content :: "dirent list \<Rightarrow> dirent \<Rightarrow> bool" where
  "has_content out x \<longleftrightarrow> (\<exists>d\<in>set out. d_id d = d_id x \<and> S_ISREG (d_mode d))"

lemma has_content_mono: "has_content out x \<Longrightarrow> set out \<subseteq> set out' \<Longrightarrow> has_content out' x"
  by (auto simp: has_content_def)

lemma reg_file_SomeD: "reg_file d = Some x \<Longrightarrow> d = Some x \<and> S_ISREG (d_mode x)"
  by (auto simp: reg_file_def split: option.splits if_splits)

lemma add_conflict_Some:
  "add_conflict cn i added dents out st = Some (ret, dents', out', st') \<Longrightarrow>
   set out \<subseteq> set out' \<and> (0 \<le> ret \<longrightarrow> (\<exists>name. set (added name) \<subseteq> set out'))"
  by (auto simp: add_conflict_def split: option.splits)

lemma renamed_content:
  "x\<lparr>d_name := name\<rparr> \<in> D \<Longrightarrow> S_ISREG (d_mode x) \<Longrightarrow> \<exists>d\<in>D. d_id d = d_id x \<and> S_ISREG (d_mode d)"
  by (rule bexI [of _ "x\<lparr>d_name := name\<rparr>"]) simp_all

lemma merge_files_keeps:
  assumes "merge_files_threeway opt dents basedir out st = Some (ret, dents', out', st')"
  shows "set out \<subseteq> set out' \<and> (0 \<le> ret \<longrightarrow> (\<forall>i x. changed_file dents i x \<longrightarrow> has_content out' x))"
proof (cases "reg_file (dents ! 0)"; cases "reg_file (dents ! 1)"; cases "reg_file (dents ! 2)")
qed (use assms in \<open>auto simp: merge_files_threeway_def changed_file_def has_content_def
  seaf_dirent_dup_def Let_def split: if_splits option.splits
  dest!: add_conflict_Some dest: reg_file_SomeD intro: renamed_content\<close>)

lemma merge_directories_keeps:
  "merge_directories walk opt dents basedir out st = Some (ret, out', st') \<Longrightarrow> set out \<subseteq> set out'"
  by (auto simp: merge_directories_def merge_dirs_switch_def Let_def
      split: option.splits prod.splits if_splits)

lemma merge_loop_keeps:
  assumes "mo_do_merge opt"
  shows "merge_loop walk opt basedir steps r0 out st = Some (ret, out', st') \<Longrightarrow> 0 \<le> ret \<Longrightarrow>
    \<forall>g\<in>set steps. length g = 3 \<Longrightarrow>
    set out \<subseteq> set out' \<and> (\<forall>g\<in>set steps. \<forall>i x. changed_file g i x \<longrightarrow> has_content out' x)"
proof (induction steps arbitrary: r0 out st)
  case (Cons g steps)
  have g: "merge_entries opt g basedir out st = merge_files_threeway opt g basedir out st"
    using assms Cons.prems(3) by (simp add: merge_entries_def)
  let ?step = "if list_ex (\<lambda>d. reg_file d \<noteq> None) g then merge_entries opt g basedir out st else Some (r0, g, out, st)"
  obtain r1 g1 out1 st1 where 1: "?step = Some (r1, g1, out1, st1)"
    using Cons.prems(1) by (cases ?step) auto
  have r1: "\<not> r1 < 0" using Cons.prems(1,2) 1 by (auto split: if_splits)
  let ?dirs = "if list_ex is_dir g then merge_directories walk opt g1 basedir out1 st1 else Some (r1, out1, st1)"
  obtain r2 out2 st2 where 2: "?dirs = Some (r2, out2, st2)"
    using Cons.prems(1) 1 r1 by (cases ?dirs) auto
  have r2: "\<not> r2 < 0" using Cons.prems(1,2) 1 2 r1 by (auto split: if_splits)
  have loop: "merge_loop walk opt basedir steps r2 out2 st2 = Some (ret, out', st')"
    using Cons.prems(1) 1 2 r1 r2 by simp
  have rest: "set out2 \<subseteq> set out'" "\<forall>g\<in>set steps. \<forall>i x. changed_file g i x \<longrightarrow> has_content out' x"
    using Cons.IH [OF loop Cons.prems(2)] Cons.prems(3) by simp_all
  have "set out1 \<subseteq> set out2"
  proof (cases "list_ex is_dir g")
    case True
    then have "merge_directories walk opt g1 basedir out1 st1 = Some (r2, out2, st2)" using 2 by simp
    then show ?thesis by (rule merge_directories_keeps)
  qed (use 2 in simp)
  then have out1: "set out1 \<subseteq> set out'" using rest(1) by blast
  have step: "set out \<subseteq> set out1 \<and> (\<forall>i x. changed_file g i x \<longrightarrow> has_content out1 x)"
  proof (cases "list_ex (\<lambda>d. reg_file d \<noteq> None) g")
    case True
    then have "merge_files_threeway opt g basedir out st = Some (r1, g1, out1, st1)" using 1 g by simp
    from merge_files_keeps [OF this] show ?thesis using r1 by simp
  next
    case False
    have "\<not> changed_file g i x" for i x
    proof
      assume "changed_file g i x"
      then have "i < length g" "reg_file (g ! i) = Some x" using Cons.prems(3) by (auto simp: changed_file_def)
      then show False using False by (auto simp: list_ex_iff)
    qed
    then show ?thesis using False 1 by simp
  qed
  show ?case
    using step out1 rest(2) has_content_mono [OF _ out1] by auto
qed auto

lemma desc_by_find_unique:
  assumes "desc_by d_name xs" "desc_by d_name ys" and same: "\<And>k. find_key d_name k xs = find_key d_name k ys"
  shows "xs = ys"
proof -
  have mem: "x \<in> set zs \<longleftrightarrow> find_key d_name (d_name x) zs = Some x" if "desc_by d_name zs" for x zs
    using find_key_in [OF desc_by_distinct [OF that]] find_key_SomeD by metis
  show ?thesis
    by (rule desc_by_unique [OF assms(1,2)]) (auto simp: mem [OF assms(1)] mem [OF assms(2)] same)
qed

lemma step_in_three:
  assumes "level_ok b" "level_ok h" "level_ok r" "tree_entry t k = Some x" "t = h \<or> t = r"
  shows "[tree_entry b k, tree_entry h k, tree_entry r k] \<in> set (nway_steps (tree_ptrs [b, h, r]))"
proof -
  obtain ns where ns: "nway_steps (tree_ptrs [b, h, r]) = map (\<lambda>k. [tree_entry b k, tree_entry h k, tree_entry r k]) ns"
    "\<And>k. k \<notin> set ns \<Longrightarrow> tree_entry b k = None \<and> tree_entry h k = None \<and> tree_entry r k = None"
    using three_steps [OF assms(1-3)] by blast
  have "k \<in> set ns"
  proof (rule ccontr)
    assume "k \<notin> set ns"
    then show False using ns(2) [of k] assms(4,5) by auto
  qed
  then show ?thesis unfolding ns(1) by simp
qed

section \<open>Properties\<close>

text \<open>C2: The three-way rule.  When three directories hold files and directories under names in descending
  order and for every name head and remote agree, or one of them still agrees with the base, the
  merge succeeds without descending and without a conflict, and the merged directory has under each
  name exactly what the rule says: what head and remote agree on, else what the side has that changed.\<close>

theorem merge_three_way_rule:
  assumes "level_ok b" "level_ok h" "level_ok r" "mo_do_merge opt"
    and "\<forall>k. three_way_rule (tree_entry b k) (tree_entry h k) (tree_entry r k) \<noteq> None"
  shows "\<exists>es ret st'. merge_trees_recursive (Suc n) opt [b, h, r] basedir st = Some (ret, st') \<and>
    desc_by d_name es \<and>
    (\<forall>k. Some (find_key d_name k es) = three_way_rule (tree_entry b k) (tree_entry h k) (tree_entry r k)) \<and>
    ms_root st' = take 40 (dir_id (seaf_dir_new (fv_libs (ms_view st)) None es
        (dir_version_from_repo_version (fv_version (ms_view st))))) \<and>
    ms_conflict st' = ms_conflict st \<and> ms_visit_dirs st' = ms_visit_dirs st"
proof -
  have "\<forall>k. ruled b h r k \<noteq> None" using assms(5) by (simp add: ruled_def)
  from merge_clean [OF assms(1-4) this, of n basedir st] obtain es ret st' where
    es: "desc_by d_name es" "\<forall>k. find_key d_name k es = the (ruled b h r k)"
      "merge_trees_recursive (Suc n) opt [b, h, r] basedir st = Some (ret, st')"
      "ms_root st' = take 40 (dir_id (seaf_dir_new (fv_libs (ms_view st)) None es
        (dir_version_from_repo_version (fv_version (ms_view st)))))"
      "ms_conflict st' = ms_conflict st \<and> ms_visit_dirs st' = ms_visit_dirs st" by blast
  have "Some (find_key d_name k es) = three_way_rule (tree_entry b k) (tree_entry h k) (tree_entry r k)" for k
    using es(2) assms(5) by (simp add: ruled_def)
  then show ?thesis using es by blast
qed

text \<open>When the remote did not change anything, merging keeps the head: the merged root is the id of a
  directory with exactly the head's entries.\<close>

theorem merge_unchanged_remote:
  assumes "level_ok b" "level_ok (Some h)" "mo_do_merge opt"
  shows "\<exists>ret st'. merge_trees_recursive (Suc n) opt [b, Some h, b] basedir st = Some (ret, st') \<and>
    ms_root st' = take 40 (dir_id (seaf_dir_new (fv_libs (ms_view st)) None (entries h)
        (dir_version_from_repo_version (fv_version (ms_view st))))) \<and> ms_conflict st' = ms_conflict st"
proof -
  have rule: "three_way_rule x y x = Some y" for x y
    by (auto simp: three_way_rule_def agree_def split: option.splits)
  then have "\<forall>k. ruled b (Some h) b k \<noteq> None" by (simp add: ruled_def)
  from merge_clean [OF assms(1,2,1,3) this, of n basedir st] obtain es ret st' where
    es: "desc_by d_name es" "\<forall>k. find_key d_name k es = the (ruled b (Some h) b k)"
      "merge_trees_recursive (Suc n) opt [b, Some h, b] basedir st = Some (ret, st')"
      "ms_root st' = take 40 (dir_id (seaf_dir_new (fv_libs (ms_view st)) None es
        (dir_version_from_repo_version (fv_version (ms_view st)))))"
      "ms_conflict st' = ms_conflict st" by blast
  have srt: "desc_by d_name (entries h)" using assms(2) by (simp add: level_ok_def)
  have "find_key d_name k es = find_key d_name k (entries h)" for k
    using es(2) rule by (simp add: ruled_def tree_entry_def)
  then have "es = entries h" by (rule desc_by_find_unique [OF es(1) srt])
  then show ?thesis using es(3-5) by blast
qed


section \<open>A merge for the witnesses\<close>

text \<open>Head changed the file \<open>f\<close>, remote added the file \<open>g\<close>.\<close>

definition demo_level :: "(string \<times> string) list \<Rightarrow> seafdir option" where
  "demo_level es = Some \<lparr>dir_version = 0, dir_id = [],
     entries = map (\<lambda>(n, i). (demo_dirent n 0x81A4)\<lparr>d_id := i\<rparr>) es, ondisk = None\<rparr>"

definition demo_base :: "seafdir option" where "demo_base = demo_level [(''f'', demo_file_id)]"
definition demo_head :: "seafdir option" where "demo_head = demo_level [(''f'', demo_root_id)]"
definition demo_remote :: "seafdir option" where
  "demo_remote = demo_level [(''g'', demo_root_id), (''f'', demo_file_id)]"

definition demo_options :: "unit merge_options" where
  "demo_options = \<lparr>mo_do_merge = True, mo_callback = (\<lambda>_ _ u. (0, u)), mo_commits = demo_history,
     mo_remote_head = [], mo_dirname = id, mo_basename = id, mo_strftime = (\<lambda>_. []), mo_fuel = 0, mo_mtime = 0\<rparr>"

definition demo_state :: "unit merge_state" where
  "demo_state = \<lparr>ms_view = demo_view\<lparr>fv_store := demo_store\<rparr>, ms_root = [], ms_visit_dirs = 0,
     ms_conflict = False, ms_data = ()\<rparr>"

lemma demo_levels_ok: "level_ok demo_base" "level_ok demo_head" "level_ok demo_remote"
  by (simp_all add: level_ok_def demo_base_def demo_head_def demo_remote_def demo_level_def plain_entry_def
      demo_dirent_def S_ISREG_def S_IFMT_def S_IFREG_def)

lemma demo_do_merge [simp]: "mo_do_merge demo_options"
  by (simp add: demo_options_def)

lemma demo_rule: "three_way_rule (tree_entry demo_base k) (tree_entry demo_head k) (tree_entry demo_remote k) =
    Some (if k = ''f'' then tree_entry demo_head k else tree_entry demo_remote k)"
  by (simp add: three_way_rule_def agree_def tree_entry_def demo_base_def demo_head_def demo_remote_def
      demo_level_def demo_dirent_def)

theorem merge_three_way_rule_witness:
  "\<exists>(es :: dirent list) ret st'. merge_trees_recursive 1 demo_options [demo_base, demo_head, demo_remote] [] demo_state
      = Some (ret, st') \<and> desc_by d_name es \<and>
    map_option d_id (find_key d_name ''f'' es) = Some demo_root_id \<and>
    map_option d_id (find_key d_name ''g'' es) = Some demo_root_id \<and> \<not> ms_conflict st'"
proof -
  have "\<forall>k. three_way_rule (tree_entry demo_base k) (tree_entry demo_head k) (tree_entry demo_remote k) \<noteq> None"
    by (simp add: demo_rule)
  from merge_three_way_rule [OF demo_levels_ok demo_do_merge this, of 0 "[]" demo_state] obtain es ret st' where
    *: "merge_trees_recursive (Suc 0) demo_options [demo_base, demo_head, demo_remote] [] demo_state = Some (ret, st')"
      "desc_by d_name es" "\<forall>k. Some (find_key d_name k es) = three_way_rule (tree_entry demo_base k)
        (tree_entry demo_head k) (tree_entry demo_remote k)" "ms_conflict st' = ms_conflict demo_state"
    by blast
  have "find_key d_name ''f'' es = tree_entry demo_head ''f''" "find_key d_name ''g'' es = tree_entry demo_remote ''g''"
    using *(3) [rule_format, of "''f''"] *(3) [rule_format, of "''g''"] unfolding demo_rule by simp_all
  then show ?thesis
    using *(1,2,4) by (intro exI [of _ es] exI [of _ ret] exI [of _ st'])
      (simp add: demo_state_def tree_entry_def demo_head_def demo_remote_def demo_level_def demo_dirent_def)
qed

theorem merge_unchanged_remote_witness:
  "\<exists>ret st'. merge_trees_recursive 1 demo_options [demo_base, demo_head, demo_base] [] demo_state = Some (ret, st') \<and>
    ms_root st' = demo_hash"
proof -
  obtain h where h: "demo_head = Some h" "entries h \<noteq> []" by (simp add: demo_head_def demo_level_def)
  have ok: "level_ok (Some h)" using demo_levels_ok(2) h(1) by simp
  have "dir_id (seaf_dir_new (fv_libs (ms_view demo_state)) None (entries h)
        (dir_version_from_repo_version (fv_version (ms_view demo_state)))) = demo_hash"
    using h(2) by (simp add: demo_state_def demo_view_def seaf_dir_new_def dir_version_from_repo_version_def
        compute_dir_id_v0_def seaf_dir_to_data_def)
  then show ?thesis
    using merge_unchanged_remote [OF demo_levels_ok(1) ok demo_do_merge, of 0 "[]" demo_state] h(1) by auto
qed

lemma demo_merged_id:
  "es \<noteq> [] \<Longrightarrow> dir_id (seaf_dir_new (demo_libs JNull) None es 0) = demo_hash"
  by (simp add: seaf_dir_new_def compute_dir_id_v0_def seaf_dir_to_data_def)

lemma demo_run: "\<exists>st'. merge_trees_recursive (Suc 0) demo_options [demo_base, demo_head, demo_remote] [] demo_state
    = Some (0, st')"
proof -
  have "\<forall>k. ruled demo_base demo_head demo_remote k \<noteq> None" by (simp add: ruled_def demo_rule)
  from merge_run [OF demo_levels_ok demo_do_merge this, of 0 "[]" demo_state] obtain out where
    out: "merge_trees_recursive (Suc 0) demo_options [demo_base, demo_head, demo_remote] [] demo_state
      = Some (finish_merge [demo_base, demo_head, demo_remote] 0 out demo_state)"
      "\<forall>k. find_key d_name k (g_list_sort compare_dirents out) = the (ruled demo_base demo_head demo_remote k)"
    by blast
  have "find_key d_name ''f'' (g_list_sort compare_dirents out) \<noteq> None"
    unfolding out(2) [rule_format] ruled_def demo_rule by (simp add: tree_entry_def demo_head_def demo_level_def demo_dirent_def)
  then have ne: "g_list_sort compare_dirents out \<noteq> []" by auto
  have "fst (finish_merge [demo_base, demo_head, demo_remote] 0 out demo_state) = 0"
    using demo_merged_id [OF ne]
    by (simp add: finish_merge_def demo_state_def demo_view_def dir_version_from_repo_version_def has_dir_id_def
        seaf_dir_save_def obj_store_defs demo_store_def demo_head_def demo_remote_def demo_level_def Let_def
        split: prod.split)
  then show ?thesis using out(1) by (metis prod.collapse)
qed


end
