(* ===== verification/RepoOp.thy ===== *)
theory RepoOp
  imports RepoMgr MergeNew "HOL-Library.Sublist"
begin

text \<open>
  The changes of a directory tree behind the file operations (\<open>server/repo-op.c\<close>): adding, deleting,
  renaming and replacing entries of the directory at a path, and saving every directory on the way
  back up to the root.  The five recursive functions of the source differ in what they do to the
  entries of the target directory; \<open>update_recursive\<close> is the walk they share, and \<open>dir_edit\<close> the
  contract of an edit, under which one lemma says what the new tree holds and that it is well formed.
\<close>

section \<open>Names\<close>

fun filename_exists :: "dirent list \<Rightarrow> string \<Rightarrow> bool" where
  "filename_exists [] filename = False"
| "filename_exists (dent # es) filename =
     (if strcmp (d_name dent) filename = 0 then True else filename_exists es filename)"

text \<open>The name and, when there is a dot, the extension after the last one.\<close>

definition split_filename :: "string \<Rightarrow> string \<times> string option" where
  "split_filename filename = strrchr_split (CHR ''.'') filename"

definition numbered_name :: "string \<times> string option \<Rightarrow> nat \<Rightarrow> string" where
  "numbered_name p i =
     (case p of
        (name, Some ext) \<Rightarrow> name @ '' ('' @ nat_to_string i @ '').'' @ ext
      | (name, None) \<Rightarrow> name @ '' ('' @ nat_to_string i @ '')'')"

text \<open>The loop, from the value of \<open>i\<close>: it ends with a free name or with \<open>i = 101\<close>.\<close>

function unique_loop :: "dirent list \<Rightarrow> string \<times> string option \<Rightarrow> string \<Rightarrow> nat \<Rightarrow> string \<times> nat" where
  "unique_loop es p unique_name i =
     (if filename_exists es unique_name \<and> i \<le> 100
      then unique_loop es p (numbered_name p i) (i + 1)
      else (unique_name, i))"
  by auto
termination by (relation "measure (\<lambda>(_, _, _, i). 101 - i)") auto

declare unique_loop.simps [simp del]

definition generate_unique_filename :: "string \<Rightarrow> dirent list \<Rightarrow> string option" where
  "generate_unique_filename file es =
     (case unique_loop es (split_filename file) file 1 of
        (unique_name, i) \<Rightarrow> if i \<le> 100 then Some unique_name else None)"

definition get_canonical_path :: "string \<Rightarrow> string" where
  "get_canonical_path path =
     strip_slashes (map (\<lambda>c. if c = CHR 0x5C then CHR ''/'' else c) path)"

text \<open>The mode of the entry when it exists; None also when the parent directory does not.\<close>

definition check_file_exists :: "fs_view \<Rightarrow> string \<Rightarrow> string \<Rightarrow> string \<Rightarrow> u32 option" where
  "check_file_exists F root parent_dir filename =
     (case seaf_fs_manager_get_seafdir_by_path F root parent_dir of
        Inl _ \<Rightarrow> None
      | Inr dir \<Rightarrow> map_option d_mode (find (\<lambda>d. strcmp (d_name d) filename = 0) (entries dir)))"

section \<open>The walk\<close>

text \<open>A new directory with the given entries, saved; its id, or None when it could not be saved.\<close>

definition save_entries :: "fs_view \<Rightarrow> dirent list \<Rightarrow> string option \<times> fs_view" where
  "save_entries F es =
     (let newdir = seaf_dir_new (fv_libs F) None es (dir_version_from_repo_version (fv_version F)) in
      case seaf_dir_save (fv_libs F) (fv_store F) (fv_repo F) newdir of
        (r, st) \<Rightarrow> (if r = 0 then Some (dir_id newdir) else None, F\<lparr>fv_store := st\<rparr>))"

abbreviation get_dir_sorted :: "fs_view \<Rightarrow> string \<Rightarrow> seafdir option" where
  "get_dir_sorted F \<equiv>
     seaf_fs_manager_get_seafdir_sorted (fv_libs F) (fv_store F) (fv_repo F) (fv_version F)"

text \<open>The first component of a path and what remains; the code cuts at the first slash.\<close>

definition next_component :: "string \<Rightarrow> string \<times> string" where
  "next_component to_path =
     (case strchr_split (CHR ''/'') to_path of (name, None) \<Rightarrow> (name, []) | (name, Some r) \<Rightarrow> (name, r))"

lemma next_component_less: "to_path \<noteq> [] \<Longrightarrow> length (snd (next_component to_path)) < length to_path"
  using strchr_split_Some [of "CHR ''/''" to_path]
  by (auto simp: next_component_def split: prod.split option.split)

text \<open>The first entry of a name, changed in place.\<close>

fun update_entry :: "string \<Rightarrow> (dirent \<Rightarrow> dirent) \<Rightarrow> dirent list \<Rightarrow> dirent list" where
  "update_entry name f [] = []"
| "update_entry name f (e # es) =
     (if strcmp (d_name e) name \<noteq> 0 then e # update_entry name f es else f e # es)"

text \<open>
  \<open>edit\<close> maps the entries of the target directory, with an accumulator \<open>x\<close> for what the functions
  return besides the id; its None is their failure.  \<open>same\<close> says of the accumulator that nothing
  changed, \<open>touch\<close> is what happens to the entries on the path besides their new ids.
\<close>

function update_recursive ::
    "(dirent list \<Rightarrow> 'x \<Rightarrow> dirent list option \<times> 'x) \<Rightarrow> ('x \<Rightarrow> bool) \<Rightarrow> (dirent \<Rightarrow> dirent) \<Rightarrow> fs_view \<Rightarrow> string
     \<Rightarrow> string \<Rightarrow> 'x \<Rightarrow> string option \<times> 'x \<times> fs_view" where
  "update_recursive edit same touch F dir to_path x =
     (case get_dir_sorted F dir of
        None \<Rightarrow> (None, x, F)
      | Some olddir \<Rightarrow>
          if to_path = [] then
            (case edit (entries olddir) x of
               (None, x') \<Rightarrow> (None, x', F)
             | (Some newentries, x') \<Rightarrow>
                 if same x' then (Some (dir_id olddir), x', F)
                 else (case save_entries F newentries of (ret, F') \<Rightarrow> (ret, x', F')))
          else
            (let name = fst (next_component to_path); remain = snd (next_component to_path) in
             case find (\<lambda>d. strcmp (d_name d) name = 0) (entries olddir) of
               None \<Rightarrow> (None, x, F)
             | Some dent \<Rightarrow>
                 (case update_recursive edit same touch F (d_id dent) remain x of
                    (None, x', F') \<Rightarrow> (None, x', F')
                  | (Some i, x', F') \<Rightarrow>
                      if same x' then (Some (dir_id olddir), x', F')
                      else (case save_entries F'
                                   (update_entry name (\<lambda>d. touch (d\<lparr>d_id := take 40 i\<rparr>)) (entries olddir)) of
                              (ret, F'') \<Rightarrow> (ret, x', F'')))))"
  by auto
termination
  by (relation "measure (\<lambda>(_, _, _, _, _, p, _). length p)") (auto simp: next_component_less)

declare update_recursive.simps [simp del]

text \<open>The modification time of the directories on the path, in repositories of version 1 and up.\<close>

definition touch_mtime :: "fs_view \<Rightarrow> u64 \<Rightarrow> dirent \<Rightarrow> dirent" where
  "touch_mtime F now d = (if fv_version F > 0 then d\<lparr>d_mtime := now\<rparr> else d)"

section \<open>Adding\<close>

definition replace_entry :: "dirent \<Rightarrow> dirent list \<Rightarrow> dirent list" where
  "replace_entry newdent es =
     map (\<lambda>d. if strcmp (d_name d) (d_name newdent) = 0 then seaf_dirent_dup newdent else seaf_dirent_dup d) es"

definition post_edit :: "bool \<Rightarrow> dirent \<Rightarrow> dirent list \<Rightarrow> unit \<Rightarrow> dirent list option \<times> unit" where
  "post_edit replace_existed newdent es u =
     (if replace_existed \<and> filename_exists es (d_name newdent) then (Some (replace_entry newdent es), u)
      else (case generate_unique_filename (d_name newdent) es of
              None \<Rightarrow> (None, u)
            | Some unique_name \<Rightarrow>
                (Some (g_list_insert_sorted compare_dirents
                   (seaf_dirent_new (d_version newdent) (d_id newdent) (d_mode newdent) unique_name
                      (d_mtime newdent) (d_modifier newdent) (d_size newdent)) es), u)))"

definition post_file_recursive ::
    "u64 \<Rightarrow> fs_view \<Rightarrow> string \<Rightarrow> string \<Rightarrow> bool \<Rightarrow> dirent \<Rightarrow> string option \<times> fs_view" where
  "post_file_recursive now F dir to_path replace_existed newdent =
     (case update_recursive (post_edit replace_existed newdent) (\<lambda>_. False) (touch_mtime F now) F dir to_path () of
        (ret, _, F') \<Rightarrow> (ret, F'))"

text \<open>An absolute path loses its first slash.\<close>

definition skip_slash :: "string \<Rightarrow> string" where
  "skip_slash path = (if char_at path 0 = CHR ''/'' then tl path else path)"

definition do_post_file_replace ::
    "u64 \<Rightarrow> fs_view \<Rightarrow> string \<Rightarrow> string \<Rightarrow> bool \<Rightarrow> dirent \<Rightarrow> string option \<times> fs_view" where
  "do_post_file_replace now F root parent_dir replace_existed dent =
     post_file_recursive now F root (skip_slash parent_dir) replace_existed dent"

definition do_post_file :: "u64 \<Rightarrow> fs_view \<Rightarrow> string \<Rightarrow> string \<Rightarrow> dirent \<Rightarrow> string option \<times> fs_view" where
  "do_post_file now F root parent_dir dent = do_post_file_replace now F root parent_dir False dent"

text \<open>Removing the first entry of a name, and whether there was one.\<close>

fun delete_first :: "string \<Rightarrow> dirent list \<Rightarrow> bool \<times> dirent list" where
  "delete_first name [] = (False, [])"
| "delete_first name (e # es) =
     (if strcmp (d_name e) name = 0 then (True, es)
      else (case delete_first name es of (b, es') \<Rightarrow> (b, e # es')))"

text \<open>The entries and the list of names given so far; a name that cannot be made unique ends the loop.\<close>

fun add_new_entries ::
    "int \<Rightarrow> string option \<Rightarrow> bool \<Rightarrow> dirent list \<Rightarrow> dirent list \<Rightarrow> string list
     \<Rightarrow> dirent list option \<times> string list" where
  "add_new_entries version user replace_existed [] es names = (Some es, names)"
| "add_new_entries version user replace_existed (dent # dents) es names =
     (let (replace, es1) = (if replace_existed then delete_first (d_name dent) es else (False, es)) in
      case (if replace then Some (d_name dent) else generate_unique_filename (d_name dent) es1) of
        None \<Rightarrow> (None, names)
      | Some unique_name \<Rightarrow>
          add_new_entries version user replace_existed dents
            (g_list_insert_sorted compare_dirents
               (seaf_dirent_new (dir_version_from_repo_version version) (d_id dent) (d_mode dent) unique_name
                  (d_mtime dent) user (d_size dent)) es1)
            (names @ [unique_name]))"

definition post_multi_files_recursive ::
    "u64 \<Rightarrow> fs_view \<Rightarrow> string \<Rightarrow> string \<Rightarrow> dirent list \<Rightarrow> string option \<Rightarrow> bool \<Rightarrow> string list
     \<Rightarrow> string option \<times> string list \<times> fs_view" where
  "post_multi_files_recursive now F dir to_path dents user replace_existed names =
     update_recursive (add_new_entries (fv_version F) user replace_existed dents) (\<lambda>_. False)
       (touch_mtime F now) F dir to_path names"

definition STD_FILE_MODE :: u32 where "STD_FILE_MODE = S_IFREG OR 0x1A4"

text \<open>The entries built from the three lists; the shortest of them ends the loop.\<close>

fun new_dents :: "u64 \<Rightarrow> string list \<Rightarrow> string list \<Rightarrow> u64 list \<Rightarrow> dirent list" where
  "new_dents now (name # ns) (i # is) (sz # szs) =
     \<lparr>d_version = 0, d_mode = STD_FILE_MODE, d_id = take 40 i, d_name = name, d_mtime = now,
      d_modifier = None, d_size = sz\<rparr> # new_dents now ns is szs"
| "new_dents now _ _ _ = []"

definition do_post_multi_files ::
    "u64 \<Rightarrow> fs_view \<Rightarrow> string \<Rightarrow> string \<Rightarrow> string list \<Rightarrow> string list \<Rightarrow> u64 list \<Rightarrow> string option \<Rightarrow> bool
     \<Rightarrow> string option \<times> string list \<times> fs_view" where
  "do_post_multi_files now F root parent_dir filenames id_list sizes user replace_existed =
     post_multi_files_recursive now F root (skip_slash parent_dir)
       (new_dents now filenames id_list sizes) user replace_existed []"

section \<open>Deleting, renaming, replacing\<close>

text \<open>What \<open>del_file_recursive\<close> returns besides the id: the mode of the last deleted entry, how many
  were deleted, the name of the first.\<close>

record del_info =
  di_mode :: u32
  di_deleted_num :: nat
  di_desc_file :: "string option"

definition count_deleted :: "dirent \<Rightarrow> del_info \<Rightarrow> del_info" where
  "count_deleted old x =
     x\<lparr>di_mode := d_mode old, di_deleted_num := di_deleted_num x + 1,
       di_desc_file := (case di_desc_file x of None \<Rightarrow> Some (d_name old) | Some s \<Rightarrow> Some s)\<rparr>"

text \<open>A name with tabs is a list of names.\<close>

definition del_names :: "string \<Rightarrow> string list" where
  "del_names filename =
     (if CHR 0x09 \<in> set filename then split_on (CHR 0x09) filename else [filename])"

fun del_loop :: "string list \<Rightarrow> dirent list \<Rightarrow> del_info \<Rightarrow> dirent list \<times> del_info" where
  "del_loop names [] x = ([], x)"
| "del_loop names (old # es) x =
     (if d_name old \<in> set names then del_loop names es (count_deleted old x)
      else (case del_loop names es x of (r, x') \<Rightarrow> (seaf_dirent_dup old # r, x')))"

definition del_edit :: "string \<Rightarrow> dirent list \<Rightarrow> del_info \<Rightarrow> dirent list option \<times> del_info" where
  "del_edit filename es x = (case del_loop (del_names filename) es x of (r, x') \<Rightarrow> (Some r, x'))"

definition del_file_recursive ::
    "u64 \<Rightarrow> fs_view \<Rightarrow> string \<Rightarrow> string \<Rightarrow> string \<Rightarrow> del_info \<Rightarrow> string option \<times> del_info \<times> fs_view" where
  "del_file_recursive now F dir to_path filename x =
     update_recursive (del_edit filename) (\<lambda>x. di_deleted_num x = 0) (touch_mtime F now) F dir to_path x"

definition do_del_file ::
    "u64 \<Rightarrow> fs_view \<Rightarrow> string \<Rightarrow> string \<Rightarrow> string \<Rightarrow> string option \<times> del_info \<times> fs_view" where
  "do_del_file now F root parent_dir file_name =
     del_file_recursive now F root (skip_slash parent_dir) file_name
       \<lparr>di_mode = 0, di_deleted_num = 0, di_desc_file = None\<rparr>"

text \<open>The entries but those of the old name, and the last of these under its new name.\<close>

fun rename_split :: "string \<Rightarrow> string \<Rightarrow> dirent list \<Rightarrow> dirent option \<Rightarrow> dirent list \<times> dirent option" where
  "rename_split oldname newname [] newdent = ([], newdent)"
| "rename_split oldname newname (old # es) newdent =
     (if strcmp (d_name old) oldname \<noteq> 0 then
        (case rename_split oldname newname es newdent of (r, nd) \<Rightarrow> (seaf_dirent_dup old # r, nd))
      else rename_split oldname newname es
             (Some (seaf_dirent_new (d_version old) (d_id old) (d_mode old) newname (d_mtime old)
                (d_modifier old) (d_size old))))"

definition rename_edit :: "string \<Rightarrow> string \<Rightarrow> dirent list \<Rightarrow> unit \<Rightarrow> dirent list option \<times> unit" where
  "rename_edit oldname newname es u =
     (case rename_split oldname newname es None of
        (r, None) \<Rightarrow> (Some r, u)
      | (r, Some newdent) \<Rightarrow> (Some (g_list_insert_sorted compare_dirents newdent r), u))"

definition rename_file_recursive ::
    "fs_view \<Rightarrow> string \<Rightarrow> string \<Rightarrow> string \<Rightarrow> string \<Rightarrow> string option \<times> fs_view" where
  "rename_file_recursive F dir to_path oldname newname =
     (case update_recursive (rename_edit oldname newname) (\<lambda>_. False) (\<lambda>d. d) F dir to_path () of
        (ret, _, F') \<Rightarrow> (ret, F'))"

definition do_rename_file :: "fs_view \<Rightarrow> string \<Rightarrow> string \<Rightarrow> string \<Rightarrow> string \<Rightarrow> string option \<times> fs_view" where
  "do_rename_file F root parent_dir oldname newname =
     rename_file_recursive F root (skip_slash parent_dir) oldname newname"

definition put_edit :: "dirent \<Rightarrow> dirent list \<Rightarrow> unit \<Rightarrow> dirent list option \<times> unit" where
  "put_edit newdent es u = (Some (replace_entry newdent es), u)"

definition put_file_recursive ::
    "u64 \<Rightarrow> fs_view \<Rightarrow> string \<Rightarrow> string \<Rightarrow> dirent \<Rightarrow> string option \<times> fs_view" where
  "put_file_recursive now F dir to_path newdent =
     (case update_recursive (put_edit newdent) (\<lambda>_. False) (touch_mtime F now) F dir to_path () of
        (ret, _, F') \<Rightarrow> (ret, F'))"

definition do_put_file :: "u64 \<Rightarrow> fs_view \<Rightarrow> string \<Rightarrow> string \<Rightarrow> dirent \<Rightarrow> string option \<times> fs_view" where
  "do_put_file now F root parent_dir dent =
     put_file_recursive now F root (skip_slash parent_dir) dent"

section \<open>Stores that only grow\<close>

text \<open>Every object that could be read still reads the same.\<close>

definition fs_extends :: "fs_view \<Rightarrow> fs_view \<Rightarrow> bool" where
  "fs_extends F F' \<longleftrightarrow> fv_libs F' = fv_libs F \<and> fv_repo F' = fv_repo F \<and> fv_version F' = fv_version F \<and>
     (\<forall>q j x. seaf_obj_store_read_obj (fv_libs F) (fv_store F) q j = Some x \<longrightarrow>
        seaf_obj_store_read_obj (fv_libs F) (fv_store F') q j = Some x)"

lemma fs_extends_refl [simp]: "fs_extends F F"
  by (simp add: fs_extends_def)

lemma fs_extends_trans [trans]: "fs_extends F G \<Longrightarrow> fs_extends G H \<Longrightarrow> fs_extends F H"
  by (simp add: fs_extends_def)

lemma save_entries_extends: "save_entries F es = (r, F') \<Longrightarrow> fs_extends F F'"
  by (auto simp: save_entries_def fs_extends_def Let_def split: prod.splits intro: seaf_dir_save_keeps)

lemma get_dir_extends: "fs_extends F F' \<Longrightarrow> get_dir F i = Some d \<Longrightarrow> get_dir F' i = Some d"
  by (auto simp: seaf_fs_manager_get_seafdir_def fs_extends_def split: option.splits if_splits)

lemma lookup_extends: "fs_extends F F' \<Longrightarrow> lookup_dirs F d p = Inr t \<Longrightarrow> lookup_dirs F' d p = Inr t"
  by (induction F d p rule: lookup_dirs.induct) (auto split: option.splits dest: get_dir_extends)

lemma update_recursive_extends:
  "update_recursive edit same touch F i path x = (ret, x', F') \<Longrightarrow> fs_extends F F'"
proof (induction edit same touch F i path x arbitrary: ret x' F' rule: update_recursive.induct)
  case (1 edit same touch F i path x)
  note run = 1(2) and IH = 1(1)
  show ?case
  proof (cases "get_dir_sorted F i")
    case None
    then show ?thesis using run by (simp add: update_recursive.simps [of edit same touch F])
  next
    case (Some olddir)
    show ?thesis
    proof (cases "path = []")
      case True
      then show ?thesis
        using run Some save_entries_extends
        by (auto simp: update_recursive.simps [of edit same touch F] split: option.splits prod.splits if_splits)
    next
      case False
      let ?n = "fst (next_component path)" and ?p = "snd (next_component path)"
      show ?thesis
      proof (cases "find (\<lambda>d. strcmp (d_name d) ?n = 0) (entries olddir)")
        case None
        then show ?thesis using run Some False by (simp add: update_recursive.simps [of edit same touch F])
      next
        case dent: (Some dent)
        obtain r1 x1 F1 where rec: "update_recursive edit same touch F (d_id dent) ?p x = (r1, x1, F1)"
          by (metis prod_cases3)
        have e1: "fs_extends F F1" by (rule IH [OF Some False refl refl dent rec])
        show ?thesis
          using run Some False dent e1
          by (auto simp: update_recursive.simps [of edit same touch F i] rec split: option.splits prod.splits if_splits
              intro: fs_extends_trans dest!: save_entries_extends)
      qed
    qed
  qed
qed

section \<open>Well-formed trees\<close>

text \<open>
  The entries of a directory as the code makes them: what the JSON form holds, in strictly descending
  order of their names.  A tree is well formed when every directory in the store is.
\<close>

definition entries_ok :: "dirent list \<Rightarrow> bool" where
  "entries_ok es \<longleftrightarrow> list_all (dirent_json_ok 1) es \<and> desc_by d_name es"

definition tree_ok :: "fs_view \<Rightarrow> bool" where
  "tree_ok F \<longleftrightarrow> (\<forall>i d. get_dir F i = Some d \<longrightarrow> entries_ok (entries d))"

text \<open>
  SHA-1 does not collide on the directories of the repository, and zlib and jansson read back what
  they wrote: an object that is stored under the id of a directory decodes to that directory.
\<close>

definition no_collisions :: "fs_view \<Rightarrow> bool" where
  "no_collisions F \<longleftrightarrow>
     (\<forall>es. es \<noteq> [] \<and> entries_ok es \<longrightarrow>
        (let i = dir_id (seaf_dir_new (fv_libs F) None es 1) in
         take 40 i \<noteq> EMPTY_SHA1 \<and>
         (seaf_obj_store_obj_exists (fv_libs F) (fv_store F) (fv_repo F) i \<longrightarrow>
            map_option entries (get_dir F i) = Some es)))"

lemma no_collisionsD:
  assumes "no_collisions F" "es \<noteq> []" "entries_ok es"
  shows "take 40 (dir_id (seaf_dir_new (fv_libs F) None es 1)) \<noteq> EMPTY_SHA1"
    and "seaf_obj_store_obj_exists (fv_libs F) (fv_store F) (fv_repo F) (dir_id (seaf_dir_new (fv_libs F) None es 1))
      \<Longrightarrow> \<exists>d. get_dir F (dir_id (seaf_dir_new (fv_libs F) None es 1)) = Some d \<and> entries d = es"
  using assms by (auto simp: no_collisions_def Let_def)

lemma no_collisions_extends:
  assumes "fs_extends F F'" "no_collisions F'"
  shows "no_collisions F"
  unfolding no_collisions_def Let_def
proof (intro allI impI conjI)
  fix es :: "dirent list"
  let ?i = "dir_id (seaf_dir_new (fv_libs F) None es 1)"
  assume es: "es \<noteq> [] \<and> entries_ok es"
  have F': "fv_libs F' = fv_libs F" "fv_repo F' = fv_repo F" "fv_version F' = fv_version F"
    using assms(1) by (simp_all add: fs_extends_def)
  note col = no_collisionsD [OF assms(2), of es, unfolded F']
  show e: "take 40 ?i \<noteq> EMPTY_SHA1" using col(1) es by blast
  assume "seaf_obj_store_obj_exists (fv_libs F) (fv_store F) (fv_repo F) ?i"
  then obtain x where x: "seaf_obj_store_read_obj (fv_libs F) (fv_store F) (fv_repo F) ?i = Some x"
    using seaf_store.exists_read by blast
  then have x': "seaf_obj_store_read_obj (fv_libs F) (fv_store F') (fv_repo F) ?i = Some x"
    using assms(1) by (simp add: fs_extends_def)
  then have "seaf_obj_store_obj_exists (fv_libs F) (fv_store F') (fv_repo F) ?i"
    using seaf_store.exists_read by fastforce
  then obtain d where "get_dir F' ?i = Some d" "entries d = es" using col(2) es F' by auto
  then show "map_option entries (get_dir F ?i) = Some es"
    using x x' e by (simp add: seaf_fs_manager_get_seafdir_def F')
qed

text \<open>A saved directory is there afterwards, with its entries, and the tree stays well formed.\<close>

lemma save_entries_get:
  assumes "save_entries F es = (Some i, F')" "0 < fv_version F" "entries_ok es" "no_collisions F'"
  shows "is_object_id_valid i \<and> (\<exists>d. get_dir F' i = Some d \<and> entries d = es)"
proof (cases "es = []")
  case True
  have "i = EMPTY_SHA1" using assms(1) True by (auto simp: save_entries_def seaf_dir_new_def Let_def split: prod.splits if_splits)
  then show ?thesis using True by (simp add: seaf_fs_manager_get_seafdir_def)
next
  case False
  let ?d = "seaf_dir_new (fv_libs F) None es 1"
  obtain st where save: "seaf_dir_save (fv_libs F) (fv_store F) (fv_repo F) ?d = (0, st)"
    and F': "F' = F\<lparr>fv_store := st\<rparr>" and i: "i = dir_id ?d"
    using assms(1,2) by (auto simp: save_entries_def dir_version_from_repo_version_def Let_def split: prod.splits if_splits)
  have ne: "take 40 (dir_id ?d) \<noteq> EMPTY_SHA1"
    using no_collisionsD(1) [OF assms(4) False assms(3)] by (simp add: F')
  obtain x where w: "(if seaf_obj_store_obj_exists (fv_libs F) (fv_store F) (fv_repo F) (dir_id ?d) then (0, fv_store F)
      else seaf_obj_store_write_obj (fv_libs F) (fv_store F) (fv_repo F) (dir_id ?d) x) = (0, st)"
    using seaf_dir_save_split [OF save ne] by auto
  have "seaf_obj_store_read_obj (fv_libs F) st (fv_repo F) (dir_id ?d) \<noteq> None"
    using seaf_store.save_reads [OF w] by (simp split: option.split)
  then have ex: "seaf_obj_store_obj_exists (fv_libs F) st (fv_repo F) (dir_id ?d)"
    using seaf_store.exists_read by blast
  then have "is_object_id_valid (dir_id ?d)" by (auto simp: seaf_obj_store_obj_exists_def split: if_splits)
  then show ?thesis using no_collisionsD(2) [OF assms(4) False assms(3)] ex by (simp add: F' i)
qed

lemma save_entries_tree_ok:
  assumes "save_entries F es = (r, F')" "0 < fv_version F" "entries_ok es" "no_collisions F'" "tree_ok F"
  shows "tree_ok F'"
  unfolding tree_ok_def
proof (intro allI impI)
  fix j d assume d: "get_dir F' j = Some d"
  let ?d = "seaf_dir_new (fv_libs F) None es 1"
  obtain e st where save: "seaf_dir_save (fv_libs F) (fv_store F) (fv_repo F) ?d = (e, st)"
    and F': "F' = F\<lparr>fv_store := st\<rparr>"
    using assms(1,2) by (auto simp: save_entries_def dir_version_from_repo_version_def Let_def split: prod.splits if_splits)
  show "entries_ok (entries d)"
  proof (cases "take 40 j = EMPTY_SHA1 \<or> seaf_obj_store_read_obj (fv_libs F) st (fv_repo F) j
      = seaf_obj_store_read_obj (fv_libs F) (fv_store F) (fv_repo F) j")
    case True
    then have "get_dir F j = Some d" using d by (auto simp: seaf_fs_manager_get_seafdir_def F')
    then show ?thesis using assms(5) by (simp add: tree_ok_def)
  next
    case False
    have ne: "take 40 (dir_id ?d) \<noteq> EMPTY_SHA1" "es \<noteq> []"
      using False save by (auto simp: seaf_dir_save_def seaf_dir_new_def Let_def split: if_splits)
    obtain x e' where w: "(if seaf_obj_store_obj_exists (fv_libs F) (fv_store F) (fv_repo F) (dir_id ?d) then (0, fv_store F)
        else seaf_obj_store_write_obj (fv_libs F) (fv_store F) (fv_repo F) (dir_id ?d) x) = (e', st)"
      using seaf_dir_save_split [OF save ne(1)] by auto
    have j: "j = dir_id ?d" using seaf_store.save_fresh_only [OF w, of "fv_repo F" j] False by blast
    have "seaf_obj_store_read_obj (fv_libs F) st (fv_repo F) j \<noteq> None"
      using d False by (auto simp: seaf_fs_manager_get_seafdir_def F' split: option.splits)
    then have "seaf_obj_store_obj_exists (fv_libs F) st (fv_repo F) j" using seaf_store.exists_read by blast
    then have "entries d = es" using no_collisionsD(2) [OF assms(4) ne(2) assms(3)] d by (auto simp: F' j)
    then show ?thesis using assms(3) by simp
  qed
qed

section \<open>The walk keeps trees well formed\<close>

lemma update_recursive_leaf:
  "get_dir_sorted F i = Some olddir \<Longrightarrow> update_recursive edit same touch F i [] x =
     (case edit (entries olddir) x of
        (None, x') \<Rightarrow> (None, x', F)
      | (Some es, x') \<Rightarrow>
          if same x' then (Some (dir_id olddir), x', F)
          else (case save_entries F es of (ret, F') \<Rightarrow> (ret, x', F')))"
  by (simp add: update_recursive.simps [of edit same touch F i "[]"])

lemma update_recursive_step:
  assumes "get_dir_sorted F i = Some olddir" "path \<noteq> []"
    and "find (\<lambda>d. strcmp (d_name d) (fst (next_component path)) = 0) (entries olddir) = Some dent"
    and "update_recursive edit same touch F (d_id dent) (snd (next_component path)) x = (r1, x1, F1)"
  shows "update_recursive edit same touch F i path x =
     (case r1 of
        None \<Rightarrow> (None, x1, F1)
      | Some j \<Rightarrow>
          if same x1 then (Some (dir_id olddir), x1, F1)
          else (case save_entries F1 (update_entry (fst (next_component path))
                  (\<lambda>d. touch (d\<lparr>d_id := take 40 j\<rparr>)) (entries olddir)) of (ret, F2) \<Rightarrow> (ret, x1, F2)))"
  using assms by (simp add: update_recursive.simps [of edit same touch F i path] split: option.split)

lemma update_recursive_stuck:
  assumes "get_dir_sorted F i = None \<or> (path \<noteq> [] \<and> (\<exists>olddir. get_dir_sorted F i = Some olddir \<and>
     find (\<lambda>d. strcmp (d_name d) (fst (next_component path)) = 0) (entries olddir) = None))"
  shows "update_recursive edit same touch F i path x = (None, x, F)"
  using assms by (auto simp: update_recursive.simps [of edit same touch F i path])

lemma get_dir_sorted_v1 [simp]: "0 < fv_version F \<Longrightarrow> get_dir_sorted F i = get_dir F i"
  by (simp add: seaf_fs_manager_get_seafdir_sorted_def split: option.split)

text \<open>The directory at which the walk ends.\<close>

function walk_target :: "fs_view \<Rightarrow> string \<Rightarrow> string \<Rightarrow> seafdir option" where
  "walk_target F i path =
     (case get_dir_sorted F i of
        None \<Rightarrow> None
      | Some d \<Rightarrow>
          if path = [] then Some d
          else (case find (\<lambda>d. strcmp (d_name d) (fst (next_component path)) = 0) (entries d) of
                  None \<Rightarrow> None
                | Some dent \<Rightarrow> walk_target F (d_id dent) (snd (next_component path))))"
  by auto
termination by (relation "measure (\<lambda>(_, _, p). length p)") (auto simp: next_component_less)

declare walk_target.simps [simp del]

lemma walk_target_stuck:
  assumes "get_dir_sorted F i = None \<or> (path \<noteq> [] \<and> (\<exists>d. get_dir_sorted F i = Some d \<and>
     find (\<lambda>d. strcmp (d_name d) (fst (next_component path)) = 0) (entries d) = None))"
  shows "walk_target F i path = None"
  using assms by (auto simp: walk_target.simps [of F i path])

lemma walk_target_simps:
  "get_dir_sorted F i = Some d \<Longrightarrow> walk_target F i [] = Some d"
  "get_dir_sorted F i = Some d \<Longrightarrow> path \<noteq> [] \<Longrightarrow>
   find (\<lambda>d. strcmp (d_name d) (fst (next_component path)) = 0) (entries d) = Some dent \<Longrightarrow>
   walk_target F i path = walk_target F (d_id dent) (snd (next_component path))"
  by (simp_all add: walk_target.simps [of F i])

text \<open>What the walk may do to the entries on the path besides their ids.\<close>

definition touch_ok :: "(dirent \<Rightarrow> dirent) \<Rightarrow> bool" where
  "touch_ok touch \<longleftrightarrow>
     (\<forall>d. d_name (touch d) = d_name d \<and> d_mode (touch d) = d_mode d \<and> d_id (touch d) = d_id d \<and>
          (dirent_json_ok 1 d \<longrightarrow> dirent_json_ok 1 (touch d)))"

lemma touch_mtime_ok [simp]: "touch_ok (touch_mtime F now)"
  by (simp add: touch_ok_def touch_mtime_def dirent_json_ok_def)

lemma touch_id_ok [simp]: "touch_ok (\<lambda>d. d)"
  by (simp add: touch_ok_def)

lemma update_entry_names:
  "(\<And>d. d_name (f d) = d_name d) \<Longrightarrow> map d_name (update_entry name f es) = map d_name es"
  by (induction es) auto

lemma desc_by_names: "map f xs = map f ys \<Longrightarrow> desc_by f xs \<longleftrightarrow> desc_by f ys"
  using sorted_wrt_map [of "\<lambda>a b. b < a" f xs] sorted_wrt_map [of "\<lambda>a b. b < a" f ys] by simp

lemma update_entry_ok:
  assumes "entries_ok es" "touch_ok touch" "is_object_id_valid i"
  shows "entries_ok (update_entry name (\<lambda>d. touch (d\<lparr>d_id := i\<rparr>)) es)"
proof -
  have "map d_name (update_entry name (\<lambda>d. touch (d\<lparr>d_id := i\<rparr>)) es) = map d_name es"
    by (rule update_entry_names) (use assms(2) in \<open>simp add: touch_ok_def\<close>)
  moreover have "list_all (dirent_json_ok 1) (update_entry name (\<lambda>d. touch (d\<lparr>d_id := i\<rparr>)) es)"
    if "list_all (dirent_json_ok 1) es"
  proof -
    have one: "dirent_json_ok 1 (touch (d\<lparr>d_id := i\<rparr>))" if "dirent_json_ok 1 d" for d
    proof -
      have "dirent_json_ok 1 (d\<lparr>d_id := i\<rparr>)" using that assms(3) by (simp add: dirent_json_ok_def)
      with assms(2) [unfolded touch_ok_def, rule_format, of "d\<lparr>d_id := i\<rparr>"] show ?thesis by blast
    qed
    show ?thesis using that by (induction es) (simp_all add: one)
  qed
  ultimately show ?thesis using assms(1) desc_by_names unfolding entries_ok_def by metis
qed

lemma find_SomeD: "find P xs = Some x \<Longrightarrow> x \<in> set xs \<and> P x"
  by (induction xs) (auto split: if_splits)

lemma find_update_same:
  assumes "find (\<lambda>e. d_name e = c \<and> S_ISDIR (d_mode e)) es = Some dent" "distinct (map d_name es)"
    and "\<And>d. d_name (f d) = d_name d \<and> d_mode (f d) = d_mode d"
  shows "find (\<lambda>e. d_name e = c) es = Some dent \<and>
    find (\<lambda>e. d_name e = c \<and> S_ISDIR (d_mode e)) (update_entry c f es) = Some (f dent)"
  using assms(1,2)
proof (induction es)
  case (Cons e es)
  show ?case
  proof (cases "d_name e = c \<and> S_ISDIR (d_mode e)")
    case True
    then show ?thesis using Cons.prems assms(3) by simp
  next
    case False
    then have f: "find (\<lambda>e. d_name e = c \<and> S_ISDIR (d_mode e)) es = Some dent"
      using Cons.prems(1) by (simp split: if_splits)
    then have "d_name e \<noteq> c" using find_SomeD [OF f] Cons.prems(2) by (auto simp: image_iff)
    then show ?thesis using Cons.IH [OF f] Cons.prems(2) by simp
  qed
qed simp

lemma find_update_other:
  assumes "c' \<noteq> c" "\<And>d. d_name (f d) = d_name d"
  shows "find (\<lambda>e. d_name e = c' \<and> P e) (update_entry c f es) = find (\<lambda>e. d_name e = c' \<and> P e) es"
  using assms by (induction es) auto

text \<open>
  The part of the tree that is not on the path: directories elsewhere are the same, and on the path
  only the entry that was followed has changed.
\<close>

definition same_elsewhere ::
    "(dirent \<Rightarrow> dirent) \<Rightarrow> string list \<Rightarrow> fs_view \<Rightarrow> seafdir \<Rightarrow> fs_view \<Rightarrow> seafdir \<Rightarrow> bool" where
  "same_elsewhere touch comps F d F' d' \<longleftrightarrow>
     (\<forall>q e. q \<parallel> comps \<longrightarrow> lookup_dirs F d q = Inr e \<longrightarrow> lookup_dirs F' d' q = Inr e) \<and>
     (\<forall>q c r e. comps = q @ c # r \<longrightarrow> lookup_dirs F d q = Inr e \<longrightarrow>
        (\<exists>i e'. lookup_dirs F' d' q = Inr e' \<and>
           entries e' = update_entry c (\<lambda>x. touch (x\<lparr>d_id := i\<rparr>)) (entries e)))"

lemma same_elsewhere_Nil: "same_elsewhere touch [] F d F' d'"
  by (simp add: same_elsewhere_def)

lemma same_elsewhere_Cons:
  assumes d': "entries d' = update_entry c (\<lambda>x. touch (x\<lparr>d_id := i\<rparr>)) (entries d)"
    and dent: "find (\<lambda>e. d_name e = c \<and> S_ISDIR (d_mode e)) (entries d) = Some dent"
      "find (\<lambda>e. d_name e = c \<and> S_ISDIR (d_mode e)) (entries d') = Some dent'" "d_id dent' = i"
    and sub: "get_dir F (d_id dent) = Some d1" "get_dir F' i = Some d1'"
    and touch: "touch_ok touch" and ext: "fs_extends F F'"
    and IH: "same_elsewhere touch cs F d1 F' d1'"
  shows "same_elsewhere touch (c # cs) F d F' d'"
  unfolding same_elsewhere_def
proof (intro conjI allI impI)
  fix q e assume q: "q \<parallel> c # cs" "lookup_dirs F d q = Inr e"
  then obtain c' q' where q': "q = c' # q'" by (cases q) auto
  show "lookup_dirs F' d' q = Inr e"
  proof (cases "c' = c")
    case True
    then have "q' \<parallel> cs" using q(1) q' by (simp add: parallel_def)
    then show ?thesis using IH q(2) dent sub by (simp add: same_elsewhere_def q' True)
  next
    case False
    have "find (\<lambda>e. d_name e = c' \<and> S_ISDIR (d_mode e)) (entries d')
        = find (\<lambda>e. d_name e = c' \<and> S_ISDIR (d_mode e)) (entries d)"
      unfolding d' by (rule find_update_other [OF False]) (use touch in \<open>simp add: touch_ok_def\<close>)
    moreover obtain x y where "find (\<lambda>e. d_name e = c' \<and> S_ISDIR (d_mode e)) (entries d) = Some x"
      "get_dir F (d_id x) = Some y" "lookup_dirs F y q' = Inr e"
      using q(2) by (auto simp: q' split: option.splits)
    ultimately show ?thesis by (simp add: q' get_dir_extends [OF ext] lookup_extends [OF ext])
  qed
next
  fix q c' r e assume q: "c # cs = q @ c' # r" "lookup_dirs F d q = Inr e"
  show "\<exists>i e'. lookup_dirs F' d' q = Inr e' \<and>
      entries e' = update_entry c' (\<lambda>x. touch (x\<lparr>d_id := i\<rparr>)) (entries e)"
  proof (cases q)
    case Nil
    then show ?thesis using q d' by auto
  next
    case (Cons a q')
    then show ?thesis using IH q dent sub by (auto simp: same_elsewhere_def)
  qed
qed

text \<open>
  An edit with the parameters \<open>p\<close> keeps entries well formed when it is used as intended.  Then so does
  the walk for the tree, and the new tree has the edited directory at the path.
\<close>

locale dir_edit =
  fixes edit :: "'p \<Rightarrow> dirent list \<Rightarrow> 'x \<Rightarrow> dirent list option \<times> 'x"
    and good :: "'p \<Rightarrow> dirent list \<Rightarrow> bool"
  assumes edit_ok: "good p es \<Longrightarrow> entries_ok es \<Longrightarrow> edit p es x = (Some es', x') \<Longrightarrow> entries_ok es'"
begin

lemma update_tree_ok:
  "update_recursive (edit p) same touch F i path x = (ret, x', F') \<Longrightarrow>
   (\<And>d. walk_target F i path = Some d \<Longrightarrow> good p (entries d)) \<Longrightarrow> touch_ok touch \<Longrightarrow> 0 < fv_version F \<Longrightarrow> tree_ok F \<Longrightarrow> no_collisions F' \<Longrightarrow>
   tree_ok F' \<and> (\<forall>j. ret = Some j \<longrightarrow> same x' \<or> is_object_id_valid j)"
proof (induction "edit p" same touch F i path x arbitrary: ret x' F' rule: update_recursive.induct)
  case (1 same touch F i path x)
  note IH = 1(1) and run = 1(2) and pre = 1(3-7)
  show ?case
  proof (cases "get_dir F i")
    case None
    then show ?thesis using run pre(4,3) update_recursive_stuck [of F i path "edit p" same touch x] by simp
  next
    case (Some olddir)
    then have olddir: "get_dir_sorted F i = Some olddir" "entries_ok (entries olddir)"
      using pre by (simp_all add: tree_ok_def)
    show ?thesis
    proof (cases "path = []")
      case path: True
      obtain r x1 where e: "edit p (entries olddir) x = (r, x1)" by fastforce
      note step = update_recursive_leaf [OF olddir(1), of "edit p" same touch x, unfolded e]
      show ?thesis
      proof (cases "r = None \<or> same x1")
        case True
        then show ?thesis using run pre(4) step by (auto simp: path split: option.splits)
      next
        case False
        then obtain es where r: "r = Some es" by auto
        have save: "save_entries F es = (ret, F')" "x' = x1"
          using run step False by (auto simp: path r split: prod.splits)
        have good: "good p (entries olddir)" by (rule pre(1)) (simp add: path walk_target_simps(1) [OF olddir(1)])
        have es: "entries_ok es" using edit_ok [OF good olddir(2)] e r by simp
        show ?thesis
          using save_entries_tree_ok [OF save(1) pre(3) es pre(5,4)] save_entries_get [OF _ pre(3) es pre(5)] save(1)
          by blast
      qed
    next
      case path: False
      show ?thesis
      proof (cases "find (\<lambda>d. strcmp (d_name d) (fst (next_component path)) = 0) (entries olddir)")
        case None
        then show ?thesis
          using run pre(4) olddir(1) path update_recursive_stuck [of F i path "edit p" same touch x] by auto
      next
        case dent: (Some dent)
        obtain r1 x1 F1 where rec:
          "update_recursive (edit p) same touch F (d_id dent) (snd (next_component path)) x = (r1, x1, F1)"
          by (metis prod_cases3)
        note step = update_recursive_step [OF olddir(1) path dent rec]
        have ext: "fs_extends F1 F'"
          using run step by (auto split: option.splits prod.splits if_splits dest: save_entries_extends)
        have good: "good p (entries d)" if "walk_target F (d_id dent) (snd (next_component path)) = Some d" for d
          by (rule pre(1)) (simp add: walk_target_simps(2) [OF olddir(1) path dent] that)
        note ih = IH [OF olddir(1) path refl refl dent rec good pre(2-4) no_collisions_extends [OF ext pre(5)]]
        show ?thesis
        proof (cases "r1 = None \<or> same x1")
          case True
          then show ?thesis using run step ih by (auto split: option.splits)
        next
          case neither: False
          then obtain j where j: "r1 = Some j" by auto
          let ?es = "update_entry (fst (next_component path)) (\<lambda>d. touch (d\<lparr>d_id := take 40 j\<rparr>)) (entries olddir)"
          have save: "save_entries F1 ?es = (ret, F')" "x' = x1"
            using run step neither by (auto simp: j split: prod.splits)
          have "is_object_id_valid (take 40 j)" using ih neither j by (auto simp: is_object_id_valid_def)
          then have es: "entries_ok ?es" by (rule update_entry_ok [OF olddir(2) pre(2)])
          have v: "0 < fv_version F1"
            using update_recursive_extends [OF rec] pre(3) by (simp add: fs_extends_def)
          show ?thesis
            using save_entries_tree_ok [OF save(1) v es pre(5)] save_entries_get [OF _ v es pre(5)] save(1) ih
            by blast
        qed
      qed
    qed
  qed
qed

end

section \<open>What the new tree holds\<close>

fun join_path :: "string list \<Rightarrow> string" where
  "join_path [] = []"
| "join_path [c] = c"
| "join_path (c # cs) = c @ CHR ''/'' # join_path cs"

definition comps_ok :: "string list \<Rightarrow> bool" where
  "comps_ok comps \<longleftrightarrow> list_all (\<lambda>c. c \<noteq> [] \<and> CHR ''/'' \<notin> set c) comps"

lemma comps_ok_Cons [simp]: "comps_ok (c # cs) \<longleftrightarrow> c \<noteq> [] \<and> CHR ''/'' \<notin> set c \<and> comps_ok cs"
  by (auto simp: comps_ok_def)

lemma next_component_join:
  "comps_ok (c # cs) \<Longrightarrow> join_path (c # cs) \<noteq> [] \<and> next_component (join_path (c # cs)) = (c, join_path cs)"
  by (cases cs) (simp_all add: next_component_def)

lemma strtok_join: "comps_ok comps \<Longrightarrow> strtok_all (CHR ''/'') (join_path comps) = comps"
  by (induction comps rule: join_path.induct) (simp_all add: strtok_all_simple strtok_all_append)

lemma by_path_join:
  "comps_ok comps \<Longrightarrow> seaf_fs_manager_get_seafdir_by_path F root (join_path comps) =
     (case get_dir F root of None \<Rightarrow> Inl SEAF_ERR_DIR_MISSING | Some d \<Rightarrow> lookup_dirs F d comps)"
  by (simp add: seaf_fs_manager_get_seafdir_by_path_def strtok_join split: option.split)

lemma skip_slash_join: "comps_ok comps \<Longrightarrow> skip_slash (CHR ''/'' # join_path comps) = join_path comps"
  "comps_ok comps \<Longrightarrow> skip_slash (join_path comps) = join_path comps"
  by (cases comps; cases "hd comps"; cases "tl comps"; auto simp: skip_slash_def char_at_def)+

lemma walk_target_join:
  assumes "0 < fv_version F" "tree_ok F"
  shows "comps_ok comps \<Longrightarrow> get_dir F i = Some d \<Longrightarrow> lookup_dirs F d comps = Inr t \<Longrightarrow>
    walk_target F i (join_path comps) = Some t"
proof (induction comps arbitrary: i d)
  case Nil
  then show ?case using assms(1) by (simp add: walk_target_simps(1) [of F i d])
next
  case (Cons c cs)
  have d: "get_dir_sorted F i = Some d" "distinct (map d_name (entries d))"
    using Cons.prems(2) assms by (simp_all add: tree_ok_def entries_ok_def desc_by_distinct)
  obtain dent d1 where dent: "find (\<lambda>e. d_name e = c \<and> S_ISDIR (d_mode e)) (entries d) = Some dent"
    and d1: "get_dir F (d_id dent) = Some d1" and t: "lookup_dirs F d1 cs = Inr t"
    using Cons.prems(3) by (auto split: option.splits)
  have path: "join_path (c # cs) \<noteq> []" "next_component (join_path (c # cs)) = (c, join_path cs)"
    using next_component_join [OF Cons.prems(1)] by auto
  have "find (\<lambda>d. strcmp (d_name d) (fst (next_component (join_path (c # cs)))) = 0) (entries d) = Some dent"
    using find_update_same [OF dent d(2), of "\<lambda>d. d"] by (simp add: path(2))
  from walk_target_simps(2) [OF d(1) path(1) this] show ?case
    using Cons.IH [OF _ d1 t] Cons.prems(1) by (simp add: path(2))
qed

context dir_edit
begin

lemma update_spec:
  assumes "update_recursive (edit p) same touch F i (join_path comps) x = (Some j, x', F')" "\<not> same x'"
    and "good p (entries t)" "touch_ok touch" "0 < fv_version F" "tree_ok F" "no_collisions F'" "comps_ok comps"
    and "get_dir F i = Some d" "lookup_dirs F d comps = Inr t"
  shows "\<exists>d' t' es'. get_dir F' j = Some d' \<and> lookup_dirs F' d' comps = Inr t' \<and>
    edit p (entries t) x = (Some es', x') \<and> entries t' = es' \<and> entries_ok es' \<and>
    same_elsewhere touch comps F d F' d'"
  using assms(1,2,7-)
proof (induction comps arbitrary: i d j x' F')
  case Nil
  have d: "get_dir_sorted F i = Some d" "d = t" "entries_ok (entries d)"
    using Nil.prems(5,6) assms(5,6) by (simp_all add: tree_ok_def)
  obtain r x1 where e: "edit p (entries d) x = (r, x1)" by fastforce
  obtain es where r: "r = Some es" and x1: "x1 = x'" and save: "save_entries F es = (Some j, F')"
    using Nil.prems(1,2) update_recursive_leaf [OF d(1), of "edit p" same touch x]
    by (auto simp: e split: option.splits if_splits prod.splits)
  have es: "entries_ok es" by (rule edit_ok [OF assms(3) d(3) [unfolded d(2)]]) (use e r d(2) in simp)
  obtain d' where "get_dir F' j = Some d'" "entries d' = es"
    using save_entries_get [OF save assms(5) es Nil.prems(3)] by blast
  then show ?case using e r x1 es d(2) by (simp add: same_elsewhere_Nil)
next
  case (Cons c cs)
  have d: "get_dir_sorted F i = Some d" "entries_ok (entries d)"
    using Cons.prems(5) assms(5,6) by (simp_all add: tree_ok_def)
  have dist: "distinct (map d_name (entries d))"
    using d(2) by (simp add: entries_ok_def desc_by_distinct)
  obtain dent d1 where dent: "find (\<lambda>e. d_name e = c \<and> S_ISDIR (d_mode e)) (entries d) = Some dent"
    and d1: "get_dir F (d_id dent) = Some d1" and t: "lookup_dirs F d1 cs = Inr t"
    using Cons.prems(6) by (auto split: option.splits)
  have path: "join_path (c # cs) \<noteq> []" "next_component (join_path (c # cs)) = (c, join_path cs)"
    using next_component_join [OF Cons.prems(4)] by auto
  have first: "find (\<lambda>d. strcmp (d_name d) (fst (next_component (join_path (c # cs)))) = 0) (entries d) = Some dent"
    using find_update_same [OF dent dist, of "\<lambda>d. d"] by (simp add: path(2))
  obtain r1 x1 F1 where rec: "update_recursive (edit p) same touch F (d_id dent) (join_path cs) x = (r1, x1, F1)"
    by (metis prod_cases3)
  have rec': "update_recursive (edit p) same touch F (d_id dent) (snd (next_component (join_path (c # cs)))) x = (r1, x1, F1)"
    using rec by (simp add: path(2))
  note step = update_recursive_step [OF d(1) path(1) first rec', unfolded path(2) fst_conv]
  obtain j1 where r1: "r1 = Some j1" and x1: "x1 = x'"
    and save: "save_entries F1 (update_entry c (\<lambda>d. touch (d\<lparr>d_id := take 40 j1\<rparr>)) (entries d)) = (Some j, F')"
    using Cons.prems(1,2) step by (auto split: option.splits if_splits prod.splits)
  have ext: "fs_extends F F1" "fs_extends F1 F'"
    using update_recursive_extends [OF rec] save_entries_extends [OF save] by auto
  have col1: "no_collisions F1" by (rule no_collisions_extends [OF ext(2) Cons.prems(3)])
  have v1: "0 < fv_version F1" using ext(1) assms(5) by (simp add: fs_extends_def)
  have "is_object_id_valid j1"
    using update_tree_ok [OF rec _ assms(4,5,6) col1] Cons.prems(2) r1 x1 assms(3)
      walk_target_join [OF assms(5,6) _ d1 t] Cons.prems(4) by simp
  then have j1: "is_object_id_valid j1" "take 40 j1 = j1" by (auto simp: is_object_id_valid_def)
  note save = save [unfolded j1(2)]
  have cs_ok: "comps_ok cs" using Cons.prems(4) by simp
  obtain d1' t' es' where sub: "get_dir F1 j1 = Some d1'" "lookup_dirs F1 d1' cs = Inr t'"
      "edit p (entries t) x = (Some es', x')" "entries t' = es'" "entries_ok es'"
      "same_elsewhere touch cs F d1 F1 d1'"
    using Cons.IH [OF rec [unfolded r1 x1] Cons.prems(2) col1 cs_ok d1 t] by blast
  obtain d' where d': "get_dir F' j = Some d'"
    "entries d' = update_entry c (\<lambda>d. touch (d\<lparr>d_id := j1\<rparr>)) (entries d)"
    using save_entries_get [OF save v1 update_entry_ok [OF d(2) assms(4) j1(1)] Cons.prems(3)] by blast
  let ?dent = "touch (dent\<lparr>d_id := j1\<rparr>)"
  have dent': "find (\<lambda>e. d_name e = c \<and> S_ISDIR (d_mode e)) (entries d') = Some ?dent" "d_id ?dent = j1"
    using find_update_same [OF dent dist, of "\<lambda>d. touch (d\<lparr>d_id := j1\<rparr>)"] assms(4)
    by (simp_all add: d'(2) touch_ok_def)
  have sub': "get_dir F' j1 = Some d1'" "lookup_dirs F' d1' cs = Inr t'"
    using get_dir_extends [OF ext(2) sub(1)] lookup_extends [OF ext(2) sub(2)] .
  have same1: "same_elsewhere touch cs F d1 F' d1'"
    using sub(6) lookup_extends [OF ext(2)] unfolding same_elsewhere_def by blast
  have "same_elsewhere touch (c # cs) F d F' d'"
    by (rule same_elsewhere_Cons [OF d'(2) dent dent' d1 sub'(1) assms(4) fs_extends_trans [OF ext] same1])
  moreover have "lookup_dirs F' d' (c # cs) = Inr t'" using dent' sub' by simp
  ultimately show ?case using d'(1) sub(3-5) by blast
qed

end

section \<open>Unique names\<close>

lemma filename_exists_iff: "filename_exists es n \<longleftrightarrow> n \<in> d_name ` set es"
  by (induction es) auto

text \<open>The candidates in the order they are tried.\<close>

definition candidate :: "string \<Rightarrow> nat \<Rightarrow> string" where
  "candidate fname j = (if j = 0 then fname else numbered_name (split_filename fname) j)"

lemma unique_loop_candidates:
  "unique_loop es (split_filename fname) (candidate fname j) (j + 1) = (n, k) \<Longrightarrow> j \<le> 100 \<Longrightarrow>
   \<exists>m. j \<le> m \<and> m \<le> 100 \<and> k = m + 1 \<and> n = candidate fname m \<and>
     (m < 100 \<longrightarrow> candidate fname m \<notin> d_name ` set es) \<and>
     (\<forall>l. j \<le> l \<and> l < m \<longrightarrow> candidate fname l \<in> d_name ` set es)"
proof (induction "100 - j" arbitrary: j)
  case 0
  then have j: "j = 100" by simp
  then show ?case
    using "0.prems"(1) unique_loop.simps [of es "split_filename fname" "candidate fname 100" 101] by auto
next
  case (Suc d)
  show ?case
  proof (cases "candidate fname j \<in> d_name ` set es")
    case True
    have "candidate fname (j + 1) = numbered_name (split_filename fname) (j + 1)" by (simp add: candidate_def)
    then have "unique_loop es (split_filename fname) (candidate fname (j + 1)) (j + 1 + 1) = (n, k)"
      using Suc.prems(1) Suc.hyps(2) True
      by (simp add: unique_loop.simps [of es _ "candidate fname j"] filename_exists_iff split: if_splits)
    moreover have "d = 100 - (j + 1)" "j + 1 \<le> 100" using Suc.hyps(2) by simp_all
    ultimately have "\<exists>m. j + 1 \<le> m \<and> m \<le> 100 \<and> k = m + 1 \<and> n = candidate fname m \<and>
      (m < 100 \<longrightarrow> candidate fname m \<notin> d_name ` set es) \<and>
      (\<forall>l. j + 1 \<le> l \<and> l < m \<longrightarrow> candidate fname l \<in> d_name ` set es)"
      using Suc.hyps(1) by blast
    then obtain m where m: "j + 1 \<le> m" "m \<le> 100" "k = m + 1" "n = candidate fname m"
      "m < 100 \<longrightarrow> candidate fname m \<notin> d_name ` set es"
      "\<forall>l. j + 1 \<le> l \<and> l < m \<longrightarrow> candidate fname l \<in> d_name ` set es"
      by blast
    have "candidate fname l \<in> d_name ` set es" if "j \<le> l" "l < m" for l
      using m(6) that True by (cases "l = j") auto
    then show ?thesis using m(1-5) by (intro exI [of _ m]) auto
  next
    case False
    then show ?thesis
      using Suc.prems(1,2)
      by (intro exI [of _ j]) (auto simp: unique_loop.simps [of es _ "candidate fname j"] filename_exists_iff)
  qed
qed

lemma generate_unique_cases:
  "(case generate_unique_filename fname es of
      None \<Rightarrow> \<forall>l<100. candidate fname l \<in> d_name ` set es
    | Some n \<Rightarrow> n \<notin> d_name ` set es \<and>
        (\<exists>m<100. n = candidate fname m \<and> (\<forall>l<m. candidate fname l \<in> d_name ` set es)))"
proof -
  obtain n k where run: "unique_loop es (split_filename fname) fname 1 = (n, k)" by fastforce
  then have "unique_loop es (split_filename fname) (candidate fname 0) (0 + 1) = (n, k)"
    by (simp add: candidate_def)
  from unique_loop_candidates [OF this] obtain m where m: "m \<le> 100" "k = m + 1" "n = candidate fname m"
    "m < 100 \<longrightarrow> candidate fname m \<notin> d_name ` set es" "\<forall>l<m. candidate fname l \<in> d_name ` set es"
    by auto
  then show ?thesis
    by (cases "m < 100") (auto simp: generate_unique_filename_def run [simplified])
qed

lemma generate_unique_fresh: "generate_unique_filename fname es = Some n \<Longrightarrow> n \<notin> d_name ` set es"
  using generate_unique_cases [of fname es] by simp

lemma numbered_name_inj: "numbered_name p i = numbered_name p j \<Longrightarrow> i = j"
  by (auto simp: numbered_name_def dest: nat_to_string_inj split: prod.splits option.splits)

lemma split_filename_length:
  "split_filename fname = (name, ext) \<Longrightarrow>
     length fname = length name + (case ext of None \<Rightarrow> 0 | Some e \<Rightarrow> Suc (length e))"
  by (auto simp: split_filename_def strrchr_split_def split: prod.splits option.splits
      dest!: strchr_split_Some arg_cong [of "rev fname" _ length])

lemma candidate_inj: "inj (candidate fname)"
proof (rule injI)
  fix i j assume eq: "candidate fname i = candidate fname j"
  have longer: "length fname < length (numbered_name (split_filename fname) k)" for k
    using split_filename_length [of fname]
    by (auto simp: numbered_name_def split: prod.split option.split)
  show "i = j"
    using eq longer [of i] longer [of j] numbered_name_inj
    by (auto simp: candidate_def split: if_splits)
qed

text \<open>C26: \<open>generate_unique_filename\<close> returns the first free one of the hundred names \<open>file\<close>,
  \<open>file (1)\<close>, ..., \<open>file (99)\<close> (the number before the extension); it fails exactly when all of them
  are taken, which takes a directory of at least a hundred entries.  The name \<open>file (100)\<close>, which
  the loop also tries, is never returned.\<close>

theorem unique_filename_first_free:
  "(case generate_unique_filename fname es of
      None \<Rightarrow> (\<forall>l<100. candidate fname l \<in> d_name ` set es) \<and> 100 \<le> length es
    | Some n \<Rightarrow> n \<notin> d_name ` set es \<and>
        (\<exists>m<100. n = candidate fname m \<and> (\<forall>l<m. candidate fname l \<in> d_name ` set es)))"
proof (cases "generate_unique_filename fname es")
  case None
  then have all: "\<forall>l<100. candidate fname l \<in> d_name ` set es" using generate_unique_cases [of fname es] by simp
  have "100 = card (candidate fname ` {..<100})"
    using candidate_inj by (simp add: card_image inj_on_def)
  also have "\<dots> \<le> card (d_name ` set es)" using all by (intro card_mono) auto
  also have "\<dots> \<le> length es" using card_image_le [of "set es" d_name] card_length [of es] by simp
  finally show ?thesis using None all by simp
next
  case (Some n)
  then show ?thesis using generate_unique_cases [of fname es] by simp
qed

section \<open>The edits keep directories well formed\<close>

lemma S_ISREG_or: "S_ISREG (m OR 0x1A4) = S_ISREG m"
  by (simp add: S_ISREG_def S_IFMT_def bit.conj_disj_distrib2)

lemma seaf_dirent_new_ok:
  assumes "is_object_id_valid i" "S_ISREG m \<longrightarrow> u \<noteq> None"
  shows "dirent_json_ok 1 (seaf_dirent_new 1 i m n t u z)"
  using assms by (auto simp: seaf_dirent_new_def dirent_json_ok_def S_ISREG_or is_object_id_valid_def)

lemma insert_entry_ok:
  assumes "entries_ok es" "dirent_json_ok 1 d" "d_name d \<notin> d_name ` set es"
  shows "entries_ok (g_list_insert_sorted compare_dirents d es)"
proof -
  have cmp: "compare_dirents = desc_cmp d_name"
    by (simp add: fun_eq_iff compare_dirents_def desc_cmp_def)
  show ?thesis
    using assms desc_by_insert [of d_name es d] by (simp add: entries_ok_def cmp list_all_iff)
qed

lemma replace_entry_eq: "replace_entry d es = map (\<lambda>e. if d_name e = d_name d then d else e) es"
  by (induction es) (auto simp: replace_entry_def seaf_dirent_dup_def)

lemma replace_entry_ok:
  assumes "entries_ok es" "dirent_json_ok 1 d"
  shows "entries_ok (replace_entry d es)"
proof -
  have "map d_name (replace_entry d es) = map d_name es"
    by (auto simp: replace_entry_def seaf_dirent_dup_def)
  then have "desc_by d_name (replace_entry d es)"
    using assms(1) desc_by_names unfolding entries_ok_def by metis
  then show ?thesis
    using assms by (auto simp: entries_ok_def list_all_iff replace_entry_def seaf_dirent_dup_def)
qed

lemma filter_ok: "entries_ok es \<Longrightarrow> entries_ok (filter P es)"
  by (auto simp: entries_ok_def list_all_iff intro: sorted_wrt_filter)

lemma post_edit_ok:
  assumes "dirent_json_ok 1 nd" "entries_ok es" "post_edit r nd es u = (Some es', u')"
  shows "entries_ok es'"
proof (cases "r \<and> filename_exists es (d_name nd)")
  case True
  then show ?thesis using assms(3) replace_entry_ok [OF assms(2,1)] by (simp add: post_edit_def)
next
  case False
  then obtain n where n: "generate_unique_filename (d_name nd) es = Some n"
    and es': "es' = g_list_insert_sorted compare_dirents
      (seaf_dirent_new (d_version nd) (d_id nd) (d_mode nd) n (d_mtime nd) (d_modifier nd) (d_size nd)) es"
    using assms(3) by (auto simp: post_edit_def split: option.splits)
  have v: "d_version nd = 1" using assms(1) by (simp add: dirent_json_ok_def)
  have "dirent_json_ok 1 (seaf_dirent_new 1 (d_id nd) (d_mode nd) n (d_mtime nd) (d_modifier nd) (d_size nd))"
    by (rule seaf_dirent_new_ok) (use assms(1) in \<open>auto simp: dirent_json_ok_def\<close>)
  then show ?thesis
    unfolding es' v using generate_unique_fresh [OF n] by (intro insert_entry_ok [OF assms(2)]) (simp_all add: seaf_dirent_new_def)
qed

lemma delete_first_spec:
  "delete_first n es = (b, es') \<Longrightarrow> entries_ok es \<Longrightarrow> es' = filter (\<lambda>d. d_name d \<noteq> n) es \<and> b = filename_exists es n"
proof (induction es arbitrary: b es')
  case (Cons e es)
  have es: "entries_ok es" using Cons.prems(2) by (simp add: entries_ok_def)
  have lt: "\<forall>d\<in>set es. d_name d < d_name e" using Cons.prems(2) by (simp add: entries_ok_def)
  then have "d_name e = n \<Longrightarrow> filter (\<lambda>d. d_name d \<noteq> n) es = es" by (auto simp: filter_id_conv)
  then show ?case using Cons.prems(1) Cons.IH [OF _ es] by (auto split: if_splits prod.splits)
qed (simp add: entries_ok_def)

lemma add_new_entries_ok:
  "add_new_entries v u r ds es names = (Some es', names') \<Longrightarrow> v \<noteq> 0 \<Longrightarrow> u \<noteq> None \<Longrightarrow>
   list_all (\<lambda>d. is_object_id_valid (d_id d)) ds \<Longrightarrow> entries_ok es \<Longrightarrow> entries_ok es'"
proof (induction v u r ds es names rule: add_new_entries.induct)
  case (2 v u r d ds es names)
  obtain b es1 where del: "(if r then delete_first (d_name d) es else (False, es)) = (b, es1)" by fastforce
  have es1: "entries_ok es1" "b \<Longrightarrow> d_name d \<notin> d_name ` set es1"
    using del delete_first_spec [OF _ "2.prems"(5), of "d_name d" b es1] "2.prems"(5) filter_ok
    by (auto split: if_splits)
  obtain n where n: "(if b then Some (d_name d) else generate_unique_filename (d_name d) es1) = Some n"
    using "2.prems"(1) by (auto simp: del split: option.splits if_splits)
  have fresh: "n \<notin> d_name ` set es1"
    using n es1(2) generate_unique_fresh by (auto split: if_splits)
  let ?d = "seaf_dirent_new 1 (d_id d) (d_mode d) n (d_mtime d) u (d_size d)"
  have "dirent_json_ok 1 ?d" by (rule seaf_dirent_new_ok) (use "2.prems"(3,4) in auto)
  then have ok: "entries_ok (g_list_insert_sorted compare_dirents ?d es1)"
    using fresh by (intro insert_entry_ok [OF es1(1)]) (simp_all add: seaf_dirent_new_def)
  have v: "dir_version_from_repo_version v = 1" using "2.prems"(2) by (simp add: dir_version_from_repo_version_def)
  show ?case
    by (rule "2.IH" [OF del [symmetric] refl n])
       (use "2.prems" n ok v in \<open>simp_all add: del\<close>)
qed simp

lemma del_loop_spec:
  "del_loop names es x = (filter (\<lambda>d. d_name d \<notin> set names) es, snd (del_loop names es x)) \<and>
   di_deleted_num (snd (del_loop names es x)) = di_deleted_num x + length (filter (\<lambda>d. d_name d \<in> set names) es)"
proof (induction es arbitrary: x)
  case (Cons e es)
  obtain r1 x1 r2 x2 where "del_loop names es (count_deleted e x) = (r1, x1)" "del_loop names es x = (r2, x2)"
    by fastforce
  then show ?case
    using Cons [of "count_deleted e x"] Cons [of x] by (simp add: count_deleted_def seaf_dirent_dup_def)
qed simp

lemma rename_split_spec:
  "rename_split a b es nd = (filter (\<lambda>d. d_name d \<noteq> a) es,
     (case rev (filter (\<lambda>d. d_name d = a) es) of
        [] \<Rightarrow> nd
      | d # _ \<Rightarrow> Some (seaf_dirent_new (d_version d) (d_id d) (d_mode d) b (d_mtime d) (d_modifier d) (d_size d))))"
  by (induction es arbitrary: nd) (auto simp: seaf_dirent_dup_def split: list.splits)

lemma rename_edit_ok:
  assumes "b \<notin> d_name ` set es" "entries_ok es" "rename_edit a b es u = (Some es', u')"
  shows "entries_ok es'"
proof (cases "rev (filter (\<lambda>d. d_name d = a) es)")
  case Nil
  then show ?thesis
    using assms(3) filter_ok [OF assms(2), of "\<lambda>d. d_name d \<noteq> a"] by (simp add: rename_edit_def rename_split_spec)
next
  case (Cons d ds)
  then have "d \<in> set (rev (filter (\<lambda>d. d_name d = a) es))" by (metis list.set_intros(1))
  then have d: "dirent_json_ok 1 d" using assms(2) by (auto simp: entries_ok_def list_all_iff)
  then have v: "d_version d = 1" by (simp add: dirent_json_ok_def)
  let ?d = "seaf_dirent_new 1 (d_id d) (d_mode d) b (d_mtime d) (d_modifier d) (d_size d)"
  have "dirent_json_ok 1 ?d" by (rule seaf_dirent_new_ok) (use d in \<open>auto simp: dirent_json_ok_def\<close>)
  then have "entries_ok (g_list_insert_sorted compare_dirents ?d (filter (\<lambda>d. d_name d \<noteq> a) es))"
    using assms(1) by (intro insert_entry_ok filter_ok assms(2)) (auto simp: seaf_dirent_new_def)
  then show ?thesis using assms(3) Cons by (simp add: rename_edit_def rename_split_spec v)
qed

interpretation post: dir_edit "\<lambda>(r, nd). post_edit r nd" "\<lambda>(r, nd) es. dirent_json_ok 1 nd"
  by unfold_locales (auto split: prod.splits intro: post_edit_ok)

interpretation multi: dir_edit "\<lambda>(v, u, r, ds). add_new_entries v u r ds"
  "\<lambda>(v, u, r, ds) es. v \<noteq> 0 \<and> u \<noteq> None \<and> list_all (\<lambda>d. is_object_id_valid (d_id d)) ds"
  by unfold_locales (auto split: prod.splits intro: add_new_entries_ok)

interpretation del: dir_edit del_edit "\<lambda>filename es. True"
proof unfold_locales
  fix p es es' and x x' :: del_info
  assume "entries_ok es" "del_edit p es x = (Some es', x')"
  then show "entries_ok es'" using del_loop_spec [of "del_names p" es x] filter_ok by (auto simp: del_edit_def split: prod.splits)
qed

interpretation rename: dir_edit "\<lambda>(a, b). rename_edit a b" "\<lambda>(a, b) es. b \<notin> d_name ` set es"
  by unfold_locales (auto split: prod.splits intro: rename_edit_ok)

interpretation put: dir_edit put_edit "\<lambda>nd es. dirent_json_ok 1 nd"
  by unfold_locales (auto simp: put_edit_def intro: replace_entry_ok)

section \<open>Properties\<close>

lemma get_dir_sorted_id: "get_dir_sorted F i = Some d \<Longrightarrow> dir_id d = take 40 i"
  using get_dir_id [of F i] by (auto simp: seaf_fs_manager_get_seafdir_sorted_def split: option.splits if_splits)

text \<open>A tree below a root, and what one of the changes must leave alone.\<close>

definition change_ok :: "fs_view \<Rightarrow> string \<Rightarrow> string list \<Rightarrow> seafdir \<Rightarrow> bool" where
  "change_ok F root comps t \<longleftrightarrow>
     0 < fv_version F \<and> tree_ok F \<and> comps_ok comps \<and>
     seaf_fs_manager_get_seafdir_by_path F root (join_path comps) = Inr t"

definition changed_only :: "(dirent \<Rightarrow> dirent) \<Rightarrow> string list \<Rightarrow> fs_view \<Rightarrow> string \<Rightarrow> fs_view \<Rightarrow> string \<Rightarrow> bool" where
  "changed_only touch comps F root F' root' \<longleftrightarrow>
     fs_extends F F' \<and> tree_ok F' \<and> is_object_id_valid root' \<and>
     (\<exists>d d'. get_dir F root = Some d \<and> get_dir F' root' = Some d' \<and> same_elsewhere touch comps F d F' d')"

context dir_edit
begin

lemma update_by_path:
  assumes "change_ok F root comps t" "no_collisions F'" "good p (entries t)" "touch_ok touch"
    and run: "update_recursive (edit p) same touch F root (join_path comps) x = (Some j, x', F')" "\<not> same x'"
  shows "changed_only touch comps F root F' j \<and>
    (\<exists>t'. seaf_fs_manager_get_seafdir_by_path F' j (join_path comps) = Inr t' \<and>
       edit p (entries t) x = (Some (entries t'), x') \<and> entries_ok (entries t'))"
proof -
  note pre = assms(1) [unfolded change_ok_def]
  obtain d where d: "get_dir F root = Some d" "lookup_dirs F d comps = Inr t"
    using pre by (auto simp: by_path_join split: option.splits)
  have target: "walk_target F root (join_path comps) = Some t"
    using walk_target_join pre d by blast
  have tree: "tree_ok F'" "is_object_id_valid j"
    using update_tree_ok [OF run(1) _ assms(4) _ _ assms(2)] target assms(3) pre run(2) by simp_all
  have ext: "fs_extends F F'" by (rule update_recursive_extends [OF run(1)])
  obtain d' t' where "get_dir F' j = Some d'" "lookup_dirs F' d' comps = Inr t'"
    "edit p (entries t) x = (Some (entries t'), x')" "entries_ok (entries t')"
    "same_elsewhere touch comps F d F' d'"
    using update_spec [OF run assms(3,4) _ _ assms(2) _ d] pre by blast
  then show ?thesis using d(1) ext tree pre by (auto simp: changed_only_def by_path_join)
qed

end

lemma do_post_file_spec:
  assumes "change_ok F root comps t" "no_collisions F'" "dirent_json_ok 1 nd"
    and "do_post_file now F root path nd = (Some root', F')" "skip_slash path = join_path comps"
  shows "changed_only (touch_mtime F now) comps F root F' root' \<and>
    (\<exists>t' n. seaf_fs_manager_get_seafdir_by_path F' root' (join_path comps) = Inr t' \<and>
       generate_unique_filename (d_name nd) (entries t) = Some n \<and> n \<notin> d_name ` set (entries t) \<and>
       desc_by d_name (entries t') \<and>
       set (entries t') = insert (seaf_dirent_new 1 (d_id nd) (d_mode nd) n (d_mtime nd) (d_modifier nd)
         (d_size nd)) (set (entries t)))"
proof -
  have "update_recursive (post_edit False nd) (\<lambda>_. False) (touch_mtime F now) F root (join_path comps) ()
      = (Some root', (), F')"
    using assms(4,5) by (simp add: do_post_file_def do_post_file_replace_def post_file_recursive_def
        split: prod.splits)
  note new = post.update_by_path [of F root comps t F' "(False, nd)" "touch_mtime F now" "\<lambda>_. False" "()" root' "()",
      simplified, OF assms(1-3) this]
  then obtain t' where t': "seaf_fs_manager_get_seafdir_by_path F' root' (join_path comps) = Inr t'"
    "post_edit False nd (entries t) () = (Some (entries t'), ())" "entries_ok (entries t')" by blast
  then obtain n where n: "generate_unique_filename (d_name nd) (entries t) = Some n"
    "entries t' = g_list_insert_sorted compare_dirents (seaf_dirent_new 1 (d_id nd) (d_mode nd) n (d_mtime nd)
       (d_modifier nd) (d_size nd)) (entries t)"
    using assms(3) by (auto simp: post_edit_def dirent_json_ok_def split: option.splits)
  then show ?thesis using new t' generate_unique_fresh [OF n(1)] by (auto simp: entries_ok_def)
qed

text \<open>The accumulator is the one the edit of the target returned, and an edit that changed nothing saves
  nothing.\<close>

lemma update_recursive_edits:
  "update_recursive edit same touch F i path x = (ret, x', F') \<Longrightarrow>
   (\<forall>t. walk_target F i path = Some t \<longrightarrow> snd (edit (entries t) x) = x') \<and>
   (same x' \<longrightarrow> F' = F \<and> (\<forall>j. ret = Some j \<longrightarrow> j = take 40 i))"
proof (induction edit same touch F i path x arbitrary: ret x' F' rule: update_recursive.induct)
  case (1 edit same touch F i path x)
  note IH = 1(1) and run = 1(2)
  show ?case
  proof (cases "get_dir_sorted F i")
    case None
    then show ?thesis
      using run update_recursive_stuck [of F i path edit same touch x] walk_target_stuck [of F i path] by simp
  next
    case (Some olddir)
    have id: "dir_id olddir = take 40 i" by (rule get_dir_sorted_id [OF Some])
    show ?thesis
    proof (cases "path = []")
      case path: True
      show ?thesis
        using run update_recursive_leaf [OF Some, of edit same touch x] walk_target_simps(1) [OF Some] id
        by (auto simp: path split: prod.splits option.splits if_splits)
    next
      case path: False
      show ?thesis
      proof (cases "find (\<lambda>d. strcmp (d_name d) (fst (next_component path)) = 0) (entries olddir)")
        case None
        then show ?thesis
          using run path Some update_recursive_stuck [of F i path edit same touch x] walk_target_stuck [of F i path]
          by auto
      next
        case dent: (Some dent)
        obtain r1 x1 F1 where rec: "update_recursive edit same touch F (d_id dent) (snd (next_component path)) x = (r1, x1, F1)"
          by (metis prod_cases3)
        have x1: "x1 = x'" and F1: "same x' \<Longrightarrow> F' = F1 \<and> (\<forall>j. ret = Some j \<longrightarrow> j = dir_id olddir)"
          using run update_recursive_step [OF Some path dent rec]
          by (auto split: option.splits if_splits prod.splits)
        then show ?thesis
          using IH [OF Some path refl refl dent rec] walk_target_simps(2) [OF Some path dent] id by simp
      qed
    qed
  qed
qed

text \<open>C18: Posting a file or directory entry to a path of a version 1 repository, without replacing,
  yields a root under which that path has the old entries and one more, in order: the new entry
  under the unique name generated for it.  Directories elsewhere are as before, on the path only the
  entry that was followed has changed, no object was lost and every directory is still well formed.
  SHA-1 collisions are excluded.\<close>

theorem post_file_adds_entry:
  assumes "change_ok F root comps t" "no_collisions F'" "dirent_json_ok 1 nd"
    and "do_post_file now F root (CHR ''/'' # join_path comps) nd = (Some root', F')"
  shows "changed_only (touch_mtime F now) comps F root F' root' \<and>
    (\<exists>t' n. seaf_fs_manager_get_seafdir_by_path F' root' (join_path comps) = Inr t' \<and>
       generate_unique_filename (d_name nd) (entries t) = Some n \<and> n \<notin> d_name ` set (entries t) \<and>
       desc_by d_name (entries t') \<and>
       set (entries t') = insert (seaf_dirent_new 1 (d_id nd) (d_mode nd) n (d_mtime nd) (d_modifier nd)
         (d_size nd)) (set (entries t)))"
proof -
  have "comps_ok comps" using assms(1) by (simp add: change_ok_def)
  then show ?thesis by (intro do_post_file_spec [OF assms] skip_slash_join)
qed

text \<open>A list of names as the callers of \<open>del_file\<close> write it.\<close>

fun tab_join :: "string list \<Rightarrow> string" where
  "tab_join [] = []"
| "tab_join [n] = n"
| "tab_join (n # ns) = n @ CHR 0x09 # tab_join ns"

lemma del_names_join:
  "ns \<noteq> [] \<Longrightarrow> list_all (\<lambda>n. CHR 0x09 \<notin> set n) ns \<Longrightarrow> del_names (tab_join ns) = ns"
proof (induction ns rule: tab_join.induct)
  case (3 n m ns)
  have "split_on (CHR 0x09) (tab_join (m # ns)) = m # ns"
    using 3 by (cases "CHR 0x09 \<in> set (tab_join (m # ns))") (auto simp: del_names_def split_on_simple)
  then show ?case using 3 by (simp add: del_names_def split_on_append split_on_simple)
qed (auto simp: del_names_def)

lemma del_file_by_names:
  assumes "change_ok F root comps t" "no_collisions F'"
    and "do_del_file now F root (CHR ''/'' # join_path comps) names = (Some root', x, F')"
  shows "if di_deleted_num x = 0 then F' = F \<and> root' = take 40 root \<and> (\<forall>e\<in>set (entries t). d_name e \<notin> set (del_names names))
    else changed_only (touch_mtime F now) comps F root F' root' \<and>
      (\<exists>t'. seaf_fs_manager_get_seafdir_by_path F' root' (join_path comps) = Inr t' \<and>
        entries t' = filter (\<lambda>e. d_name e \<notin> set (del_names names)) (entries t) \<and>
        di_deleted_num x + length (entries t') = length (entries t))"
proof -
  let ?x = "\<lparr>di_mode = 0, di_deleted_num = 0, di_desc_file = None\<rparr>" and ?P = "\<lambda>e. d_name e \<in> set (del_names names)"
  have comps: "comps_ok comps" using assms(1) by (simp add: change_ok_def)
  have run: "update_recursive (del_edit names) (\<lambda>x. di_deleted_num x = 0) (touch_mtime F now) F root (join_path comps) ?x
      = (Some root', x, F')"
    using assms(3) comps by (simp add: do_del_file_def del_file_recursive_def skip_slash_join)
  obtain d where "get_dir F root = Some d" "lookup_dirs F d comps = Inr t"
    using assms(1) comps by (auto simp: change_ok_def by_path_join split: option.splits)
  then have target: "walk_target F root (join_path comps) = Some t"
    using walk_target_join assms(1) by (auto simp: change_ok_def)
  have edit: "del_edit names (entries t) ?x = (Some (filter (\<lambda>e. \<not> ?P e) (entries t)), x)"
    and num: "di_deleted_num x = length (filter ?P (entries t))"
    using update_recursive_edits [OF run] target del_loop_spec [of "del_names names" "entries t" ?x]
    by (auto simp: del_edit_def split: prod.splits)
  have len: "length (filter ?P (entries t)) + length (filter (\<lambda>e. \<not> ?P e) (entries t)) = length (entries t)"
    by (rule sum_length_filter_compl)
  show ?thesis
  proof (cases "di_deleted_num x = 0")
    case True
    then show ?thesis using update_recursive_edits [OF run] num by (auto simp: filter_empty_conv)
  next
    case False
    from del.update_by_path [OF assms(1,2) TrueI touch_mtime_ok run False] edit num len
    show ?thesis using False by auto
  qed
qed

text \<open>C17: Deleting names (one, or several separated by tabs) from the directory at a path yields a root
  under which the path has exactly the entries of the other names, the count returned is the number of
  entries that went, and the rest of the tree is as before; when nothing is deleted the tree is the
  old one.  A name with a tab cannot be given.\<close>

theorem del_file_removes_entries:
  assumes "change_ok F root comps t" "no_collisions F'" "ns \<noteq> []" "list_all (\<lambda>n. CHR 0x09 \<notin> set n) ns"
    and "do_del_file now F root (CHR ''/'' # join_path comps) (tab_join ns) = (Some root', x, F')"
  shows "if di_deleted_num x = 0 then F' = F \<and> root' = take 40 root \<and> (\<forall>e\<in>set (entries t). d_name e \<notin> set ns)
    else changed_only (touch_mtime F now) comps F root F' root' \<and>
      (\<exists>t'. seaf_fs_manager_get_seafdir_by_path F' root' (join_path comps) = Inr t' \<and>
        entries t' = filter (\<lambda>e. d_name e \<notin> set ns) (entries t) \<and>
        di_deleted_num x + length (entries t') = length (entries t))"
  using del_file_by_names [OF assms(1,2,5)] unfolding del_names_join [OF assms(3,4)] .

lemma lookup_entries_ok:
  "tree_ok F \<Longrightarrow> get_dir F i = Some d \<Longrightarrow> lookup_dirs F d p = Inr t \<Longrightarrow> entries_ok (entries t)"
proof (induction p arbitrary: i d)
  case Nil
  then show ?case by (auto simp: tree_ok_def)
next
  case (Cons c cs)
  then obtain x y where "get_dir F x = Some y" "lookup_dirs F y cs = Inr t"
    by (auto split: option.splits)
  then show ?case using Cons.IH Cons.prems(1) by blast
qed

lemma filter_key: "distinct (map key xs) \<Longrightarrow> x \<in> set xs \<Longrightarrow> filter (\<lambda>y. key y = key x) xs = [x]"
proof (induction xs)
  case (Cons a xs)
  then show ?case by (cases "a = x") (auto simp: filter_empty_conv image_iff)
qed simp

lemma new_dents_ok:
  "list_all is_object_id_valid ids \<Longrightarrow> length ids = length names \<Longrightarrow> length sizes = length names \<Longrightarrow>
   length (new_dents now names ids sizes) = length names \<and>
   list_all (\<lambda>d. is_object_id_valid (d_id d)) (new_dents now names ids sizes)"
  by (induction now names ids sizes rule: new_dents.induct) (auto simp: is_object_id_valid_def)

lemma add_new_entries_names:
  "add_new_entries v u False ds es names = (Some es', names') \<Longrightarrow>
   \<exists>uniq. names' = names @ uniq \<and> length uniq = length ds \<and> distinct uniq \<and>
     set uniq \<inter> d_name ` set es = {} \<and> set es \<subseteq> set es' \<and> d_name ` set es' = d_name ` set es \<union> set uniq"
proof (induction ds arbitrary: es names)
  case (Cons d ds)
  obtain n where n: "generate_unique_filename (d_name d) es = Some n"
    using Cons.prems by (auto split: option.splits)
  let ?d = "seaf_dirent_new (dir_version_from_repo_version v) (d_id d) (d_mode d) n (d_mtime d) u (d_size d)"
  have name: "d_name ?d = n" by (simp add: seaf_dirent_new_def)
  have run: "add_new_entries v u False ds (g_list_insert_sorted compare_dirents ?d es) (names @ [n]) = (Some es', names')"
    using Cons.prems n by simp
  obtain uniq where u: "names' = (names @ [n]) @ uniq" "length uniq = length ds" "distinct uniq"
    "set uniq \<inter> d_name ` set (g_list_insert_sorted compare_dirents ?d es) = {}"
    "set (g_list_insert_sorted compare_dirents ?d es) \<subseteq> set es'"
    "d_name ` set es' = d_name ` set (g_list_insert_sorted compare_dirents ?d es) \<union> set uniq"
    using Cons.IH [OF run] by blast
  show ?case
    using u generate_unique_fresh [OF n] name by (intro exI [of _ "n # uniq"]) auto
qed auto

text \<open>C16: Renaming an entry of the directory at a path to a free name yields a root under which the path
  has every other entry as it was and the renamed one, with its content, in the place its new name
  gives it; the rest of the tree is as before.\<close>

theorem rename_file_moves_entry:
  assumes "change_ok F root comps t" "no_collisions F'" "newname \<notin> d_name ` set (entries t)"
    and "e \<in> set (entries t)"
    and "do_rename_file F root (CHR ''/'' # join_path comps) (d_name e) newname = (Some root', F')"
  shows "changed_only (\<lambda>d. d) comps F root F' root' \<and>
    (\<exists>t'. seaf_fs_manager_get_seafdir_by_path F' root' (join_path comps) = Inr t' \<and>
       desc_by d_name (entries t') \<and>
       set (entries t') = insert (seaf_dirent_new 1 (d_id e) (d_mode e) newname (d_mtime e) (d_modifier e) (d_size e))
         (set (entries t) - {e}))"
proof -
  have comps: "comps_ok comps" using assms(1) by (simp add: change_ok_def)
  then have run: "update_recursive (rename_edit (d_name e) newname) (\<lambda>_. False) (\<lambda>d. d) F root (join_path comps) ()
      = (Some root', (), F')"
    using assms(5) by (simp add: do_rename_file_def rename_file_recursive_def skip_slash_join split: prod.splits)
  have "entries_ok (entries t)"
    using assms(1) comps lookup_entries_ok by (auto simp: change_ok_def by_path_join split: option.splits)
  then have t: "distinct (map d_name (entries t))" "d_version e = 1"
    using assms(4) by (auto simp: entries_ok_def desc_by_distinct list_all_iff dirent_json_ok_def)
  note new = rename.update_by_path [of F root comps t F' "(d_name e, newname)" "\<lambda>d. d" "\<lambda>_. False" "()" root' "()",
      simplified, OF assms(1-3) run]
  then obtain t' where t': "seaf_fs_manager_get_seafdir_by_path F' root' (join_path comps) = Inr t'"
    "rename_edit (d_name e) newname (entries t) () = (Some (entries t'), ())" "entries_ok (entries t')" by blast
  have one: "filter (\<lambda>d. d_name d = d_name e) (entries t) = [e]" by (rule filter_key [OF t(1) assms(4)])
  then have "entries t' = g_list_insert_sorted compare_dirents (seaf_dirent_new 1 (d_id e) (d_mode e) newname
      (d_mtime e) (d_modifier e) (d_size e)) (filter (\<lambda>d. d_name d \<noteq> d_name e) (entries t))"
    using t'(2) t(2) by (simp add: rename_edit_def rename_split_spec)
  moreover have "set (filter (\<lambda>d. d_name d \<noteq> d_name e) (entries t))
      = set (entries t) - set (filter (\<lambda>d. d_name d = d_name e) (entries t))" by auto
  then have "set (filter (\<lambda>d. d_name d \<noteq> d_name e) (entries t)) = set (entries t) - {e}"
    unfolding one by simp
  ultimately show ?thesis using new t' by (auto simp: entries_ok_def)
qed

text \<open>Putting a new version of a file over the entry of its name yields a root under which the path
  has the new entry in the place of the old one and all other entries as they were; the rest of the
  tree is as before.\<close>

theorem put_file_replaces_entry:
  assumes "change_ok F root comps t" "no_collisions F'" "dirent_json_ok 1 nd"
    and "do_put_file now F root (CHR ''/'' # join_path comps) nd = (Some root', F')"
  shows "changed_only (touch_mtime F now) comps F root F' root' \<and>
    (\<exists>t'. seaf_fs_manager_get_seafdir_by_path F' root' (join_path comps) = Inr t' \<and>
       entries t' = map (\<lambda>e. if d_name e = d_name nd then nd else e) (entries t))"
proof -
  have "comps_ok comps" using assms(1) by (simp add: change_ok_def)
  then have "update_recursive (put_edit nd) (\<lambda>_. False) (touch_mtime F now) F root (join_path comps) ()
      = (Some root', (), F')"
    using assms(4) by (simp add: do_put_file_def put_file_recursive_def skip_slash_join split: prod.splits)
  from put.update_by_path [of F root comps t F' nd "touch_mtime F now" "\<lambda>_. False" "()" root' "()",
      simplified, OF assms(1-3) this]
  show ?thesis by (auto simp: put_edit_def replace_entry_eq)
qed


section \<open>A concrete repository\<close>

text \<open>
  A library that knows the documents of two directories and hashes all others to a third id, and a
  version 1 repository that holds the first of them.
\<close>

definition dir_doc :: "dirent list \<Rightarrow> json" where
  "dir_doc es = seaf_dir_to_json \<lparr>dir_version = 1, dir_id = [], entries = es, ondisk = None\<rparr>"

text \<open>Its id and the commit the library can parse, a head with the first directory as its root.\<close>

definition pair_id :: "char \<Rightarrow> string" where
  "pair_id x = rawdata_to_hex (replicate 20 x)"

definition demo_rid :: string where "demo_rid = replicate 36 (CHR ''e'')"

definition demo_head :: commit where "demo_head = demo_a\<lparr>root_id := pair_id (CHR ''a'')\<rparr>"

text \<open>It also knows the document of a file with one byte in one block.\<close>

definition demo_file_doc :: json where
  "demo_file_doc = seafile_to_json \<lparr>sf_version = 1, file_id = [], file_size = 1, blk_sha1s = [pair_id (CHR ''c'')]\<rparr>"

definition pair_libs :: "dirent list \<Rightarrow> dirent list \<Rightarrow> libs" where
  "pair_libs es1 es2 =
     \<lparr>lib_sha1 = (\<lambda>d. replicate 20 (if d = ''1'' then CHR ''a'' else if d = ''2'' then CHR ''b''
                                    else if d = ''3'' then CHR ''d'' else if d = [] then CHR ''e'' else CHR ''c'')),
      lib_json_dumps = (\<lambda>j. if j = dir_doc es1 then ''1'' else if j = dir_doc es2 then ''2''
                            else if j = demo_file_doc then ''3'' else ''0''),
      lib_json_loadb = (\<lambda>d. if d = ''1'' then Some (json_sort_keys (dir_doc es1))
                            else if d = ''2'' then Some (json_sort_keys (dir_doc es2))
                            else if d = ''3'' then Some (json_sort_keys demo_file_doc)
                            else if d = ''c'' then Some (commit_to_json_object demo_searpc demo_head) else None),
      lib_compress = Some, lib_decompress = Some, lib_uuid_parse = (\<lambda>_. True)\<rparr>"

lemma pair_id_simps [simp]:
  "is_object_id_valid (pair_id x)" "length (pair_id x) = 40"
  "pair_id (CHR ''a'') \<noteq> EMPTY_SHA1" "pair_id (CHR ''b'') \<noteq> EMPTY_SHA1" "pair_id (CHR ''c'') \<noteq> EMPTY_SHA1"
  "pair_id (CHR ''d'') \<noteq> EMPTY_SHA1"
  "pair_id x = pair_id y \<longleftrightarrow> x = y"
proof -
  show v: "is_object_id_valid (pair_id x)" by (simp add: pair_id_def rawdata_to_hex_valid)
  show "length (pair_id x) = 40" by (simp add: pair_id_def)
  have hd: "hd (pair_id y) = hex_digits ! (byte_val y div 16)" for y
  proof -
    have "replicate 20 y = y # replicate 19 y" by (simp flip: replicate_Suc)
    then show ?thesis by (simp add: pair_id_def)
  qed
  have z: "hd EMPTY_SHA1 = CHR ''0''" by (simp add: EMPTY_SHA1_def)
  show "pair_id (CHR ''a'') \<noteq> EMPTY_SHA1" "pair_id (CHR ''b'') \<noteq> EMPTY_SHA1" "pair_id (CHR ''c'') \<noteq> EMPTY_SHA1"
    "pair_id (CHR ''d'') \<noteq> EMPTY_SHA1"
    using hd [of "CHR ''a''"] hd [of "CHR ''b''"] hd [of "CHR ''c''"] hd [of "CHR ''d''"] z by (auto simp: hex_digits_def)
  have "hex_to_rawdata 20 (pair_id w) = Some (replicate 20 w)" for w
    using hex_to_rawdata_append [of "replicate 20 w" "[]"] by (simp add: pair_id_def)
  then show "pair_id x = pair_id y \<longleftrightarrow> x = y" by (metis option.inject replicate_eq_replicate zero_neq_numeral)
qed

definition pair_view :: "dirent list \<Rightarrow> dirent list \<Rightarrow> (string \<Rightarrow> bytes option) \<Rightarrow> fs_view" where
  "pair_view es1 es2 fs = \<lparr>fv_libs = pair_libs es1 es2, fv_store = demo_store\<lparr>files := fs\<rparr>, fv_repo = demo_rid, fv_version = 1\<rparr>"

definition pair_path :: "char \<Rightarrow> string" where
  "pair_path x = id_to_path ''d'' (pair_id x) demo_rid"

definition pair_one :: "string \<Rightarrow> bytes option" where
  "pair_one = [pair_path (CHR ''a'') \<mapsto> ''1'']"

definition pair_both :: "string \<Rightarrow> bytes option" where
  "pair_both = [pair_path (CHR ''a'') \<mapsto> ''1'', pair_path (CHR ''b'') \<mapsto> ''2'']"

lemma pair_path_eq: "is_object_id_valid i \<Longrightarrow> id_to_path ''d'' i demo_rid = pair_path x \<longleftrightarrow> i = pair_id x"
  using id_to_path_inj [of i "pair_id x" "''d''" demo_rid demo_rid] id_valid_length by (auto simp: pair_path_def)

lemma pair_path_inj [simp]: "pair_path x = pair_path y \<longleftrightarrow> x = y"
  using pair_path_eq [of "pair_id x" y] by (simp add: pair_path_def)

lemma pair_read [simp]:
  "seaf_obj_store_read_obj (pair_libs es1 es2) (demo_store\<lparr>files := fs\<rparr>) demo_rid i =
     (if is_object_id_valid i then fs (id_to_path ''d'' i demo_rid) else None)"
  by (simp add: obj_store_defs is_uuid_valid_def pair_libs_def demo_store_def)

lemma pair_uuid [simp]: "is_uuid_valid (pair_libs es1 es2) r"
  by (simp add: is_uuid_valid_def pair_libs_def)

lemma pair_load [simp]:
  "load_json (pair_libs es1 es2) d =
     (if d = ''1'' then Some (json_sort_keys (dir_doc es1))
      else if d = ''2'' then Some (json_sort_keys (dir_doc es2))
      else if d = ''3'' then Some (json_sort_keys demo_file_doc)
      else if d = ''c'' then Some (commit_to_json_object demo_searpc demo_head) else None)"
  by (simp add: load_json_def pair_libs_def)

lemma file_doc_no_dir [simp]: "dir_doc es \<noteq> demo_file_doc" "demo_file_doc \<noteq> dir_doc es"
proof -
  have "json_object_get_int_member (dir_doc es) ''type'' \<noteq> json_object_get_int_member demo_file_doc ''type''"
    by (simp add: dir_doc_def demo_file_doc_def seaf_dir_to_json_def seafile_to_json_def json_object_get_int_member_def
        json_object_get_def json_object_set_int_member_def json_integer_value_def
        SEAF_METADATA_TYPE_DIR_def SEAF_METADATA_TYPE_FILE_def)
  then show "dir_doc es \<noteq> demo_file_doc" "demo_file_doc \<noteq> dir_doc es" by auto
qed

lemma pair_new:
  assumes "es \<noteq> []"
  shows "dir_id (seaf_dir_new (pair_libs es1 es2) None es 1) =
      pair_id (if dir_doc es = dir_doc es1 then CHR ''a'' else if dir_doc es = dir_doc es2 then CHR ''b'' else CHR ''c'')"
    and "ondisk (seaf_dir_new (pair_libs es1 es2) None es 1) =
      Some (if dir_doc es = dir_doc es1 then ''1'' else if dir_doc es = dir_doc es2 then ''2'' else ''0'')"
proof -
  have doc: "dir_doc es = seaf_dir_to_json (seaf_dir_new (pair_libs es1 es2) None es 1)"
    by (auto simp: dir_doc_def intro: dir_json_cong)
  show "dir_id (seaf_dir_new (pair_libs es1 es2) None es 1) =
      pair_id (if dir_doc es = dir_doc es1 then CHR ''a'' else if dir_doc es = dir_doc es2 then CHR ''b'' else CHR ''c'')"
    "ondisk (seaf_dir_new (pair_libs es1 es2) None es 1) =
      Some (if dir_doc es = dir_doc es1 then ''1'' else if dir_doc es = dir_doc es2 then ''2'' else ''0'')"
    using seaf_dir_new_json [OF assms _ doc] by (simp_all add: pair_libs_def sha1_hex_def pair_id_def)
qed

lemma dir_doc_read:
  assumes "entries_ok es" "dir_doc es = dir_doc es'"
  shows "seaf_dir_from_json_object i (json_sort_keys (dir_doc es'))
    = Some \<lparr>dir_version = 1, dir_id = take 40 i, entries = es, ondisk = None\<rparr>"
proof -
  have "seafdir_json_ok \<lparr>dir_version = 1, dir_id = [], entries = es, ondisk = None\<rparr>"
    using assms(1) by (simp add: seafdir_json_ok_def entries_ok_def)
  from seaf_dir_json_roundtrip [OF this, of i] show ?thesis
    using assms(2) by (simp add: dir_doc_def)
qed

definition pair_ok :: "dirent list \<Rightarrow> dirent list \<Rightarrow> bool" where
  "pair_ok es1 es2 \<longleftrightarrow> entries_ok es1 \<and> entries_ok es2 \<and> es1 \<noteq> [] \<and> es2 \<noteq> [] \<and> dir_doc es1 \<noteq> dir_doc es2"

text \<open>Stores that have the first directory, perhaps the second, and nothing under the third id.\<close>

definition pair_files :: "(string \<Rightarrow> bytes option) \<Rightarrow> bool" where
  "pair_files fs \<longleftrightarrow> fs (pair_path (CHR ''a'')) = Some ''1'' \<and> fs (pair_path (CHR ''b'')) \<in> {None, Some ''2''} \<and>
     fs (pair_path (CHR ''c'')) = None"

lemma pair_files_simps [simp]: "pair_files pair_one" "pair_files pair_both"
  by (simp_all add: pair_files_def pair_one_def pair_both_def)

lemma pair_get:
  assumes "entries_ok es1" "pair_files fs"
  shows "get_dir (pair_view es1 es2 fs) (pair_id (CHR ''a''))
      = Some \<lparr>dir_version = 1, dir_id = pair_id (CHR ''a''), entries = es1, ondisk = None\<rparr>"
  using dir_doc_read [OF assms(1) refl] assms(2)
  by (simp add: seaf_fs_manager_get_seafdir_def pair_view_def pair_files_def pair_path_eq pair_path_def [symmetric]
      seaf_dir_from_data_def seaf_dir_from_json_def)

lemma pair_get_dir:
  assumes "entries_ok es1"
  shows "get_dir (pair_view es1 es2 pair_one) (pair_id (CHR ''a''))
      = Some \<lparr>dir_version = 1, dir_id = pair_id (CHR ''a''), entries = es1, ondisk = None\<rparr>"
  using pair_get [OF assms] by simp

lemma pair_tree_ok:
  assumes "entries_ok es1"
  shows "tree_ok (pair_view es1 es2 pair_one)"
  unfolding tree_ok_def
proof (intro allI impI)
  fix i d assume d: "get_dir (pair_view es1 es2 pair_one) i = Some d"
  show "entries_ok (entries d)"
  proof (cases "take 40 i = EMPTY_SHA1")
    case True
    then show ?thesis using d by (auto simp: seaf_fs_manager_get_seafdir_def entries_ok_def)
  next
    case False
    then have "i = pair_id (CHR ''a'')"
      using d by (auto simp: seaf_fs_manager_get_seafdir_def pair_view_def pair_one_def pair_path_eq
          split: option.splits if_splits)
    then show ?thesis using d pair_get_dir [OF assms, of es2] assms by auto
  qed
qed

lemma pair_no_collisions_in:
  assumes fs: "pair_files fs"
  shows "no_collisions (pair_view es1 es2 fs)"
  unfolding no_collisions_def Let_def
proof (intro allI impI conjI)
  fix es :: "dirent list"
  let ?F = "pair_view es1 es2 fs" and ?i = "dir_id (seaf_dir_new (pair_libs es1 es2) None es 1)"
  assume es: "es \<noteq> [] \<and> entries_ok es"
  note new = pair_new(1) [of es es1 es2]
  have ne: "take 40 ?i \<noteq> EMPTY_SHA1" using es new by simp
  then show "take 40 (dir_id (seaf_dir_new (fv_libs ?F) None es 1)) \<noteq> EMPTY_SHA1" by (simp add: pair_view_def)
  assume "seaf_obj_store_obj_exists (fv_libs ?F) (fv_store ?F) (fv_repo ?F) (dir_id (seaf_dir_new (fv_libs ?F) None es 1))"
  then have "fs (id_to_path ''d'' ?i demo_rid) \<noteq> None"
    using seaf_store.exists_read by (auto simp: pair_view_def split: if_splits)
  then have "dir_doc es = dir_doc es1 \<or> (dir_doc es \<noteq> dir_doc es1 \<and> dir_doc es = dir_doc es2 \<and> fs (pair_path (CHR ''b'')) = Some ''2'')"
    using es new fs by (auto simp: pair_files_def pair_path_def split: if_splits)
  then show "map_option entries (get_dir ?F (dir_id (seaf_dir_new (fv_libs ?F) None es 1))) = Some es"
  proof (elim disjE conjE)
    assume doc: "dir_doc es = dir_doc es1"
    show ?thesis
      using es new dir_doc_read [of es es1] doc fs
      by (simp add: seaf_fs_manager_get_seafdir_def pair_view_def pair_files_def pair_path_def [symmetric]
          seaf_dir_from_data_def seaf_dir_from_json_def)
  next
    assume doc: "dir_doc es \<noteq> dir_doc es1" "dir_doc es = dir_doc es2" "fs (pair_path (CHR ''b'')) = Some ''2''"
    show ?thesis
      using es new dir_doc_read [of es es2] doc
      by (simp add: seaf_fs_manager_get_seafdir_def pair_view_def pair_path_def [symmetric]
          seaf_dir_from_data_def seaf_dir_from_json_def)
  qed
qed

lemma pair_no_collisions: "no_collisions (pair_view es1 es2 pair_both)"
  by (rule pair_no_collisions_in) simp

lemma pair_save_in:
  assumes "pair_ok es1 es2" "pair_files fs" "fs (pair_path (CHR ''b'')) = None"
  shows "save_entries (pair_view es1 es2 fs) es2
    = (Some (pair_id (CHR ''b'')), pair_view es1 es2 (fs(pair_path (CHR ''b'') \<mapsto> ''2'')))"
  using pair_new [of es2 es1 es2] assms
  by (auto simp: save_entries_def pair_view_def seaf_dir_save_def obj_store_defs pair_ok_def
      dir_version_from_repo_version_def pair_files_def demo_store_def
      pair_path_def [symmetric] Let_def split: prod.splits)

lemma pair_both_after: "pair_both = pair_one(pair_path (CHR ''b'') \<mapsto> ''2'')"
  by (simp add: pair_both_def pair_one_def)

lemma pair_change_ok:
  assumes "pair_ok es1 es2"
  shows "change_ok (pair_view es1 es2 pair_one) (pair_id (CHR ''a'')) []
    \<lparr>dir_version = 1, dir_id = pair_id (CHR ''a''), entries = es1, ondisk = None\<rparr>"
  using assms pair_tree_ok [of es1 es2] pair_get_dir [of es1 es2]
  by (simp add: change_ok_def pair_ok_def comps_ok_def seaf_fs_manager_get_seafdir_by_path_def pair_view_def [of es1 es2 pair_one])

lemma pair_update_in:
  assumes "pair_ok es1 es2" "pair_files fs" "fs (pair_path (CHR ''b'')) = None"
    and "edit es1 x = (Some es2, x')" "\<not> same x'"
  shows "update_recursive edit same touch (pair_view es1 es2 fs) (pair_id (CHR ''a'')) [] x
    = (Some (pair_id (CHR ''b'')), x', pair_view es1 es2 (fs(pair_path (CHR ''b'') \<mapsto> ''2'')))"
proof -
  have v: "0 < fv_version (pair_view es1 es2 fs)" by (simp add: pair_view_def)
  have ok: "entries_ok es1" using assms(1) by (simp add: pair_ok_def)
  have "get_dir_sorted (pair_view es1 es2 fs) (pair_id (CHR ''a''))
      = Some \<lparr>dir_version = 1, dir_id = pair_id (CHR ''a''), entries = es1, ondisk = None\<rparr>"
    unfolding get_dir_sorted_v1 [OF v] by (rule pair_get [OF ok assms(2)])
  from update_recursive_leaf [OF this, of edit same touch x] show ?thesis
    using assms(4,5) pair_save_in [OF assms(1-3)] by simp
qed

lemma pair_update:
  assumes "pair_ok es1 es2" "edit es1 x = (Some es2, x')" "\<not> same x'"
  shows "update_recursive edit same touch (pair_view es1 es2 pair_one) (pair_id (CHR ''a'')) [] x
    = (Some (pair_id (CHR ''b'')), x', pair_view es1 es2 pair_both)"
proof -
  have "pair_one (pair_path (CHR ''b'')) = None" by (simp add: pair_one_def)
  with assms show ?thesis unfolding pair_both_after by (intro pair_update_in) simp_all
qed

text \<open>Two files and a directory.\<close>

definition demo_f :: dirent where
  "demo_f = \<lparr>d_version = 1, d_mode = 0x81A4, d_id = replicate 40 (CHR ''a''), d_name = ''f.txt'', d_mtime = 7,
     d_modifier = Some ''u'', d_size = 3\<rparr>"

definition demo_f1 :: dirent where "demo_f1 = demo_f\<lparr>d_name := ''f (1).txt''\<rparr>"
definition demo_f2 :: dirent where "demo_f2 = demo_f\<lparr>d_id := replicate 40 (CHR ''b'')\<rparr>"
definition demo_g :: dirent where "demo_g = demo_f\<lparr>d_name := ''g.txt''\<rparr>"

lemmas demo_dirents = demo_f_def demo_f1_def demo_f2_def demo_g_def

lemma demo_dirents_ok [simp]:
  "dirent_json_ok 1 demo_f" "dirent_json_ok 1 demo_f1" "dirent_json_ok 1 demo_f2" "dirent_json_ok 1 demo_g"
  by (simp_all add: demo_dirents dirent_json_ok_def S_ISREG_def S_IFMT_def S_IFREG_def)

lemma dir_doc_inj: "entries_ok es \<Longrightarrow> entries_ok es' \<Longrightarrow> dir_doc es = dir_doc es' \<Longrightarrow> es = es'"
  using trans [OF sym [OF dir_doc_read [of es es' "[]"]] dir_doc_read [OF _ refl, of es' "[]"]] by simp

lemma demo_pairs:
  "pair_ok [demo_f] [demo_f, demo_f1]" "pair_ok [demo_g, demo_f] [demo_f]" "pair_ok [demo_f] [demo_g]"
  "pair_ok [demo_g, demo_f] [demo_g, demo_f2]"
proof -
  have ok: "entries_ok [demo_f]" "entries_ok [demo_f, demo_f1]" "entries_ok [demo_g, demo_f]" "entries_ok [demo_g]"
    "entries_ok [demo_g, demo_f2]"
    by (simp_all add: entries_ok_def) (simp_all add: demo_dirents)
  have ne: "demo_f \<noteq> demo_g" "demo_f2 \<noteq> demo_f" by (simp_all add: demo_dirents replicate_eq_replicate)
  show "pair_ok [demo_f] [demo_f, demo_f1]" "pair_ok [demo_g, demo_f] [demo_f]" "pair_ok [demo_f] [demo_g]"
    "pair_ok [demo_g, demo_f] [demo_g, demo_f2]"
    unfolding pair_ok_def
    using ok ne dir_doc_inj [OF ok(1,2)] dir_doc_inj [OF ok(3,1)] dir_doc_inj [OF ok(1,4)] dir_doc_inj [OF ok(3,5)]
    by auto
qed

lemma demo_names [simp]: "d_name demo_f = ''f.txt''" "d_name demo_f1 = ''f (1).txt''" "d_name demo_f2 = ''f.txt''"
  "d_name demo_g = ''g.txt''"
  by (simp_all add: demo_dirents)

abbreviation demo_root :: string where "demo_root \<equiv> pair_id (CHR ''a'')"

lemma demo_unique: "generate_unique_filename ''f.txt'' [demo_f] = Some ''f (1).txt''"
proof -
  have s: "split_filename ''f.txt'' = (''f'', Some ''txt'')" by (simp add: split_filename_def strrchr_split_def strchr_split_def)
  have 1: "nat_to_string 1 = ''1''" by code_simp
  have "numbered_name (''f'', Some ''txt'') 1 = ''f (1).txt''" by (simp only: numbered_name_def 1 prod.case option.case append.simps)
  then show ?thesis
    by (simp add: generate_unique_filename_def s unique_loop.simps [of _ _ "''f.txt''"] unique_loop.simps [of _ _ "''f (1).txt''"])
qed

lemma demo_new: "seaf_dirent_new (d_version demo_f) (d_id demo_f) (d_mode demo_f) n (d_mtime demo_f) (d_modifier demo_f)
    (d_size demo_f) = demo_f\<lparr>d_name := n\<rparr>"
  by (simp add: demo_f_def seaf_dirent_new_def S_ISREG_def S_IFMT_def S_IFREG_def)

theorem unique_filename_first_free_witness:
  "generate_unique_filename ''f.txt'' [demo_f] = Some ''f (1).txt'' \<and> ''f (1).txt'' \<notin> d_name ` set [demo_f] \<and>
   (\<exists>m<100. ''f (1).txt'' = candidate ''f.txt'' m \<and> (\<forall>l<m. candidate ''f.txt'' l = ''f.txt''))"
  using unique_filename_first_free [of "''f.txt''" "[demo_f]"] by (simp add: demo_unique)

theorem post_file_adds_entry_witness:
  "\<exists>t'. seaf_fs_manager_get_seafdir_by_path
      (snd (do_post_file 9 (pair_view [demo_f] [demo_f, demo_f1] pair_one) demo_root ''/'' demo_f))
      (pair_id (CHR ''b'')) [] = Inr t' \<and> set (entries t') = {demo_f1, demo_f}"
proof -
  let ?F = "pair_view [demo_f] [demo_f, demo_f1] pair_one"
  have "post_edit False demo_f [demo_f] () = (Some [demo_f, demo_f1], ())"
    by (simp add: post_edit_def demo_unique demo_new compare_dirents_def strcmp_def flip: demo_f1_def)
  from pair_update [OF demo_pairs(1), of "post_edit False demo_f" "()" "()" "\<lambda>_. False"] this
  have run: "do_post_file 9 ?F demo_root (CHR ''/'' # join_path []) demo_f
      = (Some (pair_id (CHR ''b'')), pair_view [demo_f] [demo_f, demo_f1] pair_both)"
    by (simp add: do_post_file_def do_post_file_replace_def post_file_recursive_def skip_slash_def char_at_def)
  have new: "seaf_dirent_new 1 (d_id demo_f) (d_mode demo_f) ''f (1).txt'' (d_mtime demo_f) (d_modifier demo_f)
      (d_size demo_f) = demo_f1"
    using demo_new by (simp add: demo_f1_def) (simp add: demo_f_def)
  from post_file_adds_entry [OF pair_change_ok [OF demo_pairs(1)] pair_no_collisions demo_dirents_ok(1) run]
  show ?thesis using run by (auto simp: demo_unique new)
qed

theorem del_file_removes_entries_witness:
  "\<exists>t' root' x F'. do_del_file 9 (pair_view [demo_g, demo_f] [demo_f] pair_one) demo_root ''/''
      (tab_join [''x'', ''g.txt'']) = (Some root', x, F') \<and>
     seaf_fs_manager_get_seafdir_by_path F' root' [] = Inr t' \<and> entries t' = [demo_f] \<and> di_deleted_num x = 1"
proof -
  let ?F = "pair_view [demo_g, demo_f] [demo_f] pair_one" and ?init = "\<lparr>di_mode = 0, di_deleted_num = 0, di_desc_file = None\<rparr>"
  let ?x = "count_deleted demo_g ?init" and ?ns = "[''x'', ''g.txt'']"
  have ns: "?ns \<noteq> []" "list_all (\<lambda>n. CHR 0x09 \<notin> set n) ?ns" by simp_all
  have "del_edit (tab_join ?ns) [demo_g, demo_f] ?init = (Some [demo_f], ?x)"
    unfolding del_edit_def del_names_join [OF ns] by (simp add: seaf_dirent_dup_def)
  moreover have num: "\<not> di_deleted_num ?x = 0" "di_deleted_num ?x = 1" by (simp_all add: count_deleted_def)
  ultimately have run: "do_del_file 9 ?F demo_root (CHR ''/'' # join_path []) (tab_join ?ns)
      = (Some (pair_id (CHR ''b'')), ?x, pair_view [demo_g, demo_f] [demo_f] pair_both)"
    using pair_update [OF demo_pairs(2), of "del_edit (tab_join ?ns)" ?init ?x "\<lambda>x. di_deleted_num x = 0"]
    by (simp only: do_del_file_def del_file_recursive_def) (simp add: skip_slash_def char_at_def)
  from del_file_removes_entries [OF pair_change_ok [OF demo_pairs(2)] pair_no_collisions ns run]
  show ?thesis using run num by auto
qed

theorem rename_file_moves_entry_witness:
  "\<exists>t'. seaf_fs_manager_get_seafdir_by_path
      (snd (do_rename_file (pair_view [demo_f] [demo_g] pair_one) demo_root ''/'' ''f.txt'' ''g.txt''))
      (pair_id (CHR ''b'')) [] = Inr t' \<and> set (entries t') = {demo_g}"
proof -
  let ?F = "pair_view [demo_f] [demo_g] pair_one"
  have "rename_edit ''f.txt'' ''g.txt'' [demo_f] () = (Some [demo_g], ())"
    by (simp add: rename_edit_def demo_new flip: demo_g_def)
  from pair_update [OF demo_pairs(3), of "rename_edit ''f.txt'' ''g.txt''" "()" "()" "\<lambda>_. False"] this
  have run: "do_rename_file ?F demo_root (CHR ''/'' # join_path []) (d_name demo_f) ''g.txt''
      = (Some (pair_id (CHR ''b'')), pair_view [demo_f] [demo_g] pair_both)"
    by (simp add: do_rename_file_def rename_file_recursive_def skip_slash_def char_at_def)
  have new: "seaf_dirent_new 1 (d_id demo_f) (d_mode demo_f) ''g.txt'' (d_mtime demo_f) (d_modifier demo_f)
      (d_size demo_f) = demo_g"
    using demo_new by (simp add: demo_g_def) (simp add: demo_f_def)
  from rename_file_moves_entry [OF pair_change_ok [OF demo_pairs(3)] pair_no_collisions _ _ run]
  show ?thesis using run by (auto simp: new)
qed

theorem put_file_replaces_entry_witness:
  "\<exists>t'. seaf_fs_manager_get_seafdir_by_path
      (snd (do_put_file 9 (pair_view [demo_g, demo_f] [demo_g, demo_f2] pair_one) demo_root ''/'' demo_f2))
      (pair_id (CHR ''b'')) [] = Inr t' \<and> entries t' = [demo_g, demo_f2]"
proof -
  let ?F = "pair_view [demo_g, demo_f] [demo_g, demo_f2] pair_one"
  have "put_edit demo_f2 [demo_g, demo_f] () = (Some [demo_g, demo_f2], ())"
    by (simp add: put_edit_def replace_entry_eq)
  from pair_update [OF demo_pairs(4), of "put_edit demo_f2" "()" "()" "\<lambda>_. False"] this
  have run: "do_put_file 9 ?F demo_root (CHR ''/'' # join_path []) demo_f2
      = (Some (pair_id (CHR ''b'')), pair_view [demo_g, demo_f] [demo_g, demo_f2] pair_both)"
    by (simp add: do_put_file_def put_file_recursive_def skip_slash_def char_at_def)
  from put_file_replaces_entry [OF pair_change_ok [OF demo_pairs(4)] pair_no_collisions demo_dirents_ok(3) run]
  show ?thesis using run by (auto simp: demo_names)
qed


end
