(* ===== verification/RepoCommit.thy ===== *)
theory RepoCommit
  imports RepoOp
begin

text \<open>
  From a changed tree to a new head (\<open>server/repo-op.c\<close>): \<open>gen_new_commit\<close> commits a root, merges it with
  what others committed meanwhile and moves the master branch by compare-and-set; the file operations
  of the server check their arguments, change the tree (\<open>RepoOp\<close>) and commit it.  The result None is
  that a fuel ran out (the merge's depth, the walk of the history).
\<close>

section \<open>The environment of an operation\<close>

text \<open>
  GLib's path functions, the printed times, the fuel of the walks, the uninitialised time of the merge,
  and what other clients do: \<open>oe_others k\<close> is their effect at the \<open>k\<close>-th point where the operation can be
  interrupted.
\<close>

record op_env =
  oe_dirname :: "string \<Rightarrow> string"
  oe_basename :: "string \<Rightarrow> string"
  oe_strftime :: "u64 \<Rightarrow> string"
  oe_time_str :: "u64 \<Rightarrow> string"
  oe_fuel :: nat
  oe_mtime :: u64
  oe_others :: "nat \<Rightarrow> session \<Rightarrow> session"

definition SEAF_PATH_MAX :: nat where "SEAF_PATH_MAX = 4096"

text \<open>\<open>snprintf\<close> into a buffer of that size.\<close>

definition path_buf :: "string \<Rightarrow> string" where
  "path_buf s = take (SEAF_PATH_MAX - 1) s"

definition quoted :: "string \<Rightarrow> string" where
  "quoted s = [CHR 0x22] @ s @ [CHR 0x22]"

definition with_fs :: "session \<Rightarrow> fs_view \<Rightarrow> session" where
  "with_fs S F = S\<lparr>ss_fs := fv_store F\<rparr>"

definition with_event :: "session \<Rightarrow> session_event \<Rightarrow> session" where
  "with_event S e = S\<lparr>ss_events := e # ss_events S\<rparr>"

section \<open>Diffs of commits\<close>

definition diff_commits ::
    "nat \<Rightarrow> session \<Rightarrow> commit \<Rightarrow> commit \<Rightarrow> diff_entry list \<Rightarrow> bool \<Rightarrow> (int \<times> diff_entry list) option" where
  "diff_commits n S commit1 commit2 results fold_dir_diff =
     (case seaf_repo_manager_get_repo S (repo_id commit1) of
        None \<Rightarrow> Some (-1, results)
      | Some r \<Rightarrow>
          (case diff_trees n (fs_of S r) [root_id commit1, root_id commit2] (twoway_options fold_dir_diff) results of
             None \<Rightarrow> None
           | Some (_, results') \<Rightarrow> Some (0, diff_resolve_renames results')))"

definition diff_merge ::
    "nat \<Rightarrow> session \<Rightarrow> commit \<Rightarrow> diff_entry list \<Rightarrow> (int \<times> diff_entry list) option" where
  "diff_merge n S merge results =
     (if results \<noteq> [] then Some (-1, results)
      else (case (parent_id merge, second_parent_id merge) of
              (Some p1, Some p2) \<Rightarrow>
                (case seaf_repo_manager_get_repo S (repo_id merge) of
                   None \<Rightarrow> Some (-1, results)
                 | Some r \<Rightarrow>
                     (case seaf_commit_manager_get_commit (commits_of S (rp_id r)) p1 of
                        None \<Rightarrow> Some (-1, results)
                      | Some parent1 \<Rightarrow>
                          (case seaf_commit_manager_get_commit (commits_of S (rp_id r)) p2 of
                             None \<Rightarrow> Some (-1, results)
                           | Some parent2 \<Rightarrow>
                               (case diff_trees n (fs_of S r) [root_id merge, root_id parent1, root_id parent2]
                                       threeway_options results of
                                  None \<Rightarrow> None
                                | Some (ret, results') \<Rightarrow> Some (ret, diff_resolve_renames results')))))
            | _ \<Rightarrow> Some (-1, results)))"

text \<open>The inner None is the NULL description of an empty diff.\<close>

definition gen_merge_description ::
    "nat \<Rightarrow> session \<Rightarrow> repo \<Rightarrow> string \<Rightarrow> string \<Rightarrow> string \<Rightarrow> string option option" where
  "gen_merge_description n S r merged_root p1_root p2_root =
     (case diff_merge_roots n (fs_of S r) merged_root p1_root p2_root [] of
        None \<Rightarrow> None
      | Some (_, results) \<Rightarrow> Some (diff_results_to_description results))"

definition gen_commit_description :: "nat \<Rightarrow> session \<Rightarrow> repo \<Rightarrow> string \<Rightarrow> string \<Rightarrow> string option option" where
  "gen_commit_description n S r root parent_root =
     (case diff_commit_roots n (fs_of S r) parent_root root [] True of
        None \<Rightarrow> None
      | Some (_, results) \<Rightarrow> Some (diff_results_to_description results))"

section \<open>Making a commit the head\<close>

definition add_commit :: "session \<Rightarrow> commit \<Rightarrow> int \<times> session" where
  "add_commit S c =
     (case seaf_commit_manager_add_commit (commits_of S (repo_id c)) c of
        (ret, V) \<Rightarrow> (ret, S\<lparr>ss_commits := cv_store V\<rparr>))"

definition auto_merge :: string where "auto_merge = ''Auto merge by system''"

definition merge_opts :: "op_env \<Rightarrow> session \<Rightarrow> string \<Rightarrow> commit \<Rightarrow> unit merge_options" where
  "merge_opts E S repo new_commit =
     \<lparr>mo_do_merge = True, mo_callback = (\<lambda>_ _ u. (0, u)), mo_commits = commits_of S (take 36 repo),
      mo_remote_head = take 40 (commit_id new_commit), mo_dirname = oe_dirname E, mo_basename = oe_basename E,
      mo_strftime = oe_strftime E, mo_fuel = oe_fuel E, mo_mtime = oe_mtime E\<rparr>"

definition merge_commit_for ::
    "session \<Rightarrow> repo \<Rightarrow> unit merge_state \<Rightarrow> commit \<Rightarrow> commit \<Rightarrow> string \<Rightarrow> string \<Rightarrow> commit" where
  "merge_commit_for S r st current_head new_commit user description =
     (let c = (seaf_commit_new (ss_libs S) (ss_now S) None (rp_id r) (ms_root st) (Some user) EMPTY_SHA1
                 description 0)
              \<lparr>parent_id := Some (commit_id current_head), second_parent_id := Some (commit_id new_commit),
               new_merge := True\<rparr>;
          c = (if ms_conflict st then c\<lparr>co_conflict := True\<rparr> else c)
      in seaf_repo_to_commit r c)"

text \<open>
  What is to become the head when the head is \<open>current_head\<close>: the new commit when it was made on top of
  it, a merge commit otherwise.  The inner None is a failure.
\<close>

definition merged_with_head ::
    "op_env \<Rightarrow> session \<Rightarrow> string \<Rightarrow> repo \<Rightarrow> commit \<Rightarrow> commit \<Rightarrow> commit \<Rightarrow> string \<Rightarrow> string
     \<Rightarrow> (commit option \<times> session) option" where
  "merged_with_head E S repo r base new_commit current_head new_root user =
     (if strcmp (commit_id base) (commit_id current_head) = 0 then Some (Some new_commit, S)
      else
        (case seaf_merge_trees (oe_fuel E) (merge_opts E S repo new_commit)
                [root_id base, root_id current_head, new_root]
                \<lparr>ms_view = fs_of S r, ms_root = [], ms_visit_dirs = 0, ms_conflict = False, ms_data = ()\<rparr> of
           None \<Rightarrow> None
         | Some (rc, st) \<Rightarrow>
             (let S1 = with_fs S (ms_view st) in
              if rc < 0 then Some (None, S1)
              else (case (if \<not> ms_conflict st then Some auto_merge
                          else (case gen_merge_description (oe_fuel E) S1 r (ms_root st) (root_id current_head) new_root of
                                  None \<Rightarrow> None
                                | Some d \<Rightarrow> Some (case d of None \<Rightarrow> auto_merge | Some s \<Rightarrow> s))) of
                      None \<Rightarrow> None
                    | Some description \<Rightarrow>
                        (let merged_commit = merge_commit_for S1 r st current_head new_commit user description in
                         case add_commit S1 merged_commit of
                           (ret, S2) \<Rightarrow> Some (if ret < 0 then None else Some merged_commit, S2))))))"

definition MAX_RETRY_COUNT :: nat where "MAX_RETRY_COUNT = 3"

text \<open>
  The loop of \<open>gen_new_commit\<close> with the number of retries left.  Others may run before the
  compare-and-set and during the sleep after it failed.
\<close>

fun commit_retry ::
    "nat \<Rightarrow> op_env \<Rightarrow> session \<Rightarrow> string \<Rightarrow> repo \<Rightarrow> commit \<Rightarrow> commit \<Rightarrow> string \<Rightarrow> string
     \<Rightarrow> ((seaf_error + commit) \<times> session) option" where
  "commit_retry retries E S repo r base new_commit new_root user =
     (case seaf_commit_manager_get_commit (commits_of S (rp_id r)) (br_commit_id (rp_head r)) of
        None \<Rightarrow> Some (Inl SEAF_ERR_GENERAL, S)
      | Some current_head \<Rightarrow>
          (case merged_with_head E S repo r base new_commit current_head new_root user of
             None \<Rightarrow> None
           | Some (None, S1) \<Rightarrow> Some (Inl SEAF_ERR_GENERAL, S1)
           | Some (Some merged_commit, S1) \<Rightarrow>
               (let S2 = oe_others E (2 * retries + 1) S1 in
                case seaf_branch_manager_test_and_update_branch (ss_branches S2)
                       (seaf_branch_set_commit (rp_head r) (commit_id merged_commit)) (commit_id current_head) of
                  (ret, db) \<Rightarrow>
                    (let S3 = S2\<lparr>ss_branches := db\<rparr> in
                     if \<not> ret < 0 then Some (Inr merged_commit, S3)
                     else (case retries of
                             0 \<Rightarrow> Some (Inl SEAF_ERR_GENERAL, S3)
                           | Suc retries' \<Rightarrow>
                               (let S4 = oe_others E (2 * retries) S3 in
                                case seaf_repo_manager_get_repo S4 repo of
                                  None \<Rightarrow> Some (Inl SEAF_ERR_GENERAL, S4)
                                | Some r' \<Rightarrow>
                                    commit_retry retries' E S4 repo r' base new_commit new_root user))))))"

declare commit_retry.simps [simp del]

text \<open>The result is the commit that became the head; its id is \<open>*new_commit_id\<close>.\<close>

definition new_commit_for :: "session \<Rightarrow> repo \<Rightarrow> commit \<Rightarrow> string \<Rightarrow> string \<Rightarrow> string \<Rightarrow> commit" where
  "new_commit_for S r base new_root user description =
     seaf_repo_to_commit r
       ((seaf_commit_new (ss_libs S) (ss_now S) None (rp_id r) new_root (Some user) EMPTY_SHA1 description 0)
        \<lparr>parent_id := Some (commit_id base)\<rparr>)"

definition gen_new_commit ::
    "op_env \<Rightarrow> session \<Rightarrow> string \<Rightarrow> commit \<Rightarrow> string \<Rightarrow> string \<Rightarrow> string
     \<Rightarrow> ((seaf_error + commit) \<times> session) option" where
  "gen_new_commit E S repo base new_root user description =
     (case seaf_repo_manager_get_repo S repo of
        None \<Rightarrow> Some (Inl SEAF_ERR_GENERAL, S)
      | Some r \<Rightarrow>
          (let new_commit = new_commit_for S r base new_root user description in
           case add_commit S new_commit of
             (ret, S1) \<Rightarrow>
               if ret < 0 then Some (Inl SEAF_ERR_GENERAL, S1)
               else commit_retry MAX_RETRY_COUNT E S1 repo r base new_commit new_root user))"

section \<open>Common parts of the operations\<close>

text \<open>
  The result of an operation: a failure, with the code it put into its \<open>GError\<close> or None when it set
  none, or the value of a success; with the state after it.
\<close>

type_synonym 'a op_result = "((seaf_error option + 'a) \<times> session) option"

definition fails :: "seaf_error \<Rightarrow> session \<Rightarrow> 'a op_result" where
  "fails e S = Some (Inl (Some e), S)"

definition get_head_commit :: "session \<Rightarrow> repo \<Rightarrow> commit option" where
  "get_head_commit S r = seaf_commit_manager_get_commit (commits_of S (rp_id r)) (br_commit_id (rp_head r))"

text \<open>\<open>GET_REPO_OR_FAIL\<close> and \<open>GET_COMMIT_OR_FAIL\<close>; the commit is the head or the one asked for.\<close>

definition with_repo :: "session \<Rightarrow> string \<Rightarrow> string option \<Rightarrow> (repo \<Rightarrow> commit \<Rightarrow> 'a op_result) \<Rightarrow> 'a op_result" where
  "with_repo S repo head k =
     (case seaf_repo_manager_get_repo S repo of
        None \<Rightarrow> fails SEAF_ERR_BAD_ARGS S
      | Some r \<Rightarrow>
          (case seaf_commit_manager_get_commit (commits_of S (rp_id r))
                  (case head of None \<Rightarrow> br_commit_id (rp_head r) | Some h \<Rightarrow> h) of
             None \<Rightarrow> fails SEAF_ERR_BAD_ARGS S
           | Some c \<Rightarrow> k r c))"

text \<open>The end that the operations share: fail without a new root, commit it, merge virtual repositories.\<close>

definition commit_root ::
    "op_env \<Rightarrow> session \<Rightarrow> string \<Rightarrow> commit \<Rightarrow> seaf_error \<Rightarrow> string option \<times> fs_view \<Rightarrow> string \<Rightarrow> string \<Rightarrow> unit op_result"
    where
  "commit_root E S repo head err changed user description =
     (case changed of
        (None, F) \<Rightarrow> fails err (with_fs S F)
      | (Some root, F) \<Rightarrow>
          (case gen_new_commit E (with_fs S F) repo head root user description of
             None \<Rightarrow> None
           | Some (Inl e, S') \<Rightarrow> fails e S'
           | Some (Inr _, S') \<Rightarrow> Some (Inr (), with_event S' (MERGE_VIRTUAL_REPO repo))))"

definition and_repo_size :: "string \<Rightarrow> 'a op_result \<Rightarrow> 'a op_result" where
  "and_repo_size repo res =
     (case res of
        Some (Inr v, S) \<Rightarrow> Some (Inr v, with_event S (COMPUTE_REPO_SIZE repo))
      | _ \<Rightarrow> res)"

definition has_double_slash :: "string \<Rightarrow> bool" where
  "has_double_slash p = list_ex (\<lambda>i. take 2 (drop i p) = ''//'') [0..<length p]"

section \<open>The file operations\<close>

definition seaf_repo_manager_post_dir ::
    "op_env \<Rightarrow> session \<Rightarrow> string \<Rightarrow> string \<Rightarrow> string \<Rightarrow> string \<Rightarrow> unit op_result" where
  "seaf_repo_manager_post_dir E S repo parent_dir new_dir_name user =
     with_repo S repo None (\<lambda>r head.
       let canon_path = get_canonical_path parent_dir in
       if should_ignore_file S new_dir_name then fails SEAF_ERR_BAD_ARGS S
       else if check_file_exists (fs_of S r) (root_id head) canon_path new_dir_name \<noteq> None
       then fails SEAF_ERR_BAD_ARGS S
       else
         commit_root E S repo head SEAF_ERR_GENERAL
           (do_post_file (ss_now S) (fs_of S r) (root_id head) canon_path
              (seaf_dirent_new (dir_version_from_repo_version (rp_version r)) EMPTY_SHA1 S_IFDIR new_dir_name
                 (ss_now S) None (-1)))
           user (path_buf (''Added directory '' @ quoted new_dir_name)))"

definition seaf_repo_manager_post_empty_file ::
    "op_env \<Rightarrow> session \<Rightarrow> string \<Rightarrow> string \<Rightarrow> string \<Rightarrow> string \<Rightarrow> unit op_result" where
  "seaf_repo_manager_post_empty_file E S repo parent_dir new_file_name user =
     and_repo_size repo (with_repo S repo None (\<lambda>r head.
       let canon_path = get_canonical_path parent_dir in
       if should_ignore_file S new_file_name then fails SEAF_ERR_BAD_ARGS S
       else if check_file_exists (fs_of S r) (root_id head) canon_path new_file_name \<noteq> None
       then fails SEAF_ERR_BAD_ARGS S
       else
         commit_root E S repo head SEAF_ERR_GENERAL
           (do_post_file (ss_now S) (fs_of S r) (root_id head) canon_path
              (seaf_dirent_new (dir_version_from_repo_version (rp_version r)) EMPTY_SHA1 STD_FILE_MODE
                 new_file_name (ss_now S) (Some user) 0))
           user (path_buf (''Added '' @ quoted new_file_name))))"

text \<open>The names given to the files are returned; \<open>format_json_ret\<close> prints them.\<close>

definition post_files_and_gen_commit ::
    "op_env \<Rightarrow> session \<Rightarrow> string list \<Rightarrow> repo \<Rightarrow> string \<Rightarrow> bool \<Rightarrow> string \<Rightarrow> string list \<Rightarrow> u64 list
     \<Rightarrow> string list op_result" where
  "post_files_and_gen_commit E S filenames r user replace_existed canon_path id_list sizes =
     (case get_head_commit S r of
        None \<Rightarrow> fails SEAF_ERR_BAD_ARGS S
      | Some head \<Rightarrow>
          (case do_post_multi_files (ss_now S) (fs_of S r) (root_id head) canon_path filenames id_list sizes
                  (Some user) replace_existed of
             (root, names, F) \<Rightarrow>
               (case commit_root E S (rp_id r) head SEAF_ERR_INTERNAL (root, F) user
                       (if length filenames > 1
                        then ''Added '' @ quoted (hd filenames) @ '' and '' @ nat_to_string (length filenames - 1) @ '' more files.''
                        else ''Added '' @ quoted (hd filenames) @ ''.'') of
                  None \<Rightarrow> None
                | Some (Inl e, S') \<Rightarrow> Some (Inl e, S')
                | Some (Inr _, S') \<Rightarrow> Some (Inr names, with_event S' (COMPUTE_REPO_SIZE (rp_id r))))))"

definition seaf_repo_manager_del_file ::
    "op_env \<Rightarrow> session \<Rightarrow> string \<Rightarrow> string \<Rightarrow> string \<Rightarrow> string \<Rightarrow> unit op_result" where
  "seaf_repo_manager_del_file E S repo parent_dir file_name user =
     and_repo_size repo (with_repo S repo None (\<lambda>r head.
       let canon_path = get_canonical_path parent_dir in
       case seaf_fs_manager_get_seafdir_by_path (fs_of S r) (root_id head) canon_path of
         Inl _ \<Rightarrow> Some (Inl None, S)
       | Inr _ \<Rightarrow>
           (case do_del_file (ss_now S) (fs_of S r) (root_id head) canon_path file_name of
              (None, _, F) \<Rightarrow> fails SEAF_ERR_GENERAL (with_fs S F)
            | (Some root, x, F) \<Rightarrow>
                if di_deleted_num x = 0 then Some (Inr (), with_fs S F)
                else
                  commit_root E S repo head SEAF_ERR_GENERAL (Some root, F) user
                    (let first = quoted (case di_desc_file x of None \<Rightarrow> ''(null)'' | Some s \<Rightarrow> s) in
                     path_buf
                       (if di_deleted_num x > 1
                        then ''Deleted '' @ first @ '' and '' @ nat_to_string (di_deleted_num x - 1) @ '' more files''
                        else if S_ISDIR (di_mode x) then ''Removed directory '' @ first
                        else ''Deleted '' @ first)))))"

definition seaf_repo_manager_rename_file ::
    "op_env \<Rightarrow> session \<Rightarrow> string \<Rightarrow> string \<Rightarrow> string \<Rightarrow> string \<Rightarrow> string \<Rightarrow> unit op_result" where
  "seaf_repo_manager_rename_file E S repo parent_dir oldname newname user =
     (if strcmp oldname newname = 0 then Some (Inr (), S)
      else with_repo S repo None (\<lambda>r head.
        let canon_path = get_canonical_path parent_dir in
        if should_ignore_file S newname then fails SEAF_ERR_BAD_ARGS S
        else (case check_file_exists (fs_of S r) (root_id head) canon_path oldname of
                None \<Rightarrow> fails SEAF_ERR_BAD_ARGS S
              | Some mode \<Rightarrow>
                  if check_file_exists (fs_of S r) (root_id head) canon_path newname \<noteq> None
                  then fails SEAF_ERR_BAD_ARGS S
                  else
                    commit_root E S repo head SEAF_ERR_BAD_ARGS
                      (do_rename_file (fs_of S r) (root_id head) canon_path oldname newname) user
                      (path_buf (if S_ISDIR mode then ''Renamed directory '' @ quoted oldname
                                 else ''Renamed '' @ quoted oldname)))))"

section \<open>The branch moves only by a merge of its head\<close>

lemma with_fs_simps [simp]:
  "ss_libs (with_fs S F) = ss_libs S" "ss_branches (with_fs S F) = ss_branches S"
  "ss_commits (with_fs S F) = ss_commits S" "ss_fs (with_fs S F) = fv_store F" "ss_now (with_fs S F) = ss_now S"
  "ss_blocks (with_fs S F) = ss_blocks S" "ss_searpc (with_fs S F) = ss_searpc S" "ss_repos (with_fs S F) = ss_repos S" "ss_virtual (with_fs S F) = ss_virtual S" "ss_owners (with_fs S F) = ss_owners S"
  "ss_sizes (with_fs S F) = ss_sizes S" "ss_counts (with_fs S F) = ss_counts S" "ss_fails (with_fs S F) = ss_fails S"
  by (simp_all add: with_fs_def)

lemma with_event_simps [simp]:
  "ss_branches (with_event S e) = ss_branches S" "ss_fs (with_event S e) = ss_fs S" "ss_commits (with_event S e) = ss_commits S"
  by (simp_all add: with_event_def)

lemma add_commit_frame:
  "add_commit S c = (ret, S') \<Longrightarrow> S' = S\<lparr>ss_commits := ss_commits S'\<rparr>"
  by (auto simp: add_commit_def split: prod.splits)

lemma add_commit_simps:
  assumes "add_commit S c = (ret, S')"
  shows "ss_libs S' = ss_libs S" "ss_branches S' = ss_branches S" "ss_fs S' = ss_fs S" "ss_blocks S' = ss_blocks S"
  using add_commit_frame [OF assms] by (metis session.select_convs session.surjective session.update_convs)+

lemma seaf_repo_to_commit_simps [simp]:
  "commit_id (seaf_repo_to_commit r c) = commit_id c" "parent_id (seaf_repo_to_commit r c) = parent_id c"
  "second_parent_id (seaf_repo_to_commit r c) = second_parent_id c" "root_id (seaf_repo_to_commit r c) = root_id c"
  "new_merge (seaf_repo_to_commit r c) = new_merge c" "repo_id (seaf_repo_to_commit r c) = repo_id c"
  by (simp_all add: seaf_repo_to_commit_def Let_def)

lemma seaf_commit_new_simps [simp]:
  "root_id (seaf_commit_new L now None repo root u v d t) = take 40 root"
  "repo_id (seaf_commit_new L now None repo root u v d t) = take 36 repo"
  by (simp_all add: seaf_commit_new_def compute_commit_id_def Let_def)

definition sha1_ok :: "libs \<Rightarrow> bool" where
  "sha1_ok L \<longleftrightarrow> (\<forall>d. length (lib_sha1 L d) = 20)"

lemma new_commit_id:
  assumes "sha1_ok L"
  shows "is_object_id_valid (commit_id (seaf_commit_new L now None repo root u v d t))"
  using assms sha1_hex_valid by (simp add: seaf_commit_new_def compute_commit_id_def Let_def sha1_ok_def)

lemma get_repo_head:
  "seaf_repo_manager_get_repo S i = Some r \<Longrightarrow> rp_id r = take 36 i \<and> key_of (rp_head r) = (take 36 i, ''master'')"
  by (auto simp: seaf_repo_manager_get_repo_def get_repo_from_db_def load_repo_def seaf_repo_from_commit_def
      seaf_repo_new_def seaf_branch_new_def key_of_def Let_def split: if_splits option.splits)

text \<open>A candidate for the head: the new commit on top of the head, or the merge of both.\<close>

definition follows :: "commit \<Rightarrow> commit \<Rightarrow> commit \<Rightarrow> string \<Rightarrow> bool" where
  "follows base new_commit m old \<longleftrightarrow> parent_id m = Some old \<and>
     (if old = commit_id base then m = new_commit
      else second_parent_id m = Some (commit_id new_commit) \<and> new_merge m)"

lemma merge_commit_for_simps [simp]:
  "parent_id (merge_commit_for S r st h c u d) = Some (commit_id h)"
  "second_parent_id (merge_commit_for S r st h c u d) = Some (commit_id c)"
  "new_merge (merge_commit_for S r st h c u d)"
  "root_id (merge_commit_for S r st h c u d) = take 40 (ms_root st)"
  "repo_id (merge_commit_for S r st h c u d) = take 36 (rp_id r)"
  by (simp_all add: merge_commit_for_def Let_def)

lemma merge_commit_for_id:
  "sha1_ok (ss_libs S) \<Longrightarrow> is_object_id_valid (commit_id (merge_commit_for S r st h c u d))"
  using new_commit_id [of "ss_libs S"] by (simp add: merge_commit_for_def Let_def)

lemma merged_with_head_cases:
  assumes "merged_with_head E S repo r base new_commit current_head new_root user = Some (Some m, S1)"
  obtains "commit_id base = commit_id current_head" "m = new_commit" "S1 = S"
    | st d ret rc where "commit_id base \<noteq> commit_id current_head"
        "m = merge_commit_for (with_fs S (ms_view st)) r st current_head new_commit user d"
        "add_commit (with_fs S (ms_view st)) m = (ret, S1)"
        "seaf_merge_trees (oe_fuel E) (merge_opts E S repo new_commit) [root_id base, root_id current_head, new_root]
           \<lparr>ms_view = fs_of S r, ms_root = [], ms_visit_dirs = 0, ms_conflict = False, ms_data = ()\<rparr> = Some (rc, st)"
        "\<not> rc < 0"
proof (cases "commit_id base = commit_id current_head")
  case True
  then show ?thesis using assms that(1) by (simp add: merged_with_head_def)
next
  case False
  obtain rc st where merge: "seaf_merge_trees (oe_fuel E) (merge_opts E S repo new_commit)
      [root_id base, root_id current_head, new_root]
      \<lparr>ms_view = fs_of S r, ms_root = [], ms_visit_dirs = 0, ms_conflict = False, ms_data = ()\<rparr> = Some (rc, st)"
    using assms False by (auto simp: merged_with_head_def split: option.splits)
  have rc: "\<not> rc < 0" using assms False merge by (auto simp: merged_with_head_def Let_def)
  then obtain d where "(case add_commit (with_fs S (ms_view st))
        (merge_commit_for (with_fs S (ms_view st)) r st current_head new_commit user d) of
        (ret, S2) \<Rightarrow> Some (if ret < 0 then None
          else Some (merge_commit_for (with_fs S (ms_view st)) r st current_head new_commit user d), S2)) = Some (Some m, S1)"
    using assms False merge by (simp add: merged_with_head_def Let_def split: option.splits)
  then show ?thesis using that(2) [OF False _ _ merge rc] by (auto split: prod.splits if_splits)
qed

lemma merged_with_head_follows:
  assumes "merged_with_head E S repo r base new_commit current_head new_root user = Some (Some m, S1)"
    and "parent_id new_commit = Some (commit_id base)" "length (commit_id new_commit) = 40" "sha1_ok (ss_libs S)"
  shows "follows base new_commit m (commit_id current_head) \<and> length (commit_id m) = 40 \<and>
    ss_libs S1 = ss_libs S \<and> ss_branches S1 = ss_branches S"
  using assms(1)
proof (cases rule: merged_with_head_cases)
  case 1
  then show ?thesis using assms by (simp add: follows_def)
next
  case (2 st d ret rc)
  have "is_object_id_valid (commit_id m)" unfolding 2(2) by (rule merge_commit_for_id) (simp add: assms(4))
  then show ?thesis
    using 2(1) add_commit_simps [OF 2(3)] by (simp add: follows_def 2(2) is_object_id_valid_def)
qed

definition others_keep_libs :: "op_env \<Rightarrow> bool" where
  "others_keep_libs E \<longleftrightarrow> (\<forall>k T. ss_libs (oe_others E k T) = ss_libs T)"

text \<open>One round of the loop: it ended with the head moved, or the next round did.\<close>

lemma commit_retry_cases:
  assumes "commit_retry n E S repo r base new_commit new_root user = Some (Inr m, S')"
  obtains head S1 T db where "get_head_commit S r = Some head"
      "merged_with_head E S repo r base new_commit head new_root user = Some (Some m, S1)"
      "T = oe_others E (2 * n + 1) S1"
      "seaf_branch_manager_test_and_update_branch (ss_branches T) (seaf_branch_set_commit (rp_head r) (commit_id m))
         (commit_id head) = (0, db)" "S' = T\<lparr>ss_branches := db\<rparr>"
    | k head m1 S1 T db r' where "n = Suc k" "get_head_commit S r = Some head"
      "merged_with_head E S repo r base new_commit head new_root user = Some (Some m1, S1)"
      "T = oe_others E (2 * n) ((oe_others E (2 * n + 1) S1)\<lparr>ss_branches := db\<rparr>)"
      "seaf_repo_manager_get_repo T repo = Some r'"
      "commit_retry k E T repo r' base new_commit new_root user = Some (Inr m, S')"
proof -
  note run = assms [unfolded commit_retry.simps [of n] get_head_commit_def [symmetric]]
  obtain head where head: "get_head_commit S r = Some head" using run by (auto split: option.splits)
  obtain m1 S1 where m1: "merged_with_head E S repo r base new_commit head new_root user = Some (Some m1, S1)"
    using run head by (auto split: option.splits)
  let ?T = "oe_others E (2 * n + 1) S1"
  obtain e db where cas: "seaf_branch_manager_test_and_update_branch (ss_branches ?T)
      (seaf_branch_set_commit (rp_head r) (commit_id m1)) (commit_id head) = (e, db)" by fastforce
  have e: "e < 0 \<or> e = 0" using branch_cas.cas_failure [OF cas [unfolded head_cas_test_and_update]] by blast
  show ?thesis
  proof (cases "e < 0")
    case False
    then have "e = 0" "m1 = m" "S' = ?T\<lparr>ss_branches := db\<rparr>"
      using run head m1 cas e by (simp_all add: Let_def)
    then show ?thesis using that(1) head m1 cas by blast
  next
    case True
    then obtain k where k: "n = Suc k" using run head m1 cas by (cases n) (simp_all add: Let_def)
    let ?T2 = "oe_others E (2 * n) (?T\<lparr>ss_branches := db\<rparr>)"
    obtain r' where r': "seaf_repo_manager_get_repo ?T2 repo = Some r'"
      using run head m1 cas True by (cases "seaf_repo_manager_get_repo ?T2 repo") (simp_all add: Let_def k)
    have "commit_retry k E ?T2 repo r' base new_commit new_root user = Some (Inr m, S')"
      using run head m1 cas True r' by (simp add: Let_def k)
    then show ?thesis by (rule that(2) [OF k head m1 refl r'])
  qed
qed

lemma head_commit_id: "get_head_commit S r = Some h \<Longrightarrow> length (commit_id h) = 40"
  using get_commit_id get_commit_length by (auto simp: get_head_commit_def)

lemma set_commit_cas:
  "seaf_branch_manager_test_and_update_branch db (seaf_branch_set_commit b c) old = head_cas (key_of b) db old (take 40 c)"
  by (simp add: head_cas_test_and_update seaf_branch_set_commit_def key_of_def)

lemma commit_retry_follows:
  assumes "commit_retry n E S repo r base new_commit new_root user = Some (Inr m, S')"
    and "seaf_repo_manager_get_repo S0 repo = Some r" "sha1_ok (ss_libs S)"
    and new: "parent_id new_commit = Some (commit_id base)" "length (commit_id new_commit) = 40"
    and E: "others_keep_libs E"
  shows "\<exists>T. follows base new_commit m (head_cell (ss_branches T) (take 36 repo, ''master'')) \<and>
    S' = T\<lparr>ss_branches := ss_branches S'\<rparr> \<and>
    head_cell (ss_branches S') (take 36 repo, ''master'') = commit_id m"
  using assms(1-3)
proof (induction n arbitrary: S S0 r rule: less_induct)
  case (less n)
  have key: "key_of (rp_head r) = (take 36 repo, ''master'')" using get_repo_head [OF less.prems(2)] by simp
  show ?case
    using less.prems(1)
  proof (cases rule: commit_retry_cases)
    case (1 head S1 T db)
    note f = merged_with_head_follows [OF 1(2) new less.prems(3)]
    have h: "length (commit_id head) = 40" by (rule head_commit_id [OF 1(1)])
    have m: "take 40 (commit_id m) = commit_id m" using f by simp
    have cas: "head_cas (take 36 repo, ''master'') (ss_branches T) (commit_id head) (commit_id m) = (0, db)"
      using 1(4) by (simp add: set_commit_cas key m)
    have "head_cell (ss_branches T) (take 36 repo, ''master'') = commit_id head \<and>
        head_cell db (take 36 repo, ''master'') = commit_id m"
      by (rule branch_cas.cas_success [OF cas h]) (use f in simp)
    then show ?thesis using f 1(5) by (intro exI [of _ T]) simp
  next
    case (2 k head m1 S1 T db r')
    have "ss_libs T = ss_libs S"
      using E merged_with_head_follows [OF 2(3) new less.prems(3)] by (simp add: 2(4) others_keep_libs_def)
    then have lib: "sha1_ok (ss_libs T)" using less.prems(3) by simp
    have "k < n" using 2(1) by simp
    then show ?thesis by (rule less.IH [OF _ 2(6) 2(5) lib])
  qed
qed

text \<open>A failure leaves the branch table as the others left it.\<close>

definition others_keep_branches :: "op_env \<Rightarrow> bool" where
  "others_keep_branches E \<longleftrightarrow> (\<forall>k T. ss_branches (oe_others E k T) = ss_branches T)"

lemma test_and_update_fails:
  "seaf_branch_manager_test_and_update_branch db b old = (e, db') \<Longrightarrow> e < 0 \<Longrightarrow> db' = db"
  by (auto simp: seaf_branch_manager_test_and_update_branch_def Let_def split: if_splits)

lemma merged_with_head_branches:
  "merged_with_head E S repo r base new_commit head new_root user = Some (m, S1) \<Longrightarrow> ss_branches S1 = ss_branches S"
  by (auto simp: merged_with_head_def Let_def split: if_splits option.splits prod.splits dest: add_commit_simps(2))

lemma commit_retry_failure:
  assumes "commit_retry n E S repo r base new_commit new_root user = Some (Inl e, S')" "others_keep_branches E"
  shows "ss_branches S' = ss_branches S"
  using assms(1)
proof (induction n arbitrary: S r)
  case n: 0
  show ?case
    using n assms(2) test_and_update_fails merged_with_head_branches
    by (fastforce simp: commit_retry.simps [of 0] others_keep_branches_def Let_def split: option.splits prod.splits if_splits)
next
  case (Suc n)
  show ?case
  proof (cases "\<exists>r' T. commit_retry n E T repo r' base new_commit new_root user = Some (Inl e, S') \<and>
      ss_branches T = ss_branches S")
    case True
    then show ?thesis using Suc.IH by metis
  next
    case False
    note run = Suc.prems [unfolded commit_retry.simps [of "Suc n"]]
    show ?thesis
    proof (cases "seaf_commit_manager_get_commit (commits_of S (rp_id r)) (br_commit_id (rp_head r))")
      case None
      then show ?thesis using run by simp
    next
      case (Some head)
      obtain m S1 where m: "merged_with_head E S repo r base new_commit head new_root user = Some (m, S1)"
        using run Some by (auto split: option.splits)
      note S1 = merged_with_head_branches [OF m]
      show ?thesis
      proof (cases m)
        case None
        then show ?thesis using run Some m S1 by simp
      next
        case m': (Some c)
        let ?T = "oe_others E (2 * Suc n + 1) S1"
        obtain rc db where cas: "seaf_branch_manager_test_and_update_branch (ss_branches ?T)
            (seaf_branch_set_commit (rp_head r) (commit_id c)) (commit_id head) = (rc, db)" by fastforce
        let ?T2 = "oe_others E (2 * Suc n) (?T\<lparr>ss_branches := db\<rparr>)"
        have rc: "rc < 0" using run Some m m' cas by (simp add: Let_def split: if_splits)
        have b: "ss_branches ?T2 = ss_branches S"
          using assms(2) test_and_update_fails [OF cas rc] S1 by (simp add: others_keep_branches_def)
        show ?thesis
        proof (cases "seaf_repo_manager_get_repo ?T2 repo")
          case None
          then show ?thesis using run Some m m' cas rc b by (simp add: Let_def)
        next
          case r': (Some r')
          then have "commit_retry n E ?T2 repo r' base new_commit new_root user = Some (Inl e, S')"
            using run Some m m' cas rc by (simp add: Let_def)
          then show ?thesis using False b by blast
        qed
      qed
    qed
  qed
qed

section \<open>An undisturbed commit succeeds\<close>

lemma get_repo_cell:
  assumes "seaf_repo_manager_get_repo S i = Some r"
  shows "br_commit_id (rp_head r) = head_cell (ss_branches S) (take 36 i, ''master'')" "take 36 i = i"
proof -
  have i: "length i < 37" using assms by (auto simp: seaf_repo_manager_get_repo_def split: if_splits)
  then show "take 36 i = i" by simp
  then show "br_commit_id (rp_head r) = head_cell (ss_branches S) (take 36 i, ''master'')"
    using assms i
    by (auto simp: seaf_repo_manager_get_repo_def get_repo_from_db_def load_repo_def seaf_repo_from_commit_def
        seaf_repo_new_def seaf_branch_new_def head_cell_def Let_def split: if_splits option.splits)
qed

text \<open>Nothing fails and nobody interferes; \<open>head\<close> is the head of \<open>repo\<close>.\<close>

definition calm :: "op_env \<Rightarrow> session \<Rightarrow> string \<Rightarrow> repo \<Rightarrow> commit \<Rightarrow> bool" where
  "calm E S repo r head \<longleftrightarrow>
     (\<forall>k T. oe_others E k T = T) \<and> (\<forall>s. \<not> bd_fails (ss_branches S) s) \<and> (\<forall>p. disk_ok (ss_commits S) p) \<and>
     sha1_ok (ss_libs S) \<and> is_uuid_valid (ss_libs S) repo \<and>
     seaf_repo_manager_get_repo S repo = Some r \<and> get_head_commit S r = Some head"

lemma with_fs_reads [simp]:
  "commits_of (with_fs S F) = commits_of S" "seaf_repo_manager_get_repo (with_fs S F) = seaf_repo_manager_get_repo S"
proof -
  show c: "commits_of (with_fs S F) = commits_of S" by (simp add: fun_eq_iff commits_of_def)
  have l: "load_repo (with_fs S F) = load_repo S" by (simp add: fun_eq_iff load_repo_def c)
  have g: "get_repo_from_db (with_fs S F) = get_repo_from_db S" by (simp only: fun_eq_iff get_repo_from_db_def with_fs_simps)
      simp
  show "seaf_repo_manager_get_repo (with_fs S F) = seaf_repo_manager_get_repo S"
    unfolding fun_eq_iff seaf_repo_manager_get_repo_def l g by simp
qed

lemma calm_with_fs: "calm E S repo r head \<Longrightarrow> calm E (with_fs S F) repo r head"
  by (simp add: calm_def get_head_commit_def)

text \<open>Saving a commit is saving an object under its id.\<close>

lemma add_commit_save:
  assumes "add_commit S c = (ret, S')"
  shows "\<exists>e d. (if seaf_obj_store_obj_exists (ss_libs S) (ss_commits S) (repo_id c) (commit_id c) then (0, ss_commits S)
    else seaf_obj_store_write_obj (ss_libs S) (ss_commits S) (repo_id c) (commit_id c) d) = (e, ss_commits S') \<and>
    (ret = 0 \<longleftrightarrow> \<not> e < 0)"
proof -
  let ?d = "json_dumps_plain (ss_searpc S) (commit_to_json_object (ss_searpc S) c)"
  obtain e st where w: "seaf_obj_store_write_obj (ss_libs S) (ss_commits S) (repo_id c) (commit_id c) ?d = (e, st)"
    by fastforce
  show ?thesis
  proof (cases "seaf_obj_store_obj_exists (ss_libs S) (ss_commits S) (repo_id c) (commit_id c)")
    case True
    then have "add_commit S c = (0, S)"
      by (simp add: add_commit_def seaf_commit_manager_add_commit_def save_commit_def commits_of_def)
    then show ?thesis using True assms by simp
  next
    case False
    then have "add_commit S c = (if e < 0 then -1 else 0, S\<lparr>ss_commits := st\<rparr>)"
      using w by (simp add: add_commit_def seaf_commit_manager_add_commit_def save_commit_def commits_of_def)
    then have "ss_commits S' = st" "ret = (if e < 0 then -1 else 0)" using assms by auto
    then show ?thesis using False w by (intro exI [of _ e] exI [of _ ?d]) simp
  qed
qed

lemma add_commit_calm:
  assumes "\<forall>p. disk_ok (ss_commits S) p" "is_uuid_valid (ss_libs S) (repo_id c)" "is_object_id_valid (commit_id c)"
    and "add_commit S c = (ret, S')"
  shows "ret = 0"
proof -
  obtain e d where w: "(if seaf_obj_store_obj_exists (ss_libs S) (ss_commits S) (repo_id c) (commit_id c)
      then (0, ss_commits S)
      else seaf_obj_store_write_obj (ss_libs S) (ss_commits S) (repo_id c) (commit_id c) d) = (e, ss_commits S')"
    and ret: "ret = 0 \<longleftrightarrow> \<not> e < 0" using add_commit_save [OF assms(4)] by blast
  have "fst (seaf_obj_store_write_obj (ss_libs S) (ss_commits S) (repo_id c) (commit_id c) d) = 0"
    using assms(1-3) by (simp add: obj_store_defs)
  then show ?thesis using w ret by (auto split: if_splits)
qed

lemma add_commit_keeps:
  assumes "add_commit S c = (ret, S')" "seaf_obj_store_read_obj (ss_libs S) (ss_commits S) q i = Some x"
  shows "seaf_obj_store_read_obj (ss_libs S) (ss_commits S') q i = Some x"
  using add_commit_save [OF assms(1)] seaf_store.save_keeps [OF _ assms(2)] by blast

lemma get_commit_kept:
  assumes "add_commit S c = (ret, S')" "seaf_commit_manager_get_commit (commits_of S q) i = Some h"
  shows "seaf_commit_manager_get_commit (commits_of S' q) i = Some h"
proof -
  have S': "S' = S\<lparr>ss_commits := ss_commits S'\<rparr>" by (rule add_commit_frame [OF assms(1)])
  obtain x where "seaf_obj_store_read_obj (ss_libs S) (ss_commits S) q i = Some x"
    using assms(2) by (auto simp: seaf_commit_manager_get_commit_def load_commit_def commits_of_def split: if_splits option.splits)
  then have "load_commit ((commits_of S q)\<lparr>cv_store := ss_commits S'\<rparr>) i = load_commit (commits_of S q) i"
    using add_commit_keeps [OF assms(1)] by (simp add: load_commit_def commits_of_def cong: option.case_cong)
  moreover have "commits_of S' q = (commits_of S q)\<lparr>cv_store := ss_commits S'\<rparr>"
    by (subst S') (simp add: commits_of_def)
  ultimately show ?thesis using assms(2) by (simp add: seaf_commit_manager_get_commit_def)
qed

lemma gen_new_commit_calm:
  assumes "calm E S repo r head"
  shows "\<exists>S'. gen_new_commit E S repo head root user d = Some (Inr (new_commit_for S r head root user d), S') \<and>
    head_cell (ss_branches S') (repo, ''master'') = commit_id (new_commit_for S r head root user d) \<and>
    ss_fs S' = ss_fs S \<and> ss_libs S' = ss_libs S \<and> ss_blocks S' = ss_blocks S"
proof -
  note calm = assms [unfolded calm_def]
  let ?c = "new_commit_for S r head root user d"
  have r: "rp_id r = repo" "key_of (rp_head r) = (repo, ''master'')"
    "br_commit_id (rp_head r) = head_cell (ss_branches S) (repo, ''master'')"
    using get_repo_head [of S repo r] get_repo_cell [of S repo r] calm by auto
  have rid: "take 36 repo = repo" using get_repo_cell(2) calm by blast
  have c: "is_object_id_valid (commit_id ?c)" "repo_id ?c = repo"
    using new_commit_id calm r rid by (simp_all add: new_commit_for_def)
  obtain ret S1 where add: "add_commit S ?c = (ret, S1)" by fastforce
  have ret: "ret = 0" by (rule add_commit_calm [OF _ _ c(1) add]) (use calm c in auto)
  have S1: "S1 = S\<lparr>ss_commits := ss_commits S1\<rparr>" by (rule add_commit_frame [OF add])
  have head: "seaf_commit_manager_get_commit (commits_of S1 (rp_id r)) (br_commit_id (rp_head r)) = Some head"
    using get_commit_kept [OF add] calm by (simp add: get_head_commit_def)
  have hid: "commit_id head = head_cell (ss_branches S) (repo, ''master'')" "length (commit_id head) = 40"
    using get_commit_id [OF head] get_commit_length [OF head] r by simp_all
  have merged: "merged_with_head E S1 repo r head ?c head root user = Some (Some ?c, S1)"
    by (simp add: merged_with_head_def)
  have b: "ss_branches S1 = ss_branches S" "ss_fs S1 = ss_fs S" "ss_libs S1 = ss_libs S" "ss_blocks S1 = ss_blocks S"
    using add_commit_simps [OF add] by simp_all
  have len: "length (commit_id ?c) = 40" using c(1) by (simp add: is_object_id_valid_def)
  obtain e db where cas: "seaf_branch_manager_test_and_update_branch (ss_branches S1)
      (seaf_branch_set_commit (rp_head r) (commit_id ?c)) (commit_id head) = (e, db)" by fastforce
  have "e = 0" using cas calm hid r(2)
    by (auto simp: seaf_branch_manager_test_and_update_branch_def b Let_def seaf_branch_set_commit_def key_of_def
        head_cell_def split: if_splits)
  then have "head_cas (repo, ''master'') (ss_branches S1) (commit_id head) (commit_id ?c) = (0, db)"
    using cas len by (simp add: set_commit_cas r(2))
  then have cell: "head_cell db (repo, ''master'') = commit_id ?c"
    using branch_cas.cas_success hid(2) len by blast
  have "commit_retry MAX_RETRY_COUNT E S1 repo r head ?c root user = Some (Inr ?c, S1\<lparr>ss_branches := db\<rparr>)"
    using calm head merged cas \<open>e = 0\<close> by (simp add: commit_retry.simps [of MAX_RETRY_COUNT] Let_def)
  then show ?thesis
    using calm add ret cell b by (simp add: gen_new_commit_def Let_def)
qed

section \<open>Properties\<close>



text \<open>C24: Undisturbed, a commit on top of the head succeeds in the first attempt: the new commit, made
  from the given root with the head as its parent, is the head afterwards, and the file tree store is
  not touched.\<close>

theorem gen_new_commit_succeeds_undisturbed:
  assumes "calm E S repo r head"
  shows "\<exists>m S'. gen_new_commit E S repo head root user description = Some (Inr m, S') \<and>
    head_cell (ss_branches S') (repo, ''master'') = commit_id m \<and>
    root_id m = take 40 root \<and> parent_id m = Some (commit_id head) \<and> ss_fs S' = ss_fs S"
proof -
  obtain S' where "gen_new_commit E S repo head root user description
        = Some (Inr (new_commit_for S r head root user description), S')"
    "head_cell (ss_branches S') (repo, ''master'') = commit_id (new_commit_for S r head root user description)"
    "ss_fs S' = ss_fs S"
    using gen_new_commit_calm [OF assms] by blast
  moreover have "root_id (new_commit_for S r head root user description) = take 40 root"
    "parent_id (new_commit_for S r head root user description) = Some (commit_id head)"
    by (simp_all add: new_commit_for_def)
  ultimately show ?thesis by blast
qed

lemma join_path_last:
  "comps_ok comps \<Longrightarrow> comps \<noteq> [] \<Longrightarrow> join_path comps \<noteq> [] \<and> last (join_path comps) \<noteq> CHR ''/''"
proof (induction comps rule: join_path.induct)
  case (2 c)
  then show ?case by (metis comps_ok_Cons join_path.simps(2) last_in_set)
next
  case (3 c d cs)
  have "comps_ok (d # cs)" using 3(2) by simp
  then have "join_path (d # cs) \<noteq> [] \<and> last (join_path (d # cs)) \<noteq> CHR ''/''" using 3(1) by blast
  then show ?case unfolding join_path.simps(3) by simp
qed simp

lemma unique_name_kept: "name \<notin> d_name ` set es \<Longrightarrow> generate_unique_filename name es = Some name"
  by (simp add: generate_unique_filename_def unique_loop.simps [of es _ name] filename_exists_iff)

lemma canonical_join:
  assumes "comps_ok comps" "CHR 0x5C \<notin> set (join_path comps)"
  shows "skip_slash (get_canonical_path (CHR ''/'' # join_path comps)) = join_path comps"
    and "seaf_fs_manager_get_seafdir_by_path F root (get_canonical_path (CHR ''/'' # join_path comps))
      = seaf_fs_manager_get_seafdir_by_path F root (join_path comps)"
proof -
  have map: "map (\<lambda>c. if c = CHR 0x5C then CHR ''/'' else c) (CHR ''/'' # join_path comps) = CHR ''/'' # join_path comps"
    using assms(2) by (auto intro: map_idI)
  show "skip_slash (get_canonical_path (CHR ''/'' # join_path comps)) = join_path comps"
    and "seaf_fs_manager_get_seafdir_by_path F root (get_canonical_path (CHR ''/'' # join_path comps))
      = seaf_fs_manager_get_seafdir_by_path F root (join_path comps)"
  proof (atomize(full), cases "comps = []")
    case True
    then show "skip_slash (get_canonical_path (CHR ''/'' # join_path comps)) = join_path comps \<and>
        seaf_fs_manager_get_seafdir_by_path F root (get_canonical_path (CHR ''/'' # join_path comps))
        = seaf_fs_manager_get_seafdir_by_path F root (join_path comps)"
      by (simp add: get_canonical_path_def strip_slashes_def skip_slash_def char_at_def)
  next
    case False
    have c: "get_canonical_path (CHR ''/'' # join_path comps) = CHR ''/'' # join_path comps"
      unfolding get_canonical_path_def map
      by (rule strip_slashes_id) (use join_path_last [OF assms(1) False] in auto)
    show "skip_slash (get_canonical_path (CHR ''/'' # join_path comps)) = join_path comps \<and>
        seaf_fs_manager_get_seafdir_by_path F root (get_canonical_path (CHR ''/'' # join_path comps))
        = seaf_fs_manager_get_seafdir_by_path F root (join_path comps)"
      using strtok_all_append [of "CHR ''/''" "[]" "join_path comps"]
      by (simp add: c skip_slash_join [OF assms(1)] seaf_fs_manager_get_seafdir_by_path_def cong: option.case_cong)
  qed
qed

lemma fs_of_with_fs [simp]: "fs_of (with_fs S F) r = (fs_of S r)\<lparr>fv_store := fv_store F\<rparr>"
  by (simp add: fs_of_def)

lemma fs_of_simps [simp]: "fv_version (fs_of S r) = rp_version r" "fv_store (fs_of S r) = ss_fs S"
  "fv_libs (fs_of S r) = ss_libs S" "fv_repo (fs_of S r) = rp_store_id r"
  by (simp_all add: fs_of_def)

lemma fs_view_restore: "fs_extends F F' \<Longrightarrow> F\<lparr>fv_store := fv_store F'\<rparr> = F'"
  by (cases F; cases F') (simp add: fs_extends_def)

text \<open>The entry of a new empty directory.\<close>

definition new_dir_entry :: "session \<Rightarrow> string \<Rightarrow> dirent" where
  "new_dir_entry S name = \<lparr>d_version = 1, d_mode = S_IFDIR, d_id = EMPTY_SHA1, d_name = name, d_mtime = ss_now S,
     d_modifier = None, d_size = 0\<rparr>"

lemma new_dir_entry_new:
  "seaf_dirent_new 1 EMPTY_SHA1 S_IFDIR name (ss_now S) None (-1) = new_dir_entry S name"
  by (simp add: seaf_dirent_new_def new_dir_entry_def S_ISREG_def S_IFMT_def S_IFREG_def S_IFDIR_def)

text \<open>What a commit of a tree with one more entry leaves behind.\<close>

lemma posted_entry:
  assumes calm: "calm E S repo r head"
    and post: "do_post_file (ss_now S) (fs_of S r) (root_id head) (get_canonical_path (CHR ''/'' # join_path comps)) nd = res"
    and run: "commit_root E S repo head err res user d = Some (Inr (), S')"
    and tree: "change_ok (fs_of S r) (root_id head) comps t" "no_collisions (fs_of S' r)"
    and nd: "dirent_json_ok 1 nd" and path: "CHR 0x5C \<notin> set (join_path comps)"
  shows "\<exists>(m :: commit) t' n. head_cell (ss_branches S') (repo, ''master'') = commit_id m \<and> parent_id m = Some (commit_id head) \<and>
    changed_only (touch_mtime (fs_of S r) (ss_now S)) comps (fs_of S r) (root_id head) (fs_of S' r) (root_id m) \<and>
    seaf_fs_manager_get_seafdir_by_path (fs_of S' r) (root_id m) (join_path comps) = Inr t' \<and>
    generate_unique_filename (d_name nd) (entries t) = Some n \<and> n \<notin> d_name ` set (entries t) \<and>
    set (entries t') = insert (seaf_dirent_new 1 (d_id nd) (d_mode nd) n (d_mtime nd) (d_modifier nd) (d_size nd))
      (set (entries t)) \<and> ss_blocks S' = ss_blocks S \<and> ss_libs S' = ss_libs S"
proof -
  have comps: "comps_ok comps" using tree(1) by (simp add: change_ok_def)
  note canon = canonical_join [OF comps path]
  obtain ret F' where res: "res = (ret, F')" by fastforce
  obtain root' where ret: "ret = Some root'" using run by (cases ret) (simp_all add: commit_root_def res fails_def)
  note post = post [unfolded res ret]
  have ext: "fs_extends (fs_of S r) F'"
    using post update_recursive_extends
    by (auto simp: do_post_file_def do_post_file_replace_def post_file_recursive_def split: prod.splits)
  let ?m = "new_commit_for (with_fs S F') r head root' user d"
  obtain S1 where S1: "gen_new_commit E (with_fs S F') repo head root' user d
      = Some (Inr ?m, S1)" "head_cell (ss_branches S1) (repo, ''master'') = commit_id ?m"
      "ss_fs S1 = fv_store F'" "ss_libs S1 = ss_libs S" "ss_blocks S1 = ss_blocks S"
    using gen_new_commit_calm [OF calm_with_fs [OF calm]] by fastforce
  have S': "S' = with_event S1 (MERGE_VIRTUAL_REPO repo)" using run S1(1) by (simp add: commit_root_def res ret)
  have F': "fs_of S' r = F'"
    using fs_view_restore [OF ext] S1(3,4) by (simp add: S' fs_of_def with_event_def)
  from do_post_file_spec [OF tree(1) tree(2) [unfolded F'] nd post canon(1)]
  obtain t' n where t': "seaf_fs_manager_get_seafdir_by_path F' root' (join_path comps) = Inr t'"
    "generate_unique_filename (d_name nd) (entries t) = Some n" "n \<notin> d_name ` set (entries t)"
    "set (entries t') = insert (seaf_dirent_new 1 (d_id nd) (d_mode nd) n (d_mtime nd) (d_modifier nd) (d_size nd))
       (set (entries t))"
    and only: "changed_only (touch_mtime (fs_of S r) (ss_now S)) comps (fs_of S r) (root_id head) F' root'"
    by blast
  have "length root' = 40" using only by (simp add: changed_only_def is_object_id_valid_def)
  then have m: "root_id ?m = root'" "parent_id ?m = Some (commit_id head)" by (simp_all add: new_commit_for_def)
  have kept: "ss_blocks S' = ss_blocks S" "ss_libs S' = ss_libs S" using S1(4,5) by (simp_all add: S' with_event_def)
  show ?thesis
    unfolding F' using S1(2) m only t' kept
    by (intro exI [of _ ?m] exI [of _ t'] exI [of _ n]) (simp add: S')
qed

text \<open>C6: Making a directory, end to end: when \<open>seaf_repo_manager_post_dir\<close> succeeds undisturbed on a
  well-formed version 1 library, the new head is a commit on top of the old head whose tree has, at the
  given path, the old entries and an empty directory of the given name, with everything else in the
  tree as it was.\<close>

theorem post_dir_creates_directory:
  assumes run: "seaf_repo_manager_post_dir E S repo (CHR ''/'' # join_path comps) name user = Some (Inr (), S')"
    and calm: "calm E S repo r head"
    and tree: "change_ok (fs_of S r) (root_id head) comps t" "no_collisions (fs_of S' r)"
    and path: "CHR 0x5C \<notin> set (join_path comps)"
  shows "\<exists>(m :: commit) t'. head_cell (ss_branches S') (repo, ''master'') = commit_id m \<and> parent_id m = Some (commit_id head) \<and>
    changed_only (touch_mtime (fs_of S r) (ss_now S)) comps (fs_of S r) (root_id head) (fs_of S' r) (root_id m) \<and>
    name \<notin> d_name ` set (entries t) \<and>
    seaf_fs_manager_get_seafdir_by_path (fs_of S' r) (root_id m) (join_path comps) = Inr t' \<and>
    set (entries t') = insert (new_dir_entry S name) (set (entries t))"
proof -
  have comps: "comps_ok comps" and v: "0 < rp_version r" using tree(1) by (simp_all add: change_ok_def)
  let ?canon = "get_canonical_path (CHR ''/'' # join_path comps)"
  let ?nd = "seaf_dirent_new 1 EMPTY_SHA1 S_IFDIR name (ss_now S) None (-1)"
  have get: "seaf_repo_manager_get_repo S repo = Some r" "get_head_commit S r = Some head"
    using calm by (simp_all add: calm_def)
  have dv: "dir_version_from_repo_version (rp_version r) = 1" using v by (simp add: dir_version_from_repo_version_def)
  have free: "check_file_exists (fs_of S r) (root_id head) ?canon name = None"
    and rest: "commit_root E S repo head SEAF_ERR_GENERAL (do_post_file (ss_now S) (fs_of S r) (root_id head) ?canon ?nd) user
      (path_buf (''Added directory '' @ quoted name)) = Some (Inr (), S')"
    using run get
    by (auto simp: seaf_repo_manager_post_dir_def with_repo_def get_head_commit_def dv fails_def Let_def split: if_splits)
  have name: "name \<notin> d_name ` set (entries t)"
    using free canonical_join(2) [OF comps path] tree(1)
    by (auto simp: check_file_exists_def change_ok_def find_None_iff)
  have nd: "dirent_json_ok 1 ?nd" by (rule seaf_dirent_new_ok) (simp_all add: S_ISREG_def S_IFMT_def S_IFREG_def S_IFDIR_def)
  have same: "d_name ?nd = name"
    "seaf_dirent_new 1 (d_id ?nd) (d_mode ?nd) n (d_mtime ?nd) (d_modifier ?nd) (d_size ?nd) = new_dir_entry S n" for n
    by (simp_all add: seaf_dirent_new_def new_dir_entry_def S_ISREG_def S_IFMT_def S_IFREG_def S_IFDIR_def)
  from posted_entry [OF calm refl rest tree nd path, unfolded same] obtain m :: commit and t' n where
    m: "head_cell (ss_branches S') (repo, ''master'') = commit_id m" "parent_id m = Some (commit_id head)"
    "changed_only (touch_mtime (fs_of S r) (ss_now S)) comps (fs_of S r) (root_id head) (fs_of S' r) (root_id m)"
    "seaf_fs_manager_get_seafdir_by_path (fs_of S' r) (root_id m) (join_path comps) = Inr t'"
    and n: "generate_unique_filename name (entries t) = Some n" "set (entries t') = insert (new_dir_entry S n) (set (entries t))"
    by blast
  have "n = name" using n(1) name unique_name_kept [of name "entries t"] by simp
  then show ?thesis using m n(2) name by blast
qed

section \<open>A concrete session\<close>

definition demo_session :: "dirent list \<Rightarrow> dirent list \<Rightarrow> session" where
  "demo_session es1 es2 =
     \<lparr>ss_libs = pair_libs es1 es2, ss_searpc = demo_searpc, ss_now = 9, ss_repos = {demo_rid},
      ss_virtual = [], ss_owners = [], ss_sizes = Map.empty, ss_counts = Map.empty,
     ss_fails = (\<lambda>_. False),
      ss_branches = \<lparr>bd_rows = [((demo_rid, ''master''), demo_id (CHR ''a''))], bd_fails = (\<lambda>_. False), bd_updated = []\<rparr>,
      ss_commits = demo_store\<lparr>files := [id_to_path ''d'' (demo_id (CHR ''a'')) demo_rid \<mapsto> ''c'']\<rparr>,
      ss_fs = demo_store\<lparr>files := pair_one\<rparr>, ss_blocks = demo_blocks, ss_events = []\<rparr>"

definition demo_env :: op_env where
  "demo_env = \<lparr>oe_dirname = (\<lambda>p. p), oe_basename = (\<lambda>p. p), oe_strftime = (\<lambda>_. []), oe_time_str = (\<lambda>_. []),
     oe_fuel = 3, oe_mtime = 0, oe_others = (\<lambda>_ T. T)\<rparr>"

definition demo_rp :: repo where
  "demo_rp = seaf_repo_from_commit ((seaf_repo_new demo_rid None None
     (seaf_branch_new ''master'' demo_rid (demo_id (CHR ''a''))))\<lparr>rp_store_id := demo_rid\<rparr>) demo_head"

lemma demo_rid_length [simp]: "length demo_rid = 36"
  by (simp add: demo_rid_def)

lemma demo_head_simps [simp]:
  "commit_id demo_head = demo_id (CHR ''a'')" "root_id demo_head = pair_id (CHR ''a'')"
  "repo_id demo_head = demo_rid"
  by (simp_all add: demo_head_def demo_a_def demo_commit_def demo_rid_def)

lemma demo_head_ok: "commit_ok (pair_libs es1 es2) demo_head"
  by (simp add: commit_ok_def demo_head_def demo_a_def demo_commit_def valid_opt_id_def ascii_strdown_def)

lemma demo_head_get:
  "seaf_commit_manager_get_commit (commits_of (demo_session es1 es2) demo_rid) (demo_id (CHR ''a'')) = Some demo_head"
proof -
  have "seaf_obj_store_read_obj (pair_libs es1 es2) (ss_commits (demo_session es1 es2)) demo_rid (demo_id (CHR ''a'')) = Some ''c''"
    by (simp add: demo_session_def)
  moreover have "parse_commit_json (pair_libs es1 es2) demo_searpc ''c'' = Some (commit_to_json_object demo_searpc demo_head)"
    by (simp add: parse_commit_json_def pair_libs_def)
  ultimately show ?thesis
    using commit_json_back [OF demo_searpc_ok demo_head_ok, of es1 es2 9]
    by (simp add: seaf_commit_manager_get_commit_def load_commit_def commits_of_def demo_session_def)
qed

lemma demo_rp_get: "seaf_repo_manager_get_repo (demo_session es1 es2) demo_rid = Some demo_rp"
proof -
  have "get_repo_from_db (demo_session es1 es2) demo_rid = Some ((seaf_repo_new demo_rid None None
     (seaf_branch_new ''master'' demo_rid (demo_id (CHR ''a''))))\<lparr>rp_store_id := demo_rid\<rparr>)"
    by (simp add: get_repo_from_db_def demo_session_def Let_def)
  then show ?thesis
    using demo_head_get [of es1 es2]
    by (simp add: seaf_repo_manager_get_repo_def load_repo_def seaf_repo_new_def seaf_branch_new_def demo_rp_def)
qed

lemma demo_rp_simps [simp]:
  "rp_id demo_rp = demo_rid" "rp_version demo_rp = 1" "rp_store_id demo_rp = demo_rid"
  "br_commit_id (rp_head demo_rp) = demo_id (CHR ''a'')"
  by (simp_all add: demo_rp_def seaf_repo_from_commit_def seaf_repo_new_def seaf_branch_new_def Let_def
      demo_head_def demo_a_def demo_commit_def)

lemma demo_fs: "fs_of (demo_session es1 es2) demo_rp = pair_view es1 es2 pair_one"
  by (simp add: fs_of_def demo_session_def pair_view_def)

lemma pair_sha1_ok: "sha1_ok (pair_libs es1 es2)"
  by (simp add: sha1_ok_def pair_libs_def)

lemma demo_calm: "calm demo_env (demo_session es1 es2) demo_rid demo_rp demo_head"
  using demo_rp_get [of es1 es2] demo_head_get [of es1 es2] pair_sha1_ok
  by (simp add: calm_def get_head_commit_def) (simp add: demo_session_def demo_env_def demo_store_def)

theorem gen_new_commit_succeeds_undisturbed_witness:
  "\<exists>m S'. gen_new_commit demo_env (demo_session [demo_f] [demo_g]) demo_rid demo_head (pair_id (CHR ''b'')) ''u'' ''text''
     = Some (Inr m, S') \<and> root_id m = pair_id (CHR ''b'') \<and> parent_id m = Some (demo_id (CHR ''a''))"
  using gen_new_commit_succeeds_undisturbed [OF demo_calm, of "[demo_f]" "[demo_g]" "pair_id (CHR ''b'')" "''u''" "''text''"]
  by auto



text \<open>The new directory of the last witness.\<close>

definition demo_d :: dirent where "demo_d = new_dir_entry (demo_session [] []) ''d''"

lemma demo_pair_d: "pair_ok [demo_f] [demo_f, demo_d]"
proof -
  have d: "d_name demo_d = ''d''" "dirent_json_ok 1 demo_d"
    by (simp_all add: demo_d_def new_dir_entry_def dirent_json_ok_def S_ISREG_def S_IFMT_def S_IFREG_def S_IFDIR_def)
  have ok: "entries_ok [demo_f]" "entries_ok [demo_f, demo_d]" by (simp_all add: entries_ok_def d)
  then show ?thesis using dir_doc_inj [OF ok] by (auto simp: pair_ok_def)
qed

theorem post_dir_creates_directory_witness:
  "\<exists>S' (m :: commit) t'. seaf_repo_manager_post_dir demo_env (demo_session [demo_f] [demo_f, demo_d]) demo_rid ''/'' ''d'' ''u''
      = Some (Inr (), S') \<and> head_cell (ss_branches S') (demo_rid, ''master'') = commit_id m \<and>
     seaf_fs_manager_get_seafdir_by_path (fs_of S' demo_rp) (root_id m) [] = Inr t' \<and>
     set (entries t') = {demo_d, demo_f}"
proof -
  let ?S = "demo_session [demo_f] [demo_f, demo_d]"
  have now: "ss_now ?S = 9" by (simp add: demo_session_def)
  have d: "new_dir_entry ?S ''d'' = demo_d" by (simp add: demo_d_def new_dir_entry_def demo_session_def)
  have nd: "seaf_dirent_new 1 EMPTY_SHA1 S_IFDIR ''d'' 9 None (-1) = demo_d"
    using new_dir_entry_new [of "''d''" ?S] by (simp add: now d)
  have dn: "d_name demo_d = ''d''" "d_version demo_d = 1" "d_id demo_d = EMPTY_SHA1" "d_mode demo_d = S_IFDIR"
    "d_mtime demo_d = 9" "d_modifier demo_d = None" "d_size demo_d = 0"
    by (simp_all add: demo_d_def new_dir_entry_def demo_session_def)
  have self: "seaf_dirent_new 1 EMPTY_SHA1 S_IFDIR ''d'' 9 None 0 = demo_d"
    by (cases demo_d) (use dn in \<open>simp add: seaf_dirent_new_def S_ISREG_def S_IFMT_def S_IFREG_def S_IFDIR_def\<close>)
  have fresh: "''d'' \<notin> d_name ` set [demo_f]" by simp
  have edit: "post_edit False demo_d [demo_f] () = (Some [demo_f, demo_d], ())"
    by (simp add: post_edit_def dn self unique_name_kept [OF fresh, simplified] compare_dirents_def strcmp_def)
  have post: "do_post_file 9 (pair_view [demo_f] [demo_f, demo_d] pair_one) (pair_id (CHR ''a'')) [] demo_d
      = (Some (pair_id (CHR ''b'')), pair_view [demo_f] [demo_f, demo_d] pair_both)"
    using pair_update [OF demo_pair_d, of "post_edit False demo_d" "()" "()" "\<lambda>_. False"] edit
    by (simp add: do_post_file_def do_post_file_replace_def post_file_recursive_def skip_slash_def char_at_def)
  have canon: "get_canonical_path ''/'' = []" by (simp add: get_canonical_path_def strip_slashes_def)
  have root: "get_dir (pair_view [demo_f] [demo_f, demo_d] pair_one) (pair_id (CHR ''a''))
      = Some \<lparr>dir_version = 1, dir_id = pair_id (CHR ''a''), entries = [demo_f], ondisk = None\<rparr>"
    by (rule pair_get_dir) (use demo_pair_d in \<open>simp add: pair_ok_def\<close>)
  have free: "check_file_exists (pair_view [demo_f] [demo_f, demo_d] pair_one) (pair_id (CHR ''a'')) [] ''d'' = None"
    using root by (simp add: check_file_exists_def seaf_fs_manager_get_seafdir_by_path_def)
  have ign: "\<not> should_ignore_file ?S ''d''"
    by (simp add: should_ignore_file_def demo_session_def demo_searpc_def SEAF_DIR_NAME_LEN_def)
  let ?F' = "pair_view [demo_f] [demo_f, demo_d] pair_both" and ?desc = "path_buf (''Added directory '' @ quoted ''d'')"
  obtain S1 m where S1: "gen_new_commit demo_env (with_fs ?S ?F') demo_rid demo_head (pair_id (CHR ''b'')) ''u'' ?desc
      = Some (Inr m, S1)" "ss_fs S1 = fv_store ?F'" "ss_libs S1 = ss_libs ?S"
    using gen_new_commit_calm [OF calm_with_fs [OF demo_calm, of "[demo_f]" "[demo_f, demo_d]" ?F']] by fastforce
  let ?S' = "with_event S1 (MERGE_VIRTUAL_REPO demo_rid)"
  have dv: "dir_version_from_repo_version 1 = 1" by (simp add: dir_version_from_repo_version_def)
  have head: "seaf_commit_manager_get_commit (commits_of ?S demo_rid) (demo_id (CHR ''a'')) = Some demo_head"
    by (rule demo_head_get)
  have run: "seaf_repo_manager_post_dir demo_env ?S demo_rid (CHR ''/'' # join_path []) ''d'' ''u'' = Some (Inr (), ?S')"
    using demo_rp_get [of "[demo_f]" "[demo_f, demo_d]"] head free ign S1(1) post nd
    by (simp add: seaf_repo_manager_post_dir_def with_repo_def canon demo_fs now dv commit_root_def Let_def)
  have fs': "fs_of ?S' demo_rp = ?F'"
    using S1(2,3) by (simp add: fs_of_def with_event_def pair_view_def) (simp add: demo_session_def)
  note tree = pair_change_ok [OF demo_pair_d]
  from post_dir_creates_directory [OF run demo_calm, unfolded demo_fs demo_head_simps fs', OF tree pair_no_collisions]
  show ?thesis using run d by (auto simp: fs')
qed

end
