(* ===== verification/Cdc.thy ===== *)
theory Cdc
  imports Utils
begin

text \<open>
  Content-defined chunking (\<open>common/cdc/cdc.c\<close>) and the Rabin fingerprint it finds the chunk boundaries
  with (\<open>common/cdc/rabin-checksum.c\<close>).  The function that stores a chunk is a parameter, as in the code;
  its state is the type variable \<open>'s\<close>.  Whatever the fingerprint does, the chunks are a partition of
  the file into pieces of bounded size.  Running out of memory is not modelled.
\<close>

section \<open>Rabin fingerprints\<close>

definition bytemsb :: "nat list" where
  "bytemsb = [0, 1] @ replicate 2 2 @ replicate 4 3 @ replicate 8 4 @ replicate 16 5 @ replicate 32 6 @
     replicate 64 7 @ replicate 128 8"

definition fls32 :: "u32 \<Rightarrow> nat" where
  "fls32 v =
     (if v AND 0xffff0000 \<noteq> 0 then
        (if v AND 0xff000000 \<noteq> 0 then 24 + bytemsb ! unat (drop_bit 24 v) else 16 + bytemsb ! unat (drop_bit 16 v))
      else if v AND 0x0000ff00 \<noteq> 0 then 8 + bytemsb ! unat (drop_bit 8 v)
      else bytemsb ! unat v)"

definition fls64 :: "u64 \<Rightarrow> nat" where
  "fls64 v =
     (let h = ucast (drop_bit 32 v) :: u32 in
      if h \<noteq> 0 then 32 + fls32 h else fls32 (ucast v))"

definition poly :: u64 where "poly = 0xbfe6b8a5bf378d83"

text \<open>One step of each of the two loops of \<open>polymod\<close>, for the bit \<open>i\<close>.\<close>

definition polymod_high :: "u64 \<Rightarrow> u64 \<times> u64 \<Rightarrow> nat \<Rightarrow> u64 \<times> u64" where
  "polymod_high d p i =
     (case p of (nh, nl) \<Rightarrow>
        if nh AND push_bit i 1 \<noteq> 0 then (nh XOR drop_bit (63 - i) d, nl XOR push_bit (i + 1) d) else (nh, nl))"

definition polymod_low :: "u64 \<Rightarrow> u64 \<Rightarrow> nat \<Rightarrow> u64" where
  "polymod_low d nl i = (if nl AND push_bit i 1 \<noteq> 0 then nl XOR drop_bit (63 - i) d else nl)"

definition polymod :: "u64 \<Rightarrow> u64 \<Rightarrow> u64 \<Rightarrow> u64" where
  "polymod nh nl d =
     (let k = fls64 d - 1; d = push_bit (63 - k) d;
          nl = (if nh \<noteq> 0 then
                  (let nh = (if nh AND push_bit 63 1 \<noteq> 0 then nh XOR d else nh)
                   in snd (foldl (polymod_high d) (nh, nl) (rev [0..<63])))
                else nl)
      in foldl (polymod_low d) nl (rev [k..<64]))"

definition polymult :: "u64 \<Rightarrow> u64 \<Rightarrow> u64 \<times> u64" where
  "polymult x y =
     foldl (\<lambda>(ph, pl) i. if x AND push_bit i 1 \<noteq> 0 then (ph XOR drop_bit (64 - i) y, pl XOR push_bit i y) else (ph, pl))
       (0, if x AND 1 \<noteq> 0 then y else 0) [1..<64]"

definition polymmult :: "u64 \<Rightarrow> u64 \<Rightarrow> u64 \<Rightarrow> u64" where
  "polymmult x y d = (case polymult x y of (h, l) \<Rightarrow> polymod h l d)"

text \<open>The tables that \<open>rabin_init\<close> fills, and \<open>shift\<close>.\<close>

record rabin =
  rb_T :: "u64 list"
  rb_U :: "u64 list"
  rb_shift :: nat

definition append8 :: "rabin \<Rightarrow> u64 \<Rightarrow> u8 \<Rightarrow> u64" where
  "append8 R p m = (push_bit 8 p OR ucast m) XOR rb_T R ! unat (drop_bit (rb_shift R) p)"

definition calcT :: "u64 \<Rightarrow> rabin \<Rightarrow> rabin" where
  "calcT d R =
     (let xshift = fls64 d - 1; T1 = polymod 0 (push_bit xshift 1) d
      in R\<lparr>rb_shift := xshift - 8,
           rb_T := map (\<lambda>j. polymmult (of_nat j) T1 d OR push_bit xshift (of_nat j)) [0..<256]\<rparr>)"

definition calcU :: "nat \<Rightarrow> rabin \<Rightarrow> rabin" where
  "calcU sz R =
     (let sizeshift = ((\<lambda>p. append8 R p 0) ^^ (sz - 1)) 1
      in R\<lparr>rb_U := map (\<lambda>i. polymmult (of_nat i) sizeshift poly) [0..<256]\<rparr>)"

definition rabin_init :: "nat \<Rightarrow> rabin" where
  "rabin_init len = calcU len (calcT poly \<lparr>rb_T = [], rb_U = [], rb_shift = 0\<rparr>)"

definition rabin_rolling_checksum :: "rabin \<Rightarrow> u32 \<Rightarrow> char \<Rightarrow> char \<Rightarrow> u32" where
  "rabin_rolling_checksum R csum c1 c2 =
     ucast (append8 R (ucast csum XOR rb_U R ! byte_val c1) (of_nat (byte_val c2)))"

definition rabin_checksum :: "rabin \<Rightarrow> bytes \<Rightarrow> u32" where
  "rabin_checksum R buf = foldl (\<lambda>sum b. rabin_rolling_checksum R sum (CHR 0x00) b) 0 buf"

section \<open>Chunking\<close>

definition BLOCK_SZ :: u32 where "BLOCK_SZ = 1024 * 1024"
definition BLOCK_MIN_SZ :: u32 where "BLOCK_MIN_SZ = 1024 * 256"
definition BLOCK_MAX_SZ :: u32 where "BLOCK_MAX_SZ = 1024 * 1024 * 4"
definition BLOCK_WIN_SZ :: nat where "BLOCK_WIN_SZ = 48"
definition BREAK_VALUE :: u32 where "BREAK_VALUE = 0x0013"
definition READ_SIZE :: nat where "READ_SIZE = 1024 * 4"

text \<open>\<open>blk_sha1s\<close> is the array cut into the checksums written to it.\<close>

record cdc_file =
  cf_block_min_sz :: u32
  cf_block_max_sz :: u32
  cf_block_sz :: u32
  cf_file_size :: nat
  cf_block_nr :: nat
  cf_blk_sha1s :: "bytes list"
  cf_max_block_nr :: nat
  cf_file_sum :: bytes

record cdc_chunk =
  cd_offset :: u64
  cd_buf :: bytes

text \<open>\<open>WriteblockFunc\<close>: its result, the checksum, and the state after it.\<close>

type_synonym 's write_block_func = "cdc_chunk \<Rightarrow> 's \<Rightarrow> int \<times> bytes \<times> 's"

definition init_cdc_file_descriptor :: "nat \<Rightarrow> cdc_file \<Rightarrow> cdc_file" where
  "init_cdc_file_descriptor fsize d =
     (let d = d\<lparr>cf_block_nr := 0,
                cf_block_min_sz := (if cf_block_min_sz d = 0 then BLOCK_MIN_SZ else cf_block_min_sz d),
                cf_block_max_sz := (if cf_block_max_sz d = 0 then BLOCK_MAX_SZ else cf_block_max_sz d),
                cf_block_sz := (if cf_block_sz d = 0 then BLOCK_SZ else cf_block_sz d)\<rparr>;
          block_min_sz = unat (cf_block_min_sz d)
      in d\<lparr>cf_blk_sha1s := [], cf_max_block_nr := (fsize + block_min_sz - 1) div block_min_sz\<rparr>)"

text \<open>The fingerprint at \<open>cur\<close>, from the one before, and whether a chunk ends there.\<close>

definition next_finger :: "rabin \<Rightarrow> cdc_file \<Rightarrow> bytes \<Rightarrow> nat \<Rightarrow> u32 \<Rightarrow> u32" where
  "next_finger R d buf cur fingerprint =
     (if cur = unat (cf_block_min_sz d) - 1
      then rabin_checksum R (take BLOCK_WIN_SZ (drop (cur + 1 - BLOCK_WIN_SZ) buf))
      else rabin_rolling_checksum R fingerprint (buf ! (cur - BLOCK_WIN_SZ)) (buf ! cur))"

definition is_break :: "cdc_file \<Rightarrow> nat \<Rightarrow> u32 \<Rightarrow> bool" where
  "is_break d cur fingerprint \<longleftrightarrow>
     (let block_mask = cf_block_sz d - 1 in
      fingerprint AND block_mask = BREAK_VALUE AND block_mask \<or> cur + 1 \<ge> unat (cf_block_max_sz d))"

text \<open>
  The inner loop, from \<open>cur\<close>: where it stopped, the fingerprint, and whether that is the end of a chunk.
\<close>

function scan :: "rabin \<Rightarrow> cdc_file \<Rightarrow> bytes \<Rightarrow> nat \<Rightarrow> u32 \<Rightarrow> nat \<times> u32 \<times> bool" where
  "scan R d buf cur fingerprint =
     (if cur < length buf then
        (if is_break d cur (next_finger R d buf cur fingerprint)
         then (cur, next_finger R d buf cur fingerprint, True)
         else scan R d buf (cur + 1) (next_finger R d buf cur fingerprint))
      else (cur, fingerprint, False))"
  by auto
termination by (relation "measure (\<lambda>(_, _, buf, cur, _). length buf - cur)") auto

declare scan.simps [simp del]

text \<open>
  The variables of the loop: what is left to read, the buffer (\<open>tail\<close> is its length), the scan's
  position and fingerprint, the offset (an \<open>int\<close>), the bytes hashed into the file's sum, the
  descriptor, the progress counter and the chunk store.
\<close>

record 's cdc_state =
  cs_rest :: bytes
  cs_buf :: bytes
  cs_cur :: nat
  cs_finger :: u32
  cs_offset :: u32
  cs_ctx :: bytes
  cs_descr :: cdc_file
  cs_indexed :: int
  cs_store :: 's

text \<open>\<open>WRITE_CDC_BLOCK\<close> after the test that the array has room, and the counter; False is a failure.\<close>

definition write_cdc_block :: "'s write_block_func \<Rightarrow> nat \<Rightarrow> 's cdc_state \<Rightarrow> bool \<times> 's cdc_state" where
  "write_cdc_block wb block_sz c =
     (if cf_block_nr (cs_descr c) = cf_max_block_nr (cs_descr c) then (False, c)
      else
        (case wb \<lparr>cd_offset = scast (cs_offset c), cd_buf = take block_sz (cs_buf c)\<rparr> (cs_store c) of
           (ret, checksum, s) \<Rightarrow>
             if ret < 0 then (False, c\<lparr>cs_store := s\<rparr>)
             else (True,
               c\<lparr>cs_descr := (cs_descr c)\<lparr>cf_blk_sha1s := cf_blk_sha1s (cs_descr c) @ [checksum],
                                        cf_block_nr := cf_block_nr (cs_descr c) + 1\<rparr>,
                 cs_ctx := cs_ctx c @ take 20 checksum, cs_offset := cs_offset c + of_nat block_sz,
                 cs_buf := drop block_sz (cs_buf c), cs_cur := 0, cs_store := s,
                 cs_indexed := cs_indexed c + int block_sz\<rparr>)))"

text \<open>Reading into the buffer; \<open>readn\<close> returns less than asked for only at the end of the file.\<close>

definition read_size :: "'s cdc_state \<Rightarrow> nat" where
  "read_size c =
     (let tail = length (cs_buf c); block_min_sz = unat (cf_block_min_sz (cs_descr c));
          buf_sz = unat (cf_block_max_sz (cs_descr c))
      in if tail < block_min_sz then block_min_sz - tail + READ_SIZE
         else if buf_sz - tail < READ_SIZE then buf_sz - tail else READ_SIZE)"

definition cdc_read :: "'s cdc_state \<Rightarrow> 's cdc_state" where
  "cdc_read c =
     (let got = take (read_size c) (cs_rest c)
      in c\<lparr>cs_rest := drop (read_size c) (cs_rest c), cs_buf := cs_buf c @ got,
           cs_descr := (cs_descr c)\<lparr>cf_file_size := cf_file_size (cs_descr c) + length got\<rparr>\<rparr>)"

lemma write_cdc_block_buf:
  "write_cdc_block wb n c = (True, c') \<Longrightarrow> cs_buf c' = drop n (cs_buf c) \<and> cs_rest c' = cs_rest c"
  by (auto simp: write_cdc_block_def split: if_splits prod.splits)

lemma scan_range: "scan R d buf cur f = (cur', f', b) \<Longrightarrow> cur \<le> length buf \<Longrightarrow> cur \<le> cur' \<and> cur' \<le> length buf \<and>
    (if b then cur' < length buf else cur' = length buf)"
proof (induction R d buf cur f rule: scan.induct)
  case (1 R d buf cur f)
  show ?case
  proof (cases "cur < length buf \<and> \<not> is_break d cur (next_finger R d buf cur f)")
    case False
    then show ?thesis using 1(2,3) by (auto simp: scan.simps [of R d buf cur] split: if_splits)
  next
    case True
    then have "scan R d buf (cur + 1) (next_finger R d buf cur f) = (cur', f', b)"
      using 1(2) by (simp add: scan.simps [of R d buf cur])
    from 1(1) [OF conjunct1 [OF True] conjunct2 [OF True] this] True show ?thesis by auto
  qed
qed

lemma cdc_read_simps [simp]:
  "cs_cur (cdc_read c) = cs_cur c" "cs_finger (cdc_read c) = cs_finger c" "cs_ctx (cdc_read c) = cs_ctx c"
  "cs_offset (cdc_read c) = cs_offset c" "cs_store (cdc_read c) = cs_store c" "cs_indexed (cdc_read c) = cs_indexed c"
  by (simp_all add: cdc_read_def Let_def)

lemma cdc_read_total: "cs_buf (cdc_read c) @ cs_rest (cdc_read c) = cs_buf c @ cs_rest c"
  by (simp add: cdc_read_def Let_def)

lemma cdc_read_length: "length (cs_buf (cdc_read c)) + length (cs_rest (cdc_read c)) = length (cs_buf c) + length (cs_rest c)"
  using arg_cong [OF cdc_read_total [of c], of length] by simp

lemma cdc_read_progress: "length (cs_rest (cdc_read c)) < length (cs_rest c) \<or>
    length (cs_rest (cdc_read c)) = length (cs_rest c) \<and> cs_buf (cdc_read c) = cs_buf c"
  by (cases "read_size c = 0 \<or> cs_rest c = []") (auto simp: cdc_read_def Let_def)

text \<open>A step either consumes a chunk, or reads on, or at the end of the file moves to the end of the buffer.\<close>

lemma found_less:
  assumes "(True, c') = write_cdc_block wb (Suc cur) ((cdc_read c)\<lparr>cs_cur := a, cs_finger := b\<rparr>)"
    and "\<not> length (cs_buf (cdc_read c)) \<le> cs_cur c"
  shows "length (cs_rest c') + length (cs_buf c') < length (cs_rest c) + length (cs_buf c)"
  using write_cdc_block_buf [OF assms(1) [symmetric]] cdc_read_length [of c] assms(2) by simp

lemma not_found_less:
  assumes "(cur, f, False) = scan R d (cs_buf (cdc_read c)) (max (cs_cur c) (m - Suc 0)) g"
    and "\<not> length (cs_buf (cdc_read c)) < m" "\<not> length (cs_buf (cdc_read c)) \<le> cs_cur c"
  shows "length (cs_rest (cdc_read c)) + length (cs_buf (cdc_read c)) = length (cs_rest c) + length (cs_buf c) \<and>
    (length (cs_rest (cdc_read c)) < length (cs_rest c) \<or> length (cs_rest (cdc_read c)) = length (cs_rest c) \<and>
       length (cs_buf (cdc_read c)) - cur < length (cs_buf c) - cs_cur c)"
proof -
  have "max (cs_cur c) (m - Suc 0) \<le> length (cs_buf (cdc_read c))" using assms(2,3) by simp
  then show ?thesis
    using scan_range [OF assms(1) [symmetric]] cdc_read_length [of c] cdc_read_progress [of c] assms(3) by auto
qed

function cdc_loop :: "libs \<Rightarrow> rabin \<Rightarrow> 's write_block_func \<Rightarrow> nat \<Rightarrow> 's cdc_state \<Rightarrow> bool \<times> 's cdc_state" where
  "cdc_loop L R wb expected_size c0 =
     (let c = cdc_read c0; d = cs_descr c; tail = length (cs_buf c); block_min_sz = unat (cf_block_min_sz d) in
      if cf_file_size d > expected_size then (False, c)
      else if tail < block_min_sz \<or> cs_cur c \<ge> tail then
        (if tail > 0 then write_cdc_block wb tail c else (True, c))
      else
        (case scan R d (cs_buf c) (max (cs_cur c) (block_min_sz - 1)) (cs_finger c) of
           (cur, fingerprint, found) \<Rightarrow>
             (let c = c\<lparr>cs_cur := cur, cs_finger := fingerprint\<rparr> in
              if found then
                (case write_cdc_block wb (cur + 1) c of
                   (False, c') \<Rightarrow> (False, c')
                 | (True, c') \<Rightarrow> cdc_loop L R wb expected_size c')
              else cdc_loop L R wb expected_size c)))"
  by auto
termination
proof (relation "measures [\<lambda>(_, _, _, _, c). length (cs_rest c) + length (cs_buf c), \<lambda>(_, _, _, _, c). length (cs_rest c),
    \<lambda>(_, _, _, _, c). length (cs_buf c) - cs_cur c]", goal_cases)
  case 1
  show ?case by (rule wf_measures)
next
  case 2
  then show ?case by (auto dest!: found_less)
next
  case 3
  then show ?case by (auto dest!: not_found_less)
qed

declare cdc_loop.simps [simp del]

definition file_chunk_cdc ::
    "libs \<Rightarrow> rabin \<Rightarrow> 's write_block_func \<Rightarrow> bytes \<Rightarrow> nat \<Rightarrow> cdc_file \<Rightarrow> int \<Rightarrow> 's \<Rightarrow> int \<times> cdc_file \<times> int \<times> 's" where
  "file_chunk_cdc L R wb content st_size d indexed s =
     (case cdc_loop L R wb st_size
             \<lparr>cs_rest = content, cs_buf = [], cs_cur = 0, cs_finger = 0, cs_offset = 0, cs_ctx = [],
              cs_descr = init_cdc_file_descriptor st_size d, cs_indexed = indexed, cs_store = s\<rparr> of
        (False, c) \<Rightarrow> (-1, cs_descr c, cs_indexed c, cs_store c)
      | (True, c) \<Rightarrow>
          (0, (cs_descr c)\<lparr>cf_file_sum := lib_sha1 L (cs_ctx c)\<rparr>, cs_indexed c, cs_store c))"

section \<open>The chunks are a partition\<close>

text \<open>Storing a list of chunks one after the other: their checksums and the state.\<close>

fun write_chunks :: "'s write_block_func \<Rightarrow> u32 \<Rightarrow> bytes list \<Rightarrow> 's \<Rightarrow> bytes list \<times> 's" where
  "write_chunks wb off [] s = ([], s)"
| "write_chunks wb off (c # cs) s =
     (case wb \<lparr>cd_offset = scast off, cd_buf = c\<rparr> s of
        (_, checksum, s1) \<Rightarrow>
          (case write_chunks wb (off + of_nat (length c)) cs s1 of
             (sums, s2) \<Rightarrow> (checksum # sums, s2)))"

fun writes_ok :: "'s write_block_func \<Rightarrow> u32 \<Rightarrow> bytes list \<Rightarrow> 's \<Rightarrow> bool" where
  "writes_ok wb off [] s = True"
| "writes_ok wb off (c # cs) s =
     (case wb \<lparr>cd_offset = scast off, cd_buf = c\<rparr> s of
        (ret, _, s1) \<Rightarrow> 0 \<le> ret \<and> writes_ok wb (off + of_nat (length c)) cs s1)"

definition sizes_ok :: "cdc_file \<Rightarrow> bool" where
  "sizes_ok d \<longleftrightarrow> 0 < unat (cf_block_min_sz d) \<and> unat (cf_block_min_sz d) + READ_SIZE \<le> unat (cf_block_max_sz d)"

definition cdc_inv :: "nat \<Rightarrow> 's cdc_state \<Rightarrow> bool" where
  "cdc_inv E c \<longleftrightarrow> sizes_ok (cs_descr c) \<and> length (cs_buf c) < unat (cf_block_max_sz (cs_descr c)) \<and>
     cs_cur c \<le> length (cs_buf c) \<and> cf_file_size (cs_descr c) + length (cs_rest c) \<le> E \<and>
     cf_block_nr (cs_descr c) * unat (cf_block_min_sz (cs_descr c)) + length (cs_buf c) + length (cs_rest c)
       \<le> cf_max_block_nr (cs_descr c) * unat (cf_block_min_sz (cs_descr c))"

text \<open>What a run of the loop from \<open>c\<close> to \<open>c'\<close> did, in chunks.\<close>

definition chunked :: "'s write_block_func \<Rightarrow> 's cdc_state \<Rightarrow> bytes list \<Rightarrow> 's cdc_state \<Rightarrow> bool" where
  "chunked wb c chunks c' \<longleftrightarrow>
     concat chunks = cs_buf c @ cs_rest c \<and> writes_ok wb (cs_offset c) chunks (cs_store c) \<and>
     list_all (\<lambda>b. unat (cf_block_min_sz (cs_descr c)) \<le> length b) (butlast chunks) \<and>
     list_all (\<lambda>b. b \<noteq> [] \<and> length b \<le> unat (cf_block_max_sz (cs_descr c))) chunks \<and>
     (\<exists>sums. write_chunks wb (cs_offset c) chunks (cs_store c) = (sums, cs_store c') \<and>
        cf_blk_sha1s (cs_descr c') = cf_blk_sha1s (cs_descr c) @ sums \<and>
        cs_ctx c' = cs_ctx c @ concat (map (take 20) sums)) \<and>
     cf_block_nr (cs_descr c') = cf_block_nr (cs_descr c) + length chunks \<and>
     cf_block_nr (cs_descr c') \<le> cf_max_block_nr (cs_descr c) \<and>
     cf_file_size (cs_descr c') = cf_file_size (cs_descr c) + length (cs_rest c) \<and>
     cs_indexed c' = cs_indexed c + int (length (cs_buf c @ cs_rest c))"

lemma scan_not_found:
  "scan R d buf cur f = (cur', f', False) \<Longrightarrow> cur < length buf \<Longrightarrow> length buf < unat (cf_block_max_sz d)"
proof (induction R d buf cur f rule: scan.induct)
  case (1 R d buf cur f)
  then have nb: "\<not> is_break d cur (next_finger R d buf cur f)"
    by (auto simp: scan.simps [of R d buf cur] split: if_splits)
  then have "scan R d buf (cur + 1) (next_finger R d buf cur f) = (cur', f', False)"
    using 1 by (simp add: scan.simps [of R d buf cur])
  from 1(1) [OF 1(3) nb this] show ?case
    using 1(3) nb by (cases "cur + 1 < length buf") (auto simp: is_break_def Let_def)
qed

lemma cdc_read_descr [simp]:
  "cf_block_min_sz (cs_descr (cdc_read c)) = cf_block_min_sz (cs_descr c)"
  "cf_block_max_sz (cs_descr (cdc_read c)) = cf_block_max_sz (cs_descr c)"
  "cf_block_nr (cs_descr (cdc_read c)) = cf_block_nr (cs_descr c)"
  "cf_max_block_nr (cs_descr (cdc_read c)) = cf_max_block_nr (cs_descr c)"
  "cf_blk_sha1s (cs_descr (cdc_read c)) = cf_blk_sha1s (cs_descr c)"
  "sizes_ok (cs_descr (cdc_read c)) = sizes_ok (cs_descr c)"
  by (simp_all add: cdc_read_def Let_def sizes_ok_def)

lemma cdc_read_size: "cf_file_size (cs_descr (cdc_read c)) + length (cs_rest (cdc_read c))
    = cf_file_size (cs_descr c) + length (cs_rest c)"
  by (simp add: cdc_read_def Let_def)

lemma cdc_read_inv:
  assumes "cdc_inv E c"
  shows "length (cs_buf (cdc_read c)) \<le> unat (cf_block_max_sz (cs_descr c))"
    and "length (cs_buf (cdc_read c)) < unat (cf_block_min_sz (cs_descr c)) \<or> cs_cur c \<ge> length (cs_buf (cdc_read c))
      \<Longrightarrow> cs_rest (cdc_read c) = []"
    and "cs_cur c \<le> length (cs_buf (cdc_read c))"
  using assms by (auto simp: cdc_inv_def cdc_read_def read_size_def sizes_ok_def READ_SIZE_def Let_def split: if_splits)

lemma room:
  assumes "nr * m + (k + r) \<le> mx * m" "0 < (k :: nat)"
  shows "nr < mx"
proof -
  have "nr * m < mx * m" using assms by linarith
  then show ?thesis by simp
qed

lemma write_step:
  assumes "cf_block_nr (cs_descr c) < cf_max_block_nr (cs_descr c)"
    and "\<not> fst (wb \<lparr>cd_offset = scast (cs_offset c), cd_buf = take n (cs_buf c)\<rparr> (cs_store c)) < 0"
  obtains checksum s c' where "write_cdc_block wb n c = (True, c')"
    "snd (wb \<lparr>cd_offset = scast (cs_offset c), cd_buf = take n (cs_buf c)\<rparr> (cs_store c)) = (checksum, s)"
    "c' = c\<lparr>cs_descr := (cs_descr c)\<lparr>cf_blk_sha1s := cf_blk_sha1s (cs_descr c) @ [checksum],
              cf_block_nr := cf_block_nr (cs_descr c) + 1\<rparr>,
            cs_ctx := cs_ctx c @ take 20 checksum, cs_offset := cs_offset c + of_nat n,
            cs_buf := drop n (cs_buf c), cs_cur := 0, cs_store := s, cs_indexed := cs_indexed c + int n\<rparr>"
proof (cases "wb \<lparr>cd_offset = scast (cs_offset c), cd_buf = take n (cs_buf c)\<rparr> (cs_store c)")
  case (fields ret checksum s)
  then show ?thesis using that assms by (simp add: write_cdc_block_def)
qed

lemma write_step_fails:
  assumes "cf_block_nr (cs_descr c) < cf_max_block_nr (cs_descr c)"
    and "fst (wb \<lparr>cd_offset = scast (cs_offset c), cd_buf = take n (cs_buf c)\<rparr> (cs_store c)) < 0"
  obtains c' where "write_cdc_block wb n c = (False, c')"
  using assms that
  by (cases "wb \<lparr>cd_offset = scast (cs_offset c), cd_buf = take n (cs_buf c)\<rparr> (cs_store c)")
    (simp add: write_cdc_block_def)

lemma chunked_cons:
  assumes chunks: "chunked wb c' chunks c''"
    and wb: "snd (wb \<lparr>cd_offset = scast (cs_offset c), cd_buf = b\<rparr> (cs_store c)) = (checksum, cs_store c')"
    and wok: "\<not> fst (wb \<lparr>cd_offset = scast (cs_offset c), cd_buf = b\<rparr> (cs_store c)) < 0"
    and data: "b @ cs_buf c' @ cs_rest c' = cs_buf c @ cs_rest c" "cs_offset c' = cs_offset c + of_nat (length b)"
    and b: "chunks = [] \<or> unat (cf_block_min_sz (cs_descr c)) \<le> length b" "b \<noteq> []" "length b \<le> unat (cf_block_max_sz (cs_descr c))"
    and descr: "cf_block_min_sz (cs_descr c') = cf_block_min_sz (cs_descr c)" "cf_block_max_sz (cs_descr c') = cf_block_max_sz (cs_descr c)"
      "cf_max_block_nr (cs_descr c') = cf_max_block_nr (cs_descr c)"
      "cf_block_nr (cs_descr c') = cf_block_nr (cs_descr c) + 1"
      "cf_blk_sha1s (cs_descr c') = cf_blk_sha1s (cs_descr c) @ [checksum]" "cs_ctx c' = cs_ctx c @ take 20 checksum"
      "cf_file_size (cs_descr c') + length (cs_rest c') = cf_file_size (cs_descr c) + length (cs_rest c)"
      "cs_indexed c' = cs_indexed c + int (length b)"
  shows "chunked wb c (b # chunks) c''"
proof -
  have len: "length b + (length (cs_buf c') + length (cs_rest c')) = length (cs_buf c) + length (cs_rest c)"
    using arg_cong [OF data(1), of length] by simp
  have "concat (b # chunks) = cs_buf c @ cs_rest c" using chunks data(1) by (simp add: chunked_def)
  moreover have "writes_ok wb (cs_offset c) (b # chunks) (cs_store c)"
    using chunks wb wok data(2) by (auto simp: chunked_def split: prod.splits)
  moreover have "list_all (\<lambda>b. unat (cf_block_min_sz (cs_descr c)) \<le> length b) (butlast (b # chunks))"
    "list_all (\<lambda>b. b \<noteq> [] \<and> length b \<le> unat (cf_block_max_sz (cs_descr c))) (b # chunks)"
    using chunks b descr(1,2) by (auto simp: chunked_def)
  moreover obtain sums where "write_chunks wb (cs_offset c') chunks (cs_store c') = (sums, cs_store c'')"
    "cf_blk_sha1s (cs_descr c'') = cf_blk_sha1s (cs_descr c') @ sums" "cs_ctx c'' = cs_ctx c' @ concat (map (take 20) sums)"
    using chunks by (auto simp: chunked_def)
  then have "write_chunks wb (cs_offset c) (b # chunks) (cs_store c) = (checksum # sums, cs_store c'') \<and>
    cf_blk_sha1s (cs_descr c'') = cf_blk_sha1s (cs_descr c) @ (checksum # sums) \<and>
    cs_ctx c'' = cs_ctx c @ concat (map (take 20) (checksum # sums))"
    using wb data(2) descr by (auto split: prod.splits)
  ultimately show ?thesis
    using chunks descr len unfolding chunked_def by (intro conjI exI [of _ "checksum # sums"]) simp_all
qed

lemma chunked_frame:
  assumes "chunked wb c chunks c'" "cs_buf c @ cs_rest c = cs_buf c0 @ cs_rest c0"
    "cs_descr c = (cs_descr c0)\<lparr>cf_file_size := cf_file_size (cs_descr c)\<rparr>"
    "cf_file_size (cs_descr c) + length (cs_rest c) = cf_file_size (cs_descr c0) + length (cs_rest c0)"
    "cs_offset c = cs_offset c0" "cs_store c = cs_store c0" "cs_ctx c = cs_ctx c0" "cs_indexed c = cs_indexed c0"
  shows "chunked wb c0 chunks c'"
proof -
  have "cf_block_min_sz (cs_descr c) = cf_block_min_sz (cs_descr c0)" "cf_block_max_sz (cs_descr c) = cf_block_max_sz (cs_descr c0)"
    "cf_max_block_nr (cs_descr c) = cf_max_block_nr (cs_descr c0)" "cf_block_nr (cs_descr c) = cf_block_nr (cs_descr c0)"
    "cf_blk_sha1s (cs_descr c) = cf_blk_sha1s (cs_descr c0)"
    using assms(3) by (metis cdc_file.select_convs cdc_file.surjective cdc_file.update_convs)+
  then show ?thesis using assms unfolding chunked_def by auto
qed

lemma cdc_read_record: "cs_descr (cdc_read c) = (cs_descr c)\<lparr>cf_file_size := cf_file_size (cs_descr (cdc_read c))\<rparr>"
  by (simp add: cdc_read_def Let_def)

lemma chunked_nil:
  "cs_buf c = [] \<Longrightarrow> cs_rest c = [] \<Longrightarrow> cf_block_nr (cs_descr c) \<le> cf_max_block_nr (cs_descr c) \<Longrightarrow> chunked wb c [] c"
  by (simp add: chunked_def)

lemma cdc_loop_chunks:
  "cdc_inv E c0 \<Longrightarrow> \<exists>chunks c'. cdc_loop L R wb E c0 = (True, c') \<and> chunked wb c0 chunks c' \<or>
     cdc_loop L R wb E c0 = (False, c') \<and> (\<exists>ch s. fst (wb ch s) < 0)"
proof (induction L R wb E c0 rule: cdc_loop.induct)
  case (1 L R wb E c0)
  let ?c = "cdc_read c0" and ?m = "unat (cf_block_min_sz (cs_descr c0))"
  let ?scan = "scan R (cs_descr ?c) (cs_buf ?c) (max (cs_cur c0) (?m - 1)) (cs_finger c0)"
  note inv = 1(3) [unfolded cdc_inv_def] and read = cdc_read_inv [OF 1(3)]
  have size: "\<not> cf_file_size (cs_descr ?c) > E" using inv cdc_read_size [of c0] by linarith
  have m: "0 < ?m" using inv by (simp add: sizes_ok_def)
  have nr: "cf_block_nr (cs_descr c0) * ?m + (length (cs_buf ?c) + length (cs_rest ?c)) \<le> cf_max_block_nr (cs_descr c0) * ?m"
    using inv cdc_read_length [of c0] by simp
  note loop = cdc_loop.simps [of L R wb E c0]
  have frame: "chunked wb ?c chunks c' \<Longrightarrow> chunked wb c0 chunks c'" for chunks c'
    by (erule chunked_frame [OF _ _ cdc_read_record]) (simp_all add: cdc_read_total cdc_read_size)
  show ?case
  proof (cases "length (cs_buf ?c) < ?m \<or> length (cs_buf ?c) \<le> cs_cur c0")
    case True
    then have rest: "cs_rest ?c = []" by (rule read(2))
    show ?thesis
    proof (cases "cs_buf ?c = []")
      case empty: True
      have "cdc_loop L R wb E c0 = (True, ?c)" using size True empty by (simp add: loop Let_def)
      moreover
      have "cf_block_nr (cs_descr c0) * ?m \<le> cf_max_block_nr (cs_descr c0) * ?m" using nr by linarith
      then have "cf_block_nr (cs_descr c0) \<le> cf_max_block_nr (cs_descr c0)" using m by simp
      then have "chunked wb ?c [] ?c" using empty rest by (intro chunked_nil) simp_all
      ultimately show ?thesis using frame by blast
    next
      case False
      then have r: "cf_block_nr (cs_descr ?c) < cf_max_block_nr (cs_descr ?c)"
        using room [OF nr] by simp
      let ?w = "wb \<lparr>cd_offset = scast (cs_offset ?c), cd_buf = take (length (cs_buf ?c)) (cs_buf ?c)\<rparr> (cs_store ?c)"
      show ?thesis
      proof (cases "fst ?w < 0")
        case fail: True
        obtain c' where "write_cdc_block wb (length (cs_buf ?c)) ?c = (False, c')" by (rule write_step_fails [where n = "length (cs_buf ?c)" and wb = wb, OF r fail])
        then have "cdc_loop L R wb E c0 = (False, c')" using size True False by (simp add: loop Let_def)
        then show ?thesis using fail by blast
      next
        case wok: False
      obtain sum s c' where c': "write_cdc_block wb (length (cs_buf ?c)) ?c = (True, c')"
        "snd (wb \<lparr>cd_offset = scast (cs_offset ?c), cd_buf = take (length (cs_buf ?c)) (cs_buf ?c)\<rparr> (cs_store ?c)) = (sum, s)"
        "c' = ?c\<lparr>cs_descr := (cs_descr ?c)\<lparr>cf_blk_sha1s := cf_blk_sha1s (cs_descr ?c) @ [sum],
              cf_block_nr := cf_block_nr (cs_descr ?c) + 1\<rparr>,
            cs_ctx := cs_ctx ?c @ take 20 sum, cs_offset := cs_offset ?c + of_nat (length (cs_buf ?c)),
            cs_buf := drop (length (cs_buf ?c)) (cs_buf ?c), cs_cur := 0, cs_store := s,
            cs_indexed := cs_indexed ?c + int (length (cs_buf ?c))\<rparr>"
        by (rule write_step [where n = "length (cs_buf ?c)" and wb = wb, OF r wok])
      have "cdc_loop L R wb E c0 = (True, c')" using size True False c'(1) by (simp add: loop Let_def)
      moreover have "chunked wb c' [] c'" using c'(3) rest r by (intro chunked_nil) simp_all
      then have "chunked wb ?c [cs_buf ?c] c'"
        by (rule chunked_cons [where checksum = sum]) (use c' wok False rest read(1) in simp_all)
      ultimately show ?thesis using frame by blast
      qed
    qed
  next
    case False
    obtain cur f b where sc: "?scan = (cur, f, b)" by (cases ?scan)
    have k: "max (cs_cur c0) (?m - 1) < length (cs_buf ?c)" using False m by linarith
    note range = scan_range [OF sc less_imp_le [OF k]]
    have more: "\<not> (length (cs_buf ?c) < unat (cf_block_min_sz (cs_descr ?c)) \<or> length (cs_buf ?c) \<le> cs_cur ?c)"
      using False by simp
    have at: "(cur, f, b) = scan R (cs_descr ?c) (cs_buf ?c)
        (max (cs_cur ?c) (unat (cf_block_min_sz (cs_descr ?c)) - 1)) (cs_finger ?c)"
      using sc by simp
    let ?c1 = "?c\<lparr>cs_cur := cur, cs_finger := f\<rparr>"
    show ?thesis
    proof (cases b)
      case True
      then have cur: "cur < length (cs_buf ?c)" "?m \<le> cur + 1" using range by auto
      have ne: "cs_buf ?c \<noteq> []" using cur(1) by auto
      have r: "cf_block_nr (cs_descr ?c1) < cf_max_block_nr (cs_descr ?c1)"
        using room [OF nr le_less_trans [OF le0 cur(1)]] by simp
      let ?w = "wb \<lparr>cd_offset = scast (cs_offset ?c1), cd_buf = take (cur + 1) (cs_buf ?c1)\<rparr> (cs_store ?c1)"
      show ?thesis
      proof (cases "fst ?w < 0")
        case fail: True
        obtain c' where "write_cdc_block wb (cur + 1) ?c1 = (False, c')" by (rule write_step_fails [where n = "cur + 1" and wb = wb, OF r fail])
        then have "cdc_loop L R wb E c0 = (False, c')" using size False sc True by (simp add: loop Let_def)
        then show ?thesis using fail by blast
      next
        case wok: False
      obtain sum s c' where c': "write_cdc_block wb (cur + 1) ?c1 = (True, c')"
        "snd (wb \<lparr>cd_offset = scast (cs_offset ?c1), cd_buf = take (cur + 1) (cs_buf ?c1)\<rparr> (cs_store ?c1)) = (sum, s)"
        "c' = ?c1\<lparr>cs_descr := (cs_descr ?c1)\<lparr>cf_blk_sha1s := cf_blk_sha1s (cs_descr ?c1) @ [sum],
              cf_block_nr := cf_block_nr (cs_descr ?c1) + 1\<rparr>,
            cs_ctx := cs_ctx ?c1 @ take 20 sum, cs_offset := cs_offset ?c1 + of_nat (cur + 1),
            cs_buf := drop (cur + 1) (cs_buf ?c1), cs_cur := 0, cs_store := s,
            cs_indexed := cs_indexed ?c1 + int (cur + 1)\<rparr>"
        by (rule write_step [where n = "cur + 1" and wb = wb, OF r wok])
      have run: "cdc_loop L R wb E c0 = cdc_loop L R wb E c'"
        using size False sc True c'(1) by (simp add: loop Let_def)
      have "cf_block_nr (cs_descr c0) * ?m + ?m + length (drop (cur + 1) (cs_buf ?c)) + length (cs_rest ?c)
          \<le> cf_max_block_nr (cs_descr c0) * ?m"
        using nr cur by simp
      then have inv': "cdc_inv E c'"
        using inv read(1) cur(1) cdc_read_size [of c0] unfolding cdc_inv_def c'(3) by (auto simp: sizes_ok_def)
      have IH: "\<exists>chunks c''. cdc_loop L R wb E c' = (True, c'') \<and> chunked wb c' chunks c'' \<or>
          cdc_loop L R wb E c' = (False, c'') \<and> (\<exists>ch s. fst (wb ch s) < 0)"
        by (rule 1(1) [OF refl refl refl refl size more at refl refl True c'(1) [symmetric] refl inv'])
      have "chunked wb ?c (take (cur + 1) (cs_buf ?c) # chunks) c''" if "chunked wb c' chunks c''" for chunks c''
        by (rule chunked_cons [where checksum = sum, OF that]) (use c' wok cur read(1) ne in simp_all)
      then show ?thesis using IH frame unfolding run by blast
      qed
    next
      case nf: False
      have lt: "length (cs_buf ?c) < unat (cf_block_max_sz (cs_descr ?c))"
      proof -
        have "?scan = (cur, f, False)" using sc nf by simp
        then show ?thesis by (rule scan_not_found [OF _ k])
      qed
      have cur: "cur = length (cs_buf ?c)" using range nf by simp
      have run: "cdc_loop L R wb E c0 = cdc_loop L R wb E ?c1"
        using size False sc nf by (simp add: loop Let_def)
      have inv': "cdc_inv E ?c1"
        using inv lt cur nr cdc_read_size [of c0] unfolding cdc_inv_def by (auto simp: sizes_ok_def)
      have IH: "\<exists>chunks c''. cdc_loop L R wb E ?c1 = (True, c'') \<and> chunked wb ?c1 chunks c'' \<or>
          cdc_loop L R wb E ?c1 = (False, c'') \<and> (\<exists>ch s. fst (wb ch s) < 0)"
        by (rule 1(2) [OF refl refl refl refl size more at refl refl nf inv'])
      have "chunked wb c0 chunks c''" if "chunked wb ?c1 chunks c''" for chunks c''
        by (rule frame, rule chunked_frame [OF that]) simp_all
      then show ?thesis using IH unfolding run by blast
    qed
  qed
qed

lemma ceil_div: "0 < m \<Longrightarrow> n \<le> (n + m - 1) div m * (m :: nat)"
proof -
  assume m: "0 < m"
  have "n + m - 1 = (n + m - 1) div m * m + (n + m - 1) mod m" by simp
  moreover have "(n + m - 1) mod m < m" using m by simp
  ultimately show ?thesis by linarith
qed

text \<open>What it means that \<open>chunks\<close> are the chunks of a file, for the descriptor before and after.\<close>

definition chunk_partition :: "cdc_file \<Rightarrow> bytes \<Rightarrow> bytes list \<Rightarrow> bool" where
  "chunk_partition d content chunks \<longleftrightarrow>
     concat chunks = content \<and>
     (\<forall>b\<in>set (butlast chunks). unat (cf_block_min_sz d) \<le> length b) \<and>
     (\<forall>b\<in>set chunks. b \<noteq> [] \<and> length b \<le> unat (cf_block_max_sz d)) \<and>
     length chunks \<le> cf_max_block_nr d"

lemma file_chunk_cdc_cases:
  assumes "cf_file_size d = 0" "sizes_ok (init_cdc_file_descriptor (length content) d)"
    and run: "file_chunk_cdc L R wb content (length content) d indexed s = (ret, d', idx, s')"
  shows "(ret = 0 \<and> (\<exists>chunks sums. chunk_partition (init_cdc_file_descriptor (length content) d) content chunks \<and>
        writes_ok wb 0 chunks s \<and> write_chunks wb 0 chunks s = (sums, s') \<and>
        cf_blk_sha1s d' = sums \<and> cf_block_nr d' = length chunks \<and> cf_file_size d' = length content \<and>
        cf_file_sum d' = lib_sha1 L (concat (map (take 20) sums)) \<and> idx = indexed + int (length content))) \<or>
    ret = -1 \<and> (\<exists>ch s. fst (wb ch s) < 0)"
proof -
  let ?d = "init_cdc_file_descriptor (length content) d"
  let ?c = "\<lparr>cs_rest = content, cs_buf = [], cs_cur = 0, cs_finger = 0, cs_offset = 0, cs_ctx = [],
              cs_descr = ?d, cs_indexed = indexed, cs_store = s\<rparr>"
  have d: "cf_block_nr ?d = 0" "cf_blk_sha1s ?d = []" "cf_file_size ?d = 0"
    "cf_max_block_nr ?d = (length content + unat (cf_block_min_sz ?d) - 1) div unat (cf_block_min_sz ?d)"
    using assms(1) by (simp_all add: init_cdc_file_descriptor_def Let_def)
  have "cdc_inv (length content) ?c"
    using assms(2) d ceil_div [of "unat (cf_block_min_sz ?d)" "length content"] by (simp add: cdc_inv_def sizes_ok_def)
  then obtain chunks c' where c': "cdc_loop L R wb (length content) ?c = (True, c') \<and> chunked wb ?c chunks c' \<or>
      cdc_loop L R wb (length content) ?c = (False, c') \<and> (\<exists>ch s. fst (wb ch s) < 0)"
    using cdc_loop_chunks [of "length content" ?c L R wb] by blast
  then show ?thesis
  proof (elim disjE conjE)
    assume fin: "cdc_loop L R wb (length content) ?c = (True, c')" "chunked wb ?c chunks c'"
    then obtain sums where "write_chunks wb 0 chunks s = (sums, cs_store c')" "cf_blk_sha1s (cs_descr c') = sums"
      "cs_ctx c' = concat (map (take 20) sums)" "writes_ok wb 0 chunks s"
      using d by (auto simp: chunked_def)
    moreover have "chunk_partition ?d content chunks" using fin(2) d(1) by (simp add: chunked_def chunk_partition_def list_all_iff)
    ultimately show ?thesis
      using run fin d by (intro disjI1 conjI exI [of _ chunks] exI [of _ sums]) (auto simp: file_chunk_cdc_def chunked_def)
  qed (use run in \<open>simp add: file_chunk_cdc_def\<close>)
qed

text \<open>C12: Chunking a file whose size did not change always succeeds when its chunks can be stored, and the
  chunks, in the order they are stored, make up the file: every one but the last has at least the
  minimal size, none is empty or larger than the maximal size, there are never more than the block
  table has room for, the descriptor records their checksums in order, and the progress counter ends
  at the size of the file.  This holds for any fingerprint tables.\<close>

theorem file_chunk_cdc_partitions:
  assumes "\<And>ch s. 0 \<le> fst (wb ch s)" "cf_file_size d = 0"
    and sizes: "sizes_ok (init_cdc_file_descriptor (length content) d)"
  shows "\<exists>chunks d'. file_chunk_cdc L R wb content (length content) d indexed s
      = (0, d', indexed + int (length content), snd (write_chunks wb 0 chunks s)) \<and>
    chunk_partition (init_cdc_file_descriptor (length content) d) content chunks \<and>
    cf_blk_sha1s d' = fst (write_chunks wb 0 chunks s) \<and> cf_block_nr d' = length chunks \<and>
    cf_file_size d' = length content \<and> cf_file_sum d' = lib_sha1 L (concat (map (take 20) (cf_blk_sha1s d')))"
proof -
  obtain ret d' idx s' where run: "file_chunk_cdc L R wb content (length content) d indexed s = (ret, d', idx, s')"
    by (metis surj_pair)
  show ?thesis
    using file_chunk_cdc_cases [OF assms(2,3) run] assms(1) run by (metis fst_conv snd_conv not_less)
qed

definition demo_cdc :: cdc_file where
  "demo_cdc = \<lparr>cf_block_min_sz = 64, cf_block_max_sz = 8192, cf_block_sz = 1024, cf_file_size = 0, cf_block_nr = 7,
     cf_blk_sha1s = [], cf_max_block_nr = 0, cf_file_sum = []\<rparr>"

definition demo_write :: "bytes list write_block_func" where
  "demo_write ch s = (0, replicate 20 (CHR ''k''), s @ [cd_buf ch])"

definition demo_sha1 :: libs where
  "demo_sha1 = \<lparr>lib_sha1 = (\<lambda>d. replicate 20 (CHR ''h'')), lib_json_dumps = (\<lambda>_. []), lib_json_loadb = (\<lambda>_. None),
     lib_compress = Some, lib_decompress = Some, lib_uuid_parse = (\<lambda>_. True)\<rparr>"

theorem file_chunk_cdc_partitions_witness:
  "\<exists>chunks d'. file_chunk_cdc demo_sha1 (rabin_init 48) demo_write (replicate 100 (CHR ''x'')) 100 demo_cdc 0 []
      = (0, d', 100, snd (write_chunks demo_write 0 chunks [])) \<and> concat chunks = replicate 100 (CHR ''x'') \<and>
    length chunks \<le> 2 \<and> cf_block_nr d' = length chunks"
proof -
  have "0 \<le> fst (demo_write ch s)" for ch s by (simp add: demo_write_def)
  moreover have "cf_file_size demo_cdc = 0" by (simp add: demo_cdc_def)
  moreover have "sizes_ok (init_cdc_file_descriptor (length (replicate 100 (CHR ''x''))) demo_cdc)"
    and "cf_max_block_nr (init_cdc_file_descriptor (length (replicate 100 (CHR ''x''))) demo_cdc) = 2"
    by (simp_all add: sizes_ok_def init_cdc_file_descriptor_def demo_cdc_def READ_SIZE_def Let_def)
  ultimately show ?thesis
    using file_chunk_cdc_partitions [of demo_write demo_cdc "replicate 100 (CHR ''x'')" demo_sha1 "rabin_init 48" 0 "[]"]
    by (auto simp: chunk_partition_def)
qed

end
