(* ===== verification/FileIndex.thy ===== *)
theory FileIndex
  imports BlockMgr Cdc FsObject "HOL-Library.Multiset" "HOL-Library.Sublist"
begin

text \<open>
  Indexing files into blocks (\<open>common/fs-mgr.c\<close>): a file is cut into chunks, by content or of fixed
  size, every chunk is stored as a block under its hash, encrypted first when the library is, and a
  seafile object lists the blocks; blocks uploaded separately are checked and entered the same way.
  \<open>checkout_block\<close> reads a block back.
\<close>

section \<open>Storing chunks\<close>

text \<open>
  What the code takes from \<open>seafile_encrypt\<close> and \<open>seafile_decrypt\<close> for a key: None is a failure.
\<close>

record seafile_crypt =
  cr_encrypt :: "bytes \<Rightarrow> bytes option"
  cr_decrypt :: "bytes \<Rightarrow> bytes option"

definition do_write_chunk :: "libs \<Rightarrow> string \<Rightarrow> block_store \<Rightarrow> bytes \<Rightarrow> bytes \<Rightarrow> int \<times> block_store" where
  "do_write_chunk L repo bs checksum buf =
     (let chksum_str = rawdata_to_hex (take 20 checksum) in
      if seaf_block_manager_block_exists L bs repo chksum_str then (0, bs)
      else write_block L bs repo chksum_str buf)"

text \<open>The checksum is what the code leaves in its buffer; nothing when the encryption failed.\<close>

definition seafile_write_chunk ::
    "libs \<Rightarrow> string \<Rightarrow> seafile_crypt option \<Rightarrow> bool \<Rightarrow> block_store write_block_func" where
  "seafile_write_chunk L repo crypt write_data chunk bs =
     (case (case crypt of
              Some c \<Rightarrow> if cd_buf chunk \<noteq> [] then cr_encrypt c (cd_buf chunk) else Some (cd_buf chunk)
            | None \<Rightarrow> Some (cd_buf chunk)) of
        None \<Rightarrow> (-1, [], bs)
      | Some content \<Rightarrow>
          (let checksum = lib_sha1 L content in
           if write_data
           then (case do_write_chunk L repo bs checksum content of (ret, bs') \<Rightarrow> (ret, checksum, bs'))
           else (0, checksum, bs)))"

section \<open>The file object\<close>

text \<open>The memory image of a version 0 file, and the JSON text of later ones, with their ids.\<close>

definition create_seafile_v0 :: "cdc_file \<Rightarrow> bytes \<times> string" where
  "create_seafile_v0 cdc =
     (be_bytes 4 (nat SEAF_METADATA_TYPE_FILE) @ be_bytes 8 (cf_file_size cdc) @
        concat (map (take 20) (take (cf_block_nr cdc) (cf_blk_sha1s cdc))),
      rawdata_to_hex (cf_file_sum cdc))"

definition seafile_doc :: "int \<Rightarrow> cdc_file \<Rightarrow> json" where
  "seafile_doc repo_version cdc =
     (let o1 = json_object_set_int_member [] ''type'' SEAF_METADATA_TYPE_FILE;
          o2 = json_object_set_int_member o1 ''version'' (seafile_version_from_repo_version repo_version);
          o3 = json_object_set_int_member o2 ''size'' (sint (of_nat (cf_file_size cdc) :: u64));
          ids = map (\<lambda>s. JString (rawdata_to_hex (take 20 s))) (take (cf_block_nr cdc) (cf_blk_sha1s cdc));
          o4 = json_object_set_new o3 ''block_ids'' (JArray ids)
      in JObject o4)"

definition create_seafile_json :: "libs \<Rightarrow> int \<Rightarrow> cdc_file \<Rightarrow> bytes \<times> string" where
  "create_seafile_json L repo_version cdc =
     (let data = lib_json_dumps L (seafile_doc repo_version cdc) in (data, sha1_hex L data))"

definition seaf_fs_manager_calculate_seafile_id_json :: "libs \<Rightarrow> int \<Rightarrow> cdc_file \<Rightarrow> bytes" where
  "seaf_fs_manager_calculate_seafile_id_json L repo_version cdc =
     lib_sha1 L (lib_json_dumps L (seafile_doc repo_version cdc))"

text \<open>The result, the raw id that a success leaves in \<open>obj_sha1\<close>, and the store.\<close>

definition write_seafile ::
    "libs \<Rightarrow> obj_store \<Rightarrow> string \<Rightarrow> int \<Rightarrow> cdc_file \<Rightarrow> int \<times> bytes option \<times> obj_store" where
  "write_seafile L st repo version cdc =
     (case (if version > 0 then create_seafile_json L version cdc else create_seafile_v0 cdc) of
        (object_data, seafile_id) \<Rightarrow>
          (case (if seaf_obj_store_obj_exists L st repo seafile_id then (0, st)
                 else (case (if version > 0 then lib_compress L object_data else Some object_data) of
                         None \<Rightarrow> (-1, st)
                       | Some data \<Rightarrow>
                           (case seaf_obj_store_write_obj L st repo seafile_id data of
                              (r, st') \<Rightarrow> (if r < 0 then -1 else 0, st')))) of
             (ret, st') \<Rightarrow> (ret, if ret = 0 then hex_to_rawdata 20 seafile_id else None, st')))"

section \<open>Fixed-size chunks\<close>

text \<open>
  \<open>chunking_worker\<close>: the part of the file at the chunk's offset, in a zeroed buffer of its length, is
  stored and its checksum put into the slot of the array its offset gives.  A worker's steps touch
  nothing another worker reads but the block store, through operations that are atomic there.
\<close>

definition chunking_worker ::
    "libs \<Rightarrow> string \<Rightarrow> seafile_crypt option \<Rightarrow> nat \<Rightarrow> bytes \<Rightarrow> nat \<Rightarrow> cdc_chunk \<times> nat \<Rightarrow> bytes list \<times> block_store
     \<Rightarrow> int \<times> bytes list \<times> block_store" where
  "chunking_worker L repo crypt fixed_block_size content st_size task st =
     (case task of (chunk, len) \<Rightarrow>
      case st of (sums, bs) \<Rightarrow>
        (let got = take len (drop (unat (cd_offset chunk)) content);
             buf = got @ replicate (len - length got) (CHR 0x00)
         in case seafile_write_chunk L repo crypt True (chunk\<lparr>cd_buf := buf\<rparr>) bs of
              (ret, checksum, bs') \<Rightarrow>
                if ret < 0 then (ret, sums, bs')
                else (ret, sums[unat (cd_offset chunk) div fixed_block_size := checksum], bs')))"

text \<open>The tasks that the loop pushes: offset and length.\<close>

function chunk_tasks :: "nat \<Rightarrow> nat \<Rightarrow> nat \<Rightarrow> (cdc_chunk \<times> nat) list" where
  "chunk_tasks fixed_block_size offset left =
     (if left > 0 \<and> fixed_block_size > 0 then
        (let len = (if left \<ge> fixed_block_size then fixed_block_size else left)
         in (\<lparr>cd_offset = of_nat offset, cd_buf = []\<rparr>, len) # chunk_tasks fixed_block_size (offset + len) (left - len))
      else [])"
  by auto
termination by (relation "measure (\<lambda>(_, _, left). left)") auto

declare chunk_tasks.simps [simp del]

text \<open>Running tasks one after the other in the order they are given, with the least result.\<close>

fun run_tasks :: "('t \<Rightarrow> 's \<Rightarrow> int \<times> 's) \<Rightarrow> 't list \<Rightarrow> 's \<Rightarrow> int \<times> 's" where
  "run_tasks f [] s = (0, s)"
| "run_tasks f (t # ts) s =
     (case f t s of (r, s') \<Rightarrow> (case run_tasks f ts s' of (r', s'') \<Rightarrow> (min r r', s'')))"

text \<open>
  \<open>schedule\<close> is the order in which the thread pool runs the tasks.  A failed task fails the whole; the
  blocks stored by then stay.
\<close>

definition split_file_to_block ::
    "libs \<Rightarrow> string \<Rightarrow> seafile_crypt option \<Rightarrow> nat \<Rightarrow> ((cdc_chunk \<times> nat) list \<Rightarrow> (cdc_chunk \<times> nat) list) \<Rightarrow> bytes \<Rightarrow> nat
     \<Rightarrow> cdc_file \<Rightarrow> block_store \<Rightarrow> int \<times> cdc_file \<times> block_store" where
  "split_file_to_block L repo crypt fixed_block_size schedule content fsize cdc bs =
     (let n_blocks = (fsize + fixed_block_size - 1) div fixed_block_size;
          tasks = schedule (chunk_tasks fixed_block_size 0 fsize)
      in case run_tasks (chunking_worker L repo crypt fixed_block_size content fsize) tasks
                (replicate n_blocks (replicate 20 (CHR 0x00)), bs) of
           (r, sums, bs') \<Rightarrow>
             if r < 0 then (-1, cdc, bs')
             else (0, cdc\<lparr>cf_block_nr := n_blocks, cf_blk_sha1s := sums\<rparr>, bs'))"

section \<open>Indexing a file\<close>

definition CDC_AVERAGE_BLOCK_SIZE :: u32 where "CDC_AVERAGE_BLOCK_SIZE = push_bit 23 1"
definition CDC_MIN_BLOCK_SIZE :: u32 where "CDC_MIN_BLOCK_SIZE = 6 * push_bit 20 1"
definition CDC_MAX_BLOCK_SIZE :: u32 where "CDC_MAX_BLOCK_SIZE = 10 * push_bit 20 1"

definition create_cdc_for_empty_file :: cdc_file where
  "create_cdc_for_empty_file =
     \<lparr>cf_block_min_sz = 0, cf_block_max_sz = 0, cf_block_sz = 0, cf_file_size = 0, cf_block_nr = 0,
      cf_blk_sha1s = [], cf_max_block_nr = 0, cf_file_sum = []\<rparr>"

definition filename_chunk_cdc ::
    "libs \<Rightarrow> rabin \<Rightarrow> 's write_block_func \<Rightarrow> bytes option \<Rightarrow> nat \<Rightarrow> cdc_file \<Rightarrow> int \<Rightarrow> 's \<Rightarrow> int \<times> cdc_file \<times> int \<times> 's" where
  "filename_chunk_cdc L R wb content st_size d indexed s =
     (case content of
        None \<Rightarrow> (-1, d, indexed, s)
      | Some c \<Rightarrow> file_chunk_cdc L R wb c st_size d indexed s)"

text \<open>
  The surroundings of indexing: the libraries, the tables of \<open>rabin_init\<close>, the configured block size
  and the order in which the thread pool runs its tasks.
\<close>

record index_env =
  ie_libs :: libs
  ie_rabin :: rabin
  ie_fixed_block_size :: nat
  ie_schedule :: "(cdc_chunk \<times> nat) list \<Rightarrow> (cdc_chunk \<times> nat) list"

text \<open>
  The chunks of a file that is not empty, with the descriptor that \<open>memset\<close> zeroed: by content, or of
  fixed size.  \<open>content\<close> is None when the file cannot be opened.
\<close>

definition chunk_file ::
    "index_env \<Rightarrow> string \<Rightarrow> int \<Rightarrow> bytes option \<Rightarrow> nat \<Rightarrow> seafile_crypt option \<Rightarrow> bool \<Rightarrow> bool \<Rightarrow> block_store
     \<Rightarrow> int \<times> cdc_file \<times> block_store" where
  "chunk_file E repo version content st_size crypt write_data use_cdc bs =
     (if use_cdc \<or> version = 0 then
        (case filename_chunk_cdc (ie_libs E) (ie_rabin E) (seafile_write_chunk (ie_libs E) repo crypt write_data)
                content st_size
                (create_cdc_for_empty_file\<lparr>cf_block_sz := CDC_AVERAGE_BLOCK_SIZE, cf_block_min_sz := CDC_MIN_BLOCK_SIZE,
                   cf_block_max_sz := CDC_MAX_BLOCK_SIZE\<rparr>) 0 bs of
           (ret, cdc, _, bs') \<Rightarrow> (ret, cdc, bs'))
      else (case content of
              None \<Rightarrow> (-1, create_cdc_for_empty_file, bs)
            | Some c \<Rightarrow>
                split_file_to_block (ie_libs E) repo crypt (ie_fixed_block_size E) (ie_schedule E) c st_size
                  (create_cdc_for_empty_file\<lparr>cf_file_size := st_size\<rparr>) bs))"

text \<open>
  \<open>st\<close> is the mode and size from \<open>seaf_stat\<close>, None when that fails.  The raw id is None where the code
  leaves \<open>sha1\<close> alone; the size is set by a success.
\<close>

definition seaf_fs_manager_index_blocks ::
    "index_env \<Rightarrow> string \<Rightarrow> int \<Rightarrow> (u32 \<times> nat) option \<Rightarrow> bytes option \<Rightarrow> seafile_crypt option \<Rightarrow> bool \<Rightarrow> bool
     \<Rightarrow> obj_store \<times> block_store \<Rightarrow> int \<times> bytes option \<times> nat \<times> obj_store \<times> block_store" where
  "seaf_fs_manager_index_blocks E repo version st content crypt write_data use_cdc stores =
     (case stores of (fs, bs) \<Rightarrow>
      case st of
        None \<Rightarrow> (-1, None, 0, fs, bs)
      | Some (mode, st_size) \<Rightarrow>
          if \<not> S_ISREG mode then (-1, None, 0, fs, bs)
          else if st_size = 0 then (0, Some (replicate 20 (CHR 0x00)), 0, fs, bs)
          else (case chunk_file E repo version content st_size crypt write_data use_cdc bs of
                  (ret, cdc, bs') \<Rightarrow>
                    if ret < 0 then (-1, None, 0, fs, bs')
                    else if \<not> write_data then (0, None, st_size, fs, bs')
                    else (case write_seafile (ie_libs E) fs repo version cdc of
                            (r, sha1, fs') \<Rightarrow>
                              if r < 0 then (-1, None, 0, fs', bs') else (0, sha1, st_size, fs', bs'))))"

section \<open>Blocks that were uploaded\<close>

text \<open>\<open>content\<close> is the file's, None when it cannot be read; \<open>sha1\<close> is the id it should have.\<close>

definition check_and_write_block :: "libs \<Rightarrow> string \<Rightarrow> block_store \<Rightarrow> bytes option \<Rightarrow> bytes \<Rightarrow> int \<times> block_store" where
  "check_and_write_block L repo bs content sha1 =
     (case content of
        None \<Rightarrow> (-1, bs)
      | Some c \<Rightarrow>
          if lib_sha1 L c \<noteq> sha1 then (-1, bs)
          else (case do_write_chunk L repo bs sha1 c of (r, bs') \<Rightarrow> if r < 0 then (-1, bs') else (0, bs')))"

text \<open>
  The loop over the uploaded files and the ids they should have; \<open>readf\<close> reads a file.  The raw id of a
  text that is not hexadecimal is what \<open>hex_to_rawdata_buf\<close> leaves in the buffer.
\<close>

definition add_checksum :: "bytes \<Rightarrow> cdc_file \<Rightarrow> cdc_file" where
  "add_checksum sha1 cdc =
     cdc\<lparr>cf_blk_sha1s := cf_blk_sha1s cdc @ [sha1], cf_block_nr := cf_block_nr cdc + 1\<rparr>"

fun check_and_write_file_blocks ::
    "libs \<Rightarrow> (string \<Rightarrow> bytes option) \<Rightarrow> string \<Rightarrow> (string \<times> string) list \<Rightarrow> cdc_file \<Rightarrow> block_store
     \<Rightarrow> int \<times> cdc_file \<times> block_store" where
  "check_and_write_file_blocks L readf repo [] cdc bs =
     (0, cdc\<lparr>cf_file_sum := lib_sha1 L (concat (cf_blk_sha1s cdc))\<rparr>, bs)"
| "check_and_write_file_blocks L readf repo ((path, blk_id) # ps) cdc bs =
     (let sha1 = hex_to_rawdata_buf 20 blk_id in
      case check_and_write_block L repo bs (readf path) sha1 of
        (r, bs') \<Rightarrow>
          if r < 0 then (r, cdc, bs')
          else check_and_write_file_blocks L readf repo ps (add_checksum sha1 cdc) bs')"

fun check_existed_file_blocks ::
    "libs \<Rightarrow> string \<Rightarrow> block_store \<Rightarrow> string list \<Rightarrow> cdc_file \<Rightarrow> int \<times> cdc_file" where
  "check_existed_file_blocks L repo bs [] cdc =
     (0, cdc\<lparr>cf_file_sum := lib_sha1 L (concat (cf_blk_sha1s cdc))\<rparr>)"
| "check_existed_file_blocks L repo bs (blk_id # ids) cdc =
     (if \<not> seaf_block_manager_block_exists L bs repo blk_id then (-1, cdc)
      else check_existed_file_blocks L repo bs ids (add_checksum (hex_to_rawdata_buf 20 blk_id) cdc))"

definition init_file_cdc :: "nat \<Rightarrow> cdc_file" where
  "init_file_cdc fsize = create_cdc_for_empty_file\<lparr>cf_file_size := fsize\<rparr>"

definition seaf_fs_manager_index_file_blocks ::
    "libs \<Rightarrow> (string \<Rightarrow> bytes option) \<Rightarrow> string \<Rightarrow> int \<Rightarrow> string list \<Rightarrow> string list \<Rightarrow> nat \<Rightarrow> obj_store \<times> block_store
     \<Rightarrow> int \<times> bytes option \<times> obj_store \<times> block_store" where
  "seaf_fs_manager_index_file_blocks L readf repo version paths blockids fsize stores =
     (case stores of (fs, bs) \<Rightarrow>
      if paths = [] then (0, Some (replicate 20 (CHR 0x00)), fs, bs)
      else (case check_and_write_file_blocks L readf repo (zip paths blockids) (init_file_cdc fsize) bs of
              (r, cdc, bs') \<Rightarrow>
                if r < 0 then (-1, None, fs, bs')
                else (case write_seafile L fs repo version cdc of
                        (r, sha1, fs') \<Rightarrow> if r < 0 then (-1, None, fs', bs') else (0, sha1, fs', bs'))))"

fun index_raw_loop ::
    "libs \<Rightarrow> (string \<Rightarrow> bytes option) \<Rightarrow> string \<Rightarrow> (string \<times> string) list \<Rightarrow> block_store \<Rightarrow> int \<times> block_store" where
  "index_raw_loop L readf repo [] bs = (0, bs)"
| "index_raw_loop L readf repo ((path, blk_id) # ps) bs =
     (case check_and_write_block L repo bs (readf path) (hex_to_rawdata_buf 20 blk_id) of
        (r, bs') \<Rightarrow> if r < 0 then (r, bs') else index_raw_loop L readf repo ps bs')"

definition seaf_fs_manager_index_raw_blocks ::
    "libs \<Rightarrow> (string \<Rightarrow> bytes option) \<Rightarrow> string \<Rightarrow> string list \<Rightarrow> string list \<Rightarrow> block_store \<Rightarrow> int \<times> block_store" where
  "seaf_fs_manager_index_raw_blocks L readf repo paths blockids bs =
     (if paths = [] then (-1, bs) else index_raw_loop L readf repo (zip paths blockids) bs)"

definition seaf_fs_manager_index_existed_file_blocks ::
    "libs \<Rightarrow> string \<Rightarrow> int \<Rightarrow> string list \<Rightarrow> nat \<Rightarrow> obj_store \<times> block_store \<Rightarrow> int \<times> bytes option \<times> obj_store" where
  "seaf_fs_manager_index_existed_file_blocks L repo version blockids fsize stores =
     (case stores of (fs, bs) \<Rightarrow>
      if blockids = [] then (0, Some (replicate 20 (CHR 0x00)), fs)
      else (case check_existed_file_blocks L repo bs blockids (init_file_cdc fsize) of
              (r, cdc) \<Rightarrow>
                if r < 0 then (-1, None, fs)
                else (case write_seafile L fs repo version cdc of
                        (r, sha1, fs') \<Rightarrow> if r < 0 then (-1, None, fs') else (0, sha1, fs'))))"

section \<open>Reading blocks back\<close>

definition ENCRYPT_BLK_SIZE :: nat where "ENCRYPT_BLK_SIZE = 16"

text \<open>What a block adds to the file that is written; None is a failure.\<close>

definition checkout_block :: "libs \<Rightarrow> string \<Rightarrow> block_store \<Rightarrow> string \<Rightarrow> seafile_crypt option \<Rightarrow> bytes option" where
  "checkout_block L repo bs block_id crypt =
     (case seaf_block_manager_open_block L bs repo block_id BLOCK_READ of
        None \<Rightarrow> None
      | Some handle \<Rightarrow>
          (let sz = unat (bmd_size (block_backend_fs_stat_block_by_handle handle)) in
           if sz = 0 then Some []
           else (case fst (seaf_block_manager_read_block bs handle sz) of
                   None \<Rightarrow> None
                 | Some blk_content \<Rightarrow>
                     if length blk_content \<noteq> sz then None
                     else (case crypt of
                             None \<Rightarrow> Some blk_content
                           | Some c \<Rightarrow>
                               if sz mod ENCRYPT_BLK_SIZE \<noteq> 0 then None else cr_decrypt c blk_content))))"

text \<open>The loop of \<open>seaf_fs_manager_checkout_file\<close> over the blocks of the file.\<close>

fun checkout_blocks :: "libs \<Rightarrow> string \<Rightarrow> block_store \<Rightarrow> string list \<Rightarrow> seafile_crypt option \<Rightarrow> bytes \<Rightarrow> bytes option" where
  "checkout_blocks L repo bs [] crypt out = Some out"
| "checkout_blocks L repo bs (blk_id # ids) crypt out =
     (case checkout_block L repo bs blk_id crypt of
        None \<Rightarrow> None
      | Some d \<Rightarrow> checkout_blocks L repo bs ids crypt (out @ d))"

section \<open>What indexing stores\<close>

definition blocks_grow :: "libs \<Rightarrow> block_store \<Rightarrow> block_store \<Rightarrow> bool" where
  "blocks_grow L bs bs' \<longleftrightarrow> (\<forall>q j x. read_block L bs q j = Some x \<longrightarrow> read_block L bs' q j = Some x)"

lemma blocks_grow_refl [simp]: "blocks_grow L bs bs"
  by (simp add: blocks_grow_def)

lemma blocks_grow_trans: "blocks_grow L a b \<Longrightarrow> blocks_grow L b c \<Longrightarrow> blocks_grow L a c"
  by (simp add: blocks_grow_def)

text \<open>The bytes stored for a chunk, and a chunk stored under a checksum.\<close>

definition enc :: "seafile_crypt option \<Rightarrow> bytes \<Rightarrow> bytes option" where
  "enc crypt x =
     (case crypt of Some c \<Rightarrow> if x \<noteq> [] then cr_encrypt c x else Some x | None \<Rightarrow> Some x)"

definition stored :: "libs \<Rightarrow> string \<Rightarrow> seafile_crypt option \<Rightarrow> block_store \<Rightarrow> bytes \<Rightarrow> bytes \<Rightarrow> bool" where
  "stored L repo crypt bs x checksum \<longleftrightarrow>
     (\<exists>y. enc crypt x = Some y \<and> checksum = lib_sha1 L y \<and> read_block L bs repo (sha1_hex L y) \<noteq> None)"

lemma stored_grow: "stored L repo crypt bs x s \<Longrightarrow> blocks_grow L bs bs' \<Longrightarrow> stored L repo crypt bs' x s"
  by (fastforce simp: stored_def blocks_grow_def)

lemma do_write_chunk_spec:
  assumes "do_write_chunk L repo bs checksum buf = (r, bs')"
  shows "blocks_grow L bs bs'" "0 \<le> r \<Longrightarrow> r = 0 \<and> read_block L bs' repo (rawdata_to_hex (take 20 checksum)) \<noteq> None"
proof -
  have save: "(if seaf_block_manager_block_exists L bs repo (rawdata_to_hex (take 20 checksum)) then (0, bs)
      else write_block L bs repo (rawdata_to_hex (take 20 checksum)) buf) = (r, bs')"
    using assms by (simp add: do_write_chunk_def Let_def)
  show "blocks_grow L bs bs'" using blocks.save_keeps [OF save] by (simp add: blocks_grow_def)
  show "r = 0 \<and> read_block L bs' repo (rawdata_to_hex (take 20 checksum)) \<noteq> None" if "0 \<le> r"
    using blocks.save_status [OF save] blocks.save_reads [of L bs repo "rawdata_to_hex (take 20 checksum)" buf bs'] save that
    by (auto split: option.splits)
qed

lemma seafile_write_chunk_spec:
  assumes "seafile_write_chunk L repo crypt True chunk bs = (r, s, bs')" "\<And>d. length (lib_sha1 L d) = 20"
  shows "blocks_grow L bs bs'" "0 \<le> r \<Longrightarrow> stored L repo crypt bs' (cd_buf chunk) s"
proof -
  have e: "(case crypt of Some c \<Rightarrow> if cd_buf chunk \<noteq> [] then cr_encrypt c (cd_buf chunk) else Some (cd_buf chunk)
      | None \<Rightarrow> Some (cd_buf chunk)) = enc crypt (cd_buf chunk)" by (simp add: enc_def)
  have cut: "take 20 (lib_sha1 L y) = lib_sha1 L y" for y using assms(2) by simp
  show "blocks_grow L bs bs'" "0 \<le> r \<Longrightarrow> stored L repo crypt bs' (cd_buf chunk) s"
    using assms(1) unfolding seafile_write_chunk_def e
    by (auto simp: Let_def stored_def sha1_hex_def cut split: option.splits prod.splits dest: do_write_chunk_spec)
qed

lemma write_chunks_stored:
  assumes "\<And>d. length (lib_sha1 L d) = 20"
  shows "write_chunks (seafile_write_chunk L repo crypt True) off chunks bs = (sums, bs') \<Longrightarrow>
    writes_ok (seafile_write_chunk L repo crypt True) off chunks bs \<Longrightarrow>
    blocks_grow L bs bs' \<and> list_all2 (stored L repo crypt bs') chunks sums"
proof (induction chunks arbitrary: off bs sums)
  case (Cons c chunks)
  obtain r s bs1 where w: "seafile_write_chunk L repo crypt True \<lparr>cd_offset = scast off, cd_buf = c\<rparr> bs = (r, s, bs1)"
    by (metis surj_pair)
  obtain sums1 where rest: "write_chunks (seafile_write_chunk L repo crypt True) (off + of_nat (length c)) chunks bs1 = (sums1, bs')"
    "sums = s # sums1" "0 \<le> r" "writes_ok (seafile_write_chunk L repo crypt True) (off + of_nat (length c)) chunks bs1"
    using Cons.prems w by (auto split: prod.splits)
  note new = seafile_write_chunk_spec [OF w assms]
  show ?case
    using Cons.IH [OF rest(1,4)] new rest(2,3) blocks_grow_trans stored_grow by fastforce
qed simp

text \<open>The tasks of the thread pool: slots in order, and pieces that make up the file.\<close>

definition task_slot :: "nat \<Rightarrow> cdc_chunk \<times> nat \<Rightarrow> nat" where
  "task_slot f t = unat (cd_offset (fst t)) div f"

definition task_data :: "bytes \<Rightarrow> cdc_chunk \<times> nat \<Rightarrow> bytes" where
  "task_data content t = take (snd t) (drop (unat (cd_offset (fst t))) content)"

lemma chunk_tasks_spec:
  assumes "0 < f" "length content < 2 ^ 64"
  shows "i * f + left = length content \<Longrightarrow>
    map (task_slot f) (chunk_tasks f (i * f) left) = [i..<i + (left + f - 1) div f] \<and>
    concat (map (task_data content) (chunk_tasks f (i * f) left)) = drop (i * f) content \<and>
    list_all (\<lambda>t. length (task_data content t) = snd t \<and> 0 < snd t \<and> snd t \<le> f) (chunk_tasks f (i * f) left)"
proof (induction left arbitrary: i rule: less_induct)
  case (less left)
  show ?case
  proof (cases "left = 0")
    case True
    then have "(left + f - 1) div f = 0" "length content = i * f" using assms(1) less.prems by simp_all
    then show ?thesis using True by (simp add: chunk_tasks.simps)
  next
    case False
    let ?len = "if left \<ge> f then f else left"
    let ?t = "(\<lparr>cd_offset = of_nat (i * f), cd_buf = []\<rparr>, ?len)"
    have "i * f < 2 ^ 64" using less.prems assms(2) by linarith
    then have off: "unat (of_nat (i * f) :: u64) = i * f" by (simp add: unsigned_of_nat take_bit_nat_eq_self_iff del: of_nat_mult)
    have t: "task_slot f ?t = i" "task_data content ?t = take ?len (drop (i * f) content)"
      using off assms(1) by (simp_all add: task_slot_def task_data_def)
    have tasks: "chunk_tasks f (i * f) left = ?t # chunk_tasks f (i * f + ?len) (left - ?len)"
      using False assms(1) by (simp add: chunk_tasks.simps [of f "i * f" left] Let_def)
    show ?thesis
    proof (cases "f \<le> left")
      case True
      have "(left + f - 1) div f = Suc ((left - f + f - 1) div f)"
      proof -
        have "left + f - 1 = (left - f + f - 1) + f" using True assms(1) by linarith
        then have "(left + f - 1) div f = ((left - f + f - 1) + f) div f" by (rule arg_cong)
        then show ?thesis using div_add_self2 [of f "left - f + f - 1"] assms(1) by (simp only:)
      qed
      then have n: "[i..<i + (left + f - 1) div f] = i # [Suc i..<Suc i + (left - f + f - 1) div f]"
        by (simp add: upt_conv_Cons)
      have more: "Suc i * f + (left - f) = length content" "left - f < left" using less.prems True assms(1) by simp_all
      have next_off: "i * f + f = Suc i * f" by simp
      have step: "chunk_tasks f (i * f) left = ?t # chunk_tasks f (Suc i * f) (left - f)"
        unfolding tasks using True by (simp add: add.commute)
      have piece: "task_data content ?t = take f (drop (i * f) content)" "length (drop (i * f) content) = left"
        using t(2) True less.prems by simp_all
      have "concat (map (task_data content) (chunk_tasks f (i * f) left)) = take f (drop (i * f) content) @ drop f (drop (i * f) content)"
        using less.IH [OF more(2,1)] piece(1) unfolding step by (simp add: add.commute)
      moreover have "map (task_slot f) (chunk_tasks f (i * f) left) = [i..<i + (left + f - 1) div f]"
        using less.IH [OF more(2,1)] t(1) unfolding step n by simp
      moreover have "list_all (\<lambda>t. length (task_data content t) = snd t \<and> 0 < snd t \<and> snd t \<le> f) (chunk_tasks f (i * f) left)"
        using less.IH [OF more(2,1)] piece assms(1) True unfolding step by simp
      ultimately show ?thesis by (simp only: append_take_drop_id)
    next
      case less_f: False
      then have "(left + f - 1) div f = 1" using False assms(1) by (simp add: div_nat_eqI)
      moreover have "chunk_tasks f (i * f + left) 0 = []" by (simp add: chunk_tasks.simps)
      ultimately show ?thesis using t less_f False less.prems unfolding tasks by simp
    qed
  qed
qed

lemma chunking_worker_spec:
  assumes "chunking_worker L repo crypt f content n t (sums, bs) = (r, sums', bs')" "0 \<le> r"
    and "length (task_data content t) = snd t" "\<And>d. length (lib_sha1 L d) = 20"
  shows "\<exists>s. sums' = sums[task_slot f t := s] \<and> stored L repo crypt bs' (task_data content t) s \<and> blocks_grow L bs bs'"
proof -
  obtain r1 s bs1 where w: "seafile_write_chunk L repo crypt True ((fst t)\<lparr>cd_buf := task_data content t\<rparr>) bs = (r1, s, bs1)"
    by (metis surj_pair)
  have "r = r1" "bs' = bs1" "sums' = sums[task_slot f t := s]"
    using assms(1-3) w by (auto simp: chunking_worker_def task_data_def task_slot_def Let_def split: prod.splits if_splits)
  then show ?thesis using seafile_write_chunk_spec [OF w assms(4)] assms(2) by auto
qed

lemma run_tasks_nonpos: "run_tasks g ts st = (r, st') \<Longrightarrow> r \<le> 0"
  by (induction ts arbitrary: st r) (auto split: prod.splits simp: min_le_iff_disj)

text \<open>Whatever the order of the tasks, every slot ends with the checksum of its own part of the file.\<close>

lemma run_tasks_spec:
  assumes "\<And>d. length (lib_sha1 L d) = 20"
  shows "run_tasks (chunking_worker L repo crypt f content n) ts (sums, bs) = (r, sums', bs') \<Longrightarrow> 0 \<le> r \<Longrightarrow>
    list_all (\<lambda>t. length (task_data content t) = snd t \<and> task_slot f t < length sums) ts \<Longrightarrow>
    distinct (map (task_slot f) ts) \<Longrightarrow>
    length sums' = length sums \<and> blocks_grow L bs bs' \<and>
    (\<forall>t\<in>set ts. stored L repo crypt bs' (task_data content t) (sums' ! task_slot f t)) \<and>
    (\<forall>i. i \<notin> task_slot f ` set ts \<longrightarrow> sums' ! i = sums ! i)"
proof (induction ts arbitrary: sums bs r)
  case (Cons t ts)
  obtain r1 sums1 bs1 r2 where w: "chunking_worker L repo crypt f content n t (sums, bs) = (r1, sums1, bs1)"
    "run_tasks (chunking_worker L repo crypt f content n) ts (sums1, bs1) = (r2, sums', bs')" "r = min r1 r2"
    using Cons.prems(1) by (auto split: prod.splits)
  then have r: "0 \<le> r1" "0 \<le> r2" using Cons.prems(2) by simp_all
  have len: "length (task_data content t) = snd t" "task_slot f t < length sums" using Cons.prems(3) by simp_all
  obtain s where s: "sums1 = sums[task_slot f t := s]" "stored L repo crypt bs1 (task_data content t) s" "blocks_grow L bs bs1"
    using chunking_worker_spec [OF w(1) r(1) len(1) assms] by blast
  have IH: "length sums' = length sums1 \<and> blocks_grow L bs1 bs' \<and>
    (\<forall>t\<in>set ts. stored L repo crypt bs' (task_data content t) (sums' ! task_slot f t)) \<and>
    (\<forall>i. i \<notin> task_slot f ` set ts \<longrightarrow> sums' ! i = sums1 ! i)"
    by (rule Cons.IH [OF w(2) r(2)]) (use Cons.prems(3,4) s(1) in simp_all)
  moreover have "sums' ! task_slot f t = s" using IH Cons.prems(4) s(1) len(2) by auto
  moreover have "stored L repo crypt bs' (task_data content t) s" using stored_grow [OF s(2)] IH by blast
  moreover have "blocks_grow L bs bs'" using blocks_grow_trans [OF s(3)] IH by blast
  ultimately show ?case using s(1) by (auto simp: nth_list_update)
qed simp

lemma split_file_to_block_spec:
  assumes run: "split_file_to_block L repo crypt f schedule content (length content) cdc bs = (r, cdc', bs')" "0 \<le> r"
    and f: "0 < f" "length content < 2 ^ 64" and sha: "\<And>d. length (lib_sha1 L d) = 20"
    and schedule: "\<And>ts. mset (schedule ts) = mset ts"
  shows "\<exists>chunks. concat chunks = content \<and> list_all2 (stored L repo crypt bs') chunks (cf_blk_sha1s cdc') \<and>
    (\<forall>x\<in>set chunks. x \<noteq> [] \<and> length x \<le> f) \<and> cf_block_nr cdc' = length chunks \<and>
    cf_file_size cdc' = cf_file_size cdc \<and> blocks_grow L bs bs'"
proof -
  let ?ts = "chunk_tasks f 0 (length content)"
  let ?n = "(length content + f - 1) div f"
  let ?sums = "replicate ?n (replicate 20 (CHR 0x00))"
  let ?chunks = "map (task_data content) ?ts"
  have spec: "map (task_slot f) ?ts = [0..<?n]" "concat ?chunks = content"
    "list_all (\<lambda>t. length (task_data content t) = snd t \<and> 0 < snd t \<and> snd t \<le> f) ?ts"
    using chunk_tasks_spec [OF f, of 0 "length content"] by simp_all
  have perm: "set (schedule ?ts) = set ?ts" using mset_eq_setD [OF schedule] .
  have "mset (map (task_slot f) (schedule ?ts)) = mset (map (task_slot f) ?ts)"
    by (simp only: mset_map schedule)
  from mset_eq_imp_distinct_iff [OF this] have slots: "distinct (map (task_slot f) (schedule ?ts))"
    unfolding spec(1) by simp
  have "set (map (task_slot f) ?ts) = {0..<?n}" unfolding spec(1) by simp
  then have small: "task_slot f t < ?n" if "t \<in> set ?ts" for t using that by auto
  obtain sums' r' where w: "run_tasks (chunking_worker L repo crypt f content (length content)) (schedule ?ts) (?sums, bs) = (r', sums', bs')"
    "0 \<le> r'" "cdc' = cdc\<lparr>cf_block_nr := ?n, cf_blk_sha1s := sums'\<rparr>"
    using run by (auto simp: split_file_to_block_def Let_def split: prod.splits if_splits)
  have res: "length sums' = length ?sums \<and> blocks_grow L bs bs' \<and>
    (\<forall>t\<in>set (schedule ?ts). stored L repo crypt bs' (task_data content t) (sums' ! task_slot f t)) \<and>
    (\<forall>i. i \<notin> task_slot f ` set (schedule ?ts) \<longrightarrow> sums' ! i = ?sums ! i)"
    by (rule run_tasks_spec [OF sha w(1,2)]) (use spec(3) slots small perm in \<open>auto simp: list_all_iff\<close>)
  have len: "length ?ts = ?n" using arg_cong [OF spec(1), of length] by simp
  have "task_slot f (?ts ! i) = i" if "i < ?n" for i
    using arg_cong [OF spec(1), of "\<lambda>xs. xs ! i"] that len by simp
  then have "stored L repo crypt bs' (task_data content (?ts ! i)) (sums' ! i)" if "i < ?n" for i
    using res that nth_mem [of i ?ts] len unfolding perm by metis
  then have "list_all2 (stored L repo crypt bs') ?chunks sums'"
    using res len by (simp add: list_all2_conv_all_nth)
  moreover have "\<forall>x\<in>set ?chunks. x \<noteq> [] \<and> length x \<le> f" using spec(3) by (fastforce simp: list_all_iff)
  ultimately show ?thesis using spec(2) res w(3) len by (intro exI [of _ ?chunks]) simp
qed

section \<open>Reading back what was indexed\<close>

text \<open>
  What the code relies on: checksums of 20 bytes, a thread pool that runs every task once, a block size
  that fits, and a cipher that decrypts what it encrypted and pads it to whole blocks.
\<close>

definition env_ok :: "index_env \<Rightarrow> bool" where
  "env_ok E \<longleftrightarrow> (\<forall>d. length (lib_sha1 (ie_libs E) d) = 20) \<and> (\<forall>ts. mset (ie_schedule E ts) = mset ts) \<and>
     0 < ie_fixed_block_size E \<and> ie_fixed_block_size E + ENCRYPT_BLK_SIZE < 2 ^ 32"

definition crypt_ok :: "seafile_crypt option \<Rightarrow> bool" where
  "crypt_ok crypt \<longleftrightarrow>
     (\<forall>c x y. crypt = Some c \<longrightarrow> cr_encrypt c x = Some y \<longrightarrow> x \<noteq> [] \<longrightarrow>
        cr_decrypt c y = Some x \<and> y \<noteq> [] \<and> length y mod ENCRYPT_BLK_SIZE = 0 \<and>
        length y \<le> length x + ENCRYPT_BLK_SIZE)"

text \<open>No block of the store has the hash of a piece of the file without being that piece.\<close>

definition no_collision :: "libs \<Rightarrow> string \<Rightarrow> seafile_crypt option \<Rightarrow> block_store \<Rightarrow> bytes \<Rightarrow> bool" where
  "no_collision L repo crypt bs content \<longleftrightarrow>
     (\<forall>x y d. sublist x content \<longrightarrow> enc crypt x = Some y \<longrightarrow> read_block L bs repo (sha1_hex L y) = Some d \<longrightarrow> d = y)"

lemma concat_sublist: "x \<in> set xs \<Longrightarrow> sublist x (concat xs)"
  by (metis concat.simps(2) concat_append in_set_conv_decomp sublist_appendI)

lemma checkout_block_stored:
  assumes s: "stored L repo crypt bs x s" and x: "x \<noteq> []" "length x + ENCRYPT_BLK_SIZE < 2 ^ 32"
    and "crypt_ok crypt" "no_collision L repo crypt bs content" "sublist x content"
    and readable: "\<And>i. bk_open_ok bs i \<and> bk_read_ok bs i"
  shows "checkout_block L repo bs (rawdata_to_hex s) crypt = Some x"
proof -
  obtain y d where y: "enc crypt x = Some y" "s = lib_sha1 L y" "read_block L bs repo (sha1_hex L y) = Some d"
    using s by (auto simp: stored_def)
  then have d: "d = y" using assms(5,6) by (auto simp: no_collision_def)
  have len: "y \<noteq> []" "length y < 2 ^ 32" and
    dec: "\<And>c. crypt = Some c \<Longrightarrow> cr_decrypt c y = Some x \<and> length y mod ENCRYPT_BLK_SIZE = 0" "crypt = None \<Longrightarrow> y = x"
    using y(1) x assms(4) by (fastforce simp: enc_def crypt_ok_def split: option.splits)+
  have sz: "unat (of_nat (length y) :: u32) = length y" using len(2) by (simp add: unsigned_of_nat take_bit_nat_eq_self_iff)
  have h: "seaf_block_manager_open_block L bs repo (rawdata_to_hex s) BLOCK_READ =
      Some \<lparr>bh_store_id = repo, bh_block_id = rawdata_to_hex s, bh_rw_type = BLOCK_READ, bh_data = y, bh_pos = 0\<rparr>"
    using y(2,3) d readable by (auto simp: read_block_def sha1_hex_def block_manager_defs split: if_splits dest: id_valid_length)
  show ?thesis
    using readable len dec
    by (simp add: checkout_block_def h block_backend_fs_stat_block_by_handle_def sz Let_def
        seaf_block_manager_read_block_def block_backend_fs_read_block_def split: option.splits)
qed

lemma checkout_blocks_stored:
  assumes "list_all2 (stored L repo crypt bs) chunks sums"
    and "\<forall>x\<in>set chunks. x \<noteq> [] \<and> length x + ENCRYPT_BLK_SIZE < 2 ^ 32 \<and> sublist x content"
    and "crypt_ok crypt" "no_collision L repo crypt bs content" "\<And>i. bk_open_ok bs i \<and> bk_read_ok bs i"
  shows "checkout_blocks L repo bs (map rawdata_to_hex sums) crypt out = Some (out @ concat chunks)"
  using assms(1,2)
proof (induction arbitrary: out rule: list_all2_induct)
  case (Cons x xs s ss)
  then show ?case using checkout_block_stored [OF Cons.hyps(1) _ _ assms(3,4) _ assms(5)] by simp
qed simp

lemma chunk_file_spec:
  assumes run: "chunk_file E repo version (Some content) (length content) crypt True use_cdc bs = (r, cdc, bs')" "0 \<le> r"
    and env: "env_ok E" and len: "length content < 2 ^ 64"
  shows "\<exists>chunks. concat chunks = content \<and> list_all2 (stored (ie_libs E) repo crypt bs') chunks (cf_blk_sha1s cdc) \<and>
    (\<forall>x\<in>set chunks. x \<noteq> [] \<and> length x + ENCRYPT_BLK_SIZE < 2 ^ 32 \<and> sublist x content) \<and>
    cf_block_nr cdc = length chunks \<and> cf_file_size cdc = length content \<and> blocks_grow (ie_libs E) bs bs'"
proof (cases "use_cdc \<or> version = 0")
  case True
  let ?d = "create_cdc_for_empty_file\<lparr>cf_block_sz := CDC_AVERAGE_BLOCK_SIZE, cf_block_min_sz := CDC_MIN_BLOCK_SIZE,
                   cf_block_max_sz := CDC_MAX_BLOCK_SIZE\<rparr>"
  let ?wb = "seafile_write_chunk (ie_libs E) repo crypt True"
  obtain idx where c: "file_chunk_cdc (ie_libs E) (ie_rabin E) ?wb content (length content) ?d 0 bs = (r, cdc, idx, bs')"
    using run(1) True by (auto simp: chunk_file_def filename_chunk_cdc_def split: prod.splits)
  have d: "cf_file_size ?d = 0" "sizes_ok (init_cdc_file_descriptor (length content) ?d)"
    "unat (cf_block_max_sz (init_cdc_file_descriptor (length content) ?d)) = 10 * 2 ^ 20"
    by (simp_all add: create_cdc_for_empty_file_def sizes_ok_def init_cdc_file_descriptor_def Let_def
        CDC_MIN_BLOCK_SIZE_def CDC_MAX_BLOCK_SIZE_def READ_SIZE_def push_bit_eq_mult)
  obtain chunks where ch: "chunk_partition (init_cdc_file_descriptor (length content) ?d) content chunks"
    "writes_ok ?wb 0 chunks bs" "write_chunks ?wb 0 chunks bs = (cf_blk_sha1s cdc, bs')"
    "cf_block_nr cdc = length chunks" "cf_file_size cdc = length content"
    using file_chunk_cdc_cases [OF d(1,2) c] run(2) by auto
  have "blocks_grow (ie_libs E) bs bs' \<and> list_all2 (stored (ie_libs E) repo crypt bs') chunks (cf_blk_sha1s cdc)"
    by (rule write_chunks_stored [OF _ ch(3,2)]) (use env in \<open>simp add: env_ok_def\<close>)
  moreover have "concat chunks = content" "\<forall>x\<in>set chunks. x \<noteq> [] \<and> length x \<le> 10 * 2 ^ 20"
    using ch(1) d(3) by (simp_all add: chunk_partition_def)
  ultimately show ?thesis using ch(4,5) concat_sublist by (intro exI [of _ chunks]) (fastforce simp: ENCRYPT_BLK_SIZE_def)
next
  case False
  then have s: "split_file_to_block (ie_libs E) repo crypt (ie_fixed_block_size E) (ie_schedule E) content (length content)
      (create_cdc_for_empty_file\<lparr>cf_file_size := length content\<rparr>) bs = (r, cdc, bs')"
    using run(1) by (simp add: chunk_file_def)
  have e: "0 < ie_fixed_block_size E" "\<And>d. length (lib_sha1 (ie_libs E) d) = 20"
    "\<And>ts. mset (ie_schedule E ts) = mset ts" "ie_fixed_block_size E + ENCRYPT_BLK_SIZE < 2 ^ 32"
    using env by (simp_all add: env_ok_def)
  obtain chunks where "concat chunks = content" "list_all2 (stored (ie_libs E) repo crypt bs') chunks (cf_blk_sha1s cdc)"
    "\<forall>x\<in>set chunks. x \<noteq> [] \<and> length x \<le> ie_fixed_block_size E" "cf_block_nr cdc = length chunks"
    "cf_file_size cdc = length content" "blocks_grow (ie_libs E) bs bs'"
    using split_file_to_block_spec [OF s run(2) e(1) len e(2,3)] by auto
  then show ?thesis using e(4) concat_sublist by (intro exI [of _ chunks]) fastforce
qed

section \<open>Reading the file object back\<close>

text \<open>The file that a descriptor describes.\<close>

definition described_file :: "int \<Rightarrow> string \<Rightarrow> cdc_file \<Rightarrow> seafile" where
  "described_file version i cdc =
     \<lparr>sf_version = seafile_version_from_repo_version version, file_id = i, file_size = of_nat (cf_file_size cdc),
      blk_sha1s = map rawdata_to_hex (cf_blk_sha1s cdc)\<rparr>"

lemma seafile_doc_described:
  assumes "cf_block_nr cdc = length (cf_blk_sha1s cdc)" "\<forall>s\<in>set (cf_blk_sha1s cdc). length s = 20"
  shows "seafile_doc version cdc = seafile_to_json (described_file version i cdc)"
  using assms by (simp add: seafile_doc_def seafile_to_json_def described_file_def Let_def comp_def cong: map_cong)

lemma write_seafile_status: "write_seafile L fs repo version cdc = (r, sha1, fs') \<Longrightarrow> r = 0 \<or> r = -1"
  by (auto simp: write_seafile_def split: if_splits prod.splits option.splits)

lemma write_seafile_json_cases:
  assumes "write_seafile L fs repo version cdc = (0, sha1, fs')" "version > 0"
    "data = lib_json_dumps L (seafile_doc version cdc)" "lib_compress L data = Some z" "length (lib_sha1 L data) = 20"
  shows "sha1 = Some (lib_sha1 L data) \<and>
    (\<exists>e. (if seaf_obj_store_obj_exists L fs repo (sha1_hex L data) then (0, fs)
          else seaf_obj_store_write_obj L fs repo (sha1_hex L data) z) = (e, fs') \<and> e = 0)"
proof -
  have "hex_to_rawdata 20 (sha1_hex L data) = Some (lib_sha1 L data)"
    using hex_to_rawdata_append [of "lib_sha1 L data" "[]"] assms(5) by (simp add: sha1_hex_def)
  then show ?thesis
    using assms(1-4) seaf_store.write_failed
    by (fastforce simp: write_seafile_def create_seafile_json_def Let_def split: if_splits prod.splits)
qed

lemma write_seafile_loads:
  assumes w: "write_seafile L fs repo version cdc = (0, sha1, fs')" "version > 0"
    and cdc: "cf_block_nr cdc = length (cf_blk_sha1s cdc)" "\<forall>s\<in>set (cf_blk_sha1s cdc). length s = 20"
    and lib: "doc_roundtrips L (seafile_doc version cdc)" "data = lib_json_dumps L (seafile_doc version cdc)"
    and id: "length (lib_sha1 L data) = 20" "sha1_hex L data \<noteq> EMPTY_SHA1"
    and fresh: "seaf_obj_store_read_obj L fs repo (sha1_hex L data) \<in> {None, lib_compress L data}"
  shows "sha1 = Some (lib_sha1 L data) \<and>
    seaf_fs_manager_get_seafile L fs' repo version (sha1_hex L data) = Some (described_file version (sha1_hex L data) cdc)"
proof -
  let ?i = "sha1_hex L data"
  obtain z where z: "lib_compress L data = Some z" "load_json L z = Some (json_sort_keys (seafile_doc version cdc))"
    using doc_roundtripsE [OF lib(1)] lib(2) by metis
  obtain e where e: "sha1 = Some (lib_sha1 L data)"
    "(if seaf_obj_store_obj_exists L fs repo ?i then (0, fs) else seaf_obj_store_write_obj L fs repo ?i z) = (0, fs')"
    using write_seafile_json_cases [OF w lib(2) z(1) id(1)] by blast
  have "seaf_obj_store_read_obj L fs' repo ?i = Some z"
    using seaf_store.save_reads [OF e(2)] fresh z(1) by (auto split: option.splits)
  moreover have "seafile_json_ok (described_file version ?i cdc)"
    using cdc(2) w(2) rawdata_to_hex_valid
    by (auto simp: seafile_json_ok_def described_file_def seafile_version_from_repo_version_def list_all_iff)
  moreover have "take 40 ?i = ?i" using id(1) by (simp add: sha1_hex_def)
  ultimately show ?thesis
    using e(1) id(2) w(2) z(2) seafile_doc_described [OF cdc, of version ?i] seafile_json_roundtrip [of "described_file version ?i cdc" ?i]
    by (simp add: seaf_fs_manager_get_seafile_def seafile_from_data_def seafile_from_json_def described_file_def)
qed

lemma stored_length: "list_all2 (stored L repo crypt bs) chunks sums \<Longrightarrow> (\<And>d. length (lib_sha1 L d) = 20) \<Longrightarrow>
    length chunks = length sums \<and> (\<forall>s\<in>set sums. length s = 20)"
  by (induction rule: list_all2_induct) (auto simp: stored_def)

lemma write_seafile_keeps:
  assumes "write_seafile L fs repo version cdc = (r, sha1, fs')" "seaf_obj_store_read_obj L fs q j = Some x"
  shows "seaf_obj_store_read_obj L fs' q j = Some x"
proof -
  obtain data seafile_id where d: "(if version > 0 then create_seafile_json L version cdc else create_seafile_v0 cdc) = (data, seafile_id)"
    by fastforce
  have "fs' = fs \<or> (\<exists>e z. (if seaf_obj_store_obj_exists L fs repo seafile_id then (0, fs)
      else seaf_obj_store_write_obj L fs repo seafile_id z) = (e, fs'))"
    using assms(1) d by (auto simp: write_seafile_def Let_def split: if_splits option.splits prod.splits)
  then show ?thesis using seaf_store.save_keeps assms(2) by blast
qed

lemma indexed_content:
  assumes index: "seaf_fs_manager_index_blocks E repo version (Some (mode, length content)) (Some content) crypt True
      use_cdc (fs, bs) = (0, sha1, n, fs', bs')"
    and c: "chunk_file E repo version (Some content) (length content) crypt True use_cdc bs = (r, cdc, bs1)"
    and content: "content \<noteq> []" "length content < 2 ^ 64"
    and env: "env_ok E" "crypt_ok crypt" "\<And>i. bk_open_ok bs' i \<and> bk_read_ok bs' i"
    and coll: "no_collision (ie_libs E) repo crypt bs' content"
  shows "write_seafile (ie_libs E) fs repo version cdc = (0, sha1, fs') \<and> n = length content \<and>
    file_size (described_file version i cdc) = of_nat (length content) \<and>
    checkout_blocks (ie_libs E) repo bs' (blk_sha1s (described_file version i cdc)) crypt [] = Some content \<and>
    cf_block_nr cdc = length (cf_blk_sha1s cdc) \<and> (\<forall>s\<in>set (cf_blk_sha1s cdc). length s = 20)"
proof -
  have w: "0 \<le> r" "bs1 = bs'" "n = length content" "write_seafile (ie_libs E) fs repo version cdc = (0, sha1, fs')"
    using index content(1) c
    by (auto simp: seaf_fs_manager_index_blocks_def split: if_splits prod.splits dest: write_seafile_status)
  obtain chunks where ch: "concat chunks = content" "list_all2 (stored (ie_libs E) repo crypt bs') chunks (cf_blk_sha1s cdc)"
    "\<forall>x\<in>set chunks. x \<noteq> [] \<and> length x + ENCRYPT_BLK_SIZE < 2 ^ 32 \<and> sublist x content"
    "cf_block_nr cdc = length chunks" "cf_file_size cdc = length content"
    using chunk_file_spec [OF c w(1) env(1) content(2)] w(2) by blast
  have "\<And>d. length (lib_sha1 (ie_libs E) d) = 20" using env(1) by (simp add: env_ok_def)
  note len = stored_length [OF ch(2) this]
  have "checkout_blocks (ie_libs E) repo bs' (map rawdata_to_hex (cf_blk_sha1s cdc)) crypt [] = Some content"
    using checkout_blocks_stored [OF ch(2,3) env(2) coll env(3), of "[]"] ch(1) by simp
  then show ?thesis
    using w ch(4,5) len by (simp add: described_file_def)
qed


definition demo_env :: index_env where
  "demo_env = \<lparr>ie_libs = demo_blibs, ie_rabin = rabin_init 48, ie_fixed_block_size = 1, ie_schedule = rev\<rparr>"

definition demo_bpath :: string where
  "demo_bpath = ''b/'' @ demo_brepo @ ''/'' @ replicate 2 (CHR ''a'') @ ''/'' @ replicate 38 (CHR ''a'')"

definition no_blocks :: block_store where "no_blocks = demo_blocks\<lparr>bk_files := Map.empty\<rparr>"

definition no_objects :: obj_store where
  "no_objects = \<lparr>obj_dir = ''f'', files = Map.empty, disk_ok = (\<lambda>_. True)\<rparr>"

lemma demo_hex: "rawdata_to_hex (replicate 20 (CHR 0xAA)) = demo_bid (CHR ''a'')"
  "rawdata_to_hex (replicate 20 (CHR 0xBB)) = demo_bid (CHR ''b'')"
  by code_simp+

lemma demo_write:
  assumes "bs = no_blocks \<or> bs = no_blocks\<lparr>bk_files := [demo_bpath \<mapsto> ''x'']\<rparr>"
  shows "seafile_write_chunk demo_blibs demo_brepo None True \<lparr>cd_offset = i, cd_buf = ''x''\<rparr> bs
    = (0, replicate 20 (CHR 0xAA), no_blocks\<lparr>bk_files := [demo_bpath \<mapsto> ''x'']\<rparr>)"
proof -
  have p: "get_block_path st (demo_bid (CHR ''a'')) demo_brepo = demo_bpath" if "bk_dir st = ''b''" for st
    using that by (simp add: get_block_path_def demo_bpath_def demo_bid_def)
  have v: "is_object_id_valid (demo_bid (CHR ''a''))" "length (demo_bid (CHR ''a'')) = 40"
    by (simp_all add: demo_bid_def is_object_id_valid_def list_all_length)
  have "lib_sha1 demo_blibs ''x'' = replicate 20 (CHR 0xAA)" "is_uuid_valid demo_blibs demo_brepo"
    by (simp_all add: demo_blibs_def is_uuid_valid_def)
  then show ?thesis
    using assms by (auto simp: seafile_write_chunk_def do_write_chunk_def Let_def demo_hex write_block_def block_manager_defs v p
        no_blocks_def demo_blocks_def)
qed

lemma demo_chunk_file:
  "chunk_file demo_env demo_brepo 1 (Some ''xx'') 2 None True False no_blocks
    = (0, create_cdc_for_empty_file\<lparr>cf_file_size := 2, cf_block_nr := 2,
         cf_blk_sha1s := replicate 2 (replicate 20 (CHR 0xAA))\<rparr>, no_blocks\<lparr>bk_files := [demo_bpath \<mapsto> ''x'']\<rparr>)"
proof -
  have "chunk_tasks 1 0 2 = [(\<lparr>cd_offset = 0, cd_buf = []\<rparr>, 1), (\<lparr>cd_offset = 1, cd_buf = []\<rparr>, 1)]"
    by (simp add: chunk_tasks.simps)
  then show ?thesis
    by (simp add: chunk_file_def split_file_to_block_def demo_env_def chunking_worker_def demo_write numeral_2_eq_2)
qed

lemma demo_write_seafile: "\<exists>sha1 fs'. write_seafile demo_blibs no_objects demo_brepo 1 cdc = (0, sha1, fs')"
proof -
  have "sha1_hex demo_blibs (lib_json_dumps demo_blibs (seafile_doc 1 cdc)) = demo_bid (CHR ''b'')"
    by (simp add: sha1_hex_def demo_blibs_def flip: demo_hex)
  moreover have "is_object_id_valid (demo_bid (CHR ''b''))" by (simp add: demo_bid_def is_object_id_valid_def list_all_length)
  moreover have "is_uuid_valid demo_blibs demo_brepo" "lib_compress demo_blibs d = Some d" for d
    by (simp_all add: demo_blibs_def is_uuid_valid_def)
  ultimately show ?thesis
    by (simp add: write_seafile_def create_seafile_json_def Let_def seaf_obj_store_write_obj_def obj_backend_fs_write_def
        save_obj_contents_def no_objects_def split: prod.splits)
qed


end
