(* ===== verification/GcRepo.thy ===== *)
theory GcRepo
  imports RepoMgr BlockMgr
begin

text \<open>
  Repositories as the offline tools see them (\<open>server/gc/repo-mgr.c\<close>): loading them with a mark for
  damaged ones, how long their history is kept, their virtual repositories, and the table of
  deleted ones.  \<open>gc_session\<close> is the state of a garbage collection.
\<close>

section \<open>The session\<close>

text \<open>
  The tables Repo, VirtualRepo, RepoHistoryLimit, RepoValidSince and GarbageRepos, the configured
  \<open>keep_days\<close> (-1 when there is none), the stores, and what is outside the repository: the clock, the
  queries the database refuses, SHA-256, the memory that can be allocated, and the ids that reading
  the directories of a block store gives.
\<close>

datatype gc_query =
  Q_REPO_EXISTS | Q_REPO_LIST | Q_VIRTUAL_INFO | Q_VIRTUAL_BY_ORIGIN | Q_HISTORY_LIMIT | Q_SET_HISTORY_LIMIT
  | Q_VALID_SINCE | Q_SET_VALID_SINCE | Q_GARBAGE_LIST | Q_GARBAGE_DELETE

record gc_session =
  gs_libs :: libs
  gs_searpc :: searpc
  gs_sha256 :: "string \<Rightarrow> bytes"
  gs_alloc :: "u64 \<Rightarrow> bool"
  gs_now :: int
  gs_repos :: "string list"
  gs_virtual :: "(string \<times> virt_info) list"
  gs_history :: "string \<Rightarrow> int option"
  gs_keep_days :: int
  gs_valid :: "string \<Rightarrow> int option"
  gs_garbage :: "string list"
  gs_fails :: "gc_query \<Rightarrow> string \<Rightarrow> bool"
  gs_branches :: branch_db
  gs_commits :: obj_store
  gs_fs :: obj_store
  gs_blocks :: block_store
  gs_listing :: "block_store \<Rightarrow> string \<Rightarrow> string list"

section \<open>Repository objects\<close>

record gc_repo =
  gr_id :: string
  gr_name :: "string option"
  gr_desc :: "string option"
  gr_encrypted :: bool
  gr_enc_version :: int
  gr_magic :: string
  gr_random_key :: string
  gr_no_local_history :: bool
  gr_head :: "branch option"
  gr_is_corrupted :: bool
  gr_repaired :: bool
  gr_version :: int
  gr_store_id :: string
  gr_is_virtual :: bool

definition gc_repo_new :: "string \<Rightarrow> string option \<Rightarrow> string option \<Rightarrow> gc_repo" where
  "gc_repo_new i name description =
     \<lparr>gr_id = take 36 i, gr_name = name, gr_desc = description, gr_encrypted = False, gr_enc_version = 0, gr_magic = [],
      gr_random_key = [], gr_no_local_history = False, gr_head = None, gr_is_corrupted = False, gr_repaired = False,
      gr_version = 0, gr_store_id = [], gr_is_virtual = False\<rparr>"

definition set_head_common :: "gc_repo \<Rightarrow> branch \<Rightarrow> gc_repo" where
  "set_head_common r b = r\<lparr>gr_head := Some b\<rparr>"

text \<open>Only the encryption versions 1 and 2 are copied.\<close>

definition gc_repo_from_commit :: "gc_repo \<Rightarrow> commit \<Rightarrow> gc_repo" where
  "gc_repo_from_commit r c =
     (let r = r\<lparr>gr_name := repo_name c, gr_desc := repo_desc c, gr_encrypted := encrypted c,
                gr_repaired := repaired c\<rparr>;
          r = (if encrypted c then
                 (let r = r\<lparr>gr_enc_version := enc_version c\<rparr> in
                  if enc_version c = 1 then r\<lparr>gr_magic := take 32 (dflt (magic c))\<rparr>
                  else if enc_version c = 2 then
                    r\<lparr>gr_magic := take 64 (dflt (magic c)), gr_random_key := take 96 (dflt (random_key c))\<rparr>
                  else r)
               else r)
      in r\<lparr>gr_no_local_history := no_local_history c, gr_version := co_version c\<rparr>)"

definition gc_repo_to_commit :: "gc_repo \<Rightarrow> commit \<Rightarrow> commit" where
  "gc_repo_to_commit r c =
     (let c = c\<lparr>repo_name := gr_name r, repo_desc := gr_desc r, encrypted := gr_encrypted r,
                repaired := gr_repaired r\<rparr>;
          c = (if gr_encrypted r then
                 (let c = c\<lparr>enc_version := gr_enc_version r\<rparr> in
                  if gr_enc_version r = 1 then c\<lparr>magic := Some (gr_magic r)\<rparr>
                  else if gr_enc_version r = 2 then
                    c\<lparr>magic := Some (gr_magic r), random_key := Some (gr_random_key r)\<rparr>
                  else c)
               else c)
      in c\<lparr>no_local_history := gr_no_local_history r, co_version := gr_version r\<rparr>)"

definition gc_commits :: "gc_session \<Rightarrow> string \<Rightarrow> commit_view" where
  "gc_commits S repo = \<lparr>cv_libs = gs_libs S, cv_searpc = gs_searpc S, cv_store = gs_commits S,
     cv_repo = repo, cv_now = of_int (gs_now S)\<rparr>"

definition gc_fs :: "gc_session \<Rightarrow> gc_repo \<Rightarrow> fs_view" where
  "gc_fs S r = \<lparr>fv_libs = gs_libs S, fv_store = gs_fs S, fv_repo = gr_store_id r, fv_version = gr_version r\<rparr>"

section \<open>Virtual repositories\<close>

definition gc_get_virtual_repo_info :: "gc_session \<Rightarrow> string \<Rightarrow> virt_info option" where
  "gc_get_virtual_repo_info S i =
     (if gs_fails S Q_VIRTUAL_INFO i then None
      else (case map_of (gs_virtual S) i of
              None \<Rightarrow> None
            | Some v \<Rightarrow> Some (v\<lparr>vi_origin_repo := take 36 (vi_origin_repo v), vi_base_commit := take 40 (vi_base_commit v)\<rparr>)))"

text \<open>None is the empty list, also after a database error.\<close>

definition get_virtual_repo_ids_by_origin :: "gc_session \<Rightarrow> string \<Rightarrow> string list" where
  "get_virtual_repo_ids_by_origin S origin =
     (if gs_fails S Q_VIRTUAL_BY_ORIGIN origin then []
      else rev (foldl (\<lambda>ids row. if vi_origin_repo (snd row) = origin then fst row # ids else ids) [] (gs_virtual S)))"

section \<open>Loading\<close>

definition load_repo_commit :: "gc_session \<Rightarrow> gc_repo \<Rightarrow> branch \<Rightarrow> gc_repo" where
  "load_repo_commit S r b =
     (case seaf_commit_manager_get_commit (gc_commits S (gr_id r)) (br_commit_id b) of
        None \<Rightarrow> r\<lparr>gr_is_corrupted := True\<rparr>
      | Some c \<Rightarrow> gc_repo_from_commit (set_head_common r b) c)"

definition gc_load_repo :: "gc_session \<Rightarrow> string \<Rightarrow> bool \<Rightarrow> gc_repo option" where
  "gc_load_repo S i ret_corrupt =
     (let r = gc_repo_new i None None;
          r = (case seaf_branch_manager_get_branch (gs_branches S) i ''master'' of
                 None \<Rightarrow> r\<lparr>gr_is_corrupted := True\<rparr>
               | Some b \<Rightarrow> load_repo_commit S r b)
      in if gr_is_corrupted r then (if \<not> ret_corrupt then None else Some r)
         else (case gc_get_virtual_repo_info S i of
                 Some v \<Rightarrow> Some (r\<lparr>gr_is_virtual := True, gr_store_id := take 36 (vi_origin_repo v)\<rparr>)
               | None \<Rightarrow> Some (r\<lparr>gr_is_virtual := False, gr_store_id := take 36 (gr_id r)\<rparr>)))"

text \<open>A database error in the first query counts as "does not exist", in the second it is reported.\<close>

definition repo_exists_in_db :: "gc_session \<Rightarrow> string \<Rightarrow> bool" where
  "repo_exists_in_db S i \<longleftrightarrow> \<not> gs_fails S Q_REPO_EXISTS i \<and> i \<in> set (gs_repos S)"

definition repo_exists_in_db_ex :: "gc_session \<Rightarrow> string \<Rightarrow> bool \<times> bool" where
  "repo_exists_in_db_ex S i =
     (if gs_fails S Q_REPO_EXISTS i then (False, True) else (i \<in> set (gs_repos S), False))"

definition gc_get_repo :: "gc_session \<Rightarrow> string \<Rightarrow> gc_repo option" where
  "gc_get_repo S i =
     (if length i \<ge> 37 then None
      else if repo_exists_in_db S i then gc_load_repo S i False
      else None)"

definition gc_get_repo_ex :: "gc_session \<Rightarrow> string \<Rightarrow> gc_repo option" where
  "gc_get_repo_ex S i =
     (if length i \<ge> 37 then None
      else (case repo_exists_in_db_ex S i of
              (exists, db_err) \<Rightarrow>
                if db_err then Some ((gc_repo_new i None None)\<lparr>gr_is_corrupted := True\<rparr>)
                else if exists then gc_load_repo S i True
                else None))"

definition gc_repo_exists :: "gc_session \<Rightarrow> string \<Rightarrow> bool" where
  "gc_repo_exists S i = repo_exists_in_db S i"

text \<open>The rows prepended to a list one after the other.\<close>

definition gc_get_repo_id_list :: "gc_session \<Rightarrow> string list" where
  "gc_get_repo_id_list S = (if gs_fails S Q_REPO_LIST [] then [] else rev (gs_repos S))"

definition list_garbage_repos :: "gc_session \<Rightarrow> string list" where
  "list_garbage_repos S = (if gs_fails S Q_GARBAGE_LIST [] then [] else rev (gs_garbage S))"

definition remove_garbage_repo :: "gc_session \<Rightarrow> string \<Rightarrow> gc_session" where
  "remove_garbage_repo S i =
     (if gs_fails S Q_GARBAGE_DELETE i then S else S\<lparr>gs_garbage := filter (\<lambda>j. j \<noteq> i) (gs_garbage S)\<rparr>)"

section \<open>How long history is kept\<close>

definition get_repo_history_limit :: "gc_session \<Rightarrow> string \<Rightarrow> int" where
  "get_repo_history_limit S i =
     (let r_repo_id = (case gc_get_virtual_repo_info S i of None \<Rightarrow> i | Some v \<Rightarrow> vi_origin_repo v);
          per_repo_days =
            (if gs_fails S Q_HISTORY_LIMIT r_repo_id then -1
             else (case gs_history S r_repo_id of Some days \<Rightarrow> days | None \<Rightarrow> gs_keep_days S))
      in if per_repo_days < 0 then -1 else per_repo_days)"

definition set_repo_history_limit :: "gc_session \<Rightarrow> string \<Rightarrow> int \<Rightarrow> int \<times> gc_session" where
  "set_repo_history_limit S i days =
     (if gc_get_virtual_repo_info S i \<noteq> None then (0, S)
      else if gs_fails S Q_SET_HISTORY_LIMIT i then (-1, S)
      else (0, S\<lparr>gs_history := (gs_history S)(i \<mapsto> days)\<rparr>))"

definition set_repo_valid_since :: "gc_session \<Rightarrow> string \<Rightarrow> int \<Rightarrow> int \<times> gc_session" where
  "set_repo_valid_since S i timestamp =
     (if gs_fails S Q_SET_VALID_SINCE i then (-1, S)
      else (0, S\<lparr>gs_valid := (gs_valid S)(i \<mapsto> timestamp)\<rparr>))"

definition get_repo_valid_since :: "gc_session \<Rightarrow> string \<Rightarrow> int" where
  "get_repo_valid_since S i =
     (if gs_fails S Q_VALID_SINCE i then -1 else (case gs_valid S i of None \<Rightarrow> -1 | Some t \<Rightarrow> t))"

text \<open>The seconds are computed in an \<open>int\<close>.\<close>

definition days_in_seconds :: "int \<Rightarrow> int" where
  "days_in_seconds days = sint (of_int (days * 24 * 3600) :: u32)"

definition get_repo_truncate_time :: "gc_session \<Rightarrow> string \<Rightarrow> int" where
  "get_repo_truncate_time S i =
     (let days = get_repo_history_limit S i; timestamp = get_repo_valid_since S i
      in if days > 0 then max (gs_now S - days_in_seconds days) timestamp
         else if days < 0 then timestamp
         else 0)"

section \<open>Lemmas\<close>

lemma set_valid_frame [simp]:
  "gs_libs (snd (set_repo_valid_since S i t)) = gs_libs S" "gs_blocks (snd (set_repo_valid_since S i t)) = gs_blocks S"
  "gc_commits (snd (set_repo_valid_since S i t)) = gc_commits S" "gc_fs (snd (set_repo_valid_since S i t)) = gc_fs S"
  "gs_branches (snd (set_repo_valid_since S i t)) = gs_branches S"
  by (simp_all add: set_repo_valid_since_def gc_commits_def gc_fs_def fun_eq_iff)

text \<open>A virtual repository of an origin, as the query finds it.\<close>

lemma virtual_ids:
  "get_virtual_repo_ids_by_origin S origin =
     (if gs_fails S Q_VIRTUAL_BY_ORIGIN origin then []
      else map fst (filter (\<lambda>row. vi_origin_repo (snd row) = origin) (gs_virtual S)))"
proof -
  have "foldl (\<lambda>ids row. if vi_origin_repo (snd row) = origin then fst row # ids else ids) ids rows =
      rev (map fst (filter (\<lambda>row. vi_origin_repo (snd row) = origin) rows)) @ ids"
    for ids and rows :: "(string \<times> virt_info) list"
    by (induction rows arbitrary: ids) simp_all
  then show ?thesis by (simp add: get_virtual_repo_ids_by_origin_def)
qed

text \<open>
  A commit that fsck writes for a library of encryption version 3 or 4 loses the parameters: no such
  commit can be loaded again.
\<close>

theorem fsck_commit_of_new_encryption_unreadable:
  assumes "encrypted c" "enc_version c = 3 \<or> enc_version c = 4"
    and "c2 = gc_repo_to_commit (gc_repo_from_commit r c) (seaf_commit_new L now i repo root creator n d t)"
  shows "enc_version c2 = enc_version c \<and> magic c2 = None \<and> random_key c2 = None \<and> salt c2 = None \<and>
    \<not> enc_ok (enc_version c2) (magic c2) (random_key c2) (salt c2)"
proof -
  let ?new = "seaf_commit_new L now i repo root creator n d t"
  have new: "magic ?new = None" "random_key ?new = None" "salt ?new = None"
    by (simp_all add: seaf_commit_new_def compute_commit_id_def Let_def split: option.split)
  have r: "gr_encrypted (gc_repo_from_commit r c)" "gr_enc_version (gc_repo_from_commit r c) = enc_version c"
    using assms(1,2) by (auto simp: gc_repo_from_commit_def)
  have "enc_version c2 = enc_version c" "magic c2 = None" "random_key c2 = None" "salt c2 = None"
    using assms(2) r new unfolding assms(3) by (auto simp: gc_repo_to_commit_def)
  then show ?thesis using assms(2) by (auto simp: enc_ok_def opt_length_is_def)
qed

end
