(* ===== verification/Bloom.thy ===== *)
theory Bloom
  imports Prelude "HOL-Library.Multiset"
begin

text \<open>
  The Bloom filter of the garbage collector (\<open>lib/bloom-filter.c\<close>): a bit vector, in the counting
  variant with a four-bit counter for every bit that sticks at fifteen.  The digest function of
  OpenSSL is the parameter \<open>sha256\<close>.  The filter never forgets a key that was added and not removed.
\<close>

section \<open>The filter\<close>

record bloom =
  bl_asize :: u64
  bl_a :: "u8 list"
  bl_csize :: u64
  bl_counters :: "u8 list"
  bl_k :: int
  bl_counting :: bool

definition CHAR_BIT :: u64 where "CHAR_BIT = 8"

text \<open>\<open>SETBIT\<close>, \<open>CLEARBIT\<close>, \<open>GETBIT\<close>.\<close>

definition SETBIT :: "u8 list \<Rightarrow> nat \<Rightarrow> u8 list" where
  "SETBIT a n = a[n div 8 := (a ! (n div 8)) OR push_bit (n mod 8) 1]"

definition CLEARBIT :: "u8 list \<Rightarrow> nat \<Rightarrow> u8 list" where
  "CLEARBIT a n = a[n div 8 := (a ! (n div 8)) AND NOT (push_bit (n mod 8) 1)]"

definition GETBIT :: "u8 list \<Rightarrow> nat \<Rightarrow> bool" where
  "GETBIT a n \<longleftrightarrow> (a ! (n div 8)) AND push_bit (n mod 8) 1 \<noteq> 0"

text \<open>
  \<open>alloc\<close> says whether an allocation of so many bytes succeeds.  The one-bit field \<open>counting\<close> keeps the
  lowest bit of the argument.
\<close>

definition bloom_create :: "(u64 \<Rightarrow> bool) \<Rightarrow> u64 \<Rightarrow> int \<Rightarrow> int \<Rightarrow> bloom option" where
  "bloom_create alloc sz k counting =
     (if k \<le> 0 \<or> k > 4 then None
      else
        (let abytes = (sz + CHAR_BIT - 1) div CHAR_BIT;
             csize = (if counting \<noteq> 0 then sz * 4 else 0);
             cbytes = (csize + CHAR_BIT - 1) div CHAR_BIT
         in if \<not> alloc abytes then None
            else if counting \<noteq> 0 \<and> \<not> alloc cbytes then None
            else Some \<lparr>bl_asize = sz, bl_a = replicate (unat abytes) 0, bl_csize = csize,
                   bl_counters = (if counting \<noteq> 0 then replicate (unat cbytes) 0 else []),
                   bl_k = k, bl_counting = odd counting\<rparr>))"

definition incr_bit :: "bloom \<Rightarrow> u32 \<Rightarrow> bloom" where
  "incr_bit bf bit_idx =
     (let bf = bf\<lparr>bl_a := SETBIT (bl_a bf) (unat bit_idx)\<rparr> in
      if \<not> bl_counting bf then bf
      else
        (let char_idx = unat (bit_idx div 2); offset = bit_idx mod 2; val = bl_counters bf ! char_idx;
             low = val AND 0x0F; high = drop_bit 4 (val AND 0xF0);
             low' = (if offset = 0 \<and> low < 0x0F then low + 1 else low);
             high' = (if offset \<noteq> 0 \<and> high < 0x0F then high + 1 else high)
         in bf\<lparr>bl_counters := (bl_counters bf)[char_idx := push_bit 4 high' OR low']\<rparr>))"

definition decr_bit :: "bloom \<Rightarrow> u32 \<Rightarrow> bloom" where
  "decr_bit bf bit_idx =
     (if \<not> bl_counting bf then bf\<lparr>bl_a := CLEARBIT (bl_a bf) (unat bit_idx)\<rparr>
      else
        (let char_idx = unat (bit_idx div 2); offset = bit_idx mod 2; val = bl_counters bf ! char_idx;
             low = val AND 0x0F; high = drop_bit 4 (val AND 0xF0);
             low' = (if offset = 0 \<and> low > 0 \<and> low < 0x0F then low - 1 else low);
             high' = (if offset \<noteq> 0 \<and> high > 0 \<and> high < 0x0F then high - 1 else high);
             bf = (if (if offset = 0 then low' else high') = 0
                   then bf\<lparr>bl_a := CLEARBIT (bl_a bf) (unat bit_idx)\<rparr> else bf)
         in bf\<lparr>bl_counters := (bl_counters bf)[char_idx := push_bit 4 high' OR low']\<rparr>))"

text \<open>The digest read as an array of \<open>size_t\<close> on a little-endian host.\<close>

definition sha_int :: "bytes \<Rightarrow> nat \<Rightarrow> u64" where
  "sha_int digest i = of_nat (be_val (rev (take 8 (drop (8 * i) digest))))"

definition bit_index :: "(string \<Rightarrow> bytes) \<Rightarrow> bloom \<Rightarrow> string \<Rightarrow> nat \<Rightarrow> u64" where
  "bit_index sha256 bf s i = sha_int (sha256 s) i mod bl_asize bf"

text \<open>\<open>incr_bit\<close> and \<open>decr_bit\<close> take an \<open>unsigned int\<close>, \<open>GETBIT\<close> the whole \<open>size_t\<close>.\<close>

definition bloom_add :: "(string \<Rightarrow> bytes) \<Rightarrow> bloom \<Rightarrow> string \<Rightarrow> bloom" where
  "bloom_add sha256 bf s =
     foldl (\<lambda>b i. incr_bit b (ucast (bit_index sha256 bf s i))) bf [0..<nat (bl_k bf)]"

definition bloom_remove :: "(string \<Rightarrow> bytes) \<Rightarrow> bloom \<Rightarrow> string \<Rightarrow> int \<times> bloom" where
  "bloom_remove sha256 bf s =
     (if \<not> bl_counting bf then (-1, bf)
      else (0, foldl (\<lambda>b i. decr_bit b (ucast (bit_index sha256 bf s i))) bf [0..<nat (bl_k bf)]))"

definition bloom_test :: "(string \<Rightarrow> bytes) \<Rightarrow> bloom \<Rightarrow> string \<Rightarrow> bool" where
  "bloom_test sha256 bf s =
     list_all (\<lambda>i. GETBIT (bl_a bf) (unat (bit_index sha256 bf s i))) [0..<nat (bl_k bf)]"

section \<open>Bits and nibbles\<close>

lemma GETBIT_bit: "GETBIT a n \<longleftrightarrow> bit (a ! (n div 8)) (n mod 8)"
  by (simp only: GETBIT_def bit_iff_and_push_bit_not_eq_0)

lemma GETBIT_SETBIT:
  "n div 8 < length a \<Longrightarrow> GETBIT (SETBIT a n) m \<longleftrightarrow> m = n \<or> GETBIT a m"
  unfolding GETBIT_bit SETBIT_def
  using div_mod_decomp [of m 8] div_mod_decomp [of n 8]
  by (cases "m div 8 = n div 8") (auto simp: bit_simps)

lemma GETBIT_CLEARBIT:
  "n div 8 < length a \<Longrightarrow> GETBIT (CLEARBIT a n) m \<longleftrightarrow> m \<noteq> n \<and> GETBIT a m"
  unfolding GETBIT_bit CLEARBIT_def
  using div_mod_decomp [of m 8] div_mod_decomp [of n 8]
  by (cases "m div 8 = n div 8") (auto simp: bit_simps)

definition nibble :: "u8 list \<Rightarrow> nat \<Rightarrow> u8" where
  "nibble cs i = (if even i then cs ! (i div 2) AND 0x0F else drop_bit 4 (cs ! (i div 2) AND 0xF0))"

lemma mask_0F: "(w :: u8) AND 0x0F = take_bit 4 w"
proof -
  have "(0x0F :: u8) = mask 4" by (simp add: mask_eq_exp_minus_1)
  then show ?thesis by (simp add: take_bit_eq_mask)
qed

lemma high_bit: "bit (w :: u8) (4 + n) \<Longrightarrow> n < 4"
  using bit_imp_le_length [of w "4 + n"] by simp

lemma mask_F0: "drop_bit 4 ((w :: u8) AND 0xF0) = drop_bit 4 w"
proof -
  have "bit (0xF0 :: u8) (4 + n)" if "n < 4" for n
  proof -
    from that consider "n = 0" | "n = 1" | "n = 2" | "n = 3" by linarith
    then show ?thesis by cases simp_all
  qed
  then have "bit (drop_bit 4 (w AND 0xF0)) n \<longleftrightarrow> bit (drop_bit 4 w) n" for n
    using high_bit [of w n] by (simp only: bit_drop_bit_eq bit_and_iff o_apply) blast
  then show ?thesis by (simp only: bit_eq_iff) simp
qed

lemmas nibbles = mask_0F mask_F0

lemma nibble_small: "take_bit 4 (drop_bit 4 (w :: u8)) = drop_bit 4 w" "take_bit 4 (take_bit 4 w) = take_bit 4 w"
  by (auto simp: bit_eq_iff bit_simps dest: high_bit)

lemma small_iff: "take_bit 4 (w :: u8) = w \<longleftrightarrow> w < 16"
  using take_bit_nat_eq_self_iff [of 4 "unat w"]
  by (simp add: word_unat_eq_iff unsigned_take_bit_eq word_less_nat_alt)

lemma join_nibbles:
  fixes high low :: u8
  assumes "take_bit 4 high = high" "take_bit 4 low = low"
  shows "take_bit 4 (push_bit 4 high OR low) = low" "drop_bit 4 (push_bit 4 high OR low) = high"
proof -
  have h: "bit high n \<Longrightarrow> n < 4" and l: "bit low n \<Longrightarrow> n < 4" for n
    using assms by (metis bit_take_bit_iff)+
  show "take_bit 4 (push_bit 4 high OR low) = low"
    by (auto simp: bit_eq_iff bit_simps dest: l)
  show "drop_bit 4 (push_bit 4 high OR low) = high"
    by (auto simp: bit_eq_iff bit_simps dest: l h)
qed


section \<open>What the filter knows\<close>

text \<open>
  The level of a bit: its counter, or one and zero in a filter without counters.  \<open>holds bf f\<close> says that
  the bits are set where the level is not zero, and that the levels are the numbers \<open>f\<close> of keys that
  map to the bits, up to a counter that is stuck.
\<close>

definition level :: "bloom \<Rightarrow> nat \<Rightarrow> nat" where
  "level bf i = (if bl_counting bf then unat (nibble (bl_counters bf) i) else if GETBIT (bl_a bf) i then 1 else 0)"

definition fits :: "bloom \<Rightarrow> bool" where
  "fits bf \<longleftrightarrow> 0 < bl_asize bf \<and> unat (bl_asize bf) \<le> 2 ^ 32 \<and> unat (bl_asize bf) \<le> 8 * length (bl_a bf) \<and>
     (bl_counting bf \<longrightarrow> unat (bl_asize bf) \<le> 2 * length (bl_counters bf))"

definition holds :: "bloom \<Rightarrow> (nat \<Rightarrow> nat) \<Rightarrow> bool" where
  "holds bf f \<longleftrightarrow> fits bf \<and> (\<forall>i < unat (bl_asize bf). (GETBIT (bl_a bf) i \<longleftrightarrow> 0 < level bf i) \<and>
     (if bl_counting bf then level bf i = 15 \<or> level bf i = f i else 0 < level bf i \<longleftrightarrow> 0 < f i))"

lemma holds_bit: "holds bf f \<Longrightarrow> i < unat (bl_asize bf) \<Longrightarrow> 0 < f i \<Longrightarrow> GETBIT (bl_a bf) i"
  by (fastforce simp: holds_def split: if_splits)

lemma GETBIT_zero: "n div 8 < m \<Longrightarrow> \<not> GETBIT (replicate m 0) n"
  by (simp add: GETBIT_bit)

lemma nibble_zero: "i div 2 < m \<Longrightarrow> nibble (replicate m 0) i = 0"
  by (simp add: nibble_def)

lemma nibble_update:
  assumes "i div 2 < length cs" "high < 16" "low < 16"
  shows "nibble (cs[i div 2 := push_bit 4 high OR low]) j =
    (if j div 2 = i div 2 then if even j then low else high else nibble cs j)"
  using assms join_nibbles [of high low] by (simp add: nibble_def nibbles small_iff)

lemma nibble_parts:
  "even i \<Longrightarrow> nibble cs i = cs ! (i div 2) AND 0x0F" "odd i \<Longrightarrow> nibble cs i = drop_bit 4 (cs ! (i div 2) AND 0xF0)"
  by (simp_all add: nibble_def)

lemma parts_small: "(w :: u8) AND 0x0F < 16" "drop_bit 4 ((w :: u8) AND 0xF0) < 16"
  unfolding nibbles by (rule iffD1 [OF small_iff nibble_small(2)], rule iffD1 [OF small_iff nibble_small(1)])

lemma u32_parity: "(n :: u32) mod 2 = 0 \<longleftrightarrow> even (unat n)" "unat (n div 2) = unat n div 2"
proof -
  have "(n mod 2 = 0) \<longleftrightarrow> unat (n mod 2) = 0" by (simp add: unat_eq_0)
  then show "n mod 2 = 0 \<longleftrightarrow> even (unat n)" by (simp add: unat_mod_distrib even_iff_mod_2_eq_zero)
  show "unat (n div 2) = unat n div 2" by (simp add: unat_div_distrib)
qed

lemma incr_bit_simps [simp]:
  "bl_asize (incr_bit bf u) = bl_asize bf" "bl_counting (incr_bit bf u) = bl_counting bf" "bl_k (incr_bit bf u) = bl_k bf"
  "bl_a (incr_bit bf u) = SETBIT (bl_a bf) (unat u)" "length (bl_counters (incr_bit bf u)) = length (bl_counters bf)"
  by (simp_all add: incr_bit_def Let_def)

lemma decr_bit_simps [simp]:
  "bl_asize (decr_bit bf u) = bl_asize bf" "bl_counting (decr_bit bf u) = bl_counting bf" "bl_k (decr_bit bf u) = bl_k bf"
  "length (bl_a (decr_bit bf u)) = length (bl_a bf)" "length (bl_counters (decr_bit bf u)) = length (bl_counters bf)"
  by (simp_all add: decr_bit_def Let_def CLEARBIT_def)

lemma length_SETBIT [simp]: "length (SETBIT a n) = length a"
  by (simp add: SETBIT_def)

lemma div2_eq: "j div 2 = i div 2 \<Longrightarrow> even j = even i \<Longrightarrow> j = (i :: nat)"
  by (metis dvd_mult_div_cancel odd_two_times_div_two_succ)

lemma change_nibble:
  assumes "i div 2 < length cs" "\<And>w. w < 16 \<Longrightarrow> g w < 16" and v: "v = cs ! (i div 2)"
  shows "nibble (cs[i div 2 := push_bit 4 (if odd i then g (drop_bit 4 (v AND 0xF0)) else drop_bit 4 (v AND 0xF0))
      OR (if even i then g (v AND 0x0F) else v AND 0x0F)]) j = (if j = i then g (nibble cs j) else nibble cs j)"
proof -
  let ?high = "if odd i then g (drop_bit 4 (v AND 0xF0)) else drop_bit 4 (v AND 0xF0)"
  let ?low = "if even i then g (v AND 0x0F) else v AND 0x0F"
  have small: "?high < 16" "?low < 16" using assms(2) parts_small by simp_all
  show ?thesis
  proof (cases "j div 2 = i div 2")
    case True
    then have "j = i \<longleftrightarrow> even j = even i" using div2_eq by blast
    then show ?thesis
      unfolding nibble_update [OF assms(1) small] using True by (simp add: nibble_def v)
  next
    case False
    then have "j \<noteq> i" by auto
    then show ?thesis unfolding nibble_update [OF assms(1) small] using False by simp
  qed
qed

definition bump :: "u8 \<Rightarrow> u8" where "bump c = (if c < 0x0F then c + 1 else c)"
definition drop_one :: "u8 \<Rightarrow> u8" where "drop_one c = (if c > 0 \<and> c < 0x0F then c - 1 else c)"

lemma bump_small: "w < 16 \<Longrightarrow> bump w < 16"
  unfolding bump_def by unat_arith

lemma drop_one_small: "w < 16 \<Longrightarrow> drop_one w < 16"
  unfolding drop_one_def by unat_arith

lemma incr_nibble:
  assumes "bl_counting bf" "unat u div 2 < length (bl_counters bf)"
  shows "nibble (bl_counters (incr_bit bf u)) j =
    (if j = unat u then bump (nibble (bl_counters bf) j) else nibble (bl_counters bf) j)"
proof -
  let ?v = "bl_counters bf ! (unat u div 2)"
  have eq: "bl_counters (incr_bit bf u) = (bl_counters bf)[unat u div 2 :=
      push_bit 4 (if odd (unat u) then bump (drop_bit 4 (?v AND 0xF0)) else drop_bit 4 (?v AND 0xF0))
        OR (if even (unat u) then bump (?v AND 0x0F) else ?v AND 0x0F)]"
    using assms(1) by (simp add: incr_bit_def Let_def u32_parity bump_def)
  show ?thesis unfolding eq by (rule change_nibble [OF assms(2) bump_small refl])
qed

lemma decr_nibble:
  assumes "bl_counting bf" "unat u div 2 < length (bl_counters bf)"
  shows "nibble (bl_counters (decr_bit bf u)) j =
    (if j = unat u then drop_one (nibble (bl_counters bf) j) else nibble (bl_counters bf) j)"
proof -
  let ?v = "bl_counters bf ! (unat u div 2)"
  have eq: "bl_counters (decr_bit bf u) = (bl_counters bf)[unat u div 2 :=
      push_bit 4 (if odd (unat u) then drop_one (drop_bit 4 (?v AND 0xF0)) else drop_bit 4 (?v AND 0xF0))
        OR (if even (unat u) then drop_one (?v AND 0x0F) else ?v AND 0x0F)]"
    using assms(1) by (simp add: decr_bit_def Let_def u32_parity drop_one_def)
  show ?thesis unfolding eq by (rule change_nibble [OF assms(2) drop_one_small refl])
qed


lemma bump_level: "w < 16 \<Longrightarrow> unat (bump w) = (if unat w < 15 then unat w + 1 else unat w)"
  by (simp add: bump_def word_less_nat_alt unat_word_ariths)

lemma drop_one_level: "w < 16 \<Longrightarrow> unat (drop_one w) = (if 0 < unat w \<and> unat w < 15 then unat w - 1 else unat w)"
  unfolding drop_one_def by unat_arith

lemma nibble_less: "nibble cs i < 16"
  by (simp add: nibble_def parts_small)

lemma fits_index: "fits bf \<Longrightarrow> i < unat (bl_asize bf) \<Longrightarrow> i div 8 < length (bl_a bf) \<and>
    (bl_counting bf \<longrightarrow> i div 2 < length (bl_counters bf))"
  by (auto simp: fits_def)

lemma incr_level:
  assumes "fits bf" "unat u < unat (bl_asize bf)"
  shows "level (incr_bit bf u) j = (if bl_counting bf then
      if j = unat u \<and> level bf j < 15 then level bf j + 1 else level bf j
    else if j = unat u then 1 else level bf j)"
  using fits_index [OF assms] incr_nibble [of bf u j] bump_level [OF nibble_less]
  by (auto simp: level_def GETBIT_SETBIT)

lemma decr_level:
  assumes "fits bf" "unat u < unat (bl_asize bf)" "bl_counting bf"
  shows "level (decr_bit bf u) j = (if j = unat u \<and> 0 < level bf j \<and> level bf j < 15 then level bf j - 1 else level bf j)"
  using fits_index [OF assms(1,2)] decr_nibble [of bf u j] drop_one_level [OF nibble_less] assms(3)
  by (auto simp: level_def)

lemma decr_bits:
  assumes "fits bf" "unat u < unat (bl_asize bf)" "bl_counting bf"
  shows "GETBIT (bl_a (decr_bit bf u)) j \<longleftrightarrow> GETBIT (bl_a bf) j \<and> (j = unat u \<longrightarrow> 0 < level (decr_bit bf u) j)"
proof -
  let ?c = "nibble (bl_counters bf) (unat u)"
  have c: "bl_a (decr_bit bf u) = (if drop_one ?c = 0 then CLEARBIT (bl_a bf) (unat u) else bl_a bf)"
    using assms(3) by (auto simp: decr_bit_def Let_def u32_parity drop_one_def nibble_def)
  have "level (decr_bit bf u) (unat u) = unat (drop_one ?c)"
    using decr_nibble [OF assms(3)] fits_index [OF assms(1,2)] assms(3) by (simp add: level_def)
  then show ?thesis
    using fits_index [OF assms(1,2)] by (auto simp: c GETBIT_CLEARBIT unat_eq_0 unat_gt_0)
qed

lemma level_max: "level bf j \<le> 15"
  using nibble_less [of "bl_counters bf" j] by (auto simp: level_def word_less_nat_alt)

lemma holds_incr:
  assumes "holds bf f" "unat u < unat (bl_asize bf)"
  shows "holds (incr_bit bf u) (f(unat u := f (unat u) + 1))"
proof -
  have fits: "fits bf" using assms(1) by (simp add: holds_def)
  have "fits (incr_bit bf u)" using fits by (simp add: fits_def)
  moreover have "(GETBIT (bl_a (incr_bit bf u)) j \<longleftrightarrow> 0 < level (incr_bit bf u) j) \<and>
     (if bl_counting bf then level (incr_bit bf u) j = 15 \<or> level (incr_bit bf u) j = (f(unat u := f (unat u) + 1)) j
      else 0 < level (incr_bit bf u) j \<longleftrightarrow> 0 < (f(unat u := f (unat u) + 1)) j)" if "j < unat (bl_asize bf)" for j
    using assms(1) that fits_index [OF fits assms(2)] incr_level [OF fits assms(2), of j] level_max [of bf j]
    by (auto simp: holds_def GETBIT_SETBIT split: if_splits)
  ultimately show ?thesis unfolding holds_def incr_bit_simps(1,2) by blast
qed

lemma holds_decr:
  assumes "holds bf f" "unat u < unat (bl_asize bf)" "bl_counting bf" "0 < f (unat u)"
  shows "holds (decr_bit bf u) (f(unat u := f (unat u) - 1))"
proof -
  have fits: "fits bf" using assms(1) by (simp add: holds_def)
  have "fits (decr_bit bf u)" using fits by (simp add: fits_def)
  moreover have "(GETBIT (bl_a (decr_bit bf u)) j \<longleftrightarrow> 0 < level (decr_bit bf u) j) \<and>
     (level (decr_bit bf u) j = 15 \<or> level (decr_bit bf u) j = (f(unat u := f (unat u) - 1)) j)"
    if "j < unat (bl_asize bf)" for j
    using assms(1,3,4) that decr_bits [OF fits assms(2,3), of j] decr_level [OF fits assms(2,3), of j] level_max [of bf j]
    by (auto simp: holds_def split: if_splits)
  ultimately show ?thesis using assms(3) by (simp add: holds_def)
qed

text \<open>The positions a key maps to, and how many keys of a multiset map to a position.\<close>

definition positions :: "(string \<Rightarrow> bytes) \<Rightarrow> u64 \<Rightarrow> int \<Rightarrow> string \<Rightarrow> nat list" where
  "positions sha256 asize k s = map (\<lambda>i. unat (sha_int (sha256 s) i mod asize)) [0..<nat k]"

definition occupied :: "(string \<Rightarrow> bytes) \<Rightarrow> bloom \<Rightarrow> string multiset \<Rightarrow> nat \<Rightarrow> nat" where
  "occupied sha256 bf M i = (\<Sum>s\<in>#M. count_list (positions sha256 (bl_asize bf) (bl_k bf) s) i)"

lemma position_less: "fits bf \<Longrightarrow> unat (x mod bl_asize bf) < unat (bl_asize bf)"
  by (metis fits_def unat_mod_distrib mod_less_divisor word_greater_zero_iff unat_gt_0)

lemma narrow: "fits bf \<Longrightarrow> unat (ucast (x mod bl_asize bf) :: u32) = unat (x mod bl_asize bf)"
proof -
  assume "fits bf"
  then have "unat (x mod bl_asize bf) < 2 ^ 32" using position_less [of bf x] by (simp add: fits_def)
  then show ?thesis by (simp add: unsigned_ucast_eq take_bit_nat_eq_self_iff)
qed

lemma fold_incr:
  assumes "holds bf f"
  shows "holds (foldl (\<lambda>b i. incr_bit b (ucast (x i mod bl_asize bf))) bf is)
      (\<lambda>p. f p + count_list (map (\<lambda>i. unat (x i mod bl_asize bf)) is) p) \<and>
    bl_asize (foldl (\<lambda>b i. incr_bit b (ucast (x i mod bl_asize bf))) bf is) = bl_asize bf \<and>
    bl_k (foldl (\<lambda>b i. incr_bit b (ucast (x i mod bl_asize bf))) bf is) = bl_k bf \<and>
    bl_counting (foldl (\<lambda>b i. incr_bit b (ucast (x i mod bl_asize bf))) bf is) = bl_counting bf"
  using assms
proof (induction "is" arbitrary: bf f)
  case (Cons i "is")
  let ?u = "ucast (x i mod bl_asize bf) :: u32" and ?p = "unat (x i mod bl_asize bf)"
  have fits: "fits bf" using Cons.prems by (simp add: holds_def)
  have "holds (incr_bit bf ?u) (f(?p := f ?p + 1))"
    using holds_incr [OF Cons.prems, of ?u] narrow [OF fits] position_less [OF fits] by simp
  from Cons.IH [OF this] show ?case
    by (auto elim!: back_subst [of "holds _"])
qed simp

lemma fold_decr:
  assumes "holds bf f" "bl_counting bf" "\<And>p. count_list (map (\<lambda>i. unat (x i mod bl_asize bf)) is) p \<le> f p"
  shows "holds (foldl (\<lambda>b i. decr_bit b (ucast (x i mod bl_asize bf))) bf is)
      (\<lambda>p. f p - count_list (map (\<lambda>i. unat (x i mod bl_asize bf)) is) p) \<and>
    bl_asize (foldl (\<lambda>b i. decr_bit b (ucast (x i mod bl_asize bf))) bf is) = bl_asize bf \<and>
    bl_k (foldl (\<lambda>b i. decr_bit b (ucast (x i mod bl_asize bf))) bf is) = bl_k bf \<and>
    bl_counting (foldl (\<lambda>b i. decr_bit b (ucast (x i mod bl_asize bf))) bf is) = bl_counting bf"
  using assms
proof (induction "is" arbitrary: bf f)
  case (Cons i "is")
  let ?u = "ucast (x i mod bl_asize bf) :: u32" and ?p = "unat (x i mod bl_asize bf)"
  have fits: "fits bf" using Cons.prems by (simp add: holds_def)
  have pos: "0 < f ?p" using Cons.prems(3) [of ?p] by simp
  have h: "holds (decr_bit bf ?u) (f(?p := f ?p - 1))"
    using holds_decr [OF Cons.prems(1), of ?u] narrow [OF fits] position_less [OF fits] Cons.prems(2) pos by simp
  have c: "bl_counting (decr_bit bf ?u)" using Cons.prems(2) by simp
  have l: "count_list (map (\<lambda>i. unat (x i mod bl_asize (decr_bit bf ?u))) is) p \<le> (f(?p := f ?p - 1)) p" for p
    using Cons.prems(3) [of p] by (auto split: if_splits)
  have eq: "(\<lambda>p. (f(?p := f ?p - 1)) p - count_list (map (\<lambda>i. unat (x i mod bl_asize bf)) is) p)
    = (\<lambda>p. f p - count_list (map (\<lambda>i. unat (x i mod bl_asize bf)) (i # is)) p)"
    by auto
  from Cons.IH [OF h c l] show ?case unfolding eq [symmetric] by simp
qed simp

section \<open>No key is forgotten\<close>

lemma occupied_add:
  "bl_asize b = bl_asize bf \<Longrightarrow> bl_k b = bl_k bf \<Longrightarrow> occupied sha256 b (add_mset s M) =
    (\<lambda>p. occupied sha256 bf M p + count_list (map (\<lambda>i. unat (sha_int (sha256 s) i mod bl_asize bf)) [0..<nat (bl_k bf)]) p)"
  by (auto simp: occupied_def positions_def)

lemma occupied_remove:
  "bl_asize b = bl_asize bf \<Longrightarrow> bl_k b = bl_k bf \<Longrightarrow> occupied sha256 b N =
    (\<lambda>p. occupied sha256 bf (add_mset s N) p - count_list (map (\<lambda>i. unat (sha_int (sha256 s) i mod bl_asize bf)) [0..<nat (bl_k bf)]) p)"
  by (auto simp: occupied_def positions_def)

lemma bloom_add_holds:
  assumes "holds bf (occupied sha256 bf M)"
  shows "holds (bloom_add sha256 bf s) (occupied sha256 (bloom_add sha256 bf s) (add_mset s M)) \<and>
    bl_counting (bloom_add sha256 bf s) = bl_counting bf"
proof -
  let ?b = "foldl (\<lambda>b i. incr_bit b (ucast (sha_int (sha256 s) i mod bl_asize bf))) bf [0..<nat (bl_k bf)]"
  have b: "bloom_add sha256 bf s = ?b" by (simp add: bloom_add_def bit_index_def)
  show ?thesis
    using fold_incr [OF assms, of "sha_int (sha256 s)" "[0..<nat (bl_k bf)]"]
      occupied_add [of ?b bf sha256 s M] unfolding b by simp
qed

lemma bloom_remove_holds:
  assumes "holds bf (occupied sha256 bf M)" "bl_counting bf" "s \<in># M"
  shows "holds (snd (bloom_remove sha256 bf s)) (occupied sha256 (snd (bloom_remove sha256 bf s)) (M - {#s#}))"
proof -
  obtain N where M: "M = add_mset s N" using assms(3) by (metis insert_DiffM)
  let ?b = "foldl (\<lambda>b i. decr_bit b (ucast (sha_int (sha256 s) i mod bl_asize bf))) bf [0..<nat (bl_k bf)]"
  have "count_list (map (\<lambda>i. unat (sha_int (sha256 s) i mod bl_asize bf)) [0..<nat (bl_k bf)]) p
      \<le> occupied sha256 bf M p" for p
    by (simp add: M occupied_def positions_def)
  note new = fold_decr [OF assms(1,2) this]
  then have "holds ?b (occupied sha256 ?b N)" unfolding M using occupied_remove [of ?b bf sha256 N s] by simp
  then show ?thesis using assms(2) by (simp add: bloom_remove_def bit_index_def M)
qed

lemma bloom_test_holds:
  assumes "holds bf (occupied sha256 bf M)" "s \<in># M"
  shows "bloom_test sha256 bf s"
proof -
  have "GETBIT (bl_a bf) (unat (bit_index sha256 bf s i))" if "i < nat (bl_k bf)" for i
  proof -
    let ?p = "unat (bit_index sha256 bf s i)"
    have "?p \<in> set (positions sha256 (bl_asize bf) (bl_k bf) s)" using that by (simp add: positions_def bit_index_def)
    then have "0 < count_list (positions sha256 (bl_asize bf) (bl_k bf) s) ?p"
      by (metis count_list_0_iff gr0I)
    moreover obtain N where "M = add_mset s N" using assms(2) by (metis insert_DiffM)
    ultimately have "0 < occupied sha256 bf M ?p" by (simp add: occupied_def)
    moreover have "?p < unat (bl_asize bf)"
      using position_less assms(1) by (simp add: bit_index_def holds_def)
    ultimately show ?thesis using holds_bit [OF assms(1)] by blast
  qed
  then show ?thesis by (simp add: bloom_test_def list_all_iff)
qed

lemma bloom_create_holds:
  assumes "bloom_create alloc sz k counting = Some bf" "0 < sz" "unat sz \<le> 2 ^ 32" "counting \<in> {0, 1}"
  shows "holds bf (occupied sha256 bf {#})"
proof -
  have bytes: "unat ((7 + sz) div 8) = (unat sz + 7) div 8" "unat ((7 + sz * 4) div 8) = (unat sz * 4 + 7) div 8"
    using assms(3) by (simp_all add: unat_div_distrib unat_word_ariths)
  have bf: "bl_asize bf = sz" "bl_a bf = replicate (unat ((7 + sz) div 8)) 0" "bl_counting bf = (counting = 1)"
      "counting = 1 \<Longrightarrow> bl_counters bf = replicate (unat ((7 + sz * 4) div 8)) 0"
    using assms(1,4) by (auto simp: bloom_create_def CHAR_BIT_def Let_def split: if_splits)
  have fits: "fits bf" using assms(2,3) bytes by (auto simp: fits_def bf)
  have "\<not> GETBIT (bl_a bf) i \<and> level bf i = 0" if "i < unat sz" for i
    using fits_index [OF fits, of i] that GETBIT_zero [of i] nibble_zero [of i]
    by (auto simp: bf level_def)
  then show ?thesis using fits by (auto simp: holds_def bf occupied_def)
qed

text \<open>The filters that additions, and removals of keys that are in, can make, with the keys in them.\<close>

inductive bloom_history :: "(string \<Rightarrow> bytes) \<Rightarrow> bloom \<Rightarrow> string multiset \<Rightarrow> bool" for sha256 where
  create: "bloom_create alloc sz k counting = Some bf \<Longrightarrow> 0 < sz \<Longrightarrow> unat sz \<le> 2 ^ 32 \<Longrightarrow> counting \<in> {0, 1}
    \<Longrightarrow> bloom_history sha256 bf {#}"
| add: "bloom_history sha256 bf M \<Longrightarrow> bloom_history sha256 (bloom_add sha256 bf s) (add_mset s M)"
| remove: "bloom_history sha256 bf M \<Longrightarrow> s \<in># M \<Longrightarrow> bloom_remove sha256 bf s = (0, bf')
    \<Longrightarrow> bloom_history sha256 bf' (M - {#s#})"

lemma bloom_history_holds: "bloom_history sha256 bf M \<Longrightarrow> holds bf (occupied sha256 bf M)"
proof (induction rule: bloom_history.induct)
  case (remove bf M s bf')
  then have "bl_counting bf" "bf' = snd (bloom_remove sha256 bf s)"
    by (auto simp: bloom_remove_def split: if_splits)
  then show ?case using bloom_remove_holds remove by blast
qed (use bloom_create_holds bloom_add_holds in blast)+

text \<open>C13: The Bloom filter has no false negatives: after any additions, and removals of keys that were in,
  every key that is still in tests positive - also when counters of the counting variant have
  overflowed and stuck at fifteen.  The filter has at most \<open>2 ^ 32\<close> bits.\<close>

theorem bloom_no_false_negatives:
  assumes "bloom_history sha256 bf M" "s \<in># M"
  shows "bloom_test sha256 bf s"
  using bloom_test_holds [OF bloom_history_holds] assms by blast

definition demo_sha256 :: "string \<Rightarrow> bytes" where
  "demo_sha256 s = s @ replicate (32 - length s) (CHR 0x00)"

theorem bloom_no_false_negatives_witness:
  "\<exists>bf. bloom_create (\<lambda>_. True) 8192 3 1 = Some bf \<and>
     bloom_test demo_sha256 (snd (bloom_remove demo_sha256 (bloom_add demo_sha256 (bloom_add demo_sha256 bf ''a'') ''b'') ''a'')) ''b''"
proof -
  obtain bf where bf: "bloom_create (\<lambda>_. True) 8192 3 1 = Some bf"
    by (simp add: bloom_create_def Let_def)
  then have c: "bl_counting bf" by (auto simp: bloom_create_def Let_def)
  have h: "bloom_history demo_sha256 bf {#}" using bloom_history.create [OF bf] by simp
  note h1 = bloom_history.add [OF h, of "''a''"]
  have c: "bl_counting (bloom_add demo_sha256 (bloom_add demo_sha256 bf ''a'') ''b'')"
    using bloom_add_holds [OF bloom_history_holds [OF h1]] bloom_add_holds [OF bloom_history_holds [OF h]] c by simp
  note h2 = bloom_history.add [OF h1, of "''b''"]
  from bloom_no_false_negatives [OF bloom_history.remove [OF h2, of "''a''"], of _ "''b''"] show ?thesis
    using bf c by (auto simp: bloom_remove_def)
qed

end
