(* ===== verification/Gc.thy ===== *)
theory Gc
  imports GcRepo Bloom
begin

text \<open>
  Garbage collection of blocks (\<open>server/gc/gc-core.c\<close>): the blocks of every commit that is kept are
  entered into a Bloom filter, and the blocks of the store that are not in the filter are removed.
  \<open>server/gc/verify.c\<close> walks the same trees to look for missing blocks.  The safety property says
  that no block of a kept commit is removed.
\<close>

section \<open>The index\<close>

definition MAX_BF_SIZE :: u64 where "MAX_BF_SIZE = push_bit 29 1"

definition alloc_gc_index :: "gc_session \<Rightarrow> u64 \<Rightarrow> bloom option" where
  "alloc_gc_index S total_blocks =
     bloom_create (gs_alloc S) (min (max (push_bit 2 total_blocks) (push_bit 13 1)) MAX_BF_SIZE) 3 0"

text \<open>\<open>GCData\<close> without the repository and the verbosity; \<open>visited\<close> may be NULL.\<close>

record gc_data =
  gd_index :: bloom
  gd_visited :: "string set option"
  gd_truncate_time :: int
  gd_traversed_head :: bool
  gd_traversed_commits :: int
  gd_traversed_blocks :: int
  gd_traversed_fs_objs :: int

definition add_blocks_to_index :: "(string \<Rightarrow> bytes) \<Rightarrow> fs_view \<Rightarrow> gc_data \<Rightarrow> string \<Rightarrow> int \<times> gc_data" where
  "add_blocks_to_index sha256 F d i =
     (case get_file F i of
        None \<Rightarrow> (-1, d)
      | Some f \<Rightarrow>
          (0, foldl (\<lambda>d b. d\<lparr>gd_index := bloom_add sha256 (gd_index d) b,
                              gd_traversed_blocks := gd_traversed_blocks d + 1\<rparr>) d (blk_sha1s f)))"

definition gc_fs_callback :: "(string \<Rightarrow> bytes) \<Rightarrow> fs_view \<Rightarrow> gc_data tree_callback" where
  "gc_fs_callback sha256 F obj_id type d =
     (let visited = (case gd_visited d of None \<Rightarrow> False | Some V \<Rightarrow> obj_id \<in> V) in
      if visited then (True, True, d)
      else
        (let d = d\<lparr>gd_visited := map_option (insert obj_id) (gd_visited d),
                   gd_traversed_fs_objs := gd_traversed_fs_objs d + 1\<rparr>
         in if type = SEAF_METADATA_TYPE_FILE then
              (case add_blocks_to_index sha256 F d obj_id of (r, d') \<Rightarrow> (\<not> r < 0, False, d'))
            else (True, False, d)))"

text \<open>
  The callback for a commit.  The data is None when the traversal of a tree did not end within the
  fuel \<open>m\<close>.
\<close>

definition gc_traverse_commit :: "nat \<Rightarrow> (string \<Rightarrow> bytes) \<Rightarrow> fs_view \<Rightarrow> gc_data option commit_func" where
  "gc_traverse_commit m sha256 F c data =
     (case data of
        None \<Rightarrow> (False, True, None)
      | Some d \<Rightarrow>
          (let stop = (gd_truncate_time d = 0 \<or>
                       gd_truncate_time d > 0 \<and> sint (ctime c) < gd_truncate_time d \<and> gd_traversed_head d);
               d = d\<lparr>gd_traversed_head := True, gd_traversed_commits := gd_traversed_commits d + 1,
                     gd_traversed_fs_objs := 0\<rparr>
           in case seaf_fs_manager_traverse_tree m F (root_id c) (gc_fs_callback sha256 F) d False of
                None \<Rightarrow> (False, stop, None)
              | Some (ret, d') \<Rightarrow> (\<not> ret < 0, stop, Some d')))"

text \<open>The loop over the branches; None when a traversal did not end within its fuel.\<close>

fun populate_branches ::
    "nat \<Rightarrow> nat \<Rightarrow> (string \<Rightarrow> bytes) \<Rightarrow> commit_view \<Rightarrow> fs_view \<Rightarrow> branch list \<Rightarrow> gc_data \<Rightarrow> (int \<times> gc_data) option" where
  "populate_branches n m sha256 V F [] d = Some (0, d)"
| "populate_branches n m sha256 V F (b # bs) d =
     (case seaf_commit_manager_traverse_commit_tree n V (br_commit_id b) (gc_traverse_commit m sha256 F) (Some d) False of
        None \<Rightarrow> None
      | Some (res, None) \<Rightarrow> None
      | Some (res, Some d') \<Rightarrow> if \<not> res then Some (-1, d') else populate_branches n m sha256 V F bs d')"

text \<open>What is recorded as the start of the history that is valid after the collection.\<close>

definition record_valid_since :: "gc_session \<Rightarrow> gc_repo \<Rightarrow> int \<Rightarrow> gc_session" where
  "record_valid_since S r truncate_time =
     (if truncate_time > 0 then snd (set_repo_valid_since S (gr_id r) truncate_time)
      else if truncate_time = 0 then
        (case gr_head r of
           None \<Rightarrow> S
         | Some head \<Rightarrow>
             (case seaf_commit_manager_get_commit (gc_commits S (gr_id r)) (br_commit_id head) of
                None \<Rightarrow> S
              | Some c \<Rightarrow> snd (set_repo_valid_since S (gr_id r) (sint (ctime c)))))
      else S)"

definition populate_gc_index_for_repo ::
    "nat \<Rightarrow> nat \<Rightarrow> gc_session \<Rightarrow> gc_repo \<Rightarrow> bloom \<Rightarrow> (int \<times> bloom \<times> gc_session) option" where
  "populate_gc_index_for_repo n m S r index =
     (case seaf_branch_manager_get_branch_list (gs_branches S) (gr_id r) of
        [] \<Rightarrow> Some (-1, index, S)
      | branches \<Rightarrow>
          (let truncate_time = get_repo_truncate_time S (gr_id r);
               S' = record_valid_since S r truncate_time;
               d = \<lparr>gd_index = index, gd_visited = Some {}, gd_truncate_time = truncate_time, gd_traversed_head = False,
                    gd_traversed_commits = 0, gd_traversed_blocks = 0, gd_traversed_fs_objs = 0\<rparr>
           in case populate_branches n m (gs_sha256 S') (gc_commits S' (gr_id r)) (gc_fs S' r) branches d of
                None \<Rightarrow> None
              | Some (ret, d') \<Rightarrow> Some (ret, gd_index d', S')))"

text \<open>The loop over the virtual repositories of an origin.\<close>

fun populate_virtual ::
    "nat \<Rightarrow> nat \<Rightarrow> string list \<Rightarrow> gc_session \<Rightarrow> bloom \<Rightarrow> (int \<times> bloom \<times> gc_session) option" where
  "populate_virtual n m [] S index = Some (0, index, S)"
| "populate_virtual n m (i # ids) S index =
     (case gc_get_repo S i of
        None \<Rightarrow> Some (-1, index, S)
      | Some vrepo \<Rightarrow>
          (case populate_gc_index_for_repo n m S vrepo index of
             None \<Rightarrow> None
           | Some (ret, index', S') \<Rightarrow>
               if ret < 0 then Some (ret, index', S') else populate_virtual n m ids S' index'))"

definition populate_gc_index_for_virtual_repos ::
    "nat \<Rightarrow> nat \<Rightarrow> gc_session \<Rightarrow> gc_repo \<Rightarrow> bloom \<Rightarrow> (int \<times> bloom \<times> gc_session) option" where
  "populate_gc_index_for_virtual_repos n m S r index =
     populate_virtual n m (get_virtual_repo_ids_by_origin S (gr_id r)) S index"

section \<open>Removing dead blocks\<close>

definition check_block_liveness ::
    "libs \<Rightarrow> (string \<Rightarrow> bytes) \<Rightarrow> string \<Rightarrow> bloom \<Rightarrow> bool \<Rightarrow> string \<Rightarrow> u64 \<times> block_store \<Rightarrow> bool \<times> u64 \<times> block_store" where
  "check_block_liveness L sha256 store_id index dry_run block_id st =
     (case st of (removed_blocks, bs) \<Rightarrow>
        if \<not> bloom_test sha256 index block_id then
          (True, removed_blocks + 1,
           if \<not> dry_run then snd (seaf_block_manager_remove_block L bs store_id block_id) else bs)
        else (True, removed_blocks, bs))"

text \<open>The number of removed blocks is returned as an \<open>int\<close>.\<close>

definition gc_v1_repo :: "nat \<Rightarrow> nat \<Rightarrow> gc_session \<Rightarrow> gc_repo \<Rightarrow> bool \<Rightarrow> (int \<times> gc_session) option" where
  "gc_v1_repo n m S r dry_run =
     (let total_blocks = seaf_block_manager_get_block_number (gs_listing S (gs_blocks S) (gr_store_id r)) in
      if total_blocks = 0 then Some (0, S)
      else (case alloc_gc_index S total_blocks of
              None \<Rightarrow> Some (-1, S)
            | Some index \<Rightarrow>
                (case populate_gc_index_for_repo n m S r index of
                   None \<Rightarrow> None
                 | Some (ret, index, S) \<Rightarrow>
                     if ret < 0 then Some (ret, S)
                     else (case populate_gc_index_for_virtual_repos n m S r index of
                             None \<Rightarrow> None
                           | Some (ret, index, S) \<Rightarrow>
                               if ret < 0 then Some (ret, S)
                               else (case seaf_block_manager_foreach_block (gs_listing S (gs_blocks S) (gr_store_id r))
                                            (check_block_liveness (gs_libs S) (gs_sha256 S) (gr_store_id r) index dry_run)
                                            (0, gs_blocks S) of
                                       (ret, removed_blocks, bs) \<Rightarrow>
                                         (let S = S\<lparr>gs_blocks := bs\<rparr> in
                                          if ret < 0 then Some (ret, S)
                                          else Some (sint (ucast removed_blocks :: u32), S)))))))"

section \<open>Deleted repositories and the whole run\<close>

fun delete_garbaged_loop :: "bool \<Rightarrow> string list \<Rightarrow> gc_session \<Rightarrow> gc_session" where
  "delete_garbaged_loop dry_run [] S = S"
| "delete_garbaged_loop dry_run (i # ids) S =
     (let S1 = (if \<not> gc_repo_exists S i \<and> \<not> dry_run then
                  S\<lparr>gs_commits := snd (seaf_obj_store_remove_store (gs_commits S) i),
                    gs_fs := snd (seaf_obj_store_remove_store (gs_fs S) i),
                    gs_blocks := snd (seaf_block_manager_remove_store (gs_blocks S) i)\<rparr>
                else S);
          S2 = (if \<not> dry_run then remove_garbage_repo S1 i else S1)
      in delete_garbaged_loop dry_run ids S2)"

definition delete_garbaged_repos :: "bool \<Rightarrow> gc_session \<Rightarrow> gc_session" where
  "delete_garbaged_repos dry_run S = delete_garbaged_loop dry_run (list_garbage_repos S) S"

text \<open>The repositories found damaged and those with blocks to remove, newest first.\<close>

fun gc_repos ::
    "nat \<Rightarrow> nat \<Rightarrow> bool \<Rightarrow> string list \<Rightarrow> string list \<times> string list \<Rightarrow> gc_session
     \<Rightarrow> ((string list \<times> string list) \<times> gc_session) option" where
  "gc_repos n m dry_run [] acc S = Some (acc, S)"
| "gc_repos n m dry_run (i # ids) (corrupt, del_block) S =
     (case gc_get_repo_ex S i of
        None \<Rightarrow> gc_repos n m dry_run ids (corrupt, del_block) S
      | Some r \<Rightarrow>
          if gr_is_corrupted r then gc_repos n m dry_run ids (gr_id r # corrupt, del_block) S
          else if \<not> gr_is_virtual r then
            (case gc_v1_repo n m S r dry_run of
               None \<Rightarrow> None
             | Some (gc_ret, S') \<Rightarrow>
                 gc_repos n m dry_run ids
                   (if gc_ret < 0 then (gr_id r # corrupt, del_block)
                    else if dry_run \<and> gc_ret \<noteq> 0 then (corrupt, gr_id r # del_block)
                    else (corrupt, del_block)) S')
          else gc_repos n m dry_run ids (corrupt, del_block) S)"

text \<open>An empty list of repositories means all of them, and that deleted ones are removed as well.\<close>

definition gc_core_run ::
    "nat \<Rightarrow> nat \<Rightarrow> string list \<Rightarrow> bool \<Rightarrow> gc_session \<Rightarrow> (int \<times> (string list \<times> string list) \<times> gc_session) option" where
  "gc_core_run n m repo_id_list dry_run S =
     (let ids = (if repo_id_list = [] then gc_get_repo_id_list S else repo_id_list); del_garbage = (repo_id_list = [])
      in case gc_repos n m dry_run ids ([], []) S of
           None \<Rightarrow> None
         | Some (found, S') \<Rightarrow> Some (0, found, if del_garbage then delete_garbaged_repos dry_run S' else S'))"

section \<open>Looking for missing blocks\<close>

text \<open>The messages about missing blocks are collected, newest first.\<close>

record verify_data =
  vd_truncate_time :: int
  vd_traversed_head :: bool
  vd_missing :: "string list"

definition check_blocks :: "gc_session \<Rightarrow> fs_view \<Rightarrow> string \<Rightarrow> verify_data \<Rightarrow> int \<times> verify_data" where
  "check_blocks S F i d =
     (case get_file F i of
        None \<Rightarrow> (-1, d)
      | Some f \<Rightarrow>
          (0, foldl (\<lambda>d b. if \<not> seaf_block_manager_block_exists (gs_libs S) (gs_blocks S) (fv_repo F) b
                            then d\<lparr>vd_missing := b # vd_missing d\<rparr> else d) d (blk_sha1s f)))"

definition verify_fs_callback :: "gc_session \<Rightarrow> fs_view \<Rightarrow> verify_data tree_callback" where
  "verify_fs_callback S F obj_id type d =
     (if type = SEAF_METADATA_TYPE_FILE
      then (case check_blocks S F obj_id d of (r, d') \<Rightarrow> (\<not> r < 0, False, d'))
      else (True, False, d))"

text \<open>Unlike the collector, this stops before the first commit that is too old.\<close>

definition verify_traverse_commit :: "nat \<Rightarrow> gc_session \<Rightarrow> fs_view \<Rightarrow> verify_data option commit_func" where
  "verify_traverse_commit m S F c data =
     (case data of
        None \<Rightarrow> (False, True, None)
      | Some d \<Rightarrow>
          if vd_truncate_time d > 0 \<and> sint (ctime c) < vd_truncate_time d \<and> vd_traversed_head d then (True, True, Some d)
          else
            (let stop = (vd_truncate_time d = 0); d = d\<lparr>vd_traversed_head := True\<rparr>
             in case seaf_fs_manager_traverse_tree m F (root_id c) (verify_fs_callback S F) d False of
                  None \<Rightarrow> (False, stop, None)
                | Some (ret, d') \<Rightarrow> (\<not> ret < 0, stop, Some d')))"

fun verify_branches ::
    "nat \<Rightarrow> nat \<Rightarrow> gc_session \<Rightarrow> commit_view \<Rightarrow> fs_view \<Rightarrow> branch list \<Rightarrow> verify_data \<Rightarrow> (int \<times> verify_data) option" where
  "verify_branches n m S V F [] d = Some (0, d)"
| "verify_branches n m S V F (b # bs) d =
     (case seaf_commit_manager_traverse_commit_tree n V (br_commit_id b) (verify_traverse_commit m S F) (Some d) False of
        None \<Rightarrow> None
      | Some (res, None) \<Rightarrow> None
      | Some (res, Some d') \<Rightarrow> if \<not> res then Some (-1, d') else verify_branches n m S V F bs d')"

definition verify_repo :: "nat \<Rightarrow> nat \<Rightarrow> gc_session \<Rightarrow> gc_repo \<Rightarrow> (int \<times> string list) option" where
  "verify_repo n m S r =
     (case seaf_branch_manager_get_branch_list (gs_branches S) (gr_id r) of
        [] \<Rightarrow> Some (-1, [])
      | branches \<Rightarrow>
          (case verify_branches n m S (gc_commits S (gr_id r)) (gc_fs S r) branches
                  \<lparr>vd_truncate_time = get_repo_truncate_time S (gr_id r), vd_traversed_head = False, vd_missing = []\<rparr> of
             None \<Rightarrow> None
           | Some (ret, d) \<Rightarrow> Some (ret, vd_missing d)))"

fun verify_repos_loop :: "nat \<Rightarrow> nat \<Rightarrow> gc_session \<Rightarrow> string list \<Rightarrow> int \<times> string list \<Rightarrow> (int \<times> string list) option" where
  "verify_repos_loop n m S [] res = Some res"
| "verify_repos_loop n m S (i # ids) (ret, missing) =
     (case gc_get_repo_ex S i of
        None \<Rightarrow> verify_repos_loop n m S ids (ret, missing)
      | Some r \<Rightarrow>
          if gr_is_corrupted r then verify_repos_loop n m S ids (ret, missing)
          else (case verify_repo n m S r of
                  None \<Rightarrow> None
                | Some (ret, new) \<Rightarrow>
                    if ret < 0 then Some (ret, new @ missing) else verify_repos_loop n m S ids (ret, new @ missing)))"

definition verify_repos :: "nat \<Rightarrow> nat \<Rightarrow> gc_session \<Rightarrow> string list \<Rightarrow> (int \<times> string list) option" where
  "verify_repos n m S repo_id_list =
     verify_repos_loop n m S (if repo_id_list = [] then gc_get_repo_id_list S else repo_id_list) (0, [])"

section \<open>What the index holds\<close>

definition in_index :: "(string \<Rightarrow> bytes) \<Rightarrow> bloom \<Rightarrow> string \<Rightarrow> bool" where
  "in_index sha256 index b \<longleftrightarrow> (\<exists>M. bloom_history sha256 index M \<and> b \<in># M)"

definition index_ok :: "(string \<Rightarrow> bytes) \<Rightarrow> bloom \<Rightarrow> bool" where
  "index_ok sha256 index \<longleftrightarrow> (\<exists>M. bloom_history sha256 index M)"

lemma in_index_test: "in_index sha256 index b \<Longrightarrow> bloom_test sha256 index b"
  using bloom_test_holds [OF bloom_history_holds] by (auto simp: in_index_def)

lemma bloom_add_index:
  "index_ok sha256 index \<Longrightarrow> index_ok sha256 (bloom_add sha256 index b)"
  "index_ok sha256 index \<Longrightarrow> in_index sha256 (bloom_add sha256 index b) b"
  "in_index sha256 index c \<Longrightarrow> in_index sha256 (bloom_add sha256 index b) c"
proof -
  assume "index_ok sha256 index"
  then obtain M where "bloom_history sha256 index M" by (auto simp: index_ok_def)
  from bloom_history.add [OF this, of b]
  show "index_ok sha256 (bloom_add sha256 index b)" "in_index sha256 (bloom_add sha256 index b) b"
    unfolding index_ok_def in_index_def by (blast, auto)
next
  assume "in_index sha256 index c"
  then obtain M where "bloom_history sha256 index M" "c \<in># M" by (auto simp: in_index_def)
  from bloom_history.add [OF this(1), of b] this(2)
  show "in_index sha256 (bloom_add sha256 index b) c" unfolding in_index_def by auto
qed

lemma alloc_gc_index_ok:
  assumes "alloc_gc_index S total_blocks = Some index"
  shows "index_ok (gs_sha256 S) index"
proof -
  let ?size = "min (max (push_bit 2 total_blocks) (push_bit 13 1)) MAX_BF_SIZE"
  have sizes: "unat (push_bit 13 1 :: u64) = 2 ^ 13" "unat MAX_BF_SIZE = 2 ^ 29"
    by (simp_all add: MAX_BF_SIZE_def)
  have "unat ?size \<le> 2 ^ 29" unfolding sizes(2) [symmetric] word_le_nat_alt [symmetric] by simp
  moreover have "push_bit 13 1 \<le> ?size" by (simp add: MAX_BF_SIZE_def)
  then have "0 < ?size" by (rule less_le_trans [rotated]) simp
  ultimately have "bloom_history (gs_sha256 S) index {#}"
    using assms unfolding alloc_gc_index_def by (intro bloom_history.create) auto
  then show ?thesis by (auto simp: index_ok_def)
qed

text \<open>Adding the blocks of a file to the index.\<close>

abbreviation index_step :: "(string \<Rightarrow> bytes) \<Rightarrow> gc_data \<Rightarrow> string \<Rightarrow> gc_data" where
  "index_step sha256 d b \<equiv> d\<lparr>gd_index := bloom_add sha256 (gd_index d) b, gd_traversed_blocks := gd_traversed_blocks d + 1\<rparr>"

lemma index_steps:
  "index_ok sha256 (gd_index d) \<Longrightarrow>
     index_ok sha256 (gd_index (foldl (index_step sha256) d bs)) \<and>
     (\<forall>b. b \<in> set bs \<or> in_index sha256 (gd_index d) b \<longrightarrow> in_index sha256 (gd_index (foldl (index_step sha256) d bs)) b) \<and>
     gd_visited (foldl (index_step sha256) d bs) = gd_visited d \<and>
     gd_truncate_time (foldl (index_step sha256) d bs) = gd_truncate_time d \<and>
     gd_traversed_head (foldl (index_step sha256) d bs) = gd_traversed_head d"
proof (induction bs arbitrary: d)
  case (Cons b bs)
  from Cons.IH [of "index_step sha256 d b"] Cons.prems show ?case
    using bloom_add_index [of sha256 "gd_index d"] by auto
qed simp

section \<open>One tree\<close>

text \<open>All blocks of a file are in the index; what is visited is in the index.\<close>

definition file_indexed :: "(string \<Rightarrow> bytes) \<Rightarrow> fs_view \<Rightarrow> bloom \<Rightarrow> string \<Rightarrow> bool" where
  "file_indexed sha256 F index i \<longleftrightarrow> (\<forall>f b. get_file F i = Some f \<longrightarrow> b \<in> set (blk_sha1s f) \<longrightarrow> in_index sha256 index b)"

definition gc_inv :: "(string \<Rightarrow> bytes) \<Rightarrow> fs_view \<Rightarrow> gc_data \<Rightarrow> bool" where
  "gc_inv sha256 F d \<longleftrightarrow> index_ok sha256 (gd_index d) \<and>
     (\<exists>V. gd_visited d = Some V \<and> (\<forall>i\<in>V. file_indexed sha256 F (gd_index d) i))"

definition gc_seen :: "fs_view \<Rightarrow> gc_data \<Rightarrow> string \<Rightarrow> bool" where
  "gc_seen F d i \<longleftrightarrow> (\<exists>V. gd_visited d = Some V \<and> i \<in> V) \<and> get_dir F i \<noteq> None"

text \<open>An object is a file or a directory, by its type; only the empty object is both.\<close>

lemma file_or_dir:
  assumes "get_file F i = Some f" "get_dir F i = Some d"
  shows "take 40 i = EMPTY_SHA1 \<and> blk_sha1s f = []"
proof (cases "take 40 i = EMPTY_SHA1")
  case True
  then show ?thesis using assms(1) by (auto simp: seaf_fs_manager_get_seafile_def)
next
  case False
  then show ?thesis
    using assms by (auto simp: seaf_fs_manager_get_seafile_def seaf_fs_manager_get_seafdir_def seafile_from_data_def
        seaf_dir_from_data_def seafile_from_json_def seaf_dir_from_json_def seafile_from_json_object_def Let_def
        seaf_dir_from_json_object_def seafile_from_v0_data_def seaf_dir_from_v0_data_def codec
        split: option.splits if_splits)
qed

lemma dir_indexed: "get_dir F i \<noteq> None \<Longrightarrow> file_indexed sha256 F index i"
  using file_or_dir by (fastforce simp: file_indexed_def)

lemma gc_file_callback:
  assumes "gc_fs_callback sha256 F i SEAF_METADATA_TYPE_FILE d = (True, stop, d')" "gc_inv sha256 F d"
  shows "gc_inv sha256 F d'" "file_indexed sha256 F (gd_index d') i"
    "file_indexed sha256 F (gd_index d) j \<Longrightarrow> file_indexed sha256 F (gd_index d') j"
    "take 40 i \<noteq> EMPTY_SHA1 \<Longrightarrow> gc_seen F d' j = gc_seen F d j"
    "gd_truncate_time d' = gd_truncate_time d \<and> gd_traversed_head d' = gd_traversed_head d"
proof -
  obtain V where V: "gd_visited d = Some V" "\<forall>i\<in>V. file_indexed sha256 F (gd_index d) i" "index_ok sha256 (gd_index d)"
    using assms(2) by (auto simp: gc_inv_def)
  have "gc_inv sha256 F d' \<and> file_indexed sha256 F (gd_index d') i \<and>
    (file_indexed sha256 F (gd_index d) j \<longrightarrow> file_indexed sha256 F (gd_index d') j) \<and>
    (take 40 i \<noteq> EMPTY_SHA1 \<longrightarrow> gc_seen F d' j = gc_seen F d j) \<and>
    gd_truncate_time d' = gd_truncate_time d \<and> gd_traversed_head d' = gd_traversed_head d"
  proof (cases "i \<in> V")
    case True
    then show ?thesis using assms V by (auto simp: gc_fs_callback_def)
  next
    case False
    let ?d = "d\<lparr>gd_visited := Some (insert i V), gd_traversed_fs_objs := gd_traversed_fs_objs d + 1\<rparr>"
    obtain f where f: "get_file F i = Some f" "d' = foldl (index_step sha256) ?d (blk_sha1s f)"
      using assms(1) False V(1)
      by (auto simp: gc_fs_callback_def add_blocks_to_index_def Let_def split: option.splits)
    have dir: "get_dir F i = None" if "take 40 i \<noteq> EMPTY_SHA1" using file_or_dir [OF f(1)] that by (cases "get_dir F i") auto
    show ?thesis
      using index_steps [of sha256 ?d "blk_sha1s f"] V f dir
      unfolding gc_inv_def file_indexed_def gc_seen_def by auto
  qed
  then show "gc_inv sha256 F d'" "file_indexed sha256 F (gd_index d') i"
    "file_indexed sha256 F (gd_index d) j \<Longrightarrow> file_indexed sha256 F (gd_index d') j"
    "take 40 i \<noteq> EMPTY_SHA1 \<Longrightarrow> gc_seen F d' j = gc_seen F d j"
    "gd_truncate_time d' = gd_truncate_time d \<and> gd_traversed_head d' = gd_traversed_head d" by simp_all
qed

lemma gc_dir_callback:
  assumes "gc_fs_callback sha256 F i SEAF_METADATA_TYPE_DIR d = (ok, stop, d')" "gd_visited d = Some V"
  shows "ok \<and> stop = (i \<in> V) \<and> gd_index d' = gd_index d \<and> gd_visited d' = Some (insert i V) \<and>
    gd_truncate_time d' = gd_truncate_time d \<and> gd_traversed_head d' = gd_traversed_head d"
  using assms by (auto simp: gc_fs_callback_def Let_def codec insert_absorb split: if_splits)

interpretation collector: tree_visitor F "gc_fs_callback sha256 F" "gc_seen F"
  "\<lambda>d. file_indexed sha256 F (gd_index d)" "gc_inv sha256 F" for sha256 F
proof (unfold_locales, goal_cases)
  case (1 d i d')
  then show ?case using gc_dir_callback [OF 1(2)] by (auto simp: gc_inv_def gc_seen_def)
next
  case (2 d i stop d' j)
  then show ?case using gc_dir_callback [OF 2(2)] by (auto simp: gc_inv_def gc_seen_def)
next
  case (3 d i stop d' j)
  then show ?case using gc_dir_callback [OF 3(2)] by (auto simp: gc_inv_def gc_seen_def)
next
  case (4 d i stop d' f)
  then show ?case using gc_dir_callback [OF 4(2)] by (auto simp: gc_inv_def)
next
  case (5 d i stop d')
  then show ?case using gc_dir_callback [OF 5(2)] dir_indexed [of F i] by (auto simp: gc_inv_def)
next
  case (6 d i stop d')
  then show ?case using gc_file_callback(2) by blast
next
  case (7 d i stop d' f)
  then show ?case using gc_file_callback(3) by blast
next
  case (8 d i stop d' j)
  then show ?case using gc_file_callback(4) by blast
next
  case (9 d i stop d')
  then show ?case using gc_file_callback(1) by blast
qed

section \<open>One commit\<close>

definition tree_indexed :: "(string \<Rightarrow> bytes) \<Rightarrow> fs_view \<Rightarrow> bloom \<Rightarrow> string \<Rightarrow> bool" where
  "tree_indexed sha256 F index root \<longleftrightarrow> (\<forall>b\<in>tree_blocks F root. in_index sha256 index b)"

text \<open>What a callback never changes or loses, whether it succeeds or not.\<close>

definition gc_frame :: "(string \<Rightarrow> bytes) \<Rightarrow> gc_data \<Rightarrow> gc_data \<Rightarrow> bool" where
  "gc_frame sha256 d d' \<longleftrightarrow> index_ok sha256 (gd_index d') \<and>
     (\<forall>b. in_index sha256 (gd_index d) b \<longrightarrow> in_index sha256 (gd_index d') b) \<and>
     gd_truncate_time d' = gd_truncate_time d \<and> gd_traversed_head d' = gd_traversed_head d"

lemma gc_frame_callback:
  assumes "gc_frame sha256 d0 d"
  shows "gc_frame sha256 d0 (snd (snd (gc_fs_callback sha256 F i type d)))"
proof -
  let ?d = "d\<lparr>gd_visited := map_option (insert i) (gd_visited d), gd_traversed_fs_objs := gd_traversed_fs_objs d + 1\<rparr>"
  have "gc_frame sha256 d0 (foldl (index_step sha256) ?d bs)" for bs
    using index_steps [of sha256 ?d bs] assms by (auto simp: gc_frame_def)
  from this [of "[]"] this show ?thesis
    using assms by (auto simp: gc_fs_callback_def add_blocks_to_index_def Let_def split: option.splits)
qed

lemma gc_tree:
  assumes t: "seaf_fs_manager_traverse_tree m F root (gc_fs_callback sha256 F) d False = Some (r, d')" "\<not> r < 0"
    and s: "collector.settled F sha256 {} d"
  shows "collector.settled F sha256 {} d' \<and> gc_frame sha256 d d' \<and> tree_indexed sha256 F (gd_index d') root"
proof (cases "root = EMPTY_SHA1")
  case True
  have "d' = d" using t True by (simp add: seaf_fs_manager_traverse_tree_def)
  then show ?thesis using s True
    by (auto simp: gc_frame_def tree_indexed_def tree_blocks_empty collector.settled_def gc_inv_def)
next
  case False
  then have dir: "traverse_dir m F (gc_fs_callback sha256 F) False root d = Some (0, d')"
    using t traverse_dir_status by (fastforce simp: seaf_fs_manager_traverse_tree_def)
  note c = collector.traverse_dir_covers [OF dir refl s]
  have ok: "index_ok sha256 (gd_index d)" using s by (simp add: collector.settled_def gc_inv_def)
  have "gc_frame sha256 d d'"
    by (rule traverse_dir_inv [OF dir, where I = "gc_frame sha256 d" and root = root, OF _ dir_reach.root gc_frame_callback])
      (simp add: gc_frame_def ok)
  moreover have "file_indexed sha256 F (gd_index d') f" if "file_reach F root f" for f
  proof (cases "take 40 f = EMPTY_SHA1")
    case True
    then show ?thesis by (auto simp: file_indexed_def seaf_fs_manager_get_seafile_def)
  next
    case False
    then show ?thesis using collector.covered_done [of F sha256 d' root f] c that by blast
  qed
  then have "tree_indexed sha256 F (gd_index d') root"
    by (fastforce simp: tree_indexed_def tree_blocks_def file_indexed_def)
  ultimately show ?thesis using c by blast
qed

definition gc_stops :: "int \<Rightarrow> bool \<Rightarrow> commit \<Rightarrow> bool" where
  "gc_stops t started c \<longleftrightarrow> t = 0 \<or> t > 0 \<and> sint (ctime c) < t \<and> started"

definition gc_commit_inv :: "(string \<Rightarrow> bytes) \<Rightarrow> fs_view \<Rightarrow> int \<Rightarrow> bloom \<Rightarrow> gc_data option \<Rightarrow> bool" where
  "gc_commit_inv sha256 F t index data \<longleftrightarrow>
     (\<exists>d. data = Some d \<and> collector.settled F sha256 {} d \<and> gd_truncate_time d = t \<and>
        (\<forall>b. in_index sha256 index b \<longrightarrow> in_index sha256 (gd_index d) b))"

lemma gc_traverse_commit_step:
  assumes "gc_commit_inv sha256 F t index data" "gc_traverse_commit m sha256 F c data = (True, stop, data')"
  obtains d d' where "data = Some d" "data' = Some d'" "gc_commit_inv sha256 F t index data'" "gd_traversed_head d'"
    "tree_indexed sha256 F (gd_index d') (root_id c)" "stop = gc_stops t (gd_traversed_head d) c"
    "\<And>b. in_index sha256 (gd_index d) b \<Longrightarrow> in_index sha256 (gd_index d') b"
proof -
  obtain d where d: "data = Some d" "collector.settled F sha256 {} d" "gd_truncate_time d = t"
    "\<forall>b. in_index sha256 index b \<longrightarrow> in_index sha256 (gd_index d) b"
    using assms(1) by (auto simp: gc_commit_inv_def)
  let ?d = "d\<lparr>gd_traversed_head := True, gd_traversed_commits := gd_traversed_commits d + 1, gd_traversed_fs_objs := 0\<rparr>"
  obtain r d' where t: "seaf_fs_manager_traverse_tree m F (root_id c) (gc_fs_callback sha256 F) ?d False = Some (r, d')"
      "\<not> r < 0" "data' = Some d'" "stop = gc_stops t (gd_traversed_head d) c"
    using assms(2) d(1,3) by (auto simp: gc_traverse_commit_def gc_stops_def Let_def split: option.splits)
  have "collector.covered F sha256 ?d = collector.covered F sha256 d"
  proof -
    have "collector.grows F sha256 d ?d" "collector.grows F sha256 ?d d"
      by (simp_all add: collector.grows_def gc_seen_def)
    then show ?thesis using collector.covered_grows by blast
  qed
  then have "collector.settled F sha256 {} ?d"
    using d(2) unfolding collector.settled_def gc_seen_def gc_inv_def entry_ok_def by simp
  from gc_tree [OF t(1,2) this] show ?thesis
    using that [of d d'] t(3,4) d by (auto simp: gc_commit_inv_def gc_frame_def)
qed

interpretation gc_commits: commit_visitor V "gc_traverse_commit m sha256 F" "gc_commit_inv sha256 F t index"
  "\<lambda>data. gd_traversed_head (the data)" "\<lambda>data c. tree_indexed sha256 F (gd_index (the data)) (root_id c)" "gc_stops t"
  for V m sha256 F t index
proof (unfold_locales, goal_cases)
  case (1 u c stop u')
  from gc_traverse_commit_step [OF this] show ?case by (metis option.sel)
next
  case (2 u c stop u' d)
  from gc_traverse_commit_step [OF 2(1,2)] show ?case
    using 2(3) unfolding tree_indexed_def by (metis option.sel)
qed

text \<open>A repository that was loaded has the id it was asked for.\<close>

lemma load_repo_commit_id [simp]: "gr_id (load_repo_commit S r b) = gr_id r"
  by (auto simp: load_repo_commit_def gc_repo_from_commit_def set_head_common_def Let_def split: option.split)

lemma gc_load_repo_id: "gc_load_repo S i flag = Some q \<Longrightarrow> gr_id q = take 36 i"
  by (auto simp: gc_load_repo_def Let_def gc_repo_new_def split: option.splits if_splits)

lemma gc_get_repo_id: "gc_get_repo S i = Some q \<Longrightarrow> gr_id q = i"
  using gc_load_repo_id [of S i False q] by (auto simp: gc_get_repo_def split: if_splits)
section \<open>The commits that are kept\<close>

text \<open>
  The rule of the collector: the head of every branch is kept; with a truncation time other than zero
  so are the parents of a kept commit that is not older than that time - or whatever the time is, when
  it is negative - and the parents of the head of the first branch.  So the first commit older than the
  time is still kept.
\<close>

inductive gc_kept :: "commit_view \<Rightarrow> branch list \<Rightarrow> int \<Rightarrow> string \<Rightarrow> bool" for V branches t where
  head: "b \<in> set branches \<Longrightarrow> gc_kept V branches t (br_commit_id b)"
| parent: "gc_kept V branches t i \<Longrightarrow> get_commit V i = Some c \<Longrightarrow> t < 0 \<or> 0 < t \<and> t \<le> sint (ctime c) \<Longrightarrow>
    p \<in> parents c \<Longrightarrow> gc_kept V branches t p"
| first: "get_commit V (br_commit_id (hd branches)) = Some c \<Longrightarrow> branches \<noteq> [] \<Longrightarrow> t \<noteq> 0 \<Longrightarrow> p \<in> parents c \<Longrightarrow>
    gc_kept V branches t p"

text \<open>A set of commits that is indexed and closed under the parents that the collector follows.\<close>

definition indexed_closed :: "(string \<Rightarrow> bytes) \<Rightarrow> commit_view \<Rightarrow> fs_view \<Rightarrow> int \<Rightarrow> bloom \<Rightarrow> string set \<Rightarrow> bool" where
  "indexed_closed sha256 V F t index K \<longleftrightarrow>
     (\<forall>i\<in>K. \<exists>c. get_commit V i = Some c \<and> tree_indexed sha256 F index (root_id c) \<and>
        (\<not> gc_stops t True c \<longrightarrow> parents c \<subseteq> K))"

lemma indexed_closed_mono:
  "indexed_closed sha256 V F t index K \<Longrightarrow> (\<And>b. in_index sha256 index b \<Longrightarrow> in_index sha256 index' b) \<Longrightarrow>
   indexed_closed sha256 V F t index' K"
  unfolding indexed_closed_def tree_indexed_def by meson

lemma indexed_closed_Un:
  "indexed_closed sha256 V F t index K \<Longrightarrow> indexed_closed sha256 V F t index K' \<Longrightarrow>
   indexed_closed sha256 V F t index (K \<union> K')"
  unfolding indexed_closed_def by (meson UnE le_supI1 le_supI2)

lemma populate_branches_spec:
  "populate_branches n m sha256 V F bs d = Some (r, d') \<Longrightarrow> \<not> r < 0 \<Longrightarrow> gc_commit_inv sha256 F t index (Some d) \<Longrightarrow>
   gc_commit_inv sha256 F t index (Some d') \<and> (\<forall>b. in_index sha256 (gd_index d) b \<longrightarrow> in_index sha256 (gd_index d') b) \<and>
   (\<exists>K. br_commit_id ` set bs \<subseteq> K \<and> indexed_closed sha256 V F t (gd_index d') K \<and>
     (bs \<noteq> [] \<longrightarrow> \<not> gd_traversed_head d \<longrightarrow> t \<noteq> 0 \<longrightarrow>
        (\<forall>c. get_commit V (br_commit_id (hd bs)) = Some c \<longrightarrow> parents c \<subseteq> K)))"
proof (induction bs arbitrary: d)
  case Nil
  then show ?case by (auto simp: indexed_closed_def intro!: exI [of _ "{}"])
next
  case (Cons b bs)
  obtain d1 where t: "seaf_commit_manager_traverse_commit_tree n V (br_commit_id b) (gc_traverse_commit m sha256 F) (Some d) False
      = Some (True, Some d1)" "populate_branches n m sha256 V F bs d1 = Some (r, d')"
    using Cons.prems(1,2) by (auto split: option.splits if_splits)
  have inv: "gc_commit_inv sha256 F t (gd_index d) (Some d)" using Cons.prems(3) by (auto simp: gc_commit_inv_def)
  obtain K1 where K1: "br_commit_id b \<in> K1" "\<forall>i\<in>K1. \<exists>c. get_commit V i = Some c \<and> tree_indexed sha256 F (gd_index d1) (root_id c) \<and>
      (\<not> gc_stops t (gd_traversed_head d \<or> i \<noteq> br_commit_id b) c \<longrightarrow> parents c \<subseteq> K1)"
    and d1: "gc_commit_inv sha256 F t (gd_index d) (Some d1)" "gd_traversed_head d1"
    using gc_commits.tree_covers [OF t(1) inv] by auto
  have inv1: "gc_commit_inv sha256 F t index (Some d1)" and mono1: "\<And>b. in_index sha256 (gd_index d) b \<Longrightarrow> in_index sha256 (gd_index d1) b"
    using Cons.prems(3) d1(1) by (auto simp: gc_commit_inv_def)
  obtain K where K: "br_commit_id ` set bs \<subseteq> K" "indexed_closed sha256 V F t (gd_index d') K"
    and res: "gc_commit_inv sha256 F t index (Some d')" "\<And>b. in_index sha256 (gd_index d1) b \<Longrightarrow> in_index sha256 (gd_index d') b"
    using Cons.IH [OF t(2) Cons.prems(2) inv1] by blast
  have "indexed_closed sha256 V F t (gd_index d1) K1"
    using K1(2) unfolding indexed_closed_def gc_stops_def by blast
  from indexed_closed_Un [OF indexed_closed_mono [OF this res(2)] K(2)]
  have "indexed_closed sha256 V F t (gd_index d') (K1 \<union> K)" .
  moreover have "parents c \<subseteq> K1 \<union> K" if "get_commit V (br_commit_id b) = Some c" "\<not> gd_traversed_head d" "t \<noteq> 0" for c
    using K1 that by (fastforce simp: gc_stops_def)
  ultimately show ?case
    using res mono1 K1(1) K(1) by (intro conjI exI [of _ "K1 \<union> K"]) auto
qed

text \<open>The blocks that must survive: those in the tree of a commit that is kept.\<close>

definition repo_live :: "gc_session \<Rightarrow> gc_repo \<Rightarrow> string \<Rightarrow> bool" where
  "repo_live S r b \<longleftrightarrow>
     (\<exists>i c. gc_kept (gc_commits S (gr_id r)) (seaf_branch_manager_get_branch_list (gs_branches S) (gr_id r))
              (get_repo_truncate_time S (gr_id r)) i \<and>
        get_commit (gc_commits S (gr_id r)) i = Some c \<and> b \<in> tree_blocks (gc_fs S r) (root_id c))"

definition like_but_valid :: "string set \<Rightarrow> gc_session \<Rightarrow> gc_session \<Rightarrow> bool" where
  "like_but_valid J S S' \<longleftrightarrow> (\<exists>v. S' = S\<lparr>gs_valid := v\<rparr> \<and> (\<forall>i. i \<notin> J \<longrightarrow> v i = gs_valid S i))"

lemma like_but_valid_refl [simp]: "like_but_valid J S S"
  unfolding like_but_valid_def by (intro exI [of _ "gs_valid S"]) simp

lemma like_but_valid_trans: "like_but_valid J S T \<Longrightarrow> like_but_valid K T U \<Longrightarrow> like_but_valid (J \<union> K) S U"
  unfolding like_but_valid_def by auto

lemma like_but_validD:
  assumes "like_but_valid J S S'"
  shows "gs_libs S' = gs_libs S" "gs_sha256 S' = gs_sha256 S" "gs_blocks S' = gs_blocks S" "gs_listing S' = gs_listing S"
    "gs_branches S' = gs_branches S" "gc_commits S' = gc_commits S" "gc_fs S' = gc_fs S" "gc_get_repo S' = gc_get_repo S"
    "gs_fs S' = gs_fs S" "gs_commits S' = gs_commits S"
    "get_virtual_repo_ids_by_origin S' = get_virtual_repo_ids_by_origin S"
    "i \<notin> J \<Longrightarrow> get_repo_truncate_time S' i = get_repo_truncate_time S i"
proof -
  obtain v where S': "S' = S\<lparr>gs_valid := v\<rparr>" and v: "\<And>i. i \<notin> J \<Longrightarrow> v i = gs_valid S i"
    using assms by (auto simp: like_but_valid_def)
  show "gs_libs S' = gs_libs S" "gs_sha256 S' = gs_sha256 S" "gs_blocks S' = gs_blocks S" "gs_listing S' = gs_listing S"
    "gs_branches S' = gs_branches S" "gs_fs S' = gs_fs S" "gs_commits S' = gs_commits S"
    by (simp_all add: S')
  show commits: "gc_commits S' = gc_commits S" and "gc_fs S' = gc_fs S"
    by (simp_all add: S' gc_commits_def gc_fs_def fun_eq_iff)
  have info: "gc_get_virtual_repo_info S' = gc_get_virtual_repo_info S"
    by (simp add: S' gc_get_virtual_repo_info_def fun_eq_iff)
  have "gc_load_repo S' = gc_load_repo S"
    unfolding gc_load_repo_def load_repo_commit_def fun_eq_iff commits info by (simp add: S')
  then show "gc_get_repo S' = gc_get_repo S"
    by (simp add: gc_get_repo_def repo_exists_in_db_def fun_eq_iff S')
  show "get_virtual_repo_ids_by_origin S' = get_virtual_repo_ids_by_origin S"
    by (simp add: S' get_virtual_repo_ids_by_origin_def fun_eq_iff)
  show "get_repo_truncate_time S' i = get_repo_truncate_time S i" if "i \<notin> J"
  proof -
    have fields: "gs_fails S' = gs_fails S" "gs_history S' = gs_history S" "gs_keep_days S' = gs_keep_days S"
      "gs_now S' = gs_now S" "gs_valid S' i = gs_valid S i" using v [OF that] by (simp_all add: S')
    show ?thesis
      unfolding get_repo_truncate_time_def get_repo_history_limit_def get_repo_valid_since_def info fields ..
  qed
qed

lemma record_valid_since_like: "like_but_valid {gr_id r} S (record_valid_since S r t)"
proof -
  have "like_but_valid {i} S (snd (set_repo_valid_since S i t))" for i t
  proof (cases "gs_fails S Q_SET_VALID_SINCE i")
    case False
    then show ?thesis
      unfolding set_repo_valid_since_def like_but_valid_def by (intro exI [of _ "(gs_valid S)(i \<mapsto> t)"]) simp
  qed (simp add: set_repo_valid_since_def)
  then show ?thesis by (simp add: record_valid_since_def split: option.split)
qed

lemma repo_live_like:
  "like_but_valid J S S' \<Longrightarrow> gr_id r \<notin> J \<Longrightarrow> repo_live S' r b = repo_live S r b"
  using like_but_validD [of J S S'] by (simp add: repo_live_def)

lemma populate_repo_spec:
  assumes p: "populate_gc_index_for_repo n m S r index = Some (ret, index', S')" "index_ok (gs_sha256 S) index"
  shows "like_but_valid {gr_id r} S S' \<and> (\<not> ret < 0 \<longrightarrow> index_ok (gs_sha256 S) index' \<and>
    (\<forall>b. in_index (gs_sha256 S) index b \<or> repo_live S r b \<longrightarrow> in_index (gs_sha256 S) index' b))"
proof (cases "seaf_branch_manager_get_branch_list (gs_branches S) (gr_id r)")
  case Nil
  then show ?thesis using p by (simp add: populate_gc_index_for_repo_def)
next
  case (Cons b0 bs0)
  let ?bs = "b0 # bs0" and ?t = "get_repo_truncate_time S (gr_id r)"
  let ?S = "record_valid_since S r ?t"
  let ?d = "\<lparr>gd_index = index, gd_visited = Some {}, gd_truncate_time = ?t, gd_traversed_head = False,
                    gd_traversed_commits = 0, gd_traversed_blocks = 0, gd_traversed_fs_objs = 0\<rparr>"
  note like = record_valid_since_like [of r S ?t]
  note same = like_but_validD [OF like]
  obtain d' where d': "populate_branches n m (gs_sha256 S) (gc_commits S (gr_id r)) (gc_fs S r) ?bs ?d = Some (ret, d')"
    "index' = gd_index d'" "S' = ?S"
    using p(1) unfolding populate_gc_index_for_repo_def Cons Let_def list.case
    by (auto simp: same split: option.splits)
  have "collector.settled (gc_fs S r) (gs_sha256 S) {} ?d"
    using p(2) by (auto simp: collector.settled_def gc_seen_def gc_inv_def)
  then have inv: "gc_commit_inv (gs_sha256 S) (gc_fs S r) ?t index (Some ?d)"
    by (simp add: gc_commit_inv_def)
  have "index_ok (gs_sha256 S) index' \<and> (\<forall>b. in_index (gs_sha256 S) index b \<or> repo_live S r b \<longrightarrow> in_index (gs_sha256 S) index' b)"
    if ok: "\<not> ret < 0"
  proof -
    obtain K where K: "br_commit_id ` set ?bs \<subseteq> K" "indexed_closed (gs_sha256 S) (gc_commits S (gr_id r)) (gc_fs S r) ?t index' K"
      "\<And>c. ?t \<noteq> 0 \<Longrightarrow> get_commit (gc_commits S (gr_id r)) (br_commit_id b0) = Some c \<Longrightarrow> parents c \<subseteq> K"
      and res: "gc_commit_inv (gs_sha256 S) (gc_fs S r) ?t index (Some d')"
      using populate_branches_spec [OF d'(1) ok inv] d'(2) by auto
    have "i \<in> K" if "gc_kept (gc_commits S (gr_id r)) ?bs ?t i" for i
      using that
    proof induction
      case (head b)
      then show ?case using K(1) by auto
    next
      case (parent i c p)
      then have "parents c \<subseteq> K" using K(2) by (fastforce simp: indexed_closed_def gc_stops_def)
      then show ?case using parent by blast
    next
      case (first c p)
      then show ?case using K(3) by auto
    qed
    then have "in_index (gs_sha256 S) index' b" if "repo_live S r b" for b
      using that K(2) unfolding repo_live_def Cons indexed_closed_def tree_indexed_def by fastforce
    then show ?thesis
      using res d'(2) by (auto simp: gc_commit_inv_def collector.settled_def gc_inv_def)
  qed
  then show ?thesis using like d'(3) by blast
qed

lemma populate_virtual_spec:
  "populate_virtual n m ids S index = Some (ret, index', S') \<Longrightarrow> index_ok (gs_sha256 S) index \<Longrightarrow> distinct ids \<Longrightarrow>
   like_but_valid (set ids) S S' \<and> (\<not> ret < 0 \<longrightarrow> index_ok (gs_sha256 S) index' \<and>
    (\<forall>b. in_index (gs_sha256 S) index b \<or> (\<exists>i\<in>set ids. \<exists>q. gc_get_repo S i = Some q \<and> repo_live S q b) \<longrightarrow>
       in_index (gs_sha256 S) index' b))"
proof (induction ids arbitrary: S index)
  case (Cons i ids)
  show ?case
  proof (cases "gc_get_repo S i")
    case None
    then show ?thesis using Cons.prems by simp
  next
    case (Some q)
    have id: "gr_id q = i" using Some by (rule gc_get_repo_id)
    obtain r1 index1 S1 where 1: "populate_gc_index_for_repo n m S q index = Some (r1, index1, S1)"
      using Cons.prems(1) Some by (auto split: option.splits)
    note p = populate_repo_spec [OF 1 Cons.prems(2)]
    show ?thesis
    proof (cases "r1 < 0")
      case True
      then show ?thesis using Cons.prems(1) Some 1 p id like_but_valid_trans [of "{i}" S S1 "set ids" S1] by auto
    next
      case False
      then have rest: "populate_virtual n m ids S1 index1 = Some (ret, index', S')" using Cons.prems(1) Some 1 by simp
      have like: "like_but_valid {i} S S1" using p id by simp
      note same = like_but_validD [OF like]
      have live: "repo_live S1 q' b = repo_live S q' b" if "j \<in> set ids" "gc_get_repo S j = Some q'" for j q' b
      proof (rule repo_live_like [OF like])
        show "gr_id q' \<notin> {i}" using gc_get_repo_id [OF that(2)] that(1) Cons.prems(3) by auto
      qed
      have IH: "like_but_valid (set ids) S1 S' \<and> (\<not> ret < 0 \<longrightarrow> index_ok (gs_sha256 S1) index' \<and>
          (\<forall>b. in_index (gs_sha256 S1) index1 b \<or> (\<exists>i\<in>set ids. \<exists>q. gc_get_repo S1 i = Some q \<and> repo_live S1 q b) \<longrightarrow>
             in_index (gs_sha256 S1) index' b))"
        using Cons.IH [OF rest] p False Cons.prems(3) same(2) by simp
      have others: "in_index (gs_sha256 S) index' b"
        if "\<not> ret < 0" "j \<in> set ids" "gc_get_repo S j = Some q'" "repo_live S q' b" for j q' b
      proof -
        have "gc_get_repo S1 j = Some q'" "repo_live S1 q' b" using that same(8) live [OF that(2,3)] by simp_all
        then show ?thesis using IH that(1,2) unfolding same(2) by blast
      qed
      moreover have "in_index (gs_sha256 S) index' b" if "\<not> ret < 0" "in_index (gs_sha256 S) index b \<or> repo_live S q b" for b
        using IH p False that unfolding same(2) by blast
      moreover have "index_ok (gs_sha256 S) index'" if "\<not> ret < 0" using IH that unfolding same(2) by blast
      moreover have "like_but_valid (set (i # ids)) S S'" using like_but_valid_trans [OF like] IH by simp
      ultimately show ?thesis using Some by (metis option.inject set_ConsD)
    qed
  qed
qed simp

section \<open>No live block is removed\<close>

lemma remove_block_other:
  "(q, j) \<noteq> (r, i) \<Longrightarrow> read_block L (snd (seaf_block_manager_remove_block L bs r i)) q j = read_block L bs q j"
  using block_path_eq [of i j bs r q]
  by (auto simp: seaf_block_manager_remove_block_def block_backend_fs_remove_block_def read_block_def get_block_path_def Let_def)

lemma sweep:
  "seaf_block_manager_foreach_block ids (check_block_liveness L sha256 store index dry_run) (k, bs) = (ret, k', bs') \<Longrightarrow>
   ret = 0 \<and> (dry_run \<longrightarrow> bs' = bs) \<and>
   (\<forall>q j. q \<noteq> store \<or> bloom_test sha256 index j \<or> j \<notin> set ids \<longrightarrow> read_block L bs' q j = read_block L bs q j)"
  unfolding seaf_block_manager_foreach_block_def
proof (induction ids arbitrary: k bs)
  case (Cons i ids)
  show ?case
  proof (cases "bloom_test sha256 index i")
    case True
    then have "check_block_liveness L sha256 store index dry_run i (k, bs) = (True, k, bs)"
      by (simp add: check_block_liveness_def)
    then have "block_backend_fs_foreach_block ids (check_block_liveness L sha256 store index dry_run) (k, bs) = (ret, k', bs')"
      using Cons.prems by simp
    from Cons.IH [OF this] show ?thesis by auto
  next
    case False
    let ?bs = "if \<not> dry_run then snd (seaf_block_manager_remove_block L bs store i) else bs"
    have "check_block_liveness L sha256 store index dry_run i (k, bs) = (True, k + 1, ?bs)"
      using False by (simp add: check_block_liveness_def)
    then have "block_backend_fs_foreach_block ids (check_block_liveness L sha256 store index dry_run) (k + 1, ?bs) = (ret, k', bs')"
      using Cons.prems by simp
    note IH = Cons.IH [OF this]
    have "read_block L ?bs q j = read_block L bs q j" if "q \<noteq> store \<or> bloom_test sha256 index j \<or> j \<notin> set (i # ids)" for q j
      using remove_block_other [of q j store i L bs] that False by auto
    then show ?thesis using IH by auto
  qed
qed simp

text \<open>The keys of the tables, and the repositories whose blocks are collected together.\<close>

definition gc_tables_ok :: "gc_session \<Rightarrow> gc_repo \<Rightarrow> bool" where
  "gc_tables_ok S r \<longleftrightarrow> distinct (map fst (gs_virtual S)) \<and> gr_id r \<notin> fst ` set (gs_virtual S) \<and>
     \<not> gs_fails S Q_VIRTUAL_BY_ORIGIN (gr_id r)"

definition shares_store :: "gc_session \<Rightarrow> gc_repo \<Rightarrow> gc_repo \<Rightarrow> bool" where
  "shares_store S r q \<longleftrightarrow> q = r \<or>
     (\<exists>i v. (i, v) \<in> set (gs_virtual S) \<and> vi_origin_repo v = gr_id r \<and> gc_get_repo S i = Some q)"

lemma gc_v1_repo_cases:
  assumes run: "gc_v1_repo n m S r dry_run = Some (ret, S')" and tables: "gc_tables_ok S r"
  shows "\<exists>S1 bs. like_but_valid (insert (gr_id r) (fst ` set (gs_virtual S))) S S1 \<and> S' = S1\<lparr>gs_blocks := bs\<rparr> \<and>
    (bs = gs_blocks S \<or> (\<not> dry_run \<and> (\<forall>q j. q \<noteq> gr_store_id r \<or> j \<notin> set (gs_listing S (gs_blocks S) (gr_store_id r)) \<or>
        (\<exists>p. shares_store S r p \<and> repo_live S p j) \<longrightarrow>
        read_block (gs_libs S) bs q j = read_block (gs_libs S) (gs_blocks S) q j)))"
proof -
  let ?J = "insert (gr_id r) (fst ` set (gs_virtual S))" and ?ids = "get_virtual_repo_ids_by_origin S (gr_id r)"
  have keep: "\<exists>S1 bs. like_but_valid ?J S S1 \<and> T = S1\<lparr>gs_blocks := bs\<rparr> \<and> bs = gs_blocks S"
    if "like_but_valid K S T" "K \<subseteq> ?J" for K T
  proof -
    have "like_but_valid ?J S T" using that unfolding like_but_valid_def by blast
    then show ?thesis using like_but_validD(3) by (intro exI [of _ T] exI [of _ "gs_blocks S"]) fastforce
  qed
  have ids: "?ids = map fst (filter (\<lambda>row. vi_origin_repo (snd row) = gr_id r) (gs_virtual S))"
    using tables by (simp add: virtual_ids gc_tables_ok_def)
  then have sub: "set ?ids \<subseteq> fst ` set (gs_virtual S)" "distinct ?ids"
    using tables by (auto simp: gc_tables_ok_def distinct_map inj_on_def)
  have notr: "gr_id r \<notin> set ?ids" using sub(1) tables by (auto simp: gc_tables_ok_def)
  let ?total = "seaf_block_manager_get_block_number (gs_listing S (gs_blocks S) (gr_store_id r))"
  show ?thesis
  proof (cases "?total = 0 \<or> alloc_gc_index S ?total = None")
    case True
    then have "S' = S"
    proof (cases "?total = 0")
      case False
      then have "alloc_gc_index S ?total = None" using True by blast
      then show ?thesis using run False by (simp add: gc_v1_repo_def Let_def)
    qed (use run in \<open>simp add: gc_v1_repo_def Let_def\<close>)
    then show ?thesis using keep [of "{}" S] by auto
  next
    case False
    then obtain index where index: "alloc_gc_index S ?total = Some index" by auto
    obtain r1 index1 S1 where 1: "populate_gc_index_for_repo n m S r index = Some (r1, index1, S1)"
      using run False index by (auto simp: gc_v1_repo_def Let_def split: option.splits)
    note p1 = populate_repo_spec [OF 1 alloc_gc_index_ok [OF index]]
    show ?thesis
    proof (cases "r1 < 0")
      case True
      then have "S' = S1" using run False index 1 by (auto simp: gc_v1_repo_def Let_def)
      then show ?thesis using keep [of "{gr_id r}" S1] p1 by auto
    next
      case ok1: False
      have like1: "like_but_valid {gr_id r} S S1" using p1 by blast
      note same1 = like_but_validD [OF like1]
      obtain r2 index2 S2 where 2: "populate_virtual n m ?ids S1 index1 = Some (r2, index2, S2)"
        using run False index 1 ok1
        by (auto simp: gc_v1_repo_def Let_def populate_gc_index_for_virtual_repos_def same1(11) split: option.splits)
      have p2: "like_but_valid (set ?ids) S1 S2 \<and> (\<not> r2 < 0 \<longrightarrow> index_ok (gs_sha256 S) index2 \<and>
        (\<forall>b. in_index (gs_sha256 S) index1 b \<or> (\<exists>i\<in>set ?ids. \<exists>q. gc_get_repo S i = Some q \<and> repo_live S1 q b) \<longrightarrow>
           in_index (gs_sha256 S) index2 b))"
        using populate_virtual_spec [OF 2 _ sub(2)] p1 ok1 unfolding same1(2,8) by blast
      have like2: "like_but_valid ({gr_id r} \<union> set ?ids) S S2" using like_but_valid_trans [OF like1] p2 by blast
      note same2 = like_but_validD [OF like2]
      show ?thesis
      proof (cases "r2 < 0")
        case True
        then have "S' = S2" using run False index 1 ok1 2
          by (auto simp: gc_v1_repo_def Let_def populate_gc_index_for_virtual_repos_def same1(11))
        then show ?thesis using keep [OF like2] sub(1) by auto
      next
        case ok2: False
        obtain ret3 k bs where 3: "seaf_block_manager_foreach_block (gs_listing S (gs_blocks S) (gr_store_id r))
            (check_block_liveness (gs_libs S) (gs_sha256 S) (gr_store_id r) index2 dry_run) (0, gs_blocks S) = (ret3, k, bs)"
          using prod_cases3 by blast
        note sw = sweep [OF 3]
        have S': "S' = S2\<lparr>gs_blocks := bs\<rparr>"
          using run False index 1 ok1 2 ok2 3 sw
          by (auto simp: gc_v1_repo_def Let_def populate_gc_index_for_virtual_repos_def same1(11) same2(1-4))
        have "bloom_test (gs_sha256 S) index2 j" if p: "shares_store S r p" "repo_live S p j" for p j
        proof -
          have "in_index (gs_sha256 S) index2 j"
          proof (cases "p = r")
            case True
            then show ?thesis using p1 p2 ok1 ok2 p(2) by blast
          next
            case False
            then obtain i v where i: "(i, v) \<in> set (gs_virtual S)" "vi_origin_repo v = gr_id r" "gc_get_repo S i = Some p"
              using p(1) by (auto simp: shares_store_def)
            have "i \<in> set ?ids" unfolding ids using i(1,2) by force
            moreover have "gr_id p \<noteq> gr_id r" using gc_get_repo_id [OF i(3)] calculation notr by metis
            then have "repo_live S1 p j" using repo_live_like [OF like1, of p j] p(2) by simp
            ultimately show ?thesis using p2 ok2 i(3) by blast
          qed
          then show ?thesis by (rule in_index_test)
        qed
        moreover have "like_but_valid ?J S S2" using like2 sub(1) unfolding like_but_valid_def by blast
        ultimately show ?thesis using sw S' by (intro exI [of _ S2] exI [of _ bs]) metis
      qed
    qed
  qed
qed

text \<open>C4: Garbage collection keeps every block that is needed: whatever a run over a repository does, ends in or
  finds damaged, every block in the tree of a kept commit of the repository, or of a virtual repository that
  shares its store, is afterwards as it was - as long as the query for those virtual repositories does not
  fail.  Blocks of other stores, commits and fs objects are untouched, and a dry run removes nothing.\<close>

theorem gc_keeps_live_blocks:
  assumes "gc_v1_repo n m S r dry_run = Some (ret, S')" "gc_tables_ok S r"
  shows "(shares_store S r p \<and> repo_live S p b \<or> q \<noteq> gr_store_id r \<or> dry_run \<longrightarrow>
      read_block (gs_libs S) (gs_blocks S') q b = read_block (gs_libs S) (gs_blocks S) q b) \<and>
    gs_commits S' = gs_commits S \<and> gs_fs S' = gs_fs S \<and> gs_branches S' = gs_branches S"
proof -
  obtain S1 bs where s: "like_but_valid (insert (gr_id r) (fst ` set (gs_virtual S))) S S1" "S' = S1\<lparr>gs_blocks := bs\<rparr>"
    "bs = gs_blocks S \<or> (\<not> dry_run \<and> (\<forall>q j. q \<noteq> gr_store_id r \<or> j \<notin> set (gs_listing S (gs_blocks S) (gr_store_id r)) \<or>
        (\<exists>p. shares_store S r p \<and> repo_live S p j) \<longrightarrow>
        read_block (gs_libs S) bs q j = read_block (gs_libs S) (gs_blocks S) q j))"
    using gc_v1_repo_cases [OF assms] by blast
  then show ?thesis using like_but_validD [OF s(1)] by auto
qed

section \<open>The collector returns\<close>

text \<open>Fuel that is enough for a repository: all commits of its branches, and the depth of their trees.\<close>

definition gc_bounded :: "nat \<Rightarrow> nat \<Rightarrow> gc_session \<Rightarrow> gc_repo \<Rightarrow> bool" where
  "gc_bounded n m S r \<longleftrightarrow>
     (\<forall>b\<in>set (seaf_branch_manager_get_branch_list (gs_branches S) (gr_id r)).
        finite {i. commit_reach (gc_commits S (gr_id r)) (br_commit_id b) i} \<and>
        card {i. commit_reach (gc_commits S (gr_id r)) (br_commit_id b) i} \<le> n \<and>
        (\<forall>i c. commit_reach (gc_commits S (gr_id r)) (br_commit_id b) i \<longrightarrow>
           get_commit (gc_commits S (gr_id r)) i = Some c \<longrightarrow> dir_height m (gc_fs S r) (root_id c)))"

lemma populate_branches_returns:
  assumes "\<forall>b\<in>set bs. finite {i. commit_reach V (br_commit_id b) i} \<and> card {i. commit_reach V (br_commit_id b) i} \<le> n \<and>
    (\<forall>i c. commit_reach V (br_commit_id b) i \<longrightarrow> get_commit V i = Some c \<longrightarrow> dir_height m F (root_id c))"
  shows "\<exists>r. populate_branches n m sha256 V F bs d = Some r"
  using assms
proof (induction bs arbitrary: d)
  case (Cons b bs)
  let ?R = "{i. commit_reach V (br_commit_id b) i}"
  let ?func = "gc_traverse_commit m sha256 F"
  have bound: "finite ?R" "card ?R \<le> n" and height: "\<And>i c. i \<in> ?R \<Longrightarrow> get_commit V i = Some c \<Longrightarrow> dir_height m F (root_id c)"
    using Cons.prems by auto
  obtain res data where t: "seaf_commit_manager_traverse_commit_tree n V (br_commit_id b) ?func (Some d) False = Some (res, data)"
    using commit_tree_returns [OF bound, of ?func "Some d" False False]
    unfolding seaf_commit_manager_traverse_commit_tree_def by fastforce
  have "data \<noteq> None"
  proof (rule commit_tree_inv [OF t, where I = "\<lambda>data. data \<noteq> None"])
    fix c and u :: "gc_data option" assume c: "commit_reach V (br_commit_id b) (commit_id c)" "get_commit V (commit_id c) = Some c" "u \<noteq> None"
    then obtain d where d: "u = Some d" by blast
    have "\<exists>r. seaf_fs_manager_traverse_tree m F (root_id c) cb v False = Some r" for cb :: "gc_data tree_callback" and v
      using traverse_dir_total [OF height [OF _ c(2)], of cb False v] c(1) by (auto simp: seaf_fs_manager_traverse_tree_def)
    then show "snd (snd (?func c u)) \<noteq> None"
      by (fastforce simp: gc_traverse_commit_def d Let_def split: option.splits)
  qed simp
  then obtain d' where d': "data = Some d'" by blast
  show ?case
  proof (cases res)
    case True
    obtain r where "populate_branches n m sha256 V F bs d' = Some r" using Cons.IH [of d'] Cons.prems by auto
    then show ?thesis using t d' True by simp
  qed (use t d' in simp)
qed simp

lemma populate_repo_returns:
  assumes "gc_bounded n m S r"
  shows "\<exists>res. populate_gc_index_for_repo n m S r index = Some res"
proof (cases "seaf_branch_manager_get_branch_list (gs_branches S) (gr_id r)")
  case (Cons b bs)
  note same = like_but_validD [OF record_valid_since_like [of r S "get_repo_truncate_time S (gr_id r)"]]
  have "\<exists>res. populate_branches n m (gs_sha256 S) (gc_commits S (gr_id r)) (gc_fs S r) (b # bs) d = Some res" for d
    by (rule populate_branches_returns) (use assms Cons in \<open>simp add: gc_bounded_def\<close>)
  then show ?thesis
    unfolding populate_gc_index_for_repo_def Cons list.case Let_def same
    by (auto simp del: populate_branches.simps split: option.split)
qed (simp add: populate_gc_index_for_repo_def)

lemma gc_bounded_like: "like_but_valid J S S' \<Longrightarrow> gc_bounded n m S' r = gc_bounded n m S r"
  using like_but_validD [of J S S'] by (simp add: gc_bounded_def)

lemma populate_virtual_returns:
  "\<forall>i\<in>set ids. \<forall>q. gc_get_repo S i = Some q \<longrightarrow> gc_bounded n m S q \<Longrightarrow> index_ok (gs_sha256 S) index \<Longrightarrow>
   \<exists>res. populate_virtual n m ids S index = Some res"
proof (induction ids arbitrary: S index)
  case (Cons i ids)
  show ?case
  proof (cases "gc_get_repo S i")
    case (Some q)
    then obtain r1 index1 S1 where 1: "populate_gc_index_for_repo n m S q index = Some (r1, index1, S1)"
      using populate_repo_returns [of n m S q index] Cons.prems(1) by auto
    show ?thesis
    proof (cases "r1 < 0")
      case False
      note p = populate_repo_spec [OF 1 Cons.prems(2)]
      have like: "like_but_valid {gr_id q} S S1" using p by blast
      note same = like_but_validD [OF like]
      have "\<exists>res. populate_virtual n m ids S1 index1 = Some res"
        by (rule Cons.IH) (use Cons.prems(1) p False in \<open>simp_all add: same gc_bounded_like [OF like]\<close>)
      then show ?thesis using Some 1 False by simp
    qed (use Some 1 in simp)
  qed simp
qed simp

lemma gc_v1_returns:
  assumes "gc_bounded n m S r" "\<And>i q. i \<in> set (get_virtual_repo_ids_by_origin S (gr_id r)) \<Longrightarrow> gc_get_repo S i = Some q \<Longrightarrow>
    gc_bounded n m S q"
  shows "\<exists>ret S'. gc_v1_repo n m S r dry_run = Some (ret, S')"
proof -
  let ?total = "seaf_block_manager_get_block_number (gs_listing S (gs_blocks S) (gr_store_id r))"
  show ?thesis
  proof (cases "alloc_gc_index S ?total")
    case None
    then show ?thesis by (simp add: gc_v1_repo_def Let_def)
  next
    case (Some index)
    obtain r1 index1 S1 where 1: "populate_gc_index_for_repo n m S r index = Some (r1, index1, S1)"
      using populate_repo_returns [OF assms(1), of index] by auto
    note p1 = populate_repo_spec [OF 1 alloc_gc_index_ok [OF Some]]
    have like: "like_but_valid {gr_id r} S S1" using p1 by blast
    note same = like_but_validD [OF like]
    show ?thesis
    proof (cases "r1 < 0")
      case False
      obtain r2 index2 S2 where 2: "populate_gc_index_for_virtual_repos n m S1 r index1 = Some (r2, index2, S2)"
      proof -
        have "\<exists>res. populate_virtual n m (get_virtual_repo_ids_by_origin S (gr_id r)) S1 index1 = Some res"
          by (rule populate_virtual_returns) (use assms(2) p1 False in \<open>simp_all add: same gc_bounded_like [OF like]\<close>)
        then show ?thesis using that by (auto simp: populate_gc_index_for_virtual_repos_def same)
      qed
      show ?thesis using Some 1 False 2 by (cases "r2 < 0") (simp_all add: gc_v1_repo_def Let_def split: prod.split)
    qed (use Some 1 in \<open>simp add: gc_v1_repo_def Let_def\<close>)
  qed
qed

text \<open>C28: The collector returns: fuel above the number of commits of every branch and above the depth of the
  trees of those commits, for the repository and its virtual repositories, is enough.\<close>

theorem gc_returns:
  assumes "gc_bounded n m S r" "\<And>i q. i \<in> set (get_virtual_repo_ids_by_origin S (gr_id r)) \<Longrightarrow> gc_get_repo S i = Some q \<Longrightarrow>
    gc_bounded n m S q"
  shows "\<exists>ret S'. gc_v1_repo n m S r dry_run = Some (ret, S')"
  by (rule gc_v1_returns [OF assms])

text \<open>
  The query for the virtual repositories of an origin cannot tell a database error from there being
  none: when it fails, the collection goes on without their blocks.
\<close>

theorem gc_forgets_virtual_repos:
  assumes "gs_fails S Q_VIRTUAL_BY_ORIGIN (gr_id r)"
  shows "populate_gc_index_for_virtual_repos n m S r index = Some (0, index, S)"
  using assms by (simp add: populate_gc_index_for_virtual_repos_def virtual_ids)

section \<open>A collection\<close>

definition gc_demo_dir :: seafdir where
  "gc_demo_dir = \<lparr>dir_version = 1, dir_id = [],
     entries = [(demo_dirent ''f'' 0x81A4)\<lparr>d_version := 1, d_id := demo_id (CHR ''d''), d_modifier := Some ''me''\<rparr>], ondisk = None\<rparr>"

definition gc_demo_file :: seafile where
  "gc_demo_file = \<lparr>sf_version = 1, file_id = [], file_size = 1, blk_sha1s = [demo_id (CHR ''a'')]\<rparr>"

definition gc_demo_libs :: libs where
  "gc_demo_libs = demo_clibs\<lparr>lib_json_loadb := (\<lambda>s.
     if s = ''F'' then Some (json_sort_keys (seaf_dir_to_json gc_demo_dir))
     else if s = ''D'' then Some (json_sort_keys (seafile_to_json gc_demo_file))
     else lib_json_loadb demo_clibs s)\<rparr>"

definition gc_demo_id :: string where "gc_demo_id = replicate 36 (CHR ''e'')"

definition gc_demo :: gc_session where
  "gc_demo =
     \<lparr>gs_libs = gc_demo_libs, gs_searpc = demo_searpc, gs_sha256 = demo_sha256, gs_alloc = (\<lambda>_. True), gs_now = 11,
      gs_repos = [gc_demo_id], gs_virtual = [], gs_history = Map.empty, gs_keep_days = -1, gs_valid = Map.empty,
      gs_garbage = [], gs_fails = (\<lambda>_ _. False),
      gs_branches = \<lparr>bd_rows = [((gc_demo_id, ''master''), demo_id (CHR ''a''))], bd_fails = (\<lambda>_. False), bd_updated = []\<rparr>,
      gs_commits = demo_cstore,
      gs_fs = \<lparr>obj_dir = [], files = (\<lambda>p. if p = id_to_path [] (demo_id (CHR ''f'')) gc_demo_id then Some ''F''
                 else if p = id_to_path [] (demo_id (CHR ''d'')) gc_demo_id then Some ''D'' else None), disk_ok = (\<lambda>_. True)\<rparr>,
      gs_blocks = demo_blocks\<lparr>bk_files := (\<lambda>p. if p = get_block_path demo_blocks (demo_id (CHR ''a'')) gc_demo_id then Some ''x''
                    else if p = get_block_path demo_blocks (demo_id (CHR ''b'')) gc_demo_id then Some ''y'' else None)\<rparr>,
      gs_listing = (\<lambda>_ _. [demo_id (CHR ''a''), demo_id (CHR ''b'')])\<rparr>"

definition gc_demo_repo :: gc_repo where
  "gc_demo_repo = (gc_repo_new gc_demo_id None None)\<lparr>gr_store_id := gc_demo_id, gr_version := 1\<rparr>"

lemma gc_demo_simps [simp]:
  "gr_id gc_demo_repo = gc_demo_id" "gr_store_id gc_demo_repo = gc_demo_id" "gs_libs gc_demo = gc_demo_libs"
  "get_virtual_repo_ids_by_origin gc_demo i = []" "gc_tables_ok gc_demo gc_demo_repo"
  "seaf_branch_manager_get_branch_list (gs_branches gc_demo) gc_demo_id
     = [seaf_branch_new ''master'' gc_demo_id (demo_id (CHR ''a''))]"
  "br_commit_id (seaf_branch_new ''master'' gc_demo_id (demo_id (CHR ''a''))) = demo_id (CHR ''a'')"
  by (simp_all add: gc_demo_repo_def gc_repo_new_def gc_demo_id_def gc_demo_def get_virtual_repo_ids_by_origin_def
      gc_tables_ok_def seaf_branch_manager_get_branch_list_def seaf_branch_new_def)

lemma gc_demo_commit [simp]: "get_commit (gc_commits gc_demo gc_demo_id) (demo_id (CHR ''a'')) = Some demo_a"
proof -
  have ok: "commit_ok gc_demo_libs demo_a"
    using demo_commits_ok(1) by (simp add: commit_ok_def gc_demo_libs_def is_uuid_valid_def)
  have "seaf_obj_store_read_obj gc_demo_libs demo_cstore gc_demo_id (demo_id (CHR ''a'')) = Some ''a''"
    using demo_read [of "CHR ''a''"]
    by (simp add: obj_store_defs gc_demo_libs_def gc_demo_id_def is_uuid_valid_def split: if_splits)
  moreover have "lib_json_loadb gc_demo_libs ''a'' = Some (commit_to_json_object demo_searpc demo_a)"
    by (simp add: gc_demo_libs_def)
  ultimately show ?thesis
    using commit_json_back [OF demo_searpc_ok ok]
    by (simp add: gc_demo_def gc_commits_def seaf_commit_manager_get_commit_def load_commit_def parse_commit_json_def)
qed

lemma gc_demo_tree [simp]:
  "get_dir (gc_fs gc_demo gc_demo_repo) (demo_id (CHR ''f'')) = Some (gc_demo_dir\<lparr>dir_id := demo_id (CHR ''f'')\<rparr>)"
  "get_file (gc_fs gc_demo gc_demo_repo) (demo_id (CHR ''d'')) = Some (gc_demo_file\<lparr>file_id := demo_id (CHR ''d'')\<rparr>)"
proof -
  have ok: "seafdir_json_ok gc_demo_dir" "seafile_json_ok gc_demo_file"
    by (simp_all add: seafdir_json_ok_def gc_demo_dir_def dirent_json_ok_def demo_dirent_def seafile_json_ok_def gc_demo_file_def)
  have read: "seaf_obj_store_read_obj gc_demo_libs (gs_fs gc_demo) gc_demo_id (demo_id (CHR ''f'')) = Some ''F''"
    "seaf_obj_store_read_obj gc_demo_libs (gs_fs gc_demo) gc_demo_id (demo_id (CHR ''d'')) = Some ''D''"
    by (simp_all add: obj_store_defs gc_demo_libs_def is_uuid_valid_def gc_demo_def demo_clibs_def demo_libs_def)
  have load: "load_json gc_demo_libs ''F'' = Some (json_sort_keys (seaf_dir_to_json gc_demo_dir))"
    "load_json gc_demo_libs ''D'' = Some (json_sort_keys (seafile_to_json gc_demo_file))"
    by (simp_all add: load_json_def gc_demo_libs_def demo_clibs_def demo_libs_def)
  have ne: "take 40 (demo_id x) = demo_id x" "demo_id x = EMPTY_SHA1 \<longleftrightarrow> x = CHR ''0''" for x
    by (auto simp: demo_id_def EMPTY_SHA1_def replicate_eq_replicate)
  show "get_dir (gc_fs gc_demo gc_demo_repo) (demo_id (CHR ''f'')) = Some (gc_demo_dir\<lparr>dir_id := demo_id (CHR ''f'')\<rparr>)"
    "get_file (gc_fs gc_demo gc_demo_repo) (demo_id (CHR ''d'')) = Some (gc_demo_file\<lparr>file_id := demo_id (CHR ''d'')\<rparr>)"
    using seaf_dir_json_roundtrip [OF ok(1), of "demo_id (CHR ''f'')"] seafile_json_roundtrip [OF ok(2), of "demo_id (CHR ''d'')"]
    by (simp_all add: gc_fs_def seaf_fs_manager_get_seafdir_def seaf_fs_manager_get_seafile_def read ne gc_demo_repo_def
        seaf_dir_from_data_def seafile_from_data_def seaf_dir_from_json_def seafile_from_json_def load gc_demo_dir_def gc_repo_new_def)
qed

lemma gc_demo_reach: "commit_reach (gc_commits gc_demo gc_demo_id) (demo_id (CHR ''a'')) i \<longleftrightarrow> i = demo_id (CHR ''a'')"
proof
  assume "commit_reach (gc_commits gc_demo gc_demo_id) (demo_id (CHR ''a'')) i"
  then show "i = demo_id (CHR ''a'')" by (induction rule: reach_until.induct) (auto simp: parents_def)
qed (simp add: reach_until.head)

lemma gc_demo_bounded: "gc_bounded 1 1 gc_demo gc_demo_repo"
proof -
  have "root_id demo_a = demo_id (CHR ''f'')" by (simp add: demo_a_def demo_commit_def)
  then have "dir_height 1 (gc_fs gc_demo gc_demo_repo) (root_id demo_a)"
    by (simp add: gc_demo_dir_def demo_dirent_def S_ISDIR_def S_IFMT_def S_IFDIR_def)
  then show ?thesis by (simp add: gc_bounded_def gc_demo_reach)
qed

lemma gc_demo_live: "repo_live gc_demo gc_demo_repo (demo_id (CHR ''a''))"
proof -
  let ?F = "gc_fs gc_demo gc_demo_repo"
  have "file_reach ?F (demo_id (CHR ''f'')) (demo_id (CHR ''d''))"
    unfolding file_reach_def by (rule exI [of _ "demo_id (CHR ''f'')"])
      (simp add: dir_reach.root gc_demo_dir_def demo_dirent_def S_ISREG_def S_IFMT_def S_IFREG_def)
  then have "demo_id (CHR ''a'') \<in> tree_blocks ?F (demo_id (CHR ''f''))"
    by (auto simp: tree_blocks_def gc_demo_file_def intro!: exI [of _ "demo_id (CHR ''d'')"])
  moreover have "root_id demo_a = demo_id (CHR ''f'')" by (simp add: demo_a_def demo_commit_def)
  ultimately show ?thesis
    using gc_kept.head [of "seaf_branch_new ''master'' gc_demo_id (demo_id (CHR ''a''))"]
    unfolding repo_live_def by (intro exI [of _ "demo_id (CHR ''a'')"] exI [of _ demo_a]) simp
qed

theorem gc_returns_witness: "\<exists>ret S'. gc_v1_repo 1 1 gc_demo gc_demo_repo True = Some (ret, S')"
  by (rule gc_returns [OF gc_demo_bounded]) simp

theorem gc_keeps_live_blocks_witness:
  "\<exists>ret S'. gc_v1_repo 1 1 gc_demo gc_demo_repo False = Some (ret, S') \<and>
     read_block gc_demo_libs (gs_blocks S') gc_demo_id (demo_id (CHR ''a'')) = Some ''x''"
proof -
  obtain ret S' where run: "gc_v1_repo 1 1 gc_demo gc_demo_repo False = Some (ret, S')"
    using gc_v1_returns [OF gc_demo_bounded, of False] by auto
  have "read_block gc_demo_libs (gs_blocks gc_demo) gc_demo_id (demo_id (CHR ''a'')) = Some ''x''"
    by (simp add: read_block_def gc_demo_def get_block_path_def gc_demo_libs_def is_uuid_valid_def demo_clibs_def demo_libs_def)
  then show ?thesis
    using gc_keeps_live_blocks [OF run, of gc_demo_repo "demo_id (CHR ''a'')"] gc_demo_live run
    by (auto simp: shares_store_def)
qed

end
