(* ===== verification/PackDir.thy ===== *)
theory PackDir
  imports FileIndex FsTree
begin

text \<open>
  Packing a directory or a list of entries into a zip archive (\<open>server/pack-dir.c\<close>): one archive
  entry per file with the content of its blocks, decrypted piece by piece, and one per empty
  directory.  The archive (libarchive), the cipher (OpenSSL), iconv and GLib's \<open>g_build_filename\<close> are
  parameters.
\<close>

section \<open>The environment\<close>

definition S_IFLNK :: u32 where "S_IFLNK = 0xA000"

definition S_ISLNK :: "u32 \<Rightarrow> bool" where
  "S_ISLNK m \<longleftrightarrow> m AND S_IFMT = S_IFLNK"

text \<open>What the code sets of a \<open>struct archive_entry\<close>.\<close>

record arch_entry =
  ae_pathname :: string
  ae_mode :: u32
  ae_size :: u64
  ae_mtime :: u64

text \<open>
  The functions of libarchive on an archive being written: \<open>archive_write_header\<close> (whether it returned
  \<open>ARCHIVE_OK\<close>), \<open>archive_write_data\<close> (its result), \<open>archive_write_finish\<close> and the version number.
\<close>

record 'a archiver =
  ar_header :: "arch_entry \<Rightarrow> 'a \<Rightarrow> bool \<times> 'a"
  ar_data :: "bytes \<Rightarrow> 'a \<Rightarrow> int \<times> 'a"
  ar_finish :: "'a \<Rightarrow> int"
  ar_version :: nat

text \<open>The decryption context: \<open>seafile_decrypt_init\<close>, \<open>EVP_DecryptUpdate\<close>, \<open>EVP_DecryptFinal_ex\<close>.\<close>

record 'c decipher =
  dc_init :: "'c option"
  dc_update :: "'c \<Rightarrow> bytes \<Rightarrow> (bytes \<times> 'c) option"
  dc_final :: "'c \<Rightarrow> bytes option"

text \<open>
  \<open>PackDirData\<close> with what the functions read of the session.  \<open>pe_canceled k\<close> is the flag
  \<open>canceled\<close> of the progress, which other threads set, at its \<open>k\<close>-th reading.
\<close>

record ('a, 'c) pack_data =
  pe_libs :: libs
  pe_blocks :: block_store
  pe_view :: fs_view
  pe_archiver :: "'a archiver"
  pe_crypt :: "'c decipher option"
  pe_top :: string
  pe_windows :: bool
  pe_encoding :: "string option"
  pe_iconv :: "string \<Rightarrow> string \<Rightarrow> string \<Rightarrow> bytes option"
  pe_build :: "string list \<Rightarrow> string"
  pe_mtime :: u64
  pe_canceled :: "nat \<Rightarrow> bool"

record 'a pack_state =
  ps_archive :: 'a
  ps_zipped :: u32
  ps_checks :: nat

definition with_archive :: "'a pack_state \<Rightarrow> 'a \<Rightarrow> 'a pack_state" where
  "with_archive st a = st\<lparr>ps_archive := a\<rparr>"

section \<open>Names\<close>

text \<open>The output buffer has 1024 bytes; what does not fit is a failure.\<close>

definition do_iconv :: "(string \<Rightarrow> string \<Rightarrow> string \<Rightarrow> bytes option) \<Rightarrow> string \<Rightarrow> string \<Rightarrow> string \<Rightarrow> string option" where
  "do_iconv conv fromcode tocode inp =
     (case conv tocode fromcode inp of
        None \<Rightarrow> None
      | Some out \<Rightarrow> if length out > 1024 then None else Some (takeWhile (\<lambda>c. c \<noteq> CHR 0x00) out))"

text \<open>The fix of the file name for WinRAR; None is a failed conversion.\<close>

definition entry_name :: "('a, 'c) pack_data \<Rightarrow> string \<Rightarrow> string option" where
  "entry_name D pathname =
     (case pe_encoding D of
        Some encoding \<Rightarrow> if pe_windows D then do_iconv (pe_iconv D) ''UTF-8'' encoding pathname else Some pathname
      | None \<Rightarrow> Some pathname)"

section \<open>Files\<close>

definition PACK_BUF :: nat where "PACK_BUF = 64 * 1024"

definition write_piece :: "'a archiver \<Rightarrow> bytes \<Rightarrow> 'a \<Rightarrow> bool \<times> 'a" where
  "write_piece A buf a =
     (if buf = [] then (True, a)
      else (case ar_data A buf a of (len, a') \<Rightarrow> (len > 0, a')))"

text \<open>The loop over one block, with the bytes that remain and the decryption context.\<close>

function block_to_archive ::
    "block_store \<Rightarrow> 'a archiver \<Rightarrow> 'c decipher option \<Rightarrow> block_handle \<Rightarrow> u32 \<Rightarrow> 'c option \<Rightarrow> 'a \<Rightarrow> bool \<times> 'a" where
  "block_to_archive bs A crypt handle remain ctx a =
     (if remain = 0 then (True, a)
      else
        (case seaf_block_manager_read_block bs handle PACK_BUF of
           (None, _) \<Rightarrow> (False, a)
         | (Some buf, handle') \<Rightarrow>
             if buf = [] then (False, a)
             else
               (let remain' = remain - of_nat (length buf) in
                case (crypt, ctx) of
                  (Some c, Some x) \<Rightarrow>
                    (case dc_update c x buf of
                       None \<Rightarrow> (False, a)
                     | Some (dec_out, x') \<Rightarrow>
                         (case write_piece A dec_out a of
                            (False, a1) \<Rightarrow> (False, a1)
                          | (True, a1) \<Rightarrow>
                              if remain' = 0 then
                                (case dc_final c x' of
                                   None \<Rightarrow> (False, a1)
                                 | Some dec_out \<Rightarrow> write_piece A dec_out a1)
                              else block_to_archive bs A crypt handle' remain' (Some x') a1))
                | _ \<Rightarrow>
                    (case write_piece A buf a of
                       (False, a1) \<Rightarrow> (False, a1)
                     | (True, a1) \<Rightarrow> block_to_archive bs A crypt handle' remain' ctx a1))))"
  by pat_completeness auto
termination
  by (relation "measure (\<lambda>(bs, A, crypt, h, remain, ctx, a). length (bh_data h) - bh_pos h)")
    (auto simp: seaf_block_manager_read_block_def block_backend_fs_read_block_def Let_def split: if_splits)

declare block_to_archive.simps [simp del]

fun blocks_to_archive :: "('a, 'c) pack_data \<Rightarrow> string list \<Rightarrow> 'a \<Rightarrow> bool \<times> 'a" where
  "blocks_to_archive D [] a = (True, a)"
| "blocks_to_archive D (blk_id # ids) a =
     (case seaf_block_manager_open_block (pe_libs D) (pe_blocks D) (fv_repo (pe_view D)) blk_id BLOCK_READ of
        None \<Rightarrow> (False, a)
      | Some handle \<Rightarrow>
          (let remain = bmd_size (block_backend_fs_stat_block_by_handle handle) in
           case (case pe_crypt D of
                   None \<Rightarrow> Some None
                 | Some c \<Rightarrow> (case dc_init c of None \<Rightarrow> None | Some x \<Rightarrow> Some (Some x))) of
             None \<Rightarrow> (False, a)
           | Some ctx \<Rightarrow>
               (case block_to_archive (pe_blocks D) (pe_archiver D) (pe_crypt D) handle remain ctx a of
                  (False, a') \<Rightarrow> (False, a')
                | (True, a') \<Rightarrow> blocks_to_archive D ids a')))"

definition add_file_to_archive ::
    "('a, 'c) pack_data \<Rightarrow> string \<Rightarrow> dirent \<Rightarrow> 'a \<Rightarrow> int \<times> 'a" where
  "add_file_to_archive D parent_dir dent a =
     (let pathname = pe_build D [pe_top D, parent_dir, d_name dent] in
      case get_file (pe_view D) (d_id dent) of
        None \<Rightarrow> (-1, a)
      | Some file \<Rightarrow>
          (case entry_name D pathname of
             None \<Rightarrow> (-1, a)
           | Some name \<Rightarrow>
               (case ar_header (pe_archiver D)
                       \<lparr>ae_pathname = name, ae_mode = d_mode dent OR 0x1A4, ae_size = file_size file,
                        ae_mtime = pe_mtime D\<rparr> a of
                  (False, a1) \<Rightarrow> (-1, a1)
                | (True, a1) \<Rightarrow>
                    (case blocks_to_archive D (blk_sha1s file) a1 of
                       (ok, a2) \<Rightarrow> (if ok then 0 else -1, a2)))))"

section \<open>Directories\<close>

text \<open>An empty directory has an entry of its own.\<close>

definition add_empty_dir :: "('a, 'c) pack_data \<Rightarrow> string \<Rightarrow> 'a \<Rightarrow> int \<times> 'a" where
  "add_empty_dir D dirpath a =
     (case entry_name D (pe_build D [pe_top D, dirpath]) of
        None \<Rightarrow> (-1, a)
      | Some name \<Rightarrow>
          (case ar_header (pe_archiver D)
                  \<lparr>ae_pathname = name, ae_mode = S_IFDIR OR 0x1ED, ae_size = 0, ae_mtime = pe_mtime D\<rparr> a of
             (ok, a') \<Rightarrow> (if ok then 0 else -1, a')))"

definition check_canceled :: "('a, 'c) pack_data \<Rightarrow> 'a pack_state \<Rightarrow> bool \<times> 'a pack_state" where
  "check_canceled D st = (pe_canceled D (ps_checks st), st\<lparr>ps_checks := ps_checks st + 1\<rparr>)"

definition archive_file :: "('a, 'c) pack_data \<Rightarrow> string \<Rightarrow> dirent \<Rightarrow> 'a pack_state \<Rightarrow> int \<times> 'a pack_state" where
  "archive_file D dirpath dent st =
     (case add_file_to_archive D dirpath dent (ps_archive st) of
        (ret, a) \<Rightarrow> (ret, with_archive st a))"

definition count_zipped :: "int \<times> 'a pack_state \<Rightarrow> int \<times> 'a pack_state" where
  "count_zipped r = (if fst r = 0 then (fst r, (snd r)\<lparr>ps_zipped := ps_zipped (snd r) + 1\<rparr>) else r)"

text \<open>\<open>ret\<close> is the result of the last entry that was archived.\<close>

fun archive_entries ::
    "(string \<Rightarrow> string \<Rightarrow> 'a pack_state \<Rightarrow> (int \<times> 'a pack_state) option) \<Rightarrow> ('a, 'c) pack_data \<Rightarrow> string
     \<Rightarrow> dirent list \<Rightarrow> int \<Rightarrow> 'a pack_state \<Rightarrow> (int \<times> 'a pack_state) option" where
  "archive_entries walk D dirpath [] ret st = Some (ret, st)"
| "archive_entries walk D dirpath (dent # es) ret st =
     (case check_canceled D st of
        (True, st) \<Rightarrow> Some (-1, st)
      | (False, st) \<Rightarrow>
          (case (if S_ISREG (d_mode dent) then Some (count_zipped (archive_file D dirpath dent st))
                 else if S_ISLNK (d_mode dent) then
                   (if ar_version (pe_archiver D) \<ge> 3000001 then Some (archive_file D dirpath dent st)
                    else Some (ret, st))
                 else if S_ISDIR (d_mode dent) then walk (d_id dent) (pe_build D [dirpath, d_name dent]) st
                 else Some (ret, st)) of
             None \<Rightarrow> None
           | Some (ret, st) \<Rightarrow>
               if ret < 0 then Some (ret, st) else archive_entries walk D dirpath es ret st))"

text \<open>A directory that cannot be read is skipped: the function then returns 0.\<close>

primrec archive_dir ::
    "nat \<Rightarrow> ('a, 'c) pack_data \<Rightarrow> string \<Rightarrow> string \<Rightarrow> 'a pack_state \<Rightarrow> (int \<times> 'a pack_state) option" where
  "archive_dir 0 D root_id dirpath st = None"
| "archive_dir (Suc n) D root_id dirpath st =
     (case get_dir (pe_view D) root_id of
        None \<Rightarrow> Some (0, st)
      | Some dir \<Rightarrow>
          if entries dir = [] then
            (case add_empty_dir D dirpath (ps_archive st) of (ret, a) \<Rightarrow> Some (ret, with_archive st a))
          else archive_entries (archive_dir n D) D dirpath (entries dir) 0 st)"

fun archive_multi ::
    "nat \<Rightarrow> ('a, 'c) pack_data \<Rightarrow> dirent list \<Rightarrow> 'a pack_state \<Rightarrow> (int \<times> 'a pack_state) option" where
  "archive_multi n D [] st = Some (0, st)"
| "archive_multi n D (dirent # es) st =
     (case check_canceled D st of
        (True, st) \<Rightarrow> Some (-1, st)
      | (False, st) \<Rightarrow>
          if S_ISREG (d_mode dirent) then
            (case archive_file D [] dirent st of
               (ret, st) \<Rightarrow> if ret < 0 then Some (-1, st)
                             else archive_multi n D es (st\<lparr>ps_zipped := ps_zipped st + 1\<rparr>))
          else if S_ISDIR (d_mode dirent) then
            (case archive_dir n D (d_id dirent) (d_name dirent) st of
               None \<Rightarrow> None
             | Some (ret, st) \<Rightarrow> if ret < 0 then Some (-1, st) else archive_multi n D es st)
          else archive_multi n D es st)"

text \<open>\<open>void *internal\<close>: the id of a directory or a list of entries.\<close>

datatype pack_what = PackDir string | PackMulti "dirent list"

text \<open>
  \<open>pack_files\<close> once its temporary file is open.  A name that is not empty says that \<open>internal\<close> is an id;
  reading it as what it is not is None.
\<close>

definition pack_files ::
    "nat \<Rightarrow> ('a, 'c) pack_data \<Rightarrow> pack_what \<Rightarrow> 'a pack_state \<Rightarrow> (int \<times> 'a pack_state) option" where
  "pack_files n D what st =
     (case (case (strcmp (pe_top D) [] \<noteq> 0, what) of
              (True, PackDir i) \<Rightarrow> archive_dir n D i [] st
            | (False, PackMulti es) \<Rightarrow> archive_multi n D es st
            | _ \<Rightarrow> None) of
        None \<Rightarrow> None
      | Some (r, st') \<Rightarrow>
          (let ret = (if r < 0 then -1 else 0);
               ret = (if ar_finish (pe_archiver D) (ps_archive st') < 0 then -1 else ret)
           in Some (ret, st')))"

section \<open>What is packed\<close>

text \<open>
  Documented behaviour of the parameters.  \<open>archiver_ok\<close>: a header starts a new entry, data is appended to
  the last one up to the size its header announced.  \<open>decipher_ok\<close>: decrypting a block piece by piece
  gives what decrypting it at once gives.  \<open>build_ok\<close>: the elements that are not empty are joined by
  slashes.
\<close>

definition archiver_ok :: "'a archiver \<Rightarrow> ('a \<Rightarrow> (arch_entry \<times> bytes) list) \<Rightarrow> bool" where
  "archiver_ok A view \<longleftrightarrow>
     (\<forall>e a a'. ar_header A e a = (True, a') \<longrightarrow> view a' = view a @ [(e, [])]) \<and>
     (\<forall>buf a len a' l e c. ar_data A buf a = (len, a') \<longrightarrow> len > 0 \<longrightarrow> view a = l @ [(e, c)] \<longrightarrow>
        view a' = l @ [(e, take (unat (ae_size e)) (c @ buf))])"

fun dec_run :: "'c decipher \<Rightarrow> 'c \<Rightarrow> bytes list \<Rightarrow> bytes option" where
  "dec_run c x [] = dc_final c x"
| "dec_run c x (p # ps) =
     (case dc_update c x p of
        None \<Rightarrow> None
      | Some (out, x') \<Rightarrow> map_option (append out) (dec_run c x' ps))"

definition decipher_ok :: "'c decipher option \<Rightarrow> seafile_crypt option \<Rightarrow> bool" where
  "decipher_ok dc cr \<longleftrightarrow>
     (case (dc, cr) of
        (None, None) \<Rightarrow> True
      | (Some c, Some k) \<Rightarrow>
          (\<forall>x ps out. dc_init c = Some x \<longrightarrow> ps \<noteq> [] \<longrightarrow> [] \<notin> set ps \<longrightarrow> dec_run c x ps = Some out \<longrightarrow>
             length (concat ps) mod ENCRYPT_BLK_SIZE = 0 \<and> cr_decrypt k (concat ps) = Some out)
      | _ \<Rightarrow> False)"

definition slash_free_ends :: "string \<Rightarrow> bool" where
  "slash_free_ends x \<longleftrightarrow> x = [] \<or> hd x \<noteq> CHR ''/'' \<and> last x \<noteq> CHR ''/''"

definition build_ok :: "(string list \<Rightarrow> string) \<Rightarrow> bool" where
  "build_ok b \<longleftrightarrow> (\<forall>xs. list_all slash_free_ends xs \<longrightarrow> b xs = string_list_join (filter (\<lambda>x. x \<noteq> []) xs) ''/'')"

text \<open>One block: its whole content reaches the archive, deciphered.\<close>

lemma write_piece_ok:
  assumes A: "archiver_ok A view" and w: "write_piece A buf a = (True, a')"
    and v: "view a = l @ [(e, c)]" "length c \<le> unat (ae_size e)"
  shows "view a' = l @ [(e, take (unat (ae_size e)) (c @ buf))]"
  using A w v by (auto simp: write_piece_def archiver_ok_def split: if_splits prod.splits)

lemma read_blockE:
  assumes "seaf_block_manager_read_block bs h len = (Some buf, h')"
  shows "buf = take len (drop (bh_pos h) (bh_data h))" "h' = h\<lparr>bh_pos := bh_pos h + length buf\<rparr>"
  using assms by (auto simp: seaf_block_manager_read_block_def block_backend_fs_read_block_def Let_def split: if_splits)

lemma drop_after_piece:
  assumes "buf = take len (drop p d)"
  shows "drop p d = buf @ drop (p + length buf) d"
proof -
  have "drop (p + length buf) d = drop (length buf) (drop p d)" by (simp add: add.commute)
  moreover have "drop p d = take (length buf) (drop p d) @ drop (length buf) (drop p d)"
    by (rule append_take_drop_id [symmetric])
  moreover have "take (length buf) (drop p d) = buf" unfolding assms by (metis append_eq_conv_conj append_take_drop_id)
  ultimately show ?thesis by metis
qed

text \<open>How much remains of a block that is read from a position.\<close>

definition remaining :: "block_handle \<Rightarrow> u32" where
  "remaining h = of_nat (length (bh_data h) - bh_pos h)"

lemma remaining_step:
  assumes "length (bh_data h) < 2 ^ 32" "bh_pos h \<le> length (bh_data h)"
    and "buf = take len (drop (bh_pos h) (bh_data h))"
  shows "remaining h - of_nat (length buf) = remaining (h\<lparr>bh_pos := bh_pos h + length buf\<rparr>)"
    "bh_pos h + length buf \<le> length (bh_data h)"
proof -
  show le: "bh_pos h + length buf \<le> length (bh_data h)" using assms by simp
  have "of_nat (length (bh_data h) - bh_pos h) - of_nat (length buf)
      = (of_nat (length (bh_data h) - (bh_pos h + length buf)) :: u32)"
    using le by (simp flip: of_nat_diff)
  then show "remaining h - of_nat (length buf) = remaining (h\<lparr>bh_pos := bh_pos h + length buf\<rparr>)"
    by (simp add: remaining_def)
qed

lemma remaining_zero:
  assumes "length (bh_data h) < 2 ^ 32" "bh_pos h \<le> length (bh_data h)"
  shows "remaining h = 0 \<longleftrightarrow> drop (bh_pos h) (bh_data h) = []"
proof -
  have "unat (remaining h) = length (bh_data h) - bh_pos h"
    using assms(1) by (simp add: remaining_def unat_of_nat take_bit_nat_eq_self)
  then have "remaining h = 0 \<longleftrightarrow> length (bh_data h) - bh_pos h = 0"
    by (metis unat_0 unat_eq_zero)
  then show ?thesis using assms(2) by auto
qed

text \<open>One turn of the loop: the piece that was read and what is left.\<close>

lemma block_to_archive_step:
  assumes run: "block_to_archive bs A crypt h (remaining h) ctx a = (True, a')"
    and len: "length (bh_data h) < 2 ^ 32" "bh_pos h < length (bh_data h)"
  obtains buf h' where "seaf_block_manager_read_block bs h PACK_BUF = (Some buf, h')" "buf \<noteq> []"
    "h' = h\<lparr>bh_pos := bh_pos h + length buf\<rparr>" "bh_pos h' \<le> length (bh_data h)"
    "drop (bh_pos h) (bh_data h) = buf @ drop (bh_pos h') (bh_data h)"
    "remaining h - of_nat (length buf) = remaining h'" "bh_data h' = bh_data h"
    "length (bh_data h') - bh_pos h' < length (bh_data h) - bh_pos h"
proof -
  have nz: "remaining h \<noteq> 0" using remaining_zero [of h] len by simp
  from run nz obtain buf h' where r: "seaf_block_manager_read_block bs h PACK_BUF = (Some buf, h')" "buf \<noteq> []"
    by (subst (asm) block_to_archive.simps)
      (cases "seaf_block_manager_read_block bs h PACK_BUF", auto split: option.splits if_splits)
  note rb = read_blockE [OF r(1)]
  show ?thesis
    by (rule that [OF r rb(2)]) (use remaining_step [OF len(1) _ rb(1)] drop_after_piece [OF rb(1)] rb(2) len(2) r(2) in
      \<open>simp_all add: diff_less_mono2\<close>)
qed

lemma block_to_archive_plain:
  assumes A: "archiver_ok A view"
  shows "block_to_archive bs A None h (remaining h) ctx a = (True, a') \<Longrightarrow>
    length (bh_data h) < 2 ^ 32 \<Longrightarrow> bh_pos h \<le> length (bh_data h) \<Longrightarrow>
    view a = l @ [(e, c)] \<Longrightarrow> length c \<le> unat (ae_size e) \<Longrightarrow>
    view a' = l @ [(e, take (unat (ae_size e)) (c @ drop (bh_pos h) (bh_data h)))]"
proof (induction "length (bh_data h) - bh_pos h" arbitrary: h a c rule: less_induct)
  case less
  show ?case
  proof (cases "bh_pos h = length (bh_data h)")
    case True
    then have "a' = a" using less.prems(1) by (subst (asm) block_to_archive.simps) (simp add: remaining_def)
    then show ?thesis using True less.prems by simp
  next
    case False
    then have lt: "bh_pos h < length (bh_data h)" using less.prems by simp
    from less.prems(1,2) lt obtain buf h' where h':
      "seaf_block_manager_read_block bs h PACK_BUF = (Some buf, h')" "buf \<noteq> []"
      "h' = h\<lparr>bh_pos := bh_pos h + length buf\<rparr>" "bh_pos h' \<le> length (bh_data h)"
      "drop (bh_pos h) (bh_data h) = buf @ drop (bh_pos h') (bh_data h)"
      "remaining h - of_nat (length buf) = remaining h'" "bh_data h' = bh_data h"
      "length (bh_data h') - bh_pos h' < length (bh_data h) - bh_pos h"
      by (rule block_to_archive_step)
    obtain ok a1 where w: "write_piece A buf a = (ok, a1)" by fastforce
    have nz: "remaining h \<noteq> 0" using remaining_zero [of h] lt less.prems by simp
    have ok: ok and rest: "block_to_archive bs A None h' (remaining h') ctx a1 = (True, a')"
      using less.prems(1) nz w h'(1,2,6) by (subst (asm) block_to_archive.simps, simp split: bool.splits)+
    have v: "view a1 = l @ [(e, take (unat (ae_size e)) (c @ buf))]"
      using write_piece_ok [OF A w [unfolded eqTrueI [OF ok]] less.prems(4,5)] .
    have "view a' = l @ [(e, take (unat (ae_size e)) (take (unat (ae_size e)) (c @ buf) @ drop (bh_pos h') (bh_data h')))]"
      by (rule less.hyps [OF h'(8) rest _ _ v]) (use h'(4,7) less.prems in auto)
    moreover have "take s (take s (c @ buf) @ drop (bh_pos h') (bh_data h')) = take s (c @ drop (bh_pos h) (bh_data h))" for s
      by (simp add: h'(5)) (simp add: h'(3) min_def)
    ultimately show ?thesis by simp
  qed
qed

lemma block_to_archive_decrypt:
  assumes A: "archiver_ok A view"
  shows "block_to_archive bs A (Some k) h (remaining h) (Some x) a = (True, a') \<Longrightarrow>
    length (bh_data h) < 2 ^ 32 \<Longrightarrow> bh_pos h < length (bh_data h) \<Longrightarrow>
    view a = l @ [(e, c)] \<Longrightarrow> length c \<le> unat (ae_size e) \<Longrightarrow>
    \<exists>ps out. concat ps = drop (bh_pos h) (bh_data h) \<and> ps \<noteq> [] \<and> [] \<notin> set ps \<and> dec_run k x ps = Some out \<and>
      view a' = l @ [(e, take (unat (ae_size e)) (c @ out))]"
proof (induction "length (bh_data h) - bh_pos h" arbitrary: h x a c rule: less_induct)
  case less
  from less.prems(1,2,3) obtain buf h' where h':
    "seaf_block_manager_read_block bs h PACK_BUF = (Some buf, h')" "buf \<noteq> []"
    "h' = h\<lparr>bh_pos := bh_pos h + length buf\<rparr>" "bh_pos h' \<le> length (bh_data h)"
    "drop (bh_pos h) (bh_data h) = buf @ drop (bh_pos h') (bh_data h)"
    "remaining h - of_nat (length buf) = remaining h'" "bh_data h' = bh_data h"
    "length (bh_data h') - bh_pos h' < length (bh_data h) - bh_pos h"
    by (rule block_to_archive_step)
  let ?take = "take (unat (ae_size e))"
  have nz: "remaining h \<noteq> 0" using remaining_zero [of h] less.prems by simp
  note run = less.prems(1) [unfolded block_to_archive.simps [of bs A "Some k" h]]
  obtain dec_out x' where u: "dc_update k x buf = Some (dec_out, x')"
    using run nz h'(1,2) by (cases "dc_update k x buf") auto
  obtain ok a1 where w: "write_piece A dec_out a = (ok, a1)" by fastforce
  have ok: ok using run nz h'(1,2) u w by (cases ok) simp_all
  have v: "view a1 = l @ [(e, ?take (c @ dec_out))]"
    using write_piece_ok [OF A w [unfolded eqTrueI [OF ok]] less.prems(4,5)] .
  have last: "remaining h' = 0 \<longleftrightarrow> bh_pos h' = length (bh_data h)"
    using remaining_zero [of h'] less.prems(2) h'(4,7) by auto
  show ?case
  proof (cases "bh_pos h' = length (bh_data h)")
    case True
    obtain fin where f: "dc_final k x' = Some fin" "write_piece A fin a1 = (True, a')"
      using run nz h'(1,2,6) u w ok True last by (cases "dc_final k x'") simp_all
    have "view a' = l @ [(e, ?take (?take (c @ dec_out) @ fin))]"
      using write_piece_ok [OF A f(2) v] by simp
    also have "?take (?take (c @ dec_out) @ fin) = ?take (c @ dec_out @ fin)" by (simp add: min_def)
    finally show ?thesis
      by (intro exI [of _ "[buf]"] exI [of _ "dec_out @ fin"]) (use True h' u f in simp)
  next
    case False
    have rest: "block_to_archive bs A (Some k) h' (remaining h') (Some x') a1 = (True, a')"
      using run nz h'(1,2,6) u w ok False last by simp
    have "\<exists>ps out. concat ps = drop (bh_pos h') (bh_data h') \<and> ps \<noteq> [] \<and> [] \<notin> set ps \<and> dec_run k x' ps = Some out \<and>
        view a' = l @ [(e, ?take (?take (c @ dec_out) @ out))]"
      by (rule less.hyps [OF h'(8) rest _ _ v]) (use h'(4,7) less.prems False in auto)
    then obtain ps out where p: "concat ps = drop (bh_pos h') (bh_data h')" "ps \<noteq> []" "[] \<notin> set ps"
      "dec_run k x' ps = Some out" "view a' = l @ [(e, ?take (?take (c @ dec_out) @ out))]" by blast
    have "?take (?take (c @ dec_out) @ out) = ?take (c @ dec_out @ out)" by (simp add: min_def)
    with p show ?thesis
      by (intro exI [of _ "buf # ps"] exI [of _ "dec_out @ out"]) (use h' u in simp)
  qed
qed

text \<open>A file: the archive gets what \<open>seaf_fs_manager_checkout_file\<close> would write.\<close>

definition blocks_small :: "block_store \<Rightarrow> bool" where
  "blocks_small bs \<longleftrightarrow> (\<forall>p d. bk_files bs p = Some d \<longrightarrow> length d < 2 ^ 32)"

definition file_ctx :: "'c decipher option \<Rightarrow> 'c option option" where
  "file_ctx dc = (case dc of None \<Rightarrow> Some None | Some c \<Rightarrow> (case dc_init c of None \<Rightarrow> None | Some x \<Rightarrow> Some (Some x)))"

lemma block_archived:
  assumes A: "archiver_ok A view" and small: "blocks_small bs" and dc: "decipher_ok dc cr" "file_ctx dc = Some ctx"
    and h: "seaf_block_manager_open_block L bs repo i BLOCK_READ = Some h"
    and run: "block_to_archive bs A dc h (bmd_size (block_backend_fs_stat_block_by_handle h)) ctx a = (True, a')"
    and v: "view a = l @ [(e, c)]" "length c \<le> unat (ae_size e)"
  shows "\<exists>x. checkout_block L repo bs i cr = Some x \<and> view a' = l @ [(e, take (unat (ae_size e)) (c @ x))]"
proof -
  from h small have d: "bh_pos h = 0" "length (bh_data h) < 2 ^ 32"
    by (auto simp: seaf_block_manager_open_block_def block_backend_fs_open_block_def blocks_small_def
        split: if_splits option.splits)
  have sz: "bmd_size (block_backend_fs_stat_block_by_handle h) = remaining h"
    "unat (remaining h) = length (bh_data h)"
    using d by (simp_all add: block_backend_fs_stat_block_by_handle_def remaining_def unat_of_nat take_bit_nat_eq_self)
  note run' = run [unfolded sz(1)]
  show ?thesis
  proof (cases "bh_data h = []")
    case True
    then have z: "remaining h = 0" by (simp add: remaining_def)
    with run' have "a' = a" by (subst (asm) block_to_archive.simps) simp
    then show ?thesis using h sz z v by (simp add: checkout_block_def)
  next
    case False
    then have pos: "bh_pos h < length (bh_data h)" "0 < length (bh_data h)" using d by simp_all
    from block_to_archive_step [OF run' d(2) pos(1)] obtain buf h'
      where "seaf_block_manager_read_block bs h PACK_BUF = (Some buf, h')" by metis
    then have readable: "bk_read_ok bs (bh_block_id h)"
      by (auto simp: seaf_block_manager_read_block_def block_backend_fs_read_block_def split: if_splits)
    have whole: "fst (seaf_block_manager_read_block bs h (length (bh_data h))) = Some (bh_data h)"
      using readable d by (simp add: seaf_block_manager_read_block_def block_backend_fs_read_block_def Let_def)
    have co: "checkout_block L repo bs i cr =
        (case cr of None \<Rightarrow> Some (bh_data h)
         | Some k \<Rightarrow> if length (bh_data h) mod ENCRYPT_BLK_SIZE \<noteq> 0 then None else cr_decrypt k (bh_data h))"
      using h whole pos by (simp add: checkout_block_def sz Let_def)
    show ?thesis
    proof (cases dc)
      case None
      then have "cr = None" using dc(1) by (simp add: decipher_ok_def split: option.splits)
      then show ?thesis
        using block_to_archive_plain [OF A run' [unfolded None] d(2) _ v] co d(1) by simp
    next
      case (Some k)
      then obtain x where x: "dc_init k = Some x" "ctx = Some x"
        using dc(2) by (auto simp: file_ctx_def split: option.splits)
      obtain j where j: "cr = Some j" using dc(1) Some by (auto simp: decipher_ok_def split: option.splits)
      obtain ps out where p: "concat ps = bh_data h" "ps \<noteq> []" "[] \<notin> set ps" "dec_run k x ps = Some out"
        "view a' = l @ [(e, take (unat (ae_size e)) (c @ out))]"
        using block_to_archive_decrypt [OF A run' [unfolded Some x(2)] d(2) pos(1) v] d(1) by auto
      have "length (concat ps) mod ENCRYPT_BLK_SIZE = 0 \<and> cr_decrypt j (concat ps) = Some out"
        using dc(1) p(2-4) x(1) by (simp add: Some j decipher_ok_def)
      then show ?thesis using co p j by simp
    qed
  qed
qed

lemma checkout_blocks_acc:
  "checkout_blocks L repo bs ids crypt (out @ x) = map_option (append out) (checkout_blocks L repo bs ids crypt x)"
  by (induction ids arbitrary: x) (auto split: option.splits)

definition file_content :: "('a, 'c) pack_data \<Rightarrow> seafile_crypt option \<Rightarrow> seafile \<Rightarrow> bytes option" where
  "file_content D cr f = checkout_blocks (pe_libs D) (fv_repo (pe_view D)) (pe_blocks D) (blk_sha1s f) cr []"

lemma blocks_archived:
  assumes A: "archiver_ok (pe_archiver D) view" and small: "blocks_small (pe_blocks D)" and dc: "decipher_ok (pe_crypt D) cr"
  shows "blocks_to_archive D ids a = (True, a') \<Longrightarrow> view a = l @ [(e, c)] \<Longrightarrow> length c \<le> unat (ae_size e) \<Longrightarrow>
    \<exists>x. checkout_blocks (pe_libs D) (fv_repo (pe_view D)) (pe_blocks D) ids cr [] = Some x \<and>
      view a' = l @ [(e, take (unat (ae_size e)) (c @ x))]"
proof (induction ids arbitrary: a c)
  case (Cons i ids)
  let ?take = "take (unat (ae_size e))"
  obtain h ctx a1 where h: "seaf_block_manager_open_block (pe_libs D) (pe_blocks D) (fv_repo (pe_view D)) i BLOCK_READ = Some h"
    and ctx: "file_ctx (pe_crypt D) = Some ctx"
    and b: "block_to_archive (pe_blocks D) (pe_archiver D) (pe_crypt D) h (bmd_size (block_backend_fs_stat_block_by_handle h)) ctx a = (True, a1)"
    and rest: "blocks_to_archive D ids a1 = (True, a')"
    using Cons.prems(1) by (auto simp: Let_def file_ctx_def split: option.splits prod.splits bool.splits)
  obtain x where x: "checkout_block (pe_libs D) (fv_repo (pe_view D)) (pe_blocks D) i cr = Some x"
    "view a1 = l @ [(e, ?take (c @ x))]"
    using block_archived [OF A small dc ctx h b Cons.prems(2,3)] by blast
  obtain y where y: "checkout_blocks (pe_libs D) (fv_repo (pe_view D)) (pe_blocks D) ids cr [] = Some y"
    "view a' = l @ [(e, ?take (?take (c @ x) @ y))]"
    using Cons.IH [OF rest x(2), unfolded length_take] by (meson min.cobounded2)
  have "?take (?take (c @ x) @ y) = ?take (c @ x @ y)" by (simp add: min_def)
  then show ?case
    using x(1) y checkout_blocks_acc [of _ _ _ ids cr x "[]"] by simp
qed (auto simp: checkout_blocks.simps)

lemma add_file_archived:
  assumes A: "archiver_ok (pe_archiver D) view" and small: "blocks_small (pe_blocks D)" and dc: "decipher_ok (pe_crypt D) cr"
    and run: "add_file_to_archive D path dent a = (r, a')" "0 \<le> r"
  shows "\<exists>f x name. get_file (pe_view D) (d_id dent) = Some f \<and> file_content D cr f = Some x \<and>
      entry_name D (pe_build D [pe_top D, path, d_name dent]) = Some name \<and> r = 0 \<and>
      view a' = view a @ [(\<lparr>ae_pathname = name, ae_mode = d_mode dent OR 0x1A4, ae_size = file_size f,
        ae_mtime = pe_mtime D\<rparr>, take (unat (file_size f)) x)]"
proof -
  let ?e = "\<lambda>name f. \<lparr>ae_pathname = name, ae_mode = d_mode dent OR 0x1A4, ae_size = file_size f, ae_mtime = pe_mtime D\<rparr>"
  obtain f name a1 where f: "get_file (pe_view D) (d_id dent) = Some f"
    "entry_name D (pe_build D [pe_top D, path, d_name dent]) = Some name"
    "ar_header (pe_archiver D) (?e name f) a = (True, a1)" "blocks_to_archive D (blk_sha1s f) a1 = (True, a')" "r = 0"
    using run by (auto simp: add_file_to_archive_def Let_def split: option.splits prod.splits bool.splits if_splits)
  have "view a1 = view a @ [(?e name f, [])]" using A f(3) by (auto simp: archiver_ok_def)
  then show ?thesis
    using blocks_archived [OF A small dc f(4), of "view a" "?e name f" "[]"] f by (auto simp: file_content_def)
qed

section \<open>The whole tree is packed\<close>

text \<open>
  The archive's entries for one entry of the tree with its path: a file with its content, an empty
  directory, nothing for a directory with entries.
\<close>

definition in_archive :: "('a, 'c) pack_data \<Rightarrow> string \<Rightarrow> string" where
  "in_archive D path = (case entry_name D (pe_top D @ path) of Some name \<Rightarrow> name | None \<Rightarrow> [])"

definition dir_packed :: "('a, 'c) pack_data \<Rightarrow> string \<Rightarrow> (arch_entry \<times> bytes) list" where
  "dir_packed D path =
     [(\<lparr>ae_pathname = in_archive D path, ae_mode = S_IFDIR OR 0x1ED, ae_size = 0, ae_mtime = pe_mtime D\<rparr>, [])]"

definition file_packed :: "('a, 'c) pack_data \<Rightarrow> seafile_crypt option \<Rightarrow> string \<Rightarrow> dirent \<Rightarrow> (arch_entry \<times> bytes) list" where
  "file_packed D cr path e =
     (case get_file (pe_view D) (d_id e) of
        Some f \<Rightarrow>
          (case file_content D cr f of
             Some x \<Rightarrow> [(\<lparr>ae_pathname = in_archive D path, ae_mode = d_mode e OR 0x1A4, ae_size = file_size f,
               ae_mtime = pe_mtime D\<rparr>, take (unat (file_size f)) x)]
           | None \<Rightarrow> [])
      | None \<Rightarrow> [])"

definition packed :: "('a, 'c) pack_data \<Rightarrow> seafile_crypt option \<Rightarrow> string \<times> dirent \<Rightarrow> (arch_entry \<times> bytes) list" where
  "packed D cr pe =
     (case pe of (path, e) \<Rightarrow>
        if S_ISREG (d_mode e) \<or> S_ISLNK (d_mode e) \<and> 3000001 \<le> ar_version (pe_archiver D) then file_packed D cr path e
        else if S_ISDIR (d_mode e) \<and> map_option entries (get_dir (pe_view D) (d_id e)) = Some [] then dir_packed D path
        else [])"

text \<open>The sound environments of the following lemmas, and paths as the functions build them.\<close>

definition pack_ok :: "('a, 'c) pack_data \<Rightarrow> ('a \<Rightarrow> (arch_entry \<times> bytes) list) \<Rightarrow> seafile_crypt option \<Rightarrow> bool" where
  "pack_ok D view cr \<longleftrightarrow> archiver_ok (pe_archiver D) view \<and> blocks_small (pe_blocks D) \<and>
     decipher_ok (pe_crypt D) cr \<and> build_ok (pe_build D) \<and> slash_free_ends (pe_top D) \<and> pe_top D \<noteq> []"

definition elem_ok :: "string \<Rightarrow> bool" where
  "elem_ok x \<longleftrightarrow> x \<noteq> [] \<and> slash_free_ends x"

definition path_ok :: "string \<Rightarrow> bool" where
  "path_ok p \<longleftrightarrow> p = [] \<or> (\<exists>q. p = CHR ''/'' # q \<and> elem_ok q)"

lemma path_ok_sub: "path_ok p \<Longrightarrow> elem_ok x \<Longrightarrow> path_ok (p @ ''/'' @ x)"
  by (auto simp: path_ok_def elem_ok_def slash_free_ends_def)

lemma build_paths:
  assumes "pack_ok D view cr" "path_ok p" "elem_ok x"
  shows "pe_build D [pe_top D, drop 1 p, x] = pe_top D @ p @ ''/'' @ x"
    "pe_build D [drop 1 p, x] = drop 1 (p @ ''/'' @ x)"
    "pe_build D [pe_top D, drop 1 p] = pe_top D @ p"
  using assms by (auto simp: pack_ok_def path_ok_def elem_ok_def build_ok_def slash_free_ends_def)

lemma archive_file_packed:
  assumes ok: "pack_ok D view cr" "path_ok p" "elem_ok (d_name e)"
    and run: "archive_file D (drop 1 p) e st = (r, st')" "0 \<le> r"
  shows "view (ps_archive st') = view (ps_archive st) @ file_packed D cr (p @ ''/'' @ d_name e) e"
    "ps_zipped st' = ps_zipped st" "r = 0"
proof -
  obtain a where a: "add_file_to_archive D (drop 1 p) e (ps_archive st) = (r, a)" "st' = with_archive st a"
    using run(1) by (auto simp: archive_file_def split: prod.splits)
  from ok(1) have A: "archiver_ok (pe_archiver D) view" "blocks_small (pe_blocks D)" "decipher_ok (pe_crypt D) cr"
    by (simp_all add: pack_ok_def)
  from add_file_archived [OF A a(1) run(2)] build_paths(1) [OF ok]
  show "view (ps_archive st') = view (ps_archive st) @ file_packed D cr (p @ ''/'' @ d_name e) e" "r = 0"
    by (auto simp: file_packed_def in_archive_def a(2) with_archive_def)
  show "ps_zipped st' = ps_zipped st" by (simp add: a(2) with_archive_def)
qed

lemma add_empty_dir_packed:
  assumes ok: "pack_ok D view cr" "path_ok p"
    and run: "add_empty_dir D (drop 1 p) a = (r, a')" "0 \<le> r"
  shows "view a' = view a @ dir_packed D p" "r = 0"
proof -
  have b: "pe_build D [pe_top D, drop 1 p] = pe_top D @ p"
    by (rule build_paths(3) [OF ok, of "''x''"]) (simp add: elem_ok_def slash_free_ends_def)
  have "archiver_ok (pe_archiver D) view" using ok by (simp add: pack_ok_def)
  with run b show "view a' = view a @ dir_packed D p" "r = 0"
    by (auto simp: add_empty_dir_def archiver_ok_def dir_packed_def in_archive_def
        split: option.splits prod.splits if_splits)
qed

text \<open>The number of files of a walk.\<close>

abbreviation n_files :: "(string \<times> dirent) list \<Rightarrow> u32" where
  "n_files l \<equiv> of_nat (length (regular_files l))"

definition root_packed :: "('a, 'c) pack_data \<Rightarrow> seafile_crypt option \<Rightarrow> string \<Rightarrow> (string \<times> dirent) list
    \<Rightarrow> (arch_entry \<times> bytes) list" where
  "root_packed D cr p l = (if l = [] then dir_packed D p else concat (map (packed D cr) l))"

definition elems_ok :: "(string \<times> dirent) list \<Rightarrow> bool" where
  "elems_ok l \<longleftrightarrow> (\<forall>(p, e)\<in>set l. elem_ok (d_name e))"

text \<open>One entry: what it adds to the archive and to the count of files.\<close>

lemma packed_sub:
  assumes "S_ISDIR (d_mode e)" "tree_entries n (pe_view D) p (d_id e) = Some sub"
  shows "packed D cr (p, e) @ concat (map (packed D cr) sub) = root_packed D cr p sub"
proof -
  obtain m dir where m: "get_dir (pe_view D) (d_id e) = Some dir" "collect_entries (tree_entries m (pe_view D)) p (entries dir) = Some sub"
    using assms(2) by (cases n) (auto split: option.splits)
  have "entries dir = [] \<longleftrightarrow> sub = []"
    using m(2) by (cases "entries dir") (auto split: option.splits)
  moreover have "\<not> S_ISREG (d_mode e)" "\<not> S_ISLNK (d_mode e)"
    using assms(1) by (auto simp: S_ISDIR_def S_ISREG_def S_ISLNK_def S_IFDIR_def S_IFREG_def S_IFLNK_def)
  ultimately show ?thesis using assms(1) m(1) by (simp add: packed_def root_packed_def)
qed

lemma archive_entries_packed:
  assumes ok: "pack_ok D view cr"
    and IH: "\<And>i p l st r st'. archive_dir n D i (drop 1 p) st = Some (r, st') \<Longrightarrow> 0 \<le> r \<Longrightarrow>
      tree_entries n (pe_view D) p i = Some l \<Longrightarrow> elems_ok l \<Longrightarrow> path_ok p \<Longrightarrow>
      view (ps_archive st') = view (ps_archive st) @ root_packed D cr p l \<and> ps_zipped st' = ps_zipped st + n_files l \<and> r = 0"
  shows "archive_entries (archive_dir n D) D (drop 1 p) es 0 st = Some (r, st') \<Longrightarrow> 0 \<le> r \<Longrightarrow>
    collect_entries (tree_entries n (pe_view D)) p es = Some l \<Longrightarrow> elems_ok l \<Longrightarrow> path_ok p \<Longrightarrow>
    view (ps_archive st') = view (ps_archive st) @ concat (map (packed D cr) l) \<and> ps_zipped st' = ps_zipped st + n_files l \<and> r = 0"
proof (induction es arbitrary: st l)
  case (Cons e es)
  let ?p = "p @ ''/'' @ d_name e"
  from Cons.prems(3) obtain sub rest where c: "collect_entries (tree_entries n (pe_view D)) p es = Some rest"
    "l = (?p, e) # sub @ rest"
    "if S_ISDIR (d_mode e) then tree_entries n (pe_view D) ?p (d_id e) = Some sub else sub = []"
    by (rule collect_entries_ConsE)
  have names: "elem_ok (d_name e)" "elems_ok sub" "elems_ok rest"
    using Cons.prems(4) c(2) by (auto simp: elems_ok_def)
  have p: "path_ok ?p" using path_ok_sub [OF Cons.prems(5) names(1)] .
  obtain b st1 where b: "check_canceled D st = (b, st1)" by fastforce
  have st1: "ps_archive st1 = ps_archive st" "ps_zipped st1 = ps_zipped st"
    using b by (auto simp: check_canceled_def)
  have nb: "\<not> b" using Cons.prems(1,2) b by auto
  obtain r2 st2 where step: "(if S_ISREG (d_mode e) then Some (count_zipped (archive_file D (drop 1 p) e st1))
        else if S_ISLNK (d_mode e) then
          (if ar_version (pe_archiver D) \<ge> 3000001 then Some (archive_file D (drop 1 p) e st1) else Some (0, st1))
        else if S_ISDIR (d_mode e) then archive_dir n D (d_id e) (pe_build D [drop 1 p, d_name e]) st1
        else Some (0, st1)) = Some (r2, st2)"
    and rest: "r2 \<ge> 0 \<Longrightarrow> archive_entries (archive_dir n D) D (drop 1 p) es r2 st2 = Some (r, st')"
    and r2: "0 \<le> r2"
    using Cons.prems(1,2) b nb by (simp split: option.splits prod.splits if_split_asm)
  have build: "pe_build D [drop 1 p, d_name e] = drop 1 ?p"
    by (rule build_paths(2) [OF ok Cons.prems(5) names(1)])
  have one: "view (ps_archive st2) = view (ps_archive st) @ packed D cr (?p, e) @ concat (map (packed D cr) sub) \<and>
      ps_zipped st2 = ps_zipped st + n_files ((?p, e) # sub) \<and> r2 = 0"
  proof (cases "S_ISDIR (d_mode e)")
    case True
    then have k: "\<not> S_ISREG (d_mode e)" "\<not> S_ISLNK (d_mode e)"
      by (auto simp: S_ISDIR_def S_ISREG_def S_ISLNK_def S_IFDIR_def S_IFREG_def S_IFLNK_def)
    have sub: "tree_entries n (pe_view D) ?p (d_id e) = Some sub" using c(3) True by simp
    have a: "archive_dir n D (d_id e) (drop 1 ?p) st1 = Some (r2, st2)" using step True k build by simp
    show ?thesis
      using IH [OF a r2 sub names(2) p] packed_sub [OF True sub, of cr] k st1 by (simp add: regular_files_def)
  next
    case False
    then have sub: "sub = []" using c(3) by simp
    obtain r3 st3 where f: "archive_file D (drop 1 p) e st1 = (r3, st3)" by fastforce
    note packed = archive_file_packed [OF ok Cons.prems(5) names(1) f]
    show ?thesis
      using step False sub f packed r2 st1
      by (auto simp: packed_def count_zipped_def regular_files_def split: if_splits)
  qed
  then have "archive_entries (archive_dir n D) D (drop 1 p) es 0 st2 = Some (r, st')" using rest by simp
  from Cons.IH [OF this Cons.prems(2) c(1) names(3) Cons.prems(5)] one
  show ?case by (simp add: c(2) regular_files_def)
qed (simp add: regular_files_def)

lemma archive_dir_packed:
  assumes ok: "pack_ok D view cr"
  shows "archive_dir n D i (drop 1 p) st = Some (r, st') \<Longrightarrow> 0 \<le> r \<Longrightarrow>
    tree_entries n (pe_view D) p i = Some l \<Longrightarrow> elems_ok l \<Longrightarrow> path_ok p \<Longrightarrow>
    view (ps_archive st') = view (ps_archive st) @ root_packed D cr p l \<and> ps_zipped st' = ps_zipped st + n_files l \<and> r = 0"
proof (induction n arbitrary: i p l st r st')
  case (Suc n)
  from Suc.prems(3) obtain dir where d: "get_dir (pe_view D) i = Some dir"
    "collect_entries (tree_entries n (pe_view D)) p (entries dir) = Some l" by (auto split: option.splits)
  show ?case
  proof (cases "entries dir = []")
    case True
    then obtain a where a: "add_empty_dir D (drop 1 p) (ps_archive st) = (r, a)" "st' = with_archive st a"
      using Suc.prems(1) d by (auto split: prod.splits)
    from add_empty_dir_packed [OF ok Suc.prems(5) a(1) Suc.prems(2)] d True show ?thesis
      by (simp add: a(2) with_archive_def root_packed_def regular_files_def)
  next
    case False
    then have run: "archive_entries (archive_dir n D) D (drop 1 p) (entries dir) 0 st = Some (r, st')"
      using Suc.prems(1) d by simp
    have "l \<noteq> []" using d(2) False by (cases "entries dir") (auto split: option.splits)
    with archive_entries_packed [OF ok Suc.IH run Suc.prems(2) d(2) Suc.prems(4,5)] show ?thesis
      by (simp add: root_packed_def)
  qed
qed simp

lemma pack_files_tree:
  assumes ok: "pack_ok D view cr"
    and run: "pack_files n D (PackDir i) st = Some (r, st')" "r = 0"
    and tree: "tree_entries n (pe_view D) [] i = Some l" "elems_ok l"
  shows "view (ps_archive st') = view (ps_archive st) @ root_packed D cr [] l"
    and "ps_zipped st' = ps_zipped st + of_nat (length (regular_files l))"
proof -
  have "pe_top D \<noteq> []" using ok by (simp add: pack_ok_def)
  then obtain r' where a: "archive_dir n D i (drop 1 []) st = Some (r', st')" "0 \<le> r'"
    using run by (auto simp: pack_files_def Let_def strcmp_def split: option.splits prod.splits if_splits)
  from archive_dir_packed [OF ok a tree] 
  show "view (ps_archive st') = view (ps_archive st) @ root_packed D cr [] l"
    "ps_zipped st' = ps_zipped st + of_nat (length (regular_files l))"
    by (simp_all add: path_ok_def)
qed

text \<open>When \<open>pack_files\<close> succeeds on a directory all of whose sub-directories can be read, the archive has got,
  in the order of the tree, every file under its path with the content its blocks hold (deciphered for
  an encrypted library) and an entry for every empty directory, nothing else, and the progress counted
  every regular file.\<close>

theorem pack_files_packs_tree:
  assumes ok: "pack_ok D view cr"
    and run: "pack_files n D (PackDir i) st = Some (r, st')" "r = 0"
    and tree: "tree_entries n (pe_view D) [] i = Some l" "elems_ok l"
  shows "view (ps_archive st') = view (ps_archive st) @ root_packed D cr [] l"
    and "ps_zipped st' = ps_zipped st + of_nat (length (regular_files l))"
  using pack_files_tree [OF assms] by blast+

text \<open>A sub-directory that cannot be read is left out, and the packing still succeeds.\<close>

lemma archive_dir_hides_missing:
  assumes "get_dir (pe_view D) i = Some dir" "entries dir = [e]" "S_ISDIR (d_mode e)"
    and "get_dir (pe_view D) (d_id e) = None" "\<not> pe_canceled D (ps_checks st)"
  shows "archive_dir (Suc (Suc n)) D i path st = Some (0, st\<lparr>ps_checks := ps_checks st + 1\<rparr>)"
proof -
  have "\<not> S_ISREG (d_mode e)" "\<not> S_ISLNK (d_mode e)"
    using assms(3) by (auto simp: S_ISDIR_def S_ISREG_def S_ISLNK_def S_IFDIR_def S_IFREG_def S_IFLNK_def)
  then show ?thesis using assms by (simp add: check_canceled_def)
qed

text \<open>The packing ends when the fuel exceeds the depth of the tree.\<close>

lemma archive_entries_returns:
  assumes "\<And>e path st. e \<in> set es \<Longrightarrow> S_ISDIR (d_mode e) \<Longrightarrow> walk (d_id e) path st \<noteq> None"
  shows "archive_entries walk D path es ret st \<noteq> None"
  using assms
proof (induction es arbitrary: ret st)
  case (Cons e es)
  have "archive_entries walk D path es ret st \<noteq> None" for ret st by (rule Cons.IH) (use Cons.prems in simp)
  then show ?case
    using Cons.prems [of e] by (auto simp del: not_None_eq split: prod.splits option.splits bool.splits if_splits)
qed simp

lemma archive_dir_returns: "dir_height n (pe_view D) i \<Longrightarrow> archive_dir n D i path st \<noteq> None"
proof (induction n arbitrary: i path st)
  case (Suc n)
  have "archive_entries (archive_dir n D) D path (entries dir) 0 st \<noteq> None" if "get_dir (pe_view D) i = Some dir" for dir
    by (rule archive_entries_returns) (use Suc that in auto)
  then show ?case by (auto split: option.splits prod.splits)
qed simp

section \<open>A small archive\<close>

text \<open>An archive as the list of its entries, and the file of \<open>demo_view\<close> with blocks of two and three bytes.\<close>

definition demo_archiver :: "(arch_entry \<times> bytes) list archiver" where
  "demo_archiver =
     \<lparr>ar_header = (\<lambda>e a. (True, a @ [(e, [])])),
      ar_data = (\<lambda>buf a. (int (length buf),
        butlast a @ [(fst (last a), take (unat (ae_size (fst (last a)))) (snd (last a) @ buf))])),
      ar_finish = (\<lambda>_. 0), ar_version = 0\<rparr>"

definition demo_pack :: "((arch_entry \<times> bytes) list, unit) pack_data" where
  "demo_pack =
     \<lparr>pe_libs = demo_libs JNull,
      pe_blocks = \<lparr>bk_dir = [], bk_files = (\<lambda>p.
          if p = get_block_path (demo_blocks\<lparr>bk_dir := []\<rparr>) demo_file_id [] then Some ''ab''
          else if p = get_block_path (demo_blocks\<lparr>bk_dir := []\<rparr>) demo_root_id [] then Some ''cde'' else None),
        bk_disk_ok = (\<lambda>_. True), bk_open_ok = (\<lambda>_. True), bk_read_ok = (\<lambda>_. True), bk_write_fails = (\<lambda>_. None)\<rparr>,
      pe_view = demo_view, pe_archiver = demo_archiver, pe_crypt = None, pe_top = ''top'', pe_windows = False,
      pe_encoding = None, pe_iconv = (\<lambda>_ _ _. None),
      pe_build = (\<lambda>xs. string_list_join (filter (\<lambda>x. x \<noteq> []) xs) ''/''), pe_mtime = 7, pe_canceled = (\<lambda>_. False)\<rparr>"

lemma demo_pack_ok: "pack_ok demo_pack (\<lambda>a. a) None"
  by (auto simp: pack_ok_def archiver_ok_def demo_pack_def demo_archiver_def blocks_small_def decipher_ok_def
      build_ok_def slash_free_ends_def)

lemma demo_pack_blocks:
  "seaf_block_manager_open_block (demo_libs JNull) (pe_blocks demo_pack) (fv_repo demo_view) demo_file_id BLOCK_READ
     = Some \<lparr>bh_store_id = [], bh_block_id = demo_file_id, bh_rw_type = BLOCK_READ, bh_data = ''ab'', bh_pos = 0\<rparr>"
  "seaf_block_manager_open_block (demo_libs JNull) (pe_blocks demo_pack) (fv_repo demo_view) demo_root_id BLOCK_READ
     = Some \<lparr>bh_store_id = [], bh_block_id = demo_root_id, bh_rw_type = BLOCK_READ, bh_data = ''cde'', bh_pos = 0\<rparr>"
  by (simp_all add: seaf_block_manager_open_block_def block_backend_fs_open_block_def demo_pack_def get_block_path_def
      demo_blocks_def demo_view_def) (simp_all add: demo_file_id_def demo_root_id_def)

lemma demo_pack_simps:
  "pe_libs demo_pack = demo_libs JNull" "pe_view demo_pack = demo_view"
  "pe_archiver demo_pack = demo_archiver" "pe_crypt demo_pack = None" "pe_top demo_pack = ''top''"
  "entry_name demo_pack p = Some p" "pe_mtime demo_pack = 7" "pe_canceled demo_pack k = False"
  "pe_build demo_pack xs = string_list_join (filter (\<lambda>x. x \<noteq> []) xs) ''/''" "bk_read_ok (pe_blocks demo_pack) i"
  "S_ISREG 0x81A4" "\<not> S_ISDIR 0x81A4"
  by (simp_all add: demo_pack_def demo_view_def entry_name_def S_ISREG_def S_ISDIR_def S_IFMT_def S_IFREG_def S_IFDIR_def)

lemma demo_archiver_simps:
  "ar_header demo_archiver e a = (True, a @ [(e, [])])" "ar_finish demo_archiver a = 0"
  "ar_data demo_archiver buf (a @ [(e, c)]) = (int (length buf), a @ [(e, take (unat (ae_size e)) (c @ buf))])"
  "ar_data demo_archiver buf [(e, c)] = (int (length buf), [(e, take (unat (ae_size e)) (c @ buf))])"
  by (simp_all add: demo_archiver_def)

lemma demo_add_file:
  "add_file_to_archive demo_pack [] (demo_dirent ''f'' 0x81A4) []
     = (0, [(\<lparr>ae_pathname = ''top/f'', ae_mode = 0x81A4, ae_size = 5, ae_mtime = 7\<rparr>, ''abcde'')])"
proof -
  have one: "block_to_archive (pe_blocks demo_pack) demo_archiver None h (of_nat (length (bh_data h))) (None :: unit option) a
      = (True, snd (ar_data demo_archiver (bh_data h) a))"
    if "bh_pos h = 0" "bh_data h \<noteq> []" "length (bh_data h) < 4" for h a
  proof -
    have "unat (of_nat (length (bh_data h)) :: u32) = length (bh_data h)"
      using that(3) by (simp add: unat_of_nat take_bit_nat_eq_self)
    then have nz: "(of_nat (length (bh_data h)) :: u32) \<noteq> 0" using that(2) by fastforce
    have r: "seaf_block_manager_read_block (pe_blocks demo_pack) h PACK_BUF
        = (Some (bh_data h), h\<lparr>bh_pos := length (bh_data h)\<rparr>)"
      using that by (simp add: seaf_block_manager_read_block_def block_backend_fs_read_block_def demo_pack_simps PACK_BUF_def Let_def)
    have z: "block_to_archive bs A crypt h 0 ctx a = (True, a)"
      for bs :: block_store and A :: "(arch_entry \<times> bytes) list archiver" and crypt :: "unit decipher option" and h ctx a
      by (subst block_to_archive.simps) simp
    show ?thesis
      using that(2) nz by (subst block_to_archive.simps) (simp add: r z write_piece_def demo_archiver_def)
  qed
  let ?h = "\<lambda>i d. \<lparr>bh_store_id = [], bh_block_id = i, bh_rw_type = BLOCK_READ, bh_data = d, bh_pos = 0\<rparr>"
  have "block_to_archive (pe_blocks demo_pack) demo_archiver None (?h demo_file_id ''ab'') 2 (None :: unit option) a
      = (True, snd (ar_data demo_archiver ''ab'' a))"
    "block_to_archive (pe_blocks demo_pack) demo_archiver None (?h demo_root_id ''cde'') 3 (None :: unit option) a
      = (True, snd (ar_data demo_archiver ''cde'' a))" for a
    using one [of "?h demo_file_id ''ab''"] one [of "?h demo_root_id ''cde''"] by simp_all
  then show ?thesis
    using demo_pack_blocks
    by (simp add: add_file_to_archive_def demo_pack_simps demo_archiver_simps demo_dirent_def
        block_backend_fs_stat_block_by_handle_def Let_def flip: demo_file_id_def)
qed

theorem pack_files_packs_tree_witness:
  "\<exists>st'. pack_files 1 demo_pack (PackDir demo_root_id) \<lparr>ps_archive = [], ps_zipped = 0, ps_checks = 0\<rparr> = Some (0, st') \<and>
     ps_archive st' = [(\<lparr>ae_pathname = ''top/f'', ae_mode = 0x81A4, ae_size = 5, ae_mtime = 7\<rparr>, ''abcde'')] \<and>
     ps_zipped st' = 1"
proof -
  let ?st = "\<lparr>ps_archive = [], ps_zipped = 0, ps_checks = 0\<rparr>"
  have mode: "d_mode (demo_dirent ''f'' 0x81A4) = 0x81A4" by (simp add: demo_dirent_def)
  have "\<exists>st'. pack_files 1 demo_pack (PackDir demo_root_id) ?st = Some (0, st')"
    by (simp add: pack_files_def demo_pack_simps check_canceled_def count_zipped_def archive_file_def demo_add_file
        with_archive_def mode demo_archiver_simps)
  then obtain st' where run: "pack_files 1 demo_pack (PackDir demo_root_id) ?st = Some (0, st')" ..
  have tree: "tree_entries 1 (pe_view demo_pack) [] demo_root_id = Some [(''/f'', demo_dirent ''f'' 0x81A4)]"
    by (simp add: demo_pack_simps demo_dirent_def)
  have elems: "elems_ok [(''/f'', demo_dirent ''f'' 0x81A4)]"
    by (simp add: elems_ok_def elem_ok_def slash_free_ends_def demo_dirent_def)
  have "file_content demo_pack None \<lparr>sf_version = 0, file_id = demo_file_id, file_size = 5,
      blk_sha1s = [demo_file_id, demo_root_id]\<rparr> = Some ''abcde''"
    using demo_pack_blocks
    by (simp add: file_content_def checkout_block_def demo_pack_simps block_backend_fs_stat_block_by_handle_def
        seaf_block_manager_read_block_def block_backend_fs_read_block_def Let_def)
  then show ?thesis
    using pack_files_packs_tree [OF demo_pack_ok run refl tree elems] run
    by (simp add: root_packed_def packed_def file_packed_def in_archive_def demo_pack_simps demo_dirent_def
        regular_files_def flip: demo_file_id_def)
qed

end
