(* ===== verification/Crypt.thy ===== *)
theory Crypt
  imports FileIndex
begin

text \<open>
  Encrypted libraries (\<open>common/seafile-crypt.c\<close>): keys derived from passwords, the random key that is
  stored encrypted with one, and the ciphers of the blocks.  OpenSSL is a parameter.
\<close>

section \<open>OpenSSL\<close>

datatype evp_cipher = AES_128_CBC | AES_128_ECB | AES_256_CBC

text \<open>
  \<open>PKCS5_PBKDF2_HMAC\<close> with SHA-256 (data, salt, iterations, length), \<open>EVP_BytesToKey\<close> with SHA-1 (cipher,
  salt, data, iterations; the key and the initial vector, as long as the cipher's), and the
  contexts of \<open>EVP_EncryptInit_ex\<close>/\<open>Update\<close>/\<open>Final_ex\<close> and their counterparts.  \<open>os_stack n\<close> is what an
  uninitialised buffer of \<open>n\<close> bytes holds.
\<close>

record 'c openssl =
  os_pbkdf2 :: "bytes \<Rightarrow> bytes \<Rightarrow> nat \<Rightarrow> nat \<Rightarrow> bytes"
  os_bytes_to_key :: "evp_cipher \<Rightarrow> bytes option \<Rightarrow> bytes \<Rightarrow> nat \<Rightarrow> bytes \<times> bytes"
  os_enc_init :: "evp_cipher \<Rightarrow> bytes \<Rightarrow> bytes \<Rightarrow> 'c option"
  os_enc_update :: "'c \<Rightarrow> bytes \<Rightarrow> (bytes \<times> 'c) option"
  os_enc_final :: "'c \<Rightarrow> bytes option"
  os_dec_init :: "evp_cipher \<Rightarrow> bytes \<Rightarrow> bytes \<Rightarrow> 'c option"
  os_dec_update :: "'c \<Rightarrow> bytes \<Rightarrow> (bytes \<times> 'c) option"
  os_dec_final :: "'c \<Rightarrow> bytes option"
  os_stack :: "nat \<Rightarrow> bytes"

section \<open>Keys\<close>

definition KEYGEN_ITERATION :: nat where "KEYGEN_ITERATION = 2 ^ 19"
definition KEYGEN_ITERATION2 :: nat where "KEYGEN_ITERATION2 = 1000"

definition fixed_salt :: bytes where
  "fixed_salt = [CHR 0xDA, CHR 0x90, CHR 0x45, CHR 0xC3, CHR 0x06, CHR 0xC7, CHR 0xCC, CHR 0x26]"

text \<open>\<open>SeafileCrypt\<close>: the buffers of 32 and 16 bytes start as zeros.\<close>

record crypt_info =
  sc_version :: int
  sc_key :: bytes
  sc_iv :: bytes

definition copy_bytes :: "nat \<Rightarrow> bytes \<Rightarrow> bytes \<Rightarrow> bytes" where
  "copy_bytes n src dst = take n src @ drop n dst"

definition seafile_crypt_new :: "int \<Rightarrow> bytes \<Rightarrow> bytes \<Rightarrow> crypt_info" where
  "seafile_crypt_new version key iv =
     \<lparr>sc_version = version,
      sc_key = (if version = 1 then copy_bytes 16 key (replicate 32 (CHR 0x00))
                else copy_bytes 32 key (replicate 32 (CHR 0x00))),
      sc_iv = copy_bytes 16 iv (replicate 16 (CHR 0x00))\<rparr>"

text \<open>The buffer after \<open>hex_to_rawdata\<close>, whose failure is not looked at.\<close>

fun hex_to_buf :: "nat \<Rightarrow> string \<Rightarrow> bytes \<Rightarrow> bytes" where
  "hex_to_buf 0 s b = b"
| "hex_to_buf (Suc n) s b =
     (let val = push_bit 4 (hexval (char_at s 0)) OR hexval (char_at s 1)
      in if val AND NOT 0xFF \<noteq> 0 then b
         else char_of (unat val) # hex_to_buf n (drop 2 s) (drop 1 b))"

text \<open>The buffers of the key and the vector are what they were where nothing is written.\<close>

definition seafile_derive_key ::
    "'c openssl \<Rightarrow> bytes \<Rightarrow> int \<Rightarrow> string \<Rightarrow> bytes \<times> bytes \<Rightarrow> bytes \<times> bytes" where
  "seafile_derive_key ssl data_in version repo_salt out =
     (let pbkdf = (\<lambda>salt. let key = os_pbkdf2 ssl data_in salt KEYGEN_ITERATION2 32
                           in (key, os_pbkdf2 ssl key salt 10 16));
          keys = (\<lambda>(key, iv). (copy_bytes (length key) key (fst out), copy_bytes (length iv) iv (snd out)))
      in if version \<ge> 3 then pbkdf (hex_to_buf 32 repo_salt (os_stack ssl 32))
         else if version = 2 then pbkdf fixed_salt
         else if version = 1 then keys (os_bytes_to_key ssl AES_128_CBC (Some fixed_salt) data_in KEYGEN_ITERATION)
         else keys (os_bytes_to_key ssl AES_128_ECB None data_in 3))"

definition on_stack :: "'c openssl \<Rightarrow> bytes \<times> bytes" where
  "on_stack ssl = (os_stack ssl 32, os_stack ssl 16)"

text \<open>\<open>RAND_bytes\<close> gave the argument; None is its failure.\<close>

definition seafile_generate_repo_salt :: "bytes option \<Rightarrow> string option" where
  "seafile_generate_repo_salt rand = map_option (\<lambda>b. rawdata_to_hex (take 32 b)) rand"

definition seafile_generate_magic :: "'c openssl \<Rightarrow> int \<Rightarrow> string \<Rightarrow> string \<Rightarrow> string \<Rightarrow> string" where
  "seafile_generate_magic ssl version repo_id passwd repo_salt =
     rawdata_to_hex (take 32 (fst (seafile_derive_key ssl (repo_id @ passwd) version repo_salt (on_stack ssl))))"

definition seafile_verify_repo_passwd ::
    "'c openssl \<Rightarrow> string \<Rightarrow> string \<Rightarrow> string \<Rightarrow> int \<Rightarrow> string \<Rightarrow> int" where
  "seafile_verify_repo_passwd ssl repo_id passwd magic version repo_salt =
     (if version \<noteq> 1 \<and> version \<noteq> 2 \<and> version \<noteq> 3 \<and> version \<noteq> 4 then -1
      else (let key = fst (seafile_derive_key ssl (repo_id @ passwd) version repo_salt (on_stack ssl));
                hex = (if version \<ge> 2 then rawdata_to_hex (take 32 key) else rawdata_to_hex (take 16 key))
            in if strcmp hex magic = 0 then 0 else -1))"

section \<open>Ciphers\<close>

definition data_cipher :: "int \<Rightarrow> evp_cipher" where
  "data_cipher version = (if version = 1 then AES_128_CBC else if version = 3 then AES_128_ECB else AES_256_CBC)"

text \<open>None is the return value -1.\<close>

definition seafile_encrypt :: "'c openssl \<Rightarrow> crypt_info \<Rightarrow> bytes \<Rightarrow> bytes option" where
  "seafile_encrypt ssl crypt data_in =
     (if data_in = [] then None
      else (case os_enc_init ssl (data_cipher (sc_version crypt)) (sc_key crypt) (sc_iv crypt) of
              None \<Rightarrow> None
            | Some ctx \<Rightarrow>
                (let blks = length data_in div ENCRYPT_BLK_SIZE + 1 in
                 case os_enc_update ssl ctx data_in of
                   None \<Rightarrow> None
                 | Some (upd, ctx) \<Rightarrow>
                     (case os_enc_final ssl ctx of
                        None \<Rightarrow> None
                      | Some fin \<Rightarrow>
                          if length (upd @ fin) \<noteq> blks * ENCRYPT_BLK_SIZE then None else Some (upd @ fin)))))"

definition seafile_decrypt :: "'c openssl \<Rightarrow> crypt_info \<Rightarrow> bytes \<Rightarrow> bytes option" where
  "seafile_decrypt ssl crypt data_in =
     (if data_in = [] \<or> length data_in mod ENCRYPT_BLK_SIZE \<noteq> 0 then None
      else (case os_dec_init ssl (data_cipher (sc_version crypt)) (sc_key crypt) (sc_iv crypt) of
              None \<Rightarrow> None
            | Some ctx \<Rightarrow>
                (case os_dec_update ssl ctx data_in of
                   None \<Rightarrow> None
                 | Some (upd, ctx) \<Rightarrow>
                     (case os_dec_final ssl ctx of
                        None \<Rightarrow> None
                      | Some fin \<Rightarrow> if length (upd @ fin) > length data_in then None else Some (upd @ fin)))))"

definition stream_cipher :: "int \<Rightarrow> evp_cipher" where
  "stream_cipher version = (if version \<ge> 2 then AES_256_CBC else if version = 1 then AES_128_CBC else AES_128_ECB)"

definition seafile_decrypt_init :: "'c openssl \<Rightarrow> int \<Rightarrow> bytes \<Rightarrow> bytes \<Rightarrow> 'c option" where
  "seafile_decrypt_init ssl version key iv = os_dec_init ssl (stream_cipher version) key iv"

section \<open>The random key\<close>

text \<open>
  The outer None is a failed encryption, whose result the code reads all the same; the inner None the
  return value -1.
\<close>

definition seafile_generate_random_key ::
    "'c openssl \<Rightarrow> bytes option \<Rightarrow> string \<Rightarrow> int \<Rightarrow> string \<Rightarrow> string option option" where
  "seafile_generate_random_key ssl rand passwd version repo_salt =
     (case rand of
        None \<Rightarrow> Some None
      | Some secret_key \<Rightarrow>
          (let (key, iv) = seafile_derive_key ssl passwd version repo_salt (on_stack ssl) in
           case seafile_encrypt ssl (seafile_crypt_new version key iv) (take 32 secret_key) of
             None \<Rightarrow> None
           | Some rand_key \<Rightarrow> Some (Some (rawdata_to_hex (take 48 rand_key)))))"

text \<open>The first 32 bytes of a decrypted key; its buffer of 48 bytes is not initialised.\<close>

definition read_key :: "'c openssl \<Rightarrow> bytes \<Rightarrow> bytes" where
  "read_key ssl dec = take 32 (copy_bytes (length dec) dec (os_stack ssl 48))"

definition seafile_decrypt_repo_enc_key ::
    "'c openssl \<Rightarrow> int \<Rightarrow> string \<Rightarrow> string \<Rightarrow> string \<Rightarrow> bytes \<times> bytes \<Rightarrow> (bytes \<times> bytes) option" where
  "seafile_decrypt_repo_enc_key ssl enc_version passwd random_key repo_salt out =
     (let (key, iv) = seafile_derive_key ssl passwd enc_version repo_salt (on_stack ssl) in
      if enc_version = 1 then Some (copy_bytes 16 key (fst out), copy_bytes 16 iv (snd out))
      else if enc_version \<ge> 2 then
        (if random_key = [] then None
         else (case seafile_decrypt ssl (seafile_crypt_new enc_version key iv) (hex_to_buf 48 random_key (os_stack ssl 48)) of
                 None \<Rightarrow> None
               | Some dec_random_key \<Rightarrow>
                   (let (key, iv) = seafile_derive_key ssl (read_key ssl dec_random_key) enc_version repo_salt (key, iv)
                    in Some (copy_bytes 32 key (fst out), copy_bytes 16 iv (snd out)))))
      else None)"

definition seafile_update_random_key ::
    "'c openssl \<Rightarrow> string \<Rightarrow> string \<Rightarrow> string \<Rightarrow> int \<Rightarrow> string \<Rightarrow> string option option" where
  "seafile_update_random_key ssl old_passwd old_random_key new_passwd enc_version repo_salt =
     (let (key, iv) = seafile_derive_key ssl old_passwd enc_version repo_salt (on_stack ssl) in
      case seafile_decrypt ssl (seafile_crypt_new enc_version key iv) (hex_to_buf 48 old_random_key (os_stack ssl 48)) of
        None \<Rightarrow> Some None
      | Some secret_key \<Rightarrow>
          (let (key, iv) = seafile_derive_key ssl new_passwd enc_version repo_salt (key, iv) in
           case seafile_encrypt ssl (seafile_crypt_new enc_version key iv) secret_key of
             None \<Rightarrow> None
           | Some new_random_key_raw \<Rightarrow> Some (Some (rawdata_to_hex (take 48 new_random_key_raw)))))"

section \<open>Blocks of an encrypted library\<close>

text \<open>
  Documented behaviour of OpenSSL: what one context encrypted at once another of the same cipher, key
  and vector decrypts; padded data is a whole number of blocks; feeding a context piece by piece gives
  the same bytes; derived keys have the length asked for.
\<close>

definition enc_once :: "'c openssl \<Rightarrow> evp_cipher \<Rightarrow> bytes \<Rightarrow> bytes \<Rightarrow> bytes \<Rightarrow> bytes option" where
  "enc_once ssl a key iv x =
     (case os_enc_init ssl a key iv of
        None \<Rightarrow> None
      | Some ctx \<Rightarrow>
          (case os_enc_update ssl ctx x of
             None \<Rightarrow> None
           | Some (u, ctx) \<Rightarrow> map_option (append u) (os_enc_final ssl ctx)))"

fun dec_pieces :: "'c openssl \<Rightarrow> 'c \<Rightarrow> bytes list \<Rightarrow> bytes option" where
  "dec_pieces ssl ctx [] = os_dec_final ssl ctx"
| "dec_pieces ssl ctx (p # ps) =
     (case os_dec_update ssl ctx p of
        None \<Rightarrow> None
      | Some (u, ctx) \<Rightarrow> map_option (append u) (dec_pieces ssl ctx ps))"

definition dec_once :: "'c openssl \<Rightarrow> evp_cipher \<Rightarrow> bytes \<Rightarrow> bytes \<Rightarrow> bytes list \<Rightarrow> bytes option" where
  "dec_once ssl a key iv ps = (case os_dec_init ssl a key iv of None \<Rightarrow> None | Some ctx \<Rightarrow> dec_pieces ssl ctx ps)"

definition openssl_ok :: "'c openssl \<Rightarrow> bool" where
  "openssl_ok ssl \<longleftrightarrow>
     (\<forall>a key iv x y. enc_once ssl a key iv x = Some y \<longrightarrow> dec_once ssl a key iv [y] = Some x) \<and>
     (\<forall>a key iv ps x. ps \<noteq> [] \<longrightarrow> [] \<notin> set ps \<longrightarrow> dec_once ssl a key iv ps = Some x \<longrightarrow>
        dec_once ssl a key iv [concat ps] = Some x \<and> length (concat ps) mod ENCRYPT_BLK_SIZE = 0 \<and>
        length x \<le> length (concat ps)) \<and>
     (\<forall>d s i n. length (os_pbkdf2 ssl d s i n) = n) \<and> (\<forall>n. length (os_stack ssl n) = n)"

lemma seafile_encryptE:
  assumes "seafile_encrypt ssl c x = Some y"
  shows "x \<noteq> []" "enc_once ssl (data_cipher (sc_version c)) (sc_key c) (sc_iv c) x = Some y"
    "length y = (length x div ENCRYPT_BLK_SIZE + 1) * ENCRYPT_BLK_SIZE"
  using assms by (auto simp: seafile_encrypt_def enc_once_def Let_def split: if_splits option.splits)

lemma seafile_decrypt_once:
  assumes "y \<noteq> []" "length y mod ENCRYPT_BLK_SIZE = 0"
  shows "seafile_decrypt ssl c y =
    (case dec_once ssl (data_cipher (sc_version c)) (sc_key c) (sc_iv c) [y] of
       None \<Rightarrow> None | Some x \<Rightarrow> if length x > length y then None else Some x)"
  using assms by (auto simp: seafile_decrypt_def dec_once_def split: option.splits)

lemma seafile_decrypt_encrypt:
  assumes ok: "openssl_ok ssl" and e: "seafile_encrypt ssl c x = Some y"
  shows "seafile_decrypt ssl c y = Some x"
proof -
  note E = seafile_encryptE [OF e]
  have y: "y \<noteq> []" "length y mod ENCRYPT_BLK_SIZE = 0"
    using E(3) by (auto simp: ENCRYPT_BLK_SIZE_def)
  have d: "dec_once ssl (data_cipher (sc_version c)) (sc_key c) (sc_iv c) [y] = Some x"
    using ok E(2) by (auto simp: openssl_ok_def)
  have "length x \<le> length y"
    unfolding E(3) ENCRYPT_BLK_SIZE_def by presburger
  then show ?thesis by (simp add: seafile_decrypt_once [OF y] d)
qed

text \<open>What indexing and checking out a file of the library use.\<close>

definition file_crypt :: "'c openssl \<Rightarrow> crypt_info \<Rightarrow> seafile_crypt" where
  "file_crypt ssl c = \<lparr>cr_encrypt = seafile_encrypt ssl c, cr_decrypt = seafile_decrypt ssl c\<rparr>"

lemma file_crypt_ok:
  assumes "openssl_ok ssl"
  shows "crypt_ok (Some (file_crypt ssl c))"
proof -
  have "seafile_decrypt ssl c y = Some x \<and> y \<noteq> [] \<and> length y mod ENCRYPT_BLK_SIZE = 0 \<and>
      length y \<le> length x + ENCRYPT_BLK_SIZE" if e: "seafile_encrypt ssl c x = Some y" for x y
  proof -
    note l = seafile_encryptE(3) [OF e]
    have "y \<noteq> []" "length y mod ENCRYPT_BLK_SIZE = 0" "length y \<le> length x + ENCRYPT_BLK_SIZE"
      using l by (auto simp: ENCRYPT_BLK_SIZE_def)
    then show ?thesis using seafile_decrypt_encrypt [OF assms e] by blast
  qed
  then show ?thesis by (auto simp: crypt_ok_def file_crypt_def)
qed

section \<open>Passwords\<close>

lemma length_copy_bytes [simp]: "length (copy_bytes n a b) = min (length a) n + (length b - n)"
  by (simp add: copy_bytes_def)

lemma copy_bytes_all: "length a = n \<Longrightarrow> length b = n \<Longrightarrow> copy_bytes n a b = a"
  by (simp add: copy_bytes_def)

lemma hex_to_buf_ok: "hex_to_rawdata n s = Some r \<Longrightarrow> length b = n \<Longrightarrow> hex_to_buf n s b = r"
proof (induction n arbitrary: s r b)
  case (Suc n)
  then obtain r' where "hex_to_rawdata n (drop 2 s) = Some r'"
    "r = char_of (unat (push_bit 4 (hexval (char_at s 0)) OR hexval (char_at s 1))) # r'"
    "\<not> (push_bit 4 (hexval (char_at s 0)) OR hexval (char_at s 1)) AND NOT 0xFF \<noteq> 0"
    by (auto simp: Let_def split: if_splits option.splits)
  then show ?case using Suc.IH [of "drop 2 s" r' "drop 1 b"] Suc.prems(2) by (simp add: Let_def)
qed simp

text \<open>A password's key for the versions with a random key: what the buffers held does not matter.\<close>

lemma derive_key_fresh:
  assumes "2 \<le> version"
  shows "seafile_derive_key ssl d version repo_salt out = seafile_derive_key ssl d version repo_salt out'"
  using assms by (simp add: seafile_derive_key_def Let_def)

lemma derive_key_lengths:
  assumes "openssl_ok ssl" "2 \<le> version"
  shows "length (fst (seafile_derive_key ssl d version repo_salt out)) = 32"
    "length (snd (seafile_derive_key ssl d version repo_salt out)) = 16"
  using assms by (simp_all add: seafile_derive_key_def Let_def openssl_ok_def)

text \<open>The cipher of a password, and the key of the data that a secret gives.\<close>

definition passwd_crypt :: "'c openssl \<Rightarrow> string \<Rightarrow> int \<Rightarrow> string \<Rightarrow> crypt_info" where
  "passwd_crypt ssl passwd version repo_salt =
     (let (key, iv) = seafile_derive_key ssl passwd version repo_salt (on_stack ssl)
      in seafile_crypt_new version key iv)"

definition data_key :: "'c openssl \<Rightarrow> bytes \<Rightarrow> int \<Rightarrow> string \<Rightarrow> bytes \<times> bytes" where
  "data_key ssl secret version repo_salt = seafile_derive_key ssl secret version repo_salt (on_stack ssl)"

text \<open>A random key that holds a secret under a password.\<close>

definition holds_secret :: "'c openssl \<Rightarrow> int \<Rightarrow> string \<Rightarrow> string \<Rightarrow> string \<Rightarrow> bytes \<Rightarrow> bool" where
  "holds_secret ssl version repo_salt passwd random_key secret \<longleftrightarrow>
     (\<exists>y. seafile_encrypt ssl (passwd_crypt ssl passwd version repo_salt) secret = Some y \<and> length y = 48 \<and>
        random_key = rawdata_to_hex y)"

lemma holds_secret_decrypt:
  assumes ok: "openssl_ok ssl" and h: "holds_secret ssl version repo_salt passwd random_key secret"
  shows "seafile_decrypt ssl (passwd_crypt ssl passwd version repo_salt) (hex_to_buf 48 random_key (os_stack ssl 48)) = Some secret"
    "random_key \<noteq> []"
proof -
  obtain y where y: "seafile_encrypt ssl (passwd_crypt ssl passwd version repo_salt) secret = Some y" "length y = 48"
    "random_key = rawdata_to_hex y" using h by (auto simp: holds_secret_def)
  have "hex_to_rawdata 48 random_key = Some y"
    using hex_to_rawdata_append [of y "[]"] y(2,3) by simp
  then have "hex_to_buf 48 random_key (os_stack ssl 48) = y"
    using ok by (intro hex_to_buf_ok) (simp_all add: openssl_ok_def)
  then show "seafile_decrypt ssl (passwd_crypt ssl passwd version repo_salt) (hex_to_buf 48 random_key (os_stack ssl 48)) = Some secret"
    using seafile_decrypt_encrypt [OF ok y(1)] by simp
  show "random_key \<noteq> []" using y(2,3) length_rawdata_to_hex [of y] by fastforce
qed

lemma generated_key_holds:
  assumes ok: "openssl_ok ssl" and "length secret = 32"
    and g: "seafile_generate_random_key ssl (Some secret) passwd version repo_salt = Some (Some random_key)"
  shows "holds_secret ssl version repo_salt passwd random_key secret"
proof -
  obtain y where y: "seafile_encrypt ssl (passwd_crypt ssl passwd version repo_salt) secret = Some y"
    "random_key = rawdata_to_hex (take 48 y)"
    using g assms(2) by (auto simp: seafile_generate_random_key_def passwd_crypt_def Let_def split: prod.splits option.splits)
  have "length y = 48" using seafile_encryptE(3) [OF y(1)] assms(2) by (simp add: ENCRYPT_BLK_SIZE_def)
  with y show ?thesis by (simp add: holds_secret_def)
qed

text \<open>Decrypting the random key with the password gives the key of the data.\<close>

lemma decrypt_repo_enc_key_secret:
  assumes ok: "openssl_ok ssl" and v: "2 \<le> version" and h: "holds_secret ssl version repo_salt passwd random_key secret"
    and len: "length secret = 32" "length (fst out) = 32" "length (snd out) = 16"
  shows "seafile_decrypt_repo_enc_key ssl version passwd random_key repo_salt out = Some (data_key ssl secret version repo_salt)"
proof -
  obtain key iv where k: "seafile_derive_key ssl passwd version repo_salt (on_stack ssl) = (key, iv)" by fastforce
  obtain key' iv' where k': "seafile_derive_key ssl secret version repo_salt (on_stack ssl) = (key', iv')" by fastforce
  have "length key' = 32" "length iv' = 16"
    using derive_key_lengths [OF ok v, of secret repo_salt "on_stack ssl"] k' by simp_all
  moreover have "seafile_derive_key ssl secret version repo_salt (key, iv) = (key', iv')"
    using derive_key_fresh [OF v] k' by metis
  moreover have "read_key ssl secret = secret"
    using len(1) by (simp add: read_key_def copy_bytes_def)
  ultimately show ?thesis
    using holds_secret_decrypt [OF ok h] v len k k'
    by (simp add: seafile_decrypt_repo_enc_key_def passwd_crypt_def data_key_def copy_bytes_def)
qed

text \<open>Changing the password keeps the secret.\<close>

lemma update_random_key_holds:
  assumes ok: "openssl_ok ssl" and v: "2 \<le> version" and h: "holds_secret ssl version repo_salt old_passwd old_key secret"
    and len: "length secret = 32"
    and u: "seafile_update_random_key ssl old_passwd old_key new_passwd version repo_salt = Some (Some new_key)"
  shows "holds_secret ssl version repo_salt new_passwd new_key secret"
proof -
  obtain key iv where k: "seafile_derive_key ssl old_passwd version repo_salt (on_stack ssl) = (key, iv)" by fastforce
  have n: "seafile_derive_key ssl new_passwd version repo_salt (key, iv)
      = seafile_derive_key ssl new_passwd version repo_salt (on_stack ssl)"
    by (rule derive_key_fresh [OF v])
  obtain y where y: "seafile_encrypt ssl (passwd_crypt ssl new_passwd version repo_salt) secret = Some y"
    "new_key = rawdata_to_hex (take 48 y)"
    using u holds_secret_decrypt [OF ok h] k n
    by (auto simp: seafile_update_random_key_def passwd_crypt_def split: prod.splits option.splits)
  have "length y = 48" using seafile_encryptE(3) [OF y(1)] len by (simp add: ENCRYPT_BLK_SIZE_def)
  with y show ?thesis by (simp add: holds_secret_def)
qed

text \<open>C30: the key that encrypts the blocks of a library is the same before and after a change of the password:
  decrypting the generated random key with the old password and decrypting the updated one with the new
  password give the key derived from the secret that was drawn when the library was created.\<close>

theorem password_change_keeps_data_key:
  assumes "openssl_ok ssl" "2 \<le> version" "length secret = 32" "length (fst out) = 32" "length (snd out) = 16"
    and "seafile_generate_random_key ssl (Some secret) old_passwd version repo_salt = Some (Some old_key)"
    and "seafile_update_random_key ssl old_passwd old_key new_passwd version repo_salt = Some (Some new_key)"
  shows "seafile_decrypt_repo_enc_key ssl version old_passwd old_key repo_salt out = Some (data_key ssl secret version repo_salt) \<and>
    seafile_decrypt_repo_enc_key ssl version new_passwd new_key repo_salt out = Some (data_key ssl secret version repo_salt)"
proof (intro conjI)
  have old: "holds_secret ssl version repo_salt old_passwd old_key secret"
    by (rule generated_key_holds [OF assms(1,3,6)])
  have new: "holds_secret ssl version repo_salt new_passwd new_key secret"
    by (rule update_random_key_holds [OF assms(1,2) old assms(3,7)])
  show "seafile_decrypt_repo_enc_key ssl version old_passwd old_key repo_salt out = Some (data_key ssl secret version repo_salt)"
    by (rule decrypt_repo_enc_key_secret [OF assms(1,2) old assms(3-5)])
  show "seafile_decrypt_repo_enc_key ssl version new_passwd new_key repo_salt out = Some (data_key ssl secret version repo_salt)"
    by (rule decrypt_repo_enc_key_secret [OF assms(1,2) new assms(3-5)])
qed

text \<open>The magic of a library verifies its password; for version 1 it never does as it is generated.\<close>

lemma magic_verifies:
  assumes "version = 2 \<or> version = 3 \<or> version = 4"
  shows "seafile_verify_repo_passwd ssl repo passwd (seafile_generate_magic ssl version repo passwd repo_salt) version repo_salt = 0"
  using assms by (auto simp: seafile_verify_repo_passwd_def seafile_generate_magic_def Let_def)

lemma magic_v1_never_verifies:
  assumes "\<And>n. length (os_stack ssl n) = n" "\<And>s d i. length (fst (os_bytes_to_key ssl AES_128_CBC s d i)) = 16"
  shows "seafile_verify_repo_passwd ssl repo passwd (seafile_generate_magic ssl 1 repo passwd repo_salt) 1 repo_salt = -1"
proof -
  let ?k = "fst (seafile_derive_key ssl (repo @ passwd) 1 repo_salt (on_stack ssl))"
  have "length ?k = 32"
    using assms by (simp add: seafile_derive_key_def on_stack_def Let_def case_prod_beta)
  then have "length (rawdata_to_hex (take 16 ?k)) \<noteq> length (rawdata_to_hex (take 32 ?k))" by simp
  then have "rawdata_to_hex (take 16 ?k) \<noteq> rawdata_to_hex (take 32 ?k)" by metis
  then show ?thesis by (simp add: seafile_verify_repo_passwd_def seafile_generate_magic_def Let_def)
qed

section \<open>A small OpenSSL\<close>

text \<open>Padding alone, marked with the cipher; keys are cut from the data they are derived from.\<close>

fun cipher_tag :: "evp_cipher \<Rightarrow> nat" where
  "cipher_tag AES_128_CBC = 0"
| "cipher_tag AES_128_ECB = 32"
| "cipher_tag AES_256_CBC = 64"

definition toy_pad :: "evp_cipher \<Rightarrow> bytes \<Rightarrow> bytes" where
  "toy_pad a x = (let k = 16 - length x mod 16 in replicate k (char_of (cipher_tag a + k)))"

definition toy_unpad :: "evp_cipher \<Rightarrow> bytes \<Rightarrow> bytes option" where
  "toy_unpad a y =
     (if y = [] \<or> length y mod 16 \<noteq> 0 \<or> byte_val (last y) < cipher_tag a \<or> cipher_tag a + 16 < byte_val (last y) then None
      else Some (take (length y - (byte_val (last y) - cipher_tag a)) y))"

definition toy_ssl :: "(evp_cipher \<times> bytes) openssl" where
  "toy_ssl =
     \<lparr>os_pbkdf2 = (\<lambda>d s i n. take n (d @ replicate n (CHR 0x00))),
      os_bytes_to_key = (\<lambda>a s d i. (take 16 (d @ replicate 16 (CHR 0x00)), replicate 16 (CHR 0x00))),
      os_enc_init = (\<lambda>a key iv. Some (a, [])), os_enc_update = (\<lambda>(a, b) x. Some ([], (a, b @ x))),
      os_enc_final = (\<lambda>(a, b). Some (b @ toy_pad a b)),
      os_dec_init = (\<lambda>a key iv. Some (a, [])), os_dec_update = (\<lambda>(a, b) x. Some ([], (a, b @ x))),
      os_dec_final = (\<lambda>(a, b). toy_unpad a b), os_stack = (\<lambda>n. replicate n (CHR 0xFF))\<rparr>"

lemma toy_dec_pieces: "dec_pieces toy_ssl (a, b) ps = toy_unpad a (b @ concat ps)"
proof (induction ps arbitrary: b)
  case (Cons p ps)
  have "map_option (append []) z = z" for z :: "bytes option" by (cases z) simp_all
  then show ?case using Cons.IH by (simp add: toy_ssl_def)
qed (simp add: toy_ssl_def)

lemma toy_unpad_pad: "toy_unpad a (x @ toy_pad a x) = Some x"
proof -
  define k where "k = 16 - length x mod 16"
  have k: "0 < k" "k \<le> 16" "(length x + k) mod 16 = 0" unfolding k_def by (simp, simp, presburger)
  have pad: "toy_pad a x = replicate k (char_of (cipher_tag a + k))" by (simp add: toy_pad_def Let_def k_def)
  have "cipher_tag a + k < 256" using k(2) by (cases a) simp_all
  then have b: "byte_val (last (x @ toy_pad a x)) = cipher_tag a + k" using k(1) by (simp add: pad)
  have n: "length (x @ toy_pad a x) = length x + k" "x @ toy_pad a x \<noteq> []" using k(1) by (simp_all add: pad)
  show ?thesis unfolding toy_unpad_def b n(1) using n(2) k by simp
qed

lemma toy_ssl_ok: "openssl_ok toy_ssl"
proof -
  have e: "enc_once toy_ssl a key iv x = Some (x @ toy_pad a x)" for a key iv x
    by (simp add: enc_once_def toy_ssl_def)
  have d: "dec_once toy_ssl a key iv ps = toy_unpad a (concat ps)" for a key iv ps
    using toy_dec_pieces [of a "[]" ps] by (simp add: dec_once_def toy_ssl_def)
  have u: "length y mod ENCRYPT_BLK_SIZE = 0 \<and> length x \<le> length y" if "toy_unpad a y = Some x" for a x y
    using that by (auto simp: toy_unpad_def ENCRYPT_BLK_SIZE_def split: if_splits)
  show ?thesis
    using u unfolding openssl_ok_def e d by (auto simp: toy_unpad_pad) (simp_all add: toy_ssl_def)
qed

theorem password_change_keeps_data_key_witness:
  "let secret = replicate 32 (CHR ''s''); old = seafile_generate_random_key toy_ssl (Some secret) ''old'' 2 [];
       new = seafile_update_random_key toy_ssl ''old'' (the (the old)) ''new'' 2 [] in
   seafile_decrypt_repo_enc_key toy_ssl 2 ''new'' (the (the new)) [] (replicate 32 (CHR 0x00), replicate 16 (CHR 0x00))
     = Some (secret, replicate 16 (CHR ''s''))"
proof -
  let ?secret = "replicate 32 (CHR ''s'')"
  have "case seafile_generate_random_key toy_ssl (Some ?secret) ''old'' 2 [] of
      Some (Some k) \<Rightarrow> (case seafile_update_random_key toy_ssl ''old'' k ''new'' 2 [] of Some (Some j) \<Rightarrow> True | _ \<Rightarrow> False)
    | _ \<Rightarrow> False"
    by code_simp
  then obtain k j where g: "seafile_generate_random_key toy_ssl (Some ?secret) ''old'' 2 [] = Some (Some k)"
    "seafile_update_random_key toy_ssl ''old'' k ''new'' 2 [] = Some (Some j)"
    by (auto split: option.split_asm)
  have "data_key toy_ssl ?secret 2 [] = (?secret, replicate 16 (CHR ''s''))" by code_simp
  then show ?thesis
    using password_change_keeps_data_key [OF toy_ssl_ok _ _ _ _ g, of "(replicate 32 (CHR 0x00), replicate 16 (CHR 0x00))"] g
    by simp
qed

end
