(* ===== verification/PasswdMgr.thy ===== *)
theory PasswdMgr
  imports Crypt RepoMgr
begin

text \<open>
  The keys of encrypted libraries that users have unlocked (\<open>server/passwd-mgr.c\<close>): a table from library
  and user to the key that encrypts the blocks, filled by the password and emptied by a timer.
\<close>

section \<open>The table\<close>

definition REAP_THRESHOLD :: u64 where "REAP_THRESHOLD = 3600"

text \<open>\<open>DecryptKey\<close>: its buffers of 32 and 16 bytes start as zeros.\<close>

record decrypt_key =
  dk_enc_version :: int
  dk_key :: bytes
  dk_iv :: bytes
  dk_expire_time :: u64

type_synonym passwd_mgr = "string \<Rightarrow> decrypt_key option"

definition hash_key :: "string \<Rightarrow> string \<Rightarrow> string" where
  "hash_key repo user = repo @ ''.'' @ user"

definition zero_bytes :: "nat \<Rightarrow> bytes" where
  "zero_bytes n = replicate n (CHR 0x00)"

text \<open>Errors are the codes of the \<open>GError\<close>.\<close>

definition seaf_passwd_manager_check_passwd :: "session \<Rightarrow> string \<Rightarrow> string \<Rightarrow> seaf_error + unit" where
  "seaf_passwd_manager_check_passwd S repo mgc =
     (case seaf_repo_manager_get_repo S repo of
        None \<Rightarrow> Inl SEAF_ERR_BAD_ARGS
      | Some r \<Rightarrow>
          if \<not> rp_encrypted r then Inl SEAF_ERR_BAD_ARGS
          else if strcmp mgc (rp_magic r) \<noteq> 0 then Inl SEAF_ERR_GENERAL
          else Inr ())"

definition seaf_passwd_manager_set_passwd ::
    "'c openssl \<Rightarrow> session \<Rightarrow> passwd_mgr \<Rightarrow> string \<Rightarrow> string \<Rightarrow> string \<Rightarrow> (seaf_error + unit) \<times> passwd_mgr" where
  "seaf_passwd_manager_set_passwd ssl S M repo user passwd =
     (case seaf_repo_manager_get_repo S repo of
        None \<Rightarrow> (Inl SEAF_ERR_BAD_ARGS, M)
      | Some r \<Rightarrow>
          if \<not> rp_encrypted r then (Inl SEAF_ERR_BAD_ARGS, M)
          else if rp_enc_version r \<noteq> 1 \<and> rp_enc_version r \<noteq> 2 \<and> rp_enc_version r \<noteq> 3 \<and> rp_enc_version r \<noteq> 4
          then (Inl SEAF_ERR_BAD_ARGS, M)
          else if seafile_verify_repo_passwd ssl (rp_id r) passwd (rp_magic r) (rp_enc_version r) (rp_salt r) < 0
          then (Inl SEAF_ERR_GENERAL, M)
          else (case seafile_decrypt_repo_enc_key ssl (rp_enc_version r) passwd (rp_random_key r) (rp_salt r)
                       (zero_bytes 32, zero_bytes 16) of
                  None \<Rightarrow> (Inl SEAF_ERR_GENERAL, M)
                | Some (key, iv) \<Rightarrow>
                    (Inr (), M(hash_key repo user \<mapsto>
                       \<lparr>dk_enc_version = rp_enc_version r, dk_key = key, dk_iv = iv,
                        dk_expire_time = ss_now S + REAP_THRESHOLD\<rparr>))))"

definition seaf_passwd_manager_unset_passwd :: "passwd_mgr \<Rightarrow> string \<Rightarrow> string \<Rightarrow> passwd_mgr" where
  "seaf_passwd_manager_unset_passwd M repo user = M(hash_key repo user := None)"

definition seaf_passwd_manager_is_passwd_set :: "passwd_mgr \<Rightarrow> string \<Rightarrow> string \<Rightarrow> bool" where
  "seaf_passwd_manager_is_passwd_set M repo user = (M (hash_key repo user) \<noteq> None)"

text \<open>The texts of the key and the vector; the versions that are neither are never stored.\<close>

definition seaf_passwd_manager_get_decrypt_key :: "passwd_mgr \<Rightarrow> string \<Rightarrow> string \<Rightarrow> (string \<times> string) option" where
  "seaf_passwd_manager_get_decrypt_key M repo user =
     (case M (hash_key repo user) of
        None \<Rightarrow> None
      | Some k \<Rightarrow>
          if dk_enc_version k \<ge> 2 then
            Some (rawdata_to_hex (take 32 (dk_key k)), rawdata_to_hex (take 16 (dk_iv k)))
          else if dk_enc_version k = 1 then
            Some (rawdata_to_hex (take 16 (dk_key k)), rawdata_to_hex (take 16 (dk_iv k)))
          else Some ([], []))"

definition seaf_passwd_manager_get_decrypt_key_raw ::
    "passwd_mgr \<Rightarrow> string \<Rightarrow> string \<Rightarrow> bytes \<times> bytes \<Rightarrow> int \<times> bytes \<times> bytes" where
  "seaf_passwd_manager_get_decrypt_key_raw M repo user out =
     (case M (hash_key repo user) of
        None \<Rightarrow> (-1, out)
      | Some k \<Rightarrow>
          if dk_enc_version k = 1 then (0, copy_bytes 16 (dk_key k) (fst out), copy_bytes 16 (dk_iv k) (snd out))
          else if dk_enc_version k \<ge> 2 then (0, copy_bytes 32 (dk_key k) (fst out), copy_bytes 16 (dk_iv k) (snd out))
          else (0, out))"

definition reap_expired_passwd :: "u64 \<Rightarrow> passwd_mgr \<Rightarrow> passwd_mgr" where
  "reap_expired_passwd now M =
     (\<lambda>k. case M k of None \<Rightarrow> None | Some d \<Rightarrow> if dk_expire_time d \<le> now then None else Some d)"

section \<open>What is in the table\<close>

text \<open>The operations on the table, as the events of a run.\<close>

datatype passwd_event = SetPasswd session string string string | UnsetPasswd string string | Reap u64

fun passwd_step :: "'c openssl \<Rightarrow> passwd_mgr \<Rightarrow> passwd_event \<Rightarrow> passwd_mgr" where
  "passwd_step ssl M (SetPasswd S repo user passwd) = snd (seaf_passwd_manager_set_passwd ssl S M repo user passwd)"
| "passwd_step ssl M (UnsetPasswd repo user) = seaf_passwd_manager_unset_passwd M repo user"
| "passwd_step ssl M (Reap now) = reap_expired_passwd now M"

text \<open>A key was unlocked with a password that its library accepted.\<close>

definition unlocked :: "'c openssl \<Rightarrow> passwd_event \<Rightarrow> string \<Rightarrow> decrypt_key \<Rightarrow> bool" where
  "unlocked ssl ev k d \<longleftrightarrow>
     (\<exists>S repo user passwd r. ev = SetPasswd S repo user passwd \<and> k = hash_key repo user \<and>
        seaf_repo_manager_get_repo S repo = Some r \<and> rp_encrypted r \<and> dk_enc_version d = rp_enc_version r \<and>
        seafile_verify_repo_passwd ssl (rp_id r) passwd (rp_magic r) (rp_enc_version r) (rp_salt r) = 0 \<and>
        seafile_decrypt_repo_enc_key ssl (rp_enc_version r) passwd (rp_random_key r) (rp_salt r)
          (zero_bytes 32, zero_bytes 16) = Some (dk_key d, dk_iv d) \<and>
        dk_expire_time d = ss_now S + REAP_THRESHOLD)"

lemma verify_result: "seafile_verify_repo_passwd ssl i p m v s = 0 \<or> seafile_verify_repo_passwd ssl i p m v s = -1"
  by (simp add: seafile_verify_repo_passwd_def Let_def)

lemma set_passwdE:
  assumes "seaf_passwd_manager_set_passwd ssl S M repo user passwd = (res, M')"
  shows "M' = M \<and> res \<noteq> Inr () \<or>
    (\<exists>d. res = Inr () \<and> M' = M(hash_key repo user \<mapsto> d) \<and> unlocked ssl (SetPasswd S repo user passwd) (hash_key repo user) d)"
  using assms verify_result
  by (fastforce simp: seaf_passwd_manager_set_passwd_def unlocked_def split: option.splits if_splits)

lemma passwd_step_cases:
  "passwd_step ssl M ev k = Some d \<Longrightarrow> M k = Some d \<or> unlocked ssl ev k d"
proof (cases ev)
  case (SetPasswd S repo user passwd)
  assume k: "passwd_step ssl M ev k = Some d"
  obtain res M' where s: "seaf_passwd_manager_set_passwd ssl S M repo user passwd = (res, M')" by fastforce
  show ?thesis using set_passwdE [OF s] k s SetPasswd by (auto split: if_splits)
qed (auto simp: seaf_passwd_manager_unset_passwd_def reap_expired_passwd_def split: if_splits option.splits)

text \<open>In every run of the password manager from an empty table, a key that is found was unlocked by some
  earlier call of \<open>set_passwd\<close> for that library and user whose password the library's magic accepted, it
  is the key that password decrypts, and when a reaping came after it its time was not over.\<close>

theorem passwd_keys_unlocked:
  assumes "foldl (passwd_step ssl) Map.empty evs k = Some d"
  shows "\<exists>evs1 ev evs2. evs = evs1 @ ev # evs2 \<and> unlocked ssl ev k d \<and>
    (\<forall>now. Reap now \<in> set evs2 \<longrightarrow> now < dk_expire_time d)"
  using assms
proof (induction evs rule: rev_induct)
  case (snoc ev evs)
  let ?M = "foldl (passwd_step ssl) Map.empty evs"
  have step: "passwd_step ssl ?M ev k = Some d" using snoc.prems by simp
  show ?case
  proof (cases "unlocked ssl ev k d")
    case True
    then show ?thesis by (intro exI [of _ evs] exI [of _ ev] exI [of _ "[]"]) simp
  next
    case False
    then have "?M k = Some d" using passwd_step_cases [OF step] by simp
    from snoc.IH [OF this] obtain evs1 e evs2 where
      e: "evs = evs1 @ e # evs2" "unlocked ssl e k d" "\<forall>now. Reap now \<in> set evs2 \<longrightarrow> now < dk_expire_time d" by blast
    have "now < dk_expire_time d" if "ev = Reap now" for now
      using step \<open>?M k = Some d\<close> that by (auto simp: reap_expired_passwd_def split: if_splits)
    then show ?thesis
      using e by (intro exI [of _ evs1] exI [of _ e] exI [of _ "evs2 @ [ev]"]) auto
  qed
qed simp

text \<open>Another user's key is never touched: the text of a key determines its library and user.\<close>

lemma hash_key_inj:
  "length a = 36 \<Longrightarrow> length b = 36 \<Longrightarrow> hash_key a u = hash_key b v \<longleftrightarrow> a = b \<and> u = v"
  by (auto simp: hash_key_def)

lemma get_decrypt_key_stored:
  assumes "M (hash_key repo user) = Some d" "2 \<le> dk_enc_version d" "length (dk_key d) = 32" "length (dk_iv d) = 16"
  shows "\<exists>key_hex iv_hex. seaf_passwd_manager_get_decrypt_key M repo user = Some (key_hex, iv_hex) \<and>
    hex_to_rawdata 32 key_hex = Some (dk_key d) \<and> hex_to_rawdata 16 iv_hex = Some (dk_iv d)"
  using assms hex_to_rawdata_append [of "dk_key d" "[]"] hex_to_rawdata_append [of "dk_iv d" "[]"]
  by (simp add: seaf_passwd_manager_get_decrypt_key_def)

end
