(* ===== verification/ZipDownload.thy ===== *)
theory ZipDownload
  imports PackDir PasswdMgr
begin

text \<open>
  Zip downloads (\<open>server/zip-download-mgr.c\<close>): a request is checked and queued with a progress object
  that clients can poll; a worker of the thread pool packs it (\<open>PackDir\<close>), deciphering with the key its
  user has unlocked (\<open>PasswdMgr\<close>).  Progress objects are shared by reference: between the store, from
  which timers and requests remove (and free) them, and the worker.
\<close>

section \<open>State\<close>

definition PROGRESS_TTL :: int where "PROGRESS_TTL = 5 * 3600"
definition DEFAULT_MAX_DOWNLOAD_DIR_SIZE :: u64 where "DEFAULT_MAX_DOWNLOAD_DIR_SIZE = 100 * push_bit 20 1"

record progress =
  pr_zipped :: u32
  pr_total :: u32
  pr_zip_file_path :: "string option"
  pr_expire_ts :: int
  pr_canceled :: bool

record download_obj =
  do_token :: string
  do_repo :: repo
  do_user :: string
  do_is_windows :: bool
  do_dir_name :: string
  do_internal :: pack_what
  do_progress :: nat

text \<open>
  The progress objects that are allocated, by address; \<open>progress_store\<close> by token; the queue of the
  thread pool; the temporary zip files that exist.
\<close>

record zip_mgr =
  zm_heap :: "nat \<Rightarrow> progress option"
  zm_next :: nat
  zm_store :: "string \<Rightarrow> nat option"
  zm_queue :: "download_obj list"
  zm_files :: "string set"

text \<open>\<open>free_progress\<close> removes the zip file, too.\<close>

definition free_progress :: "zip_mgr \<Rightarrow> nat \<Rightarrow> zip_mgr" where
  "free_progress M a =
     (case zm_heap M a of
        None \<Rightarrow> M
      | Some p \<Rightarrow> M\<lparr>zm_heap := (zm_heap M)(a := None),
                      zm_files := (case pr_zip_file_path p of None \<Rightarrow> zm_files M | Some f \<Rightarrow> zm_files M - {f})\<rparr>)"

definition remove_progress_by_token :: "zip_mgr \<Rightarrow> string \<Rightarrow> zip_mgr" where
  "remove_progress_by_token M token =
     (case zm_store M token of
        None \<Rightarrow> M
      | Some a \<Rightarrow> free_progress (M\<lparr>zm_store := (zm_store M)(token := None)\<rparr>) a)"

text \<open>The timer, with the tokens in the order of the hash table.\<close>

fun scan_progress :: "int \<Rightarrow> string list \<Rightarrow> zip_mgr \<Rightarrow> zip_mgr" where
  "scan_progress now [] M = M"
| "scan_progress now (token # tokens) M =
     (case zm_store M token of
        None \<Rightarrow> scan_progress now tokens M
      | Some a \<Rightarrow>
          (case zm_heap M a of
             None \<Rightarrow> scan_progress now tokens M
           | Some p \<Rightarrow>
               scan_progress now tokens
                 (if now \<ge> pr_expire_ts p then remove_progress_by_token M token else M)))"

section \<open>Requests\<close>

text \<open>The decryption of a library for a user; the buffers it is read into are not initialised.\<close>

definition get_seafile_crypt :: "'c openssl \<Rightarrow> passwd_mgr \<Rightarrow> repo \<Rightarrow> string \<Rightarrow> crypt_info option" where
  "get_seafile_crypt ssl PM r user =
     (case seaf_passwd_manager_get_decrypt_key PM (rp_id r) user of
        None \<Rightarrow> None
      | Some (key_hex, iv_hex) \<Rightarrow>
          (let enc_key = (if rp_enc_version r = 1 then hex_to_buf 16 key_hex (os_stack ssl 32)
                          else hex_to_buf 32 key_hex (os_stack ssl 32));
               enc_iv = hex_to_buf 16 iv_hex (os_stack ssl 16)
           in Some (seafile_crypt_new (rp_enc_version r) enc_key enc_iv)))"

text \<open>\<open>is_windows\<close>, the name and the id.\<close>

definition parse_download_dir_data :: "libs \<Rightarrow> bytes \<Rightarrow> (bool \<times> string \<times> pack_what) option" where
  "parse_download_dir_data L data =
     (case lib_json_loadb L data of
        None \<Rightarrow> None
      | Some jobj \<Rightarrow>
          (case json_object_get_string_member jobj ''dir_name'' of
             None \<Rightarrow> None
           | Some dir_name \<Rightarrow>
               if strcmp dir_name [] = 0 then None
               else (case json_object_get_string_member jobj ''obj_id'' of
                       None \<Rightarrow> None
                     | Some obj_id \<Rightarrow>
                         if strcmp obj_id [] = 0 then None
                         else Some (json_object_get_int_member jobj ''is_windows'' \<noteq> 0, dir_name, PackDir obj_id))))"

text \<open>
  The loop over the names: the entries found, in reverse; a bad name ends it with none.  None is a
  member that is not a string, whose NULL value is compared.
\<close>

fun find_dirents :: "dirent list \<Rightarrow> json list \<Rightarrow> dirent list \<Rightarrow> dirent list option" where
  "find_dirents es [] dirent_list = Some dirent_list"
| "find_dirents es (j # js) dirent_list =
     (case json_string_value (Some j) of
        None \<Rightarrow> None
      | Some file_name \<Rightarrow>
          if strcmp file_name [] = 0 \<or> CHR ''/'' \<in> set file_name then Some []
          else (case find_key d_name file_name (rev es) of
                  None \<Rightarrow> Some []
                | Some dirent \<Rightarrow> find_dirents es js (seaf_dirent_dup dirent # dirent_list)))"

definition json_array_items :: "json \<Rightarrow> json list" where
  "json_array_items j = (case j of JArray l \<Rightarrow> l | _ \<Rightarrow> [])"

definition parse_download_multi_data ::
    "libs \<Rightarrow> fs_view \<Rightarrow> string \<Rightarrow> bytes \<Rightarrow> (bool \<times> string \<times> pack_what) option option" where
  "parse_download_multi_data L F root data =
     (case lib_json_loadb L data of
        None \<Rightarrow> Some None
      | Some jobj \<Rightarrow>
          (case json_object_get_string_member jobj ''parent_dir'' of
             None \<Rightarrow> Some None
           | Some tmp_parent_dir \<Rightarrow>
               if strcmp tmp_parent_dir [] = 0 then Some None
               else (case json_object_get jobj ''file_list'' of
                       None \<Rightarrow> Some None
                     | Some name_array \<Rightarrow>
                         if json_array_items name_array = [] then Some None
                         else (case seaf_fs_manager_get_seafdir_by_path F root (format_dir_path tmp_parent_dir) of
                                 Inl _ \<Rightarrow> Some None
                               | Inr dir \<Rightarrow>
                                   (case find_dirents (entries dir) (json_array_items name_array) [] of
                                      None \<Rightarrow> None
                                    | Some [] \<Rightarrow> Some None
                                    | Some dirent_list \<Rightarrow>
                                        Some (Some (json_object_get_int_member jobj ''is_windows'' \<noteq> 0, [],
                                          PackMulti dirent_list)))))))"

text \<open>\<open>SeafileWebAccess\<close>.\<close>

record web_access =
  wa_repo_id :: string
  wa_obj_id :: string
  wa_op :: string
  wa_username :: string

definition new_progress :: "int \<Rightarrow> progress" where
  "new_progress now = \<lparr>pr_zipped = 0, pr_total = 1, pr_zip_file_path = None,
     pr_expire_ts = now + PROGRESS_TTL, pr_canceled = False\<rparr>"

text \<open>A progress under the same token is replaced, and so freed.\<close>

definition store_progress :: "zip_mgr \<Rightarrow> string \<Rightarrow> progress \<Rightarrow> nat \<times> zip_mgr" where
  "store_progress M token p =
     (let a = zm_next M;
          M = (case zm_store M token of None \<Rightarrow> M | Some old \<Rightarrow> free_progress M old)
      in (a, M\<lparr>zm_heap := (zm_heap M)(a \<mapsto> p), zm_next := a + 1, zm_store := (zm_store M)(token \<mapsto> a)\<rparr>))"

text \<open>What is to be packed, by the operation of the request; the inner None is an error.\<close>

definition parse_request :: "session \<Rightarrow> repo \<Rightarrow> web_access \<Rightarrow> (bool \<times> string \<times> pack_what) option option" where
  "parse_request S r info =
     (if strcmp (wa_op info) ''download-dir'' = 0 \<or> strcmp (wa_op info) ''download-dir-link'' = 0 then
        (case parse_download_dir_data (ss_libs S) (wa_obj_id info) of
           Some (w, n, PackDir i) \<Rightarrow>
             if \<not> seaf_fs_manager_object_exists (ss_libs S) (ss_fs S) (rp_store_id r) i then Some None
             else Some (Some (w, n, PackDir i))
         | _ \<Rightarrow> Some None)
      else parse_download_multi_data (ss_libs S) (fs_of S r) (rp_root_id r) (wa_obj_id info))"

definition zip_download_mgr_start_zip_task ::
    "session \<Rightarrow> int \<Rightarrow> zip_mgr \<Rightarrow> string \<Rightarrow> web_access \<Rightarrow> ((seaf_error + unit) \<times> zip_mgr) option" where
  "zip_download_mgr_start_zip_task S now M token info =
     (case seaf_repo_manager_get_repo S (wa_repo_id info) of
        None \<Rightarrow> Some (Inl SEAF_ERR_GENERAL, M)
      | Some r \<Rightarrow>
          (case parse_request S r info of
             None \<Rightarrow> None
           | Some None \<Rightarrow> Some (Inl SEAF_ERR_GENERAL, M)
           | Some (Some (w, dir_name, internal)) \<Rightarrow>
               (case store_progress M token (new_progress now) of
                  (a, M) \<Rightarrow>
                    Some (Inr (), M\<lparr>zm_queue := zm_queue M @
                      [\<lparr>do_token = token, do_repo = r, do_user = wa_username info, do_is_windows = w,
                        do_dir_name = dir_name, do_internal = internal, do_progress = a\<rparr>]\<rparr>))))"

section \<open>The worker\<close>

text \<open>Sizes and counts of what is asked for; negative results are failures.\<close>

fun calcuate_download_multi_size :: "nat \<Rightarrow> fs_view \<Rightarrow> dirent list \<Rightarrow> u64 \<Rightarrow> u64 option" where
  "calcuate_download_multi_size n F [] total_size = Some total_size"
| "calcuate_download_multi_size n F (dirent # es) total_size =
     (if S_ISREG (d_mode dirent) then
        (let sz = (if fv_version F > 0 then d_size dirent else seaf_fs_manager_get_file_size F (d_id dirent))
         in if sint sz < 0 then Some (-1) else calcuate_download_multi_size n F es (total_size + sz))
      else if S_ISDIR (d_mode dirent) then
        (case seaf_fs_manager_get_fs_size n F (d_id dirent) of
           None \<Rightarrow> None
         | Some sz \<Rightarrow>
             if sint sz < 0 then Some (-1) else calcuate_download_multi_size n F es (total_size + sz))
      else calcuate_download_multi_size n F es total_size)"

fun calcuate_download_multi_file_count :: "nat \<Rightarrow> fs_view \<Rightarrow> dirent list \<Rightarrow> u32 \<Rightarrow> u32 option" where
  "calcuate_download_multi_file_count n F [] cnt = Some cnt"
| "calcuate_download_multi_file_count n F (dirent # es) cnt =
     (if S_ISREG (d_mode dirent) then calcuate_download_multi_file_count n F es (cnt + 1)
      else if S_ISDIR (d_mode dirent) then
        (case seaf_fs_manager_count_fs_files n F (d_id dirent) of
           None \<Rightarrow> None
         | Some cur_count \<Rightarrow>
             if sint cur_count < 0 then Some (-1)
             else calcuate_download_multi_file_count n F es (cnt + cur_count))
      else calcuate_download_multi_file_count n F es cnt)"

text \<open>\<open>max_download_dir_size\<close> is the value of that setting, in megabytes.\<close>

definition max_download_size :: "u64 \<Rightarrow> u64" where
  "max_download_size setting =
     (if sint setting > 0 then setting * push_bit 20 1 else DEFAULT_MAX_DOWNLOAD_DIR_SIZE)"

definition validate_download_size :: "nat \<Rightarrow> fs_view \<Rightarrow> u64 \<Rightarrow> pack_what \<Rightarrow> bool option" where
  "validate_download_size n F setting what =
     (case (case what of
              PackDir i \<Rightarrow> seaf_fs_manager_get_fs_size n F i
            | PackMulti es \<Rightarrow> calcuate_download_multi_size n F es 0) of
        None \<Rightarrow> None
      | Some download_size \<Rightarrow>
          Some (\<not> sint download_size < 0 \<and> \<not> sint download_size > sint (max_download_size setting)))"

definition get_download_file_count :: "nat \<Rightarrow> fs_view \<Rightarrow> pack_what \<Rightarrow> u32 option" where
  "get_download_file_count n F what =
     (case (case what of
              PackDir i \<Rightarrow> seaf_fs_manager_count_fs_files n F i
            | PackMulti es \<Rightarrow> calcuate_download_multi_file_count n F es 0) of
        None \<Rightarrow> None
      | Some file_count \<Rightarrow> Some (if sint file_count < 0 then -1 else file_count))"

text \<open>
  What the worker uses: the settings, a new archive and the name \<open>g_mkstemp\<close> gave (None when it failed),
  and the flag \<open>canceled\<close> at its readings beyond what it is when the worker starts.
\<close>

record ('a, 'c) zip_env =
  ze_fuel :: nat
  ze_ssl :: "'c openssl"
  ze_max_size :: u64
  ze_archiver :: "'a archiver"
  ze_archive :: 'a
  ze_tmpfile :: "string option"
  ze_encoding :: "string option"
  ze_iconv :: "string \<Rightarrow> string \<Rightarrow> string \<Rightarrow> bytes option"
  ze_build :: "string list \<Rightarrow> string"
  ze_mtime :: u64
  ze_canceled :: "nat \<Rightarrow> bool"

text \<open>The context of a key, as \<open>add_file_to_archive\<close> uses it.\<close>

definition crypt_decipher :: "'c openssl \<Rightarrow> crypt_info \<Rightarrow> 'c decipher" where
  "crypt_decipher ssl c =
     \<lparr>dc_init = seafile_decrypt_init ssl (sc_version c) (sc_key c) (sc_iv c),
      dc_update = os_dec_update ssl, dc_final = os_dec_final ssl\<rparr>"

definition zip_pack_data ::
    "('a, 'c) zip_env \<Rightarrow> session \<Rightarrow> download_obj \<Rightarrow> progress \<Rightarrow> crypt_info option \<Rightarrow> ('a, 'c) pack_data" where
  "zip_pack_data Z S obj p crypt =
     \<lparr>pe_libs = ss_libs S, pe_blocks = ss_blocks S, pe_view = fs_of S (do_repo obj), pe_archiver = ze_archiver Z,
      pe_crypt = map_option (crypt_decipher (ze_ssl Z)) crypt, pe_top = do_dir_name obj,
      pe_windows = do_is_windows obj, pe_encoding = ze_encoding Z, pe_iconv = ze_iconv Z, pe_build = ze_build Z,
      pe_mtime = ze_mtime Z, pe_canceled = (\<lambda>k. pr_canceled p \<or> ze_canceled Z k)\<rparr>"

text \<open>
  Packing into a new temporary file, with the progress object: it gets the path of the file, even when
  the packing fails later.
\<close>

definition pack_with_progress ::
    "('a, 'c) zip_env \<Rightarrow> session \<Rightarrow> download_obj \<Rightarrow> progress \<Rightarrow> crypt_info option
     \<Rightarrow> (int \<times> progress \<times> 'a) option" where
  "pack_with_progress Z S obj p crypt =
     (case ze_tmpfile Z of
        None \<Rightarrow> Some (-1, p, ze_archive Z)
      | Some f \<Rightarrow>
          (case pack_files (ze_fuel Z) (zip_pack_data Z S obj p crypt) (do_internal obj)
                  \<lparr>ps_archive = ze_archive Z, ps_zipped = pr_zipped p, ps_checks = 0\<rparr> of
             None \<Rightarrow> None
           | Some (ret, st) \<Rightarrow> Some (ret, p\<lparr>pr_zip_file_path := Some f, pr_zipped := ps_zipped st\<rparr>, ps_archive st)))"

definition add_zip_file :: "('a, 'c) zip_env \<Rightarrow> zip_mgr \<Rightarrow> zip_mgr" where
  "add_zip_file Z M = M\<lparr>zm_files := set_option (ze_tmpfile Z) \<union> zm_files M\<rparr>"

text \<open>
  A worker's task without interference but the flag.  The outer None is that a fuel ran out, the inner
  one the use of a progress object that was freed meanwhile.
\<close>

definition zip_failed :: "('a, 'c) zip_env \<Rightarrow> zip_mgr \<Rightarrow> download_obj \<Rightarrow> int \<times> zip_mgr \<times> 'a" where
  "zip_failed Z M obj = (-1, remove_progress_by_token M (do_token obj), ze_archive Z)"

definition zip_with_crypt ::
    "('a, 'c) zip_env \<Rightarrow> session \<Rightarrow> zip_mgr \<Rightarrow> download_obj \<Rightarrow> crypt_info option
     \<Rightarrow> (int \<times> zip_mgr \<times> 'a) option option" where
  "zip_with_crypt Z S M obj crypt =
     (let F = fs_of S (do_repo obj) in
      case validate_download_size (ze_fuel Z) F (ze_max_size Z) (do_internal obj) of
        None \<Rightarrow> None
      | Some valid \<Rightarrow>
          if \<not> valid then Some (Some (zip_failed Z M obj))
          else
            (case get_download_file_count (ze_fuel Z) F (do_internal obj) of
               None \<Rightarrow> None
             | Some file_count \<Rightarrow>
                 if sint file_count < 0 then Some (Some (zip_failed Z M obj))
                 else
                   (case zm_heap M (do_progress obj) of
                      None \<Rightarrow> Some None
                    | Some p \<Rightarrow>
                        (case pack_with_progress Z S obj (p\<lparr>pr_total := file_count\<rparr>) crypt of
                           None \<Rightarrow> None
                         | Some (ret, p', a) \<Rightarrow>
                             (let M' = (add_zip_file Z M)\<lparr>zm_heap := (zm_heap M)(do_progress obj \<mapsto> p')\<rparr>;
                                  M' = (if ret = -1 then remove_progress_by_token M' (do_token obj) else M')
                              in Some (Some (ret, M', a)))))))"

definition start_zip_task ::
    "('a, 'c) zip_env \<Rightarrow> session \<Rightarrow> passwd_mgr \<Rightarrow> zip_mgr \<Rightarrow> download_obj \<Rightarrow> (int \<times> zip_mgr \<times> 'a) option option" where
  "start_zip_task Z S PM M obj =
     (if rp_encrypted (do_repo obj) then
        (case get_seafile_crypt (ze_ssl Z) PM (do_repo obj) (do_user obj) of
           None \<Rightarrow> Some (Some (zip_failed Z M obj))
         | Some crypt \<Rightarrow> zip_with_crypt Z S M obj (Some crypt))
      else zip_with_crypt Z S M obj None)"

section \<open>Polling\<close>

definition get_progress_obj :: "zip_mgr \<Rightarrow> string \<Rightarrow> nat option" where
  "get_progress_obj M token = zm_store M token"

text \<open>The text that is returned; a stored progress is always allocated.\<close>

definition zip_download_mgr_query_zip_progress :: "libs \<Rightarrow> zip_mgr \<Rightarrow> string \<Rightarrow> seaf_error + bytes" where
  "zip_download_mgr_query_zip_progress L M token =
     (case Option.bind (get_progress_obj M token) (zm_heap M) of
        None \<Rightarrow> Inl SEAF_ERR_GENERAL
      | Some p \<Rightarrow>
          Inr (lib_json_dumps L (JObject
            (json_object_set_int_member (json_object_set_int_member [] ''zipped'' (sint (pr_zipped p)))
              ''total'' (sint (pr_total p))))))"

definition zip_download_mgr_get_zip_file_path :: "zip_mgr \<Rightarrow> string \<Rightarrow> string option" where
  "zip_download_mgr_get_zip_file_path M token =
     (case Option.bind (get_progress_obj M token) (zm_heap M) of None \<Rightarrow> None | Some p \<Rightarrow> pr_zip_file_path p)"

definition zip_download_mgr_del_zip_progress :: "zip_mgr \<Rightarrow> string \<Rightarrow> zip_mgr" where
  "zip_download_mgr_del_zip_progress M token = remove_progress_by_token M token"

definition zip_download_mgr_cancel_zip_task :: "zip_mgr \<Rightarrow> string \<Rightarrow> int \<times> zip_mgr" where
  "zip_download_mgr_cancel_zip_task M token =
     (case get_progress_obj M token of
        None \<Rightarrow> (0, M)
      | Some a \<Rightarrow> (0, M\<lparr>zm_heap := (zm_heap M)(a := map_option (\<lambda>p. p\<lparr>pr_canceled := True\<rparr>) (zm_heap M a))\<rparr>))"

section \<open>The store and the objects agree\<close>

text \<open>
  Every token has a progress object of its own that is allocated, and every object that is allocated
  has a token: nothing is freed twice or lost.
\<close>

definition tokens_inv :: "(string \<Rightarrow> nat option) \<Rightarrow> nat set \<Rightarrow> nat \<Rightarrow> bool" where
  "tokens_inv st H n \<longleftrightarrow> H = ran st \<and> inj_on st (dom st) \<and> (\<forall>a\<in>H. a < n)"

definition zip_inv :: "zip_mgr \<Rightarrow> bool" where
  "zip_inv M \<longleftrightarrow> tokens_inv (zm_store M) (dom (zm_heap M)) (zm_next M)"

lemma tokens_inv_remove:
  assumes "tokens_inv st H n" "st t = Some a"
  shows "tokens_inv (st(t := None)) (H - {a}) n"
proof -
  have other: "st u \<noteq> Some a" if "u \<noteq> t" for u
    using assms that by (auto simp: tokens_inv_def inj_on_def dom_def)
  have "b \<in> ran (st(t := None)) \<longleftrightarrow> b \<in> ran st - {a}" for b
    using other assms(2) by (auto simp: ran_def) (metis option.inject)
  then show ?thesis
    using assms(1) by (auto simp: tokens_inv_def inj_on_def dom_def)
qed

lemma tokens_inv_new:
  assumes "tokens_inv st H n" "st t = None"
  shows "tokens_inv (st(t \<mapsto> n)) (insert n H) (Suc n)"
proof -
  have fresh: "st u \<noteq> Some n" for u using assms by (force simp: tokens_inv_def ran_def)
  have "b \<in> ran (st(t \<mapsto> n)) \<longleftrightarrow> b \<in> insert n (ran st)" for b
    using assms(2) by (auto simp: ran_def) (metis option.distinct(1))
  moreover have "inj_on (st(t \<mapsto> n)) (dom (st(t \<mapsto> n)))"
    using assms fresh by (auto simp: tokens_inv_def inj_on_def dom_def)
  ultimately show ?thesis
    using assms(1) by (auto simp: tokens_inv_def)
qed

lemma free_progress_simps [simp]:
  "zm_store (free_progress M a) = zm_store M" "zm_next (free_progress M a) = zm_next M"
  "zm_heap (free_progress M a) = (zm_heap M)(a := None)" "zm_queue (free_progress M a) = zm_queue M"
  by (auto simp: free_progress_def split: option.splits)

lemma remove_progress_simps:
  "zm_store (remove_progress_by_token M token) = (zm_store M)(token := None)"
  "zm_heap (remove_progress_by_token M token)
     = (case zm_store M token of None \<Rightarrow> zm_heap M | Some a \<Rightarrow> (zm_heap M)(a := None))"
  "zm_next (remove_progress_by_token M token) = zm_next M"
  "zm_queue (remove_progress_by_token M token) = zm_queue M"
  by (auto simp: remove_progress_by_token_def split: option.splits)

lemma dom_upd_None: "dom (f(a := None)) = dom f - {a}"
  by auto

lemma remove_progress_inv: "zip_inv M \<Longrightarrow> zip_inv (remove_progress_by_token M token)"
  using tokens_inv_remove [of "zm_store M" "dom (zm_heap M)" "zm_next M" token]
  by (cases "zm_store M token") (simp_all add: zip_inv_def remove_progress_simps fun_upd_idem dom_upd_None)

lemma scan_progress_inv: "zip_inv M \<Longrightarrow> zip_inv (scan_progress now tokens M)"
  by (induction tokens arbitrary: M) (auto split: option.splits intro: remove_progress_inv)

lemma store_progress_inv:
  assumes inv: "zip_inv M" and s: "store_progress M token p = (a, M')"
  shows "zip_inv M'" "zm_store M' token = Some a" "zm_heap M' a = Some p"
proof -
  define M1 where "M1 = remove_progress_by_token M token"
  have upd: "(zm_store M1)(token \<mapsto> a) = (zm_store M)(token \<mapsto> a)" by (simp add: M1_def remove_progress_simps)
  have M': "zm_store M' = (zm_store M1)(token \<mapsto> a)" "zm_heap M' = (zm_heap M1)(a \<mapsto> p)" "zm_next M' = Suc a"
    "a = zm_next M1"
    using s unfolding upd
    by (auto simp: store_progress_def Let_def M1_def remove_progress_simps split: option.splits)
  have "zip_inv M1" "zm_store M1 token = None"
    using remove_progress_inv [OF inv] by (simp_all add: M1_def remove_progress_simps)
  then show "zip_inv M'" using tokens_inv_new by (simp add: zip_inv_def M')
  show "zm_store M' token = Some a" "zm_heap M' a = Some p" by (simp_all add: M')
qed

lemma start_zip_task_queued:
  assumes inv: "zip_inv M" and run: "zip_download_mgr_start_zip_task S now M token info = Some (res, M')"
  shows "zip_inv M'" "res = Inr () \<Longrightarrow> \<exists>obj. zm_queue M' = zm_queue M @ [obj] \<and> do_token obj = token \<and>
      zm_store M' token = Some (do_progress obj) \<and> zm_heap M' (do_progress obj) = Some (new_progress now)"
proof -
  have "res \<noteq> Inr () \<and> M' = M \<or> (\<exists>a M1 obj. store_progress M token (new_progress now) = (a, M1) \<and>
      M' = M1\<lparr>zm_queue := zm_queue M1 @ [obj]\<rparr> \<and> do_token obj = token \<and> do_progress obj = a)"
    using run by (auto simp: zip_download_mgr_start_zip_task_def split: option.splits prod.splits)
  then consider "res \<noteq> Inr ()" "M' = M" | a M1 obj where "store_progress M token (new_progress now) = (a, M1)"
    "M' = M1\<lparr>zm_queue := zm_queue M1 @ [obj]\<rparr>" "do_token obj = token" "do_progress obj = a" by blast
  then have "zip_inv M' \<and> (res = Inr () \<longrightarrow> (\<exists>obj. zm_queue M' = zm_queue M @ [obj] \<and> do_token obj = token \<and>
      zm_store M' token = Some (do_progress obj) \<and> zm_heap M' (do_progress obj) = Some (new_progress now)))"
  proof cases
    case 2
    have "zm_queue M1 = zm_queue M" using 2(1) by (auto simp: store_progress_def Let_def split: option.splits)
    then show ?thesis using store_progress_inv [OF inv 2(1)] 2 by (auto simp: zip_inv_def)
  qed (use inv in simp)
  then show "zip_inv M'" "res = Inr () \<Longrightarrow> \<exists>obj. zm_queue M' = zm_queue M @ [obj] \<and> do_token obj = token \<and>
      zm_store M' token = Some (do_progress obj) \<and> zm_heap M' (do_progress obj) = Some (new_progress now)" by blast+
qed

text \<open>The timer frees the progress of every token whose time is over, also of a task that still waits.\<close>

definition scan_one :: "int \<Rightarrow> string \<Rightarrow> zip_mgr \<Rightarrow> zip_mgr" where
  "scan_one now t M = (case zm_store M t of None \<Rightarrow> M
    | Some b \<Rightarrow> (case zm_heap M b of None \<Rightarrow> M
        | Some q \<Rightarrow> if now \<ge> pr_expire_ts q then remove_progress_by_token M t else M))"

lemma scan_progress_Cons: "scan_progress now (t # ts) M = scan_progress now ts (scan_one now t M)"
  by (auto simp: scan_one_def split: option.splits)

lemma scan_progress_keeps: "zm_heap (scan_progress now tokens M) a = Some p \<Longrightarrow> zm_heap M a = Some p"
proof (induction tokens arbitrary: M)
  case (Cons t ts)
  then have "zm_heap (scan_one now t M) a = Some p" by (simp only: scan_progress_Cons)
  then show ?case by (auto simp: scan_one_def remove_progress_simps split: option.splits if_splits)
qed simp

lemma scan_progress_removes:
  "zm_heap (scan_progress now tokens M) a = Some p \<Longrightarrow> token \<in> set tokens \<Longrightarrow> zm_store M token = Some a \<Longrightarrow>
   now < pr_expire_ts p"
proof (induction tokens arbitrary: M)
  case (Cons t ts)
  have run: "zm_heap (scan_progress now ts (scan_one now t M)) a = Some p"
    using Cons.prems(1) by (simp only: scan_progress_Cons)
  have h: "zm_heap (scan_one now t M) a = Some p" by (rule scan_progress_keeps [OF run])
  show ?case
  proof (cases "token = t")
    case True
    then show ?thesis
      using h Cons.prems(3) by (auto simp: scan_one_def remove_progress_simps split: option.splits if_splits)
  next
    case False
    then have "zm_store (scan_one now t M) token = Some a"
      using Cons.prems(3) by (auto simp: scan_one_def remove_progress_simps split: option.splits)
    then show ?thesis using Cons.IH [OF run] Cons.prems(2) False by simp
  qed
qed simp

lemma waiting_progress_freed:
  assumes "zip_inv M" "zip_download_mgr_start_zip_task S now M token info = Some (Inr (), M')"
    and "now + PROGRESS_TTL \<le> later" "token \<in> set tokens"
  shows "\<exists>obj. zm_queue M' = zm_queue M @ [obj] \<and> zm_heap (scan_progress later tokens M') (do_progress obj) = None"
proof -
  obtain obj where obj: "zm_queue M' = zm_queue M @ [obj]" "zm_store M' token = Some (do_progress obj)"
    "zm_heap M' (do_progress obj) = Some (new_progress now)"
    using start_zip_task_queued(2) [OF assms(1,2)] by auto
  have "zm_heap (scan_progress later tokens M') (do_progress obj) = None"
  proof (rule ccontr)
    assume "zm_heap (scan_progress later tokens M') (do_progress obj) \<noteq> None"
    then obtain p where p: "zm_heap (scan_progress later tokens M') (do_progress obj) = Some p" by blast
    from scan_progress_keeps [OF p] obj(3) have "p = new_progress now" by simp
    then show False
      using scan_progress_removes [OF p assms(4) obj(2)] assms(3) by (simp add: new_progress_def)
  qed
  with obj show ?thesis by blast
qed

section \<open>A task that succeeds\<close>

lemma crypt_decipher_ok:
  assumes ok: "openssl_ok ssl" and v: "sc_version c = 1 \<or> sc_version c = 2 \<or> 4 \<le> sc_version c"
  shows "decipher_ok (Some (crypt_decipher ssl c)) (Some (file_crypt ssl c))"
proof -
  have same: "data_cipher (sc_version c) = stream_cipher (sc_version c)"
    using v by (auto simp: data_cipher_def stream_cipher_def)
  have run: "dec_run (crypt_decipher ssl c) x ps = dec_pieces ssl x ps" for x ps
    by (induction ps arbitrary: x) (auto simp: crypt_decipher_def split: option.splits)
  have "length (concat ps) mod ENCRYPT_BLK_SIZE = 0 \<and> seafile_decrypt ssl c (concat ps) = Some out"
    if "seafile_decrypt_init ssl (sc_version c) (sc_key c) (sc_iv c) = Some x" "ps \<noteq> []" "[] \<notin> set ps"
      "dec_pieces ssl x ps = Some out" for x ps out
  proof -
    have "dec_once ssl (data_cipher (sc_version c)) (sc_key c) (sc_iv c) ps = Some out"
      using that(1,4) by (simp add: dec_once_def seafile_decrypt_init_def same)
    then have d: "dec_once ssl (data_cipher (sc_version c)) (sc_key c) (sc_iv c) [concat ps] = Some out"
      "length (concat ps) mod ENCRYPT_BLK_SIZE = 0" "length out \<le> length (concat ps)"
      using ok that(2,3) unfolding openssl_ok_def by blast+
    have "concat ps \<noteq> []" using that(2,3) by (cases ps) auto
    then show ?thesis using d by (simp add: seafile_decrypt_once)
  qed
  then show ?thesis
    by (auto simp: decipher_ok_def file_crypt_def run) (simp_all add: crypt_decipher_def)
qed

text \<open>Version 3 is encrypted with one cipher and deciphered for the archive with another.\<close>

lemma version3_not_deciphered:
  "case seafile_encrypt toy_ssl (seafile_crypt_new 3 [] []) ''x'' of
     None \<Rightarrow> False
   | Some y \<Rightarrow> seafile_decrypt toy_ssl (seafile_crypt_new 3 [] []) y = Some ''x'' \<and>
       dec_once toy_ssl (stream_cipher 3) [] [] [y] = None"
  by code_simp

text \<open>What a task went through when it returned.\<close>

definition task_crypt :: "('a, 'c) zip_env \<Rightarrow> passwd_mgr \<Rightarrow> download_obj \<Rightarrow> crypt_info option" where
  "task_crypt Z PM obj =
     (if rp_encrypted (do_repo obj) then get_seafile_crypt (ze_ssl Z) PM (do_repo obj) (do_user obj) else None)"

lemma start_zip_taskE:
  assumes "start_zip_task Z S PM M obj = Some (Some (ret, M', a))"
  obtains (failed) "ret = -1" "M' = remove_progress_by_token M (do_token obj)"
  | (packed) file_count p p' where
      "rp_encrypted (do_repo obj) \<longleftrightarrow> task_crypt Z PM obj \<noteq> None"
      "validate_download_size (ze_fuel Z) (fs_of S (do_repo obj)) (ze_max_size Z) (do_internal obj) = Some True"
      "get_download_file_count (ze_fuel Z) (fs_of S (do_repo obj)) (do_internal obj) = Some file_count"
      "zm_heap M (do_progress obj) = Some p"
      "pack_with_progress Z S obj (p\<lparr>pr_total := file_count\<rparr>) (task_crypt Z PM obj) = Some (ret, p', a)"
      "M' = (let M1 = (add_zip_file Z M)\<lparr>zm_heap := (zm_heap M)(do_progress obj \<mapsto> p')\<rparr>
             in if ret = -1 then remove_progress_by_token M1 (do_token obj) else M1)"
proof (cases "rp_encrypted (do_repo obj) \<and> task_crypt Z PM obj = None")
  case True
  then show ?thesis using assms by (intro failed) (auto simp: start_zip_task_def task_crypt_def zip_failed_def)
next
  case False
  then have run: "zip_with_crypt Z S M obj (task_crypt Z PM obj) = Some (Some (ret, M', a))"
    "rp_encrypted (do_repo obj) \<longleftrightarrow> task_crypt Z PM obj \<noteq> None"
    using assms by (auto simp: start_zip_task_def task_crypt_def split: if_splits)
  show ?thesis
    using run(1) unfolding zip_with_crypt_def
    by (simp only: Let_def split: option.split_asm if_split_asm prod.split_asm)
      (simp_all add: zip_failed_def failed packed [OF run(2)])
qed

text \<open>The parameters behave as documented, and a task can be deciphered.\<close>

definition zip_env_ok :: "('a, 'c) zip_env \<Rightarrow> block_store \<Rightarrow> ('a \<Rightarrow> (arch_entry \<times> bytes) list) \<Rightarrow> download_obj \<Rightarrow> bool" where
  "zip_env_ok Z bs view obj \<longleftrightarrow> archiver_ok (ze_archiver Z) view \<and> blocks_small bs \<and> openssl_ok (ze_ssl Z) \<and>
     build_ok (ze_build Z) \<and> slash_free_ends (do_dir_name obj) \<and> do_dir_name obj \<noteq> [] \<and>
     (rp_encrypted (do_repo obj) \<longrightarrow> rp_enc_version (do_repo obj) \<in> {1, 2, 4})"

lemma get_seafile_crypt_version: "get_seafile_crypt ssl PM r user = Some c \<Longrightarrow> sc_version c = rp_enc_version r"
  by (auto simp: get_seafile_crypt_def seafile_crypt_new_def Let_def split: option.splits prod.splits)

definition task_packed :: "('a, 'c) zip_env \<Rightarrow> session \<Rightarrow> passwd_mgr \<Rightarrow> download_obj \<Rightarrow> (string \<times> dirent) list
    \<Rightarrow> (arch_entry \<times> bytes) list" where
  "task_packed Z S PM obj l =
     root_packed (zip_pack_data Z S obj (new_progress 0) (task_crypt Z PM obj))
       (map_option (file_crypt (ze_ssl Z)) (task_crypt Z PM obj)) [] l"

lemma zip_pack_data_simps [simp]:
  "pe_libs (zip_pack_data Z S obj p crypt) = ss_libs S" "pe_blocks (zip_pack_data Z S obj p crypt) = ss_blocks S"
  "pe_view (zip_pack_data Z S obj p crypt) = fs_of S (do_repo obj)"
  "pe_archiver (zip_pack_data Z S obj p crypt) = ze_archiver Z"
  "pe_crypt (zip_pack_data Z S obj p crypt) = map_option (crypt_decipher (ze_ssl Z)) crypt"
  "pe_top (zip_pack_data Z S obj p crypt) = do_dir_name obj" "pe_build (zip_pack_data Z S obj p crypt) = ze_build Z"
  "pe_mtime (zip_pack_data Z S obj p crypt) = ze_mtime Z" "pe_encoding (zip_pack_data Z S obj p crypt) = ze_encoding Z"
  "pe_iconv (zip_pack_data Z S obj p crypt) = ze_iconv Z" "pe_windows (zip_pack_data Z S obj p crypt) = do_is_windows obj"
  by (simp_all add: zip_pack_data_def)

lemma root_packed_cong:
  "root_packed (zip_pack_data Z S obj p crypt) cr path l = root_packed (zip_pack_data Z S obj q crypt) cr path l"
proof -
  have "packed (zip_pack_data Z S obj p crypt) cr = packed (zip_pack_data Z S obj q crypt) cr"
    "dir_packed (zip_pack_data Z S obj p crypt) path = dir_packed (zip_pack_data Z S obj q crypt) path"
    by (auto simp: packed_def file_packed_def dir_packed_def fun_eq_iff file_content_def in_archive_def entry_name_def
        split: option.splits)
  then show ?thesis by (simp add: root_packed_def)
qed


lemma zip_task_failure:
  assumes "start_zip_task Z S PM M obj = Some (Some (ret, M', a))" "ret = -1"
  shows "zip_download_mgr_query_zip_progress L M' (do_token obj) = Inl SEAF_ERR_GENERAL"
  using assms
proof (cases rule: start_zip_taskE)
  case failed
  then show ?thesis
    by (simp add: zip_download_mgr_query_zip_progress_def get_progress_obj_def remove_progress_simps)
next
  case packed
  then show ?thesis
    using assms(2) by (simp add: zip_download_mgr_query_zip_progress_def get_progress_obj_def remove_progress_simps)
qed

section \<open>Runs\<close>

text \<open>What happens to the manager: requests, the timer, and workers taking tasks from the queue.\<close>

inductive zip_step :: "('a, 'c) zip_env \<Rightarrow> zip_mgr \<Rightarrow> zip_mgr \<Rightarrow> bool" for Z where
  request: "zip_download_mgr_start_zip_task S now M token info = Some (res, M') \<Longrightarrow> zip_step Z M M'"
| scan: "zip_step Z M (scan_progress now tokens M)"
| del: "zip_step Z M (zip_download_mgr_del_zip_progress M token)"
| cancel: "zip_download_mgr_cancel_zip_task M token = (r, M') \<Longrightarrow> zip_step Z M M'"
| work: "zm_queue M = obj # q \<Longrightarrow> start_zip_task Z S PM (M\<lparr>zm_queue := q\<rparr>) obj = Some (Some (ret, M', a)) \<Longrightarrow> zip_step Z M M'"

definition zip_init :: zip_mgr where
  "zip_init = \<lparr>zm_heap = Map.empty, zm_next = 0, zm_store = Map.empty, zm_queue = [], zm_files = {}\<rparr>"

inductive zip_reachable :: "('a, 'c) zip_env \<Rightarrow> zip_mgr \<Rightarrow> bool" for Z where
  init: "zip_reachable Z zip_init"
| step: "zip_reachable Z M \<Longrightarrow> zip_step Z M M' \<Longrightarrow> zip_reachable Z M'"

lemma zip_step_inv:
  assumes "zip_step Z M M'" "zip_inv M"
  shows "zip_inv M'"
  using assms
proof (induction rule: zip_step.induct)
  case (request S now M token info res M')
  then show ?case using start_zip_task_queued(1) by blast
next
  case (scan M now tokens)
  then show ?case by (rule scan_progress_inv)
next
  case (del M token)
  then show ?case by (simp add: zip_download_mgr_del_zip_progress_def remove_progress_inv)
next
  case (cancel M token r M')
  have "dom (\<lambda>b. if b = a then map_option f (h a) else h b) = dom h" for a f and h :: "nat \<Rightarrow> progress option"
    by (auto split: if_splits)
  then show ?case
    using cancel
    by (auto simp: zip_download_mgr_cancel_zip_task_def get_progress_obj_def zip_inv_def fun_upd_def split: option.splits)
next
  case (work M obj q S PM ret M' a)
  have q: "zip_inv (M\<lparr>zm_queue := q\<rparr>)" using work(3) by (simp add: zip_inv_def)
  from work(2) show ?case
  proof (cases rule: start_zip_taskE)
    case failed
    then show ?thesis using remove_progress_inv [OF q] by simp
  next
    case (packed cnt p p')
    let ?M = "(add_zip_file Z (M\<lparr>zm_queue := q\<rparr>))\<lparr>zm_heap := (zm_heap M)(do_progress obj \<mapsto> p')\<rparr>"
    have "zip_inv ?M"
      using q packed(4) by (simp add: zip_inv_def add_zip_file_def insert_absorb domI)
    then show ?thesis using packed(6) remove_progress_inv [of ?M] by (auto simp: Let_def split: if_splits)
  qed
qed

text \<open>In every state the zip manager reaches, each token has a progress object of its own that is allocated,
  and no other object is: polling never reads a freed object, and none is lost.\<close>

theorem zip_store_consistent:
  assumes "zip_reachable Z M"
  shows "dom (zm_heap M) = ran (zm_store M)" and "inj_on (zm_store M) (dom (zm_store M))"
proof -
  have "zip_inv M"
    using assms
  proof (induction rule: zip_reachable.induct)
    case init
    show ?case by (simp add: zip_inv_def tokens_inv_def zip_init_def)
  next
    case (step M M')
    then show ?case by (blast intro: zip_step_inv)
  qed
  then show "dom (zm_heap M) = ran (zm_store M)" "inj_on (zm_store M) (dom (zm_store M))"
    by (simp_all add: zip_inv_def tokens_inv_def)
qed

section \<open>A small task\<close>

definition null_ssl :: "unit openssl" where
  "null_ssl = \<lparr>os_pbkdf2 = (\<lambda>d s i n. replicate n (CHR 0x00)), os_bytes_to_key = (\<lambda>a s d i. ([], [])),
     os_enc_init = (\<lambda>a k i. None), os_enc_update = (\<lambda>_ _. None), os_enc_final = (\<lambda>_. None),
     os_dec_init = (\<lambda>a k i. None), os_dec_update = (\<lambda>_ _. None), os_dec_final = (\<lambda>_. None),
     os_stack = (\<lambda>n. replicate n (CHR 0x00))\<rparr>"

definition demo_zip_env :: "((arch_entry \<times> bytes) list, unit) zip_env" where
  "demo_zip_env = \<lparr>ze_fuel = 1, ze_ssl = null_ssl, ze_max_size = 0,
     ze_archiver = demo_archiver, ze_archive = [], ze_tmpfile = Some ''zip'', ze_encoding = None,
     ze_iconv = pe_iconv demo_pack, ze_build = pe_build demo_pack, ze_mtime = 7, ze_canceled = (\<lambda>_. False)\<rparr>"

definition demo_zip_session :: session where
  "demo_zip_session = \<lparr>ss_libs = demo_libs JNull, ss_searpc = demo_searpc, ss_now = 0, ss_repos = {},
     ss_virtual = [], ss_owners = [], ss_sizes = Map.empty, ss_counts = Map.empty,
     ss_fails = (\<lambda>_. False), ss_branches = demo_branch_db, ss_commits = demo_cstore, ss_fs = fv_store demo_view,
     ss_blocks = pe_blocks demo_pack, ss_events = []\<rparr>"

definition demo_download :: download_obj where
  "demo_download = \<lparr>do_token = ''token'',
     do_repo = seaf_repo_new [] None None (seaf_branch_new [] [] []), do_user = ''user'', do_is_windows = False,
     do_dir_name = ''top'', do_internal = PackDir demo_root_id, do_progress = 0\<rparr>"

definition demo_zip_mgr :: zip_mgr where
  "demo_zip_mgr = \<lparr>zm_heap = [0 \<mapsto> new_progress 3], zm_next = 1, zm_store = [''token'' \<mapsto> 0], zm_queue = [], zm_files = {}\<rparr>"


end
