(* ===== verification/WebToken.thy ===== *)
theory WebToken
  imports ZipDownload
begin

text \<open>
  Access tokens of the file server (\<open>server/web-accesstoken-mgr.c\<close>): the web front end asks for a token
  for one operation on one object, the client presents it within its time, a one-time token is removed
  when it is presented.  The last section has the threads of the server interleaved: looking a token up
  and removing it are two critical sections.
\<close>

section \<open>The table\<close>

record access_info =
  ai_repo_id :: string
  ai_obj_id :: string
  ai_op :: string
  ai_username :: string
  ai_expire_time :: int
  ai_use_onetime :: bool

text \<open>\<open>access_token_hash\<close>, what \<open>gen_uuid_inplace\<close> returns at each call and the calls so far.\<close>

record at_mgr =
  at_hash :: "string \<Rightarrow> access_info option"
  at_uuids :: "nat \<Rightarrow> string"
  at_drawn :: nat

definition TOKEN_LEN :: nat where "TOKEN_LEN = 36"

definition remove_expire_info :: "int \<Rightarrow> access_info \<Rightarrow> bool" where
  "remove_expire_info now info \<longleftrightarrow> now \<ge> ai_expire_time info"

definition clean_pulse :: "int \<Rightarrow> at_mgr \<Rightarrow> at_mgr" where
  "clean_pulse now T =
     T\<lparr>at_hash := (\<lambda>t. case at_hash T t of None \<Rightarrow> None
       | Some info \<Rightarrow> if remove_expire_info now info then None else Some info)\<rparr>"

text \<open>The loop ends when a token is not in the table; None is that it never does.\<close>

partial_function (option) gen_new_token ::
    "(nat \<Rightarrow> string) \<Rightarrow> (string \<Rightarrow> access_info option) \<Rightarrow> nat \<Rightarrow> (string \<times> nat) option" where
  "gen_new_token uuids token_hash k =
     (let token = take TOKEN_LEN (uuids k) in
      if token_hash token \<noteq> None then gen_new_token uuids token_hash (k + 1) else Some (token, k + 1))"

definition valid_ops :: "string list" where
  "valid_ops = [''view'', ''download'', ''downloadblks'', ''download-dir'', ''download-multi'', ''download-link'',
     ''download-dir-link'', ''download-multi-link'', ''upload'', ''update'', ''upload-link'', ''upload-blks-api'',
     ''upload-blks-aj'', ''update-blks-api'', ''update-blks-aj'']"

definition zip_ops :: "string list" where
  "zip_ops = [''download-dir'', ''download-multi'', ''download-dir-link'', ''download-multi-link'']"

definition web_access_of :: "access_info \<Rightarrow> web_access" where
  "web_access_of info = \<lparr>wa_repo_id = ai_repo_id info, wa_obj_id = ai_obj_id info, wa_op = ai_op info,
     wa_username = ai_username info\<rparr>"

text \<open>The critical section of \<open>get_access_token\<close>: a new token and its info in the table.\<close>

definition new_access :: "at_mgr \<Rightarrow> access_info \<Rightarrow> (string \<times> at_mgr) option" where
  "new_access T info =
     (case gen_new_token (at_uuids T) (at_hash T) (at_drawn T) of
        None \<Rightarrow> None
      | Some (t, k) \<Rightarrow> Some (t, T\<lparr>at_hash := (at_hash T)(t \<mapsto> info), at_drawn := k\<rparr>))"

text \<open>
  \<open>web_token_expire_time\<close> and \<open>go_fileserver\<close> are settings.  None is that no new token is found, or the
  crash of the request's parser (\<open>ZipDownload\<close>).
\<close>

definition seaf_web_at_manager_get_access_token ::
    "session \<Rightarrow> int \<Rightarrow> bool \<Rightarrow> int \<Rightarrow> at_mgr \<Rightarrow> zip_mgr \<Rightarrow> string \<Rightarrow> string \<Rightarrow> string \<Rightarrow> string \<Rightarrow> int
     \<Rightarrow> ((seaf_error + string) \<times> at_mgr \<times> zip_mgr) option" where
  "seaf_web_at_manager_get_access_token S web_token_expire_time go_fileserver now T M repo obj op username use_onetime =
     (if op \<notin> set valid_ops then Some (Inl SEAF_ERR_GENERAL, T, M)
      else
        (let info = \<lparr>ai_repo_id = repo, ai_obj_id = obj, ai_op = op, ai_username = username,
                      ai_expire_time = now + web_token_expire_time, ai_use_onetime = (use_onetime \<noteq> 0)\<rparr> in
         case new_access T info of
           None \<Rightarrow> None
         | Some (t, T) \<Rightarrow>
             if \<not> go_fileserver \<and> op \<in> set zip_ops then
               (case zip_download_mgr_start_zip_task S now M t (web_access_of info) of
                  None \<Rightarrow> None
                | Some (Inl e, M) \<Rightarrow> Some (Inl e, T\<lparr>at_hash := (at_hash T)(t := None)\<rparr>, M)
                | Some (Inr _, M) \<Rightarrow> Some (Inr t, T, M))
             else Some (Inr t, T, M)))"

definition seaf_web_at_manager_query_access_token ::
    "int \<Rightarrow> at_mgr \<Rightarrow> string \<Rightarrow> web_access option \<times> at_mgr" where
  "seaf_web_at_manager_query_access_token now T token =
     (case at_hash T token of
        None \<Rightarrow> (None, T)
      | Some info \<Rightarrow>
          if now - ai_expire_time info \<ge> 0 then (None, T)
          else (Some (web_access_of info),
                if ai_use_onetime info then T\<lparr>at_hash := (at_hash T)(token := None)\<rparr> else T))"

section \<open>New tokens\<close>

lemma gen_new_token_step:
  "gen_new_token uuids h k =
     (if h (take TOKEN_LEN (uuids k)) \<noteq> None then gen_new_token uuids h (k + 1) else Some (take TOKEN_LEN (uuids k), k + 1))"
  by (subst gen_new_token.simps) (simp add: Let_def)

lemma gen_new_token_finds:
  "(\<And>i. i < n \<Longrightarrow> h (take TOKEN_LEN (uuids (k + i))) \<noteq> None) \<Longrightarrow> h (take TOKEN_LEN (uuids (k + n))) = None \<Longrightarrow>
   gen_new_token uuids h k = Some (take TOKEN_LEN (uuids (k + n)), k + n + 1)"
proof (induction n arbitrary: k)
  case 0
  then show ?case by (subst gen_new_token_step) simp
next
  case (Suc n)
  have "h (take TOKEN_LEN (uuids (k + 1 + i))) \<noteq> None" if "i < n" for i
    using Suc.prems(1) [of "Suc i"] that by simp
  moreover have "h (take TOKEN_LEN (uuids k)) \<noteq> None" using Suc.prems(1) [of 0] by simp
  ultimately show ?case
    using Suc.IH [of "k + 1"] Suc.prems(2) by (subst gen_new_token_step) simp
qed

text \<open>The loop ends when more uuids than there are tokens in the table are distinct.\<close>

lemma gen_new_token_returns:
  assumes fin: "finite (dom h)" and inj: "inj_on (\<lambda>k. take TOKEN_LEN (uuids k)) {k..k + card (dom h)}"
  shows "\<exists>n. n \<le> card (dom h) \<and> gen_new_token uuids h k = Some (take TOKEN_LEN (uuids (k + n)), k + n + 1) \<and>
    h (take TOKEN_LEN (uuids (k + n))) = None"
proof -
  let ?tok = "\<lambda>k. take TOKEN_LEN (uuids k)"
  have ex: "\<exists>n\<le>card (dom h). h (?tok (k + n)) = None"
  proof (rule ccontr)
    assume none: "\<not> ?thesis"
    have "?tok ` {k..k + card (dom h)} \<subseteq> dom h"
    proof
      fix t assume "t \<in> ?tok ` {k..k + card (dom h)}"
      then obtain m where m: "k \<le> m" "m \<le> k + card (dom h)" "t = ?tok m" by auto
      then have "m - k \<le> card (dom h)" "k + (m - k) = m" by simp_all
      then show "t \<in> dom h" using none m(3) by (metis domIff)
    qed
    then have "card {k..k + card (dom h)} \<le> card (dom h)"
      using card_mono [OF fin] card_image [OF inj] by metis
    then show False by simp
  qed
  define n where "n = (LEAST n. h (?tok (k + n)) = None)"
  from ex have n: "h (?tok (k + n)) = None" "n \<le> card (dom h)"
    unfolding n_def by (metis (mono_tags, lifting) LeastI, metis (mono_tags, lifting) Least_le le_trans)
  have "h (?tok (k + i)) \<noteq> None" if "i < n" for i
    using not_less_Least [of i "\<lambda>n. h (?tok (k + n)) = None"] that by (simp add: n_def)
  then show ?thesis using gen_new_token_finds [of n h uuids k] n by blast
qed

lemma gen_new_token_result:
  assumes "gen_new_token uuids h k = Some r"
  shows "\<exists>n. fst r = take TOKEN_LEN (uuids (k + n)) \<and> snd r = k + n + 1 \<and> h (fst r) = None"
proof (rule gen_new_token.raw_induct [where P = "\<lambda>uuids h k r.
      \<exists>n. fst r = take TOKEN_LEN (uuids (k + n)) \<and> snd r = k + n + 1 \<and> h (fst r) = None", OF _ assms])
  fix gen :: "(nat \<Rightarrow> string) \<Rightarrow> (string \<Rightarrow> access_info option) \<Rightarrow> nat \<Rightarrow> (string \<times> nat) option" and uuids h k r
  assume IH: "\<And>uuids h k r. gen uuids h k = Some r \<Longrightarrow>
      \<exists>n. fst r = take TOKEN_LEN (uuids (k + n)) \<and> snd r = k + n + 1 \<and> h (fst r) = None"
    and body: "(let token = take TOKEN_LEN (uuids k) in
      if h token \<noteq> None then gen uuids h (k + 1) else Some (token, k + 1)) = Some r"
  show "\<exists>n. fst r = take TOKEN_LEN (uuids (k + n)) \<and> snd r = k + n + 1 \<and> h (fst r) = None"
  proof (cases "h (take TOKEN_LEN (uuids k)) = None")
    case True
    then show ?thesis using body by (intro exI [of _ 0]) (auto simp: Let_def)
  next
    case False
    then have "gen uuids h (k + 1) = Some r" using body by (simp add: Let_def)
    from IH [OF this] obtain n where "fst r = take TOKEN_LEN (uuids (k + 1 + n))" "snd r = k + 1 + n + 1"
      "h (fst r) = None" by blast
    then show ?thesis by (intro exI [of _ "Suc n"]) simp
  qed
qed

lemma new_accessE:
  assumes "new_access T info = Some (t, T')"
  obtains n where "t = take TOKEN_LEN (at_uuids T (at_drawn T + n))" "at_hash T t = None"
    "T' = T\<lparr>at_hash := (at_hash T)(t \<mapsto> info), at_drawn := at_drawn T + n + 1\<rparr>"
  using assms gen_new_token_result [of "at_uuids T" "at_hash T" "at_drawn T"]
  by (fastforce simp: new_access_def split: option.splits prod.splits)

section \<open>The threads of the server\<close>

text \<open>
  A thread that answers a query has looked the token up and holds the info it found until it is done.
  \<open>as_granted\<close> and \<open>as_issued\<close> record what was granted, when, and what was asked for.  With \<open>serial\<close>
  a look-up waits for the query that is under way.
\<close>

record at_sys =
  as_mgr :: at_mgr
  as_query :: "nat \<Rightarrow> (string \<times> access_info) option"
  as_granted :: "(string \<times> access_info \<times> int) list"
  as_issued :: "(string \<times> access_info) list"

definition drop_token :: "string \<Rightarrow> at_mgr \<Rightarrow> at_mgr" where
  "drop_token t T = T\<lparr>at_hash := (at_hash T)(t := None)\<rparr>"

inductive at_step :: "bool \<Rightarrow> at_sys \<Rightarrow> at_sys \<Rightarrow> bool" for serial where
  issue: "new_access (as_mgr s) info = Some (t, T') \<Longrightarrow>
    at_step serial s (s\<lparr>as_mgr := T', as_issued := (t, info) # as_issued s\<rparr>)"
| withdraw: "at_step serial s (s\<lparr>as_mgr := drop_token t (as_mgr s)\<rparr>)"
| clean: "at_step serial s (s\<lparr>as_mgr := clean_pulse now (as_mgr s)\<rparr>)"
| lookup: "at_hash (as_mgr s) t = Some info \<Longrightarrow> as_query s i = None \<Longrightarrow> \<forall>j. serial \<longrightarrow> as_query s j = None \<Longrightarrow>
    at_step serial s (s\<lparr>as_query := (as_query s)(i \<mapsto> (t, info))\<rparr>)"
| refuse: "as_query s i = Some (t, info) \<Longrightarrow> now - ai_expire_time info \<ge> 0 \<Longrightarrow>
    at_step serial s (s\<lparr>as_query := (as_query s)(i := None)\<rparr>)"
| grant: "as_query s i = Some (t, info) \<Longrightarrow> \<not> now - ai_expire_time info \<ge> 0 \<Longrightarrow>
    at_step serial s (s\<lparr>as_query := (as_query s)(i := None), as_granted := (t, info, now) # as_granted s,
      as_mgr := (if ai_use_onetime info then drop_token t (as_mgr s) else as_mgr s)\<rparr>)"

definition at_init :: "(nat \<Rightarrow> string) \<Rightarrow> at_sys" where
  "at_init uuids = \<lparr>as_mgr = \<lparr>at_hash = Map.empty, at_uuids = uuids, at_drawn = 0\<rparr>, as_query = Map.empty,
     as_granted = [], as_issued = []\<rparr>"

inductive at_reachable :: "bool \<Rightarrow> (nat \<Rightarrow> string) \<Rightarrow> at_sys \<Rightarrow> bool" for serial uuids where
  init: "at_reachable serial uuids (at_init uuids)"
| step: "at_reachable serial uuids s \<Longrightarrow> at_step serial s s' \<Longrightarrow> at_reachable serial uuids s'"

text \<open>A query that no other thread comes between is the function.\<close>

lemma query_is_lookup_then_grant:
  assumes "as_query s i = None" "at_hash (as_mgr s) t = Some info" "now < ai_expire_time info"
    and "\<forall>j. serial \<longrightarrow> as_query s j = None"
  shows "\<exists>s1 s2. at_step serial s s1 \<and> at_step serial s1 s2 \<and>
    (Some (web_access_of info), as_mgr s2) = seaf_web_at_manager_query_access_token now (as_mgr s) t"
proof -
  let ?s1 = "s\<lparr>as_query := (as_query s)(i \<mapsto> (t, info))\<rparr>"
  let ?s2 = "?s1\<lparr>as_query := (as_query ?s1)(i := None), as_granted := (t, info, now) # as_granted ?s1,
      as_mgr := (if ai_use_onetime info then drop_token t (as_mgr ?s1) else as_mgr ?s1)\<rparr>"
  have "at_step serial s ?s1" by (rule at_step.lookup) (use assms in auto)
  moreover have "at_step serial ?s1 ?s2" by (rule at_step.grant) (use assms in auto)
  moreover have "(Some (web_access_of info), as_mgr ?s2) = seaf_web_at_manager_query_access_token now (as_mgr s) t"
    using assms by (simp add: seaf_web_at_manager_query_access_token_def drop_token_def)
  ultimately show ?thesis by blast
qed

text \<open>What is in the table and in the hands of a thread was issued, under tokens that were drawn.\<close>

definition token_no :: "(nat \<Rightarrow> string) \<Rightarrow> nat \<Rightarrow> string" where
  "token_no uuids k = take TOKEN_LEN (uuids k)"

definition at_inv :: "(nat \<Rightarrow> string) \<Rightarrow> at_sys \<Rightarrow> bool" where
  "at_inv uuids s \<longleftrightarrow> at_uuids (as_mgr s) = uuids \<and>
     (\<forall>t info. at_hash (as_mgr s) t = Some info \<longrightarrow> (t, info) \<in> set (as_issued s)) \<and>
     (\<forall>i t info. as_query s i = Some (t, info) \<longrightarrow> (t, info) \<in> set (as_issued s)) \<and>
     (\<forall>t info now. (t, info, now) \<in> set (as_granted s) \<longrightarrow> (t, info) \<in> set (as_issued s) \<and> now < ai_expire_time info) \<and>
     (\<forall>t info. (t, info) \<in> set (as_issued s) \<longrightarrow> (\<exists>k<at_drawn (as_mgr s). t = token_no uuids k))"

lemma at_inv_sub:
  assumes inv: "at_inv uuids s" and "at_uuids (as_mgr s') = at_uuids (as_mgr s)" "at_drawn (as_mgr s') = at_drawn (as_mgr s)"
    and "as_issued s' = as_issued s"
    and hash: "\<And>t info. at_hash (as_mgr s') t = Some info \<Longrightarrow> at_hash (as_mgr s) t = Some info"
    and query: "\<And>i t info. as_query s' i = Some (t, info) \<Longrightarrow> as_query s i = Some (t, info) \<or> (t, info) \<in> set (as_issued s)"
    and granted: "\<And>t info now. (t, info, now) \<in> set (as_granted s') \<Longrightarrow>
      (t, info, now) \<in> set (as_granted s) \<or> (t, info) \<in> set (as_issued s) \<and> now < ai_expire_time info"
  shows "at_inv uuids s'"
proof -
  have u: "at_uuids (as_mgr s) = uuids"
    and k: "\<forall>t info. (t, info) \<in> set (as_issued s) \<longrightarrow> (\<exists>k<at_drawn (as_mgr s). t = token_no uuids k)"
    using inv unfolding at_inv_def by blast+
  have c1: "(t, info) \<in> set (as_issued s)" if "as_query s' i = Some (t, info)" for i t info
    using query [OF that] inv unfolding at_inv_def by blast
  have c2: "(t, info) \<in> set (as_issued s) \<and> now < ai_expire_time info" if "(t, info, now) \<in> set (as_granted s')" for t info now
    using granted [OF that] inv unfolding at_inv_def by blast
  have c3: "(t, info) \<in> set (as_issued s)" if "at_hash (as_mgr s') t = Some info" for t info
    using hash [OF that] inv unfolding at_inv_def by blast
  show ?thesis
    unfolding at_inv_def assms(2-4) by (intro conjI allI impI u) (use k c1 c2 c3 in \<open>(simp; fail) | blast\<close>)+
qed

lemma at_step_inv:
  assumes "at_step serial s s'" "at_inv uuids s"
  shows "at_inv uuids s'"
  using assms
proof (induction rule: at_step.induct)
  case (issue s info t T')
  from issue(1) obtain n where n: "t = take TOKEN_LEN (at_uuids (as_mgr s) (at_drawn (as_mgr s) + n))"
    "T' = (as_mgr s)\<lparr>at_hash := (at_hash (as_mgr s))(t \<mapsto> info), at_drawn := at_drawn (as_mgr s) + n + 1\<rparr>"
    by (rule new_accessE)
  have "\<exists>k<at_drawn (as_mgr s) + n + 1. u = token_no uuids k" if mem: "(u, j) \<in> set (as_issued s)" for u j
  proof -
    obtain k where "k < at_drawn (as_mgr s)" "u = token_no uuids k" using issue(2) mem unfolding at_inv_def by blast
    then show ?thesis by (intro exI [of _ k]) simp
  qed
  moreover have "t = token_no uuids (at_drawn (as_mgr s) + n)" using n(1) issue(2) by (simp add: at_inv_def token_no_def)
  moreover have "at_uuids (as_mgr s) = uuids"
    "\<And>u j. at_hash (as_mgr s) u = Some j \<Longrightarrow> (u, j) \<in> set (as_issued s)"
    "\<And>i u j. as_query s i = Some (u, j) \<Longrightarrow> (u, j) \<in> set (as_issued s)"
    "\<And>u j now. (u, j, now) \<in> set (as_granted s) \<Longrightarrow> (u, j) \<in> set (as_issued s) \<and> now < ai_expire_time j"
    using issue(2) unfolding at_inv_def by blast+
  ultimately show ?case unfolding at_inv_def n(2) by (auto split: if_splits)
next
  case (withdraw s t)
  then show ?case by (rule at_inv_sub) (auto simp: drop_token_def split: if_splits)
next
  case (clean s now)
  then show ?case by (rule at_inv_sub) (auto simp: clean_pulse_def split: option.splits if_splits)
next
  case (lookup s t info i)
  from lookup(4) show ?case by (rule at_inv_sub) (use lookup in \<open>auto simp: at_inv_def split: if_splits\<close>)
next
  case (refuse s i t info now)
  from refuse(3) show ?case by (rule at_inv_sub) (auto split: if_splits)
next
  case (grant s i t info now)
  from grant(3) have "(t, info) \<in> set (as_issued s)" using grant(1) by (simp add: at_inv_def)
  with grant(3) show ?case by (elim at_inv_sub) (use grant(2) in \<open>auto simp: drop_token_def split: if_splits\<close>)
qed

lemma at_reachable_inv: "at_reachable serial uuids s \<Longrightarrow> at_inv uuids s"
proof (induction rule: at_reachable.induct)
  case init
  show ?case by (simp add: at_inv_def at_init_def)
next
  case (step s s')
  then show ?case by (blast intro: at_step_inv)
qed


section \<open>One-time tokens\<close>

text \<open>The grants of one token.\<close>

definition grants_of :: "string \<Rightarrow> at_sys \<Rightarrow> (string \<times> access_info \<times> int) list" where
  "grants_of t s = filter (\<lambda>g. fst g = t) (as_granted s)"

text \<open>When queries are serial: one is under way at a time, and a granted one-time token is gone for good.\<close>

definition once_inv :: "at_sys \<Rightarrow> bool" where
  "once_inv s \<longleftrightarrow>
     distinct (map fst (as_issued s)) \<and>
     (\<forall>i j. as_query s i \<noteq> None \<longrightarrow> as_query s j \<noteq> None \<longrightarrow> i = j) \<and>
     (\<forall>t info. (t, info) \<in> set (as_issued s) \<longrightarrow> ai_use_onetime info \<longrightarrow> length (grants_of t s) \<le> 1 \<and>
        (grants_of t s \<noteq> [] \<longrightarrow> at_hash (as_mgr s) t = None \<and> (\<forall>i. map_option fst (as_query s i) \<noteq> Some t)))"

lemma issued_unique:
  "distinct (map fst l) \<Longrightarrow> (t, a) \<in> set l \<Longrightarrow> (t, b) \<in> set l \<Longrightarrow> a = b"
  by (metis map_of_is_SomeI option.inject)

lemma once_invE:
  assumes "once_inv s" "(t, info) \<in> set (as_issued s)" "ai_use_onetime info"
  shows "length (grants_of t s) \<le> 1" "grants_of t s \<noteq> [] \<Longrightarrow> at_hash (as_mgr s) t = None"
    "grants_of t s \<noteq> [] \<Longrightarrow> map_option fst (as_query s i) \<noteq> Some t"
  using assms unfolding once_inv_def by blast+

lemma once_inv_sub:
  assumes inv: "once_inv s" and "as_issued s' = as_issued s" "as_granted s' = as_granted s"
    and query: "\<And>i. as_query s' i \<noteq> None \<Longrightarrow> as_query s' i = as_query s i"
    and hash: "\<And>t. at_hash (as_mgr s) t = None \<Longrightarrow> at_hash (as_mgr s') t = None"
  shows "once_inv s'"
proof -
  have g: "grants_of t s' = grants_of t s" for t by (simp add: grants_of_def assms(3))
  have "as_query s' i \<noteq> None \<Longrightarrow> as_query s' j \<noteq> None \<Longrightarrow> i = j" for i j
    using query inv unfolding once_inv_def by metis
  moreover have "map_option fst (as_query s' i) = Some t \<Longrightarrow> map_option fst (as_query s i) = Some t" for i t
    using query [of i] by fastforce
  ultimately show ?thesis
    using inv hash unfolding once_inv_def g assms(2) by blast
qed

lemma at_step_drawn: "at_step serial s s' \<Longrightarrow> at_drawn (as_mgr s) \<le> at_drawn (as_mgr s')"
  by (induction rule: at_step.induct) (auto simp: drop_token_def clean_pulse_def elim: new_accessE)

lemma serial_step_once:
  assumes "at_step True s s'" "once_inv s" "at_inv uuids s" "inj_on (token_no uuids) {..<at_drawn (as_mgr s')}"
  shows "once_inv s'"
  using assms
proof (induction rule: at_step.induct)
  case (issue s info t T')
  from issue(1) obtain n where n: "t = take TOKEN_LEN (at_uuids (as_mgr s) (at_drawn (as_mgr s) + n))"
    "T' = (as_mgr s)\<lparr>at_hash := (at_hash (as_mgr s))(t \<mapsto> info), at_drawn := at_drawn (as_mgr s) + n + 1\<rparr>"
    by (rule new_accessE)
  have t: "t = token_no uuids (at_drawn (as_mgr s) + n)" using n(1) issue(3) by (simp add: at_inv_def token_no_def)
  have new: "u \<noteq> t" if mem: "(u, j) \<in> set (as_issued s)" for u j
  proof -
    obtain k where "k < at_drawn (as_mgr s)" "u = token_no uuids k" using issue(3) mem unfolding at_inv_def by blast
    then show ?thesis unfolding t using inj_onD [OF issue(4), of k "at_drawn (as_mgr s) + n"] n(2) by auto
  qed
  have none: "grants_of t s = []"
    using new issue(3) by (fastforce simp: grants_of_def filter_empty_conv at_inv_def)
  let ?s = "s\<lparr>as_mgr := T', as_issued := (t, info) # as_issued s\<rparr>"
  have g: "grants_of u ?s = grants_of u s" for u by (simp add: grants_of_def)
  have "length (grants_of u s) \<le> 1 \<and> (grants_of u s \<noteq> [] \<longrightarrow> at_hash T' u = None \<and>
      (\<forall>i. map_option fst (as_query s i) \<noteq> Some u))" if u: "(u, j) \<in> set ((t, info) # as_issued s)" "ai_use_onetime j" for u j
  proof (cases "u = t")
    case True
    then show ?thesis using none by simp
  next
    case False
    then show ?thesis using once_invE [OF issue(2) _ u(2), of u] u(1) n(2) by auto
  qed
  moreover have "distinct (map fst ((t, info) # as_issued s))"
    using issue(2) new by (force simp: once_inv_def)
  ultimately show ?case using issue(2) unfolding once_inv_def g by simp
next
  case (withdraw s t)
  then show ?case by (rule_tac once_inv_sub) (auto simp: drop_token_def)
next
  case (clean s now)
  then show ?case by (rule_tac once_inv_sub) (auto simp: clean_pulse_def)
next
  case (lookup s t info i)
  let ?s = "s\<lparr>as_query := (as_query s)(i \<mapsto> (t, info))\<rparr>"
  have idle: "as_query s j = None" for j using lookup(3) by simp
  have mem: "(t, info) \<in> set (as_issued s)" using lookup(1,5) unfolding at_inv_def by blast
  have g: "grants_of u ?s = grants_of u s" for u by (simp add: grants_of_def)
  have "map_option fst (as_query ?s k) \<noteq> Some u"
    if "(u, j) \<in> set (as_issued s)" "ai_use_onetime j" "grants_of u s \<noteq> []" for u j k
    using once_invE(2) [OF lookup(4) that] lookup(1) idle by (auto split: if_splits)
  then show ?case using lookup(4) idle unfolding once_inv_def g by (auto split: if_splits)
next
  case (refuse s i t info now)
  then show ?case by (rule_tac once_inv_sub) (auto split: if_splits)
next
  case (grant s i t info now)
  let ?s = "s\<lparr>as_query := (as_query s)(i := None), as_granted := (t, info, now) # as_granted s,
      as_mgr := (if ai_use_onetime info then drop_token t (as_mgr s) else as_mgr s)\<rparr>"
  have mem: "(t, info) \<in> set (as_issued s)" using grant(1,4) unfolding at_inv_def by blast
  have idle: "as_query s j = None" if "j \<noteq> i" for j using grant(1,3) that unfolding once_inv_def by (metis option.distinct(1))
  have "length (grants_of u ?s) \<le> 1 \<and> (grants_of u ?s \<noteq> [] \<longrightarrow> at_hash (as_mgr ?s) u = None \<and>
      (\<forall>k. map_option fst (as_query ?s k) \<noteq> Some u))" if u: "(u, j) \<in> set (as_issued s)" "ai_use_onetime j" for u j
  proof (cases "u = t")
    case True
    then have "info = j" using issued_unique mem u(1) grant(3) by (fastforce simp: once_inv_def)
    moreover have "grants_of t s = []" using once_invE(3) [OF grant(3) mem, of i] grant(1) u(2) \<open>info = j\<close> by auto
    ultimately have "grants_of u ?s = [(t, info, now)]" "ai_use_onetime info"
      using True u(2) by (simp_all add: grants_of_def)
    moreover have "map_option fst (as_query ?s k) \<noteq> Some u" for k using idle by simp
    ultimately show ?thesis using True by (simp add: drop_token_def)
  next
    case False
    then have "grants_of u ?s = grants_of u s" by (simp add: grants_of_def)
    moreover have "map_option fst (as_query ?s k) \<noteq> Some u" for k using idle by simp
    ultimately show ?thesis using once_invE(1,2) [OF grant(3) u] by (simp add: drop_token_def)
  qed
  moreover have "as_query ?s j = None" for j using idle by simp
  ultimately show ?case using grant(3) unfolding once_inv_def by simp
qed



text \<open>A run with one query.\<close>

definition demo_token :: string where "demo_token = replicate 36 (CHR ''a'')"

definition demo_access :: access_info where
  "demo_access = \<lparr>ai_repo_id = ''r'', ai_obj_id = ''o'', ai_op = ''download'', ai_username = ''u'',
     ai_expire_time = 10, ai_use_onetime = True\<rparr>"

definition demo_at :: at_sys where
  "demo_at = \<lparr>as_mgr = \<lparr>at_hash = Map.empty, at_uuids = (\<lambda>_. demo_token), at_drawn = 1\<rparr>, as_query = Map.empty,
     as_granted = [(demo_token, demo_access, 1)], as_issued = [(demo_token, demo_access)]\<rparr>"

lemma demo_at_reachable: "at_reachable True (\<lambda>_. demo_token) demo_at"
proof -
  let ?T0 = "\<lparr>at_hash = Map.empty, at_uuids = (\<lambda>_. demo_token), at_drawn = 0\<rparr>"
  let ?T1 = "\<lparr>at_hash = [demo_token \<mapsto> demo_access], at_uuids = (\<lambda>_. demo_token), at_drawn = 1\<rparr>"
  let ?s1 = "\<lparr>as_mgr = ?T1, as_query = Map.empty, as_granted = [], as_issued = [(demo_token, demo_access)]\<rparr>"
  have "gen_new_token (\<lambda>_. demo_token) Map.empty 0 = Some (demo_token, 1)"
    by (subst gen_new_token_step) (simp add: TOKEN_LEN_def demo_token_def)
  then have "at_step True (at_init (\<lambda>_. demo_token)) ?s1"
    using at_step.issue [of "at_init (\<lambda>_. demo_token)" demo_access demo_token ?T1 True]
    by (simp add: at_init_def new_access_def)
  then have r1: "at_reachable True (\<lambda>_. demo_token) ?s1" by (rule at_reachable.step [OF at_reachable.init])
  obtain s2 s3 where s: "at_step True ?s1 s2" "at_step True s2 s3" "s3 = demo_at"
    using at_step.lookup [of ?s1 demo_token demo_access 0 True]
      at_step.grant [of "?s1\<lparr>as_query := [0 \<mapsto> (demo_token, demo_access)]\<rparr>" 0 demo_token demo_access 1 True]
    by (simp add: demo_access_def [THEN arg_cong, of ai_expire_time] demo_access_def [THEN arg_cong, of ai_use_onetime]
        drop_token_def demo_at_def fun_upd_idem)
  show ?thesis using at_reachable.step [OF at_reachable.step [OF r1 s(1)] s(2)] by (simp only: s(3))
qed



end
