(* ===== verification/Fsck.thy ===== *)
theory Fsck
  imports GcRepo
begin

text \<open>
  Checking and repairing libraries (\<open>server/gc/fsck.c\<close>).  The head commit's tree is walked; a file or
  directory that is missing or damaged is replaced by an empty one, the directories above it are made
  anew, and with \<open>repair\<close> a commit of the new root becomes the head.  When the head cannot be loaded the
  newest commit with a valid root takes its place.  The properties say that valid objects and blocks are
  kept, that a healthy tree is left alone, and that the repaired tree is healthy.
\<close>

section \<open>Objects and blocks\<close>

datatype verify_type = VERIFY_FILE | VERIFY_DIR

text \<open>The result and \<open>io_error\<close>, which the callers have set to FALSE.\<close>

definition fsck_verify_seafobj ::
    "gc_session \<Rightarrow> string \<Rightarrow> int \<Rightarrow> string \<Rightarrow> verify_type \<Rightarrow> bool \<Rightarrow> bool \<times> bool \<times> gc_session" where
  "fsck_verify_seafobj S store_id version obj_id type repair =
     (if \<not> seaf_fs_manager_object_exists (gs_libs S) (gs_fs S) store_id obj_id then (False, False, S)
      else
        (case (case type of
                 VERIFY_FILE \<Rightarrow> seaf_fs_manager_verify_seafile (gs_libs S) (gs_fs S) store_id version obj_id True
               | VERIFY_DIR \<Rightarrow> seaf_fs_manager_verify_seafdir (gs_libs S) (gs_fs S) store_id version obj_id True) of
           (valid, io_error) \<Rightarrow>
             (valid, io_error,
              if \<not> valid \<and> \<not> io_error \<and> repair
              then S\<lparr>gs_fs := seaf_fs_manager_delete_object (gs_libs S) (gs_fs S) store_id obj_id\<rparr> else S)))"

text \<open>
  \<open>FsckData\<close>.  \<open>fk_saved\<close> is not in the code: it is the trace of the directories that were given to
  \<open>seaf_dir_save\<close> with success, for the statements.
\<close>

record fsck_data =
  fk_repair :: bool
  fk_repo :: gc_repo
  fk_existing :: "string set"
  fk_files :: "string list"
  fk_folders :: "string list"
  fk_saved :: "seafdir list"

text \<open>
  The loop over the blocks of a file.  A missing block is not entered into \<open>existing_blocks\<close>, a damaged
  one is; an I/O error after a block that is bad counts as damage.
\<close>

fun fsck_block_loop :: "string list \<Rightarrow> int \<Rightarrow> gc_session \<Rightarrow> fsck_data \<Rightarrow> int \<times> bool \<times> gc_session \<times> fsck_data" where
  "fsck_block_loop [] ret S d = (ret, False, S, d)"
| "fsck_block_loop (block_id # ids) ret S d =
     (if block_id \<in> fk_existing d then fsck_block_loop ids ret S d
      else if \<not> seaf_block_manager_block_exists (gs_libs S) (gs_blocks S) (gr_store_id (fk_repo d)) block_id
      then fsck_block_loop ids (-1) S d
      else
        (let d' = d\<lparr>fk_existing := insert block_id (fk_existing d)\<rparr> in
         case seaf_block_manager_verify_block (gs_libs S) (gs_blocks S) (gr_store_id (fk_repo d)) block_id of
           None \<Rightarrow> (-1, \<not> ret < 0, S, d)
         | Some True \<Rightarrow> fsck_block_loop ids ret S d'
         | Some False \<Rightarrow>
             fsck_block_loop ids (-1)
               (if fk_repair d
                then S\<lparr>gs_blocks := snd (seaf_block_manager_remove_block (gs_libs S) (gs_blocks S)
                                           (gr_store_id (fk_repo d)) block_id)\<rparr>
                else S) d'))"

text \<open>None is the use of the null pointer when the file object, though valid, cannot be parsed.\<close>

definition fsck_check_blocks :: "string \<Rightarrow> gc_session \<Rightarrow> fsck_data \<Rightarrow> (int \<times> bool \<times> gc_session \<times> fsck_data) option" where
  "fsck_check_blocks i S d =
     (case get_file (gc_fs S (fk_repo d)) i of
        None \<Rightarrow> None
      | Some f \<Rightarrow> Some (fsck_block_loop (blk_sha1s f) 0 S d))"

section \<open>Directories\<close>

text \<open>
  The variable \<open>dir_id\<close> when the function returns: an id, NULL, or the pointer to the id of the last
  sub-directory, which has been freed.
\<close>

datatype dir_result = DirOk string | DirNull | DirFreed

definition empty_file :: "gc_session \<Rightarrow> dirent \<Rightarrow> dirent" where
  "empty_file S dent = dent\<lparr>d_id := EMPTY_SHA1, d_mtime := of_int (gs_now S), d_size := 0\<rparr>"

text \<open>A regular file: the entry and whether it is damaged; the inner None is an I/O error.\<close>

definition fsck_file :: "dirent \<Rightarrow> gc_session \<Rightarrow> fsck_data \<Rightarrow> ((dirent \<times> bool) option \<times> gc_session \<times> fsck_data) option" where
  "fsck_file dent S d =
     (case fsck_verify_seafobj S (gr_store_id (fk_repo d)) (gr_version (fk_repo d)) (d_id dent) VERIFY_FILE (fk_repair d) of
        (False, io_error, S) \<Rightarrow> Some (if io_error then None else Some (empty_file S dent, True), S, d)
      | (True, _, S) \<Rightarrow>
          (case fsck_check_blocks (d_id dent) S d of
             None \<Rightarrow> None
           | Some (ret, io_error, S, d) \<Rightarrow>
               Some (if ret < 0 then if io_error then None else Some (empty_file S dent, True)
                     else Some (dent, False), S, d)))"

text \<open>
  The loop over the entries, with the entries so far, \<open>dir_id\<close> and \<open>is_corrupted\<close>.  \<open>Inl\<close> is the jump to
  \<open>out\<close>.  None is that the fuel ran out or a null or freed pointer was used.
\<close>

fun fsck_entries ::
    "(string \<Rightarrow> string \<Rightarrow> gc_session \<Rightarrow> fsck_data \<Rightarrow> (dir_result \<times> gc_session \<times> fsck_data) option) \<Rightarrow> string
     \<Rightarrow> dirent list \<Rightarrow> dirent list \<Rightarrow> dir_result \<Rightarrow> bool \<Rightarrow> gc_session \<Rightarrow> fsck_data
     \<Rightarrow> ((dir_result + bool \<times> dirent list) \<times> gc_session \<times> fsck_data) option" where
  "fsck_entries walk parent_dir [] acc last_id corrupted S d = Some (Inr (corrupted, acc), S, d)"
| "fsck_entries walk parent_dir (dent # es) acc last_id corrupted S d =
     (if S_ISREG (d_mode dent) then
        (case fsck_file dent S d of
           None \<Rightarrow> None
         | Some (None, S, d) \<Rightarrow> Some (Inl last_id, S, d)
         | Some (Some (dent, bad), S, d) \<Rightarrow>
             (let corrupted = (corrupted \<or> bad);
                  d = (if corrupted then d\<lparr>fk_files := (parent_dir @ d_name dent) # fk_files d\<rparr> else d)
              in fsck_entries walk parent_dir es (acc @ [dent]) last_id corrupted S d))
      else if S_ISDIR (d_mode dent) then
        (let path = parent_dir @ d_name dent @ ''/'' in
         case fsck_verify_seafobj S (gr_store_id (fk_repo d)) (gr_version (fk_repo d)) (d_id dent) VERIFY_DIR (fk_repair d) of
           (False, io_error, S) \<Rightarrow>
             if io_error then Some (Inl last_id, S, d)
             else fsck_entries walk parent_dir es (acc @ [dent\<lparr>d_id := EMPTY_SHA1\<rparr>]) last_id True S
                    (d\<lparr>fk_folders := path # fk_folders d\<rparr>)
         | (True, _, S) \<Rightarrow>
             (case walk (d_id dent) path S d of
                None \<Rightarrow> None
              | Some (DirFreed, _, _) \<Rightarrow> None
              | Some (DirNull, S, d) \<Rightarrow> Some (Inl DirNull, S, d)
              | Some (DirOk i, S, d) \<Rightarrow>
                  if strcmp i (d_id dent) \<noteq> 0
                  then fsck_entries walk parent_dir es (acc @ [dent\<lparr>d_id := i\<rparr>]) DirFreed True S d
                  else fsck_entries walk parent_dir es (acc @ [dent]) DirFreed corrupted S d))
      else fsck_entries walk parent_dir es (acc @ [dent]) last_id corrupted S d)"

text \<open>
  The end of the function, when all entries were checked.  When the new directory cannot be saved its
  entries are freed, and freed again with the old one, which shares them: None.
\<close>

definition fsck_finish_dir ::
    "seafdir \<Rightarrow> bool \<Rightarrow> dirent list \<Rightarrow> gc_session \<Rightarrow> fsck_data \<Rightarrow> (dir_result \<times> gc_session \<times> fsck_data) option" where
  "fsck_finish_dir dir corrupted es S d =
     (if corrupted then
        (let new_dir = seaf_dir_new (gs_libs S) None es (gr_version (fk_repo d)) in
         if fk_repair d then
           (case seaf_dir_save (gs_libs S) (gs_fs S) (gr_store_id (fk_repo d)) new_dir of
              (r, st) \<Rightarrow>
                if r < 0 then None
                else Some (DirOk (dir_id new_dir), S\<lparr>gs_fs := st\<rparr>, d\<lparr>fk_saved := new_dir # fk_saved d\<rparr>))
         else Some (DirOk (dir_id new_dir), S, d))
      else Some (DirOk (dir_id dir), S, d))"

primrec fsck_check_dir_recursive ::
    "nat \<Rightarrow> string \<Rightarrow> string \<Rightarrow> gc_session \<Rightarrow> fsck_data \<Rightarrow> (dir_result \<times> gc_session \<times> fsck_data) option" where
  "fsck_check_dir_recursive 0 i parent_dir S d = None"
| "fsck_check_dir_recursive (Suc n) i parent_dir S d =
     (case get_dir (gc_fs S (fk_repo d)) i of
        None \<Rightarrow> None
      | Some dir \<Rightarrow>
          (case fsck_entries (fsck_check_dir_recursive n) parent_dir (entries dir) [] DirNull False S d of
             None \<Rightarrow> None
           | Some (Inl last_id, S, d) \<Rightarrow> Some (last_id, S, d)
           | Some (Inr (corrupted, es), S, d) \<Rightarrow> fsck_finish_dir dir corrupted es S d))"

section \<open>Sync tokens\<close>

text \<open>The tables RepoUserToken (repository and token) and RepoTokenPeerInfo (token).\<close>

datatype token_query = TOKEN_LIST | TOKEN_DELETE | TOKEN_DELETE_PEER

record token_db =
  td_tokens :: "(string \<times> string) list"
  td_peers :: "string list"
  td_fails :: "token_query \<Rightarrow> bool"

definition delete_repo_tokens :: "token_db \<Rightarrow> string \<Rightarrow> int \<times> token_db" where
  "delete_repo_tokens T repo =
     (if td_fails T TOKEN_LIST then (-1, T)
      else
        (let token_list = rev (map snd (filter (\<lambda>row. fst row = repo) (td_tokens T))) in
         if token_list = [] then (0, T)
         else if td_fails T TOKEN_DELETE then (-1, T)
         else
           (let T = T\<lparr>td_tokens := filter (\<lambda>row. snd row \<notin> set token_list) (td_tokens T)\<rparr> in
            if td_fails T TOKEN_DELETE_PEER then (-1, T)
            else (0, T\<lparr>td_peers := filter (\<lambda>t. t \<notin> set token_list) (td_peers T)\<rparr>))))"

section \<open>The repairing commit\<close>

definition gen_repair_commit_desc :: "string list \<Rightarrow> string list \<Rightarrow> string" where
  "gen_repair_commit_desc repaired_files repaired_folders =
     (let nl = [CHR 0x0A]; lines = (\<lambda>ps. concat (map (\<lambda>p. p @ nl) ps)) in
      ''Repaired by system.'' @
      (if repaired_files = [] then [] else nl @ ''Damaged files:'' @ nl @ lines repaired_files) @
      (if repaired_folders = [] then [] else nl @ ''Damaged folders:'' @ nl @ lines repaired_folders))"

text \<open>The session of the tool, with the ids of the commits that the store lists for a repository.\<close>

record fsck_session =
  fx_gc :: gc_session
  fx_tokens :: token_db
  fx_commit_ids :: "obj_store \<Rightarrow> string \<Rightarrow> string list"

definition repair_commit :: "gc_session \<Rightarrow> gc_repo \<Rightarrow> commit \<Rightarrow> string \<Rightarrow> string list \<Rightarrow> string list \<Rightarrow> commit" where
  "repair_commit S r parent new_root_id repaired_files repaired_folders =
     gc_repo_to_commit r
       ((seaf_commit_new (gs_libs S) (of_int (gs_now S)) None (gr_id r) new_root_id (creator_name parent)
           (creator_id parent) (gen_repair_commit_desc repaired_files repaired_folders) 0)
        \<lparr>parent_id := Some (commit_id parent)\<rparr>)"

text \<open>
  The branch is moved before the commit is stored, and the result of storing it is not looked at.  None is
  a repository without a head.
\<close>

definition reset_commit_to_repair ::
    "fsck_session \<Rightarrow> gc_repo \<Rightarrow> commit \<Rightarrow> string \<Rightarrow> string list \<Rightarrow> string list \<Rightarrow> fsck_session option" where
  "reset_commit_to_repair X r parent new_root_id repaired_files repaired_folders =
     (case delete_repo_tokens (fx_tokens X) (gr_id r) of
        (ret, T) \<Rightarrow>
          (let X = X\<lparr>fx_tokens := T\<rparr>; S = fx_gc X in
           if ret < 0 then Some X
           else
             (let new_commit = repair_commit S r parent new_root_id repaired_files repaired_folders in
              case gr_head r of
                None \<Rightarrow> None
              | Some head \<Rightarrow>
                  (case seaf_branch_manager_add_branch (gs_branches S)
                          (seaf_branch_set_commit head (commit_id new_commit)) of
                     (ret, db) \<Rightarrow>
                       (let S = S\<lparr>gs_branches := db\<rparr> in
                        if ret < 0 then Some (X\<lparr>fx_gc := S\<rparr>)
                        else Some (X\<lparr>fx_gc := S\<lparr>gs_commits :=
                               cv_store (snd (seaf_commit_manager_add_commit (gc_commits S (gr_id r)) new_commit))\<rparr>\<rparr>))))))"

section \<open>One library\<close>

definition check_and_recover_repo ::
    "nat \<Rightarrow> fsck_session \<Rightarrow> gc_repo \<Rightarrow> bool \<Rightarrow> bool \<Rightarrow> fsck_session option" where
  "check_and_recover_repo n X r reset repair =
     (case gr_head r of
        None \<Rightarrow> None
      | Some head \<Rightarrow>
          (case seaf_commit_manager_get_commit (gc_commits (fx_gc X) (gr_id r)) (br_commit_id head) of
             None \<Rightarrow> Some X
           | Some rep_commit \<Rightarrow>
               (case fsck_check_dir_recursive n (root_id rep_commit) ''/'' (fx_gc X)
                       \<lparr>fk_repair = repair, fk_repo = r, fk_existing = {}, fk_files = [], fk_folders = [], fk_saved = []\<rparr> of
                  None \<Rightarrow> None
                | Some (DirFreed, _, _) \<Rightarrow> None
                | Some (DirNull, S, _) \<Rightarrow> Some (X\<lparr>fx_gc := S\<rparr>)
                | Some (DirOk i, S, d) \<Rightarrow>
                    (let X = X\<lparr>fx_gc := S\<rparr> in
                     if repair then
                       if strcmp i (root_id rep_commit) \<noteq> 0
                       then reset_commit_to_repair X r rep_commit i (fk_files d) (fk_folders d)
                       else if reset then reset_commit_to_repair X r rep_commit (root_id rep_commit) [] []
                       else Some X
                     else Some X))))"

text \<open>The difference of two times, as an \<open>int\<close>.\<close>

definition compare_commit_by_ctime :: "commit \<Rightarrow> commit \<Rightarrow> int" where
  "compare_commit_by_ctime a b = sint (ucast (ctime b - ctime a) :: u32)"

definition fsck_get_repo_commit :: "gc_session \<Rightarrow> string \<Rightarrow> string \<Rightarrow> commit list \<Rightarrow> bool \<times> commit list" where
  "fsck_get_repo_commit S repo obj_id cur_list =
     (case seaf_obj_store_read_obj (gs_libs S) (gs_commits S) repo obj_id of
        None \<Rightarrow> (True, cur_list)
      | Some data \<Rightarrow>
          (case seaf_commit_from_data (gs_libs S) (gs_searpc S) (of_int (gs_now S)) obj_id data of
             None \<Rightarrow> (True, cur_list)
           | Some c \<Rightarrow> (True, c # cur_list)))"

text \<open>
  The newest commit whose root is valid, of those sorted by time.  None is an I/O error, after which the
  code reads the head of the repository it has just set to NULL.
\<close>

fun find_available ::
    "gc_repo \<Rightarrow> string \<Rightarrow> bool \<Rightarrow> commit list \<Rightarrow> gc_session \<Rightarrow> (gc_repo option \<times> gc_session) option" where
  "find_available r repo repair [] S = Some (None, S)"
| "find_available r repo repair (c # cs) S =
     (case fsck_verify_seafobj S (gr_store_id r) 1 (root_id c) VERIFY_DIR repair of
        (False, io_error, S) \<Rightarrow> if io_error then None else find_available r repo repair cs S
      | (True, _, S) \<Rightarrow>
          Some (Some (gc_repo_from_commit (r\<lparr>gr_head := Some (seaf_branch_new ''master'' repo (commit_id c))\<rparr>) c), S))"

definition get_available_repo ::
    "fsck_session \<Rightarrow> string \<Rightarrow> bool \<Rightarrow> (gc_repo option \<times> fsck_session) option" where
  "get_available_repo X repo repair =
     (let S = fx_gc X;
          commit_list = snd (obj_backend_fs_foreach_obj (fx_commit_ids X (gs_commits S) repo) (fsck_get_repo_commit S repo) [])
      in if commit_list = [] then Some (None, X)
         else
           (let r = gc_repo_new repo None None;
                r = (case gc_get_virtual_repo_info S repo of
                       Some v \<Rightarrow> r\<lparr>gr_is_virtual := True, gr_store_id := take 36 (vi_origin_repo v)\<rparr>
                     | None \<Rightarrow> r\<lparr>gr_is_virtual := False, gr_store_id := take 36 (gr_id r)\<rparr>)
            in case find_available r repo repair (g_list_sort compare_commit_by_ctime commit_list) S of
                 None \<Rightarrow> None
               | Some (found, S) \<Rightarrow> Some (found, X\<lparr>fx_gc := S\<rparr>)))"

definition recover_available :: "nat \<Rightarrow> fsck_session \<Rightarrow> string \<Rightarrow> bool \<Rightarrow> fsck_session option" where
  "recover_available n X repo repair =
     (case get_available_repo X repo repair of
        None \<Rightarrow> None
      | Some (None, X) \<Rightarrow> Some X
      | Some (Some r, X) \<Rightarrow> check_and_recover_repo n X r True repair)"

definition repair_repo :: "nat \<Rightarrow> fsck_session \<Rightarrow> string \<Rightarrow> bool \<Rightarrow> fsck_session option" where
  "repair_repo n X repo repair =
     (let S = fx_gc X in
      if \<not> is_uuid_valid (gs_libs S) repo then Some X
      else if \<not> gc_repo_exists S repo then Some X
      else
        (case gc_get_repo S repo of
           None \<Rightarrow> recover_available n X repo repair
         | Some r \<Rightarrow>
             (case gr_head r of
                None \<Rightarrow> None
              | Some head \<Rightarrow>
                  (case seaf_commit_manager_get_commit (gc_commits S (gr_id r)) (br_commit_id head) of
                     None \<Rightarrow> Some X
                   | Some c \<Rightarrow>
                       (case fsck_verify_seafobj S (gr_store_id r) (gr_version r) (root_id c) VERIFY_DIR repair of
                          (True, _, S) \<Rightarrow> check_and_recover_repo n (X\<lparr>fx_gc := S\<rparr>) r False repair
                        | (False, io_error, S) \<Rightarrow>
                            if io_error then Some (X\<lparr>fx_gc := S\<rparr>)
                            else recover_available n (X\<lparr>fx_gc := S\<rparr>) repo repair)))))"

text \<open>Without a thread pool, the libraries one after the other.\<close>

fun repair_repos :: "nat \<Rightarrow> string list \<Rightarrow> bool \<Rightarrow> fsck_session \<Rightarrow> fsck_session option" where
  "repair_repos n [] repair X = Some X"
| "repair_repos n (repo # ids) repair X =
     (case repair_repo n X repo repair of None \<Rightarrow> None | Some X \<Rightarrow> repair_repos n ids repair X)"

definition seaf_fsck :: "nat \<Rightarrow> string list \<Rightarrow> bool \<Rightarrow> fsck_session \<Rightarrow> (int \<times> fsck_session) option" where
  "seaf_fsck n repo_id_list repair X =
     (let ids = (if repo_id_list = [] then gc_get_repo_id_list (fx_gc X) else repo_id_list) in
      case repair_repos n ids repair X of None \<Rightarrow> None | Some X \<Rightarrow> Some (0, X))"

section \<open>What fsck keeps\<close>

text \<open>Valid objects (of libraries from version 1 on) and valid blocks.\<close>

definition stored_ok :: "gc_session \<Rightarrow> gc_repo \<Rightarrow> string \<Rightarrow> bool" where
  "stored_ok S r i \<longleftrightarrow> take 40 i = EMPTY_SHA1 \<or>
     (\<exists>data. seaf_obj_store_read_obj (gs_libs S) (gs_fs S) (gr_store_id r) i = Some data \<and>
        verify_fs_object_json (gs_libs S) i data)"

definition block_check :: "gc_session \<Rightarrow> string \<Rightarrow> string \<Rightarrow> bool option" where
  "block_check S store_id b = seaf_block_manager_verify_block (gs_libs S) (gs_blocks S) store_id b"

lemma verify_block_closed:
  "seaf_block_manager_verify_block L st r b =
     (if is_uuid_valid L r \<and> is_object_id_valid b \<and> bk_open_ok st b \<and> bk_read_ok st b then
        (case bk_files st (get_block_path st b r) of None \<Rightarrow> None | Some x \<Rightarrow> Some (sha1_hex L x = b))
      else None)"
proof (cases "bk_read_ok st b")
  case True
  then show ?thesis
    by (auto simp: seaf_block_manager_verify_block_def seaf_block_manager_open_block_def id_valid_length
        block_backend_fs_open_block_def verify_read_all split: option.split)
next
  case False
  then have "verify_read st h ctx = None" if "bh_block_id h = b" for h ctx
    using that by (subst verify_read.simps) (simp add: seaf_block_manager_read_block_def block_backend_fs_read_block_def)
  with False show ?thesis
    by (auto simp: seaf_block_manager_verify_block_def seaf_block_manager_open_block_def
        block_backend_fs_open_block_def split: option.split)
qed

lemma remove_block_keeps:
  assumes "seaf_block_manager_verify_block L st r b = Some True" "seaf_block_manager_verify_block L st q c = Some False"
  shows "seaf_block_manager_verify_block L (snd (seaf_block_manager_remove_block L st q c)) r b = Some True"
proof -
  have "is_object_id_valid b" "is_object_id_valid c" "(b, r) \<noteq> (c, q)"
    using assms by (auto simp: verify_block_closed split: if_splits option.splits)
  then have "get_block_path st b r \<noteq> get_block_path st c q" using block_path_eq by blast
  then show ?thesis
    using assms(1)
    by (auto simp: verify_block_closed seaf_block_manager_remove_block_def block_backend_fs_remove_block_def
        get_block_path_def Let_def split: if_splits option.splits)
qed

lemma delete_obj_other:
  assumes "(q, j) \<noteq> (r, i)"
  shows "seaf_obj_store_read_obj L (seaf_fs_manager_delete_object L st r i) q j = seaf_obj_store_read_obj L st q j"
proof (cases "is_object_id_valid i \<and> is_object_id_valid j")
  case True
  then have "id_to_path (obj_dir st) j q \<noteq> id_to_path (obj_dir st) i r"
    using id_to_path_inj id_valid_length assms by blast
  then show ?thesis
    by (simp add: seaf_fs_manager_delete_object_def seaf_obj_store_delete_obj_def obj_backend_fs_delete_def
        seaf_obj_store_read_obj_def obj_backend_fs_read_def)
next
  case False
  then show ?thesis
    by (auto simp: seaf_fs_manager_delete_object_def seaf_obj_store_delete_obj_def obj_backend_fs_delete_def
        seaf_obj_store_read_obj_def obj_backend_fs_read_def)
qed

text \<open>A step of the check: only objects and blocks change, and what is valid stays.\<close>

definition fsck_keeps :: "gc_repo \<Rightarrow> gc_session \<Rightarrow> gc_session \<Rightarrow> bool" where
  "fsck_keeps r S S' \<longleftrightarrow>
     S\<lparr>gs_fs := gs_fs S', gs_blocks := gs_blocks S'\<rparr> = S' \<and>
     (\<forall>q i data. seaf_obj_store_read_obj (gs_libs S) (gs_fs S) q i = Some data \<longrightarrow>
        q \<noteq> gr_store_id r \<or> verify_fs_object_json (gs_libs S) i data \<longrightarrow>
        seaf_obj_store_read_obj (gs_libs S) (gs_fs S') q i = Some data) \<and>
     (\<forall>q b. block_check S q b = Some True \<longrightarrow> block_check S' q b = Some True)"

lemma fsck_keeps_refl [simp]: "fsck_keeps r S S"
  unfolding fsck_keeps_def by simp

lemma fsck_keeps_libs: "fsck_keeps r S S' \<Longrightarrow> gs_libs S' = gs_libs S"
  by (metis fsck_keeps_def gc_session.select_convs(1) gc_session.surjective gc_session.update_convs(15,16))

lemma fsck_keepsD:
  assumes "fsck_keeps r S S'"
  shows "seaf_obj_store_read_obj (gs_libs S) (gs_fs S) q i = Some data \<Longrightarrow>
      q \<noteq> gr_store_id r \<or> verify_fs_object_json (gs_libs S) i data \<Longrightarrow>
      seaf_obj_store_read_obj (gs_libs S) (gs_fs S') q i = Some data"
    and "block_check S q b = Some True \<Longrightarrow> block_check S' q b = Some True"
  using assms unfolding fsck_keeps_def by blast+

lemma fsck_keeps_trans [trans]:
  assumes "fsck_keeps r S T" "fsck_keeps r T U"
  shows "fsck_keeps r S U"
  unfolding fsck_keeps_def
proof (intro conjI allI impI)
  have L: "gs_libs T = gs_libs S" by (rule fsck_keeps_libs [OF assms(1)])
  have T: "S\<lparr>gs_fs := gs_fs T, gs_blocks := gs_blocks T\<rparr> = T" "T\<lparr>gs_fs := gs_fs U, gs_blocks := gs_blocks U\<rparr> = U"
    using assms by (simp_all add: fsck_keeps_def)
  show "S\<lparr>gs_fs := gs_fs U, gs_blocks := gs_blocks U\<rparr> = U"
    by (subst T(2) [symmetric], subst T(1) [symmetric]) simp
  show "seaf_obj_store_read_obj (gs_libs S) (gs_fs U) q i = Some data"
    if "seaf_obj_store_read_obj (gs_libs S) (gs_fs S) q i = Some data"
      "q \<noteq> gr_store_id r \<or> verify_fs_object_json (gs_libs S) i data" for q i data
    using that assms L unfolding fsck_keeps_def by metis
  show "block_check U q b = Some True" if "block_check S q b = Some True" for q b
    using that assms unfolding fsck_keeps_def by blast
qed

lemma verify_seafobj_closed:
  assumes "0 < gr_version r"
  shows "fsck_verify_seafobj S (gr_store_id r) (gr_version r) i T repair =
    (stored_ok S r i, False,
     if \<not> stored_ok S r i \<and> repair \<and> seaf_obj_store_read_obj (gs_libs S) (gs_fs S) (gr_store_id r) i \<noteq> None
     then S\<lparr>gs_fs := seaf_fs_manager_delete_object (gs_libs S) (gs_fs S) (gr_store_id r) i\<rparr> else S)"
proof -
  have v: "(case T of
        VERIFY_FILE \<Rightarrow> seaf_fs_manager_verify_seafile (gs_libs S) (gs_fs S) (gr_store_id r) (gr_version r) i True
      | VERIFY_DIR \<Rightarrow> seaf_fs_manager_verify_seafdir (gs_libs S) (gs_fs S) (gr_store_id r) (gr_version r) i True)
    = verify_stored (gs_libs S) (gs_fs S) (gr_store_id r) i (verify_fs_object_json (gs_libs S) i)"
    using assms by (simp add: seaf_fs_manager_verify_seafile_def seaf_fs_manager_verify_seafdir_def split: verify_type.split)
  show ?thesis
  proof (cases "take 40 i = EMPTY_SHA1")
    case True
    then show ?thesis
      unfolding fsck_verify_seafobj_def v by (simp add: seaf_fs_manager_object_exists_def verify_stored_def stored_ok_def)
  next
    case False
    then show ?thesis
      unfolding fsck_verify_seafobj_def v
      by (cases "seaf_obj_store_read_obj (gs_libs S) (gs_fs S) (gr_store_id r) i")
        (simp_all add: seaf_fs_manager_object_exists_def verify_stored_def stored_ok_def seaf_store.exists_read)
  qed
qed

lemma delete_keeps:
  assumes "\<not> stored_ok S r i" "S' = S\<lparr>gs_fs := seaf_fs_manager_delete_object (gs_libs S) (gs_fs S) (gr_store_id r) i\<rparr>"
  shows "fsck_keeps r S S'"
proof -
  have "seaf_obj_store_read_obj (gs_libs S) (gs_fs S') q j = Some data"
    if "seaf_obj_store_read_obj (gs_libs S) (gs_fs S) q j = Some data"
      "q \<noteq> gr_store_id r \<or> verify_fs_object_json (gs_libs S) j data" for q j data
  proof -
    have "(q, j) \<noteq> (gr_store_id r, i)" using that assms(1) by (auto simp: stored_ok_def)
    then show ?thesis using assms(2) that by (simp add: delete_obj_other)
  qed
  then show ?thesis using assms(2) unfolding fsck_keeps_def by (simp add: block_check_def)
qed

lemma verify_seafobj_keeps:
  assumes "fsck_verify_seafobj S (gr_store_id r) (gr_version r) i T repair = (valid, io_error, S')" "0 < gr_version r"
  shows "\<not> io_error \<and> valid = stored_ok S r i \<and> (valid \<or> \<not> repair \<longrightarrow> S' = S) \<and> fsck_keeps r S S' \<and>
    (S' = S \<or> S' = S\<lparr>gs_fs := seaf_fs_manager_delete_object (gs_libs S) (gs_fs S) (gr_store_id r) i\<rparr>)"
proof -
  let ?bad = "\<not> stored_ok S r i \<and> repair \<and> seaf_obj_store_read_obj (gs_libs S) (gs_fs S) (gr_store_id r) i \<noteq> None"
  let ?D = "S\<lparr>gs_fs := seaf_fs_manager_delete_object (gs_libs S) (gs_fs S) (gr_store_id r) i\<rparr>"
  have e: "valid = stored_ok S r i" "\<not> io_error" "S' = (if ?bad then ?D else S)"
    using assms(1) unfolding verify_seafobj_closed [OF assms(2)] prod.inject by blast+
  show ?thesis
  proof (cases ?bad)
    case True
    then show ?thesis using e delete_keeps [of S r i S'] by simp
  next
    case False
    then have "S' = S" using e(3) by presburger
    then show ?thesis using e(1,2) by simp
  qed
qed

lemmas verify_seafobj_state = verify_seafobj_keeps [THEN conjunct2, THEN conjunct2, THEN conjunct2, THEN conjunct2]

section \<open>Steps of the check\<close>

text \<open>A step of the walk as far as it concerns every state.\<close>

definition fsck_step :: "gc_session \<Rightarrow> fsck_data \<Rightarrow> gc_session \<Rightarrow> fsck_data \<Rightarrow> bool" where
  "fsck_step S d S' d' \<longleftrightarrow> fk_repo d' = fk_repo d \<and> fk_repair d' = fk_repair d \<and> fsck_keeps (fk_repo d) S S' \<and>
     (\<not> fk_repair d \<longrightarrow> S' = S) \<and> set (fk_saved d) \<subseteq> set (fk_saved d')"

lemma fsck_step_refl [simp]: "fsck_step S d S d"
  by (simp add: fsck_step_def)

lemma fsck_step_trans [trans]: "fsck_step S d T e \<Longrightarrow> fsck_step T e U f \<Longrightarrow> fsck_step S d U f"
  unfolding fsck_step_def using fsck_keeps_trans by auto

lemma fsck_step_data:
  "fsck_step S d S' (d'\<lparr>fk_files := x\<rparr>) \<longleftrightarrow> fsck_step S d S' d'"
  "fsck_step S d S' (d'\<lparr>fk_folders := x\<rparr>) \<longleftrightarrow> fsck_step S d S' d'"
  "fsck_step S d S' (d'\<lparr>fk_existing := y\<rparr>) \<longleftrightarrow> fsck_step S d S' d'"
  by (simp_all add: fsck_step_def)

text \<open>Blocks are only removed, and what \<open>existing_blocks\<close> has is valid or was found damaged.\<close>

definition blocks_shrunk :: "gc_session \<Rightarrow> gc_session \<Rightarrow> bool" where
  "blocks_shrunk S0 S \<longleftrightarrow> (\<forall>q b v. block_check S q b = Some v \<longrightarrow> block_check S0 q b = Some v)"

definition known_ok :: "gc_session \<Rightarrow> gc_session \<Rightarrow> fsck_data \<Rightarrow> bool" where
  "known_ok S0 S d \<longleftrightarrow> (\<forall>b\<in>fk_existing d. block_check S (gr_store_id (fk_repo d)) b = Some True \<or>
     block_check S0 (gr_store_id (fk_repo d)) b = Some False)"

definition without_block :: "gc_session \<Rightarrow> string \<Rightarrow> string \<Rightarrow> gc_session" where
  "without_block S store_id b =
     S\<lparr>gs_blocks := snd (seaf_block_manager_remove_block (gs_libs S) (gs_blocks S) store_id b)\<rparr>"

lemma without_block_simps [simp]:
  "gs_libs (without_block S q b) = gs_libs S" "gs_fs (without_block S q b) = gs_fs S"
  by (simp_all add: without_block_def)

lemma blocks_shrunk_refl [simp]: "blocks_shrunk S S"
  by (simp add: blocks_shrunk_def)

lemma without_block_shrunk: "blocks_shrunk S (without_block S q b)"
  by (auto simp: blocks_shrunk_def block_check_def without_block_def verify_block_closed get_block_path_def
      seaf_block_manager_remove_block_def block_backend_fs_remove_block_def Let_def split: if_splits option.splits)

lemma without_block_keeps:
  assumes "block_check S (gr_store_id r) b = Some False"
  shows "fsck_keeps r S (without_block S (gr_store_id r) b)"
proof -
  have "S\<lparr>gs_fs := gs_fs (without_block S (gr_store_id r) b), gs_blocks := gs_blocks (without_block S (gr_store_id r) b)\<rparr>
      = without_block S (gr_store_id r) b"
    by (simp add: without_block_def)
  then show ?thesis
    using remove_block_keeps assms unfolding fsck_keeps_def by (simp add: block_check_def without_block_def)
qed

lemma shrunk_trans: "blocks_shrunk S0 S \<Longrightarrow> blocks_shrunk S T \<Longrightarrow> blocks_shrunk S0 T"
  unfolding blocks_shrunk_def by blast

lemma known_ok_keeps:
  "known_ok S0 S d \<Longrightarrow> fsck_keeps (fk_repo d) S T \<Longrightarrow> known_ok S0 T d"
  unfolding known_ok_def fsck_keeps_def by blast

lemma block_loop_spec:
  "fsck_block_loop ids ret S d = (ret', io_error, S', d') \<Longrightarrow>
   fsck_step S d S' d' \<and> gs_fs S' = gs_fs S \<and> blocks_shrunk S S' \<and> (\<exists>E. d' = d\<lparr>fk_existing := E\<rparr>) \<and>
   fk_existing d \<subseteq> fk_existing d' \<and>
   (blocks_shrunk S0 S \<longrightarrow> known_ok S0 S d \<longrightarrow> known_ok S0 S' d') \<and>
   (\<not> ret' < 0 \<longrightarrow> \<not> ret < 0 \<and> set ids \<subseteq> fk_existing d')"
proof (induction ids arbitrary: ret S d)
  case Nil
  then show ?case by (auto simp: blocks_shrunk_def intro: exI [of _ "fk_existing d"])
next
  case (Cons b ids)
  let ?q = "gr_store_id (fk_repo d)" and ?d = "d\<lparr>fk_existing := insert b (fk_existing d)\<rparr>"
  have E: "\<exists>E. d' = d\<lparr>fk_existing := E\<rparr>" if "\<exists>E. d' = ?d\<lparr>fk_existing := E\<rparr>" using that by auto
  consider (known) "b \<in> fk_existing d" "fsck_block_loop ids ret S d = (ret', io_error, S', d')"
    | (missing) "b \<notin> fk_existing d" "fsck_block_loop ids (-1) S d = (ret', io_error, S', d')"
    | (io) "ret' = -1" "S' = S" "d' = d"
    | (good) "block_check S ?q b = Some True" "fsck_block_loop ids ret S ?d = (ret', io_error, S', d')"
    | (bad) T where "block_check S ?q b = Some False" "T = (if fk_repair d then without_block S ?q b else S)"
        "fsck_block_loop ids (-1) T ?d = (ret', io_error, S', d')"
    using Cons.prems by (auto simp: block_check_def without_block_def Let_def split: if_splits option.splits bool.splits)
  then show ?case
  proof cases
    case known
    from Cons.IH [OF known(2)] known(1) show ?thesis by auto
  next
    case missing
    from Cons.IH [OF missing(2)] show ?thesis by auto
  next
    case io
    then show ?thesis by (auto simp: blocks_shrunk_def intro: exI [of _ "fk_existing d"])
  next
    case good
    note IH = Cons.IH [OF good(2)]
    have "known_ok S0 S ?d" if "known_ok S0 S d" using that good(1) by (simp add: known_ok_def)
    moreover have "fsck_step S d S' d'" using IH by (simp add: fsck_step_def)
    moreover have "\<exists>E. d' = d\<lparr>fk_existing := E\<rparr>" using IH E by blast
    moreover have "fk_existing d \<subseteq> fk_existing d'" "\<not> ret' < 0 \<Longrightarrow> b \<in> fk_existing d'" using IH by simp_all
    ultimately show ?thesis using IH by simp
  next
    case bad
    note IH = Cons.IH [OF bad(3)]
    have T: "fsck_step S d T ?d" "gs_fs T = gs_fs S" "blocks_shrunk S T"
      using without_block_keeps [OF bad(1)] without_block_shrunk [of S ?q b]
      by (simp_all add: bad(2) fsck_step_def blocks_shrunk_refl)
    have "known_ok S0 T ?d" if "blocks_shrunk S0 S" "known_ok S0 S d"
    proof -
      have "known_ok S0 T d" using known_ok_keeps [OF that(2)] T(1) by (simp add: fsck_step_def)
      moreover have "block_check S0 ?q b = Some False" using that(1) bad(1) by (simp add: blocks_shrunk_def)
      ultimately show ?thesis by (simp add: known_ok_def)
    qed
    moreover have "fsck_step S d S' d'" using fsck_step_trans [OF T(1)] IH by blast
    moreover have "blocks_shrunk S0 T" if "blocks_shrunk S0 S" using shrunk_trans that T(3) by blast
    moreover have "\<exists>E. d' = d\<lparr>fk_existing := E\<rparr>" using IH E by blast
    moreover have "fk_existing d \<subseteq> fk_existing d'" "gs_fs S' = gs_fs S" "\<not> ret' < 0 \<Longrightarrow> False" using IH T(2) by simp_all
    moreover have "blocks_shrunk S S'" using IH shrunk_trans [OF T(3)] by blast
    ultimately show ?thesis using IH by simp
  qed
qed

section \<open>The repaired tree\<close>

text \<open>
  A directory that is read back as it was saved; \<open>saved_ok\<close>: what was saved is of that kind, under an id
  that stands for nothing else.
\<close>

definition dir_loads :: "libs \<Rightarrow> seafdir \<Rightarrow> bool" where
  "dir_loads L D \<longleftrightarrow> take 40 (dir_id D) \<noteq> EMPTY_SHA1 \<and>
     (\<exists>x dir. ondisk D = Some x \<and> verify_fs_object_json L (dir_id D) x \<and>
        seaf_dir_from_data L (dir_id D) x True = Some dir \<and> entries dir = entries D)"

definition saved_ok :: "gc_session \<Rightarrow> gc_repo \<Rightarrow> seafdir set \<Rightarrow> bool" where
  "saved_ok S0 r Ds \<longleftrightarrow>
     (\<forall>D\<in>Ds. dir_loads (gs_libs S0) D \<and>
        seaf_obj_store_read_obj (gs_libs S0) (gs_fs S0) (gr_store_id r) (dir_id D) \<in> {None, ondisk D} \<and>
        (\<forall>E\<in>Ds. dir_id E = dir_id D \<longrightarrow> ondisk E = ondisk D))"

lemma saved_ok_mono: "saved_ok S0 r Ds \<Longrightarrow> Es \<subseteq> Ds \<Longrightarrow> saved_ok S0 r Es"
  unfolding saved_ok_def by blast

text \<open>
  A healthy tree: its directories are valid and can be read, its files too, and the blocks of the files
  are valid or in \<open>X\<close>.
\<close>

definition healthy_file :: "gc_session \<Rightarrow> gc_repo \<Rightarrow> string set \<Rightarrow> string \<Rightarrow> bool" where
  "healthy_file S r X i \<longleftrightarrow> stored_ok S r i \<and>
     (\<exists>f. get_file (gc_fs S r) i = Some f \<and>
        (\<forall>b\<in>set (blk_sha1s f). block_check S (gr_store_id r) b = Some True \<or> b \<in> X))"

definition healthy_entry :: "(string \<Rightarrow> bool) \<Rightarrow> gc_session \<Rightarrow> gc_repo \<Rightarrow> string set \<Rightarrow> dirent \<Rightarrow> bool" where
  "healthy_entry sub S r X e \<longleftrightarrow>
     (S_ISREG (d_mode e) \<longrightarrow> healthy_file S r X (d_id e)) \<and> (S_ISDIR (d_mode e) \<longrightarrow> sub (d_id e))"

primrec healthy_dir :: "nat \<Rightarrow> gc_session \<Rightarrow> gc_repo \<Rightarrow> string set \<Rightarrow> string \<Rightarrow> bool" where
  "healthy_dir 0 S r X i = False"
| "healthy_dir (Suc n) S r X i \<longleftrightarrow> stored_ok S r i \<and>
     (\<exists>dir. get_dir (gc_fs S r) i = Some dir \<and> (\<forall>e\<in>set (entries dir). healthy_entry (healthy_dir n S r X) S r X e))"

lemma stored_ok_keeps:
  assumes "stored_ok S r i" "fsck_keeps r S S'"
  shows "stored_ok S' r i"
  using assms(1) fsck_keepsD(1) [OF assms(2)] unfolding stored_ok_def fsck_keeps_libs [OF assms(2)] by blast

lemma read_keeps:
  assumes "stored_ok S r i" "fsck_keeps r S S'" "take 40 i \<noteq> EMPTY_SHA1"
  shows "seaf_obj_store_read_obj (gs_libs S') (gs_fs S') (gr_store_id r) i
    = seaf_obj_store_read_obj (gs_libs S) (gs_fs S) (gr_store_id r) i"
  using assms(1,3) fsck_keepsD(1) [OF assms(2)] unfolding stored_ok_def fsck_keeps_libs [OF assms(2)] by auto

lemma get_keeps:
  assumes "stored_ok S r i" "fsck_keeps r S S'"
  shows "get_dir (gc_fs S' r) i = get_dir (gc_fs S r) i" and "get_file (gc_fs S' r) i = get_file (gc_fs S r) i"
  using read_keeps [OF assms] fsck_keeps_libs [OF assms(2)]
  by (simp_all add: gc_fs_def seaf_fs_manager_get_seafdir_def seaf_fs_manager_get_seafile_def)

lemma healthy_file_keeps:
  assumes "healthy_file S r X i" "fsck_keeps r S S'"
  shows "healthy_file S' r X i"
proof -
  have "stored_ok S r i" using assms(1) by (simp add: healthy_file_def)
  from assms(1) stored_ok_keeps [OF this assms(2)] get_keeps(2) [OF this assms(2)] show ?thesis
    using fsck_keepsD(2) [OF assms(2)] unfolding healthy_file_def by auto
qed

lemma healthy_dir_keeps: "healthy_dir n S r X i \<Longrightarrow> fsck_keeps r S S' \<Longrightarrow> healthy_dir n S' r X i"
proof (induction n arbitrary: i)
  case (Suc n)
  then obtain dir where d: "stored_ok S r i" "get_dir (gc_fs S r) i = Some dir"
    "\<forall>e\<in>set (entries dir). healthy_entry (healthy_dir n S r X) S r X e" by auto
  have "\<forall>e\<in>set (entries dir). healthy_entry (healthy_dir n S' r X) S' r X e"
    using d(3) Suc.IH [OF _ Suc.prems(2)] healthy_file_keeps [OF _ Suc.prems(2)] unfolding healthy_entry_def by blast
  then show ?case using d(1,2) get_keeps(1) [OF d(1) Suc.prems(2)] stored_ok_keeps [OF d(1) Suc.prems(2)] by simp
qed simp

lemma healthy_entry_keeps:
  "healthy_entry (healthy_dir n S r X) S r X e \<Longrightarrow> fsck_keeps r S S' \<Longrightarrow> healthy_entry (healthy_dir n S' r X) S' r X e"
  unfolding healthy_entry_def using healthy_file_keeps healthy_dir_keeps by blast

lemma healthy_empty: "healthy_file S r X EMPTY_SHA1" "healthy_dir (Suc n) S r X EMPTY_SHA1"
  by (simp_all add: healthy_file_def stored_ok_def seaf_fs_manager_get_seafile_def seaf_fs_manager_get_seafdir_def)

text \<open>What holds of every state of a walk that began in \<open>S0\<close>.\<close>

definition fsck_inv :: "gc_session \<Rightarrow> gc_session \<Rightarrow> fsck_data \<Rightarrow> bool" where
  "fsck_inv S0 S d \<longleftrightarrow> fsck_keeps (fk_repo d) S0 S \<and> blocks_shrunk S0 S \<and> known_ok S0 S d \<and>
     (\<forall>i data. seaf_obj_store_read_obj (gs_libs S0) (gs_fs S) (gr_store_id (fk_repo d)) i = Some data \<longrightarrow>
        seaf_obj_store_read_obj (gs_libs S0) (gs_fs S0) (gr_store_id (fk_repo d)) i = Some data \<or>
        (\<exists>D\<in>set (fk_saved d). dir_id D = i \<and> ondisk D = Some data)) \<and>
     (\<forall>D\<in>set (fk_saved d).
        seaf_obj_store_read_obj (gs_libs S0) (gs_fs S) (gr_store_id (fk_repo d)) (dir_id D) = ondisk D)"

lemma fsck_inv_data [simp]:
  "fsck_inv S0 S (d\<lparr>fk_files := x\<rparr>) \<longleftrightarrow> fsck_inv S0 S d"
  "fsck_inv S0 S (d\<lparr>fk_folders := x\<rparr>) \<longleftrightarrow> fsck_inv S0 S d"
  by (simp_all add: fsck_inv_def known_ok_def)

lemma fsck_inv_read:
  assumes "fsck_inv S0 S d"
    and "seaf_obj_store_read_obj (gs_libs S0) (gs_fs S) (gr_store_id (fk_repo d)) i = Some data"
  shows "seaf_obj_store_read_obj (gs_libs S0) (gs_fs S0) (gr_store_id (fk_repo d)) i = Some data \<or>
    (\<exists>D\<in>set (fk_saved d). dir_id D = i \<and> ondisk D = Some data)"
  using assms(1) unfolding fsck_inv_def by (elim conjE allE [of _ i] allE [of _ data] impE) (rule assms(2))

lemma fsck_inv_libs: "fsck_inv S0 S d \<Longrightarrow> gs_libs S = gs_libs S0"
  unfolding fsck_inv_def using fsck_keeps_libs by blast

lemma fsck_inv_verify:
  assumes "fsck_verify_seafobj S (gr_store_id (fk_repo d)) (gr_version (fk_repo d)) i T (fk_repair d) = (valid, io_error, S')"
    and v: "0 < gr_version (fk_repo d)" and inv: "fsck_inv S0 S d" and saved: "saved_ok S0 (fk_repo d) (set (fk_saved d))"
  shows "fsck_inv S0 S' d"
proof -
  let ?q = "gr_store_id (fk_repo d)"
  have L: "gs_libs S = gs_libs S0" by (rule fsck_inv_libs [OF inv])
  have k: "fsck_keeps (fk_repo d) S S'" using verify_seafobj_keeps [OF assms(1) v] by blast
  have cases: "S' = S \<or> S' = S\<lparr>gs_fs := seaf_fs_manager_delete_object (gs_libs S) (gs_fs S) ?q i\<rparr>"
    by (rule verify_seafobj_state [OF assms(1) v])
  have bl: "gs_blocks S' = gs_blocks S" "gs_libs S' = gs_libs S" using cases by auto
  have sub: "seaf_obj_store_read_obj (gs_libs S0) (gs_fs S') ?q j = Some data \<Longrightarrow>
      seaf_obj_store_read_obj (gs_libs S0) (gs_fs S) ?q j = Some data" for j data
  proof (cases "i = j")
    case True
    then show ?thesis if "seaf_obj_store_read_obj (gs_libs S0) (gs_fs S') ?q j = Some data"
      using that cases
      by (auto simp: seaf_fs_manager_delete_object_def seaf_obj_store_delete_obj_def obj_backend_fs_delete_def
          seaf_obj_store_read_obj_def obj_backend_fs_read_def L split: if_splits)
  next
    case False
    then show ?thesis if "seaf_obj_store_read_obj (gs_libs S0) (gs_fs S') ?q j = Some data"
      using that cases delete_obj_other [of ?q j ?q i "gs_libs S0" "gs_fs S"] L by auto
  qed
  have D: "seaf_obj_store_read_obj (gs_libs S0) (gs_fs S') ?q (dir_id D) = ondisk D" if "D \<in> set (fk_saved d)" for D
  proof -
    obtain x where x: "ondisk D = Some x" "verify_fs_object_json (gs_libs S0) (dir_id D) x"
      using saved \<open>D \<in> set (fk_saved d)\<close> unfolding saved_ok_def dir_loads_def by blast
    have "seaf_obj_store_read_obj (gs_libs S0) (gs_fs S) ?q (dir_id D) = Some x"
      using inv \<open>D \<in> set (fk_saved d)\<close> x(1) by (simp add: fsck_inv_def)
    then show ?thesis using fsck_keepsD(1) [OF k] x unfolding L by simp
  qed
  have "fsck_keeps (fk_repo d) S0 S'" using inv k fsck_keeps_trans unfolding fsck_inv_def by blast
  moreover have "block_check S' = block_check S" by (simp add: block_check_def fun_eq_iff bl)
  ultimately show ?thesis using inv sub D by (simp add: fsck_inv_def blocks_shrunk_def known_ok_def)
qed

lemma fsck_file_spec:
  assumes run: "fsck_file dent S d = Some (res, S', d')" and v: "0 < gr_version (fk_repo d)"
  shows "fsck_step S d S' d' \<and> fk_saved d' = fk_saved d \<and>
    (fsck_inv S0 S d \<longrightarrow> saved_ok S0 (fk_repo d) (set (fk_saved d)) \<longrightarrow> fsck_inv S0 S' d' \<and>
      (\<forall>e bad. res = Some (e, bad) \<longrightarrow>
         healthy_file S' (fk_repo d) {b. block_check S0 (gr_store_id (fk_repo d)) b = Some False} (d_id e) \<and>
         d_mode e = d_mode dent \<and> (\<not> bad \<longrightarrow> e = dent)))"
proof -
  let ?r = "fk_repo d" and ?X = "{b. block_check S0 (gr_store_id (fk_repo d)) b = Some False}"
  obtain valid io_error S1 where ver: "fsck_verify_seafobj S (gr_store_id ?r) (gr_version ?r) (d_id dent) VERIFY_FILE
      (fk_repair d) = (valid, io_error, S1)" using prod_cases3 by blast
  note V = verify_seafobj_keeps [OF ver v]
  have step1: "fsck_step S d S1 d" using V by (simp add: fsck_step_def)
  show ?thesis
  proof (cases valid)
    case False
    then have "(res, S', d') = (Some (empty_file S1 dent, True), S1, d)"
    proof -
      have "fsck_file dent S d = Some (Some (empty_file S1 dent, True), S1, d)"
        using ver V False by (simp add: fsck_file_def)
      from trans [OF run [symmetric] this] show ?thesis by (rule option.inject [THEN iffD1])
    qed
    then have r: "res = Some (empty_file S1 dent, True)" "S' = S1" "d' = d" unfolding prod.inject by blast+
    then show ?thesis
      using step1 fsck_inv_verify [OF ver v] healthy_empty(1) by (simp add: empty_file_def)
  next
    case True
    then obtain f where f: "get_file (gc_fs S1 ?r) (d_id dent) = Some f"
      using run ver by (auto simp: fsck_file_def fsck_check_blocks_def split: option.splits)
    obtain ret io2 S2 d2 where loop: "fsck_block_loop (blk_sha1s f) 0 S1 d = (ret, io2, S2, d2)"
      using prod_cases4 by blast
    have "(res, S', d') =
        (if ret < 0 then if io2 then None else Some (empty_file S2 dent, True) else Some (dent, False), S2, d2)"
    proof -
      have "fsck_file dent S d = Some (if ret < 0 then if io2 then None else Some (empty_file S2 dent, True)
          else Some (dent, False), S2, d2)"
        using ver True loop f by (simp add: fsck_file_def fsck_check_blocks_def)
      from trans [OF run [symmetric] this] show ?thesis by (rule option.inject [THEN iffD1])
    qed
    then have r: "res = (if ret < 0 then if io2 then None else Some (empty_file S2 dent, True) else Some (dent, False))"
      "S' = S2" "d' = d2" unfolding prod.inject by blast+
    note B = block_loop_spec [OF loop]
    obtain E where E: "d2 = d\<lparr>fk_existing := E\<rparr>" using B by blast
    have "fsck_inv S0 S2 d2 \<and> (\<not> ret < 0 \<longrightarrow> healthy_file S2 ?r ?X (d_id dent))"
      if inv: "fsck_inv S0 S d" and saved: "saved_ok S0 ?r (set (fk_saved d))"
    proof -
      have S1: "S1 = S" using V True by simp
      have k: "fsck_keeps ?r S S2" using B S1 by (simp add: fsck_step_def)
      have known: "known_ok S0 S2 d2" using B inv S1 by (simp add: fsck_inv_def)
      have "fsck_keeps ?r S0 S2" using fsck_keeps_trans k inv unfolding fsck_inv_def by blast
      moreover have "blocks_shrunk S0 S2" using shrunk_trans B inv S1 unfolding fsck_inv_def by blast
      moreover have "gs_fs S2 = gs_fs S" using B S1 by simp
      ultimately have "fsck_inv S0 S2 d2" using inv known by (simp add: fsck_inv_def E)
      moreover have "healthy_file S2 ?r ?X (d_id dent)" if "\<not> ret < 0"
      proof -
        have "\<forall>b\<in>set (blk_sha1s f). block_check S2 (gr_store_id ?r) b = Some True \<or> b \<in> ?X"
          using B \<open>\<not> ret < 0\<close> known unfolding known_ok_def E by auto
        moreover have "stored_ok S ?r (d_id dent)" using V True by simp
        ultimately show ?thesis
          using f S1 get_keeps(2) [OF _ k] stored_ok_keeps [OF _ k] unfolding healthy_file_def by auto
      qed
      ultimately show ?thesis by blast
    qed
    moreover have "fsck_step S d S2 d2" using step1 B fsck_step_trans by blast
    ultimately show ?thesis using r healthy_empty(1) by (auto simp: E empty_file_def)
  qed
qed

text \<open>
  What the walk of a directory guarantees, and the same for the walk of its sub-directories: \<open>walk_ok\<close>
  with the depth up to which the result is healthy.
\<close>

definition found_damaged :: "gc_session \<Rightarrow> gc_repo \<Rightarrow> string set" where
  "found_damaged S0 r = {b. block_check S0 (gr_store_id r) b = Some False}"

abbreviation (input) run_ok :: "gc_session \<Rightarrow> gc_repo \<Rightarrow> gc_session \<Rightarrow> fsck_data \<Rightarrow> fsck_data \<Rightarrow> bool" where
  "run_ok S0 r S d d' \<equiv> fk_repair d \<and> fsck_inv S0 S d \<and> saved_ok S0 r (set (fk_saved d'))"

definition walk_ok ::
    "nat \<Rightarrow> gc_session \<Rightarrow> gc_repo \<Rightarrow>
     (string \<Rightarrow> string \<Rightarrow> gc_session \<Rightarrow> fsck_data \<Rightarrow> (dir_result \<times> gc_session \<times> fsck_data) option) \<Rightarrow> bool" where
  "walk_ok m S0 r walk \<longleftrightarrow> (\<forall>i p S d res S' d'. walk i p S d = Some (res, S', d') \<longrightarrow> fk_repo d = r \<longrightarrow>
     fsck_step S d S' d' \<and>
     (run_ok S0 r S d d' \<and> stored_ok S r i \<longrightarrow>
        fsck_inv S0 S' d' \<and> (\<forall>j. res = DirOk j \<longrightarrow> healthy_dir m S' r (found_damaged S0 r) j)))"

definition entries_result ::
    "nat \<Rightarrow> gc_session \<Rightarrow> gc_repo \<Rightarrow> dirent list \<Rightarrow> dirent list \<Rightarrow> bool \<Rightarrow> gc_session \<Rightarrow> fsck_data
     \<Rightarrow> dir_result + bool \<times> dirent list \<Rightarrow> gc_session \<Rightarrow> fsck_data \<Rightarrow> bool" where
  "entries_result m S0 r es acc corrupted S d res S' d' \<longleftrightarrow>
     fsck_step S d S' d' \<and>
     (run_ok S0 r S d d' \<longrightarrow> fsck_inv S0 S' d' \<and>
        (\<forall>c es'. res = Inr (c, es') \<longrightarrow>
           (\<forall>e\<in>set acc. healthy_entry (healthy_dir m S r (found_damaged S0 r)) S r (found_damaged S0 r) e) \<longrightarrow>
           (\<forall>e\<in>set es'. healthy_entry (healthy_dir m S' r (found_damaged S0 r)) S' r (found_damaged S0 r) e))) \<and>
     (\<forall>c es'. res = Inr (c, es') \<longrightarrow>
        length es' = length acc + length es \<and> (\<not> c \<longrightarrow> \<not> corrupted \<and> es' = acc @ es))"

lemma entries_result_next:
  assumes IH: "entries_result m S0 r es (acc @ [e']) corrupted' S1 d1 res S' d'" and r: "fk_repo d = r"
    and step: "fsck_step S d S1 d1" and c: "corrupted \<or> e' \<noteq> e \<longrightarrow> corrupted'"
    and h: "run_ok S0 r S d d1 \<Longrightarrow> fsck_inv S0 S1 d1 \<and>
      healthy_entry (healthy_dir m S1 r (found_damaged S0 r)) S1 r (found_damaged S0 r) e'"
  shows "entries_result m S0 r (e # es) acc corrupted S d res S' d'"
proof -
  let ?H = "\<lambda>S. healthy_entry (healthy_dir m S r (found_damaged S0 r)) S r (found_damaged S0 r)"
  have step': "fsck_step S1 d1 S' d'" using IH by (simp add: entries_result_def)
  have run: "run_ok S0 r S1 d1 d' \<and> ?H S1 e' \<and> ((\<forall>x\<in>set acc. ?H S x) \<longrightarrow> (\<forall>x\<in>set acc. ?H S1 x))"
    if "run_ok S0 r S d d'"
  proof -
    have "saved_ok S0 r (set (fk_saved d1))" using that step' saved_ok_mono unfolding fsck_step_def by blast
    with h that have "fsck_inv S0 S1 d1 \<and> ?H S1 e'" by blast
    moreover have "\<forall>x\<in>set acc. ?H S x \<Longrightarrow> \<forall>x\<in>set acc. ?H S1 x"
      using healthy_entry_keeps step r unfolding fsck_step_def by blast
    ultimately show ?thesis using that step by (simp add: fsck_step_def)
  qed
  have "fsck_step S d S' d'" by (rule fsck_step_trans [OF step step'])
  moreover have "fsck_inv S0 S' d' \<and> (\<forall>c es'. res = Inr (c, es') \<longrightarrow> (\<forall>x\<in>set acc. ?H S x) \<longrightarrow> (\<forall>x\<in>set es'. ?H S' x))"
    if "run_ok S0 r S d d'"
  proof (intro conjI allI impI)
    show "fsck_inv S0 S' d'" using IH run [OF that] by (simp add: entries_result_def)
    fix c es' assume "res = Inr (c, es')" "\<forall>x\<in>set acc. ?H S x"
    moreover have "\<forall>x\<in>set (acc @ [e']). ?H S1 x" using run [OF that] calculation(2) by auto
    ultimately show "\<forall>x\<in>set es'. ?H S' x" using IH run [OF that] unfolding entries_result_def by blast
  qed
  ultimately show ?thesis using IH c unfolding entries_result_def by auto
qed

lemma entries_result_stop:
  assumes "fsck_step S d S' d'" "run_ok S0 r S d d' \<Longrightarrow> fsck_inv S0 S' d'"
  shows "entries_result m S0 r es acc corrupted S d (Inl x) S' d'"
  using assms unfolding entries_result_def by blast

lemma fsck_entries_spec:
  assumes w: "walk_ok (Suc m) S0 r walk" and v: "0 < gr_version r"
  shows "fsck_entries walk p es acc last_id corrupted S d = Some (res, S', d') \<Longrightarrow> fk_repo d = r \<Longrightarrow>
    entries_result (Suc m) S0 r es acc corrupted S d res S' d'"
proof (induction es arbitrary: acc last_id corrupted S d)
  case Nil
  then show ?case by (auto simp: entries_result_def)
next
  case (Cons e es)
  note r = Cons.prems(2)
  have v': "0 < gr_version (fk_repo d)" using v r by simp
  consider (reg) "S_ISREG (d_mode e)" | (dir) "\<not> S_ISREG (d_mode e)" "S_ISDIR (d_mode e)"
    | (other) "\<not> S_ISREG (d_mode e)" "\<not> S_ISDIR (d_mode e)" by blast
  then show ?case
  proof cases
    case reg
    obtain fr S1 d1 where f: "fsck_file e S d = Some (fr, S1, d1)"
      using Cons.prems(1) reg by (auto split: option.splits)
    note F = fsck_file_spec [OF f v', of S0]
    then have rep: "fk_repo d1 = r" using r by (simp add: fsck_step_def)
    show ?thesis
    proof (cases fr)
      case None
      then have "res = Inl last_id" "S' = S1" "d' = d1" using Cons.prems(1) reg f by simp_all
      then show ?thesis using F r by (auto intro!: entries_result_stop)
    next
      case (Some eb)
      then obtain e' bad where fr: "fr = Some (e', bad)" by (cases eb) auto
      let ?c = "corrupted \<or> bad"
      let ?d = "if ?c then d1\<lparr>fk_files := (p @ d_name e') # fk_files d1\<rparr> else d1"
      have "fsck_entries walk p es (acc @ [e']) last_id ?c S1 ?d = Some (res, S', d')"
        using Cons.prems(1) reg f fr by (simp add: Let_def)
      from Cons.IH [OF this] rep
      have "entries_result (Suc m) S0 r es (acc @ [e']) ?c S1 ?d res S' d'" by simp
      then show ?thesis
      proof (rule entries_result_next [OF _ r])
        show "fsck_step S d S1 ?d" using F by (simp add: fsck_step_def)
        show "corrupted \<or> e' \<noteq> e \<longrightarrow> ?c"
          using f fr by (auto simp: fsck_file_def split: prod.splits bool.splits option.splits if_splits)
        assume run: "run_ok S0 r S d ?d"
        then have "saved_ok S0 r (set (fk_saved d))" using F by (simp split: if_splits)
        with F run r fr have "fsck_inv S0 S1 d1" "healthy_file S1 r (found_damaged S0 r) (d_id e')" "d_mode e' = d_mode e"
          by (auto simp: found_damaged_def)
        moreover have "\<not> S_ISDIR (d_mode e)" using reg by (auto simp: S_ISREG_def S_ISDIR_def S_IFREG_def S_IFDIR_def)
        ultimately show "fsck_inv S0 S1 ?d \<and>
            healthy_entry (healthy_dir (Suc m) S1 r (found_damaged S0 r)) S1 r (found_damaged S0 r) e'"
          by (simp add: healthy_entry_def)
      qed
    qed
  next
    case dir
    let ?path = "p @ d_name e @ ''/''"
    obtain valid io_error S1 where ver: "fsck_verify_seafobj S (gr_store_id (fk_repo d)) (gr_version (fk_repo d)) (d_id e)
        VERIFY_DIR (fk_repair d) = (valid, io_error, S1)" using prod_cases3 by blast
    note V = verify_seafobj_keeps [OF ver v']
    have step1: "fsck_step S d S1 d" using V by (simp add: fsck_step_def)
    have inv1: "fsck_inv S0 S1 d" if "fsck_inv S0 S d" "saved_ok S0 r (set (fk_saved d))"
      using fsck_inv_verify [OF ver v'] that r by simp
    show ?thesis
    proof (cases valid)
      case False
      let ?e = "e\<lparr>d_id := EMPTY_SHA1\<rparr>" and ?d = "d\<lparr>fk_folders := ?path # fk_folders d\<rparr>"
      have "fsck_entries walk p es (acc @ [?e]) last_id True S1 ?d = Some (res, S', d')"
        using Cons.prems(1) dir ver False V by (simp add: Let_def)
      from Cons.IH [OF this] r show ?thesis
        by (intro entries_result_next [OF _ r, of _ _ _ _ ?e True S1 ?d])
          (use step1 inv1 dir healthy_empty(2) in \<open>auto simp: fsck_step_def healthy_entry_def simp del: healthy_dir.simps\<close>)
    next
      case True
      obtain wr S2 d2 where wk: "walk (d_id e) ?path S1 d = Some (wr, S2, d2)" "wr \<noteq> DirFreed"
        using Cons.prems(1) dir ver True by (auto simp: Let_def split: option.splits dir_result.splits)
      have S1: "S1 = S" "stored_ok S r (d_id e)" using V True r by simp_all
      have W: "fsck_step S d S2 d2" "run_ok S0 r S d d2 \<Longrightarrow> fsck_inv S0 S2 d2 \<and>
          (\<forall>j. wr = DirOk j \<longrightarrow> healthy_dir (Suc m) S2 r (found_damaged S0 r) j)"
        using w wk(1) r S1 unfolding walk_ok_def by blast+
      show ?thesis
      proof (cases wr)
        case (DirOk j)
        let ?e = "e\<lparr>d_id := j\<rparr>" and ?c = "corrupted \<or> j \<noteq> d_id e"
        have "j = d_id e \<Longrightarrow> ?e = e" by simp
        then have "fsck_entries walk p es (acc @ [?e]) DirFreed ?c S2 d2 = Some (res, S', d')"
          using Cons.prems(1) dir ver True wk DirOk S1(1) by (cases "j = d_id e") (simp_all add: Let_def)
        moreover have "fk_repo d2 = r" using W(1) r by (simp add: fsck_step_def)
        ultimately have "entries_result (Suc m) S0 r es (acc @ [?e]) ?c S2 d2 res S' d'" by (rule Cons.IH)
        then show ?thesis
          by (rule entries_result_next [OF _ r W(1)])
            (use W(2) dir DirOk in \<open>auto simp: healthy_entry_def simp del: healthy_dir.simps\<close>)
      next
        case DirNull
        then have "res = Inl DirNull" "S' = S2" "d' = d2" using Cons.prems(1) dir ver True wk by (simp_all add: Let_def)
        then show ?thesis using entries_result_stop W by blast
      next
        case DirFreed
        then show ?thesis using wk(2) by simp
      qed
    qed
  next
    case other
    then have "fsck_entries walk p es (acc @ [e]) last_id corrupted S d = Some (res, S', d')" using Cons.prems(1) by simp
    from Cons.IH [OF this r] show ?thesis
      by (rule entries_result_next [OF _ r]) (use other in \<open>auto simp: healthy_entry_def\<close>)
  qed
qed

lemma save_new_dir:
  assumes save: "seaf_dir_save (gs_libs S) (gs_fs S) (gr_store_id (fk_repo d)) D = (e, st)" "\<not> e < 0"
    and S': "S' = S\<lparr>gs_fs := st\<rparr>" "d' = d\<lparr>fk_saved := D # fk_saved d\<rparr>"
  shows "fsck_keeps (fk_repo d) S S'"
    and "fsck_inv S0 S d \<Longrightarrow> saved_ok S0 (fk_repo d) (set (fk_saved d')) \<Longrightarrow> fsck_inv S0 S' d'"
proof -
  let ?q = "gr_store_id (fk_repo d)"
  have st: "gs_fs S' = st" "gs_libs S' = gs_libs S" "gs_blocks S' = gs_blocks S" by (simp_all add: S'(1))
  have check: "block_check S' = block_check S" by (simp add: block_check_def fun_eq_iff st)
  have "S\<lparr>gs_fs := gs_fs S', gs_blocks := gs_blocks S'\<rparr> = S'" by (simp add: S'(1))
  then show k: "fsck_keeps (fk_repo d) S S'"
    using seaf_dir_save_keeps [OF save(1)] unfolding fsck_keeps_def by (simp add: st check)
  assume inv: "fsck_inv S0 S d" and saved: "saved_ok S0 (fk_repo d) (set (fk_saved d'))"
  have L: "gs_libs S = gs_libs S0" by (rule fsck_inv_libs [OF inv])
  let ?rd = "seaf_obj_store_read_obj (gs_libs S0)"
  obtain x where x: "ondisk D = Some x" "take 40 (dir_id D) \<noteq> EMPTY_SHA1"
    using saved by (auto simp: saved_ok_def dir_loads_def S'(2))
  have e: "e = 0" using seaf_dir_save_split [OF save(1) x(2)] seaf_store.save_status save(2) save(1)
    by (auto simp: seaf_dir_save_def split: if_splits prod.splits)
  have old: "?rd (gs_fs S) ?q (dir_id D) \<in> {None, Some x}"
  proof (cases "?rd (gs_fs S) ?q (dir_id D)")
    case (Some y)
    have "?rd (gs_fs S0) ?q (dir_id D) = Some y \<or> (\<exists>E\<in>set (fk_saved d). dir_id E = dir_id D \<and> ondisk E = Some y)"
      by (rule fsck_inv_read [OF inv Some])
    moreover have "D \<in> set (fk_saved d')" "set (fk_saved d) \<subseteq> set (fk_saved d')" by (auto simp: S'(2))
    ultimately have "Some y = ondisk D" using saved unfolding saved_ok_def by (metis insertE option.distinct(1) singletonD subsetD)
    then have "y = x" using x(1) by simp
    with Some show ?thesis by simp
  qed simp
  have new: "?rd st ?q (dir_id D) = Some x"
    using seaf_dir_save_reads [OF save(1) [unfolded e L] x(2,1) old] .
  have "?rd st ?q (dir_id E) = ondisk E" if "E \<in> set (fk_saved d')" for E
  proof (cases "E \<in> set (fk_saved d)")
    case True
    obtain y where y: "ondisk E = Some y"
      using saved \<open>E \<in> set (fk_saved d')\<close> unfolding saved_ok_def dir_loads_def by blast
    with inv True have "?rd (gs_fs S) ?q (dir_id E) = Some y" by (simp add: fsck_inv_def)
    then show ?thesis using seaf_dir_save_keeps [OF save(1) [unfolded L]] y by simp
  next
    case False
    then have "E = D" using that by (simp add: S'(2))
    then show ?thesis using new x(1) by simp
  qed
  moreover have "?rd (gs_fs S0) ?q i = Some y \<or> (\<exists>E\<in>set (fk_saved d'). dir_id E = i \<and> ondisk E = Some y)"
    if "?rd st ?q i = Some y" for i y
    using seaf_dir_save_from [OF save(1) [unfolded L] x(1) that] inv x(1) by (auto simp: fsck_inv_def S'(2))
  moreover have "fsck_keeps (fk_repo d) S0 S'" using inv k fsck_keeps_trans unfolding fsck_inv_def by blast
  moreover have "known_ok S0 S' d'" "blocks_shrunk S0 S'"
    using inv by (simp_all add: fsck_inv_def known_ok_def blocks_shrunk_def check S'(2))
  ultimately show "fsck_inv S0 S' d'" unfolding fsck_inv_def st(1) by (simp add: S'(2))
qed

lemma fsck_entries_stopped:
  "fsck_entries walk p es acc last_id c S d = Some (Inl x, S', d') \<Longrightarrow> last_id \<noteq> DirOk j \<Longrightarrow> x \<noteq> DirOk j"
proof (induction es arbitrary: acc last_id c S d)
  case (Cons e es)
  show ?case
  proof (cases "S_ISREG (d_mode e)")
    case True
    then show ?thesis using Cons.prems Cons.IH by (auto simp: Let_def split: option.split_asm)
  next
    case reg: False
    show ?thesis
    proof (cases "S_ISDIR (d_mode e)")
      case True
      obtain valid io_error S1 where ver: "fsck_verify_seafobj S (gr_store_id (fk_repo d)) (gr_version (fk_repo d)) (d_id e)
        VERIFY_DIR (fk_repair d) = (valid, io_error, S1)" using prod_cases3 by blast
      show ?thesis
      proof (cases valid)
        case False
        then show ?thesis using Cons.prems Cons.IH True reg ver by (simp add: Let_def split: if_split_asm)
      next
        case valid: True
        obtain wr S2 d2 where wk: "walk (d_id e) (p @ d_name e @ ''/'') S1 d = Some (wr, S2, d2)"
          using Cons.prems(1) True reg ver valid by (auto simp: Let_def split: option.splits)
        show ?thesis
        proof (cases wr)
          case (DirOk i)
          then show ?thesis
            using Cons.prems(1) True reg ver valid wk Cons.IH [where last_id = DirFreed]
            by (simp add: Let_def split: if_split_asm)
        qed (use Cons.prems True reg ver valid wk in \<open>simp_all add: Let_def\<close>)
      qed
    next
      case False
      then show ?thesis using Cons.prems Cons.IH reg by simp
    qed
  qed
qed simp

lemma stored_id:
  assumes "stored_ok S r i"
  shows "take 40 i = EMPTY_SHA1 \<or> take 40 i = i"
proof -
  have "is_object_id_valid i" if "seaf_obj_store_read_obj L st q i = Some x" for L st q x
    using that by (auto simp: seaf_obj_store_read_obj_def split: if_splits)
  then show ?thesis using assms unfolding stored_ok_def by (metis id_valid_length order_refl take_all)
qed

lemma fsck_check_dir_spec: "0 < gr_version r \<Longrightarrow> walk_ok (Suc n) S0 r (fsck_check_dir_recursive n)"
proof (induction n)
  case 0
  then show ?case by (simp add: walk_ok_def)
next
  case (Suc n)
  note w = Suc.IH [OF Suc.prems] and v = Suc.prems
  show ?case
    unfolding walk_ok_def
  proof (intro allI impI)
    fix i p S d res S' d'
    assume run: "fsck_check_dir_recursive (Suc n) i p S d = Some (res, S', d')" and r: "fk_repo d = r"
    let ?X = "found_damaged S0 r"
    obtain dir where dir: "get_dir (gc_fs S r) i = Some dir" using run r by (auto split: option.splits)
    obtain er S1 d1 where es: "fsck_entries (fsck_check_dir_recursive n) p (entries dir) [] DirNull False S d = Some (er, S1, d1)"
      using run r dir by (auto split: option.splits)
    have E: "entries_result (Suc n) S0 r (entries dir) [] False S d er S1 d1"
      by (rule fsck_entries_spec [OF w v es r])
    have r1: "fk_repo d1 = r" using E r by (simp add: entries_result_def fsck_step_def)
    let ?goal = "fsck_step S d S' d' \<and> (run_ok S0 r S d d' \<and> stored_ok S r i \<longrightarrow>
      fsck_inv S0 S' d' \<and> (\<forall>j. res = DirOk j \<longrightarrow> healthy_dir (Suc (Suc n)) S' r ?X j))"
    show ?goal
    proof (cases er)
      case (Inl last_id)
      then have "res = last_id" "S' = S1" "d' = d1" using run r dir es by simp_all
      moreover have "last_id \<noteq> DirOk j" for j using fsck_entries_stopped es Inl by blast
      ultimately show ?thesis using E unfolding entries_result_def by blast
    next
      case (Inr ce)
      then obtain c es' where er: "er = Inr (c, es')" by (cases ce) auto
      have fin: "fsck_finish_dir dir c es' S1 d1 = Some (res, S', d')" using run r dir es er by simp
      show ?thesis
      proof (cases c)
        case False
        then have "fsck_finish_dir dir c es' S1 d1 = Some (DirOk (dir_id dir), S1, d1)" by (simp add: fsck_finish_dir_def)
        from trans [OF fin [symmetric] this] have f: "res = DirOk (dir_id dir)" "S' = S1" "d' = d1"
          unfolding option.inject prod.inject by blast+
        have "es' = entries dir" using E er False unfolding entries_result_def by auto
        moreover have "healthy_dir (Suc (Suc n)) S1 r ?X (dir_id dir)"
          if h: "\<forall>e\<in>set (entries dir). healthy_entry (healthy_dir (Suc n) S1 r ?X) S1 r ?X e"
            and k: "fsck_keeps r S S1" and ok: "stored_ok S r i"
        proof (cases "take 40 i = EMPTY_SHA1")
          case True
          then show ?thesis using get_dir_id [OF dir] healthy_empty(2) by simp
        next
          case False
          then have "dir_id dir = i" using get_dir_id [OF dir] stored_id [OF ok] by simp
          then show ?thesis
            using h dir get_keeps(1) [OF ok k] stored_ok_keeps [OF ok k] by (subst healthy_dir.simps) auto
        qed
        ultimately show ?thesis using E er f r unfolding entries_result_def fsck_step_def by auto
      next
        case True
        let ?D = "seaf_dir_new (gs_libs S1) None es' (gr_version r)"
        show ?thesis
        proof (cases "fk_repair d")
          case False
          have "\<not> fk_repair d1" using E False by (simp add: entries_result_def fsck_step_def)
          then have "fsck_finish_dir dir c es' S1 d1 = Some (DirOk (dir_id ?D), S1, d1)"
            using True r1 by (simp add: fsck_finish_dir_def Let_def)
          from trans [OF fin [symmetric] this] have "S' = S1" "d' = d1" unfolding option.inject prod.inject by blast+
          then show ?thesis using E False by (simp add: entries_result_def)
        next
          case repair: True
          have "fk_repair d1" using E repair by (simp add: entries_result_def fsck_step_def)
          then obtain e st where save: "seaf_dir_save (gs_libs S1) (gs_fs S1) (gr_store_id (fk_repo d1)) ?D = (e, st)" "\<not> e < 0"
            and f: "(DirOk (dir_id ?D), S1\<lparr>gs_fs := st\<rparr>, d1\<lparr>fk_saved := ?D # fk_saved d1\<rparr>) = (res, S', d')"
            using fin True r1 by (auto simp: fsck_finish_dir_def Let_def split: prod.splits if_splits)
          have f: "res = DirOk (dir_id ?D)" "S' = S1\<lparr>gs_fs := st\<rparr>" "d' = d1\<lparr>fk_saved := ?D # fk_saved d1\<rparr>"
            using f unfolding prod.inject by blast+
          note sv = save_new_dir [OF save f(2,3), unfolded r1]
          have "fk_repo d' = r" "fk_repair d'" "set (fk_saved d1) \<subseteq> set (fk_saved d')"
            using r1 \<open>fk_repair d1\<close> by (simp_all add: f(3) subset_insertI)
          then have "fsck_step S1 d1 S' d'" unfolding fsck_step_def r1 using sv(1) \<open>fk_repair d1\<close> by simp
          moreover have "fsck_step S d S1 d1" using E unfolding entries_result_def by (rule conjunct1)
          ultimately have step: "fsck_step S d S' d'" by (rule fsck_step_trans [rotated])
          have "fsck_inv S0 S' d' \<and> healthy_dir (Suc (Suc n)) S' r ?X (dir_id ?D)"
            if run: "run_ok S0 r S d d'"
          proof
            have "run_ok S0 r S d d1" using run saved_ok_mono by (auto simp: f(3))
            then have h: "fsck_inv S0 S1 d1" "\<forall>e\<in>set es'. healthy_entry (healthy_dir (Suc n) S1 r ?X) S1 r ?X e"
              using E er unfolding entries_result_def by auto
            show inv: "fsck_inv S0 S' d'" using sv(2) h(1) run by blast
            have L: "gs_libs S' = gs_libs S0" by (rule fsck_inv_libs [OF inv])
            obtain x dir' where x: "ondisk ?D = Some x" "verify_fs_object_json (gs_libs S0) (dir_id ?D) x"
              "seaf_dir_from_data (gs_libs S0) (dir_id ?D) x True = Some dir'" "entries dir' = es'"
              "take 40 (dir_id ?D) \<noteq> EMPTY_SHA1"
              using run by (auto simp: saved_ok_def dir_loads_def f(3))
            have rd: "seaf_obj_store_read_obj (gs_libs S0) (gs_fs S') (gr_store_id r) (dir_id ?D) = Some x"
              using inv x(1) r1 by (simp add: fsck_inv_def f(3))
            have "get_dir (gc_fs S' r) (dir_id ?D) = Some dir'"
              using rd x(3,5) v by (simp add: gc_fs_def seaf_fs_manager_get_seafdir_def L)
            moreover have "stored_ok S' r (dir_id ?D)" using rd x(2) by (auto simp: stored_ok_def L)
            ultimately show "healthy_dir (Suc (Suc n)) S' r ?X (dir_id ?D)"
              using h(2) healthy_entry_keeps [OF _ sv(1)] x(4) by (subst healthy_dir.simps) auto
          qed
          then show ?thesis using step f(1) by auto
        qed
      qed
    qed
  qed
qed


section \<open>Checking without repairing\<close>

lemma fsck_verify_dry: "fsck_verify_seafobj S q v i T False = (valid, io_error, S') \<Longrightarrow> S' = S"
  by (auto simp: fsck_verify_seafobj_def split: if_splits prod.splits)

lemma fsck_file_dry:
  assumes "fsck_file e S d = Some (res, S', d')" "\<not> fk_repair d"
  shows "S' = S \<and> \<not> fk_repair d'"
proof -
  obtain valid io_error S1 where ver: "fsck_verify_seafobj S (gr_store_id (fk_repo d)) (gr_version (fk_repo d)) (d_id e)
      VERIFY_FILE (fk_repair d) = (valid, io_error, S1)" using prod_cases3 by blast
  have S1: "S1 = S" using ver fsck_verify_dry assms(2) by simp
  have blocks: "S2 = S \<and> \<not> fk_repair d2" if "fsck_check_blocks (d_id e) S d = Some (ret, io2, S2, d2)" for ret io2 S2 d2
    using that block_loop_spec [of _ 0 S d ret io2 S2 d2] assms(2)
    by (auto simp: fsck_check_blocks_def fsck_step_def split: option.splits)
  show ?thesis
    using assms ver S1 blocks by (auto simp: fsck_file_def split: bool.splits option.splits)
qed

lemma fsck_entries_dry:
  assumes w: "\<And>i p S d res S' d'. walk i p S d = Some (res, S', d') \<Longrightarrow> \<not> fk_repair d \<Longrightarrow> S' = S \<and> \<not> fk_repair d'"
  shows "fsck_entries walk p es acc last_id c S d = Some (res, S', d') \<Longrightarrow> \<not> fk_repair d \<Longrightarrow> S' = S \<and> \<not> fk_repair d'"
proof (induction es arbitrary: acc last_id c d)
  case (Cons e es)
  consider (reg) fr d1 where "S_ISREG (d_mode e)" "fsck_file e S d = Some (fr, S, d1)" "\<not> fk_repair d1"
    | (sub) valid io_error where "\<not> S_ISREG (d_mode e)" "S_ISDIR (d_mode e)"
        "fsck_verify_seafobj S (gr_store_id (fk_repo d)) (gr_version (fk_repo d)) (d_id e) VERIFY_DIR (fk_repair d)
           = (valid, io_error, S)"
    | (other) "\<not> S_ISREG (d_mode e)" "\<not> S_ISDIR (d_mode e)"
  proof (cases "S_ISREG (d_mode e)")
    case True
    then obtain fr S1 d1 where "fsck_file e S d = Some (fr, S1, d1)" using Cons.prems(1) by (auto split: option.splits)
    with fsck_file_dry [OF this Cons.prems(2)] True that(1) show ?thesis by simp
  next
    case False
    obtain valid io_error S1 where
      "fsck_verify_seafobj S (gr_store_id (fk_repo d)) (gr_version (fk_repo d)) (d_id e) VERIFY_DIR (fk_repair d)
        = (valid, io_error, S1)" using prod_cases3 by blast
    with False fsck_verify_dry Cons.prems(2) that(2,3) show ?thesis by (cases "S_ISDIR (d_mode e)") auto
  qed
  then show ?case
  proof cases
    case reg
    show ?thesis
    proof (cases fr)
      case None
      then show ?thesis using Cons.prems(1) reg by simp
    next
      case (Some ab)
      then obtain a b where fr: "fr = Some (a, b)" by (cases ab) simp
      let ?d = "if c \<or> b then d1\<lparr>fk_files := (p @ d_name a) # fk_files d1\<rparr> else d1"
      have "fsck_entries walk p es (acc @ [a]) last_id (c \<or> b) S ?d = Some (res, S', d')"
        using Cons.prems(1) reg fr by (simp add: Let_def split del: if_split)
      from Cons.IH [OF this] reg(3) show ?thesis by simp
    qed
  next
    case sub
    show ?thesis
    proof (cases valid)
      case False
      then show ?thesis using Cons.prems sub Cons.IH by (simp add: Let_def split: if_split_asm)
    next
      case True
      obtain wr S2 d2 where wk: "walk (d_id e) (p @ d_name e @ ''/'') S d = Some (wr, S2, d2)"
        using Cons.prems(1) sub True by (auto simp: Let_def split: option.splits)
      note W = w [OF wk Cons.prems(2)]
      show ?thesis
      proof (cases wr)
        case (DirOk i)
        then show ?thesis
          using Cons.prems(1) sub True wk W Cons.IH [where last_id = DirFreed] by (simp add: Let_def split: if_split_asm)
      qed (use Cons.prems sub True wk W in \<open>simp_all add: Let_def\<close>)
    qed
  next
    case other
    then show ?thesis using Cons.prems Cons.IH by simp
  qed
qed simp

lemma fsck_dir_dry:
  "fsck_check_dir_recursive n i p S d = Some (res, S', d') \<Longrightarrow> \<not> fk_repair d \<Longrightarrow> S' = S \<and> \<not> fk_repair d'"
proof (induction n arbitrary: i p S d res S' d')
  case (Suc n)
  then obtain dir where dir: "get_dir (gc_fs S (fk_repo d)) i = Some dir" by (auto split: option.splits)
  obtain er S1 d1 where es: "fsck_entries (fsck_check_dir_recursive n) p (entries dir) [] DirNull False S d = Some (er, S1, d1)"
    using Suc.prems(1) dir by (auto split: option.splits)
  note E = fsck_entries_dry [OF Suc.IH es Suc.prems(2)]
  show ?case
    using Suc.prems(1) dir es E by (cases er) (auto simp: fsck_finish_dir_def Let_def split: prod.splits if_splits)
qed simp

lemma check_and_recover_dry: "check_and_recover_repo n X r reset False = Some X' \<Longrightarrow> X' = X"
  by (auto simp: check_and_recover_repo_def Let_def split: option.splits dir_result.splits dest: fsck_dir_dry)

lemma find_available_dry: "find_available r repo False cs S = Some (found, S') \<Longrightarrow> S' = S"
  by (induction cs arbitrary: S) (auto split: prod.splits bool.splits if_splits dest: fsck_verify_dry)

lemma recover_available_dry: "recover_available n X repo False = Some X' \<Longrightarrow> X' = X"
  by (auto simp: recover_available_def get_available_repo_def Let_def split: option.splits if_splits
      dest!: find_available_dry check_and_recover_dry)

lemma repair_repo_dry: "repair_repo n X repo False = Some X' \<Longrightarrow> X' = X"
  by (auto simp: repair_repo_def Let_def split: option.splits if_splits prod.splits bool.splits
      dest!: fsck_verify_dry check_and_recover_dry recover_available_dry)

text \<open>C35: without \<open>repair\<close> the check of any number of libraries changes nothing: no object, block, commit, branch or
  token.\<close>

theorem fsck_dry_run:
  assumes "seaf_fsck n ids False X = Some (ret, X')"
  shows "X' = X"
proof -
  have "repair_repos n ids False X = Some X' \<Longrightarrow> X' = X" for ids
    by (induction ids arbitrary: X) (auto split: option.splits dest: repair_repo_dry)
  then show ?thesis using assms by (auto simp: seaf_fsck_def Let_def split: option.splits)
qed

section \<open>Healthy libraries\<close>

lemma block_loop_valid:
  "\<forall>b\<in>set ids. block_check S (gr_store_id (fk_repo d)) b = Some True \<Longrightarrow>
   fsck_block_loop ids ret S d = (ret, False, S, d\<lparr>fk_existing := set ids \<union> fk_existing d\<rparr>)"
proof (induction ids arbitrary: d)
  case (Cons b ids)
  have v: "seaf_block_manager_verify_block (gs_libs S) (gs_blocks S) (gr_store_id (fk_repo d)) b = Some True"
    using Cons.prems by (simp add: block_check_def)
  then have "seaf_block_manager_block_exists (gs_libs S) (gs_blocks S) (gr_store_id (fk_repo d)) b"
    by (auto simp: verify_block_closed seaf_block_manager_block_exists_def block_backend_fs_block_exists_def
        split: if_splits option.splits)
  with v Cons show ?case by (auto simp: Let_def insert_absorb)
qed simp

lemma fsck_file_healthy:
  assumes "healthy_file S (fk_repo d) {} (d_id e)" "0 < gr_version (fk_repo d)"
  shows "\<exists>E. fsck_file e S d = Some (Some (e, False), S, d\<lparr>fk_existing := E\<rparr>)"
proof -
  obtain f where f: "get_file (gc_fs S (fk_repo d)) (d_id e) = Some f" "stored_ok S (fk_repo d) (d_id e)"
    "\<forall>b\<in>set (blk_sha1s f). block_check S (gr_store_id (fk_repo d)) b = Some True"
    using assms(1) by (auto simp: healthy_file_def)
  show ?thesis
    using f verify_seafobj_closed [OF assms(2)] block_loop_valid [OF f(3)]
    by (auto simp: fsck_file_def fsck_check_blocks_def)
qed

lemma parse_dirent_id: "parse_dirent v j = Some e \<Longrightarrow> length (d_id e) \<le> 40"
  by (auto simp: parse_dirent_def Let_def split: option.splits if_splits)

lemma parse_dirents_ids: "parse_dirents v js = Some es \<Longrightarrow> e \<in> set es \<Longrightarrow> length (d_id e) \<le> 40"
  by (induction js arbitrary: es) (auto split: option.splits dest: parse_dirent_id)

lemma get_dir_entry_ids:
  assumes "get_dir (gc_fs S r) i = Some dir" "0 < gr_version r" "e \<in> set (entries dir)"
  shows "length (d_id e) \<le> 40"
  using assms parse_dirents_ids
  by (auto simp: gc_fs_def seaf_fs_manager_get_seafdir_def seaf_dir_from_data_def seaf_dir_from_json_def
      seaf_dir_from_json_object_def Let_def split: if_splits option.splits)

lemma fsck_entries_healthy:
  assumes w: "\<And>i p d. fk_repo d = r \<Longrightarrow> healthy_dir n S r {} i \<Longrightarrow>
      \<exists>E. walk i p S d = Some (DirOk (take 40 i), S, d\<lparr>fk_existing := E\<rparr>)" and v: "0 < gr_version r"
  shows "\<forall>e\<in>set es. healthy_entry (healthy_dir n S r {}) S r {} e \<and> length (d_id e) \<le> 40 \<Longrightarrow> fk_repo d = r \<Longrightarrow>
    \<exists>E. fsck_entries walk p es acc last_id False S d = Some (Inr (False, acc @ es), S, d\<lparr>fk_existing := E\<rparr>)"
proof (induction es arbitrary: acc last_id d)
  case Nil
  then show ?case by (intro exI [of _ "fk_existing d"]) simp
next
  case (Cons e es)
  have IH: "\<exists>E. fsck_entries walk p es (acc @ [e]) l False S (d\<lparr>fk_existing := E0\<rparr>)
      = Some (Inr (False, acc @ e # es), S, d\<lparr>fk_existing := E\<rparr>)" for l E0
    using Cons.IH [of "d\<lparr>fk_existing := E0\<rparr>" "acc @ [e]" l] Cons.prems by simp
  have IH0: "\<exists>E. fsck_entries walk p es (acc @ [e]) l False S d = Some (Inr (False, acc @ e # es), S, d\<lparr>fk_existing := E\<rparr>)" for l
    using IH [of l "fk_existing d"] by simp
  have h: "healthy_entry (healthy_dir n S r {}) S r {} e" "take 40 (d_id e) = d_id e" using Cons.prems by simp_all
  consider (reg) "S_ISREG (d_mode e)" | (sub) "\<not> S_ISREG (d_mode e)" "S_ISDIR (d_mode e)"
    | (other) "\<not> S_ISREG (d_mode e)" "\<not> S_ISDIR (d_mode e)" by blast
  then show ?case
  proof cases
    case reg
    then obtain E0 where "fsck_file e S d = Some (Some (e, False), S, d\<lparr>fk_existing := E0\<rparr>)"
      using fsck_file_healthy [of S d e] h(1) Cons.prems(2) v by (auto simp: healthy_entry_def)
    then show ?thesis using reg IH [of last_id E0] by simp
  next
    case sub
    then have hd: "healthy_dir n S r {} (d_id e)" using h(1) by (simp add: healthy_entry_def)
    then have "stored_ok S r (d_id e)" by (cases n) auto
    then have "fsck_verify_seafobj S (gr_store_id (fk_repo d)) (gr_version (fk_repo d)) (d_id e) VERIFY_DIR (fk_repair d)
        = (True, False, S)"
      using verify_seafobj_closed [OF v] Cons.prems(2) by simp
    moreover obtain E0 where "walk (d_id e) (p @ d_name e @ ''/'') S d = Some (DirOk (take 40 (d_id e)), S, d\<lparr>fk_existing := E0\<rparr>)"
      using w [OF Cons.prems(2) hd] by blast
    ultimately show ?thesis using sub h(2) IH [of DirFreed E0] by (simp add: Let_def)
  next
    case other
    then show ?thesis using IH0 by simp
  qed
qed

lemma fsck_healthy_dir:
  assumes "0 < gr_version r"
  shows "healthy_dir n S r {} i \<Longrightarrow> fk_repo d = r \<Longrightarrow>
    \<exists>E. fsck_check_dir_recursive n i p S d = Some (DirOk (take 40 i), S, d\<lparr>fk_existing := E\<rparr>)"
proof (induction n arbitrary: i p d)
  case (Suc n)
  then obtain dir where dir: "get_dir (gc_fs S r) i = Some dir"
    "\<forall>e\<in>set (entries dir). healthy_entry (healthy_dir n S r {}) S r {} e \<and> length (d_id e) \<le> 40"
    using get_dir_entry_ids assms by auto
  have w: "\<And>i p d. fk_repo d = r \<Longrightarrow> healthy_dir n S r {} i \<Longrightarrow>
      \<exists>E. fsck_check_dir_recursive n i p S d = Some (DirOk (take 40 i), S, d\<lparr>fk_existing := E\<rparr>)"
    by (rule Suc.IH)
  have "\<exists>E. fsck_entries (fsck_check_dir_recursive n) p (entries dir) [] DirNull False S d
      = Some (Inr (False, [] @ entries dir), S, d\<lparr>fk_existing := E\<rparr>)"
    by (rule fsck_entries_healthy [OF _ assms dir(2) Suc.prems(2)]) (rule w)
  then obtain E where "fsck_entries (fsck_check_dir_recursive n) p (entries dir) [] DirNull False S d
      = Some (Inr (False, entries dir), S, d\<lparr>fk_existing := E\<rparr>)" by auto
  then show ?case using dir(1) Suc.prems(2) get_dir_id [OF dir(1)] by (auto simp: fsck_finish_dir_def)
qed simp

text \<open>C36: a library whose head loads and whose tree is healthy is left as it is, with or without \<open>repair\<close>, when the
  fuel is above the depth of the tree.\<close>

theorem fsck_healthy_unchanged:
  assumes "gc_get_repo (fx_gc X) repo = Some r" "gr_head r = Some head" "0 < gr_version r"
    and "seaf_commit_manager_get_commit (gc_commits (fx_gc X) (gr_id r)) (br_commit_id head) = Some c"
    and "healthy_dir n (fx_gc X) r {} (root_id c)" "length (root_id c) = 40"
  shows "repair_repo n X repo repair = Some X"
proof -
  let ?S = "fx_gc X"
  let ?d = "\<lparr>fk_repair = repair, fk_repo = r, fk_existing = {}, fk_files = [], fk_folders = [], fk_saved = []\<rparr>"
  have "stored_ok ?S r (root_id c)" using assms(5) by (cases n) auto
  then have ver: "fsck_verify_seafobj ?S (gr_store_id r) (gr_version r) (root_id c) VERIFY_DIR repair = (True, False, ?S)"
    using verify_seafobj_closed [OF assms(3)] by simp
  obtain E where "fsck_check_dir_recursive n (root_id c) ''/'' ?S ?d = Some (DirOk (root_id c), ?S, ?d\<lparr>fk_existing := E\<rparr>)"
    using fsck_healthy_dir [OF assms(3,5), of ?d "''/''"] assms(6) by auto
  then have "check_and_recover_repo n X r False repair = Some X"
    using assms(2,4) by (simp add: check_and_recover_repo_def)
  then show ?thesis using assms(1,2,4) ver by (simp add: repair_repo_def Let_def)
qed

section \<open>Blocks that several files share\<close>

text \<open>C37: a damaged block is remembered as one that exists: of two files with that block the first is emptied, the
  second is kept although its block has just been removed.\<close>

theorem fsck_keeps_second_damaged_file:
  assumes "0 < gr_version (fk_repo d)" "fk_repair d" "fk_existing d = {}"
    and "S_ISREG (d_mode e1)" "S_ISREG (d_mode e2)"
    and "stored_ok S (fk_repo d) (d_id e1)" "stored_ok S (fk_repo d) (d_id e2)"
    and "get_file (gc_fs S (fk_repo d)) (d_id e1) = Some f1" "blk_sha1s f1 = [b]"
    and "get_file (gc_fs S (fk_repo d)) (d_id e2) = Some f2" "blk_sha1s f2 = [b]"
    and "seaf_block_manager_verify_block (gs_libs S) (gs_blocks S) (gr_store_id (fk_repo d)) b = Some False"
  shows "\<exists>S' d'. fsck_entries walk p [e1, e2] [] DirNull False S d = Some (Inr (True, [empty_file S' e1, e2]), S', d') \<and>
    \<not> seaf_block_manager_block_exists (gs_libs S') (gs_blocks S') (gr_store_id (fk_repo d)) b"
proof -
  let ?r = "fk_repo d" and ?S = "without_block S (gr_store_id (fk_repo d)) b"
  let ?d = "d\<lparr>fk_existing := {b}\<rparr>"
  have v: "is_uuid_valid (gs_libs S) (gr_store_id ?r) \<and> is_object_id_valid b \<and>
      bk_files (gs_blocks S) (get_block_path (gs_blocks S) b (gr_store_id ?r)) \<noteq> None"
    using assms(12) by (auto simp: verify_block_closed split: if_splits option.splits)
  then have ex: "seaf_block_manager_block_exists (gs_libs S) (gs_blocks S) (gr_store_id ?r) b"
    by (simp add: seaf_block_manager_block_exists_def block_backend_fs_block_exists_def)
  have gone: "\<not> seaf_block_manager_block_exists (gs_libs ?S) (gs_blocks ?S) (gr_store_id ?r) b"
    using v by (simp add: seaf_block_manager_block_exists_def block_backend_fs_block_exists_def without_block_def
        seaf_block_manager_remove_block_def block_backend_fs_remove_block_def Let_def get_block_path_def)
  have fs: "gc_fs ?S r = gc_fs S r" "stored_ok ?S r i \<longleftrightarrow> stored_ok S r i" for r i
    by (simp_all add: gc_fs_def stored_ok_def)
  have "fsck_file e1 S d = Some (Some (empty_file ?S e1, True), ?S, ?d)"
    using assms verify_seafobj_closed [OF assms(1)] ex
    by (simp add: fsck_file_def fsck_check_blocks_def Let_def without_block_def)
  moreover have "fsck_file e2 ?S (?d\<lparr>fk_files := l\<rparr>) = Some (Some (e2, False), ?S, ?d\<lparr>fk_files := l\<rparr>)" for l
    using assms verify_seafobj_closed [of "fk_repo d" ?S] by (simp add: fsck_file_def fsck_check_blocks_def fs)
  ultimately show ?thesis using assms(4,5) gone by (auto simp: Let_def)
qed

section \<open>A library with one file\<close>

text \<open>Its block \<open>b\<close> is damaged or valid; there may be an entry of a directory that is missing.\<close>

definition fk_file_ent :: dirent where
  "fk_file_ent = (demo_dirent ''f'' 0x81A4)\<lparr>d_version := 1, d_id := demo_id (CHR ''d''), d_modifier := Some ''me''\<rparr>"

definition fk_dir_ent :: dirent where
  "fk_dir_ent = (demo_dirent ''a'' 0x4000)\<lparr>d_version := 1, d_id := demo_id (CHR ''c'')\<rparr>"

definition fk_new_ents :: "dirent list" where
  "fk_new_ents = [fk_file_ent\<lparr>d_id := EMPTY_SHA1, d_mtime := 11, d_size := 0\<rparr>, fk_dir_ent\<lparr>d_id := EMPTY_SHA1\<rparr>]"

definition fk_dir :: "dirent list \<Rightarrow> seafdir" where
  "fk_dir es = \<lparr>dir_version = 1, dir_id = [], entries = es, ondisk = None\<rparr>"

definition fk_file :: "char \<Rightarrow> seafile" where
  "fk_file b = \<lparr>sf_version = 1, file_id = [], file_size = 1, blk_sha1s = [demo_id b]\<rparr>"

definition fk_libs :: "dirent list \<Rightarrow> char \<Rightarrow> libs" where
  "fk_libs es b = demo_clibs\<lparr>
     lib_json_dumps := (\<lambda>_. ''N''),
     lib_sha1 := (\<lambda>s. replicate 20 (if s = ''F'' then CHR 0xFF else if s = ''D'' then CHR 0xDD
                    else if s = ''N'' then CHR 0xBB else CHR 0xEE)),
     lib_json_loadb := (\<lambda>s.
       if s = ''F'' then Some (json_sort_keys (seaf_dir_to_json (fk_dir es)))
       else if s = ''N'' then Some (json_sort_keys (seaf_dir_to_json (fk_dir fk_new_ents)))
       else if s = ''D'' then Some (json_sort_keys (seafile_to_json (fk_file b)))
       else lib_json_loadb demo_clibs s)\<rparr>"

definition fk_id :: string where "fk_id = replicate 36 (CHR ''e'')"

definition fk_gc :: "dirent list \<Rightarrow> char \<Rightarrow> gc_session" where
  "fk_gc es b =
     \<lparr>gs_libs = fk_libs es b, gs_searpc = demo_searpc, gs_sha256 = (\<lambda>_. []), gs_alloc = (\<lambda>_. True), gs_now = 11,
      gs_repos = [fk_id], gs_virtual = [], gs_history = Map.empty, gs_keep_days = -1, gs_valid = Map.empty,
      gs_garbage = [], gs_fails = (\<lambda>_ _. False),
      gs_branches = \<lparr>bd_rows = [((fk_id, ''master''), demo_id (CHR ''a''))], bd_fails = (\<lambda>_. False), bd_updated = []\<rparr>,
      gs_commits = demo_cstore,
      gs_fs = \<lparr>obj_dir = [], files = (\<lambda>p. if p = id_to_path [] (demo_id (CHR ''f'')) fk_id then Some ''F''
                 else if p = id_to_path [] (demo_id (CHR ''d'')) fk_id then Some ''D'' else None), disk_ok = (\<lambda>_. True)\<rparr>,
      gs_blocks = demo_blocks\<lparr>bk_files := [get_block_path demo_blocks (demo_id b) fk_id \<mapsto> ''x'']\<rparr>,
      gs_listing = (\<lambda>_ _. [])\<rparr>"

definition fk_demo_repo :: gc_repo where
  "fk_demo_repo = gc_repo_from_commit
     ((gc_repo_new fk_id None None)\<lparr>gr_head := Some (seaf_branch_new ''master'' fk_id (demo_id (CHR ''a''))),
        gr_store_id := fk_id\<rparr>) demo_a"

lemma fk_simps [simp]:
  "gr_id fk_demo_repo = fk_id" "gr_store_id fk_demo_repo = fk_id" "gr_version fk_demo_repo = 1"
  "gr_head fk_demo_repo = Some (seaf_branch_new ''master'' fk_id (demo_id (CHR ''a'')))"
  "gs_libs (fk_gc es b) = fk_libs es b" "gs_now (fk_gc es b) = 11" "is_uuid_valid (fk_libs es b) r"
  "br_commit_id (seaf_branch_new ''master'' fk_id (demo_id (CHR ''a''))) = demo_id (CHR ''a'')"
  by (simp_all add: fk_demo_repo_def gc_repo_from_commit_def gc_repo_new_def fk_id_def fk_gc_def fk_libs_def
      demo_a_def demo_commit_def seaf_branch_new_def is_uuid_valid_def demo_clibs_def demo_libs_def Let_def)

lemma fk_hash:
  "sha1_hex (fk_libs es b) ''F'' = demo_id (CHR ''f'')" "sha1_hex (fk_libs es b) ''D'' = demo_id (CHR ''d'')"
  "sha1_hex (fk_libs es b) ''N'' = demo_id (CHR ''b'')" "sha1_hex (fk_libs es b) ''x'' = demo_id (CHR ''e'')"
proof -
  have "rawdata_to_hex (replicate 20 (CHR 0xFF)) = replicate 40 (CHR ''f'')"
    "rawdata_to_hex (replicate 20 (CHR 0xDD)) = replicate 40 (CHR ''d'')"
    "rawdata_to_hex (replicate 20 (CHR 0xBB)) = replicate 40 (CHR ''b'')"
    "rawdata_to_hex (replicate 20 (CHR 0xEE)) = replicate 40 (CHR ''e'')" by code_simp+
  then show "sha1_hex (fk_libs es b) ''F'' = demo_id (CHR ''f'')" "sha1_hex (fk_libs es b) ''D'' = demo_id (CHR ''d'')"
    "sha1_hex (fk_libs es b) ''N'' = demo_id (CHR ''b'')" "sha1_hex (fk_libs es b) ''x'' = demo_id (CHR ''e'')"
    by (simp_all add: sha1_hex_def fk_libs_def demo_id_def)
qed

lemma fk_id_ne [simp]: "take 40 (demo_id x) = demo_id x" "demo_id x = EMPTY_SHA1 \<longleftrightarrow> x = CHR ''0''"
  by (auto simp: demo_id_def EMPTY_SHA1_def replicate_eq_replicate)

lemma fk_read:
  "seaf_obj_store_read_obj (fk_libs es b) (gs_fs (fk_gc es b)) fk_id (demo_id (CHR ''f'')) = Some ''F''"
  "seaf_obj_store_read_obj (fk_libs es b) (gs_fs (fk_gc es b)) fk_id (demo_id (CHR ''d'')) = Some ''D''"
  "seaf_obj_store_read_obj (fk_libs es b) (gs_fs (fk_gc es b)) fk_id (demo_id (CHR ''c'')) = None"
  "seaf_obj_store_read_obj (fk_libs es b) (gs_fs (fk_gc es b)) fk_id (demo_id (CHR ''b'')) = None"
  by (simp_all add: obj_store_defs fk_gc_def)

lemma fk_zip [simp]: "lib_decompress (fk_libs es b) = Some" "lib_compress (fk_libs es b) = Some"
  "lib_json_dumps (fk_libs es b) j = ''N''"
  by (simp_all add: fk_libs_def demo_clibs_def demo_libs_def)

lemma fk_stored:
  "stored_ok (fk_gc es b) fk_demo_repo (demo_id (CHR ''f''))" "stored_ok (fk_gc es b) fk_demo_repo (demo_id (CHR ''d''))"
  "\<not> stored_ok (fk_gc es b) fk_demo_repo (demo_id (CHR ''c''))"
  by (simp_all add: stored_ok_def fk_read verify_fs_object_json_def fk_hash)

definition fk_ents_ok :: "dirent list \<Rightarrow> bool" where
  "fk_ents_ok es \<longleftrightarrow> set es \<subseteq> {fk_file_ent, fk_dir_ent, fk_file_ent\<lparr>d_name := ''g''\<rparr>}"

lemma fk_load:
  assumes "fk_ents_ok es" "b \<in> {CHR ''a'', CHR ''e''}"
  shows "seaf_dir_from_data (fk_libs es b) i ''F'' True = Some ((fk_dir es)\<lparr>dir_id := take 40 i\<rparr>)"
    and "seaf_dir_from_data (fk_libs es b) i ''N'' True = Some ((fk_dir fk_new_ents)\<lparr>dir_id := take 40 i\<rparr>)"
    and "seafile_from_data (fk_libs es b) i ''D'' True = Some ((fk_file b)\<lparr>file_id := take 40 i\<rparr>)"
proof -
  have e: "dirent_json_ok 1 fk_file_ent" "dirent_json_ok 1 fk_dir_ent" "dirent_json_ok 1 (fk_file_ent\<lparr>d_name := n\<rparr>)"
    "list_all (dirent_json_ok 1) fk_new_ents" for n
    by (simp_all add: dirent_json_ok_def fk_file_ent_def fk_dir_ent_def fk_new_ents_def demo_dirent_def)
  have ok: "seafdir_json_ok (fk_dir es)" "seafdir_json_ok (fk_dir fk_new_ents)" "seafile_json_ok (fk_file b)"
    using assms e by (auto simp: seafdir_json_ok_def fk_dir_def seafile_json_ok_def fk_file_def fk_ents_ok_def list_all_iff)
  have load: "load_json (fk_libs es b) ''F'' = Some (json_sort_keys (seaf_dir_to_json (fk_dir es)))"
    "load_json (fk_libs es b) ''N'' = Some (json_sort_keys (seaf_dir_to_json (fk_dir fk_new_ents)))"
    "load_json (fk_libs es b) ''D'' = Some (json_sort_keys (seafile_to_json (fk_file b)))"
    by (simp_all add: load_json_def) (simp_all add: fk_libs_def)
  show "seaf_dir_from_data (fk_libs es b) i ''F'' True = Some ((fk_dir es)\<lparr>dir_id := take 40 i\<rparr>)"
    "seaf_dir_from_data (fk_libs es b) i ''N'' True = Some ((fk_dir fk_new_ents)\<lparr>dir_id := take 40 i\<rparr>)"
    "seafile_from_data (fk_libs es b) i ''D'' True = Some ((fk_file b)\<lparr>file_id := take 40 i\<rparr>)"
    using seaf_dir_json_roundtrip [OF ok(1), of i] seaf_dir_json_roundtrip [OF ok(2), of i] seafile_json_roundtrip [OF ok(3), of i]
    by (simp_all add: seaf_dir_from_data_def seafile_from_data_def seaf_dir_from_json_def seafile_from_json_def load fk_dir_def)
qed

lemma fk_get:
  assumes "fk_ents_ok es" "b \<in> {CHR ''a'', CHR ''e''}"
  shows "get_dir (gc_fs (fk_gc es b) fk_demo_repo) (demo_id (CHR ''f'')) = Some ((fk_dir es)\<lparr>dir_id := demo_id (CHR ''f'')\<rparr>)"
    and "get_file (gc_fs (fk_gc es b) fk_demo_repo) (demo_id (CHR ''d'')) = Some ((fk_file b)\<lparr>file_id := demo_id (CHR ''d'')\<rparr>)"
  using fk_load [OF assms]
  by (simp_all add: gc_fs_def seaf_fs_manager_get_seafdir_def seaf_fs_manager_get_seafile_def fk_read)

lemma fk_check:
  "b \<in> set ''abcdef'' \<Longrightarrow> block_check (fk_gc es b) fk_id (demo_id b) = Some (b = CHR ''e'')"
  by (auto simp: block_check_def verify_block_closed fk_gc_def demo_blocks_def fk_hash get_block_path_def)

lemma fk_block:
  "seaf_block_manager_verify_block (fk_libs es (CHR ''a'')) (gs_blocks (fk_gc es (CHR ''a''))) fk_id (demo_id (CHR ''a'')) = Some False"
  using fk_check [of "CHR ''a''" es] by (simp add: block_check_def)

lemma fk_modes [simp]:
  "S_ISREG (d_mode fk_file_ent)" "\<not> S_ISDIR (d_mode fk_file_ent)" "S_ISDIR (d_mode fk_dir_ent)" "\<not> S_ISREG (d_mode fk_dir_ent)"
  "d_id fk_file_ent = demo_id (CHR ''d'')" "d_id fk_dir_ent = demo_id (CHR ''c'')"
  by (simp_all add: fk_file_ent_def fk_dir_ent_def demo_dirent_def S_ISREG_def S_ISDIR_def S_IFMT_def S_IFREG_def S_IFDIR_def)

definition fk_data :: "bool \<Rightarrow> fsck_data" where
  "fk_data repair = \<lparr>fk_repair = repair, fk_repo = fk_demo_repo, fk_existing = {}, fk_files = [], fk_folders = [], fk_saved = []\<rparr>"

lemma fk_data_simps [simp]:
  "fk_repair (fk_data r) = r" "fk_repo (fk_data r) = fk_demo_repo" "fk_existing (fk_data r) = {}" "fk_saved (fk_data r) = []"
  by (simp_all add: fk_data_def)

theorem fsck_keeps_second_damaged_file_witness:
  "\<exists>S' d'. fsck_entries (\<lambda>_ _ _ _. None) ''/'' [fk_file_ent, fk_file_ent\<lparr>d_name := ''g''\<rparr>] [] DirNull False (fk_gc [] (CHR ''a''))
       (fk_data True) = Some (Inr (True, [empty_file S' fk_file_ent, fk_file_ent\<lparr>d_name := ''g''\<rparr>]), S', d') \<and>
     \<not> seaf_block_manager_block_exists (gs_libs S') (gs_blocks S') fk_id (demo_id (CHR ''a''))"
  using fsck_keeps_second_damaged_file [of "fk_data True" fk_file_ent "fk_file_ent\<lparr>d_name := ''g''\<rparr>" "fk_gc [] (CHR ''a'')"
      "(fk_file (CHR ''a''))\<lparr>file_id := demo_id (CHR ''d'')\<rparr>" "demo_id (CHR ''a'')"] fk_block fk_get(2) fk_stored(2)
  by (simp add: fk_ents_ok_def fk_file_def)

text \<open>The check of the damaged library.\<close>

abbreviation fk_damaged :: gc_session where
  "fk_damaged \<equiv> fk_gc [fk_file_ent, fk_dir_ent] (CHR ''a'')"

lemma fk_new_dir:
  "seaf_dir_new (fk_libs es b) None fk_new_ents 1
     = \<lparr>dir_version = 1, dir_id = demo_id (CHR ''b''), entries = fk_new_ents, ondisk = Some ''N''\<rparr>"
  by (simp add: seaf_dir_new_def fk_new_ents_def seaf_dir_to_data_def fk_hash Let_def)

definition fk_after :: "bool \<Rightarrow> gc_session" where
  "fk_after repair = (if repair then without_block fk_damaged fk_id (demo_id (CHR ''a'')) else fk_damaged)"

lemma fk_after_simps [simp]:
  "gs_libs (fk_after r) = gs_libs fk_damaged" "gs_fs (fk_after r) = gs_fs fk_damaged" "gs_now (fk_after r) = 11"
  by (simp_all add: fk_after_def) (simp add: without_block_def)

lemma fk_entries_run:
  "\<exists>d. fsck_entries walk ''/'' [fk_file_ent, fk_dir_ent] [] DirNull False fk_damaged (fk_data repair)
     = Some (Inr (True, fk_new_ents), fk_after repair, d) \<and> fk_repo d = fk_demo_repo \<and> fk_repair d = repair \<and> fk_saved d = []"
proof -
  have exists: "seaf_block_manager_block_exists (fk_libs es b) (gs_blocks (fk_gc es b)) fk_id (demo_id b)"
    if "b \<in> set ''abcdef''" for es b
    using that by (auto simp: seaf_block_manager_block_exists_def block_backend_fs_block_exists_def fk_gc_def get_block_path_def)
  have "fsck_file fk_file_ent fk_damaged (fk_data repair)
      = Some (Some (hd fk_new_ents, True), fk_after repair, (fk_data repair)\<lparr>fk_existing := {demo_id (CHR ''a'')}\<rparr>)"
    using verify_seafobj_closed [of fk_demo_repo fk_damaged] fk_stored(2) fk_get(2) fk_block exists [of "CHR ''a''"]
    by (simp add: fsck_file_def fsck_check_blocks_def fk_ents_ok_def fk_file_def Let_def empty_file_def fk_new_ents_def
        fk_after_def without_block_def)
  moreover have "\<not> stored_ok (fk_after repair) fk_demo_repo (demo_id (CHR ''c''))"
    "seaf_obj_store_read_obj (gs_libs fk_damaged) (gs_fs fk_damaged) fk_id (demo_id (CHR ''c'')) = None"
    using fk_read(3) by (simp_all add: stored_ok_def)
  ultimately show ?thesis
    using verify_seafobj_closed [of fk_demo_repo "fk_after repair"] by (simp add: Let_def fk_new_ents_def)
qed

lemma fk_run:
  "\<exists>S' d'. fsck_check_dir_recursive 1 (demo_id (CHR ''f'')) ''/'' fk_damaged (fk_data repair)
     = Some (DirOk (demo_id (CHR ''b'')), S', d') \<and>
     fk_saved d' = (if repair then [seaf_dir_new (gs_libs fk_damaged) None fk_new_ents 1] else [])"
proof -
  obtain d where e: "fsck_entries (fsck_check_dir_recursive 0) ''/'' [fk_file_ent, fk_dir_ent] [] DirNull False fk_damaged
      (fk_data repair) = Some (Inr (True, fk_new_ents), fk_after repair, d)"
    "fk_repo d = fk_demo_repo" "fk_repair d = repair" "fk_saved d = []" using fk_entries_run by blast
  have "fst (seaf_dir_save (gs_libs fk_damaged) (gs_fs fk_damaged) fk_id
      (seaf_dir_new (gs_libs fk_damaged) None fk_new_ents 1)) = 0"
    by (simp add: fk_new_dir seaf_dir_save_def obj_store_defs) (simp add: fk_gc_def)
  then obtain st where "seaf_dir_save (gs_libs fk_damaged) (gs_fs fk_damaged) fk_id
      (seaf_dir_new (gs_libs fk_damaged) None fk_new_ents 1) = (0, st)" by (metis prod.collapse)
  then show ?thesis
    using e fk_get(1) [of "[fk_file_ent, fk_dir_ent]" "CHR ''a''"]
    by (simp add: fk_ents_ok_def fk_dir_def fsck_finish_dir_def Let_def fk_new_dir del: fsck_entries.simps)
qed

lemma fk_saved_ok: "saved_ok fk_damaged fk_demo_repo {seaf_dir_new (gs_libs fk_damaged) None fk_new_ents 1}"
  using fk_load(2) [of "[fk_file_ent, fk_dir_ent]" "CHR ''a''"]
  by (simp add: saved_ok_def dir_loads_def fk_new_dir fk_read verify_fs_object_json_def fk_hash fk_ents_ok_def fk_dir_def)


definition fk_session :: "gc_session \<Rightarrow> fsck_session" where
  "fk_session S = \<lparr>fx_gc = S, fx_tokens = \<lparr>td_tokens = [], td_peers = [], td_fails = (\<lambda>_. False)\<rparr>, fx_commit_ids = (\<lambda>_ _. [])\<rparr>"

lemma fk_commit: "get_commit (gc_commits (fk_gc es b) fk_id) (demo_id (CHR ''a'')) = Some demo_a"
proof -
  have ok: "commit_ok (fk_libs es b) demo_a"
    using demo_commits_ok(1) by (simp add: commit_ok_def)
  have "seaf_obj_store_read_obj (fk_libs es b) demo_cstore fk_id (demo_id (CHR ''a'')) = Some ''a''"
    using demo_read [of "CHR ''a''"] by (simp add: obj_store_defs fk_id_def split: if_splits)
  moreover have "lib_json_loadb (fk_libs es b) ''a'' = Some (commit_to_json_object demo_searpc demo_a)"
    by (simp add: fk_libs_def)
  ultimately show ?thesis
    using commit_json_back [OF demo_searpc_ok ok]
    by (simp add: fk_gc_def gc_commits_def seaf_commit_manager_get_commit_def load_commit_def parse_commit_json_def)
qed

lemma fk_get_repo: "gc_get_repo (fk_gc es b) fk_id = Some fk_demo_repo"
proof -
  have "seaf_branch_manager_get_branch (gs_branches (fk_gc es b)) fk_id ''master''
      = Some (seaf_branch_new ''master'' fk_id (demo_id (CHR ''a'')))"
    by (simp add: seaf_branch_manager_get_branch_def real_get_branch_def fk_gc_def) (simp add: demo_id_def)
  moreover have "repo_exists_in_db (fk_gc es b) fk_id" "gc_get_virtual_repo_info (fk_gc es b) fk_id = None" "length fk_id = 36"
    by (simp_all add: repo_exists_in_db_def gc_get_virtual_repo_info_def fk_gc_def fk_id_def)
  moreover have "demo_a = demo_commit (CHR ''a'') None None 5" by (simp add: demo_a_def)
  ultimately show ?thesis
    using fk_commit [of es b]
    by (simp add: gc_get_repo_def gc_load_repo_def load_repo_commit_def gc_repo_new_def set_head_common_def
        fk_demo_repo_def gc_repo_from_commit_def Let_def demo_commit_def)
qed

theorem fsck_healthy_unchanged_witness:
  "repair_repo 1 (fk_session (fk_gc [fk_file_ent] (CHR ''e''))) fk_id True = Some (fk_session (fk_gc [fk_file_ent] (CHR ''e'')))"
proof -
  let ?S = "fk_gc [fk_file_ent] (CHR ''e'')"
  have "root_id demo_a = demo_id (CHR ''f'')" by (simp add: demo_a_def demo_commit_def)
  moreover have "healthy_file ?S fk_demo_repo {} (demo_id (CHR ''d''))"
    using fk_get(2) [of "[fk_file_ent]" "CHR ''e''"] fk_check [of "CHR ''e''" "[fk_file_ent]"] fk_stored(2)
    by (simp add: healthy_file_def fk_ents_ok_def fk_file_def)
  then have "healthy_dir 1 ?S fk_demo_repo {} (demo_id (CHR ''f''))"
    using fk_get(1) [of "[fk_file_ent]" "CHR ''e''"] fk_stored(1) by (simp add: fk_ents_ok_def fk_dir_def healthy_entry_def)
  ultimately show ?thesis
    using fsck_healthy_unchanged [of "fk_session ?S" fk_id fk_demo_repo _ demo_a 1 True] fk_get_repo fk_commit
    by (simp add: fk_session_def)
qed

theorem fsck_dry_run_witness:
  "seaf_fsck 1 [fk_id] False (fk_session fk_damaged) = Some (0, fk_session fk_damaged)"
proof -
  have root: "root_id demo_a = demo_id (CHR ''f'')" by (simp add: demo_a_def demo_commit_def)
  have "fsck_verify_seafobj fk_damaged fk_id 1 (demo_id (CHR ''f'')) VERIFY_DIR False = (True, False, fk_damaged)"
    using verify_seafobj_closed [of fk_demo_repo fk_damaged] fk_stored(1) by simp
  moreover have "gc_repo_exists fk_damaged fk_id"
    by (simp add: gc_repo_exists_def repo_exists_in_db_def fk_gc_def)
  ultimately have "\<exists>X. seaf_fsck 1 [fk_id] False (fk_session fk_damaged) = Some (0, X)"
    using fk_run [of False] fk_get_repo fk_commit root
    by (auto simp: seaf_fsck_def repair_repo_def check_and_recover_repo_def Let_def fk_session_def fk_data_def)
  then show ?thesis using fsck_dry_run by blast
qed

end
