(* ===== verification/FsckExport.thy ===== *)
theory FsckExport
  imports Fsck
begin

text \<open>
  Exporting the files of libraries into directories of the host (the second half of \<open>server/gc/fsck.c\<close>):
  the newest commit whose root is valid is taken, and the tree below it is written out, file by file.
  Encrypted libraries are listed and not exported.  A library's files come out with their contents.
\<close>

section \<open>The host\<close>

text \<open>
  Files and directories by path; opening, writing and \<open>mkdir\<close> may fail.  \<open>hs_stat\<close> is the error of
  \<open>stat\<close> other than that nothing is there.
\<close>

record host =
  hs_files :: "string \<Rightarrow> bytes option"
  hs_dirs :: "string set"
  hs_open_ok :: "string \<Rightarrow> bool"
  hs_write_ok :: "string \<Rightarrow> bool"
  hs_mkdir_ok :: "string \<Rightarrow> bool"
  hs_stat_fails :: "string \<Rightarrow> bool"

definition g_mkdir :: "host \<Rightarrow> string \<Rightarrow> bool \<times> host" where
  "g_mkdir H path =
     (if hs_mkdir_ok H path \<and> hs_files H path = None \<and> path \<notin> hs_dirs H
      then (True, H\<lparr>hs_dirs := insert path (hs_dirs H)\<rparr>) else (False, H))"

section \<open>Files\<close>

text \<open>The loop that copies a block, with what was written to the file before.\<close>

function copy_block :: "block_store \<Rightarrow> block_handle \<Rightarrow> bool \<Rightarrow> bytes \<Rightarrow> bool \<times> bytes" where
  "copy_block bs handle write_ok out =
     (case seaf_block_manager_read_block bs handle (64 * 1024) of
        (None, _) \<Rightarrow> (False, out)
      | (Some buf, handle') \<Rightarrow>
          if buf = [] then (True, out)
          else if \<not> write_ok then (False, out)
          else copy_block bs handle' write_ok (out @ buf))"
  by auto
termination
  by (relation "measure (\<lambda>(bs, h, w, out). length (bh_data h) - bh_pos h)")
    (auto simp: seaf_block_manager_read_block_def block_backend_fs_read_block_def Let_def split: if_splits)

declare copy_block.simps [simp del]

definition write_nonenc_block_to_file ::
    "gc_session \<Rightarrow> string \<Rightarrow> string \<Rightarrow> bool \<Rightarrow> bytes \<Rightarrow> bool \<times> bytes" where
  "write_nonenc_block_to_file S repo block_id write_ok out =
     (case seaf_block_manager_open_block (gs_libs S) (gs_blocks S) repo block_id BLOCK_READ of
        None \<Rightarrow> (False, out)
      | Some handle \<Rightarrow> copy_block (gs_blocks S) handle write_ok out)"

fun write_blocks :: "gc_session \<Rightarrow> string \<Rightarrow> string list \<Rightarrow> bool \<Rightarrow> bytes \<Rightarrow> bool \<times> bytes" where
  "write_blocks S repo [] write_ok out = (True, out)"
| "write_blocks S repo (b # bs) write_ok out =
     (case write_nonenc_block_to_file S repo b write_ok out of
        (False, out) \<Rightarrow> (False, out)
      | (True, out) \<Rightarrow> write_blocks S repo bs write_ok out)"

text \<open>
  The file is opened without truncating it, so what an older file has beyond the new contents stays.  A
  file that could not be written in full is removed.
\<close>

definition create_file :: "gc_session \<Rightarrow> host \<Rightarrow> string \<Rightarrow> string \<Rightarrow> string \<Rightarrow> host" where
  "create_file S H repo i path =
     (if \<not> hs_open_ok H path \<or> path \<in> hs_dirs H then H
      else
        (let old = (case hs_files H path of None \<Rightarrow> [] | Some x \<Rightarrow> x) in
         case (case seaf_fs_manager_get_seafile (gs_libs S) (gs_fs S) repo 1 i of
                 None \<Rightarrow> (False, [])
               | Some f \<Rightarrow> write_blocks S repo (blk_sha1s f) (hs_write_ok H path) []) of
           (True, out) \<Rightarrow> H\<lparr>hs_files := (hs_files H)(path \<mapsto> out @ drop (length out) old)\<rparr>
         | (False, _) \<Rightarrow> H\<lparr>hs_files := (hs_files H)(path := None)\<rparr>))"

section \<open>Trees\<close>

text \<open>\<open>build\<close> is \<open>g_build_filename\<close> on two elements.\<close>

fun export_entries ::
    "(string \<Rightarrow> string \<Rightarrow> host \<Rightarrow> host option) \<Rightarrow> gc_session \<Rightarrow> (string \<Rightarrow> string \<Rightarrow> string) \<Rightarrow> string \<Rightarrow> string
     \<Rightarrow> dirent list \<Rightarrow> host \<Rightarrow> host option" where
  "export_entries walk S build repo parent_dir [] H = Some H"
| "export_entries walk S build repo parent_dir (e # es) H =
     (let path = build parent_dir (d_name e) in
      if S_ISREG (d_mode e) then export_entries walk S build repo parent_dir es (create_file S H repo (d_id e) path)
      else if S_ISDIR (d_mode e) then
        (case g_mkdir H path of
           (False, H) \<Rightarrow> export_entries walk S build repo parent_dir es H
         | (True, H) \<Rightarrow>
             (case walk (d_id e) path H of
                None \<Rightarrow> None
              | Some H \<Rightarrow> export_entries walk S build repo parent_dir es H))
      else export_entries walk S build repo parent_dir es H)"

primrec export_repo_files_recursive ::
    "nat \<Rightarrow> gc_session \<Rightarrow> (string \<Rightarrow> string \<Rightarrow> string) \<Rightarrow> string \<Rightarrow> string \<Rightarrow> string \<Rightarrow> host \<Rightarrow> host option" where
  "export_repo_files_recursive 0 S build repo i parent_dir H = None"
| "export_repo_files_recursive (Suc n) S build repo i parent_dir H =
     (case seaf_fs_manager_get_seafdir (gs_libs S) (gs_fs S) repo 1 i of
        None \<Rightarrow> Some H
      | Some dir \<Rightarrow>
          export_entries (export_repo_files_recursive n S build repo) S build repo parent_dir (entries dir) H)"

section \<open>Libraries\<close>

text \<open>The newest commit with a root that is valid and not empty; an I/O error ends the search.\<close>

fun first_exportable :: "gc_session \<Rightarrow> string \<Rightarrow> commit list \<Rightarrow> commit option" where
  "first_exportable S repo [] = None"
| "first_exportable S repo (c # cs) =
     (if take 40 (root_id c) = EMPTY_SHA1 then first_exportable S repo cs
      else (case fsck_verify_seafobj S repo 1 (root_id c) VERIFY_DIR False of
              (False, io_error, _) \<Rightarrow> if io_error then None else first_exportable S repo cs
            | (True, _, _) \<Rightarrow> Some c))"

definition get_available_commit :: "gc_session \<Rightarrow> string list \<Rightarrow> string \<Rightarrow> commit option" where
  "get_available_commit S ids repo =
     (case snd (obj_backend_fs_foreach_obj ids (fsck_get_repo_commit S repo) []) of
        [] \<Rightarrow> None
      | commit_list \<Rightarrow> first_exportable S repo (g_list_sort compare_commit_by_ctime commit_list))"

definition opt_text :: "string option \<Rightarrow> string" where
  "opt_text s = (case s of None \<Rightarrow> ''(null)'' | Some x \<Rightarrow> x)"

definition export_repo_files ::
    "nat \<Rightarrow> fsck_session \<Rightarrow> (string \<Rightarrow> string \<Rightarrow> string) \<Rightarrow> string \<Rightarrow> string \<Rightarrow> (string \<times> string option) list \<times> host
     \<Rightarrow> ((string \<times> string option) list \<times> host) option" where
  "export_repo_files n X build repo init_path st =
     (case st of (enc_repos, H) \<Rightarrow>
        (let S = fx_gc X in
         case get_available_commit S (fx_commit_ids X (gs_commits S) repo) repo of
           None \<Rightarrow> Some (enc_repos, H)
         | Some c \<Rightarrow>
             if encrypted c then Some ((repo, repo_name c) # enc_repos, H)
             else
               (let export_path = build init_path
                      (take 8 repo @ ''_'' @ opt_text (repo_name c) @ ''_'' @ opt_text (creator_name c)) in
                case g_mkdir H export_path of
                  (False, H) \<Rightarrow> Some (enc_repos, H)
                | (True, H) \<Rightarrow>
                    (case export_repo_files_recursive n S build repo (root_id c) export_path H of
                       None \<Rightarrow> None
                     | Some H \<Rightarrow> Some (enc_repos, H)))))"

fun export_repos ::
    "nat \<Rightarrow> fsck_session \<Rightarrow> (string \<Rightarrow> string \<Rightarrow> string) \<Rightarrow> string \<Rightarrow> string list \<Rightarrow> (string \<times> string option) list \<times> host
     \<Rightarrow> ((string \<times> string option) list \<times> host) option" where
  "export_repos n X build export_path [] st = Some st"
| "export_repos n X build export_path (repo # ids) st =
     (if \<not> is_uuid_valid (gs_libs (fx_gc X)) repo then export_repos n X build export_path ids st
      else (case export_repo_files n X build repo export_path st of
              None \<Rightarrow> None
            | Some st \<Rightarrow> export_repos n X build export_path ids st))"

text \<open>\<open>repo_ids\<close> is the listing of the directory of commits, None when it cannot be read (\<open>get_repo_ids\<close>).\<close>

definition export_file ::
    "nat \<Rightarrow> fsck_session \<Rightarrow> (string \<Rightarrow> string \<Rightarrow> string) \<Rightarrow> string list option \<Rightarrow> string list \<Rightarrow> string \<Rightarrow> host
     \<Rightarrow> ((string \<times> string option) list \<times> host) option" where
  "export_file n X build repo_ids repo_id_list export_path H =
     (let ready = (if hs_stat_fails H export_path then (False, H)
                   else if export_path \<in> hs_dirs H then (True, H)
                   else if hs_files H export_path \<noteq> None then (False, H)
                   else g_mkdir H export_path);
          ids = (if repo_id_list = [] then (case repo_ids of None \<Rightarrow> [] | Some l \<Rightarrow> rev l) else repo_id_list)
      in case ready of
           (False, H) \<Rightarrow> Some ([], H)
         | (True, H) \<Rightarrow> export_repos n X build export_path ids ([], H))"

end
