(* ===== verification/SizeSched.thy ===== *)
theory SizeSched
  imports RepoCommit
begin

text \<open>
  The sizes of the libraries (\<open>server/size-sched.c\<close>): the job that brings RepoSize and RepoFileCount up to date
  with the head commit, from the differences to the commit they were computed for, or from the whole tree.
  The two ways give the same numbers.
\<close>

section \<open>The tables\<close>

text \<open>
  One transaction: the row of RepoSize is inserted or updated, then that of RepoFileCount.  A failure rolls all
  of it back.  The head that the first query reads is not used.
\<close>

definition set_repo_size_and_file_count :: "session \<Rightarrow> string \<Rightarrow> string \<Rightarrow> u64 \<Rightarrow> u64 \<Rightarrow> int \<times> session" where
  "set_repo_size_and_file_count S repo new_head_id sz cnt =
     (if ss_fails S Q_BEGIN then (-1, S)
      else if ss_fails S Q_SIZE_SELECT then (-1, S)
      else if ss_fails S Q_SIZE_SET then (-1, S)
      else if ss_fails S Q_COUNT_SELECT then (-1, S)
      else if ss_fails S Q_COUNT_SET then (-1, S)
      else if ss_fails S Q_COMMIT then (-1, S)
      else (0, S\<lparr>ss_sizes := (ss_sizes S)(repo \<mapsto> (sz, new_head_id)), ss_counts := (ss_counts S)(repo \<mapsto> cnt)\<rparr>))"

record repo_info =
  inf_head_id :: string
  inf_size :: u64
  inf_file_count :: u64

text \<open>Inl for a failed query.  A library without a row of RepoFileCount has a count of 0 here.\<close>

definition get_old_repo_info_from_db :: "session \<Rightarrow> string \<Rightarrow> unit + repo_info option" where
  "get_old_repo_info_from_db S repo =
     (if ss_fails S Q_SIZE_SELECT then Inl ()
      else Inr (map_option (\<lambda>(sz, head). \<lparr>inf_head_id = head, inf_size = sz,
                  inf_file_count = (case ss_counts S repo of None \<Rightarrow> 0 | Some c \<Rightarrow> c)\<rparr>) (ss_sizes S repo)))"

section \<open>The job\<close>

definition add_change :: "u64 \<times> u64 \<Rightarrow> diff_entry \<Rightarrow> u64 \<times> u64" where
  "add_change c de =
     (case c of
        (change_size, change_file_count) \<Rightarrow>
          if de_status de = DIFF_STATUS_DELETED then (change_size - de_size de, change_file_count - 1)
          else if de_status de = DIFF_STATUS_ADDED then (change_size + de_size de, change_file_count + 1)
          else if de_status de = DIFF_STATUS_MODIFIED then (change_size + de_size de - de_origin_size de, change_file_count)
          else (change_size, change_file_count))"

text \<open>None when the fuel \<open>n\<close> is too small for a tree.\<close>

definition compute_repo_size :: "nat \<Rightarrow> session \<Rightarrow> string \<Rightarrow> session option" where
  "compute_repo_size n S repo =
     (case seaf_repo_manager_get_repo S repo of
        None \<Rightarrow> Some S
      | Some r \<Rightarrow>
          (let head_id = br_commit_id (rp_head r);
               V = commits_of S (rp_id r);
               set = (\<lambda>sz cnt. Some (snd (set_repo_size_and_file_count S repo head_id sz cnt)))
           in case get_old_repo_info_from_db S repo of
                Inl _ \<Rightarrow> Some S
              | Inr info \<Rightarrow>
                  if (case info of None \<Rightarrow> False | Some i \<Rightarrow> strcmp (inf_head_id i) head_id = 0) then Some S
                  else (case seaf_commit_manager_get_commit V head_id of
                          None \<Rightarrow> Some S
                        | Some head \<Rightarrow>
                            (case (case info of
                                     None \<Rightarrow> None
                                   | Some i \<Rightarrow> map_option (Pair i) (seaf_commit_manager_get_commit V (inf_head_id i))) of
                               Some (i, old_head) \<Rightarrow>
                                 (case diff_commits n S old_head head [] False of
                                    None \<Rightarrow> None
                                  | Some (ret, diff_entries) \<Rightarrow>
                                      if ret < 0 then Some S
                                      else (case foldl add_change (0, 0) diff_entries of
                                              (change_size, change_file_count) \<Rightarrow>
                                                set (inf_size i + change_size) (inf_file_count i + change_file_count)))
                             | None \<Rightarrow>
                                 (case seaf_fs_manager_get_file_count_info_by_path n (fs_of S r) (rp_root_id r) ''/'' of
                                    None \<Rightarrow> None
                                  | Some (Inl _) \<Rightarrow> Some S
                                  | Some (Inr c) \<Rightarrow> set (ci_size c) (ci_files c))))))"

section \<open>What the walks add up\<close>

lemma add_change_total:
  "foldl add_change (a, b) des = (a + changes_total (\<lambda>s. s) des, b + changes_total (\<lambda>_. 1) des)"
  by (induction des arbitrary: a b) (auto simp: add_change_def change_weight_def diff_status)

lemma count_info_total:
  assumes "dir_wf n F d" "get_dir F i = Some d" "fv_version F > 0"
  shows "\<exists>c'. get_file_count_info n F i c = Some (0, c') \<and>
    ci_size c' = ci_size c + tree_total (\<lambda>s. s) n F (Some d) \<and>
    ci_files c' = ci_files c + tree_total (\<lambda>_. 1) n F (Some d)"
  using assms(1,2)
proof (induction n arbitrary: d i c)
  case (Suc n)
  have "\<exists>c'. count_info_entries (get_file_count_info n F) (fv_version F) es 0 c = Some (0, c') \<and>
      ci_size c' = ci_size c + (\<Sum>e\<leftarrow>es. if S_ISREG (d_mode e) then d_size e
        else if S_ISDIR (d_mode e) then tree_total (\<lambda>s. s) n F (get_dir F (d_id e)) else 0) \<and>
      ci_files c' = ci_files c + (\<Sum>e\<leftarrow>es. if S_ISREG (d_mode e) then 1
        else if S_ISDIR (d_mode e) then tree_total (\<lambda>_. 1) n F (get_dir F (d_id e)) else 0)"
    if "set es \<subseteq> set (entries d)" for es c
    using that
  proof (induction es arbitrary: c)
    case (Cons e es)
    have sub: "\<exists>d'. get_dir F (d_id e) = Some d' \<and> dir_wf n F d'" if "S_ISDIR (d_mode e)"
      using Suc.prems(1) Cons.prems that by (fastforce split: option.splits)
    show ?case
    proof (cases "S_ISDIR (d_mode e)")
      case True
      then obtain d' where d': "get_dir F (d_id e) = Some d'" "dir_wf n F d'" using sub by blast
      obtain c1 where c1: "get_file_count_info n F (d_id e) (c\<lparr>ci_dirs := ci_dirs c + 1\<rparr>) = Some (0, c1)"
        "ci_size c1 = ci_size c + tree_total (\<lambda>s. s) n F (Some d')"
        "ci_files c1 = ci_files c + tree_total (\<lambda>_. 1) n F (Some d')"
        using Suc.IH [OF d'(2,1), of "c\<lparr>ci_dirs := ci_dirs c + 1\<rparr>"] by auto
      from True have "\<not> S_ISREG (d_mode e)" using not_reg_and_dir by blast
      with True c1 d'(1) Cons.IH [of c1] Cons.prems show ?thesis by auto
    next
      case False
      with assms(3) Cons.prems Cons.IH [of c]
        Cons.IH [of "c\<lparr>ci_files := ci_files c + 1, ci_size := ci_size c + d_size e\<rparr>"]
      show ?thesis by auto
    qed
  qed simp
  from this [of "entries d" c] Suc.prems(2) show ?case by simp
qed simp

section \<open>The two ways agree\<close>

lemma path_root [simp]: "seaf_fs_manager_get_seafdir_id_by_path F root ''/'' = Some root"
  by (simp add: seaf_fs_manager_get_seafdir_id_by_path_def seaf_fs_manager_path_to_obj_id_def strip_slashes_def
      S_ISDIR_def S_IFMT_def S_IFDIR_def)

text \<open>The session after the sizes of a tree were stored for a head.\<close>

definition with_sizes :: "session \<Rightarrow> nat \<Rightarrow> repo \<Rightarrow> string \<Rightarrow> seafdir \<Rightarrow> session" where
  "with_sizes S n r repo d =
     S\<lparr>ss_sizes := (ss_sizes S)(repo \<mapsto> (tree_total (\<lambda>s. s) n (fs_of S r) (Some d), br_commit_id (rp_head r))),
       ss_counts := (ss_counts S)(repo \<mapsto> tree_total (\<lambda>_. 1) n (fs_of S r) (Some d))\<rparr>"

lemma recount_ok:
  assumes "\<forall>q. \<not> ss_fails S q" "seaf_repo_manager_get_repo S repo = Some r" "rp_version r > 0"
    and "seaf_commit_manager_get_commit (commits_of S (rp_id r)) (br_commit_id (rp_head r)) = Some c"
    and "get_dir (fs_of S r) (rp_root_id r) = Some d" "dir_wf n (fs_of S r) d"
    and "ss_sizes S repo = None"
  shows "compute_repo_size n S repo = Some (with_sizes S n r repo d)"
proof -
  have "fv_version (fs_of S r) > 0" using assms(3) by (simp add: fs_of_def)
  with count_info_total [OF assms(6,5)] obtain c' where
    "get_file_count_info n (fs_of S r) (rp_root_id r) \<lparr>ci_dirs = 0, ci_files = 0, ci_size = 0\<rparr> = Some (0, c')"
    "ci_size c' = tree_total (\<lambda>s. s) n (fs_of S r) (Some d)" "ci_files c' = tree_total (\<lambda>_. 1) n (fs_of S r) (Some d)"
    by (metis add_0 count_info.select_convs(2,3))
  then show ?thesis
    using assms(1,2,4,7)
    by (simp add: compute_repo_size_def get_old_repo_info_from_db_def Let_def with_sizes_def
        seaf_fs_manager_get_file_count_info_by_path_def set_repo_size_and_file_count_def)
qed

lemma load_repo_other_tables:
  "commits_of (S\<lparr>ss_sizes := x, ss_counts := y\<rparr>) = commits_of S"
  "fs_of (S\<lparr>ss_sizes := x, ss_counts := y\<rparr>) = fs_of S"
  "seaf_repo_manager_get_repo (S\<lparr>ss_sizes := x, ss_counts := y\<rparr>) = seaf_repo_manager_get_repo S"
proof -
  let ?T = "S\<lparr>ss_sizes := x, ss_counts := y\<rparr>"
  show c: "commits_of ?T = commits_of S" "fs_of ?T = fs_of S" by (simp_all add: fun_eq_iff commits_of_def fs_of_def)
  have l: "load_repo ?T = load_repo S" by (simp add: fun_eq_iff load_repo_def c)
  have g: "get_repo_from_db ?T = get_repo_from_db S" by (simp add: fun_eq_iff get_repo_from_db_def cong: option.case_cong)
  show "seaf_repo_manager_get_repo ?T = seaf_repo_manager_get_repo S"
    unfolding fun_eq_iff seaf_repo_manager_get_repo_def l g by simp
qed

lemma diff_commits_totals:
  assumes "seaf_repo_manager_get_repo S (repo_id c0) = Some r" "F = fs_of S r"
    and "get_dir F (root_id c0) = Some d0" "get_dir F (root_id c1) = Some d1" "dir_wf n F d0" "dir_wf n F d1"
    and "tree_sized sz n F (Some d0)" "tree_sized sz n F (Some d1)"
  shows "\<exists>des. diff_commits n S c0 c1 [] False = Some (0, des) \<and>
    (\<forall>g. changes_total g des = tree_total g n F (Some d1) - tree_total g n F (Some d0))"
proof -
  obtain new where new: "diff_trees n F [root_id c0, root_id c1] (twoway_options False) [] = Some (0, new)"
    "tree_diff_ok n F (Some d0) (Some d1) [] new"
    using twoway_diff_ok [OF assms(3,4), of n "[]"] assms(5,6) by (auto simp: tree_wf_def)
  then have "weighs sz new (\<lambda>g. tree_total g n F (Some d0)) (\<lambda>g. tree_total g n F (Some d1))"
    using assms(7,8) by (simp add: tree_diff_ok_def)
  then have "changes_total g (diff_resolve_renames new) = tree_total g n F (Some d1) - tree_total g n F (Some d0)" for g
    using resolve_renames_weight [of new sz g] by (auto simp: weighs_def)
  then show ?thesis
    using new(1) assms(1,2) by (simp add: diff_commits_def)
qed

text \<open>C38: when the sizes that are stored were right for the commit they were computed for, bringing them up to date
  from the differences ends in the same session as counting the whole tree of the head anew, which stores the
  sum of the sizes and the number of the files of the tree.\<close>

theorem size_update_equals_recount:
  assumes "\<forall>q. \<not> ss_fails S q"
    and "seaf_repo_manager_get_repo S repo = Some r" "rp_version r > 0"
    and "ss_sizes S repo = Some (tree_total (\<lambda>s. s) n (fs_of S r) (Some d0), old)"
    and "ss_counts S repo = Some (tree_total (\<lambda>_. 1) n (fs_of S r) (Some d0))"
    and "old \<noteq> br_commit_id (rp_head r)"
    and "seaf_commit_manager_get_commit (commits_of S (rp_id r)) old = Some c0" "repo_id c0 = repo"
    and "seaf_commit_manager_get_commit (commits_of S (rp_id r)) (br_commit_id (rp_head r)) = Some c1"
    and "root_id c1 = rp_root_id r"
    and "get_dir (fs_of S r) (root_id c0) = Some d0" "dir_wf n (fs_of S r) d0"
    and "get_dir (fs_of S r) (root_id c1) = Some d1" "dir_wf n (fs_of S r) d1"
    and "tree_sized sz n (fs_of S r) (Some d0)" "tree_sized sz n (fs_of S r) (Some d1)"
  shows "compute_repo_size n S repo = Some (with_sizes S n r repo d1) \<and>
    compute_repo_size n (S\<lparr>ss_sizes := (ss_sizes S)(repo := None), ss_counts := (ss_counts S)(repo := None)\<rparr>) repo
      = Some (with_sizes S n r repo d1)"
proof
  let ?F = "fs_of S r"
  obtain des where des: "diff_commits n S c0 c1 [] False = Some (0, des)"
    "\<And>g. changes_total g des = tree_total g n ?F (Some d1) - tree_total g n ?F (Some d0)"
    using diff_commits_totals [of S c0 r ?F d0 c1 d1 n sz] assms by auto
  show "compute_repo_size n S repo = Some (with_sizes S n r repo d1)"
    using assms(1,2,4-7,9)
    by (simp add: compute_repo_size_def get_old_repo_info_from_db_def Let_def with_sizes_def des add_change_total
        strcmp_eq_0 set_repo_size_and_file_count_def)
  let ?T = "S\<lparr>ss_sizes := (ss_sizes S)(repo := None), ss_counts := (ss_counts S)(repo := None)\<rparr>"
  have "compute_repo_size n ?T repo = Some (with_sizes ?T n r repo d1)"
    by (rule recount_ok) (use assms in \<open>simp_all add: load_repo_other_tables\<close>)
  then show "compute_repo_size n ?T repo = Some (with_sizes S n r repo d1)"
    by (simp add: with_sizes_def load_repo_other_tables)
qed

section \<open>A library with two commits\<close>

lemma commit_of_other_id:
  "commit_from_json_object L R now i' obj
     = map_option (\<lambda>c. c\<lparr>commit_id := take 40 i'\<rparr>) (commit_from_json_object L R now i obj)"
  by (simp add: commit_from_json_object_def Let_def seaf_commit_new_def if_distrib [of "map_option f" for f]
      split: option.split split del: if_split cong: if_cong)

text \<open>A library whose head was made on top of a commit with the same tree.\<close>

definition two_commits :: session where
  "two_commits = (demo_session [demo_f] [demo_g])\<lparr>
     ss_commits := demo_store\<lparr>files := [id_to_path ''d'' (demo_id (CHR ''a'')) demo_rid \<mapsto> ''c'',
       id_to_path ''d'' (demo_id (CHR ''b'')) demo_rid \<mapsto> ''c'']\<rparr>,
     ss_sizes := [demo_rid \<mapsto> (d_size demo_f, demo_id (CHR ''b''))], ss_counts := [demo_rid \<mapsto> 1]\<rparr>"

lemma two_commits_get:
  "seaf_commit_manager_get_commit (commits_of two_commits demo_rid) (demo_id (CHR ''a'')) = Some demo_head"
  "seaf_commit_manager_get_commit (commits_of two_commits demo_rid) (demo_id (CHR ''b''))
     = Some (demo_head\<lparr>commit_id := demo_id (CHR ''b'')\<rparr>)"
proof -
  let ?L = "pair_libs [demo_f] [demo_g]"
  have "seaf_obj_store_read_obj ?L (ss_commits two_commits) demo_rid (demo_id x) = Some ''c''" if "x \<in> {CHR ''a'', CHR ''b''}" for x
    using that by (auto simp: two_commits_def)
  moreover have "parse_commit_json ?L demo_searpc ''c'' = Some (commit_to_json_object demo_searpc demo_head)"
    by (simp add: parse_commit_json_def pair_libs_def)
  moreover have "commit_from_json_object ?L demo_searpc 9 (demo_id (CHR ''a'')) (commit_to_json_object demo_searpc demo_head)
      = Some demo_head"
    using commit_json_back [OF demo_searpc_ok demo_head_ok, of "[demo_f]" "[demo_g]" 9] by simp
  ultimately show
    "seaf_commit_manager_get_commit (commits_of two_commits demo_rid) (demo_id (CHR ''a'')) = Some demo_head"
    "seaf_commit_manager_get_commit (commits_of two_commits demo_rid) (demo_id (CHR ''b''))
       = Some (demo_head\<lparr>commit_id := demo_id (CHR ''b'')\<rparr>)"
    using commit_of_other_id [of ?L demo_searpc 9 "demo_id (CHR ''b'')" "commit_to_json_object demo_searpc demo_head" "demo_id (CHR ''a'')"]
    by (simp_all add: seaf_commit_manager_get_commit_def load_commit_def commits_of_def two_commits_def demo_session_def)
qed

lemma two_commits_repo: "seaf_repo_manager_get_repo two_commits demo_rid = Some demo_rp"
proof -
  have "get_repo_from_db two_commits demo_rid = Some ((seaf_repo_new demo_rid None None
     (seaf_branch_new ''master'' demo_rid (demo_id (CHR ''a''))))\<lparr>rp_store_id := demo_rid\<rparr>)"
    by (simp add: get_repo_from_db_def two_commits_def demo_session_def Let_def)
  then show ?thesis
    using two_commits_get(1)
    by (simp add: seaf_repo_manager_get_repo_def load_repo_def seaf_repo_new_def seaf_branch_new_def demo_rp_def)
qed

lemma two_commits_fs: "fs_of two_commits demo_rp = pair_view [demo_f] [demo_g] pair_one"
  by (simp add: fs_of_def two_commits_def demo_session_def pair_view_def)

theorem size_update_equals_recount_witness:
  "compute_repo_size 1 two_commits demo_rid = Some (with_sizes two_commits 1 demo_rp demo_rid
     \<lparr>dir_version = 1, dir_id = pair_id (CHR ''a''), entries = [demo_f], ondisk = None\<rparr>)"
proof -
  let ?d = "\<lparr>dir_version = 1, dir_id = pair_id (CHR ''a''), entries = [demo_f], ondisk = None\<rparr>"
  have d: "get_dir (fs_of two_commits demo_rp) (pair_id (CHR ''a'')) = Some ?d"
    using pair_get_dir [of "[demo_f]" "[demo_g]"] demo_pairs(3) by (simp add: two_commits_fs pair_ok_def)
  have tables: "\<forall>q. \<not> ss_fails two_commits q" "ss_sizes two_commits demo_rid = Some (d_size demo_f, demo_id (CHR ''b''))"
    "ss_counts two_commits demo_rid = Some 1"
    by (simp_all add: two_commits_def demo_session_def)
  have f: "S_ISREG (d_mode demo_f)" "\<not> S_ISDIR (d_mode demo_f)" "CHR ''/'' \<notin> set (d_name demo_f)"
    by (simp_all add: demo_f_def S_ISREG_def S_ISDIR_def S_IFMT_def S_IFREG_def S_IFDIR_def)
  have root: "rp_root_id demo_rp = pair_id (CHR ''a'')"
    by (simp add: demo_rp_def seaf_repo_from_commit_def Let_def)
  show ?thesis
    by (rule size_update_equals_recount [where old = "demo_id (CHR ''b'')" and ?d0.0 = ?d and
          ?c0.0 = "demo_head\<lparr>commit_id := demo_id (CHR ''b'')\<rparr>" and ?c1.0 = demo_head and sz = "\<lambda>_. d_size demo_f", THEN conjunct1])
      (use d f root two_commits_get two_commits_repo tables in \<open>simp_all add: demo_id_def\<close>)
qed

end
