(* ===== verification/Quota.thy ===== *)
theory Quota
  imports RepoMgr
begin

text \<open>
  Settings kept in the database (\<open>common/config-mgr.c\<close>) and quotas (\<open>server/quota-mgr.c\<close>): what an owner's
  libraries take, whether more fits, and what sharing adds.  A setting is read back as it was set, and a
  check that passes leaves the owner below the quota.
\<close>

section \<open>Numbers in texts\<close>

definition is_space :: "char \<Rightarrow> bool" where
  "is_space c \<longleftrightarrow> byte_val c = 32 \<or> (9 \<le> byte_val c \<and> byte_val c \<le> 13)"

definition g_strstrip :: "string \<Rightarrow> string" where
  "g_strstrip s = rev (dropWhile is_space (rev (dropWhile is_space s)))"

definition is_digit :: "char \<Rightarrow> bool" where
  "is_digit c \<longleftrightarrow> 48 \<le> byte_val c \<and> byte_val c \<le> 57"

definition digits_val :: "string \<Rightarrow> nat" where
  "digits_val ds = foldl (\<lambda>a c. a * 10 + (byte_val c - 48)) 0 ds"

definition LLONG_MAX :: int where "LLONG_MAX = 2 ^ 63 - 1"
definition LLONG_MIN :: int where "LLONG_MIN = - (2 ^ 63)"

text \<open>The value, which stops at the ends of the range, and where reading stopped (\<open>endptr\<close>), in base 10.\<close>

definition strtoll :: "string \<Rightarrow> int \<times> string" where
  "strtoll s =
     (let t = dropWhile is_space s;
          u = (if t \<noteq> [] \<and> hd t \<in> {CHR ''-'', CHR ''+''} then tl t else t);
          ds = takeWhile is_digit u;
          v = (if t \<noteq> [] \<and> hd t = CHR ''-'' then - int (digits_val ds) else int (digits_val ds))
      in if ds = [] then (0, s) else (max LLONG_MIN (min LLONG_MAX v), dropWhile is_digit u))"

definition ascii_lower :: "string \<Rightarrow> string" where
  "ascii_lower s = map to_lower s"

section \<open>Settings\<close>

text \<open>
  The rows of SeafileConf, and the key file: GLib's \<open>g_key_file_get_string\<close>, \<open>get_int64\<close>, \<open>get_integer\<close>
  and \<open>get_boolean\<close>, None for an error.
\<close>

datatype cfg_query = CFG_SELECT | CFG_WRITE

record cfg_mgr =
  cm_rows :: "((string \<times> string) \<times> string) list"
  cm_string :: "string \<Rightarrow> string \<Rightarrow> string option"
  cm_int :: "string \<Rightarrow> string \<Rightarrow> int option"
  cm_int64 :: "string \<Rightarrow> string \<Rightarrow> int option"
  cm_bool :: "string \<Rightarrow> string \<Rightarrow> bool option"
  cm_fails :: "cfg_query \<Rightarrow> bool"

definition seaf_cfg_manager_set_config :: "cfg_mgr \<Rightarrow> string \<Rightarrow> string \<Rightarrow> string \<Rightarrow> int \<times> cfg_mgr" where
  "seaf_cfg_manager_set_config M grp key value =
     (if cm_fails M CFG_SELECT \<or> cm_fails M CFG_WRITE then (-1, M)
      else if map_of (cm_rows M) (grp, key) \<noteq> None then
        (0, M\<lparr>cm_rows := map (\<lambda>(k, v). (k, if k = (grp, key) then value else v)) (cm_rows M)\<rparr>)
      else (0, M\<lparr>cm_rows := cm_rows M @ [((grp, key), value)]\<rparr>))"

text \<open>\<open>snprintf\<close> into the buffer of 256 bytes.\<close>

definition value_str :: "string \<Rightarrow> string" where
  "value_str s = take 255 s"

definition seaf_cfg_manager_set_config_int :: "cfg_mgr \<Rightarrow> string \<Rightarrow> string \<Rightarrow> u32 \<Rightarrow> int \<times> cfg_mgr" where
  "seaf_cfg_manager_set_config_int M grp key value =
     seaf_cfg_manager_set_config M grp key (value_str (int_to_string (sint value)))"

definition seaf_cfg_manager_set_config_int64 :: "cfg_mgr \<Rightarrow> string \<Rightarrow> string \<Rightarrow> u64 \<Rightarrow> int \<times> cfg_mgr" where
  "seaf_cfg_manager_set_config_int64 M grp key value =
     seaf_cfg_manager_set_config M grp key (value_str (int_to_string (sint value)))"

definition seaf_cfg_manager_set_config_string :: "cfg_mgr \<Rightarrow> string \<Rightarrow> string \<Rightarrow> string \<Rightarrow> int \<times> cfg_mgr" where
  "seaf_cfg_manager_set_config_string M grp key value = seaf_cfg_manager_set_config M grp key (value_str value)"

definition seaf_cfg_manager_set_config_boolean :: "cfg_mgr \<Rightarrow> string \<Rightarrow> string \<Rightarrow> bool \<Rightarrow> int \<times> cfg_mgr" where
  "seaf_cfg_manager_set_config_boolean M grp key value =
     seaf_cfg_manager_set_config M grp key (if value then ''true'' else ''false'')"

definition seaf_cfg_manager_get_config :: "cfg_mgr \<Rightarrow> string \<Rightarrow> string \<Rightarrow> string option" where
  "seaf_cfg_manager_get_config M grp key =
     (if cm_fails M CFG_SELECT then None else map_option g_strstrip (map_of (cm_rows M) (grp, key)))"

text \<open>The result of \<open>strtol\<close> is cut to an \<open>int\<close>.\<close>

definition seaf_cfg_manager_get_config_int :: "cfg_mgr \<Rightarrow> string \<Rightarrow> string \<Rightarrow> u32" where
  "seaf_cfg_manager_get_config_int M grp key =
     (case seaf_cfg_manager_get_config M grp key of
        None \<Rightarrow> (case cm_int M grp key of None \<Rightarrow> -1 | Some i \<Rightarrow> of_int i)
      | Some value \<Rightarrow> (case strtoll value of (v, invalid) \<Rightarrow> if invalid \<noteq> [] then -1 else of_int v))"

definition seaf_cfg_manager_get_config_int64 :: "cfg_mgr \<Rightarrow> string \<Rightarrow> string \<Rightarrow> u64" where
  "seaf_cfg_manager_get_config_int64 M grp key =
     (case seaf_cfg_manager_get_config M grp key of
        None \<Rightarrow> (case cm_int64 M grp key of None \<Rightarrow> -1 | Some i \<Rightarrow> of_int i)
      | Some value \<Rightarrow> (case strtoll value of (v, invalid) \<Rightarrow> if invalid \<noteq> [] then -1 else of_int v))"

definition seaf_cfg_manager_get_config_boolean :: "cfg_mgr \<Rightarrow> string \<Rightarrow> string \<Rightarrow> bool" where
  "seaf_cfg_manager_get_config_boolean M grp key =
     (case seaf_cfg_manager_get_config M grp key of
        None \<Rightarrow> (case cm_bool M grp key of None \<Rightarrow> False | Some b \<Rightarrow> b)
      | Some value \<Rightarrow> strcmp ''true'' value = 0)"

definition seaf_cfg_manager_get_config_string :: "cfg_mgr \<Rightarrow> string \<Rightarrow> string \<Rightarrow> string option" where
  "seaf_cfg_manager_get_config_string M grp key =
     (case seaf_cfg_manager_get_config M grp key of
        None \<Rightarrow> map_option g_strstrip (cm_string M grp key)
      | Some value \<Rightarrow> Some value)"

section \<open>The tables of the repository manager\<close>

definition seaf_repo_manager_get_virtual_repo_info :: "session \<Rightarrow> string \<Rightarrow> virt_info option" where
  "seaf_repo_manager_get_virtual_repo_info S repo =
     (if ss_fails S Q_VIRT_SELECT then None else map_of (ss_virtual S) repo)"

definition seaf_repo_manager_get_repo_owner :: "session \<Rightarrow> string \<Rightarrow> string option" where
  "seaf_repo_manager_get_repo_owner S repo =
     (if ss_fails S Q_OWNER_SELECT then None else map_option ascii_lower (map_of (ss_owners S) repo))"

definition seaf_repo_manager_get_repo_size :: "session \<Rightarrow> string \<Rightarrow> u64" where
  "seaf_repo_manager_get_repo_size S repo =
     (if ss_fails S Q_SIZE_SELECT then -1 else (case ss_sizes S repo of None \<Rightarrow> 0 | Some (sz, _) \<Rightarrow> sz))"

definition seaf_repo_manager_get_repo_ids_by_owner :: "session \<Rightarrow> string \<Rightarrow> string list" where
  "seaf_repo_manager_get_repo_ids_by_owner S email =
     (if ss_fails S Q_OWNED_REPOS then [] else rev (map fst (filter (\<lambda>row. snd row = email) (ss_owners S))))"

text \<open>\<open>SUM\<close> over a column of numbers; over no rows it is NULL, which is read as 0.\<close>

definition sql_sum :: "u64 list \<Rightarrow> u64" where
  "sql_sum xs = of_int (sum_list (map sint xs))"

text \<open>What RepoSize has for the libraries of a user that are not virtual.\<close>

definition owned_sizes :: "session \<Rightarrow> string \<Rightarrow> u64 list" where
  "owned_sizes S user =
     map (\<lambda>row. fst (the (ss_sizes S (fst row))))
       (filter (\<lambda>row. snd row = user \<and> map_of (ss_virtual S) (fst row) = None \<and> ss_sizes S (fst row) \<noteq> None) (ss_owners S))"

section \<open>Quotas\<close>

text \<open>
  The tables UserQuota, OrgQuota, OrgUserQuota and OrgRepo, and those that say whom a library is shared to:
  SharedRepo (from, to, library), RepoGroup and GroupUser.
\<close>

datatype quota_query =
  QQ_SELECT | QQ_WRITE | QQ_ORG_SELECT | QQ_ORG_WRITE | QQ_ORG_USER_SELECT | QQ_ORG_USER_WRITE | QQ_SHARES | QQ_GROUPS
  | QQ_MEMBERS | QQ_ORG_USAGE | QQ_LIST

record quota_mgr =
  qm_cfg :: cfg_mgr
  qm_pgsql :: bool
  qm_user :: "string \<Rightarrow> u64 option"
  qm_org :: "int \<Rightarrow> u64 option"
  qm_org_user :: "int \<times> string \<Rightarrow> u64 option"
  qm_shares :: "(string \<times> string \<times> string) list"
  qm_groups :: "(string \<times> int) list"
  qm_members :: "(int \<times> string) list"
  qm_org_repos :: "(int \<times> string \<times> string) list"
  qm_fails :: "quota_query \<Rightarrow> bool"

definition INFINITE_QUOTA :: u64 where "INFINITE_QUOTA = -2"

definition quota_multiplier :: "string \<Rightarrow> u64 option" where
  "quota_multiplier e =
     (let l = ascii_lower e in
      if e = [] then Some 1000000000
      else if l = ''kb'' \<or> l = ''k'' then Some 1000
      else if l = ''mb'' \<or> l = ''m'' then Some 1000000
      else if l = ''gb'' \<or> l = ''g'' then Some 1000000000
      else if l = ''tb'' \<or> l = ''t'' then Some 1000000000000
      else None)"

definition get_default_quota :: "cfg_mgr \<Rightarrow> u64" where
  "get_default_quota M =
     (case seaf_cfg_manager_get_config_string M ''quota'' ''default'' of
        None \<Rightarrow> INFINITE_QUOTA
      | Some quota_str \<Rightarrow>
          (case strtoll quota_str of
             (quota_int, e) \<Rightarrow>
               if quota_int = LLONG_MIN \<or> quota_int = LLONG_MAX then INFINITE_QUOTA
               else (case quota_multiplier e of None \<Rightarrow> INFINITE_QUOTA | Some m \<Rightarrow> of_int quota_int * m)))"

text \<open>
  A write of PostgreSQL first asks whether there is a row; the others replace it.  The row that is there
  afterwards is the same.
\<close>

definition put_row :: "bool \<Rightarrow> bool \<Rightarrow> bool \<Rightarrow> ('k \<Rightarrow> u64 option) \<Rightarrow> 'k \<Rightarrow> u64 \<Rightarrow> int \<times> ('k \<Rightarrow> u64 option)" where
  "put_row pgsql sel_fails wr_fails T k quota =
     (if pgsql \<and> sel_fails then (-1, T) else if wr_fails then (-1, T) else (0, T(k \<mapsto> quota)))"

definition seaf_quota_manager_set_user_quota :: "quota_mgr \<Rightarrow> string \<Rightarrow> u64 \<Rightarrow> int \<times> quota_mgr" where
  "seaf_quota_manager_set_user_quota M user quota =
     (case put_row (qm_pgsql M) (qm_fails M QQ_SELECT) (qm_fails M QQ_WRITE) (qm_user M) user quota of
        (rc, T) \<Rightarrow> (rc, M\<lparr>qm_user := T\<rparr>))"

definition seaf_quota_manager_get_user_quota :: "quota_mgr \<Rightarrow> string \<Rightarrow> u64" where
  "seaf_quota_manager_get_user_quota M user =
     (let quota = (if qm_fails M QQ_SELECT then -1 else (case qm_user M user of None \<Rightarrow> -1 | Some q \<Rightarrow> q))
      in if sint quota \<le> 0 then get_default_quota (qm_cfg M) else quota)"

definition seaf_quota_manager_set_org_quota :: "quota_mgr \<Rightarrow> int \<Rightarrow> u64 \<Rightarrow> int \<times> quota_mgr" where
  "seaf_quota_manager_set_org_quota M org quota =
     (case put_row (qm_pgsql M) (qm_fails M QQ_ORG_SELECT) (qm_fails M QQ_ORG_WRITE) (qm_org M) org quota of
        (rc, T) \<Rightarrow> (rc, M\<lparr>qm_org := T\<rparr>))"

definition seaf_quota_manager_get_org_quota :: "quota_mgr \<Rightarrow> int \<Rightarrow> u64" where
  "seaf_quota_manager_get_org_quota M org =
     (let quota = (if qm_fails M QQ_ORG_SELECT then -1 else (case qm_org M org of None \<Rightarrow> -1 | Some q \<Rightarrow> q))
      in if sint quota \<le> 0 then get_default_quota (qm_cfg M) else quota)"

definition seaf_quota_manager_set_org_user_quota :: "quota_mgr \<Rightarrow> int \<Rightarrow> string \<Rightarrow> u64 \<Rightarrow> int \<times> quota_mgr" where
  "seaf_quota_manager_set_org_user_quota M org user quota =
     (case put_row (qm_pgsql M) (qm_fails M QQ_ORG_USER_SELECT) (qm_fails M QQ_ORG_USER_WRITE) (qm_org_user M)
             (org, user) quota of
        (rc, T) \<Rightarrow> (rc, M\<lparr>qm_org_user := T\<rparr>))"

definition seaf_quota_manager_get_org_user_quota :: "quota_mgr \<Rightarrow> int \<Rightarrow> string \<Rightarrow> u64" where
  "seaf_quota_manager_get_org_user_quota M org user =
     (let quota = (if qm_fails M QQ_ORG_USER_SELECT then -1
                   else (case qm_org_user M (org, user) of None \<Rightarrow> -1 | Some q \<Rightarrow> q))
      in if sint quota \<le> 0 then seaf_quota_manager_get_org_quota M org else quota)"

definition seaf_quota_manager_get_user_usage :: "session \<Rightarrow> string \<Rightarrow> u64" where
  "seaf_quota_manager_get_user_usage S user =
     (if ss_fails S Q_USAGE then -1 else sql_sum (owned_sizes S user))"

definition seaf_quota_manager_get_org_usage :: "session \<Rightarrow> quota_mgr \<Rightarrow> int \<Rightarrow> u64" where
  "seaf_quota_manager_get_org_usage S M org =
     (if qm_fails M QQ_ORG_USAGE then -1
      else sql_sum (map (\<lambda>(_, repo, _). fst (the (ss_sizes S repo)))
             (filter (\<lambda>(o', repo, _). o' = org \<and> ss_sizes S repo \<noteq> None) (qm_org_repos M))))"

definition seaf_quota_manager_get_org_user_usage :: "session \<Rightarrow> quota_mgr \<Rightarrow> int \<Rightarrow> string \<Rightarrow> u64" where
  "seaf_quota_manager_get_org_user_usage S M org user =
     (if qm_fails M QQ_ORG_USAGE then -1
      else sql_sum (map (\<lambda>(_, repo, _). fst (the (ss_sizes S repo)))
             (filter (\<lambda>(o', repo, u). o' = org \<and> u = user \<and> ss_sizes S repo \<noteq> None) (qm_org_repos M))))"

definition contains_text :: "string \<Rightarrow> string \<Rightarrow> bool" where
  "contains_text s needle = list_ex (\<lambda>i. take (length needle) (drop i s) = needle) [0..<length s + 1]"

text \<open>0 for a library that may grow by \<open>delta\<close>, 1 for one that may not, -1 for a failure.\<close>

definition seaf_quota_manager_check_quota_with_delta :: "session \<Rightarrow> quota_mgr \<Rightarrow> string \<Rightarrow> u64 \<Rightarrow> int" where
  "seaf_quota_manager_check_quota_with_delta S M repo delta =
     (let r_repo = (case seaf_repo_manager_get_virtual_repo_info S repo of None \<Rightarrow> repo | Some v \<Rightarrow> vi_origin_repo v) in
      case seaf_repo_manager_get_repo_owner S r_repo of
        None \<Rightarrow> -1
      | Some user \<Rightarrow>
          if contains_text user ''dtable@seafile'' then 0
          else
            (let quota = seaf_quota_manager_get_user_quota M user in
             if quota = INFINITE_QUOTA then 0
             else
               (let usage = seaf_quota_manager_get_user_usage S user in
                if sint usage < 0 then -1
                else if sint (usage + delta) \<ge> sint quota then 1 else 0)))"

definition seaf_quota_manager_check_quota :: "session \<Rightarrow> quota_mgr \<Rightarrow> string \<Rightarrow> int" where
  "seaf_quota_manager_check_quota S M repo =
     (let ret = seaf_quota_manager_check_quota_with_delta S M repo 0 in if ret = 1 then -1 else ret)"

section \<open>Sharing\<close>

definition list_shared_to :: "quota_mgr \<Rightarrow> string \<Rightarrow> string \<Rightarrow> string list" where
  "list_shared_to M owner repo =
     (if qm_fails M QQ_SHARES then []
      else rev (map (\<lambda>(_, t, _). ascii_lower t) (filter (\<lambda>(f, _, r). f = owner \<and> r = repo) (qm_shares M))))"

definition groups_by_repo :: "quota_mgr \<Rightarrow> string \<Rightarrow> int list" where
  "groups_by_repo M repo =
     (if qm_fails M QQ_GROUPS then [] else map snd (filter (\<lambda>row. fst row = repo) (qm_groups M)))"

definition group_members :: "quota_mgr \<Rightarrow> int \<Rightarrow> string list" where
  "group_members M grp =
     (if qm_fails M QQ_MEMBERS then [] else map snd (filter (\<lambda>row. fst row = grp) (qm_members M)))"

text \<open>The keys of the hash table; \<open>insert\<close> keeps each once.\<close>

definition count_group_members :: "string list \<Rightarrow> string list \<Rightarrow> string list" where
  "count_group_members user_hash members = foldl (\<lambda>h u. List.insert u h) user_hash members"

fun count_groups :: "quota_mgr \<Rightarrow> int list \<Rightarrow> string list \<Rightarrow> string list option" where
  "count_groups M [] user_hash = Some user_hash"
| "count_groups M (g # gs) user_hash =
     (case group_members M g of
        [] \<Rightarrow> None
      | members \<Rightarrow> count_groups M gs (count_group_members user_hash members))"

definition get_num_shared_to :: "quota_mgr \<Rightarrow> string \<Rightarrow> string \<Rightarrow> int" where
  "get_num_shared_to M user repo =
     (case count_groups M (groups_by_repo M repo) (count_group_members [] (list_shared_to M user repo)) of
        None \<Rightarrow> -1
      | Some user_hash \<Rightarrow> int (length (removeAll user user_hash)))"

definition repo_share_usage :: "session \<Rightarrow> quota_mgr \<Rightarrow> string \<Rightarrow> string \<Rightarrow> u64" where
  "repo_share_usage S M user repo =
     (let n_shared_to = get_num_shared_to M user repo in
      if n_shared_to < 0 then -1
      else if n_shared_to = 0 then 0
      else
        (let sz = seaf_repo_manager_get_repo_size S repo in
         if sint sz < 0 then -1 else sz * of_int n_shared_to))"

fun share_usage_loop :: "session \<Rightarrow> quota_mgr \<Rightarrow> string \<Rightarrow> string list \<Rightarrow> u64 \<Rightarrow> u64" where
  "share_usage_loop S M user [] acc = acc"
| "share_usage_loop S M user (repo # repos) acc =
     (let per_repo = repo_share_usage S M user repo in
      if sint per_repo < 0 then -1 else share_usage_loop S M user repos (acc + per_repo))"

definition seaf_quota_manager_get_user_share_usage :: "session \<Rightarrow> quota_mgr \<Rightarrow> string \<Rightarrow> u64" where
  "seaf_quota_manager_get_user_share_usage S M user =
     share_usage_loop S M user (seaf_repo_manager_get_repo_ids_by_owner S user) 0"

text \<open>One row for each owner that has a library with a size, in the order of the table.\<close>

definition seaf_repo_quota_manager_list_user_quota_usage :: "session \<Rightarrow> quota_mgr \<Rightarrow> (string \<times> u64) list" where
  "seaf_repo_quota_manager_list_user_quota_usage S M =
     (if qm_fails M QQ_LIST then []
      else map (\<lambda>u. (u, sql_sum (owned_sizes S u)))
             (filter (\<lambda>u. owned_sizes S u \<noteq> []) (remdups (map snd (ss_owners S)))))"

section \<open>A setting is read back\<close>

lemma digit_byte: "n < 10 \<Longrightarrow> byte_val (char_of (48 + n)) = 48 + n"
  by simp

lemma nat_digits: "\<forall>c\<in>set (nat_to_string n). is_digit c"
proof (induction n rule: less_induct)
  case (less n)
  have "is_digit (char_of (48 + n mod 10))" by (simp add: is_digit_def)
  then show ?case
    using less.IH [of "n div 10"] by (subst nat_to_string_split) auto
qed

lemma digits_val_snoc: "digits_val (ds @ [c]) = digits_val ds * 10 + (byte_val c - 48)"
  by (simp add: digits_val_def)

lemma digits_val_nat: "digits_val (nat_to_string n) = n"
proof (induction n rule: less_induct)
  case (less n)
  show ?case
  proof (cases "n < 10")
    case True
    then show ?thesis by (subst nat_to_string_split) (simp add: digits_val_def)
  next
    case False
    then have "digits_val (nat_to_string (n div 10) @ [char_of (48 + n mod 10)]) = n div 10 * 10 + n mod 10"
      using less.IH [of "n div 10"] by (simp add: digits_val_snoc)
    then show ?thesis using False by (subst nat_to_string_split) simp
  qed
qed

lemma nat_to_string_length: "n < 10 ^ d \<Longrightarrow> 0 < d \<Longrightarrow> length (nat_to_string n) \<le> d"
proof (induction d arbitrary: n)
  case (Suc d)
  show ?case
  proof (cases "n < 10")
    case True
    then show ?thesis by (subst nat_to_string_split) simp
  next
    case False
    then have "0 < d" using Suc.prems by (cases d) auto
    moreover have "n div 10 < 10 ^ d" using Suc.prems(1) by (simp add: less_mult_imp_div_less mult.commute)
    ultimately show ?thesis using Suc.IH [of "n div 10"] by (subst nat_to_string_split) simp
  qed
qed simp

lemma nat_text:
  "takeWhile is_digit (nat_to_string n) = nat_to_string n" "dropWhile is_digit (nat_to_string n) = []"
  "\<not> is_space (hd (nat_to_string n))" "hd (nat_to_string n) \<noteq> CHR ''-''" "hd (nat_to_string n) \<noteq> CHR ''+''"
proof -
  have "is_digit (hd (nat_to_string n))" using nat_digits nat_to_string_ne hd_in_set by blast
  then show "\<not> is_space (hd (nat_to_string n))" "hd (nat_to_string n) \<noteq> CHR ''-''" "hd (nat_to_string n) \<noteq> CHR ''+''"
    by (auto simp: is_digit_def is_space_def)
qed (use nat_digits in auto)

lemma not_space: "is_digit c \<Longrightarrow> \<not> is_space c" "\<not> is_space (CHR ''-'')" "\<not> is_digit (CHR ''-'')" "\<not> is_digit (CHR ''+'')"
  by (auto simp: is_digit_def is_space_def)

lemma strip_text:
  assumes "\<forall>c\<in>set s. \<not> is_space c"
  shows "dropWhile is_space s = s" "g_strstrip s = s"
proof -
  have d: "dropWhile is_space t = t" if "\<forall>c\<in>set t. \<not> is_space c" for t using that by (cases t) auto
  then show "dropWhile is_space s = s" using assms by blast
  with d [of "rev s"] assms show "g_strstrip s = s" by (simp add: g_strstrip_def)
qed

lemma int_text:
  "\<forall>c\<in>set (int_to_string i). \<not> is_space c"
  "LLONG_MIN \<le> i \<Longrightarrow> i \<le> LLONG_MAX \<Longrightarrow> strtoll (int_to_string i) = (i, [])"
proof -
  show sp: "\<forall>c\<in>set (int_to_string i). \<not> is_space c"
    using nat_digits not_space by (auto simp: int_to_string_def)
  assume i: "LLONG_MIN \<le> i" "i \<le> LLONG_MAX"
  then show "strtoll (int_to_string i) = (i, [])"
    unfolding strtoll_def Let_def strip_text(1) [OF sp]
    by (auto simp: int_to_string_def nat_text nat_to_string_ne digits_val_nat bspec [OF nat_digits])
qed

lemma set_config_get:
  assumes "seaf_cfg_manager_set_config M g k v = (0, M')"
  shows "seaf_cfg_manager_get_config M' g k = Some (g_strstrip v)"
proof -
  have upd: "map_of (map (\<lambda>(x, y). (x, if x = j then v else y)) l) j = (if map_of l j = None then None else Some v)" for l j
    by (induction l) auto
  show ?thesis
    using assms upd [of "(g, k)" "cm_rows M"]
    by (auto simp: seaf_cfg_manager_set_config_def seaf_cfg_manager_get_config_def map_add_def
        split: if_splits option.splits)
qed

lemma sint_range: "LLONG_MIN \<le> sint (w :: u64)" "sint (w :: u64) \<le> LLONG_MAX"
  using sint_greater_eq [of w] sint_less [of w] by (simp_all add: LLONG_MIN_def LLONG_MAX_def)

lemma int_text_length: "LLONG_MIN \<le> i \<Longrightarrow> i \<le> LLONG_MAX \<Longrightarrow> length (int_to_string i) \<le> 20"
  using nat_to_string_length [of "nat i" 19] nat_to_string_length [of "nat (- i)" 19]
  by (auto simp: int_to_string_def LLONG_MIN_def LLONG_MAX_def nat_less_iff)

text \<open>A 64-bit setting that was stored is read back as it was, for every value.\<close>

theorem cfg_int64_roundtrip:
  assumes "seaf_cfg_manager_set_config_int64 M grp key v = (0, M')"
  shows "seaf_cfg_manager_get_config_int64 M' grp key = v"
proof -
  have "value_str (int_to_string (sint v)) = int_to_string (sint v)"
    using int_text_length [OF sint_range [of v]] by (simp add: value_str_def)
  then have "seaf_cfg_manager_get_config M' grp key = Some (int_to_string (sint v))"
    using set_config_get assms strip_text(2) [OF int_text(1)] by (simp add: seaf_cfg_manager_set_config_int64_def)
  then show ?thesis
    using int_text(2) [OF sint_range [of v]] by (simp add: seaf_cfg_manager_get_config_int64_def)
qed

section \<open>What a check promises\<close>

lemma sql_sum_exact:
  assumes "LLONG_MIN \<le> sum_list (map sint xs)" "sum_list (map sint xs) \<le> LLONG_MAX"
  shows "sint (sql_sum xs) = sum_list (map sint xs)"
  using assms by (simp add: sql_sum_def LLONG_MIN_def LLONG_MAX_def signed_of_int signed_take_bit_int_eq_self)

lemma sint_plus:
  assumes "LLONG_MIN \<le> sint (a :: u64) + sint b" "sint a + sint b \<le> LLONG_MAX"
  shows "sint (a + b) = sint a + sint b"
  using assms by (simp add: sint_word_ariths LLONG_MIN_def LLONG_MAX_def signed_take_bit_int_eq_self)

text \<open>The library that a check is about: the origin of a virtual one.\<close>

definition charged_repo :: "session \<Rightarrow> string \<Rightarrow> string" where
  "charged_repo S repo =
     (case seaf_repo_manager_get_virtual_repo_info S repo of None \<Rightarrow> repo | Some v \<Rightarrow> vi_origin_repo v)"

definition owned_total :: "session \<Rightarrow> string \<Rightarrow> int" where
  "owned_total S user = sum_list (map sint (owned_sizes S user))"

text \<open>C39: when a check with \<open>delta\<close> passes for a library whose owner has a finite quota, the owner's libraries and
  \<open>delta\<close> together stay below the quota, as long as the sums fit into 64 bits.\<close>

theorem quota_check_leaves_room:
  assumes "seaf_quota_manager_check_quota_with_delta S M repo delta = 0"
    and "seaf_repo_manager_get_repo_owner S (charged_repo S repo) = Some user"
    and "\<not> contains_text user ''dtable@seafile''"
    and "seaf_quota_manager_get_user_quota M user \<noteq> INFINITE_QUOTA"
    and "LLONG_MIN \<le> owned_total S user" "owned_total S user \<le> LLONG_MAX"
    and "LLONG_MIN \<le> owned_total S user + sint delta" "owned_total S user + sint delta \<le> LLONG_MAX"
  shows "owned_total S user + sint delta < sint (seaf_quota_manager_get_user_quota M user)"
proof -
  have "\<not> ss_fails S Q_USAGE"
    using assms(1-4) by (auto simp: seaf_quota_manager_check_quota_with_delta_def charged_repo_def Let_def
        seaf_quota_manager_get_user_usage_def)
  then have "sint (seaf_quota_manager_get_user_usage S user) = owned_total S user"
    using sql_sum_exact assms(5,6) by (simp add: seaf_quota_manager_get_user_usage_def owned_total_def)
  then show ?thesis
    using assms sint_plus [of "seaf_quota_manager_get_user_usage S user" delta]
    by (auto simp: seaf_quota_manager_check_quota_with_delta_def charged_repo_def Let_def split: if_splits)
qed

text \<open>The sum of usage and \<open>delta\<close> may run over, and the check passes.\<close>

lemma quota_check_overflow:
  assumes "seaf_repo_manager_get_repo_owner S (charged_repo S repo) = Some user"
    and "\<not> contains_text user ''dtable@seafile''" "0 < sint (seaf_quota_manager_get_user_quota M user)"
    and "seaf_quota_manager_get_user_usage S user = 1"
  shows "seaf_quota_manager_check_quota_with_delta S M repo (of_int LLONG_MAX) = 0"
proof -
  have "sint (1 + of_int LLONG_MAX :: u64) < 0" by (simp add: LLONG_MAX_def)
  then show ?thesis
    using assms by (simp add: seaf_quota_manager_check_quota_with_delta_def charged_repo_def Let_def)
qed

text \<open>A group without members makes the share usage of its library a failure.\<close>

lemma empty_group_fails:
  "g \<in> set (groups_by_repo M repo) \<Longrightarrow> group_members M g = [] \<Longrightarrow> get_num_shared_to M user repo = -1"
proof -
  have "g \<in> set gs \<Longrightarrow> group_members M g = [] \<Longrightarrow> count_groups M gs h = None" for gs h
    by (induction gs arbitrary: h) (auto split: list.splits)
  then show "g \<in> set (groups_by_repo M repo) \<Longrightarrow> group_members M g = [] \<Longrightarrow> get_num_shared_to M user repo = -1"
    by (simp add: get_num_shared_to_def)
qed

section \<open>An owner with one library\<close>

definition demo_cfg :: cfg_mgr where
  "demo_cfg = \<lparr>cm_rows = [], cm_string = (\<lambda>_ _. None), cm_int = (\<lambda>_ _. None), cm_int64 = (\<lambda>_ _. None),
     cm_bool = (\<lambda>_ _. None), cm_fails = (\<lambda>_. False)\<rparr>"

theorem cfg_int64_roundtrip_witness:
  "seaf_cfg_manager_get_config_int64
     (snd (seaf_cfg_manager_set_config_int64 demo_cfg ''quota'' ''x'' (-9223372036854775808))) ''quota'' ''x'' = 0x8000000000000000"
proof -
  have "seaf_cfg_manager_set_config_int64 demo_cfg ''quota'' ''x'' (-9223372036854775808) = (0, M')"
    if "M' = snd (seaf_cfg_manager_set_config_int64 demo_cfg ''quota'' ''x'' (-9223372036854775808))" for M'
    using that by (simp add: seaf_cfg_manager_set_config_int64_def seaf_cfg_manager_set_config_def demo_cfg_def)
  from cfg_int64_roundtrip [OF this [OF refl]] show ?thesis by simp
qed

definition demo_quota :: quota_mgr where
  "demo_quota = \<lparr>qm_cfg = demo_cfg, qm_pgsql = False, qm_user = [''u'' \<mapsto> 10], qm_org = Map.empty, qm_org_user = Map.empty,
     qm_shares = [], qm_groups = [], qm_members = [], qm_org_repos = [], qm_fails = (\<lambda>_. False)\<rparr>"

definition demo_quota_session :: session where
  "demo_quota_session = \<lparr>ss_libs = demo_libs JNull, ss_searpc = demo_searpc, ss_now = 0, ss_repos = {''r''},
     ss_virtual = [(''v'', \<lparr>vi_origin_repo = ''r'', vi_path = ''/d'', vi_base_commit = []\<rparr>)],
     ss_owners = [(''r'', ''U''), (''v'', ''u''), (''s'', ''u'')], ss_sizes = [''v'' \<mapsto> (3, []), ''s'' \<mapsto> (4, [])],
     ss_counts = Map.empty, ss_fails = (\<lambda>_. False), ss_branches = demo_branch_db, ss_commits = demo_cstore,
     ss_fs = demo_cstore, ss_blocks = demo_blocks, ss_events = []\<rparr>"

theorem quota_check_leaves_room_witness:
  "owned_total demo_quota_session ''u'' + 5 < sint (seaf_quota_manager_get_user_quota demo_quota ''u'') \<and>
   owned_total demo_quota_session ''u'' = 4"
proof -
  have r: "seaf_repo_manager_get_repo_owner demo_quota_session (charged_repo demo_quota_session ''v'') = Some ''u''"
    by (simp add: seaf_repo_manager_get_repo_owner_def charged_repo_def seaf_repo_manager_get_virtual_repo_info_def
        demo_quota_session_def ascii_lower_def) code_simp
  have u: "\<not> contains_text ''u'' ''dtable@seafile''" by code_simp
  have q: "seaf_quota_manager_get_user_quota demo_quota ''u'' = 10"
    by (simp add: seaf_quota_manager_get_user_quota_def demo_quota_def)
  have t: "owned_total demo_quota_session ''u'' = 4"
    by (simp add: owned_total_def owned_sizes_def demo_quota_session_def)
  have "seaf_quota_manager_get_user_usage demo_quota_session ''u'' = 4"
    by (simp add: seaf_quota_manager_get_user_usage_def owned_sizes_def demo_quota_session_def sql_sum_def)
  then have c: "seaf_quota_manager_check_quota_with_delta demo_quota_session demo_quota ''v'' 5 = 0"
    using r u q by (simp add: seaf_quota_manager_check_quota_with_delta_def charged_repo_def Let_def INFINITE_QUOTA_def)
  show ?thesis
    using quota_check_leaves_room [OF c r u] by (simp add: q t INFINITE_QUOTA_def LLONG_MIN_def LLONG_MAX_def)
qed

end
