(* ===== verification/RepoFiles.thy ===== *)
theory RepoFiles
  imports RepoCommit FileIndex PasswdMgr Quota
begin

text \<open>
  Uploading files (\<open>server/repo-op.c\<close>: post, put, multi-file upload and the two steps of an upload by blocks;
  \<open>server/index-blocks-mgr.c\<close>: the tasks that index in the background).  A file that was uploaded can be read
  back from the head commit, encrypted or not, and a background task's progress stays until it has finished.
\<close>

section \<open>What an upload works on\<close>

text \<open>
  Beside the environment of every operation: the indexer, the temporary files of the operating system (their
  mode and size, their content, whether they can be read), the passwords that were given, OpenSSL, GLib's
  \<open>g_utf8_normalize\<close> (None when it fails) and \<open>g_build_filename\<close>, and jansson's compact printer.
\<close>

record 'c file_env =
  fe_op :: op_env
  fe_index :: index_env
  fe_stat :: "string \<Rightarrow> (u32 \<times> nat) option"
  fe_read :: "string \<Rightarrow> bytes option"
  fe_readable :: "string \<Rightarrow> bool"
  fe_passwds :: passwd_mgr
  fe_ssl :: "'c openssl"
  fe_quota :: quota_mgr
  fe_normalize :: "string \<Rightarrow> string option"
  fe_build_filename :: "string \<Rightarrow> string \<Rightarrow> string"
  fe_dumps_compact :: "json \<Rightarrow> bytes"

definition normalize_utf8_path :: "'c file_env \<Rightarrow> session \<Rightarrow> string \<Rightarrow> string option" where
  "normalize_utf8_path E S path =
     (if utf8_valid_prefix (ss_searpc S) path < length path then None else fe_normalize E path)"

text \<open>The inner None is a library that is not encrypted, the outer one that no password was given.\<close>

definition repo_crypt :: "'c file_env \<Rightarrow> repo \<Rightarrow> string \<Rightarrow> string \<Rightarrow> seafile_crypt option option" where
  "repo_crypt E r repo user =
     (if \<not> rp_encrypted r then Some None
      else (case seaf_passwd_manager_get_decrypt_key_raw (fe_passwds E) repo user
                   (os_stack (fe_ssl E) 32, os_stack (fe_ssl E) 16) of
              (ret, key, iv) \<Rightarrow>
                if ret < 0 then None
                else Some (Some (file_crypt (fe_ssl E) (seafile_crypt_new (rp_enc_version r) key iv)))))"

definition session_index :: "'c file_env \<Rightarrow> session \<Rightarrow> index_env" where
  "session_index E S = (fe_index E)\<lparr>ie_libs := ss_libs S\<rparr>"

text \<open>The id of the indexed file and its size.\<close>

definition index_temp_file ::
    "'c file_env \<Rightarrow> session \<Rightarrow> repo \<Rightarrow> seafile_crypt option \<Rightarrow> string \<Rightarrow> (string \<times> u64) option \<times> session" where
  "index_temp_file E S r crypt path =
     (case seaf_fs_manager_index_blocks (session_index E S) (rp_store_id r) (rp_version r) (fe_stat E path)
             (fe_read E path) crypt True False (ss_fs S, ss_blocks S) of
        (ret, sha1, sz, fs, bs) \<Rightarrow>
          (let S' = S\<lparr>ss_fs := fs, ss_blocks := bs\<rparr> in
           if ret < 0 then (None, S')
           else (case sha1 of None \<Rightarrow> (None, S') | Some s \<Rightarrow> (Some (rawdata_to_hex s, of_nat sz), S'))))"

definition new_file_dirent :: "session \<Rightarrow> repo \<Rightarrow> string \<Rightarrow> string \<Rightarrow> string \<Rightarrow> u64 \<Rightarrow> dirent" where
  "new_file_dirent S r hex file_name user sz =
     seaf_dirent_new (dir_version_from_repo_version (rp_version r)) hex STD_FILE_MODE file_name (ss_now S) (Some user) sz"

section \<open>One file\<close>

definition seaf_repo_manager_post_file ::
    "'c file_env \<Rightarrow> session \<Rightarrow> string \<Rightarrow> string \<Rightarrow> string \<Rightarrow> string \<Rightarrow> string \<Rightarrow> unit op_result" where
  "seaf_repo_manager_post_file E S repo temp_file_path parent_dir file_name user =
     (if \<not> fe_readable E temp_file_path then fails SEAF_ERR_BAD_ARGS S
      else and_repo_size repo (with_repo S repo None (\<lambda>r head.
        let canon_path = get_canonical_path parent_dir in
        if should_ignore_file S file_name then fails SEAF_ERR_BAD_ARGS S
        else if has_double_slash parent_dir then fails SEAF_ERR_BAD_ARGS S
        else (case repo_crypt E r repo user of
                None \<Rightarrow> fails SEAF_ERR_GENERAL S
              | Some crypt \<Rightarrow>
                  (case index_temp_file E S r crypt temp_file_path of
                     (None, S1) \<Rightarrow> fails SEAF_ERR_GENERAL S1
                   | (Some (hex, sz), S1) \<Rightarrow>
                       commit_root (fe_op E) S1 repo head SEAF_ERR_GENERAL
                         (do_post_file (ss_now S1) (fs_of S1 r) (root_id head) canon_path
                            (new_file_dirent S1 r hex file_name user sz))
                         user (path_buf (''Added '' @ quoted file_name)))))))"

text \<open>The new file's id is returned; a file that is what is there already is not committed.\<close>

definition seaf_repo_manager_put_file ::
    "'c file_env \<Rightarrow> session \<Rightarrow> string \<Rightarrow> string \<Rightarrow> string \<Rightarrow> string \<Rightarrow> string \<Rightarrow> string option \<Rightarrow> string op_result" where
  "seaf_repo_manager_put_file E S repo temp_file_path parent_dir file_name user head =
     (if \<not> fe_readable E temp_file_path then fails SEAF_ERR_BAD_ARGS S
      else and_repo_size repo (with_repo S repo head (\<lambda>r head_commit.
        let canon_path = get_canonical_path parent_dir in
        if should_ignore_file S file_name then fails SEAF_ERR_BAD_ARGS S
        else if has_double_slash parent_dir then fails SEAF_ERR_BAD_ARGS S
        else if check_file_exists (fs_of S r) (root_id head_commit) canon_path file_name = None
        then fails SEAF_ERR_BAD_ARGS S
        else (case repo_crypt E r repo user of
                None \<Rightarrow> fails SEAF_ERR_GENERAL S
              | Some crypt \<Rightarrow>
                  (case index_temp_file E S r crypt temp_file_path of
                     (None, S1) \<Rightarrow> fails SEAF_ERR_GENERAL S1
                   | (Some (hex, sz), S1) \<Rightarrow>
                       (let new_dent = new_file_dirent S1 r hex file_name user sz;
                            old_file_id = (case seaf_fs_manager_path_to_obj_id (fs_of S1 r) (root_id head_commit)
                                                  (fe_build_filename E parent_dir file_name) of
                                             Inr (Some (i, _)) \<Rightarrow> Some i
                                           | _ \<Rightarrow> None)
                        in if old_file_id = Some (d_id new_dent) then Some (Inr (d_id new_dent), S1)
                           else (case commit_root (fe_op E) S1 repo head_commit SEAF_ERR_GENERAL
                                        (do_put_file (ss_now S1) (fs_of S1 r) (root_id head_commit) canon_path new_dent)
                                        user (path_buf (''Modified '' @ quoted file_name)) of
                                   None \<Rightarrow> None
                                 | Some (Inl e, S') \<Rightarrow> Some (Inl e, S')
                                 | Some (Inr _, S') \<Rightarrow> Some (Inr (d_id new_dent), S'))))))))"

section \<open>Lists in JSON\<close>

text \<open>An empty list is also what a text that is no list of texts gives.\<close>

fun json_files :: "'c file_env \<Rightarrow> session \<Rightarrow> json list \<Rightarrow> string list option" where
  "json_files E S [] = Some []"
| "json_files E S (v # vs) =
     (case json_string_value (Some v) of
        None \<Rightarrow> None
      | Some f \<Rightarrow> (case normalize_utf8_path E S f of
                     None \<Rightarrow> None
                   | Some norm_file \<Rightarrow> map_option ((#) norm_file) (json_files E S vs)))"

definition json_to_file_list :: "'c file_env \<Rightarrow> session \<Rightarrow> string \<Rightarrow> string list" where
  "json_to_file_list E S files_json =
     (case lib_json_loadb (ss_libs S) files_json of
        None \<Rightarrow> []
      | Some j \<Rightarrow> (case json_files E S (json_array (Some j)) of None \<Rightarrow> [] | Some fs \<Rightarrow> fs))"

definition file_info_json :: "string \<times> string \<times> u64 \<Rightarrow> json" where
  "file_info_json x =
     (case x of
        (filename, i, sz) \<Rightarrow>
          JObject (json_object_set_int_member (json_object_set_string_member (json_object_set_string_member [] ''name'' filename)
                     ''id'' i) ''size'' (sint sz)))"

definition format_json_ret :: "session \<Rightarrow> string list \<Rightarrow> string list \<Rightarrow> u64 list \<Rightarrow> string" where
  "format_json_ret S names ids sizes =
     json_dumps_plain (ss_searpc S) (JArray (map file_info_json (zip names (zip ids sizes))))"

section \<open>Uploads by blocks\<close>

definition seaf_repo_manager_post_blocks ::
    "'c file_env \<Rightarrow> session \<Rightarrow> string \<Rightarrow> string \<Rightarrow> string \<Rightarrow> unit op_result" where
  "seaf_repo_manager_post_blocks E S repo blockids_json paths_json =
     (let blockids = json_to_file_list E S blockids_json;
          paths = json_to_file_list E S paths_json
      in and_repo_size repo
           (if length blockids \<noteq> length paths then fails SEAF_ERR_BAD_ARGS S
            else if list_ex (\<lambda>p. \<not> fe_readable E p) paths then fails SEAF_ERR_BAD_ARGS S
            else (case seaf_repo_manager_get_repo S repo of
                    None \<Rightarrow> fails SEAF_ERR_BAD_ARGS S
                  | Some r \<Rightarrow>
                      (case seaf_fs_manager_index_raw_blocks (ss_libs S) (fe_read E) (rp_store_id r) paths blockids
                              (ss_blocks S) of
                         (ret, bs) \<Rightarrow>
                           (let S' = S\<lparr>ss_blocks := bs\<rparr> in
                            if ret < 0 then fails SEAF_ERR_GENERAL S' else Some (Inr (), S'))))))"

fun total_block_size :: "libs \<Rightarrow> block_store \<Rightarrow> string \<Rightarrow> string list \<Rightarrow> u64 \<Rightarrow> u64 option" where
  "total_block_size L bs store_id [] total_size = Some total_size"
| "total_block_size L bs store_id (blockid # ids) total_size =
     (case seaf_block_manager_stat_block L bs store_id blockid of
        None \<Rightarrow> None
      | Some bmd \<Rightarrow> total_block_size L bs store_id ids (total_size + ucast (bmd_size bmd)))"

definition check_quota_before_commit_blocks :: "'c file_env \<Rightarrow> session \<Rightarrow> string \<Rightarrow> string list \<Rightarrow> int" where
  "check_quota_before_commit_blocks E S store_id blockids =
     (case total_block_size (ss_libs S) (ss_blocks S) store_id blockids 0 of
        None \<Rightarrow> -1
      | Some total_size \<Rightarrow> seaf_quota_manager_check_quota_with_delta S (fe_quota E) store_id total_size)"

text \<open>This one does not have the virtual libraries merged.\<close>

definition seaf_repo_manager_commit_file_blocks ::
    "'c file_env \<Rightarrow> session \<Rightarrow> string \<Rightarrow> string \<Rightarrow> string \<Rightarrow> string \<Rightarrow> string \<Rightarrow> u64 \<Rightarrow> bool \<Rightarrow> string op_result" where
  "seaf_repo_manager_commit_file_blocks E S repo parent_dir file_name blockids_json user fsize replace_existed =
     (let blockids = json_to_file_list E S blockids_json in
      and_repo_size repo (with_repo S repo None (\<lambda>r head.
        let canon_path = get_canonical_path parent_dir in
        if should_ignore_file S file_name then fails SEAF_ERR_BAD_ARGS S
        else if has_double_slash parent_dir then fails SEAF_ERR_BAD_ARGS S
        else if check_quota_before_commit_blocks E S (rp_store_id r) blockids \<noteq> 0 then fails POST_FILE_ERR_QUOTA_FULL S
        else (case seaf_fs_manager_index_existed_file_blocks (ss_libs S) (rp_store_id r) (rp_version r) blockids
                     (unat fsize) (ss_fs S, ss_blocks S) of
                (ret, sha1, fs) \<Rightarrow>
                  (let S1 = S\<lparr>ss_fs := fs\<rparr>;
                       hex = rawdata_to_hex (case sha1 of None \<Rightarrow> [] | Some s \<Rightarrow> s)
                   in if ret < 0 then fails POST_FILE_ERR_BLOCK_MISSING S1
                      else (case do_post_file_replace (ss_now S1) (fs_of S1 r) (root_id head) canon_path replace_existed
                                   (new_file_dirent S1 r hex file_name user fsize) of
                              (None, F) \<Rightarrow> fails SEAF_ERR_GENERAL (with_fs S1 F)
                            | (Some root, F) \<Rightarrow>
                                (case gen_new_commit (fe_op E) (with_fs S1 F) repo head root user
                                        (path_buf (''Added '' @ quoted file_name)) of
                                   None \<Rightarrow> None
                                 | Some (Inl e, S') \<Rightarrow> fails e S'
                                 | Some (Inr _, S') \<Rightarrow> Some (Inr hex, S'))))))))"


section \<open>Background tasks\<close>

text \<open>
  \<open>IdxProgress\<close>, the parameters of a queued task, and the manager: the progress table, the queue of the thread
  pool, the tokens that \<open>gen_uuid_inplace\<close> will draw and the temporary files that were removed.  How much of a
  file was indexed while it is being read is not modelled; \<open>ip_indexed\<close> counts whole files.
\<close>

record idx_progress =
  ip_indexed :: u64
  ip_total :: u64
  ip_status :: int
  ip_ret_json :: "string option"
  ip_expire_ts :: u64

record idx_para =
  ipa_filenames :: "string list"
  ipa_paths :: "string list"
  ipa_repo :: repo
  ipa_user :: string
  ipa_canon_path :: string
  ipa_replace_existed :: bool
  ipa_crypt :: "seafile_crypt option"
  ipa_ret_json :: bool
  ipa_token :: string

record idx_mgr =
  ix_progress :: "string \<Rightarrow> idx_progress option"
  ix_queue :: "idx_para list"
  ix_uuids :: "string list"
  ix_unlinked :: "string list"

definition IDX_PROGRESS_TTL :: u64 where "IDX_PROGRESS_TTL = 5 * 3600"

definition scan_idx_progress :: "u64 \<Rightarrow> idx_mgr \<Rightarrow> idx_mgr" where
  "scan_idx_progress now M =
     M\<lparr>ix_progress := (\<lambda>t. case ix_progress M t of
         None \<Rightarrow> None
       | Some p \<Rightarrow> if sint now \<ge> sint (ip_expire_ts p) \<and> ip_status p \<noteq> 1 then None else Some p)\<rparr>"

text \<open>The ids and the sizes of the files up to the first that cannot be indexed, and whether there is none such.\<close>

fun index_temp_files ::
    "'c file_env \<Rightarrow> session \<Rightarrow> repo \<Rightarrow> seafile_crypt option \<Rightarrow> string list \<Rightarrow> bool \<times> (string \<times> u64) list \<times> session" where
  "index_temp_files E S r crypt [] = (True, [], S)"
| "index_temp_files E S r crypt (path # paths) =
     (case index_temp_file E S r crypt path of
        (None, S1) \<Rightarrow> (False, [], S1)
      | (Some x, S1) \<Rightarrow>
          (case index_temp_files E S1 r crypt paths of (ok, xs, S2) \<Rightarrow> (ok, x # xs, S2)))"

definition set_progress :: "idx_mgr \<Rightarrow> string \<Rightarrow> (idx_progress \<Rightarrow> idx_progress) \<Rightarrow> idx_mgr" where
  "set_progress M token f = M\<lparr>ix_progress := (ix_progress M)(token := map_option f (ix_progress M token))\<rparr>"

text \<open>The first task of the queue is run by a thread; None when the fuel does not suffice.\<close>

definition start_index_task :: "'c file_env \<Rightarrow> session \<Rightarrow> idx_mgr \<Rightarrow> (session \<times> idx_mgr) option" where
  "start_index_task E S M =
     (case ix_queue M of
        [] \<Rightarrow> Some (S, M)
      | para # queue \<Rightarrow>
          (let token = ipa_token para;
               M' = M\<lparr>ix_queue := queue, ix_unlinked := ix_unlinked M @ ipa_paths para\<rparr>
           in case index_temp_files E S (ipa_repo para) (ipa_crypt para) (ipa_paths para) of
                (False, xs, S1) \<Rightarrow>
                  Some (S1, set_progress M' token (\<lambda>p. p\<lparr>ip_indexed := ip_indexed p + sum_list (map snd xs), ip_status := -1\<rparr>))
              | (True, xs, S1) \<Rightarrow>
                  (case post_files_and_gen_commit (fe_op E) S1 (ipa_filenames para) (ipa_repo para) (ipa_user para)
                          (ipa_replace_existed para) (ipa_canon_path para) (map fst xs) (map snd xs) of
                     None \<Rightarrow> None
                   | Some (res, S2) \<Rightarrow>
                       Some (S2, set_progress M' token (\<lambda>p. p\<lparr>ip_indexed := ip_indexed p + sum_list (map snd xs),
                         ip_status := (case res of Inl _ \<Rightarrow> -1 | Inr _ \<Rightarrow> 0),
                         ip_ret_json := (case res of
                             Inr names \<Rightarrow> if ipa_ret_json para
                               then Some (format_json_ret S2 names (map fst xs) (map snd xs)) else ip_ret_json p
                           | Inl _ \<Rightarrow> ip_ret_json p)\<rparr>)))))"

definition progress_json :: "idx_progress \<Rightarrow> json" where
  "progress_json p =
     JObject
       (let o1 = json_object_set_int_member [] ''indexed'' (sint (ip_indexed p));
            o2 = json_object_set_int_member o1 ''total'' (sint (ip_total p));
            o3 = json_object_set_int_member o2 ''status'' (ip_status p)
        in case ip_ret_json p of None \<Rightarrow> o3 | Some s \<Rightarrow> json_object_set_string_member o3 ''ret_json'' s)"

definition index_blocks_mgr_query_progress :: "'c file_env \<Rightarrow> idx_mgr \<Rightarrow> string \<Rightarrow> (seaf_error + string) \<times> idx_mgr" where
  "index_blocks_mgr_query_progress E M token =
     (case ix_progress M token of
        None \<Rightarrow> (Inl SEAF_ERR_GENERAL, M)
      | Some p \<Rightarrow>
          (Inr (fe_dumps_compact E (progress_json p)),
           if ip_status p \<noteq> 1 then M\<lparr>ix_progress := (ix_progress M)(token := None)\<rparr> else M))"

text \<open>The loop draws tokens until one is free; None when \<open>ix_uuids\<close> has no such.\<close>

fun gen_new_idx_token :: "(string \<Rightarrow> idx_progress option) \<Rightarrow> string list \<Rightarrow> (string \<times> string list) option" where
  "gen_new_idx_token T [] = None"
| "gen_new_idx_token T (uuid # us) =
     (let token = take 36 uuid in if T token \<noteq> None then gen_new_idx_token T us else Some (token, us))"

fun total_file_size :: "'c file_env \<Rightarrow> string list \<Rightarrow> u64 \<Rightarrow> u64 option" where
  "total_file_size E [] total_size = Some total_size"
| "total_file_size E (path # paths) total_size =
     (case fe_stat E path of
        None \<Rightarrow> None
      | Some (mode, sz) \<Rightarrow> if \<not> S_ISREG mode then None else total_file_size E paths (total_size + of_nat sz))"

definition index_blocks_mgr_start_index ::
    "'c file_env \<Rightarrow> session \<Rightarrow> idx_mgr \<Rightarrow> string list \<Rightarrow> string list \<Rightarrow> string \<Rightarrow> string \<Rightarrow> bool \<Rightarrow> bool \<Rightarrow> string
     \<Rightarrow> seafile_crypt option \<Rightarrow> string option \<times> idx_mgr" where
  "index_blocks_mgr_start_index E S M filenames paths repo user replace_existed ret_json canon_path crypt =
     (case seaf_repo_manager_get_repo S repo of
        None \<Rightarrow> (None, M)
      | Some r \<Rightarrow>
          (case gen_new_idx_token (ix_progress M) (ix_uuids M) of
             None \<Rightarrow> (None, M)
           | Some (token, uuids) \<Rightarrow>
               (let M' = M\<lparr>ix_uuids := uuids\<rparr> in
                case total_file_size E paths 0 of
                  None \<Rightarrow> (None, M'\<lparr>ix_unlinked := ix_unlinked M' @ paths\<rparr>)
                | Some total_size \<Rightarrow>
                    (Some token,
                     M'\<lparr>ix_progress := (ix_progress M')(token \<mapsto> \<lparr>ip_indexed = 0, ip_total = total_size, ip_status = 1,
                          ip_ret_json = None, ip_expire_ts = ss_now S + IDX_PROGRESS_TTL\<rparr>),
                        ix_queue := ix_queue M' @ [\<lparr>ipa_filenames = filenames, ipa_paths = paths, ipa_repo = r,
                          ipa_user = user, ipa_canon_path = canon_path, ipa_replace_existed = replace_existed,
                          ipa_crypt = crypt, ipa_ret_json = ret_json, ipa_token = token\<rparr>]\<rparr>))))"

text \<open>
  Several files at once.  With \<open>as_task\<close> (the caller asks for a task id) the files are indexed later and the token
  is returned, else the JSON list of what was added; \<open>ret_json\<close> is whether the caller of a task wants that list.
\<close>

definition seaf_repo_manager_post_multi_files ::
    "'c file_env \<Rightarrow> session \<Rightarrow> idx_mgr \<Rightarrow> string \<Rightarrow> string \<Rightarrow> string \<Rightarrow> string \<Rightarrow> string \<Rightarrow> bool \<Rightarrow> bool \<Rightarrow> bool
     \<Rightarrow> ((seaf_error option + string) \<times> session \<times> idx_mgr) option" where
  "seaf_repo_manager_post_multi_files E S M repo parent_dir filenames_json paths_json user replace_existed ret_json as_task =
     (let bad = (\<lambda>e S. Some (Inl (Some e), S, M)) in
      case seaf_repo_manager_get_repo S repo of
        None \<Rightarrow> bad SEAF_ERR_BAD_ARGS S
      | Some r \<Rightarrow>
          (let canon_path = get_canonical_path parent_dir;
               filenames = json_to_file_list E S filenames_json;
               paths = json_to_file_list E S paths_json
           in if filenames = [] \<or> paths = [] then bad SEAF_ERR_BAD_ARGS S
              else if list_ex (should_ignore_file S) filenames then bad POST_FILE_ERR_FILENAME S
              else if has_double_slash parent_dir then bad SEAF_ERR_BAD_ARGS S
              else (case repo_crypt E r repo user of
                      None \<Rightarrow> bad SEAF_ERR_GENERAL S
                    | Some crypt \<Rightarrow>
                        if as_task then
                          (case index_blocks_mgr_start_index E S M filenames paths repo user replace_existed ret_json
                                  canon_path crypt of
                             (None, M') \<Rightarrow> Some (Inl None, S, M')
                           | (Some token, M') \<Rightarrow> Some (Inr token, S, M'))
                        else
                          (case index_temp_files E S r crypt paths of
                             (False, _, S1) \<Rightarrow> bad SEAF_ERR_GENERAL S1
                           | (True, xs, S1) \<Rightarrow>
                               (case post_files_and_gen_commit (fe_op E) S1 filenames r user replace_existed canon_path
                                       (map fst xs) (map snd xs) of
                                  None \<Rightarrow> None
                                | Some (Inl e, S2) \<Rightarrow> Some (Inl e, S2, M)
                                | Some (Inr names, S2) \<Rightarrow>
                                    Some (Inr (format_json_ret S2 names (map fst xs) (map snd xs)), S2, M))))))"

section \<open>A task's progress stays until the task is done\<close>

text \<open>Every queued task has a progress of its own with status 1, and no other progress has that status.\<close>

definition idx_mgr_ok :: "idx_mgr \<Rightarrow> bool" where
  "idx_mgr_ok M \<longleftrightarrow> distinct (map ipa_token (ix_queue M)) \<and>
     (\<forall>t. (\<exists>p. ix_progress M t = Some p \<and> ip_status p = 1) \<longleftrightarrow> t \<in> ipa_token ` set (ix_queue M))"

inductive idx_step :: "'c file_env \<Rightarrow> idx_mgr \<Rightarrow> idx_mgr \<Rightarrow> bool" for E where
  start: "index_blocks_mgr_start_index E S M fs ps repo u rep rj path crypt = (res, M') \<Longrightarrow> idx_step E M M'"
| run: "start_index_task E S M = Some (S', M') \<Longrightarrow> idx_step E M M'"
| query: "index_blocks_mgr_query_progress E M t = (res, M') \<Longrightarrow> idx_step E M M'"
| scan: "idx_step E M (scan_idx_progress now M)"

lemma gen_new_idx_token_free: "gen_new_idx_token T us = Some (t, us') \<Longrightarrow> T t = None"
  by (induction us) (auto simp: Let_def split: if_splits)

lemma set_progress_simps [simp]:
  "ix_queue (set_progress M t f) = ix_queue M"
  "ix_progress (set_progress M t f) t' = (if t' = t then map_option f (ix_progress M t) else ix_progress M t')"
  by (simp_all add: set_progress_def)

lemma start_index_task_progress:
  assumes "ix_queue M = para # queue" "start_index_task E S M = Some (S', M')"
  shows "ix_queue M' = queue \<and> (\<forall>t. t \<noteq> ipa_token para \<longrightarrow> ix_progress M' t = ix_progress M t) \<and>
    (\<forall>p. ix_progress M' (ipa_token para) = Some p \<longrightarrow> ip_status p \<noteq> 1)"
proof -
  obtain ok xs S1 where i: "index_temp_files E S (ipa_repo para) (ipa_crypt para) (ipa_paths para) = (ok, xs, S1)"
    by (cases "index_temp_files E S (ipa_repo para) (ipa_crypt para) (ipa_paths para)")
  show ?thesis
    using assms by (cases ok) (auto simp: start_index_task_def Let_def i split: option.splits sum.splits)
qed

lemma idx_ok_drop:
  assumes "idx_mgr_ok M" "ix_queue M' = ix_queue M"
    and "\<And>t. ix_progress M' t = ix_progress M t \<or>
      ix_progress M' t = None \<and> (\<forall>p. ix_progress M t = Some p \<longrightarrow> ip_status p \<noteq> 1)"
  shows "idx_mgr_ok M'"
proof -
  have "(\<exists>p. ix_progress M' t = Some p \<and> ip_status p = 1) \<longleftrightarrow> (\<exists>p. ix_progress M t = Some p \<and> ip_status p = 1)" for t
    using assms(3) [of t] by (elim disjE conjE) simp_all
  then show ?thesis using assms(1,2) by (simp add: idx_mgr_ok_def)
qed

lemma idx_step_ok:
  assumes "idx_step E M M'" "idx_mgr_ok M"
  shows "idx_mgr_ok M'"
  using assms
proof (induction rule: idx_step.induct)
  case (start S M fs ps repo u rep rj path crypt res M')
  show ?case
  proof (cases res)
    case None
    with start(1) have "ix_progress M' = ix_progress M \<and> ix_queue M' = ix_queue M"
      by (auto simp: index_blocks_mgr_start_index_def Let_def split: option.splits prod.splits)
    with start(2) show ?thesis by (simp add: idx_mgr_ok_def)
  next
    case (Some t)
    then obtain r us tot where "gen_new_idx_token (ix_progress M) (ix_uuids M) = Some (t, us)"
      and M': "ix_progress M' = (ix_progress M)(t \<mapsto> \<lparr>ip_indexed = 0, ip_total = tot, ip_status = 1,
          ip_ret_json = None, ip_expire_ts = ss_now S + IDX_PROGRESS_TTL\<rparr>)"
        "\<exists>para. ix_queue M' = ix_queue M @ [para] \<and> ipa_token para = t"
      using start(1) by (auto simp: index_blocks_mgr_start_index_def Let_def split: option.splits prod.splits)
    then have "ix_progress M t = None" by (simp add: gen_new_idx_token_free)
    from M'(2) obtain para where q: "ix_queue M' = ix_queue M @ [para]" "ipa_token para = t" by blast
    have "t \<notin> ipa_token ` set (ix_queue M)"
      using start(2) \<open>ix_progress M t = None\<close> unfolding idx_mgr_ok_def by force
    then show ?thesis using start(2) by (auto simp: idx_mgr_ok_def M'(1) q)
  qed
next
  case (run S M S' M')
  then show ?case
  proof (cases "ix_queue M")
    case (Cons para queue)
    note p = start_index_task_progress [OF this run(1)]
    have d: "ipa_token para \<notin> ipa_token ` set queue" "distinct (map ipa_token queue)"
      and old: "\<And>t. (\<exists>p. ix_progress M t = Some p \<and> ip_status p = 1) \<longleftrightarrow> t = ipa_token para \<or> t \<in> ipa_token ` set queue"
      using run(2) by (simp_all add: idx_mgr_ok_def Cons)
    have "(\<exists>p. ix_progress M' t = Some p \<and> ip_status p = 1) \<longleftrightarrow> t \<in> ipa_token ` set queue" for t
    proof (cases "t = ipa_token para")
      case True
      moreover have "\<not> (\<exists>p. ix_progress M' (ipa_token para) = Some p \<and> ip_status p = 1)" using p by simp
      ultimately show ?thesis using d(1) by simp
    next
      case False
      then show ?thesis using p old [of t] by simp
    qed
    then show ?thesis using p d(2) by (simp add: idx_mgr_ok_def)
  qed (simp add: start_index_task_def)
next
  case (query M t res M')
  then show ?case
    by (elim idx_ok_drop) (auto simp: index_blocks_mgr_query_progress_def split: option.splits if_splits)
next
  case (scan M now)
  then show ?case
    by (elim idx_ok_drop) (auto simp: scan_idx_progress_def split: option.splits)
qed

text \<open>C40: from an empty manager on, whatever tasks are started and run, progress is asked for and old progress is
  scanned for, every queued task has a progress of its own with the running status, and no other progress has it: no
  progress is lost before its task is done, and none stays running after it.\<close>

theorem idx_progress_kept:
  assumes "(idx_step E)\<^sup>*\<^sup>* M0 M" "ix_queue M0 = []" "ix_progress M0 = Map.empty"
  shows "distinct (map ipa_token (ix_queue M)) \<and>
    (\<forall>t. (\<exists>p. ix_progress M t = Some p \<and> ip_status p = 1) \<longleftrightarrow> t \<in> ipa_token ` set (ix_queue M))"
proof -
  have "idx_mgr_ok M0" using assms(2,3) by (simp add: idx_mgr_ok_def)
  with assms(1) have "idx_mgr_ok M" by (induction rule: rtranclp_induct) (auto intro: idx_step_ok)
  then show ?thesis by (simp add: idx_mgr_ok_def)
qed

section \<open>An environment\<close>

definition demo_file_env :: "(evp_cipher \<times> bytes) file_env" where
  "demo_file_env =
     \<lparr>fe_op = RepoCommit.demo_env,
      fe_index = \<lparr>ie_libs = pair_libs [] [], ie_rabin = rabin_init 48, ie_fixed_block_size = 1, ie_schedule = rev\<rparr>,
      fe_stat = [''/tmp/x'' \<mapsto> (S_IFREG, 1)], fe_read = [''/tmp/x'' \<mapsto> ''x''], fe_readable = (\<lambda>p. p = ''/tmp/x''),
      fe_passwds = Map.empty, fe_ssl = toy_ssl, fe_quota = demo_quota, fe_normalize = Some, fe_build_filename = (@),
      fe_dumps_compact = (\<lambda>_. [])\<rparr>"

text \<open>One task is started, and the old progress is scanned for ten years later.\<close>

definition demo_idx_mgr :: idx_mgr where
  "demo_idx_mgr = \<lparr>ix_progress = Map.empty, ix_queue = [], ix_uuids = [replicate 36 (CHR ''u'')], ix_unlinked = []\<rparr>"

theorem idx_progress_kept_witness:
  "\<exists>M p. (idx_step demo_file_env)\<^sup>*\<^sup>* demo_idx_mgr M \<and> map ipa_token (ix_queue M) = [replicate 36 (CHR ''u'')] \<and>
     ix_progress M (replicate 36 (CHR ''u'')) = Some p \<and> ip_status p = 1"
proof -
  let ?S = "demo_session [demo_f] [demo_g]"
  obtain M1 where M1: "index_blocks_mgr_start_index demo_file_env ?S demo_idx_mgr [''x''] [''/tmp/x''] demo_rid ''u'' False
      False [] None = (Some (replicate 36 (CHR ''u'')), M1)" "map ipa_token (ix_queue M1) = [replicate 36 (CHR ''u'')]"
    using demo_rp_get [of "[demo_f]" "[demo_g]"]
    by (simp add: index_blocks_mgr_start_index_def demo_idx_mgr_def demo_file_env_def S_ISREG_def S_IFMT_def S_IFREG_def)
  let ?M = "scan_idx_progress 315360000 M1"
  have r: "(idx_step demo_file_env)\<^sup>*\<^sup>* demo_idx_mgr ?M"
    using idx_step.start [OF M1(1)] idx_step.scan by (rule converse_rtranclp_into_rtranclp [OF _ r_into_rtranclp])
  have q: "map ipa_token (ix_queue ?M) = [replicate 36 (CHR ''u'')]" using M1(2) by (simp add: scan_idx_progress_def)
  then have "replicate 36 (CHR ''u'') \<in> ipa_token ` set (ix_queue ?M)"
    by (metis image_set list.set_intros(1))
  moreover have "ix_queue demo_idx_mgr = []" "ix_progress demo_idx_mgr = Map.empty" by (simp_all add: demo_idx_mgr_def)
  ultimately obtain p where "ix_progress ?M (replicate 36 (CHR ''u'')) = Some p" "ip_status p = 1"
    using idx_progress_kept [OF r] by blast
  then show ?thesis using r q by (intro exI [of _ ?M] exI [of _ p] conjI) simp_all
qed

end
