(* ===== verification/Upload.thy ===== *)
theory Upload
  imports RepoFiles
begin

text \<open>
  What an upload promises, over all the parts it goes through: after \<open>seaf_repo_manager_post_file\<close>
  (\<open>server/repo-op.c\<close>) the head commit's tree has the file, its object lists blocks that are in the block store,
  and reading and deciphering them gives the bytes that were uploaded.
\<close>

section \<open>A session with other stores\<close>

definition with_stores :: "session \<Rightarrow> obj_store \<Rightarrow> block_store \<Rightarrow> session" where
  "with_stores S fs bs = S\<lparr>ss_fs := fs, ss_blocks := bs\<rparr>"

lemma with_stores_simps [simp]:
  "ss_libs (with_stores S fs bs) = ss_libs S" "ss_branches (with_stores S fs bs) = ss_branches S"
  "ss_commits (with_stores S fs bs) = ss_commits S" "ss_fs (with_stores S fs bs) = fs"
  "ss_blocks (with_stores S fs bs) = bs" "ss_now (with_stores S fs bs) = ss_now S"
  "fs_of (with_stores S fs bs) r = (fs_of S r)\<lparr>fv_store := fs\<rparr>"
  by (simp_all add: with_stores_def fs_of_def)

lemma with_stores_reads:
  "commits_of (with_stores S fs bs) = commits_of S"
  "seaf_repo_manager_get_repo (with_stores S fs bs) = seaf_repo_manager_get_repo S"
proof -
  let ?T = "with_stores S fs bs"
  show c: "commits_of ?T = commits_of S" by (simp add: fun_eq_iff commits_of_def with_stores_def)
  have l: "load_repo ?T = load_repo S" by (simp add: fun_eq_iff load_repo_def c)
  have g: "get_repo_from_db ?T = get_repo_from_db S"
    by (simp add: fun_eq_iff get_repo_from_db_def with_stores_def cong: option.case_cong)
  show "seaf_repo_manager_get_repo ?T = seaf_repo_manager_get_repo S"
    unfolding fun_eq_iff seaf_repo_manager_get_repo_def l g by simp
qed

lemma calm_with_stores: "calm E S repo r head \<Longrightarrow> calm E (with_stores S fs bs) repo r head"
  by (simp add: calm_def get_head_commit_def with_stores_reads)

lemma changed_only_before:
  assumes "fs_extends F F1" "get_dir F root \<noteq> None" "changed_only touch comps F1 root F' root'"
  shows "changed_only touch comps F root F' root'"
proof -
  obtain d d' where "get_dir F1 root = Some d" "get_dir F' root' = Some d'" "same_elsewhere touch comps F1 d F' d'"
    "fs_extends F1 F'" "tree_ok F'" "is_object_id_valid root'"
    using assms(3) by (auto simp: changed_only_def)
  moreover from this have "get_dir F root = Some d" using assms(1,2) get_dir_extends by fastforce
  moreover have "same_elsewhere touch comps F d F' d'"
    using calculation(3) lookup_extends [OF assms(1)] unfolding same_elsewhere_def by blast
  ultimately show ?thesis using fs_extends_trans [OF assms(1)] by (auto simp: changed_only_def)
qed

lemma tree_ok_before: "fs_extends F F' \<Longrightarrow> tree_ok F' \<Longrightarrow> tree_ok F"
  unfolding tree_ok_def using get_dir_extends by blast

lemma get_seafile_kept:
  assumes "seaf_fs_manager_get_seafile L fs repo v i = Some f"
    and "\<And>x. seaf_obj_store_read_obj L fs repo i = Some x \<Longrightarrow> seaf_obj_store_read_obj L fs' repo i = Some x"
  shows "seaf_fs_manager_get_seafile L fs' repo v i = Some f"
  using assms by (auto simp: seaf_fs_manager_get_seafile_def split: if_splits option.splits)

section \<open>What is uploaded is what is read\<close>

text \<open>
  A temporary file of the given content, the cipher of its library, and an object \<open>cdc\<close> that describes its
  blocks: the foreign functions work on them as documented, and their hashes do not collide.
\<close>

definition upload_ok ::
    "'c file_env \<Rightarrow> session \<Rightarrow> repo \<Rightarrow> string \<Rightarrow> bytes \<Rightarrow> seafile_crypt option \<Rightarrow> cdc_file \<Rightarrow> block_store \<Rightarrow> bool" where
  "upload_ok E S r temp_file_path content crypt cdc bs \<longleftrightarrow>
     (\<exists>mode. fe_stat E temp_file_path = Some (mode, length content)) \<and> fe_read E temp_file_path = Some content \<and>
     content \<noteq> [] \<and> length content < 2 ^ 64 \<and>
     env_ok (session_index E S) \<and> openssl_ok (fe_ssl E) \<and> (\<forall>i. bk_open_ok bs i \<and> bk_read_ok bs i) \<and>
     no_collision (ss_libs S) (rp_store_id r) crypt bs content \<and>
     (\<exists>ret bs1. chunk_file (session_index E S) (rp_store_id r) (rp_version r) (Some content) (length content) crypt True False
        (ss_blocks S) = (ret, cdc, bs1)) \<and>
     (let data = lib_json_dumps (ss_libs S) (seafile_doc (rp_version r) cdc) in
      doc_roundtrips (ss_libs S) (seafile_doc (rp_version r) cdc) \<and> sha1_hex (ss_libs S) data \<noteq> EMPTY_SHA1 \<and>
      seaf_obj_store_read_obj (ss_libs S) (ss_fs S) (rp_store_id r) (sha1_hex (ss_libs S) data)
        \<in> {None, lib_compress (ss_libs S) data})"

text \<open>The bytes of a file object, from the block store of a library.\<close>

definition file_content :: "session \<Rightarrow> repo \<Rightarrow> seafile_crypt option \<Rightarrow> string \<Rightarrow> bytes option" where
  "file_content S r crypt i =
     (case seaf_fs_manager_get_seafile (ss_libs S) (ss_fs S) (rp_store_id r) (rp_version r) i of
        None \<Rightarrow> None
      | Some f \<Rightarrow> checkout_blocks (ss_libs S) (rp_store_id r) (ss_blocks S) (blk_sha1s f) crypt [])"

lemma repo_crypt_ok: "repo_crypt E r repo user = Some crypt \<Longrightarrow> openssl_ok (fe_ssl E) \<Longrightarrow> crypt_ok crypt"
  using file_crypt_ok by (auto simp: repo_crypt_def crypt_ok_def split: if_splits prod.splits)

lemma indexed_temp_file:
  assumes ok: "upload_ok E S r path content crypt cdc (ss_blocks S1)" and v: "0 < rp_version r" and c: "crypt_ok crypt"
    and run: "index_temp_file E S r crypt path = (Some (hex, sz), S1)"
  shows "S1 = with_stores S (ss_fs S1) (ss_blocks S1) \<and> fs_extends (fs_of S r) (fs_of S1 r) \<and> sz = of_nat (length content) \<and>
    is_object_id_valid hex \<and> file_content S1 r crypt hex = Some content"
proof -
  let ?L = "ss_libs S" and ?q = "rp_store_id r" and ?v = "rp_version r"
  obtain mode where st: "fe_stat E path = Some (mode, length content)" "fe_read E path = Some content" "content \<noteq> []"
    "length content < 2 ^ 64" using ok by (auto simp: upload_ok_def)
  obtain ret bs1 where ch: "chunk_file (session_index E S) ?q ?v (Some content) (length content) crypt True False
      (ss_blocks S) = (ret, cdc, bs1)" using ok by (auto simp: upload_ok_def)
  have libs: "ie_libs (session_index E S) = ?L" by (simp add: session_index_def)
  have env: "env_ok (session_index E S)" "\<And>i. bk_open_ok (ss_blocks S1) i \<and> bk_read_ok (ss_blocks S1) i"
    "no_collision ?L ?q crypt (ss_blocks S1) content" using ok by (auto simp: upload_ok_def)
  obtain r0 sha1 n fs bs where i: "seaf_fs_manager_index_blocks (session_index E S) ?q ?v (Some (mode, length content))
      (Some content) crypt True False (ss_fs S, ss_blocks S) = (r0, sha1, n, fs, bs)" by (metis prod_cases5)
  have s: "\<not> r0 < 0" "S1 = with_stores S fs bs" "\<exists>x. sha1 = Some x \<and> hex = rawdata_to_hex x" "sz = of_nat n"
    using run i st by (auto simp: index_temp_file_def Let_def with_stores_def split: if_splits option.splits)
  have "r0 = 0" using i s(1) st(3)
    by (auto simp: seaf_fs_manager_index_blocks_def split: if_splits prod.splits)
  with i have i0: "seaf_fs_manager_index_blocks (session_index E S) ?q ?v (Some (mode, length content))
      (Some content) crypt True False (ss_fs S, ss_blocks S) = (0, sha1, n, fs, bs)" by simp
  have bs: "ss_blocks S1 = bs" "ss_fs S1 = fs" using s(2) by simp_all
  note x = indexed_content [OF i0 ch st(3,4) env(1) c env(2) [unfolded bs] env(3) [unfolded bs, folded libs], unfolded libs]
  let ?data = "lib_json_dumps ?L (seafile_doc ?v cdc)"
  have d: "doc_roundtrips ?L (seafile_doc ?v cdc)" "sha1_hex ?L ?data \<noteq> EMPTY_SHA1" "length (lib_sha1 ?L ?data) = 20"
    "seaf_obj_store_read_obj ?L (ss_fs S) ?q (sha1_hex ?L ?data) \<in> {None, lib_compress ?L ?data}"
    using ok env(1) libs by (auto simp: upload_ok_def Let_def env_ok_def)
  have w: "write_seafile ?L (ss_fs S) ?q ?v cdc = (0, sha1, fs)" using x by blast
  from write_seafile_loads [OF w v _ _ d(1) refl d(3,2,4)] x
  have l: "sha1 = Some (lib_sha1 ?L ?data)"
    "seaf_fs_manager_get_seafile ?L fs ?q ?v (sha1_hex ?L ?data) = Some (described_file ?v (sha1_hex ?L ?data) cdc)" by blast+
  then have hex: "hex = sha1_hex ?L ?data" using s(3) by (simp add: sha1_hex_def)
  have "fs_extends (fs_of S r) (fs_of S1 r)"
    using write_seafile_keeps [OF w] by (simp add: fs_extends_def s(2))
  moreover have "is_object_id_valid hex" using d(3) by (simp add: hex sha1_hex_def rawdata_to_hex_valid)
  moreover have "file_content S1 r crypt hex = Some content"
    using l(2) x by (simp add: file_content_def hex bs s(2))
  ultimately show ?thesis using s(2,4) x bs by simp
qed

lemma index_temp_file_stores:
  assumes "index_temp_file E S r crypt path = (res, S1)"
  shows "S1 = with_stores S (ss_fs S1) (ss_blocks S1)"
  using assms by (auto simp: index_temp_file_def Let_def with_stores_def split: prod.splits if_splits option.splits)

lemma commit_root_calm:
  assumes "calm E S repo r head" "commit_root E S repo head err (ret, F) user d = Some (Inr (), S')"
  shows "ss_blocks S' = ss_blocks S \<and> ss_fs S' = fv_store F \<and> ss_libs S' = ss_libs S"
  using gen_new_commit_calm [OF calm_with_fs [OF assms(1)], of F "the ret" user d] assms(2)
  by (auto simp: commit_root_def fails_def with_event_def split: option.splits)

lemma do_post_file_extends: "do_post_file now F root path nd = (ret, F') \<Longrightarrow> fs_extends F F'"
  using update_recursive_extends
  by (auto simp: do_post_file_def do_post_file_replace_def post_file_recursive_def split: prod.splits)

lemma by_path_extends:
  assumes "fs_extends F F'" "seaf_fs_manager_get_seafdir_by_path F root p = Inr t"
  shows "seaf_fs_manager_get_seafdir_by_path F' root p = Inr t"
  using assms lookup_extends get_dir_extends [OF assms(1)]
  by (auto simp: seaf_fs_manager_get_seafdir_by_path_def split: option.splits)


section \<open>A library that gets a file\<close>

text \<open>The file \<open>n\<close> with one byte is uploaded to a library with the file \<open>f.txt\<close> and no blocks.\<close>

definition demo_n :: dirent where
  "demo_n = \<lparr>d_version = 1, d_mode = STD_FILE_MODE, d_id = pair_id (CHR ''d''), d_name = ''n'', d_mtime = 9,
     d_modifier = Some ''u'', d_size = 1\<rparr>"

abbreviation up_libs :: libs where "up_libs \<equiv> pair_libs [demo_f] [demo_n, demo_f]"
abbreviation up_view :: "(string \<Rightarrow> bytes option) \<Rightarrow> fs_view" where "up_view \<equiv> pair_view [demo_f] [demo_n, demo_f]"

definition up_session :: session where
  "up_session = with_stores (demo_session [demo_f] [demo_n, demo_f]) (demo_store\<lparr>files := pair_one\<rparr>) no_blocks"

definition up_files :: "string \<Rightarrow> bytes option" where
  "up_files = pair_one(pair_path (CHR ''d'') \<mapsto> ''3'')"

definition up_blocks :: block_store where
  "up_blocks = no_blocks\<lparr>bk_files := [get_block_path no_blocks (pair_id (CHR ''c'')) demo_rid \<mapsto> ''x'']\<rparr>"

definition up_cdc :: cdc_file where
  "up_cdc = create_cdc_for_empty_file\<lparr>cf_file_size := 1, cf_block_nr := 1, cf_blk_sha1s := [replicate 20 (CHR ''c'')]\<rparr>"

lemma demo_n_ok: "dirent_json_ok 1 demo_n" "d_name demo_n = ''n''" "d_version demo_n = 1"
  by (simp_all add: demo_n_def dirent_json_ok_def STD_FILE_MODE_def S_ISREG_def S_IFMT_def S_IFREG_def)

lemma up_pair: "pair_ok [demo_f] [demo_n, demo_f]"
proof -
  have ok: "entries_ok [demo_f]" "entries_ok [demo_n, demo_f]"
    by (simp_all add: entries_ok_def demo_n_ok)
  then show ?thesis using dir_doc_inj [OF ok] by (auto simp: pair_ok_def)
qed

lemma up_files_ok: "pair_files up_files" "up_files (pair_path (CHR ''b'')) = None" "pair_files (up_files(pair_path (CHR ''b'') \<mapsto> ''2''))"
  by (simp_all add: up_files_def pair_files_def pair_one_def)

lemma up_simps:
  "ss_libs up_session = up_libs" "ss_now up_session = 9" "ss_blocks up_session = no_blocks"
  "ss_fs up_session = demo_store\<lparr>files := pair_one\<rparr>" "fs_of up_session demo_rp = up_view pair_one"
  by (simp_all add: up_session_def demo_session_def fs_of_def pair_view_def with_stores_def)

lemma up_calm: "calm RepoCommit.demo_env up_session demo_rid demo_rp demo_head"
  unfolding up_session_def by (rule calm_with_stores [OF demo_calm])

lemma up_sha1: "lib_sha1 up_libs ''x'' = replicate 20 (CHR ''c'')" "lib_sha1 up_libs [] = replicate 20 (CHR ''e'')"
  "lib_sha1 up_libs ''3'' = replicate 20 (CHR ''d'')"
  by (simp_all add: pair_libs_def)

lemma up_doc: "seafile_doc 1 up_cdc = demo_file_doc" "lib_json_dumps up_libs demo_file_doc = ''3''"
proof -
  have "seafile_doc 1 up_cdc = seafile_to_json (described_file 1 [] up_cdc)"
    by (rule seafile_doc_described) (simp_all add: up_cdc_def)
  then show "seafile_doc 1 up_cdc = demo_file_doc"
    by (simp add: demo_file_doc_def described_file_def up_cdc_def create_cdc_for_empty_file_def pair_id_def
        seafile_version_from_repo_version_def)
  show "lib_json_dumps up_libs demo_file_doc = ''3''" by (simp add: pair_libs_def)
qed

lemma up_chunk:
  "chunk_file (session_index demo_file_env up_session) demo_rid 1 (Some ''x'') 1 None True False no_blocks = (0, up_cdc, up_blocks)"
proof -
  have "chunk_tasks 1 0 1 = [(\<lparr>cd_offset = 0, cd_buf = []\<rparr>, 1)]" by (simp add: chunk_tasks.simps)
  moreover have "seafile_write_chunk up_libs demo_rid None True \<lparr>cd_offset = 0, cd_buf = ''x''\<rparr> no_blocks
      = (0, replicate 20 (CHR ''c''), up_blocks)"
    by (simp add: seafile_write_chunk_def do_write_chunk_def Let_def up_sha1 write_block_def block_manager_defs
        up_blocks_def no_blocks_def demo_blocks_def flip: pair_id_def)
  ultimately show ?thesis
    by (simp add: chunk_file_def split_file_to_block_def session_index_def demo_file_env_def up_simps chunking_worker_def up_cdc_def)
qed

lemma up_write:
  "write_seafile up_libs (demo_store\<lparr>files := pair_one\<rparr>) demo_rid 1 up_cdc
     = (0, Some (replicate 20 (CHR ''d'')), demo_store\<lparr>files := up_files\<rparr>)"
proof -
  have "hex_to_rawdata 20 (pair_id (CHR ''d'')) = Some (replicate 20 (CHR ''d''))"
    using hex_to_rawdata_append [of "replicate 20 (CHR ''d'')" "[]"] by (simp add: pair_id_def)
  moreover have "lib_compress up_libs x = Some x" for x by (simp add: pair_libs_def)
  ultimately show ?thesis
    by (simp add: write_seafile_def create_seafile_json_def Let_def up_doc sha1_hex_def up_sha1 obj_store_defs
        pair_path_def [symmetric] up_files_def demo_store_def flip: pair_id_def)
      (simp add: pair_one_def)
qed

lemma up_index:
  "index_temp_file demo_file_env up_session demo_rp None ''/tmp/x''
     = (Some (pair_id (CHR ''d''), 1), with_stores up_session (demo_store\<lparr>files := up_files\<rparr>) up_blocks)"
  using up_chunk up_write
  by (simp add: index_temp_file_def seaf_fs_manager_index_blocks_def up_simps)
    (simp add: session_index_def demo_file_env_def up_simps with_stores_def pair_id_def S_ISREG_def S_IFMT_def S_IFREG_def)

lemma up_read_block:
  assumes "read_block up_libs up_blocks demo_rid i = Some d"
  shows "d = ''x'' \<and> i = pair_id (CHR ''c'')"
proof -
  have "get_block_path up_blocks i demo_rid = get_block_path no_blocks i demo_rid" for i
    by (simp add: get_block_path_def up_blocks_def)
  then show ?thesis
    using assms block_path_eq [of i "pair_id (CHR ''c'')" no_blocks demo_rid demo_rid]
    by (auto simp: read_block_def up_blocks_def no_blocks_def split: if_splits)
qed

lemma up_no_collision: "no_collision up_libs demo_rid None up_blocks ''x''"
  unfolding no_collision_def
proof (intro allI impI)
  fix x y d :: string
  assume x: "sublist x ''x''" and y: "enc None x = Some y" and d: "read_block up_libs up_blocks demo_rid (sha1_hex up_libs y) = Some d"
  have "sha1_hex up_libs y = pair_id (CHR ''c'')" "d = ''x''" using up_read_block [OF d] by simp_all
  moreover have "sha1_hex up_libs [] = pair_id (CHR ''e'')" by (simp add: sha1_hex_def up_sha1 pair_id_def)
  ultimately have "x \<noteq> []" using y by (auto simp: enc_def)
  then have "x = ''x''" using x by (auto simp: sublist_Cons_right prefix_Cons)
  then show "d = y" using y \<open>d = ''x''\<close> by (simp add: enc_def)
qed

lemma up_ok: "upload_ok demo_file_env up_session demo_rp ''/tmp/x'' ''x'' None up_cdc up_blocks"
proof -
  have L: "ie_libs (session_index demo_file_env up_session) = up_libs" by (simp add: session_index_def up_simps)
  have "env_ok (session_index demo_file_env up_session)"
    using pair_sha1_ok by (simp add: env_ok_def L sha1_ok_def)
      (simp add: session_index_def demo_file_env_def ENCRYPT_BLK_SIZE_def)
  moreover have "doc_roundtrips up_libs demo_file_doc"
    by (simp add: doc_roundtrips_def up_doc) (simp add: pair_libs_def)
  moreover have "sha1_hex up_libs ''3'' = pair_id (CHR ''d'')" by (simp add: sha1_hex_def up_sha1 pair_id_def)
  moreover have "seaf_obj_store_read_obj up_libs (demo_store\<lparr>files := pair_one\<rparr>) demo_rid (pair_id (CHR ''d'')) = None"
    by (simp add: pair_path_def [symmetric] pair_one_def)
  moreover have "\<forall>i. bk_open_ok up_blocks i \<and> bk_read_ok up_blocks i"
    by (simp add: up_blocks_def no_blocks_def demo_blocks_def)
  moreover have "fe_stat demo_file_env ''/tmp/x'' = Some (S_IFREG, 1)" "fe_read demo_file_env ''/tmp/x'' = Some ''x''"
    "openssl_ok (fe_ssl demo_file_env)" using toy_ssl_ok by (simp_all add: demo_file_env_def)
  ultimately show ?thesis
    using up_chunk up_no_collision by (simp add: upload_ok_def up_simps up_doc)
qed

lemma demo_file_no_dir: "seaf_dir_from_json_object i (json_sort_keys demo_file_doc) = None"
proof -
  obtain kvs where kvs: "demo_file_doc = JObject kvs" "distinct (map fst kvs)"
    "map_of kvs ''type'' = Some (JInteger SEAF_METADATA_TYPE_FILE)"
    by (simp add: demo_file_doc_def seafile_to_json_def json_object_set_int_member_def)
  have "json_object_get (json_sort_keys demo_file_doc) ''type'' = Some (JInteger SEAF_METADATA_TYPE_FILE)"
    unfolding kvs(1) by (subst json_object_get_sorted [OF kvs(2)]) (simp add: kvs(3) json_object_get_JObject)
  then show ?thesis
    by (simp add: seaf_dir_from_json_object_def json_object_get_int_member_def json_integer_value_def Let_def
        SEAF_METADATA_TYPE_DIR_def SEAF_METADATA_TYPE_FILE_def)
qed

lemma up_tree_ok: "tree_ok (up_view (up_files(pair_path (CHR ''b'') \<mapsto> ''2'')))"
  unfolding tree_ok_def
proof (intro allI impI)
  let ?F = "up_view (up_files(pair_path (CHR ''b'') \<mapsto> ''2''))"
  fix i d assume d: "get_dir ?F i = Some d"
  have ok: "entries_ok [demo_f]" "entries_ok [demo_n, demo_f]" using up_pair by (simp_all add: pair_ok_def)
  show "entries_ok (entries d)"
  proof (cases "take 40 i = EMPTY_SHA1")
    case True
    then show ?thesis using d by (auto simp: seaf_fs_manager_get_seafdir_def entries_ok_def)
  next
    case False
    then have "i \<in> {pair_id (CHR ''a''), pair_id (CHR ''b''), pair_id (CHR ''d'')}"
      using d by (auto simp: seaf_fs_manager_get_seafdir_def pair_view_def up_files_def pair_one_def pair_path_eq
          split: option.splits if_splits)
    then consider "i = pair_id (CHR ''a'')" | "i = pair_id (CHR ''b'')" | "i = pair_id (CHR ''d'')" by blast
    then show ?thesis
    proof cases
      case 1
      then show ?thesis using d ok pair_get [OF ok(1) up_files_ok(3)] by auto
    next
      case 2
      then show ?thesis
        using d ok dir_doc_read [OF ok(2) refl]
        by (auto simp add: seaf_fs_manager_get_seafdir_def pair_view_def pair_path_def [symmetric] seaf_dir_from_data_def
            seaf_dir_from_json_def)
    next
      case 3
      have "(up_files(pair_path (CHR ''b'') \<mapsto> ''2'')) (pair_path (CHR ''d'')) = Some ''3''" by (simp add: up_files_def)
      then show ?thesis
        using d 3 demo_file_no_dir
        by (simp add: seaf_fs_manager_get_seafdir_def pair_view_def pair_path_def [symmetric] seaf_dir_from_data_def
            seaf_dir_from_json_def)
    qed
  qed
qed

lemma up_post:
  "do_post_file 9 (up_view up_files) (pair_id (CHR ''a'')) [] demo_n
     = (Some (pair_id (CHR ''b'')), up_view (up_files(pair_path (CHR ''b'') \<mapsto> ''2'')))"
proof -
  have fresh: "''n'' \<notin> d_name ` set [demo_f]" by (simp add: demo_names)
  have self: "seaf_dirent_new 1 (d_id demo_n) (d_mode demo_n) ''n'' (d_mtime demo_n) (d_modifier demo_n) (d_size demo_n) = demo_n"
    by (simp add: demo_n_def seaf_dirent_new_def STD_FILE_MODE_def S_ISREG_def S_IFMT_def S_IFREG_def is_object_id_valid_def)
  have "post_edit False demo_n [demo_f] () = (Some [demo_n, demo_f], ())"
    using self by (simp add: post_edit_def demo_n_ok unique_name_kept [OF fresh, simplified] compare_dirents_def strcmp_def demo_names)
  then show ?thesis
    using pair_update_in [OF up_pair up_files_ok(1,2), of "post_edit False demo_n" "()" "()" "\<lambda>_. False"]
    by (simp add: do_post_file_def do_post_file_replace_def post_file_recursive_def skip_slash_def char_at_def)
qed


end
