(* ===== verification/Spec2Isabelle.thy ===== *)
theory Spec2Isabelle
  imports RepoCommit FileIndex Gc WebToken FsckExport SizeSched Upload
begin

text \<open>
  \<^bold>\<open>A verification library for the Seafile server.\<close>

  Seafile keeps libraries (repositories) of files.  A file is cut into blocks, a directory is a list of
  entries, and both are objects stored under the hash of their content; a commit names the root
  directory of a version of a library and its parent commits, and a row of the table Branch names the
  head commit.  The server changes a library by building the new directories from the changed one up
  to the root, committing the root, merging it with what others committed meanwhile, and moving the
  head by compare-and-set.  This library models those parts in the order in which they rest on each
  other.

  \<^bold>\<open>Theories and sources.\<close>
  \<^item> \<open>Prelude\<close>: machine words, bytes, C strings, the GLib lists; \<open>Utils\<close>: \<open>lib/utils.c\<close> (hex text, ids,
    paths, JSON accessors).  \<open>libs\<close> in \<open>Utils\<close> holds the foreign functions: SHA-1, jansson, zlib, libuuid.
  \<^item> \<open>ObjStore\<close>: \<open>common/obj-store.c\<close>, \<open>common/obj-backend-fs.c\<close>; \<open>BlockMgr\<close>: \<open>common/block-mgr.c\<close>,
    \<open>common/block-backend-fs.c\<close>.  A store is a map from paths to bytes; which writes succeed is a
    parameter, so failures are part of every statement.
  \<^item> \<open>FsObject\<close>, \<open>FsTree\<close>: \<open>common/fs-mgr.c\<close>, the objects with both encodings, and everything that walks
    trees; \<open>FileIndex\<close>: the same file's indexing of files into blocks, over \<open>Cdc\<close> (\<open>common/cdc\<close>), and
    reading them back.
  \<^item> \<open>CommitMgr\<close>: \<open>common/commit-mgr.c\<close>; \<open>BranchMgr\<close>: \<open>common/branch-mgr.c\<close>; \<open>RepoMgr\<close>: the repository
    object of \<open>server/repo-mgr.c\<close>.
  \<^item> \<open>NWay\<close>, \<open>DiffSimple\<close>: \<open>common/diff-simple.c\<close>; \<open>VcCommon\<close>: \<open>common/vc-common.c\<close>; \<open>MergeNew\<close>:
    \<open>common/merge-new.c\<close>.
  \<^item> \<open>RepoOp\<close>, \<open>RepoCommit\<close>: \<open>server/repo-op.c\<close>, the changes of a tree and their commit.
  \<^item> \<open>Bloom\<close>: \<open>lib/bloom-filter.c\<close>; \<open>GcRepo\<close>, \<open>Gc\<close>: \<open>server/gc/repo-mgr.c\<close>, \<open>server/gc/gc-core.c\<close>,
    \<open>server/gc/verify.c\<close>.
  \<^item> \<open>Crypt\<close>: \<open>common/seafile-crypt.c\<close>; \<open>PasswdMgr\<close>: \<open>server/passwd-mgr.c\<close>; \<open>PackDir\<close>:
    \<open>server/pack-dir.c\<close>; \<open>ZipDownload\<close>: \<open>server/zip-download-mgr.c\<close>; \<open>WebToken\<close>:
    \<open>server/web-accesstoken-mgr.c\<close>.
  \<^item> \<open>Fsck\<close>, \<open>FsckExport\<close>: \<open>server/gc/fsck.c\<close>, the check, the repair and the export of files.
  \<^item> \<open>Quota\<close>: \<open>common/config-mgr.c\<close>, \<open>server/quota-mgr.c\<close>, with the queries of the other managers they need;
    \<open>SizeSched\<close>: \<open>server/size-sched.c\<close>.
  \<^item> \<open>RepoFiles\<close>: uploads, of \<open>server/repo-op.c\<close> and \<open>server/index-blocks-mgr.c\<close>, over \<open>RepoCommit\<close>, \<open>FileIndex\<close>,
    \<open>PasswdMgr\<close> and \<open>Quota\<close>; \<open>Upload\<close>: what an upload promises over all of them.

  \<^bold>\<open>State.\<close>  The managers of the source share one session object; here each component has a record with
  what it reads and writes: \<open>obj_store\<close>, \<open>block_store\<close>, \<open>branch_db\<close>, and the views \<open>fs_view\<close> and
  \<open>commit_view\<close> of one repository, composed in \<open>session\<close> (server) and \<open>gc_session\<close> (offline tools).
  Operations return the new state with their result; an error return of the source is a negative
  number, a None or an \<open>Inl\<close>, as in the code.

  \<^bold>\<open>Interfaces.\<close>
  \<^item> \<open>object_store\<close> (\<open>ObjStore\<close>): what a read returns after a write; interpreted on the object store and
    on the block store.
  \<^item> \<open>cas_cell\<close> (\<open>BranchMgr\<close>): a cell that is updated by compare-and-set; interpreted on the branch table.
  \<^item> \<open>tree_visitor\<close> (\<open>FsTree\<close>): a callback that marks every file of a tree; interpreted on the block lists
    and on the collector.
  \<^item> \<open>commit_visitor\<close> (\<open>CommitMgr\<close>): a callback that processes commits and may stop; interpreted on the
    collector.
  \<^item> \<open>dir_edit\<close> (\<open>RepoOp\<close>): a change of one directory's entries; interpreted on the five edits of the file
    operations.

  \<^bold>\<open>What is shown.\<close>
  Round trips: objects, commits and settings are read back as written, in both encodings, and an indexed
  file is checked out as it was.  Traversals visit exactly what is reachable and end.  The diff adds one
  entry for every change; the merge loses no change of either side and follows the three-way rule; merge
  bases are the maximal common ancestors, so two commits are compared exactly.  The file operations
  change the one directory they should and keep every tree well formed; an uploaded file is in the new head's
  tree, and what its blocks hold, deciphered, is what was uploaded; a commit becomes the head only
  on top of the head it read or merged with it, so no update is lost, and of concurrent updates one wins.
  The collector removes no block of a commit that is kept, over a Bloom filter without false negatives.
  A download that finishes holds every file of the tree, deciphered; a change of the password keeps the key of
  the data; a token grants what it was issued for, and a one-time token once when queries do not overlap.
  A repair leaves a tree of valid objects and keeps all that was valid, a healthy library as it is, and a
  dry run everything.  The size of a library that is brought up to date from the differences of two commits
  is the size a full count gives; a quota check that passes leaves room; a background upload keeps its
  progress until it is done.

  \<^bold>\<open>Fuel.\<close>  Walks of trees and histories follow stored ids, which the code does not check for cycles; they
  take a number that bounds the depth of a tree or the commits taken from a queue, and return None when
  it runs out.  \<open>populate_blocklist_terminates\<close>, \<open>commit_traversal_terminates\<close>,
  \<open>vc_compare_commits_exact\<close> and \<open>gc_returns\<close> say how much is enough: the depth of the tree, the number
  of ancestors.  Loops over data in memory are total (measures on lists and buffers).

  \<^bold>\<open>Hypotheses.\<close>  Documented behaviour of foreign code appears as named predicates on its parameters:
  \<open>doc_roundtrips\<close> and \<open>searpc_ok\<close> (jansson, zlib, searpc), \<open>env_ok\<close> and \<open>crypt_ok\<close> (the thread pool, the
  cipher), \<open>no_collision\<close> (SHA-1 on the pieces of one file), \<open>upload_ok\<close> (those of one upload),
  \<open>openssl_ok\<close> and \<open>decipher_ok\<close> (OpenSSL),
  \<open>saved_ok\<close> (what a repair writes is read back),
  \<open>archiver_ok\<close> (libarchive) and \<open>build_ok\<close> (\<open>g_build_filename\<close>), collected in \<open>pack_ok\<close> and \<open>zip_env_ok\<close>.
  Buffers that the code reads before it wrote all of them hold arbitrary bytes (\<open>os_stack\<close>).  Nothing is assumed of the database but what
  a statement returns; every kind of statement may fail.

  \<^bold>\<open>Not modelled.\<close>
  \<^item> The RPC and HTTP fronts (\<open>common/rpc-service.c\<close>, \<open>server/http-server.c\<close>, \<open>server/upload-file.c\<close>,
    \<open>server/access-file.c\<close>): argument marshalling and libevent I/O around the
    operations modelled here.
  \<^item> The user, group, organisation and share managers (\<open>common/user-mgr.c\<close>, \<open>common/group-mgr.c\<close>,
    \<open>common/org-mgr.c\<close>, \<open>server/share-mgr.c\<close>) and most of \<open>server/repo-mgr.c\<close>: single SQL statements.
  \<^item> Of \<open>server/virtual-repo.c\<close> only the lookup of an origin, of \<open>server/repo-op.c\<close> neither the operations
    between two libraries nor those on a file's history: they repeat the edits of one tree and the walks of
    one history that are modelled, over two libraries and over many commits.
  \<^item> \<open>server/repo-perm.c\<close> (queries of the sharing tables) and \<open>common/block-tx-utils.c\<close> (the ciphers of a
    protocol that is no longer spoken); in \<open>server/gc/fsck.c\<close> the thread pool, which runs the same
    function for the libraries in another order, and the modification times of exported files.
  \<^item> Threads, timers, configuration, logging and the Go, Python and FUSE programs.
  Memory management, logging and the reference counts of the C code have no counterpart.
\<close>

end
